(* ===== verification/CT_Prelude.thy ===== *)
theory CT_Prelude
  imports Main "HOL-Library.Word"
begin

text \<open>
  Shared vocabulary of the development: the machine integers of the C++ sources, bytes and
  datagrams, the collections of rewrite rules the component theories add to, and the facts
  about words, lists and block runs that more than one component needs.

  The second half of the theory is the reference notion of a \<^emph>\<open>run\<close>: the maximal intervals
  of positions on which a predicate is constant.  The bitmap scanners, the SACK encoder and the
  resume records of the transfer engine all speak about such runs.
\<close>

unbundle bit_operations_syntax

section \<open>Machine integers and bytes\<close>

type_synonym u8 = "8 word"
type_synonym u16 = "16 word"
type_synonym u32 = "32 word"
type_synonym u64 = "64 word"
type_synonym bytes = "u8 list"

named_theorems wire_simps \<open>decoding equations of the wire formats\<close>
named_theorems frame_simps \<open>fields an operation leaves alone\<close>

lemma unat_lt_u8 [simp]: "unat (x :: u8) < 256"
  using unsigned_less [of x, where 'a = nat] by simp

lemma unat_lt_u16 [simp]: "unat (x :: u16) < 65536"
  using unsigned_less [of x, where 'a = nat] by simp

lemma unat_lt_u32 [simp]: "unat (x :: u32) < 4294967296"
  using unsigned_less [of x, where 'a = nat] by simp

lemma unat_lt_u64 [simp]: "unat (x :: u64) < 18446744073709551616"
  using unsigned_less [of x, where 'a = nat] by simp

lemma unat_of_nat_u8: "n < 256 \<Longrightarrow> unat (of_nat n :: u8) = n"
  by (simp add: unat_of_nat)

lemma unat_of_nat_u16: "n < 65536 \<Longrightarrow> unat (of_nat n :: u16) = n"
  by (simp add: unat_of_nat)

lemma unat_of_nat_u32: "n < 4294967296 \<Longrightarrow> unat (of_nat n :: u32) = n"
  by (simp add: unat_of_nat)

lemma unat_of_nat_u64: "n < 18446744073709551616 \<Longrightarrow> unat (of_nat n :: u64) = n"
  by (simp add: unat_of_nat)

lemma unat_add_u32: "unat a + unat b < 4294967296 \<Longrightarrow> unat (a + b :: u32) = unat a + unat b"
  by (simp add: unat_word_ariths)

lemma unat_Suc_u32: "unat a + 1 < 4294967296 \<Longrightarrow> unat (a + 1 :: u32) = unat a + 1"
  by (simp add: unat_add_u32)

lemma unat_add_u64:
  "unat a + unat b < 18446744073709551616 \<Longrightarrow> unat (a + b :: u64) = unat a + unat b"
  by (simp add: unat_word_ariths)

lemma unat_diff_word: "b \<le> a \<Longrightarrow> unat (a - b :: 'a::len word) = unat a - unat b"
  by (simp add: unat_sub)

lemma word_eq_iff_bits:
  "(a :: 'a::len word) = b \<longleftrightarrow> (\<forall>k < LENGTH('a). bit a k = bit b k)"
  by (auto simp: bit_eq_iff dest: bit_imp_le_length)

section \<open>Maximal runs of a predicate\<close>

text \<open>
  \<open>scan P v n i\<close> is the first position at or after \<open>i\<close> that is outside the range \<open>[0, n)\<close> or on
  which \<open>P\<close> is not \<open>v\<close>; \<open>runs P v n i\<close> lists the maximal intervals of \<open>[i, n)\<close> on which \<open>P\<close> is
  \<open>v\<close>, ascending, as (start, length) pairs.
\<close>

function scan :: "(nat \<Rightarrow> bool) \<Rightarrow> bool \<Rightarrow> nat \<Rightarrow> nat \<Rightarrow> nat" where
  "scan P v n i = (if i < n \<and> P i = v then scan P v n (Suc i) else i)"
  by pat_completeness auto
termination
  by (relation "measure (\<lambda>(P, v, n, i). n - i)") auto

declare scan.simps [simp del]

lemma scan_ge: "i \<le> scan P v n i"
proof (induction P v n i rule: scan.induct)
  case (1 P v n i)
  then show ?case by (subst scan.simps) auto
qed

lemma scan_le: "i \<le> n \<Longrightarrow> scan P v n i \<le> n"
proof (induction P v n i rule: scan.induct)
  case (1 P v n i)
  then show ?case by (subst scan.simps) auto
qed

lemma scan_inside: "i \<le> k \<Longrightarrow> k < scan P v n i \<Longrightarrow> P k = v \<and> k < n"
proof (induction P v n i rule: scan.induct)
  case (1 P v n i)
  show ?case
  proof (cases "i < n \<and> P i = v")
    case True
    then have *: "scan P v n i = scan P v n (Suc i)" by (subst scan.simps) simp
    show ?thesis
    proof (cases "k = i")
      case True
      with \<open>i < n \<and> P i = v\<close> show ?thesis by simp
    next
      case False
      with "1.prems" "1.IH" True * show ?thesis by auto
    qed
  next
    case False
    with "1.prems" show ?thesis by (auto simp: scan.simps [of P v n i])
  qed
qed

lemma scan_stop: "scan P v n i < n \<Longrightarrow> P (scan P v n i) \<noteq> v"
proof (induction P v n i rule: scan.induct)
  case (1 P v n i)
  then show ?case by (cases "i < n \<and> P i = v") (auto simp: scan.simps [of P v n i])
qed

lemma scan_outside [simp]: "n \<le> i \<Longrightarrow> scan P v n i = i"
  by (subst scan.simps) simp

lemma scan_progress: "s < n \<Longrightarrow> P s = v \<Longrightarrow> s < scan P v n s"
  using scan_ge [of "Suc s" P v n] by (subst scan.simps) simp

lemma scan_unique:
  assumes "i \<le> j" and "\<And>k. i \<le> k \<Longrightarrow> k < j \<Longrightarrow> P k = v \<and> k < n"
    and "j < n \<Longrightarrow> P j \<noteq> v"
  shows "scan P v n i = j"
proof (rule ccontr)
  assume "scan P v n i \<noteq> j"
  then consider "scan P v n i < j" | "j < scan P v n i" by linarith
  then show False
  proof cases
    case 1
    with assms(2) scan_ge [of i P v n] have "P (scan P v n i) = v" "scan P v n i < n" by auto
    with scan_stop [of P v n i] show False by simp
  next
    case 2
    with scan_inside [of i j P v n] assms(1,3) show False by auto
  qed
qed

lemma scan_skip:
  assumes "i \<le> j" and "\<And>k. i \<le> k \<Longrightarrow> k < j \<Longrightarrow> P k = v \<and> k < n"
  shows "scan P v n i = scan P v n j"
proof (rule scan_unique)
  show "i \<le> scan P v n j" using assms(1) scan_ge [of j P v n] by linarith
  show "P k = v \<and> k < n" if "i \<le> k" "k < scan P v n j" for k
    using that assms(2) scan_inside [of j k P v n] by (cases "k < j") auto
  show "P (scan P v n j) \<noteq> v" if "scan P v n j < n"
    using that by (rule scan_stop)
qed

function runs :: "(nat \<Rightarrow> bool) \<Rightarrow> bool \<Rightarrow> nat \<Rightarrow> nat \<Rightarrow> (nat \<times> nat) list" where
  "runs P v n i =
     (let s = scan P (\<not> v) n i in
      if n \<le> s then [] else let e = scan P v n s in (s, e - s) # runs P v n e)"
  by pat_completeness auto
termination
proof (relation "measure (\<lambda>(P, v, n, i). n - i)", goal_cases)
  case 1
  then show ?case by simp
next
  case (2 P v n i s e)
  have "P s = v" using scan_stop [of P "\<not> v" n i] 2 by auto
  then have "s < e" using 2 scan_progress [of s n P v] by simp
  with 2 scan_ge [of i P "\<not> v" n] show ?case by auto
qed

declare runs.simps [simp del]

definition run_set :: "(nat \<times> nat) \<Rightarrow> nat set" where
  "run_set r = {fst r ..< fst r + snd r}"

definition runs_set :: "(nat \<times> nat) list \<Rightarrow> nat set" where
  "runs_set rs = (\<Union>r \<in> set rs. run_set r)"

lemma runs_set_simps [simp]:
  "runs_set [] = {}"
  "runs_set (r # rs) = run_set r \<union> runs_set rs"
  "runs_set (rs @ ts) = runs_set rs \<union> runs_set ts"
  by (auto simp: runs_set_def)

text \<open>One unfolding of \<open>runs\<close>, with everything the recursive call needs.\<close>

lemma runs_step:
  assumes "scan P (\<not> v) n i < n"
  defines "s \<equiv> scan P (\<not> v) n i"
  defines "e \<equiv> scan P v n s"
  shows "runs P v n i = (s, e - s) # runs P v n e" "i \<le> s" "s < e" "e \<le> n"
    "\<And>k. i \<le> k \<Longrightarrow> k < s \<Longrightarrow> P k \<noteq> v" "\<And>k. s \<le> k \<Longrightarrow> k < e \<Longrightarrow> P k = v"
    "e < n \<Longrightarrow> P e \<noteq> v"
proof -
  show "runs P v n i = (s, e - s) # runs P v n e"
    using assms by (subst runs.simps) (simp add: Let_def)
  show "i \<le> s" by (simp add: s_def scan_ge)
  have "P s = v" using scan_stop [of P "\<not> v" n i] assms by auto
  with assms show "s < e" using scan_progress [of s n P v] by simp
  show "e \<le> n" using assms by (simp add: scan_le)
  show "\<And>k. i \<le> k \<Longrightarrow> k < s \<Longrightarrow> P k \<noteq> v" using scan_inside [of i _ P "\<not> v" n] by (auto simp: s_def)
  show "\<And>k. s \<le> k \<Longrightarrow> k < e \<Longrightarrow> P k = v" using scan_inside [of s _ P v n] by (auto simp: e_def)
  show "e < n \<Longrightarrow> P e \<noteq> v" using scan_stop [of P v n s] by (simp add: e_def)
qed

lemma runs_done: "n \<le> scan P (\<not> v) n i \<Longrightarrow> runs P v n i = []"
  by (subst runs.simps) (simp add: Let_def)

lemma runs_set_runs: "runs_set (runs P v n i) = {k. i \<le> k \<and> k < n \<and> P k = v}"
proof (induction P v n i rule: runs.induct)
  case (1 P v n i)
  show ?case
  proof (cases "scan P (\<not> v) n i < n")
    case True
    define s where "s = scan P (\<not> v) n i"
    define e where "e = scan P v n s"
    note st = runs_step [OF True, folded s_def, folded e_def]
    have "runs_set (runs P v n e) = {k. e \<le> k \<and> k < n \<and> P k = v}"
      using "1.IH" True s_def e_def by simp
    then have "runs_set (runs P v n i) = {s ..< e} \<union> {k. e \<le> k \<and> k < n \<and> P k = v}"
      using st(1,3) by (simp add: run_set_def)
    also have "\<dots> = {k. i \<le> k \<and> k < n \<and> P k = v}"
    proof (rule set_eqI)
      fix k
      show "k \<in> {s ..< e} \<union> {k. e \<le> k \<and> k < n \<and> P k = v} \<longleftrightarrow> k \<in> {k. i \<le> k \<and> k < n \<and> P k = v}"
        using st(2-4) st(5) [of k] st(6) [of k] by (cases "k < s"; cases "k < e") auto
    qed
    finally show ?thesis .
  next
    case False
    then have "runs P v n i = []" by (simp add: runs_done)
    moreover have "P k \<noteq> v" if "i \<le> k" "k < n" for k
      using scan_inside [of i k P "\<not> v" n] that False by auto
    ultimately show ?thesis by auto
  qed
qed

text \<open>Runs are non-empty, inside the range, ascending and separated by a gap.\<close>

definition runs_ok :: "nat \<Rightarrow> nat \<Rightarrow> (nat \<times> nat) list \<Rightarrow> bool" where
  "runs_ok lo hi rs \<longleftrightarrow>
     (\<forall>r \<in> set rs. 0 < snd r \<and> lo \<le> fst r \<and> fst r + snd r \<le> hi) \<and>
     sorted_wrt (\<lambda>a b. fst a + snd a < fst b) rs"

lemma runs_ok_runs: "runs_ok i n (runs P v n i)"
proof (induction P v n i rule: runs.induct)
  case (1 P v n i)
  show ?case
  proof (cases "scan P (\<not> v) n i < n")
    case True
    define s where "s = scan P (\<not> v) n i"
    define e where "e = scan P v n s"
    note st = runs_step [OF True, folded s_def, folded e_def]
    have IH: "runs_ok e n (runs P v n e)" using "1.IH" True s_def e_def by simp
    have sep: "e < fst r" if r: "r \<in> set (runs P v n e)" for r
    proof -
      have "fst r \<in> run_set r" using IH r by (auto simp: runs_ok_def run_set_def)
      then have "fst r \<in> runs_set (runs P v n e)" using r by (auto simp: runs_set_def)
      then have "e \<le> fst r" "fst r < n" "P (fst r) = v" by (auto simp: runs_set_runs)
      with st(7) show ?thesis by (cases "fst r = e") auto
    qed
    show ?thesis
      using IH sep st(2-4) unfolding st(1) runs_ok_def by fastforce
  next
    case False
    then show ?thesis by (simp add: runs_done runs_ok_def)
  qed
qed

lemma runs_ok_take: "runs_ok lo hi rs \<Longrightarrow> runs_ok lo hi (take m rs)"
  by (auto simp: runs_ok_def sorted_wrt_take dest: in_set_takeD)

lemma runs_set_take: "runs_set (take m rs) \<subseteq> runs_set rs"
  by (auto simp: runs_set_def dest: in_set_takeD)


section \<open>Splitting a list at a separator\<close>

lemma tl_dropWhile_shorter: "dropWhile P xs \<noteq> [] \<Longrightarrow> length (tl (dropWhile P xs)) < length xs"
  using length_dropWhile_le[of P xs] by (cases "dropWhile P xs") auto

text \<open>The pieces of a list between the occurrences of a separator, the way a split loop cuts it.\<close>

function split_on :: "'a \<Rightarrow> 'a list \<Rightarrow> 'a list list" where
  "split_on s xs =
     (let rest = dropWhile (\<lambda>x. x \<noteq> s) xs in
      takeWhile (\<lambda>x. x \<noteq> s) xs # (if rest = [] then [] else split_on s (tl rest)))"
  by pat_completeness auto
termination
  by (relation "measure (length \<circ> snd)") (simp_all add: tl_dropWhile_shorter del: length_tl)

declare split_on.simps [simp del]

lemma split_on_sep: "p \<in> set (split_on s xs) \<Longrightarrow> s \<notin> set p"
proof (induction s xs rule: split_on.induct)
  case (1 s xs)
  then show ?case
    by (subst (asm) (2) split_on.simps) (auto simp: Let_def split: if_splits dest: set_takeWhileD)
qed

fun join_on :: "'a \<Rightarrow> 'a list list \<Rightarrow> 'a list" where
  "join_on s [] = []"
| "join_on s [p] = p"
| "join_on s (p # q # ps) = p @ s # join_on s (q # ps)"

lemma split_on_nonempty [simp]: "split_on s xs \<noteq> []"
  by (subst split_on.simps) (simp add: Let_def)

lemma split_on_Nil [simp]: "split_on s [] = [[]]"
  by (subst split_on.simps) simp

lemma dropWhile_neq_Cons: "dropWhile (\<lambda>x. x \<noteq> s) xs \<noteq> [] \<Longrightarrow> s # tl (dropWhile (\<lambda>x. x \<noteq> s) xs) = dropWhile (\<lambda>x. x \<noteq> s) xs"
  by (induction xs) auto

lemma join_split_on [simp]: "join_on s (split_on s xs) = xs"
proof (induction s xs rule: split_on.induct)
  case (1 s xs)
  show ?case
  proof (cases "dropWhile (\<lambda>x. x \<noteq> s) xs = []")
    case True
    then show ?thesis by (subst split_on.simps) (simp add: takeWhile_eq_all_conv)
  next
    case False
    have "join_on s (p # qs) = p @ s # join_on s qs" if "qs \<noteq> []" for p qs
      using that by (cases qs) simp_all
    then have "join_on s (split_on s xs) = takeWhile (\<lambda>x. x \<noteq> s) xs @ s # tl (dropWhile (\<lambda>x. x \<noteq> s) xs)"
      using False 1[OF refl False] by (subst split_on.simps) (simp add: Let_def del: dropWhile_eq_Nil_conv)
    then show ?thesis using dropWhile_neq_Cons[OF False] by simp
  qed
qed

lemma split_on_snoc_sep: "xs \<noteq> [] \<Longrightarrow> hd xs = s \<Longrightarrow> [] \<in> set (split_on s xs)"
  by (cases xs, simp, subst split_on.simps) (simp add: Let_def)

lemma word_of_unat: "unat w = n \<Longrightarrow> w = of_nat n"
  by auto

lemma all_u8: "(\<forall>c::u8. P c) \<longleftrightarrow> list_all (\<lambda>n. P (of_nat n)) [0..<256]"
proof -
  have "P c" if "list_all (\<lambda>n. P (of_nat n)) [0..<256]" for c :: u8
  proof -
    have "unat c \<in> set [0..<256]" by simp
    with that have "P (of_nat (unat c))" unfolding list_all_iff by blast
    then show ?thesis by simp
  qed
  then show ?thesis unfolding list_all_iff by blast
qed


section \<open>Ordered maps\<close>

text \<open>A \<^verbatim>\<open>std::map\<close> as the list of its entries in key order.\<close>

fun omap_put :: "'k::linorder \<Rightarrow> 'v \<Rightarrow> ('k \<times> 'v) list \<Rightarrow> ('k \<times> 'v) list" where
  "omap_put k v [] = [(k, v)]"
| "omap_put k v ((a, b) # m) =
     (if k < a then (k, v) # (a, b) # m else if k = a then (k, v) # m else (a, b) # omap_put k v m)"

lemma map_of_omap_put: "map_of (omap_put k v m) = (map_of m)(k \<mapsto> v)"
  by (induction m rule: omap_put.induct[of _ k v]) (auto simp: fun_eq_iff)

lemma set_omap_put: "set (omap_put k v m) \<subseteq> insert (k, v) (set m)"
  by (induction k v m rule: omap_put.induct) auto

lemma sorted_omap_put: "sorted_wrt (<) (map fst m) \<Longrightarrow> sorted_wrt (<) (map fst (omap_put k v m))"
proof (induction k v m rule: omap_put.induct)
  case (2 k v a b m)
  have "a < fst x" if "x \<in> set (omap_put k v m)" "a < k" for x
    using that set_omap_put[of k v m] "2.prems" by auto
  with 2 show ?case by auto
qed simp

end
