(* ===== verification/Protocol.thy ===== *)
theory Protocol
  imports CT_Prelude
begin

text \<open>
  The wire-protocol constants shared by the two transfer engines
  (\<^verbatim>\<open>core/src/transfer/protocol.h\<close>) and the run type of
  \<^verbatim>\<open>block_codec.h\<close>.  Sizes of C++ type \<^verbatim>\<open>size_t\<close> are natural numbers; the byte and
  16-bit constants keep their width.
\<close>

definition kProtoVersion :: u8 where "kProtoVersion = 1"
definition kMaxDatagram :: nat where "kMaxDatagram = 1150"
definition kBlockMagic :: u16 where "kBlockMagic = 0x4342"
definition kBlockHeaderSize :: nat where "kBlockHeaderSize = 12"
definition kBlockPayloadSize :: nat where "kBlockPayloadSize = 1100"
definition kBlockFlagLast :: u8 where "kBlockFlagLast = 1"
definition kSackMagic :: u16 where "kSackMagic = 0x4353"
definition kSackHeaderSize :: nat where "kSackHeaderSize = 28"
definition kSackRunSize :: nat where "kSackRunSize = 8"
definition kSackMaxRuns :: nat where
  "kSackMaxRuns = (kMaxDatagram - kSackHeaderSize) div kSackRunSize"
definition kSackFlagComplete :: u8 where "kSackFlagComplete = 1"
definition kMaxFilesPerTransfer :: nat where "kMaxFilesPerTransfer = 65535"
definition kMaxFileSize :: nat where "kMaxFileSize = kBlockPayloadSize * 0xFFFFFFFF"
definition kMaxCtrlMessage :: nat where "kMaxCtrlMessage = 16 * 1024 * 1024"
definition kCtrlChunk :: nat where "kCtrlChunk = 16 * 1024"
definition kSackIntervalMs :: nat where "kSackIntervalMs = 60"
definition kSackCompleteRepeatMs :: nat where "kSackCompleteRepeatMs = 200"
definition kRepairMinHoldMs :: nat where "kRepairMinHoldMs = 120"

lemmas block_consts = kBlockMagic_def kBlockHeaderSize_def kBlockPayloadSize_def
  kBlockFlagLast_def kProtoVersion_def
lemmas sack_consts = kSackMagic_def kSackHeaderSize_def kSackRunSize_def kSackMaxRuns_def
  kSackFlagComplete_def kProtoVersion_def kMaxDatagram_def
lemmas ctrl_consts = kMaxCtrlMessage_def kCtrlChunk_def

text \<open>The transport path a session observes, of \<^verbatim>\<open>minirtc/src/api/minirtc.h\<close>.\<close>

datatype MiniRtcPath = PathUnknown | PathP2P | PathTurn | PathWsRelay

text \<open>A run of consecutive block indices \<open>[start, start + length)\<close>.\<close>

record sack_run =
  run_start :: u32
  run_length :: u32

text \<open>The run as a pair of numbers, and the blocks it names.\<close>

definition run_pair :: "sack_run \<Rightarrow> nat \<times> nat" where
  "run_pair r = (unat (run_start r), unat (run_length r))"

definition run_blocks :: "sack_run \<Rightarrow> nat set" where
  "run_blocks r = run_set (run_pair r)"

definition mk_run :: "u32 \<Rightarrow> u32 \<Rightarrow> sack_run" where
  "mk_run s n = \<lparr>run_start = s, run_length = n\<rparr>"

lemma run_sel_mk_run [simp]: "run_start (mk_run s n) = s" "run_length (mk_run s n) = n"
  by (simp_all add: mk_run_def)

lemma run_pair_mk_run [simp]: "run_pair (mk_run s n) = (unat s, unat n)"
  by (simp add: run_pair_def)

lemma run_blocks_iff:
  "k \<in> run_blocks r \<longleftrightarrow> unat (run_start r) \<le> k \<and> k < unat (run_start r) + unat (run_length r)"
  by (simp add: run_blocks_def run_pair_def run_set_def)

end
