(* ===== verification/Bitmap.thy ===== *)
theory Bitmap
  imports Protocol
begin

text \<open>
  The per-file received-block bitmap, \<^verbatim>\<open>core/src/transfer/bitmap.{h,cpp}\<close>.

  The class is a vector of 64-bit words, the number of valid bits, the number of set bits and a
  cached lower bound for the first unset bit.  \<open>bm_set\<close> reads it as a set of block numbers; every
  operation is shown to act on that set, and the scanners \<open>Holes\<close> and \<open>HaveRuns\<close> (which jump over
  whole words) are shown to compute the reference runs of \<open>CT_Prelude\<close>.  The scanners are
  \<^theory_text>\<open>partial_function\<close>s, since the C++ loops need not stop: their 32-bit cursor wraps when the
  bitmap is within 64 bits of the full 32-bit range.
\<close>

section \<open>State and operations\<close>

record bitmap =
  bm_words :: "u64 list"
  bm_size :: u32
  bm_count :: u32
  bm_ack :: u32

definition bm_Reset :: "u32 \<Rightarrow> bitmap" where
  "bm_Reset block_count =
     \<lparr>bm_words = replicate ((unat block_count + 63) div 64) 0,
      bm_size = block_count, bm_count = 0, bm_ack = 0\<rparr>"

definition bm_Complete :: "bitmap \<Rightarrow> bool" where
  "bm_Complete b \<longleftrightarrow> bm_count b = bm_size b"

definition bm_Test :: "bitmap \<Rightarrow> u32 \<Rightarrow> bool" where
  "bm_Test b index =
     (if bm_size b \<le> index then False
      else drop_bit (unat (index mod 64)) (bm_words b ! unat (index div 64)) AND 1 \<noteq> 0)"

definition bm_Set :: "u32 \<Rightarrow> bitmap \<Rightarrow> bool \<times> bitmap" where
  "bm_Set index b =
     (if bm_size b \<le> index then (False, b)
      else let w = bm_words b ! unat (index div 64);
               m = push_bit (unat (index mod 64)) 1
           in if w AND m \<noteq> 0 then (False, b)
              else (True, b\<lparr>bm_words := (bm_words b)[unat (index div 64) := w OR m],
                            bm_count := bm_count b + 1\<rparr>))"

text \<open>\<^verbatim>\<open>__builtin_ctzll\<close>: the number of trailing zero bits.\<close>

definition ctzll :: "u64 \<Rightarrow> nat" where
  "ctzll w = length (takeWhile (\<lambda>k. \<not> bit w k) [0..<64])"

text \<open>The loop of \<^verbatim>\<open>AckBase\<close>; the cursor is cast back to 32 bits at every jump.\<close>

partial_function (option) AckBase_loop :: "bitmap \<Rightarrow> u32 \<Rightarrow> u32 option" where
  "AckBase_loop b i =
     (if i < bm_size b then
        (let wi = unat (i div 64); w = bm_words b ! wi in
         if w = NOT 0 then AckBase_loop b (of_nat ((wi + 1) * 64))
         else (let masked = NOT w AND push_bit (unat (i mod 64)) (NOT 0) in
               if masked = 0 then AckBase_loop b (of_nat ((wi + 1) * 64))
               else Some (of_nat (wi * 64 + ctzll masked))))
      else Some i)"

text \<open>\<^verbatim>\<open>AckBase\<close> returns the base and refreshes the cache.\<close>

definition bm_AckBase :: "bitmap \<Rightarrow> (u32 \<times> bitmap) option" where
  "bm_AckBase b =
     (case AckBase_loop b (bm_ack b) of
        None \<Rightarrow> None
      | Some i \<Rightarrow> (let i' = (if bm_size b < i then bm_size b else i)
                   in Some (i', b\<lparr>bm_ack := i'\<rparr>)))"

text \<open>
  The inner loops of \<^verbatim>\<open>Holes\<close> and \<^verbatim>\<open>HaveRuns\<close>: advance while the bit equals \<open>v\<close>, a whole word at a
  time when the cursor is aligned and the word is uniform.
\<close>

partial_function (option) skip_loop :: "bitmap \<Rightarrow> bool \<Rightarrow> u32 \<Rightarrow> u32 option" where
  "skip_loop b v i =
     (if i < bm_size b \<and> bm_Test b i = v then
        (if i mod 64 = 0 \<and> bm_words b ! unat (i div 64) = (if v then NOT 0 else 0)
         then skip_loop b v (i + 64)
         else skip_loop b v (i + 1))
      else Some i)"

text \<open>The outer loop, for unset (\<open>v = False\<close>) or set (\<open>v = True\<close>) runs.\<close>

partial_function (option) runs_loop ::
    "bitmap \<Rightarrow> bool \<Rightarrow> nat \<Rightarrow> u32 \<Rightarrow> sack_run list \<Rightarrow> sack_run list option" where
  "runs_loop b v max_runs i out =
     (if i < bm_size b \<and> length out < max_runs then
        Option.bind (skip_loop b (\<not> v) i) (\<lambda>i.
          if bm_size b \<le> i then Some out
          else Option.bind (skip_loop b v i) (\<lambda>j.
            let j' = (if bm_size b < j then bm_size b else j)
            in runs_loop b v max_runs j' (out @ [mk_run i (j' - i)])))
      else Some out)"

definition bm_Holes :: "u32 \<Rightarrow> nat \<Rightarrow> bitmap \<Rightarrow> (sack_run list \<times> bitmap) option" where
  "bm_Holes frm max_runs b =
     (if max_runs = 0 then Some ([], b)
      else Option.bind (bm_AckBase b) (\<lambda>(base, b').
             map_option (\<lambda>out. (out, b')) (runs_loop b' False max_runs (max frm base) [])))"

definition bm_HaveRuns :: "nat \<Rightarrow> bitmap \<Rightarrow> sack_run list option" where
  "bm_HaveRuns max_runs b =
     (if max_runs = 0 then Some [] else runs_loop b True max_runs 0 [])"

text \<open>\<^verbatim>\<open>SetRuns\<close>: the 64-bit end of every run is clipped to the bitmap.\<close>

fun set_range :: "nat \<Rightarrow> u32 \<Rightarrow> bitmap \<Rightarrow> bitmap" where
  "set_range 0 i b = b"
| "set_range (Suc n) i b = set_range n (i + 1) (snd (bm_Set i b))"

definition set_run :: "sack_run \<Rightarrow> bitmap \<Rightarrow> bitmap" where
  "set_run r b =
     (if bm_size b \<le> run_start r then b
      else let end64 = unat (run_start r) + unat (run_length r);
               e = (if unat (bm_size b) < end64 then unat (bm_size b) else end64)
           in set_range (e - unat (run_start r)) (run_start r) b)"

definition bm_SetRuns :: "sack_run list \<Rightarrow> bitmap \<Rightarrow> bitmap" where
  "bm_SetRuns rs b = fold set_run rs b"

section \<open>The blocks of a bitmap and its invariant\<close>

definition bm_has :: "bitmap \<Rightarrow> nat \<Rightarrow> bool" where
  "bm_has b k \<longleftrightarrow> k < unat (bm_size b) \<and> bit (bm_words b ! (k div 64)) (k mod 64)"

definition bm_set :: "bitmap \<Rightarrow> nat set" where
  "bm_set b = {k. bm_has b k}"

definition bm_wf :: "bitmap \<Rightarrow> bool" where
  "bm_wf b \<longleftrightarrow>
     length (bm_words b) = (unat (bm_size b) + 63) div 64 \<and>
     (\<forall>k. unat (bm_size b) \<le> k \<longrightarrow> k < 64 * length (bm_words b) \<longrightarrow>
        \<not> bit (bm_words b ! (k div 64)) (k mod 64)) \<and>
     unat (bm_count b) = card (bm_set b) \<and>
     bm_ack b \<le> bm_size b \<and> {0 ..< unat (bm_ack b)} \<subseteq> bm_set b"


lemma bm_set_iff [simp]: "k \<in> bm_set b \<longleftrightarrow> bm_has b k"
  by (simp add: bm_set_def)

lemma bm_has_size: "bm_has b k \<Longrightarrow> k < unat (bm_size b)"
  by (simp add: bm_has_def)

lemma bm_set_subset: "bm_set b \<subseteq> {0 ..< unat (bm_size b)}"
  by (auto dest: bm_has_size)

lemma finite_bm_set [simp]: "finite (bm_set b)"
  using bm_set_subset finite_subset by blast

lemma unat_div_64 [simp]: "unat ((i :: u32) div 64) = unat i div 64"
  by (simp add: unat_div_distrib)

lemma unat_mod_64 [simp]: "unat ((i :: u32) mod 64) = unat i mod 64"
  by (simp add: unat_mod_distrib)

lemma and_drop_bit_one: "drop_bit k (w :: 'a::len word) AND 1 \<noteq> 0 \<longleftrightarrow> bit w k"
  by (simp add: and_one_eq bit_iff_odd_drop_bit odd_iff_mod_2_eq_one)

lemma and_exp_iff:
  assumes "k < LENGTH('a)"
  shows "(w :: 'a::len word) AND 2 ^ k = 0 \<longleftrightarrow> \<not> bit w k"
proof
  assume "w AND 2 ^ k = 0"
  then have "\<not> bit (w AND 2 ^ k) k" by simp
  with assms show "\<not> bit w k" by (simp add: bit_and_iff bit_exp_iff)
next
  assume "\<not> bit w k"
  then have "\<not> bit (w AND 2 ^ k) n" for n by (auto simp: bit_and_iff bit_exp_iff)
  then show "w AND 2 ^ k = 0" by (simp add: bit_eq_iff)
qed

lemma bm_Test_iff [simp]: "bm_Test b i \<longleftrightarrow> bm_has b (unat i)"
  by (simp add: bm_Test_def bm_has_def and_drop_bit_one word_le_nat_alt)

text \<open>Every word access of a well-formed bitmap is inside the vector.\<close>

lemma bm_word_index:
  "bm_wf b \<Longrightarrow> k < unat (bm_size b) \<Longrightarrow> k div 64 < length (bm_words b)"
  by (auto simp: bm_wf_def)

lemma bm_wf_Reset [simp]: "bm_wf (bm_Reset n)"
proof -
  have "k < 64 * ((unat n + 63) div 64) \<Longrightarrow> k div 64 < (unat n + 63) div 64" for k
    by (simp add: less_mult_imp_div_less mult.commute)
  then have "bm_set (bm_Reset n) = {}" by (auto simp: bm_has_def bm_Reset_def)
  then show ?thesis by (auto simp: bm_wf_def bm_Reset_def less_mult_imp_div_less mult.commute)
qed

lemma bm_has_Reset [simp]: "\<not> bm_has (bm_Reset n) k"
  by (auto simp: bm_has_def bm_Reset_def)

lemma bm_size_Reset [simp]: "bm_size (bm_Reset n) = n"
  by (simp add: bm_Reset_def)

text \<open>The three outcomes of \<^verbatim>\<open>Set\<close>: out of range, already set, newly set.\<close>

lemma bm_Set_skip: "bm_size b \<le> i \<or> bm_has b (unat i) \<Longrightarrow> bm_Set i b = (False, b)"
  by (auto simp: bm_Set_def Let_def bm_has_def and_exp_iff word_le_nat_alt)

lemma bm_Set_new:
  assumes "\<not> bm_size b \<le> i" and "\<not> bm_has b (unat i)"
  shows "bm_Set i b =
    (True, b\<lparr>bm_words := (bm_words b)[unat i div 64 :=
                bm_words b ! (unat i div 64) OR push_bit (unat i mod 64) 1],
             bm_count := bm_count b + 1\<rparr>)"
  using assms by (auto simp: bm_Set_def Let_def bm_has_def and_exp_iff word_le_nat_alt)

lemma bm_size_Set [simp]: "bm_size (snd (bm_Set i b)) = bm_size b"
  by (simp add: bm_Set_def Let_def)

lemma bm_ack_Set [simp]: "bm_ack (snd (bm_Set i b)) = bm_ack b"
  by (simp add: bm_Set_def Let_def)

lemma bm_has_Set:
  assumes "bm_wf b"
  shows "bm_has (snd (bm_Set i b)) k \<longleftrightarrow> bm_has b k \<or> (k = unat i \<and> i < bm_size b)"
proof (cases "bm_size b \<le> i \<or> bm_has b (unat i)")
  case True
  then show ?thesis by (auto simp: bm_Set_skip word_le_nat_alt word_less_nat_alt)
next
  case False
  then have i: "unat i < unat (bm_size b)" by (simp add: word_le_nat_alt)
  have eq: "k = unat i" if "k div 64 = unat i div 64" "k mod 64 = unat i mod 64"
    using that by (metis mult_div_mod_eq)
  show ?thesis
    using False i bm_word_index [OF assms i] eq
    by (cases "k div 64 = unat i div 64")
       (auto simp: bm_Set_new bm_has_def bit_or_iff bit_exp_iff word_less_nat_alt)
qed

lemma fst_bm_Set [simp]: "fst (bm_Set i b) \<longleftrightarrow> i < bm_size b \<and> \<not> bm_has b (unat i)"
  by (cases "bm_size b \<le> i \<or> bm_has b (unat i)") (auto simp: bm_Set_skip bm_Set_new not_less)

lemma bm_count_le: "bm_wf b \<Longrightarrow> unat (bm_count b) \<le> unat (bm_size b)"
  using card_mono [OF _ bm_set_subset, of b] by (simp add: bm_wf_def)

lemma bm_wf_Set:
  assumes wf: "bm_wf b"
  shows "bm_wf (snd (bm_Set i b))"
proof (cases "bm_size b \<le> i \<or> bm_has b (unat i)")
  case True
  with wf show ?thesis by (simp add: bm_Set_skip)
next
  case False
  then have i: "unat i < unat (bm_size b)" by (simp add: word_le_nat_alt)
  let ?b = "snd (bm_Set i b)"
  have set: "bm_set ?b = insert (unat i) (bm_set b)"
    using i by (auto simp: bm_has_Set [OF wf] word_less_nat_alt)
  have "card (bm_set ?b) = Suc (card (bm_set b))" using False by (simp add: set)
  moreover have "bm_set ?b \<subseteq> {0 ..< unat (bm_size b)}" using bm_set_subset [of ?b] by simp
  then have "card (bm_set ?b) \<le> unat (bm_size b)"
    using card_mono [of "{0 ..< unat (bm_size b)}" "bm_set ?b"] by simp
  ultimately have c: "unat (bm_count b) + 1 \<le> unat (bm_size b)" using wf by (simp add: bm_wf_def)
  then have "unat (bm_count b) + 1 < 4294967296" using unat_lt_u32 [of "bm_size b"] by linarith
  then have "unat (bm_count ?b) = card (bm_set ?b)"
    using False wf \<open>card (bm_set ?b) = _\<close> by (simp add: bm_Set_new bm_wf_def unat_Suc_u32)
  moreover have "\<not> bit (bm_words ?b ! (k div 64)) (k mod 64)"
    if k: "unat (bm_size b) \<le> k" "k < 64 * length (bm_words b)" for k
  proof -
    have old: "\<not> bit (bm_words b ! (k div 64)) (k mod 64)" using wf k by (simp add: bm_wf_def)
    have "k \<noteq> unat i" using i k by simp
    then have "k div 64 = unat i div 64 \<longrightarrow> k mod 64 \<noteq> unat i mod 64"
      by (metis mult_div_mod_eq)
    with old bm_word_index [OF wf i] False show ?thesis
      by (cases "k div 64 = unat i div 64") (auto simp: bm_Set_new bit_or_iff bit_exp_iff)
  qed
  ultimately show ?thesis
    using wf False set by (auto simp: bm_wf_def bm_Set_new)
qed

text \<open>A bitmap is complete exactly when it holds every block.\<close>

lemma bm_Complete_iff:
  assumes "bm_wf b"
  shows "bm_Complete b \<longleftrightarrow> bm_set b = {0 ..< unat (bm_size b)}"
proof -
  have "card (bm_set b) = unat (bm_size b) \<longleftrightarrow> bm_set b = {0 ..< unat (bm_size b)}"
    using card_subset_eq [of "{0 ..< unat (bm_size b)}" "bm_set b"] bm_set_subset by fastforce
  then show ?thesis using assms by (simp add: bm_Complete_def bm_wf_def word_unat_eq_iff)
qed

section \<open>The scanners compute the reference runs\<close>

abbreviation bm_bits :: "bitmap \<Rightarrow> nat" where
  "bm_bits b \<equiv> unat (bm_size b)"

lemma ctzll_spec:
  assumes "m \<noteq> 0"
  shows "ctzll m < 64" "bit m (ctzll m)" "\<And>k. k < ctzll m \<Longrightarrow> \<not> bit m k"
proof -
  from assms obtain k0 where k0: "k0 < 64" "bit m k0"
    using bit_eq_iff [of m 0] bit_imp_le_length [of m] by auto
  have lt: "length (takeWhile (\<lambda>k. \<not> bit m k) [0..<64]) < length [0..<64::nat]"
  proof (rule ccontr)
    assume "\<not> ?thesis"
    then have "takeWhile (\<lambda>k. \<not> bit m k) [0..<64] = [0..<64]"
      by (metis length_takeWhile_le le_neq_implies_less takeWhile_eq_take take_all_iff)
    then show False using k0 set_takeWhileD [of k0 "\<lambda>k. \<not> bit m k" "[0..<64]"] by auto
  qed
  then show "ctzll m < 64" by (simp add: ctzll_def)
  show "bit m (ctzll m)"
    using nth_length_takeWhile [OF lt] lt by (simp add: ctzll_def)
  show "\<not> bit m k" if "k < ctzll m" for k
  proof -
    have "takeWhile (\<lambda>k. \<not> bit m k) [0..<64] ! k \<in> set (takeWhile (\<lambda>k. \<not> bit m k) [0..<64])"
      using that by (simp add: ctzll_def)
    moreover have "takeWhile (\<lambda>k. \<not> bit m k) [0..<64] ! k = k"
      using that lt by (simp add: ctzll_def takeWhile_nth)
    ultimately show ?thesis using set_takeWhileD by metis
  qed
qed

text \<open>Positions of one word.\<close>

lemma same_word:
  fixes a k :: nat
  assumes "a \<le> k" "k < (a div 64 + 1) * 64"
  shows "k div 64 = a div 64" "a mod 64 \<le> k mod 64"
proof -
  show "k div 64 = a div 64"
    using assms(2) div_le_mono [OF assms(1), of 64]
    by (simp add: div_less_iff_less_mult le_antisym less_Suc_eq_le)
  then show "a mod 64 \<le> k mod 64" using assms(1)
    by (metis div_mult_mod_eq nat_add_left_cancel_le)
qed

text \<open>When every bit of a word from the cursor on is set, the word lies inside the bitmap.\<close>

lemma bm_full_tail:
  assumes wf: "bm_wf b" and i: "unat i < bm_bits b"
    and full: "\<And>k. unat i mod 64 \<le> k \<Longrightarrow> k < 64 \<Longrightarrow> bit (bm_words b ! (unat i div 64)) k"
  shows "(unat i div 64 + 1) * 64 \<le> bm_bits b"
    "unat (of_nat ((unat i div 64 + 1) * 64) :: u32) = (unat i div 64 + 1) * 64"
    "unat i < (unat i div 64 + 1) * 64"
    "\<And>k. unat i \<le> k \<Longrightarrow> k < (unat i div 64 + 1) * 64 \<Longrightarrow> bm_has b k = True \<and> k < bm_bits b"
proof -
  let ?w = "unat i div 64"
  have wi: "?w < length (bm_words b)" using bm_word_index [OF wf i] .
  show lt: "unat i < (?w + 1) * 64" using div_mult_mod_eq [of "unat i" 64] by simp
  show le: "(?w + 1) * 64 \<le> bm_bits b"
  proof (rule ccontr)
    assume neg: "\<not> ?thesis"
    let ?k = "?w * 64 + 63"
    have "?k < 64 * length (bm_words b)" using wi by linarith
    moreover have "bm_bits b \<le> ?k" using neg by simp
    ultimately have "\<not> bit (bm_words b ! (?k div 64)) (?k mod 64)"
      using wf unfolding bm_wf_def by blast
    then show False using full [of 63] by simp
  qed
  then show "unat (of_nat ((?w + 1) * 64) :: u32) = (?w + 1) * 64"
    using unat_lt_u32 [of "bm_size b"] by (intro unat_of_nat_u32) linarith
  show "bm_has b k = True \<and> k < bm_bits b" if k: "unat i \<le> k" "k < (?w + 1) * 64" for k
  proof -
    show ?thesis using same_word [OF k] full [of "k mod 64"] k le by (simp add: bm_has_def)
  qed
qed

abbreviation ack_mask :: "bitmap \<Rightarrow> u32 \<Rightarrow> u64" where
  "ack_mask b i \<equiv> NOT (bm_words b ! (unat i div 64)) AND push_bit (unat i mod 64) (NOT 0)"

lemma ack_mask_bit: "bit (ack_mask b i) k \<longleftrightarrow> unat i mod 64 \<le> k \<and> k < 64 \<and> \<not> bit (bm_words b ! (unat i div 64)) k"
  by (auto simp: bit_simps)

lemma ack_word_full:
  assumes "bm_words b ! (unat i div 64) = NOT 0 \<or> ack_mask b i = 0" "unat i mod 64 \<le> k" "k < 64"
  shows "bit (bm_words b ! (unat i div 64)) k"
proof (cases "bm_words b ! (unat i div 64) = NOT 0")
  case True
  with assms(3) show ?thesis by (simp add: bit_simps)
next
  case False
  with assms(1) have "ack_mask b i = 0" by blast
  then have "\<not> bit (ack_mask b i) k" by (simp only: bit_0_eq bot_apply) simp
  with assms(2,3) ack_mask_bit [of b i k] show ?thesis by simp
qed

text \<open>The first zero of the word is the first hole.\<close>

lemma ack_word_hole:
  assumes wf: "bm_wf b" and i: "unat i < bm_bits b" and m: "ack_mask b i \<noteq> 0"
  shows "scan (bm_has b) True (bm_bits b) (unat i) = unat i div 64 * 64 + ctzll (ack_mask b i)"
    "unat i div 64 * 64 + ctzll (ack_mask b i) < 4294967296"
proof -
  let ?w = "bm_words b ! (unat i div 64)" and ?j = "unat i div 64 * 64 + ctzll (ack_mask b i)"
  note c = ctzll_spec [OF m]
  have mj: "unat i mod 64 \<le> ctzll (ack_mask b i)" "\<not> bit ?w (ctzll (ack_mask b i))" using c(2) ack_mask_bit by auto
  have ij: "unat i \<le> ?j" using mj(1) div_mult_mod_eq [of "unat i" 64] by linarith
  have wi: "unat i div 64 < length (bm_words b)" using bm_word_index [OF wf i] .
  have dm: "?j div 64 = unat i div 64" "?j mod 64 = ctzll (ack_mask b i)" using c(1) by simp_all
  have bits: "bit ?w (k mod 64)" "k div 64 = unat i div 64" if k: "unat i \<le> k" "k < ?j" for k
  proof -
    have "k < (unat i div 64 + 1) * 64" using k(2) c(1) unfolding distrib_right by linarith
    note sw = same_word [OF k(1) this]
    show "k div 64 = unat i div 64" by (rule sw(1))
    have "k mod 64 < ctzll (ack_mask b i)" using k(2) sw(1) div_mult_mod_eq [of k 64] by linarith
    note sw(2) this
    then show "bit ?w (k mod 64)" using c(3) [of "k mod 64"] ack_mask_bit [of b i "k mod 64"] by auto
  qed
  have inside: "bm_has b k = True \<and> k < bm_bits b" if k: "unat i \<le> k" "k < ?j" for k
  proof -
    have "k < 64 * length (bm_words b)" using k(2) c(1) wi by linarith
    moreover have "bit (bm_words b ! (k div 64)) (k mod 64)" using bits [OF k] by simp
    ultimately have "k < bm_bits b" using wf unfolding bm_wf_def by (meson not_less)
    then show ?thesis using bits [OF k] by (simp add: bm_has_def)
  qed
  show "scan (bm_has b) True (bm_bits b) (unat i) = ?j"
    using ij inside mj(2) dm by (intro scan_unique) (auto simp: bm_has_def)
  have "unat i div 64 < 67108864" using unat_lt_u32 [of i] by linarith
  then show "?j < 4294967296" using c(1) by linarith
qed

lemma AckBase_loop_spec:
  assumes wf: "bm_wf b" and "i \<le> bm_size b"
  shows "\<exists>j. AckBase_loop b i = Some j \<and> unat j = scan (bm_has b) True (bm_bits b) (unat i)"
  using assms(2)
proof (induction "bm_bits b - unat i" arbitrary: i rule: less_induct)
  case less
  let ?n = "bm_bits b" and ?w = "bm_words b ! (unat i div 64)"
  let ?i' = "of_nat ((unat i div 64 + 1) * 64) :: u32"
  show ?case
  proof (cases "i < bm_size b")
    case False
    with less.prems show ?thesis
      by (subst AckBase_loop.simps) (simp add: word_less_nat_alt word_le_nat_alt)
  next
    case True
    then have i: "unat i < ?n" by (simp add: word_less_nat_alt)
    consider "?w = NOT 0 \<or> ack_mask b i = 0" | "?w \<noteq> NOT 0" "ack_mask b i \<noteq> 0" by blast
    then show ?thesis
    proof cases
      case 1
      note t = bm_full_tail [OF wf i ack_word_full [OF 1]]
      have "AckBase_loop b i = AckBase_loop b ?i'"
        using 1 True by (subst AckBase_loop.simps) (auto simp: Let_def)
      moreover have "?n - unat ?i' < ?n - unat i" and "?i' \<le> bm_size b"
        using t(1-3) i by (simp_all add: word_le_nat_alt)
      then have "\<exists>j. AckBase_loop b ?i' = Some j \<and> unat j = scan (bm_has b) True ?n (unat ?i')"
        by (rule less.hyps)
      moreover have "scan (bm_has b) True ?n (unat i) = scan (bm_has b) True ?n (unat ?i')"
        using t by (intro scan_skip) auto
      ultimately show ?thesis by simp
    next
      case 2
      note h = ack_word_hole [OF wf i 2(2)]
      have "unat (of_nat (unat i div 64 * 64 + ctzll (ack_mask b i)) :: u32) = scan (bm_has b) True ?n (unat i)"
        using h by (simp only: unat_of_nat_u32)
      then show ?thesis
        using 2 True by (subst AckBase_loop.simps) (simp add: Let_def)
    qed
  qed
qed

lemma bm_AckBase_spec:
  assumes "bm_wf b"
  shows "\<exists>i. bm_AckBase b = Some (i, b\<lparr>bm_ack := i\<rparr>) \<and>
             unat i = scan (bm_has b) True (bm_bits b) 0 \<and> i \<le> bm_size b"
proof -
  have ack: "bm_ack b \<le> bm_size b" "{0 ..< unat (bm_ack b)} \<subseteq> bm_set b"
    using assms by (auto simp: bm_wf_def)
  obtain j where j: "AckBase_loop b (bm_ack b) = Some j"
    "unat j = scan (bm_has b) True (bm_bits b) (unat (bm_ack b))"
    using AckBase_loop_spec [OF assms ack(1)] by blast
  have "scan (bm_has b) True (bm_bits b) 0 = scan (bm_has b) True (bm_bits b) (unat (bm_ack b))"
    using ack by (intro scan_skip) (auto simp: word_le_nat_alt)
  moreover have "j \<le> bm_size b"
    using j(2) ack(1) scan_le [of "unat (bm_ack b)" "bm_bits b" "bm_has b" True]
    by (simp add: word_le_nat_alt)
  ultimately show ?thesis using j by (auto simp: bm_AckBase_def Let_def)
qed

lemma bm_has_ack [simp]: "bm_has (b\<lparr>bm_ack := i\<rparr>) = bm_has b"
  by (rule ext) (simp add: bm_has_def)

lemma bm_set_ack [simp]: "bm_set (b\<lparr>bm_ack := i\<rparr>) = bm_set b"
  by (simp add: bm_set_def)

lemma bm_wf_ack:
  assumes "bm_wf b" "unat i = scan (bm_has b) True (bm_bits b) 0" "i \<le> bm_size b"
  shows "bm_wf (b\<lparr>bm_ack := i\<rparr>)"
  using assms scan_inside [of 0 _ "bm_has b" True "bm_bits b"] by (auto simp: bm_wf_def)

text \<open>
  The word-skipping inner loop, for bitmaps whose 32-bit cursor cannot wrap
  (\<open>bm_bits b + 64 \<le> 2 ^ 32\<close>).
\<close>

lemma skip_loop_spec:
  assumes wf: "bm_wf b" and small: "bm_bits b + 64 \<le> 4294967296"
  shows "\<exists>j. skip_loop b v i = Some j \<and> unat i \<le> unat j \<and>
             min (unat j) (bm_bits b) = scan (bm_has b) v (bm_bits b) (min (unat i) (bm_bits b))"
proof (induction "bm_bits b - unat i" arbitrary: i rule: less_induct)
  case less
  let ?n = "bm_bits b"
  show ?case
  proof (cases "i < bm_size b \<and> bm_Test b i = v")
    case False
    have "scan (bm_has b) v ?n (min (unat i) ?n) = min (unat i) ?n"
      using False by (subst scan.simps) (auto simp: word_less_nat_alt)
    with False show ?thesis by (subst skip_loop.simps) auto
  next
    case True
    then have i: "unat i < ?n" "bm_has b (unat i) = v" by (simp_all add: word_less_nat_alt)
    let ?jump = "i mod 64 = 0 \<and> bm_words b ! unat (i div 64) = (if v then NOT 0 else 0)"
    define d where "d = (if ?jump then 64 else 1 :: nat)"
    have d: "0 < d" "unat i + d < 4294967296" using i small by (auto simp: d_def)
    have step: "skip_loop b v i = skip_loop b v (i + of_nat d)"
      using True by (subst skip_loop.simps) (simp add: d_def)
    have ui: "unat (i + of_nat d) = unat i + d"
      using d by (simp add: unat_add_u32 unat_of_nat_u32)
    have "\<exists>j. skip_loop b v (i + of_nat d) = Some j \<and> unat (i + of_nat d) \<le> unat j \<and>
              min (unat j) ?n = scan (bm_has b) v ?n (min (unat (i + of_nat d)) ?n)"
      using d(1) i(1) by (intro less.hyps) (simp add: ui)
    moreover have "bm_has b k = v \<and> k < ?n" if k: "unat i \<le> k" "k < min (unat i + d) ?n" for k
    proof (cases ?jump)
      case jump: True
      then have "unat i mod 64 = 0" using unat_mod_64 [of i] by simp
      then have "unat i div 64 * 64 = unat i" by auto
      then have "k < (unat i div 64 + 1) * 64" using k jump by (simp add: d_def)
      then have "k div 64 = unat i div 64" by (rule same_word(1) [OF k(1)])
      then show ?thesis using jump k by (auto simp: bm_has_def bit_simps)
    next
      case False
      then have "d = 1" unfolding d_def by (rule if_not_P)
      with k have "k = unat i" by simp
      with i k show ?thesis by simp
    qed
    then have "scan (bm_has b) v ?n (min (unat i) ?n) =
               scan (bm_has b) v ?n (min (unat (i + of_nat d)) ?n)"
      using i(1) by (intro scan_skip) (auto simp: ui)
    ultimately show ?thesis using ui by (auto simp: step)
  qed
qed

definition to_run :: "nat \<times> nat \<Rightarrow> sack_run" where
  "to_run p = mk_run (of_nat (fst p)) (of_nat (snd p))"

lemma runs_loop_spec:
  assumes wf: "bm_wf b" and small: "bm_bits b + 64 \<le> 4294967296" and "i \<le> bm_size b"
  shows "runs_loop b v m i out =
         Some (out @ map to_run (take (m - length out) (runs (bm_has b) v (bm_bits b) (unat i))))"
  using assms(3)
proof (induction "bm_bits b - unat i" arbitrary: i out rule: less_induct)
  case less
  let ?n = "bm_bits b" and ?P = "bm_has b"
  have i_le: "unat i \<le> ?n" using less.prems by (simp add: word_le_nat_alt)
  show ?case
  proof (cases "i < bm_size b \<and> length out < m")
    case False
    then have "take (m - length out) (runs ?P v ?n (unat i)) = []"
      using i_le runs_done [of ?n ?P v "unat i"] scan_outside [of ?n "unat i" ?P "\<not> v"]
      by (auto simp: word_less_nat_alt)
    with False show ?thesis by (subst runs_loop.simps) auto
  next
    case True
    obtain s where s: "skip_loop b (\<not> v) i = Some s"
      "min (unat s) ?n = scan ?P (\<not> v) ?n (unat i)"
      using skip_loop_spec [OF wf small, of "\<not> v" i] i_le by (auto simp: min_def)
    show ?thesis
    proof (cases "bm_size b \<le> s")
      case over: True
      then have "runs ?P v ?n (unat i) = []"
        using s(2) by (intro runs_done) (simp add: word_le_nat_alt min_def split: if_splits)
      with True s over show ?thesis by (subst runs_loop.simps) simp
    next
      case False
      then have us: "unat s = scan ?P (\<not> v) ?n (unat i)" "unat s < ?n"
        using s(2) by (auto simp: word_le_nat_alt)
      obtain e where e: "skip_loop b v s = Some e" "min (unat e) ?n = scan ?P v ?n (unat s)"
        using skip_loop_spec [OF wf small, of v s] us(2) by (auto simp: min_def)
      define e' where "e' = (if bm_size b < e then bm_size b else e)"
      have ue: "unat e' = scan ?P v ?n (unat s)"
        using e(2) by (auto simp: e'_def word_less_nat_alt min_def split: if_splits)
      have lt: "scan ?P (\<not> v) ?n (unat i) < ?n" using us by simp
      note st = runs_step [OF lt, folded us(1), folded ue]
      have le: "s \<le> e'" "e' \<le> bm_size b" using st(3,4) by (simp_all add: word_le_nat_alt)
      have len: "unat (e' - s) = unat e' - unat s" using le(1) by (rule unat_diff_word)
      have run: "to_run (unat s, unat e' - unat s) = mk_run s (e' - s)"
        by (simp add: to_run_def len [symmetric] del: of_nat_diff)
      have unfold: "runs_loop b v m i out = runs_loop b v m e' (out @ [mk_run s (e' - s)])"
        using True s(1) e(1) False by (subst runs_loop.simps) (simp add: e'_def Let_def)
      have IH: "runs_loop b v m e' (out @ [mk_run s (e' - s)]) = Some ((out @ [mk_run s (e' - s)]) @
          map to_run (take (m - length (out @ [mk_run s (e' - s)])) (runs ?P v ?n (unat e'))))"
        using st(2-4) le(2) by (intro less.hyps) auto
      have cnt: "m - length out = Suc (m - length (out @ [mk_run s (e' - s)]))"
        using True by auto
      show ?thesis unfolding unfold IH st(1) cnt by (simp add: run)
    qed
  qed
qed

lemma run_pair_to_run:
  "fst p + snd p < 4294967296 \<Longrightarrow> run_pair (to_run p) = p"
  by (cases p) (simp add: to_run_def unat_of_nat_u32)

lemma map_run_pair_runs:
  "map run_pair (map to_run (take m (runs (bm_has b) v (bm_bits b) i))) =
   take m (runs (bm_has b) v (bm_bits b) i)"
proof -
  have "run_pair (to_run p) = p" if "p \<in> set (take m (runs (bm_has b) v (bm_bits b) i))" for p
  proof (rule run_pair_to_run)
    have "fst p + snd p \<le> bm_bits b"
      using that runs_ok_take [OF runs_ok_runs [of i "bm_bits b" "bm_has b" v], of m]
      by (auto simp: runs_ok_def)
    then show "fst p + snd p < 4294967296" using unat_lt_u32 [of "bm_size b"] by linarith
  qed
  then show ?thesis by (simp add: map_idI)
qed

lemma bm_Holes_spec:
  assumes "bm_wf b" and "bm_bits b + 64 \<le> 4294967296" and "frm \<le> bm_size b" and "0 < m"
  defines "base \<equiv> scan (bm_has b) True (bm_bits b) 0"
  shows "\<exists>hs b'. bm_Holes frm m b = Some (hs, b') \<and> bm_wf b' \<and> bm_set b' = bm_set b \<and>
           bm_size b' = bm_size b \<and> bm_count b' = bm_count b \<and>
           map run_pair hs = take m (runs (bm_has b) False (bm_bits b) (max (unat frm) base))"
proof -
  obtain i where i: "bm_AckBase b = Some (i, b\<lparr>bm_ack := i\<rparr>)"
    "unat i = scan (bm_has b) True (bm_bits b) 0" "i \<le> bm_size b"
    using bm_AckBase_spec [OF assms(1)] by blast
  let ?b = "b\<lparr>bm_ack := i\<rparr>"
  have wf: "bm_wf ?b" using bm_wf_ack [OF assms(1) i(2,3)] .
  have "max frm i \<le> bm_size ?b" using assms(3) i(3) by simp
  then have "runs_loop ?b False m (max frm i) [] =
    Some (map to_run (take m (runs (bm_has ?b) False (bm_bits ?b) (unat (max frm i)))))"
    using runs_loop_spec [OF wf, of "max frm i" False m "[]"] assms(2) by simp
  moreover have "unat (max frm i) = max (unat frm) base"
    using i(2) by (simp add: base_def max_def word_le_nat_alt)
  ultimately show ?thesis
    using i(1) wf assms(4) map_run_pair_runs [of m ?b False "max (unat frm) base"]
    by (auto simp: bm_Holes_def)
qed

lemma bm_HaveRuns_spec:
  assumes "bm_wf b" and "bm_bits b + 64 \<le> 4294967296"
  shows "\<exists>rs. bm_HaveRuns m b = Some rs \<and>
           map run_pair rs = take m (runs (bm_has b) True (bm_bits b) 0)"
  using runs_loop_spec [OF assms, of 0 True m "[]"] map_run_pair_runs [of m b True 0]
  by (auto simp: bm_HaveRuns_def)

section \<open>The interface the engines use\<close>

text \<open>
  What a transfer engine relies on when it records received blocks: a bounded set of block
  numbers that grows by one block at a time.
\<close>

locale block_set =
  fixes inv :: "'b \<Rightarrow> bool"
    and has :: "'b \<Rightarrow> nat \<Rightarrow> bool"
    and cap :: "'b \<Rightarrow> nat"
    and add :: "u32 \<Rightarrow> 'b \<Rightarrow> 'b"
  assumes inv_add: "inv b \<Longrightarrow> inv (add i b)"
    and cap_add: "cap (add i b) = cap b"
    and has_add: "inv b \<Longrightarrow> has (add i b) k \<longleftrightarrow> has b k \<or> (k = unat i \<and> k < cap b)"
    and has_cap: "has b k \<Longrightarrow> k < cap b"
begin

lemma cap_fold: "cap (fold add is b) = cap b"
  by (induction "is" arbitrary: b) (auto simp: cap_add)

lemma inv_fold: "inv b \<Longrightarrow> inv (fold add is b)"
  by (induction "is" arbitrary: b) (auto simp: inv_add)

lemma has_fold:
  "inv b \<Longrightarrow> has (fold add is b) k \<longleftrightarrow> has b k \<or> (k < cap b \<and> (\<exists>i \<in> set is. unat i = k))"
proof (induction "is" arbitrary: b)
  case Nil
  then show ?case by simp
next
  case (Cons i "is")
  then show ?case by (auto simp: inv_add cap_add has_add)
qed

text \<open>Adding blocks never forgets one, and adding a block twice changes nothing.\<close>

lemma has_mono: "inv b \<Longrightarrow> has b k \<Longrightarrow> has (fold add is b) k"
  by (simp add: has_fold)

lemma fold_complete:
  assumes "inv b" and "\<And>k. k < cap b \<Longrightarrow> has b k \<or> k \<in> unat ` set is"
  shows "k < cap b \<Longrightarrow> has (fold add is b) k"
  using assms by (auto simp: has_fold)

end

interpretation bm: block_set bm_wf bm_has bm_bits "\<lambda>i b. snd (bm_Set i b)"
  by unfold_locales
    (auto simp: bm_wf_Set bm_has_Set word_less_nat_alt dest: bm_has_size)

lemma set_range_fold:
  "set_range n i b = fold (\<lambda>i b. snd (bm_Set i b)) (map (\<lambda>k. i + of_nat k) [0..<n]) b"
proof (induction n arbitrary: i b)
  case 0
  then show ?case by simp
next
  case (Suc n)
  have "map (\<lambda>k. i + of_nat k) [0..<Suc n] = i # map (\<lambda>k. (i + 1) + of_nat k) [0..<n]"
    by (simp add: upt_conv_Cons map_Suc_upt [symmetric] add.assoc del: upt_Suc)
  with Suc show ?case by simp
qed

lemma set_run_props:
  assumes "bm_wf b"
  shows "bm_wf (set_run r b)" "bm_size (set_run r b) = bm_size b"
    "bm_has (set_run r b) k \<longleftrightarrow> bm_has b k \<or> (k < bm_bits b \<and> k \<in> run_blocks r)"
proof -
  let ?e = "min (bm_bits b) (unat (run_start r) + unat (run_length r))"
  let ?is = "map (\<lambda>k. run_start r + of_nat k) [0..<?e - unat (run_start r)]"
  have eq: "set_run r b = (if bm_size b \<le> run_start r then b else fold (\<lambda>i b. snd (bm_Set i b)) ?is b)"
    by (simp add: set_run_def set_range_fold Let_def min_def)
  show "bm_wf (set_run r b)" using assms by (simp add: eq bm.inv_fold)
  have "bm_size (fold (\<lambda>i b. snd (bm_Set i b)) is b) = bm_size b" for "is"
    by (induction "is" arbitrary: b) simp_all
  then show "bm_size (set_run r b) = bm_size b" by (simp add: eq)
  have u: "unat (run_start r + of_nat n :: u32) = unat (run_start r) + n"
    if "n < ?e - unat (run_start r)" for n
  proof -
    have "n < 4294967296" "unat (run_start r) + n < 4294967296"
      using that unat_lt_u32 [of "bm_size b"] by linarith+
    then show ?thesis by (simp add: unat_add_u32 unat_of_nat_u32)
  qed
  have "(\<exists>i \<in> set ?is. unat i = k) \<longleftrightarrow> unat (run_start r) \<le> k \<and> k < ?e"
    (is "?L \<longleftrightarrow> ?R")
  proof
    assume ?L
    then obtain n where n: "n < ?e - unat (run_start r)" "k = unat (run_start r + of_nat n :: u32)"
      by auto
    with u [OF n(1)] show ?R by linarith
  next
    assume ?R
    define n where "n = k - unat (run_start r)"
    with \<open>?R\<close> have "n < ?e - unat (run_start r)" "k = unat (run_start r) + n" by linarith+
    with u [of n] show ?L by (intro bexI [of _ "run_start r + of_nat n"]) auto
  qed
  then show "bm_has (set_run r b) k \<longleftrightarrow> bm_has b k \<or> (k < bm_bits b \<and> k \<in> run_blocks r)"
    using assms by (auto simp: eq bm.has_fold run_blocks_iff word_le_nat_alt)
qed

lemma bm_SetRuns_simps [simp]:
  "bm_SetRuns [] b = b" "bm_SetRuns (r # rs) b = bm_SetRuns rs (set_run r b)"
  by (simp_all add: bm_SetRuns_def)

lemma bm_SetRuns_props:
  assumes "bm_wf b"
  shows "bm_wf (bm_SetRuns rs b)" "bm_size (bm_SetRuns rs b) = bm_size b"
    "bm_has (bm_SetRuns rs b) k \<longleftrightarrow>
       bm_has b k \<or> (k < bm_bits b \<and> (\<exists>r \<in> set rs. k \<in> run_blocks r))"
  using assms
proof (induction rs arbitrary: b)
  case Nil
  { case 1 then show ?case by simp }
  { case 2 then show ?case by simp }
  { case 3 then show ?case by simp }
next
  case (Cons r rs)
  { case 1 then show ?case using Cons set_run_props [of b r] by simp }
  { case 2 then show ?case using Cons set_run_props [of b r] by simp }
  { case 3 then show ?case using Cons set_run_props [of b r] by auto }
qed

section \<open>Properties of the bitmap\<close>

text \<open>\<^verbatim>\<open>BlockBitmap::Set\<close> inserts one block into the set the bitmap stands for: an index in range is
  added, an index out of range is ignored, the return value says whether the block is new, and
  the representation invariant (word layout, population count, cached base) is kept.\<close>

theorem bitmap_Set_refines_insert:
  assumes "bm_wf b"
  shows "bm_wf (snd (bm_Set i b)) \<and>
    bm_set (snd (bm_Set i b)) = (if i < bm_size b then insert (unat i) (bm_set b) else bm_set b) \<and>
    (fst (bm_Set i b) \<longleftrightarrow> i < bm_size b \<and> unat i \<notin> bm_set b) \<and>
    unat (bm_count (snd (bm_Set i b))) = card (bm_set (snd (bm_Set i b)))"
proof (intro conjI)
  show wf: "bm_wf (snd (bm_Set i b))" by (rule bm_wf_Set [OF assms])
  show "bm_set (snd (bm_Set i b)) = (if i < bm_size b then insert (unat i) (bm_set b) else bm_set b)"
    by (auto simp: bm_has_Set [OF assms])
  show "unat (bm_count (snd (bm_Set i b))) = card (bm_set (snd (bm_Set i b)))"
    using wf by (simp add: bm_wf_def)
qed simp

theorem bitmap_Set_refines_insert_witness:
  "bm_wf (bm_Reset 70) \<and> bm_set (snd (bm_Set 65 (bm_Reset 70))) = {65} \<and>
   fst (bm_Set 65 (bm_Reset 70))"
  using bitmap_Set_refines_insert [OF bm_wf_Reset, of 65 70] by (simp add: bm_set_def)

text \<open>\<^verbatim>\<open>AckBase\<close>, starting from its cached lower bound and skipping full words, always returns, and
  returns the first missing block (the size when none is missing): every block below it has been
  received, and it is itself missing unless the bitmap is complete.\<close>

theorem AckBase_first_missing:
  assumes "bm_wf b"
  shows "\<exists>i b'. bm_AckBase b = Some (i, b') \<and> bm_wf b' \<and> bm_set b' = bm_set b \<and>
           (\<forall>k < unat i. k \<in> bm_set b) \<and> unat i \<notin> bm_set b \<and>
           (unat i = unat (bm_size b) \<longleftrightarrow> bm_Complete b)"
proof -
  obtain i where i: "bm_AckBase b = Some (i, b\<lparr>bm_ack := i\<rparr>)"
    "unat i = scan (bm_has b) True (bm_bits b) 0" "i \<le> bm_size b"
    using bm_AckBase_spec [OF assms] by blast
  have below: "\<forall>k < unat i. k \<in> bm_set b"
    using scan_inside [of 0 _ "bm_has b" True "bm_bits b"] i(2) by simp
  have "unat i \<notin> bm_set b"
    using scan_stop [of "bm_has b" True "bm_bits b" 0] bm_has_size [of b] i(2) by fastforce
  moreover have "unat i = bm_bits b \<longleftrightarrow> bm_Complete b"
    using below calculation i(3) by (auto simp: bm_Complete_iff [OF assms] word_le_nat_alt set_eq_iff
        dest: bm_has_size)
  ultimately show ?thesis
    using i(1) below bm_wf_ack [OF assms i(2,3)] by (intro exI [of _ i]) auto
qed

theorem AckBase_first_missing_witness:
  "\<exists>i b'. bm_AckBase (snd (bm_Set 0 (bm_Reset 70))) = Some (i, b') \<and> (\<forall>k < unat i. k = 0) \<and> unat i \<noteq> 0"
proof -
  have wf: "bm_wf (snd (bm_Set 0 (bm_Reset 70)))" by (simp add: bm_wf_Set)
  have "bm_set (snd (bm_Set 0 (bm_Reset 70))) = {0}"
    by (auto simp: bm_has_Set word_less_nat_alt)
  then show ?thesis using AckBase_first_missing [OF wf] by fastforce
qed

text \<open>C24. \<^verbatim>\<open>Holes\<close> (the list a SACK reports) terminates and returns, in ascending order, disjoint and
  non-adjacent non-empty runs of missing blocks; unless the limit on the number of runs was
  reached they are exactly the missing blocks from the larger of the requested start and the
  acknowledged base.  The bitmap must be at least 64 bits short of the 32-bit range.\<close>

theorem Holes_exactly_missing:
  assumes "bm_wf b" and "unat (bm_size b) + 64 \<le> 2 ^ 32" and "frm \<le> bm_size b" and "0 < m"
  shows "\<exists>hs b'. bm_Holes frm m b = Some (hs, b') \<and> bm_set b' = bm_set b \<and> length hs \<le> m \<and>
           runs_ok (unat frm) (unat (bm_size b)) (map run_pair hs) \<and>
           (\<Union>r \<in> set hs. run_blocks r) \<inter> bm_set b = {} \<and>
           (length hs < m \<longrightarrow>
              (\<Union>r \<in> set hs. run_blocks r) = {k. unat frm \<le> k \<and> k < unat (bm_size b)} - bm_set b)"
proof -
  let ?base = "scan (bm_has b) True (bm_bits b) 0"
  let ?rs = "runs (bm_has b) False (bm_bits b) (max (unat frm) ?base)"
  obtain hs b' where h: "bm_Holes frm m b = Some (hs, b')" "bm_set b' = bm_set b"
    "map run_pair hs = take m ?rs"
    using bm_Holes_spec [of b frm m] assms by auto
  have U: "(\<Union>r \<in> set hs. run_blocks r) = runs_set (take m ?rs)"
    by (simp add: runs_set_def run_blocks_def flip: h(3))
  have ok: "runs_ok (unat frm) (bm_bits b) (map run_pair hs)"
    using runs_ok_take [OF runs_ok_runs [of "max (unat frm) ?base" "bm_bits b" "bm_has b" False], of m]
    by (auto simp: h(3) runs_ok_def)
  have len: "length hs = min m (length ?rs)" using arg_cong [OF h(3), of length] by simp
  have below: "bm_has b k" if "k < ?base" for k
    using that scan_inside [of 0 k "bm_has b" True "bm_bits b"] by simp
  then have full: "runs_set ?rs = {k. unat frm \<le> k \<and> k < bm_bits b} - bm_set b"
    by (auto simp: runs_set_runs not_less intro: leI)
  show ?thesis
  proof (intro exI [of _ hs] exI [of _ b'] conjI impI)
    show "length hs \<le> m" using len by simp
    show "(\<Union>r \<in> set hs. run_blocks r) \<inter> bm_set b = {}"
      using full runs_set_take [of m ?rs] unfolding U by blast
    show "(\<Union>r \<in> set hs. run_blocks r) = {k. unat frm \<le> k \<and> k < bm_bits b} - bm_set b"
      if "length hs < m" using that len full unfolding U by simp
  qed (use h(1,2) ok in auto)
qed

theorem Holes_exactly_missing_witness:
  "\<exists>hs b'. bm_Holes 0 140 (snd (bm_Set 1 (bm_Reset 3))) = Some (hs, b') \<and>
     (\<Union>r \<in> set hs. run_blocks r) \<inter> {1} = {} \<and> runs_ok 0 3 (map run_pair hs)"
proof -
  have wf: "bm_wf (snd (bm_Set 1 (bm_Reset 3)))" by (simp add: bm_wf_Set)
  have "bm_set (snd (bm_Set 1 (bm_Reset 3))) = {1}"
    by (auto simp: bm_has_Set word_less_nat_alt)
  then show ?thesis using Holes_exactly_missing [OF wf, of 0 140] by auto
qed

text \<open>Resume: the runs \<^verbatim>\<open>HaveRuns\<close> saves never name a block that was not received, and when they fit
  the limit, feeding them to \<^verbatim>\<open>SetRuns\<close> on a fresh bitmap of the same size restores exactly the
  received blocks.\<close>

theorem HaveRuns_SetRuns_roundtrip:
  assumes "bm_wf b" and "unat (bm_size b) + 64 \<le> 2 ^ 32"
  shows "\<exists>rs. bm_HaveRuns m b = Some rs \<and>
           bm_set (bm_SetRuns rs (bm_Reset (bm_size b))) \<subseteq> bm_set b \<and>
           (length rs < m \<longrightarrow> bm_set (bm_SetRuns rs (bm_Reset (bm_size b))) = bm_set b)"
proof -
  let ?rs = "runs (bm_has b) True (bm_bits b) 0"
  obtain rs where r: "bm_HaveRuns m b = Some rs" "map run_pair rs = take m ?rs"
    using bm_HaveRuns_spec [of b m] assms by auto
  have U: "(\<Union>r \<in> set rs. run_blocks r) = runs_set (take m ?rs)"
    by (simp add: runs_set_def run_blocks_def flip: r(2))
  have restored: "bm_set (bm_SetRuns rs (bm_Reset (bm_size b))) = {k. k < bm_bits b} \<inter> (\<Union>r \<in> set rs. run_blocks r)"
    by (auto simp: bm_SetRuns_props)
  have full: "runs_set ?rs = bm_set b" by (auto simp: runs_set_runs dest: bm_has_size)
  have len: "length rs = min m (length ?rs)" using arg_cong [OF r(2), of length] by simp
  have sub: "runs_set (take m ?rs) \<subseteq> bm_set b" using runs_set_take [of m ?rs] full by simp
  then have eq: "bm_set (bm_SetRuns rs (bm_Reset (bm_size b))) = runs_set (take m ?rs)"
    unfolding restored U using bm_set_subset [of b] by auto
  show ?thesis
    using r(1) sub len full by (intro exI [of _ rs]) (simp add: eq)
qed

theorem HaveRuns_SetRuns_roundtrip_witness:
  "\<exists>rs. bm_HaveRuns 1048576 (snd (bm_Set 1 (bm_Reset 3))) = Some rs \<and>
     bm_set (bm_SetRuns rs (bm_Reset 3)) \<subseteq> {1}"
proof -
  have wf: "bm_wf (snd (bm_Set 1 (bm_Reset 3)))" by (simp add: bm_wf_Set)
  have "bm_set (snd (bm_Set 1 (bm_Reset 3))) = {1}"
    by (auto simp: bm_has_Set word_less_nat_alt)
  then show ?thesis using HaveRuns_SetRuns_roundtrip [OF wf, of 1048576] by auto
qed

text \<open>
  The restriction on the size is needed: on an empty bitmap of \<open>2 ^ 32 - 1\<close> blocks the cursor of
  the inner loop runs through the multiples of 64, wraps to zero and never stops.
\<close>

lemma skip_loop_diverges:
  assumes "i mod 64 = 0"
  shows "skip_loop (bm_Reset 0xFFFFFFFF) False i = None"
proof (rule ccontr)
  assume "skip_loop (bm_Reset 0xFFFFFFFF) False i \<noteq> None"
  then obtain r where r: "skip_loop (bm_Reset 0xFFFFFFFF) False i = Some r" by blast
  have never: "b = bm_Reset 0xFFFFFFFF \<longrightarrow> v = False \<longrightarrow> i mod 64 = 0 \<longrightarrow> False"
    if "skip_loop b v i = Some r" for b v i r
  proof (rule skip_loop.raw_induct [where P = "\<lambda>b v i r. b = bm_Reset 0xFFFFFFFF \<longrightarrow> v = False \<longrightarrow>
      i mod 64 = 0 \<longrightarrow> False", OF _ that], intro impI)
    fix f :: "bitmap \<Rightarrow> bool \<Rightarrow> u32 \<Rightarrow> u32 option" and b v and i r :: u32
    assume IH: "\<And>b v i r. f b v i = Some r \<Longrightarrow>
        b = bm_Reset 0xFFFFFFFF \<longrightarrow> v = False \<longrightarrow> i mod 64 = 0 \<longrightarrow> False"
      and eq: "(if i < bm_size b \<and> bm_Test b i = v then
        (if i mod 64 = 0 \<and> bm_words b ! unat (i div 64) = (if v then NOT 0 else 0)
         then f b v (i + 64) else f b v (i + 1)) else Some i) = Some r"
      and b: "b = bm_Reset 0xFFFFFFFF" and v: "v = False" and i: "i mod 64 = 0"
    have m: "unat i mod 64 = 0" using i unat_mod_64 [of i] by simp
    then have "unat i \<noteq> 4294967295" by auto
    then have lt: "unat i < 4294967295" using unat_lt_u32 [of i] by linarith
    then have w: "bm_words b ! (unat i div 64) = 0" by (simp add: b bm_Reset_def)
    have again: "f b v (i + 64) = Some r"
      using eq lt w i v by (simp add: b word_less_nat_alt)
    have "(i + 64) mod 64 = 0"
    proof -
      have "unat (i + 64) = (unat i + 64) mod 4294967296" by (simp add: unat_word_ariths)
      moreover have "(unat i + 64) mod 4294967296 mod 64 = (unat i + 64) mod 64"
        by (rule mod_mod_cancel) simp
      ultimately have "unat (i + 64) mod 64 = 0" using m by simp
      then have "unat ((i + 64) mod 64) = 0" by (simp only: unat_mod_64)
      then show ?thesis by (simp only: unat_eq_0)
    qed
    then show False by (rule IH [OF again, rule_format, OF b v])
  qed
  show False by (rule never [OF r, rule_format, OF refl refl assms])
qed

text \<open>C25. On a fresh bitmap for a file of the largest size the protocol admits (\<open>2 ^ 32 - 1\<close> blocks) neither
  \<^verbatim>\<open>Holes\<close> nor \<^verbatim>\<open>HaveRuns\<close> returns: their 32-bit cursor wraps past the last word.\<close>

theorem scanners_diverge_at_max_size:
  "bm_Holes 0 (Suc m) (bm_Reset 0xFFFFFFFF) = None \<and>
   bm_HaveRuns (Suc m) (bm_Reset 0xFFFFFFFF) = None"
proof -
  let ?b = "bm_Reset 0xFFFFFFFF"
  obtain i where i: "bm_AckBase ?b = Some (i, ?b\<lparr>bm_ack := i\<rparr>)"
    "unat i = scan (bm_has ?b) True (bm_bits ?b) 0"
    using bm_AckBase_spec [OF bm_wf_Reset] by blast
  have "scan (bm_has ?b) True (bm_bits ?b) 0 = 0" by (rule scan_unique) auto
  then have "bm_AckBase ?b = Some (0, ?b)" using i by (simp add: unat_eq_0 bm_Reset_def)
  moreover have "runs_loop ?b v (Suc m) 0 [] = None" for v
  proof (cases v)
    case True
    then show ?thesis using skip_loop_diverges [of 0] by (subst runs_loop.simps) simp
  next
    case False
    have "skip_loop ?b True 0 = Some 0" by (subst skip_loop.simps) simp
    with False show ?thesis using skip_loop_diverges [of 0] by (subst runs_loop.simps) simp
  qed
  ultimately show ?thesis by (simp add: bm_Holes_def bm_HaveRuns_def)
qed

end
