(* ===== verification/Block_Codec.thy ===== *)
theory Block_Codec
  imports Protocol
begin

text \<open>
  The data-block and SACK datagram codecs, \<^verbatim>\<open>core/src/transfer/block_codec.{h,cpp}\<close>.

  A datagram is a list of bytes.  The encoders return what they write (\<open>None\<close> where the C++
  function returns 0), the decoders the parsed header with its payload (\<open>None\<close> where the C++
  function returns false).  The locale \<open>datagram_codec\<close> is the contract the transfer engines rely
  on; both codecs are interpretations of it.
\<close>

section \<open>Big-endian fields\<close>

definition Put16 :: "u16 \<Rightarrow> bytes" where
  "Put16 v = [ucast (drop_bit 8 v), ucast v]"

definition Put32 :: "u32 \<Rightarrow> bytes" where
  "Put32 v = [ucast (drop_bit 24 v), ucast (drop_bit 16 v), ucast (drop_bit 8 v), ucast v]"

definition Get16 :: "bytes \<Rightarrow> u16" where
  "Get16 p = push_bit 8 (ucast (p ! 0)) OR ucast (p ! 1)"

definition Get32 :: "bytes \<Rightarrow> u32" where
  "Get32 p = push_bit 24 (ucast (p ! 0)) OR push_bit 16 (ucast (p ! 1)) OR
             push_bit 8 (ucast (p ! 2)) OR ucast (p ! 3)"

section \<open>Data blocks\<close>

record block_header =
  bh_flags :: u8
  bh_file_index :: u16
  bh_block_index :: u32
  bh_len :: u16

definition EncodeBlock :: "block_header \<Rightarrow> bytes \<Rightarrow> nat \<Rightarrow> bytes option" where
  "EncodeBlock h payload out_cap =
     (if kBlockPayloadSize < unat (bh_len h) then None
      else if out_cap < kBlockHeaderSize + unat (bh_len h) then None
      else Some (Put16 kBlockMagic @ [kProtoVersion, bh_flags h] @ Put16 (bh_file_index h) @
                 Put32 (bh_block_index h) @ Put16 (bh_len h) @ take (unat (bh_len h)) payload))"

definition DecodeBlock :: "bytes \<Rightarrow> (block_header \<times> bytes) option" where
  "DecodeBlock data =
     (if length data < kBlockHeaderSize then None
      else if Get16 data \<noteq> kBlockMagic \<or> data ! 2 \<noteq> kProtoVersion then None
      else let plen = Get16 (drop 10 data) in
        if kBlockPayloadSize < unat plen then None
        else if length data \<noteq> kBlockHeaderSize + unat plen then None
        else Some (\<lparr>bh_flags = data ! 3, bh_file_index = Get16 (drop 4 data),
                    bh_block_index = Get32 (drop 6 data), bh_len = plen\<rparr>,
                   drop kBlockHeaderSize data))"

section \<open>Selective acknowledgements\<close>

record sack =
  sk_file_index :: u16
  sk_flags :: u8
  sk_ack_base :: u32
  sk_frontier :: u32
  sk_received_count :: u32
  sk_recv_rate_bps :: u32
  sk_loss_permille :: u16
  sk_holes :: "sack_run list"

definition empty_sack :: sack where
  "empty_sack = \<lparr>sk_file_index = 0, sk_flags = 0, sk_ack_base = 0, sk_frontier = 0,
     sk_received_count = 0, sk_recv_rate_bps = 0, sk_loss_permille = 0, sk_holes = []\<rparr>"

definition put_run :: "sack_run \<Rightarrow> bytes" where
  "put_run r = Put32 (run_start r) @ Put32 (run_length r)"

definition EncodeSack :: "sack \<Rightarrow> bytes" where
  "EncodeSack s =
     (let n = (if length (sk_holes s) < kSackMaxRuns then length (sk_holes s) else kSackMaxRuns)
      in Put16 kSackMagic @ [kProtoVersion, sk_flags s] @ Put16 (sk_file_index s) @
         Put16 (of_nat n) @ Put32 (sk_ack_base s) @ Put32 (sk_frontier s) @
         Put32 (sk_received_count s) @ Put32 (sk_recv_rate_bps s) @
         Put16 (sk_loss_permille s) @ Put16 0 @ concat (map put_run (take n (sk_holes s))))"

fun get_runs :: "nat \<Rightarrow> bytes \<Rightarrow> sack_run list option" where
  "get_runs 0 p = Some []"
| "get_runs (Suc n) p =
     (let r = mk_run (Get32 p) (Get32 (drop 4 p)) in
      if run_length r = 0 then None
      else map_option (\<lambda>rs. r # rs) (get_runs n (drop kSackRunSize p)))"

definition DecodeSack :: "bytes \<Rightarrow> sack option" where
  "DecodeSack data =
     (if length data < kSackHeaderSize then None
      else if Get16 data \<noteq> kSackMagic \<or> data ! 2 \<noteq> kProtoVersion then None
      else let n = Get16 (drop 6 data) in
        if length data \<noteq> kSackHeaderSize + unat n * kSackRunSize then None
        else map_option (\<lambda>hs.
               \<lparr>sk_file_index = Get16 (drop 4 data), sk_flags = data ! 3,
                sk_ack_base = Get32 (drop 8 data), sk_frontier = Get32 (drop 12 data),
                sk_received_count = Get32 (drop 16 data), sk_recv_rate_bps = Get32 (drop 20 data),
                sk_loss_permille = Get16 (drop 24 data), sk_holes = hs\<rparr>)
             (get_runs (unat n) (drop kSackHeaderSize data)))"

section \<open>Field round trips\<close>

lemma length_Put [simp]: "length (Put16 v) = 2" "length (Put32 w) = 4"
  by (simp_all add: Put16_def Put32_def)

lemma Get16_Put16 [wire_simps]: "Get16 (Put16 v @ rest) = v"
  by (simp add: Get16_def Put16_def) (rule bit_word_eqI, auto simp: bit_simps)

lemma Get32_Put32 [wire_simps]: "Get32 (Put32 v @ rest) = v"
proof (rule bit_word_eqI)
  fix n :: nat
  assume "n < LENGTH(32)"
  then consider "n < 8" | "8 \<le> n" "n < 16" | "16 \<le> n" "n < 24" | "24 \<le> n" "n < 32" by fastforce
  then show "bit (Get32 (Put32 v @ rest)) n = bit v n"
    by cases (auto simp: Get32_def Put32_def bit_simps)
qed

lemma Get16_Put16_end [wire_simps]: "Get16 (Put16 v) = v"
  using Get16_Put16 [of v "[]"] by simp

text \<open>A well-formed field is the encoding of its value.\<close>

lemma bit_u8_big: "8 \<le> k \<Longrightarrow> \<not> bit (x :: u8) k"
  using bit_imp_le_length [of x k] by auto

lemma Put16_Get16: "Put16 (Get16 (a # b # rest)) = [a, b]"
  by (auto simp: Get16_def Put16_def bit_simps bit_u8_big intro!: bit_word_eqI)

lemma Put32_Get32: "Put32 (Get32 (a # b # c # d # rest)) = [a, b, c, d]"
  by (auto simp: Get32_def Put32_def bit_simps bit_u8_big intro!: bit_word_eqI)

section \<open>The contract of a datagram codec\<close>

locale datagram_codec =
  fixes enc :: "'a \<Rightarrow> bytes" and dec :: "bytes \<Rightarrow> 'a option" and valid :: "'a \<Rightarrow> bool"
  assumes roundtrip: "valid x \<Longrightarrow> dec (enc x) = Some x"
    and fits: "valid x \<Longrightarrow> length (enc x) \<le> kMaxDatagram"
begin

lemma enc_inj: "valid x \<Longrightarrow> valid y \<Longrightarrow> enc x = enc y \<Longrightarrow> x = y"
  by (metis option.inject roundtrip)

text \<open>
  A lossy, reordering, duplicating channel delivers datagrams that were sent: decoding them
  yields only messages that were sent, and every delivered datagram decodes.
\<close>

lemma channel_sound:
  assumes "\<And>x. x \<in> X \<Longrightarrow> valid x" and "set ds \<subseteq> enc ` X"
  shows "set (map dec ds) \<subseteq> Some ` X"
  using assms by (force simp: roundtrip)

lemma channel_complete:
  assumes "valid x" and "enc x \<in> set ds"
  shows "Some x \<in> set (map dec ds)"
  using assms by (force simp: roundtrip)

end

section \<open>The block codec\<close>

definition block_valid :: "block_header \<times> bytes \<Rightarrow> bool" where
  "block_valid = (\<lambda>(h, payload). unat (bh_len h) \<le> kBlockPayloadSize \<and> length payload = unat (bh_len h))"

definition enc_block :: "block_header \<times> bytes \<Rightarrow> bytes" where
  "enc_block = (\<lambda>(h, payload). the (EncodeBlock h payload (kBlockHeaderSize + kBlockPayloadSize)))"

lemma EncodeBlock_Some_iff:
  "EncodeBlock h payload cap = Some w \<longleftrightarrow>
     unat (bh_len h) \<le> kBlockPayloadSize \<and> kBlockHeaderSize + unat (bh_len h) \<le> cap \<and>
     w = Put16 kBlockMagic @ [kProtoVersion, bh_flags h] @ Put16 (bh_file_index h) @
         Put32 (bh_block_index h) @ Put16 (bh_len h) @ take (unat (bh_len h)) payload"
  by (auto simp: EncodeBlock_def)

lemma DecodeBlock_frame:
  assumes "unat (bh_len h) \<le> kBlockPayloadSize" and "length payload = unat (bh_len h)"
  shows "DecodeBlock (Put16 kBlockMagic @ [kProtoVersion, bh_flags h] @ Put16 (bh_file_index h) @
           Put32 (bh_block_index h) @ Put16 (bh_len h) @ payload) = Some (h, payload)"
    (is "DecodeBlock ?d = _")
proof -
  have d10: "drop 10 ?d = Put16 (bh_len h) @ payload"
    and d4: "drop 4 ?d = Put16 (bh_file_index h) @ Put32 (bh_block_index h) @ Put16 (bh_len h) @ payload"
    and d6: "drop 6 ?d = Put32 (bh_block_index h) @ Put16 (bh_len h) @ payload"
    and d12: "drop 12 ?d = payload"
    and n: "?d ! 2 = kProtoVersion" "?d ! 3 = bh_flags h" "length ?d = 12 + length payload"
    by (simp_all add: Put16_def Put32_def)
  show ?thesis
    unfolding DecodeBlock_def d10 d4 d6 kBlockHeaderSize_def d12 n
    using assms by (simp add: Get16_Put16 Get32_Put32 Let_def)
qed

interpretation block_codec: datagram_codec enc_block DecodeBlock block_valid
proof (standard, goal_cases)
  case (1 x)
  obtain h p where x: "x = (h, p)" by (cases x)
  with 1 show ?case
    using DecodeBlock_frame [of h p] by (simp add: enc_block_def block_valid_def EncodeBlock_def)
next
  case (2 x)
  obtain h p where x: "x = (h, p)" by (cases x)
  with 2 show ?case
    by (simp add: enc_block_def block_valid_def EncodeBlock_def kBlockPayloadSize_def kMaxDatagram_def)
qed

section \<open>The SACK codec\<close>

definition sack_valid :: "sack \<Rightarrow> bool" where
  "sack_valid s \<longleftrightarrow> length (sk_holes s) \<le> kSackMaxRuns \<and> (\<forall>r \<in> set (sk_holes s). run_length r \<noteq> 0)"

lemma get_runs_put:
  "(\<forall>r \<in> set rs. run_length r \<noteq> 0) \<Longrightarrow>
   get_runs (length rs) (concat (map put_run rs)) = Some rs"
proof (induction rs)
  case Nil
  then show ?case by simp
next
  case (Cons r rs)
  have "drop 4 (put_run r @ q) = Put32 (run_length r) @ q" "drop 8 (put_run r @ q) = q" for q
    by (simp_all add: put_run_def Put32_def)
  moreover have "mk_run (run_start r) (run_length r) = r" by (simp add: mk_run_def)
  ultimately show ?case
    using Cons by (simp add: put_run_def Get32_Put32 Let_def kSackRunSize_def)
qed

lemma length_put_runs: "length (concat (map put_run rs)) = 8 * length rs"
  by (induction rs) (simp_all add: put_run_def)

lemma length_EncodeSack:
  "length (EncodeSack s) = kSackHeaderSize + kSackRunSize * min (length (sk_holes s)) kSackMaxRuns"
  by (simp add: EncodeSack_def Let_def length_put_runs sack_consts min_def)

lemma DecodeSack_EncodeSack:
  assumes "\<forall>r \<in> set (take kSackMaxRuns (sk_holes s)). run_length r \<noteq> 0"
  shows "DecodeSack (EncodeSack s) = Some (s\<lparr>sk_holes := take kSackMaxRuns (sk_holes s)\<rparr>)"
proof -
  define rs where "rs = take kSackMaxRuns (sk_holes s)"
  define n where "n = (if length (sk_holes s) < kSackMaxRuns then length (sk_holes s) else kSackMaxRuns)"
  have n: "n = length rs" "n \<le> kSackMaxRuns" "take n (sk_holes s) = rs"
    by (auto simp: n_def rs_def)
  have un: "unat (of_nat n :: u16) = n" using n(2) by (simp add: sack_consts unat_of_nat_u16)
  let ?d = "EncodeSack s" and ?tail = "concat (map put_run rs)"
  have d: "?d = Put16 kSackMagic @ [kProtoVersion, sk_flags s] @ Put16 (sk_file_index s) @
         Put16 (of_nat n) @ Put32 (sk_ack_base s) @ Put32 (sk_frontier s) @
         Put32 (sk_received_count s) @ Put32 (sk_recv_rate_bps s) @
         Put16 (sk_loss_permille s) @ Put16 0 @ ?tail"
    using n(3) by (simp add: EncodeSack_def n_def Let_def)
  have parts: "drop 4 ?d = Put16 (sk_file_index s) @ drop 6 ?d"
    "drop 6 ?d = Put16 (of_nat n) @ drop 8 ?d" "drop 8 ?d = Put32 (sk_ack_base s) @ drop 12 ?d"
    "drop 12 ?d = Put32 (sk_frontier s) @ drop 16 ?d"
    "drop 16 ?d = Put32 (sk_received_count s) @ drop 20 ?d"
    "drop 20 ?d = Put32 (sk_recv_rate_bps s) @ drop 24 ?d"
    "drop 24 ?d = Put16 (sk_loss_permille s) @ drop 26 ?d" "drop 28 ?d = ?tail"
    "?d ! 2 = kProtoVersion" "?d ! 3 = sk_flags s" "length ?d = 28 + n * 8"
    unfolding d by (simp_all add: Put16_def Put32_def length_put_runs n(1))
  have head: "Get16 ?d = kSackMagic" unfolding d by (simp only: Get16_Put16)
  have fields: "Get16 (drop 4 ?d) = sk_file_index s" "Get16 (drop 6 ?d) = of_nat n"
    "Get32 (drop 8 ?d) = sk_ack_base s" "Get32 (drop 12 ?d) = sk_frontier s"
    "Get32 (drop 16 ?d) = sk_received_count s" "Get32 (drop 20 ?d) = sk_recv_rate_bps s"
    "Get16 (drop 24 ?d) = sk_loss_permille s"
    using parts(1-7) by (metis Get16_Put16 Get32_Put32)+
  have "get_runs n (drop 28 ?d) = Some rs"
    using get_runs_put [of rs] assms unfolding parts(8) n(1) rs_def by simp
  then show ?thesis
    using fields un head parts(9-11)
    by (simp add: DecodeSack_def sack_consts(2,3) Let_def rs_def [symmetric])
qed

interpretation sack_codec: datagram_codec EncodeSack DecodeSack sack_valid
proof (standard, goal_cases)
  case (1 s)
  then show ?case using DecodeSack_EncodeSack [of s] by (auto simp: sack_valid_def)
next
  case (2 s)
  then show ?case by (simp add: length_EncodeSack sack_consts)
qed


section \<open>Properties of the codecs\<close>

lemma take_Put16:
  assumes "2 \<le> length p"
  shows "take 2 p = Put16 (Get16 p)"
proof -
  obtain a b q where "p = a # b # q" using assms by (cases p; cases "tl p") auto
  then show ?thesis by (simp add: Put16_Get16 numeral_2_eq_2)
qed

lemma take_Put32:
  assumes "4 \<le> length p"
  shows "take 4 p = Put32 (Get32 p)"
proof -
  define q where "q = take 4 p"
  have "length q = 4" using assms by (simp add: q_def)
  then obtain a b c d where t: "take 4 p = [a, b, c, d]"
    unfolding q_def [symmetric] by (auto simp: numeral_eq_Suc length_Suc_conv)
  then have "p = a # b # c # d # drop 4 p" using append_take_drop_id [of 4 p] by simp
  then have "Put32 (Get32 p) = [a, b, c, d]" using Put32_Get32 [of a b c d "drop 4 p"] by simp
  with t show ?thesis by simp
qed

text \<open>A datagram long enough for a block header, cut at the fields.\<close>

lemma block_fields:
  assumes "12 \<le> length d"
  shows "d = Put16 (Get16 d) @ [d ! 2, d ! 3] @ Put16 (Get16 (drop 4 d)) @ Put32 (Get32 (drop 6 d)) @
             Put16 (Get16 (drop 10 d)) @ drop 12 d"
proof -
  have "d = take 2 d @ drop 2 d" by simp
  also have "drop 2 d = d ! 2 # d ! 3 # drop 4 d"
    using assms Cons_nth_drop_Suc [of 2 d] Cons_nth_drop_Suc [of 3 d] by simp
  also have "drop 4 d = take 2 (drop 4 d) @ drop 6 d"
    using append_take_drop_id [of 2 "drop 4 d"] by simp
  also have "drop 6 d = take 4 (drop 6 d) @ drop 10 d"
    using append_take_drop_id [of 4 "drop 6 d"] by simp
  also have "drop 10 d = take 2 (drop 10 d) @ drop 12 d"
    using append_take_drop_id [of 2 "drop 10 d"] by simp
  finally show ?thesis
    using assms by (simp add: take_Put16 take_Put32 del: append_take_drop_id take_drop)
qed

text \<open>The shape of the decoders: two rejections, a field, two more rejections.\<close>

lemma guard_chain_Some:
  "(if a then None else if b then None
    else let x = e in if c x then None else if k x then None else Some (f x)) = Some r \<longleftrightarrow>
   \<not> a \<and> \<not> b \<and> \<not> c e \<and> \<not> k e \<and> r = f e"
  by (auto simp: Let_def)

text \<open>A datagram \<^verbatim>\<open>DecodeBlock\<close> accepts is the encoding of what it returns.\<close>

lemma DecodeBlock_canonical:
  assumes "DecodeBlock d = Some (h, p)"
  shows "block_valid (h, p)" "enc_block (h, p) = d"
proof -
  note acc = assms [unfolded DecodeBlock_def guard_chain_Some kBlockHeaderSize_def]
  have len: "12 \<le> length d" using acc by linarith
  have magic: "Get16 d = kBlockMagic" "d ! 2 = kProtoVersion" using acc by blast+
  have size: "unat (Get16 (drop 10 d)) \<le> kBlockPayloadSize" "length d = 12 + unat (Get16 (drop 10 d))"
    using acc by linarith+
  have hd: "h = \<lparr>bh_flags = d ! 3, bh_file_index = Get16 (drop 4 d),
                 bh_block_index = Get32 (drop 6 d), bh_len = Get16 (drop 10 d)\<rparr>"
    and p: "p = drop 12 d"
    using acc by blast+
  have h: "bh_flags h = d ! 3" "bh_file_index h = Get16 (drop 4 d)"
      "bh_block_index h = Get32 (drop 6 d)" "bh_len h = Get16 (drop 10 d)" "p = drop 12 d"
    by (simp_all add: hd p)
  have plen: "unat (bh_len h) \<le> kBlockPayloadSize" "length d = 12 + unat (bh_len h)"
    using size by (simp_all only: h)
  show v: "block_valid (h, p)" using plen h(5) by (simp add: block_valid_def)
  have "enc_block (h, p) = Put16 kBlockMagic @ [kProtoVersion, bh_flags h] @
      Put16 (bh_file_index h) @ Put32 (bh_block_index h) @ Put16 (bh_len h) @ p"
    using v by (simp add: enc_block_def EncodeBlock_def block_valid_def)
  then have "enc_block (h, p) = Put16 (Get16 d) @ [d ! 2, d ! 3] @ Put16 (Get16 (drop 4 d)) @
      Put32 (Get32 (drop 6 d)) @ Put16 (Get16 (drop 10 d)) @ drop 12 d"
    by (simp only: h magic)
  then show "enc_block (h, p) = d" by (simp only: block_fields [OF len, symmetric])
qed

text \<open>C22. The block codec is an exact inverse pair: a datagram is accepted by \<^verbatim>\<open>DecodeBlock\<close> with a given
  header and payload exactly when \<^verbatim>\<open>EncodeBlock\<close> produces that datagram from them (so bad magic,
  bad version, an oversized length field, truncation and trailing bytes are all refused), and no
  encoded block exceeds the datagram limit.\<close>

theorem block_codec_exact:
  "(DecodeBlock d = Some (h, p) \<longleftrightarrow>
      length p = unat (bh_len h) \<and> EncodeBlock h p (kBlockHeaderSize + kBlockPayloadSize) = Some d) \<and>
   (EncodeBlock h p cap = Some d \<longrightarrow> length d \<le> cap \<and> length d \<le> kMaxDatagram)"
proof (intro conjI iffI impI)
  assume a: "DecodeBlock d = Some (h, p)"
  then show "length p = unat (bh_len h)" using DecodeBlock_canonical(1) by (simp add: block_valid_def)
  show "EncodeBlock h p (kBlockHeaderSize + kBlockPayloadSize) = Some d"
    using DecodeBlock_canonical [OF a] by (auto simp: block_valid_def enc_block_def EncodeBlock_def)
next
  assume a: "length p = unat (bh_len h) \<and> EncodeBlock h p (kBlockHeaderSize + kBlockPayloadSize) = Some d"
  then have "block_valid (h, p)" "enc_block (h, p) = d"
    by (auto simp: block_valid_def enc_block_def EncodeBlock_def split: if_splits)
  then show "DecodeBlock d = Some (h, p)" using block_codec.roundtrip by metis
next
  assume "EncodeBlock h p cap = Some d"
  then show "length d \<le> cap" "length d \<le> kMaxDatagram"
    by (auto simp: EncodeBlock_Some_iff kBlockHeaderSize_def kBlockPayloadSize_def kMaxDatagram_def min_def)
qed

theorem block_codec_exact_witness:
  "DecodeBlock [0x43, 0x42, 1, 1, 0, 7, 0, 0, 0, 5, 0, 2, 10, 11] =
     Some (\<lparr>bh_flags = 1, bh_file_index = 7, bh_block_index = 5, bh_len = 2\<rparr>, [10, 11])"
  using block_codec_exact [of "[0x43, 0x42, 1, 1, 0, 7, 0, 0, 0, 5, 0, 2, 10, 11]"
      "\<lparr>bh_flags = 1, bh_file_index = 7, bh_block_index = 5, bh_len = 2\<rparr>" "[10, 11]" 0]
  by (simp add: EncodeBlock_def block_consts Put16_def Put32_def)

text \<open>Every SACK the receiver can build decodes at the sender to the same record, with the holes
  beyond the first \<open>kSackMaxRuns\<close> dropped, and fits one unreliable datagram; \<^verbatim>\<open>DecodeSack\<close> never
  accepts an empty run.\<close>

theorem sack_codec_roundtrip:
  "((\<forall>r \<in> set (sk_holes s). run_length r \<noteq> 0) \<longrightarrow>
      DecodeSack (EncodeSack s) = Some (s\<lparr>sk_holes := take kSackMaxRuns (sk_holes s)\<rparr>)) \<and>
   length (EncodeSack s) \<le> kMaxDatagram \<and>
   (DecodeSack d = Some s' \<longrightarrow> (\<forall>r \<in> set (sk_holes s'). run_length r \<noteq> 0))"
proof (intro conjI impI)
  show "DecodeSack (EncodeSack s) = Some (s\<lparr>sk_holes := take kSackMaxRuns (sk_holes s)\<rparr>)"
    if "\<forall>r \<in> set (sk_holes s). run_length r \<noteq> 0"
    using that by (intro DecodeSack_EncodeSack) (auto dest: in_set_takeD)
  show "length (EncodeSack s) \<le> kMaxDatagram"
    by (simp add: length_EncodeSack sack_consts)
  have "\<forall>r \<in> set rs. run_length r \<noteq> 0" if "get_runs n p = Some rs" for n p rs
    using that by (induction n p arbitrary: rs rule: get_runs.induct) (auto simp: Let_def split: if_splits)
  then show "\<forall>r \<in> set (sk_holes s'). run_length r \<noteq> 0" if "DecodeSack d = Some s'"
    using that by (auto simp: DecodeSack_def Let_def split: if_splits)
qed

theorem sack_codec_roundtrip_witness:
  "DecodeSack (EncodeSack (empty_sack\<lparr>sk_holes := [mk_run 3 4]\<rparr>)) =
     Some (empty_sack\<lparr>sk_holes := [mk_run 3 4]\<rparr>)"
  using sack_codec_roundtrip [of "empty_sack\<lparr>sk_holes := [mk_run 3 4]\<rparr>" "[]" empty_sack]
  by (simp add: sack_consts)

end
