(* ===== verification/Ctrl_Codec.thy ===== *)
theory Ctrl_Codec
  imports Protocol
begin

text \<open>
  Framing of the reliable ctrl stream, \<^verbatim>\<open>core/src/transfer/ctrl_codec.{h,cpp}\<close>: a JSON document is
  cut into chunks of at most \<open>kCtrlChunk\<close> bytes, each preceded by a flag byte (1 on the last
  chunk), and reassembled on the other side.  The reassembler's state is its buffer; its result
  distinguishes a complete message, \<^verbatim>\<open>false\<close> without an error and \<^verbatim>\<open>false\<close> with one.
\<close>

section \<open>Splitting\<close>

function split_loop :: "bytes \<Rightarrow> nat \<Rightarrow> bytes list" where
  "split_loop message offset =
     (let n = min kCtrlChunk (length message - offset);
          chunk = (if length message \<le> offset + n then 1 else 0) # take n (drop offset message)
      in if offset + n < length message then chunk # split_loop message (offset + n) else [chunk])"
  by pat_completeness auto
termination
  by (relation "measure (\<lambda>(m, off). length m - off)") (auto simp: ctrl_consts)

declare split_loop.simps [simp del]

definition SplitCtrlMessage :: "bytes \<Rightarrow> bytes list" where
  "SplitCtrlMessage message = split_loop message 0"

section \<open>Reassembly\<close>

datatype ctrl_error = EmptyChunk | BadChunkFlags | MessageTooLarge

datatype feed_result = FeedMessage bytes | FeedMore | FeedError ctrl_error

definition Feed :: "bytes \<Rightarrow> bytes \<Rightarrow> feed_result \<times> bytes" where
  "Feed data buffer =
     (if data = [] then (FeedError EmptyChunk, [])
      else if 1 < data ! 0 then (FeedError BadChunkFlags, [])
      else if kMaxCtrlMessage < length buffer + length data - 1 then (FeedError MessageTooLarge, [])
      else let buffer' = buffer @ drop 1 data in
        if data ! 0 = 1 then (FeedMessage buffer', []) else (FeedMore, buffer'))"

text \<open>Feeding chunk after chunk, collecting what the reassembler reports.\<close>

fun feed_all :: "bytes list \<Rightarrow> bytes \<Rightarrow> feed_result list \<times> bytes" where
  "feed_all [] buffer = ([], buffer)"
| "feed_all (d # ds) buffer =
     (let (r, b) = Feed d buffer; (rs, b') = feed_all ds b in (r # rs, b'))"

fun messages :: "feed_result list \<Rightarrow> bytes list" where
  "messages [] = []"
| "messages (FeedMessage m # rs) = m # messages rs"
| "messages (_ # rs) = messages rs"

definition no_error :: "feed_result list \<Rightarrow> bool" where
  "no_error rs \<longleftrightarrow> (\<forall>e. FeedError e \<notin> set rs)"

section \<open>Correctness of the framing\<close>

lemma messages_append [simp]: "messages (rs @ ts) = messages rs @ messages ts"
  by (induction rs rule: messages.induct) auto

lemma no_error_simps [simp]:
  "no_error []" "no_error (FeedMessage m # rs) \<longleftrightarrow> no_error rs" "no_error (FeedMore # rs) \<longleftrightarrow> no_error rs"
  "no_error (rs @ ts) \<longleftrightarrow> no_error rs \<and> no_error ts"
  by (auto simp: no_error_def)

lemma feed_all_append:
  "feed_all (ds @ es) b = (fst (feed_all ds b) @ fst (feed_all es (snd (feed_all ds b))),
                           snd (feed_all es (snd (feed_all ds b))))"
  by (induction ds arbitrary: b) (auto simp: split_def Let_def)

text \<open>What the two possible steps of the splitter look like.\<close>

lemma split_loop_last:
  "length m \<le> off + kCtrlChunk \<Longrightarrow> off \<le> length m \<Longrightarrow> split_loop m off = [1 # drop off m]"
  by (subst split_loop.simps) (auto simp: Let_def min_def)

lemma split_loop_more:
  "off + kCtrlChunk < length m \<Longrightarrow>
   split_loop m off = (0 # take kCtrlChunk (drop off m)) # split_loop m (off + kCtrlChunk)"
  by (subst split_loop.simps) (simp add: Let_def)

lemma Feed_chunk:
  assumes "length buffer + length p \<le> kMaxCtrlMessage"
  shows "Feed (1 # p) buffer = (FeedMessage (buffer @ p), [])"
    "Feed (0 # p) buffer = (FeedMore, buffer @ p)"
  using assms by (simp_all add: Feed_def Let_def)

lemma feed_split_loop:
  assumes "off \<le> length m" and "length m \<le> kMaxCtrlMessage"
  shows "messages (fst (feed_all (split_loop m off) (take off m))) = [m] \<and>
    no_error (fst (feed_all (split_loop m off) (take off m))) \<and>
    snd (feed_all (split_loop m off) (take off m)) = []"
  using assms
proof (induction "length m - off" arbitrary: off rule: less_induct)
  case less
  show ?case
  proof (cases "off + kCtrlChunk < length m")
    case False
    with less.prems show ?thesis by (simp add: split_loop_last Feed_chunk)
  next
    case True
    have tk: "take off m @ take kCtrlChunk (drop off m) = take (off + kCtrlChunk) m"
      by (simp add: take_add)
    have F: "Feed (0 # take kCtrlChunk (drop off m)) (take off m) = (FeedMore, take (off + kCtrlChunk) m)"
      using True less.prems(2) by (subst Feed_chunk(2)) (simp_all add: tk)
    have "length m - (off + kCtrlChunk) < length m - off" using True by (simp add: ctrl_consts)
    from less.hyps [OF this] True less.prems(2) F show ?thesis
      by (simp add: split_loop_more split_def Let_def)
  qed
qed

lemma feed_split:
  assumes "length m \<le> kMaxCtrlMessage"
  shows "messages (fst (feed_all (SplitCtrlMessage m) [])) = [m]"
    "no_error (fst (feed_all (SplitCtrlMessage m) []))"
    "snd (feed_all (SplitCtrlMessage m) []) = []"
  using feed_split_loop [of 0 m] assms by (simp_all add: SplitCtrlMessage_def)

lemma split_loop_chunks:
  "c \<in> set (split_loop m off) \<Longrightarrow> off \<le> length m \<Longrightarrow> c \<noteq> [] \<and> length c \<le> kCtrlChunk + 1"
proof (induction "length m - off" arbitrary: off rule: less_induct)
  case less
  show ?case
  proof (cases "off + kCtrlChunk < length m")
    case True
    then have "length m - (off + kCtrlChunk) < length m - off" by (simp add: ctrl_consts)
    from less.hyps [OF this] True less.prems show ?thesis by (auto simp: split_loop_more)
  next
    case False
    then show ?thesis using less.prems by (simp add: split_loop_last)
  qed
qed

text \<open>The buffer of a reassembler that started empty stays within the message limit.\<close>

lemma Feed_buffer_bound:
  "length buffer \<le> kMaxCtrlMessage \<Longrightarrow> length (snd (Feed data buffer)) \<le> kMaxCtrlMessage"
  by (cases data) (auto simp: Feed_def Let_def)

lemma feed_all_bound:
  "length buffer \<le> kMaxCtrlMessage \<Longrightarrow> length (snd (feed_all ds buffer)) \<le> kMaxCtrlMessage"
proof (induction ds arbitrary: buffer)
  case (Cons d ds)
  then show ?case using Feed_buffer_bound [of buffer d] by (simp add: split_def Let_def)
qed simp

lemma feed_stream:
  assumes "\<forall>m \<in> set ms. length m \<le> kMaxCtrlMessage"
  shows "messages (fst (feed_all (concat (map SplitCtrlMessage ms)) [])) = ms \<and>
         no_error (fst (feed_all (concat (map SplitCtrlMessage ms)) [])) \<and>
         snd (feed_all (concat (map SplitCtrlMessage ms)) []) = []"
  using assms by (induction ms) (auto simp: feed_all_append feed_split)

section \<open>Properties of the framing\<close>

text \<open>C23. Sending any sequence of messages of at most 16 MiB over the ordered stream and reassembling the
  chunks yields exactly those messages in order, without an error and with an empty buffer at
  the end; every chunk fits one KCP message.\<close>

theorem ctrl_stream_roundtrip:
  assumes "\<forall>m \<in> set ms. length m \<le> kMaxCtrlMessage"
  shows "messages (fst (feed_all (concat (map SplitCtrlMessage ms)) [])) = ms \<and>
         no_error (fst (feed_all (concat (map SplitCtrlMessage ms)) [])) \<and>
         snd (feed_all (concat (map SplitCtrlMessage ms)) []) = [] \<and>
         (\<forall>c \<in> set (concat (map SplitCtrlMessage ms)). c \<noteq> [] \<and> length c \<le> kCtrlChunk + 1)"
proof -
  have chunks: "\<forall>c \<in> set (concat (map SplitCtrlMessage ms)). c \<noteq> [] \<and> length c \<le> kCtrlChunk + 1"
    by (auto simp: SplitCtrlMessage_def dest: split_loop_chunks)
  with feed_stream[OF assms] show ?thesis by blast
qed

theorem ctrl_stream_roundtrip_witness:
  "messages (fst (feed_all (concat (map SplitCtrlMessage [[123, 125], [], [7]])) [])) = [[123, 125], [], [7]]"
  using ctrl_stream_roundtrip [of "[[123, 125], [], [7]]"] by (simp add: ctrl_consts)

text \<open>Whatever a peer sends, the reassembler never holds more than 16 MiB, and a message it delivers is
  never longer than that.\<close>

theorem reassembler_bounded:
  "length (snd (feed_all ds [])) \<le> kMaxCtrlMessage \<and>
   (\<forall>m \<in> set (messages (fst (feed_all ds []))). length m \<le> kMaxCtrlMessage)"
proof -
  have "\<forall>m \<in> set (messages (fst (feed_all ds b))). length m \<le> kMaxCtrlMessage"
    if "length b \<le> kMaxCtrlMessage" for b
    using that
  proof (induction ds arbitrary: b)
    case (Cons d ds)
    have "length m \<le> kMaxCtrlMessage" if "fst (Feed d b) = FeedMessage m" for m
      using that by (cases d) (auto simp: Feed_def Let_def split: if_splits)
    then show ?case using Cons Feed_buffer_bound [of b d]
      by (cases "fst (Feed d b)") (auto simp: split_def Let_def)
  qed simp
  from this [of "[]"] feed_all_bound [of "[]" ds] show ?thesis by simp
qed

theorem reassembler_bounded_witness:
  "length (snd (feed_all [[0, 1, 2]] [])) \<le> kMaxCtrlMessage"
  using reassembler_bounded [of "[[0, 1, 2]]"] by simp

end
