(* ===== verification/Path_Sanitize.thy ===== *)
theory Path_Sanitize
  imports CT_Prelude
begin

text \<open>
  Validation of the relative paths a sender puts into a manifest and the path helpers of the
  receiver, \<^verbatim>\<open>core/src/transfer/path_sanitize.{h,cpp}\<close>.  Strings are byte strings (\<open>char\<close> is one
  byte); a filesystem path is the list of its components, which is how \<^verbatim>\<open>std::filesystem::path\<close>
  iterates it.  Whether a name exists on disk is a parameter of \<open>UniqueName\<close>.
\<close>

definition kMaxComponentBytes :: nat where "kMaxComponentBytes = 255"
definition kMaxPathBytes :: nat where "kMaxPathBytes = 4096"

abbreviation byte :: "char \<Rightarrow> u8" where
  "byte c \<equiv> of_char c"

section \<open>UTF-8\<close>

text \<open>Lead byte of a multi-byte sequence: its length and the bits it contributes.\<close>

definition utf8_lead :: "u8 \<Rightarrow> (nat \<times> u32) option" where
  "utf8_lead c =
     (if c AND 0xE0 = 0xC0 then (if c < 0xC2 then None else Some (2, ucast (c AND 0x1F)))
      else if c AND 0xF0 = 0xE0 then Some (3, ucast (c AND 0x0F))
      else if c AND 0xF8 = 0xF0 then (if 0xF4 < c then None else Some (4, ucast (c AND 0x07)))
      else None)"

fun utf8_cont :: "nat \<Rightarrow> string \<Rightarrow> u32 \<Rightarrow> u32 option" where
  "utf8_cont 0 s cp = Some cp"
| "utf8_cont (Suc k) [] cp = None"
| "utf8_cont (Suc k) (x # s) cp =
     (if byte x AND 0xC0 \<noteq> 0x80 then None
      else utf8_cont k s (push_bit 6 cp OR ucast (byte x AND 0x3F)))"

text \<open>The loop of \<^verbatim>\<open>ValidUtf8\<close> over the bytes that remain at the cursor.\<close>

function ValidUtf8 :: "string \<Rightarrow> bool" where
  "ValidUtf8 [] = True"
| "ValidUtf8 (c # rest) =
     (if byte c < 0x80 then ValidUtf8 rest
      else case utf8_lead (byte c) of None \<Rightarrow> False
        | Some (len, cp0) \<Rightarrow>
            if length rest + 1 < len then False
            else (case utf8_cont (len - 1) rest cp0 of None \<Rightarrow> False
              | Some cp \<Rightarrow>
                  if len = 3 \<and> cp < 0x800 then False
                  else if len = 4 \<and> cp < 0x10000 then False
                  else if 0x10FFFF < cp then False
                  else if 0xD800 \<le> cp \<and> cp \<le> 0xDFFF then False
                  else ValidUtf8 (drop (len - 1) rest)))"
  by pat_completeness auto
termination
  by (relation "measure length") auto

section \<open>Path components\<close>

definition toupper :: "char \<Rightarrow> char" where
  "toupper c = (if 97 \<le> byte c \<and> byte c \<le> 122 then char_of (unat (byte c) - 32) else c)"

definition IsReservedDeviceName :: "string \<Rightarrow> bool" where
  "IsReservedDeviceName component =
     (let stem = takeWhile (\<lambda>c. c \<noteq> CHR ''.'') component in
      if stem = [] then False
      else let up = map toupper stem in
        if up = ''CON'' \<or> up = ''PRN'' \<or> up = ''AUX'' \<or> up = ''NUL'' then True
        else length up = 4 \<and> (take 3 up = ''COM'' \<or> take 3 up = ''LPT'') \<and>
             byte CHR ''1'' \<le> byte (up ! 3) \<and> byte (up ! 3) \<le> byte CHR ''9'')"

definition bad_char :: "char \<Rightarrow> bool" where
  "bad_char ch \<longleftrightarrow> byte ch < 0x20 \<or> byte ch = 0x7F \<or>
     ch \<in> {CHR 0x5C, CHR '':'', CHR ''*'', CHR ''?'', CHR 0x22, CHR ''<'', CHR ''>'', CHR ''|''}"

definition SafeComponent :: "string \<Rightarrow> bool" where
  "SafeComponent c =
     (if c = [] \<or> c = ''.'' \<or> c = ''..'' then False
      else if kMaxComponentBytes < length c then False
      else if list_ex bad_char c then False
      else if last c = CHR '' '' \<or> last c = CHR ''.'' then False
      else if IsReservedDeviceName c then False
      else True)"

text \<open>The loop over the components, on the part of the path that starts at the cursor.\<close>

function safe_loop :: "string \<Rightarrow> bool" where
  "safe_loop rest =
     (let comp = takeWhile (\<lambda>c. c \<noteq> CHR ''/'') rest;
          tail = dropWhile (\<lambda>c. c \<noteq> CHR ''/'') rest in
      if \<not> SafeComponent comp then False
      else if tail = [] then True
      else if tl tail = [] then False
      else safe_loop (tl tail))"
  by pat_completeness auto
termination
  by (relation "measure length") (simp_all add: tl_dropWhile_shorter del: length_tl)

declare safe_loop.simps [simp del]

definition IsSafeRelativePath :: "string \<Rightarrow> bool" where
  "IsSafeRelativePath rel =
     (if rel = [] \<or> kMaxPathBytes < length rel then False
      else if hd rel = CHR ''/'' then False
      else if \<not> ValidUtf8 rel then False
      else safe_loop rel)"

section \<open>Joining and naming\<close>

type_synonym fspath = "string list"

function join_loop :: "fspath \<Rightarrow> string \<Rightarrow> fspath" where
  "join_loop out rest =
     (if rest = [] then out
      else let comp = takeWhile (\<lambda>c. c \<noteq> CHR ''/'') rest;
               tail = dropWhile (\<lambda>c. c \<noteq> CHR ''/'') rest;
               out' = (if comp \<noteq> [] then out @ [comp] else out)
           in if tail = [] then out' else join_loop out' (tl tail))"
  by pat_completeness auto
termination
  by (relation "measure (length \<circ> snd)") (simp_all add: tl_dropWhile_shorter del: length_tl)

declare join_loop.simps [simp del]

definition JoinSafe :: "fspath \<Rightarrow> string \<Rightarrow> fspath" where
  "JoinSafe base rel = join_loop base rel"

text \<open>\<^verbatim>\<open>std::to_string\<close> on a non-negative number.\<close>

fun to_string :: "nat \<Rightarrow> string" where
  "to_string n = (if n < 10 then [char_of (48 + n)] else to_string (n div 10) @ [char_of (48 + n mod 10)])"

declare to_string.simps [simp del]

text \<open>The position of the last dot, if there is one.\<close>

definition rfind :: "char \<Rightarrow> string \<Rightarrow> nat option" where
  "rfind c s = (let r = dropWhile (\<lambda>x. x \<noteq> c) (rev s) in if r = [] then None else Some (length r - 1))"

definition split_ext :: "string \<Rightarrow> bool \<Rightarrow> string \<times> string" where
  "split_ext name is_dir =
     (if is_dir then (name, [])
      else case rfind CHR ''.'' name of None \<Rightarrow> (name, [])
        | Some dot \<Rightarrow> if 0 < dot then (take dot name, drop dot name) else (name, []))"

definition numbered :: "string \<times> string \<Rightarrow> nat \<Rightarrow> string" where
  "numbered se i = fst se @ '' ('' @ to_string i @ '')'' @ snd se"

text \<open>
  \<open>exists n\<close> stands for \<^verbatim>\<open>std::filesystem::exists(base / n)\<close>, \<open>rd\<close> for the value of
  \<^verbatim>\<open>std::random_device\<close>.
\<close>

definition UniqueName :: "(string \<Rightarrow> bool) \<Rightarrow> nat \<Rightarrow> string \<Rightarrow> bool \<Rightarrow> string" where
  "UniqueName exists rd name is_dir =
     (if \<not> exists name then name
      else let se = split_ext name is_dir in
        case find (\<lambda>i. \<not> exists (numbered se i)) [1..<10001] of
          Some i \<Rightarrow> numbered se i
        | None \<Rightarrow> numbered se rd)"

definition BaseName :: "string \<Rightarrow> string" where
  "BaseName rel = (case rfind CHR ''/'' rel of None \<Rightarrow> rel | Some slash \<Rightarrow> drop (slash + 1) rel)"


section \<open>UTF-8: the checker accepts exactly the encodings of Unicode scalar values\<close>

definition scalar :: "nat \<Rightarrow> bool" where
  "scalar cp \<longleftrightarrow> cp \<le> 0x10FFFF \<and> \<not> (0xD800 \<le> cp \<and> cp \<le> 0xDFFF)"

text \<open>The encoding form of RFC 3629, written arithmetically.\<close>

definition utf8_enc :: "nat \<Rightarrow> nat list" where
  "utf8_enc cp =
     (if cp < 0x80 then [cp]
      else if cp < 0x800 then [0xC0 + cp div 64, 0x80 + cp mod 64]
      else if cp < 0x10000 then [0xE0 + cp div 4096, 0x80 + cp div 64 mod 64, 0x80 + cp mod 64]
      else [0xF0 + cp div 262144, 0x80 + cp div 4096 mod 64, 0x80 + cp div 64 mod 64, 0x80 + cp mod 64])"

abbreviation ord :: "char \<Rightarrow> nat" where
  "ord c \<equiv> of_char c"

lemma ord_lt [simp]: "ord c < 256"
  by (metis of_char_of char_of_char mod_less_divisor zero_less_numeral)

lemma unat_byte [simp]: "unat (byte c) = ord c"
proof -
  have "unat (of_nat (ord c) :: u8) = ord c"
    by (subst unat_of_nat_u8) (simp_all only: ord_lt)
  then show ?thesis by (simp only: of_nat_of_char)
qed

lemma utf8_lead_cases: "utf8_lead c =
   (if 194 \<le> c \<and> c < 224 then Some (2, ucast c - 192)
    else if 224 \<le> c \<and> c < 240 then Some (3, ucast c - 224)
    else if 240 \<le> c \<and> c \<le> 244 then Some (4, ucast c - 240) else None)"
proof -
  have "\<forall>c. utf8_lead c =
   (if 194 \<le> c \<and> c < 224 then Some (2, ucast c - 192)
    else if 224 \<le> c \<and> c < 240 then Some (3, ucast c - 224)
    else if 240 \<le> c \<and> c \<le> 244 then Some (4, ucast c - 240) else None)"
    unfolding all_u8 by code_simp
  then show ?thesis by blast
qed

lemma utf8_cont_byte: "c AND 0xC0 = 0x80 \<longleftrightarrow> 128 \<le> unat c \<and> unat c < 192" for c :: u8
proof -
  have m: "(0xC0 :: u8) = push_bit 6 (mask 2)" by (simp add: mask_eq_exp_minus_1)
  have "c AND 0xC0 = push_bit 6 (take_bit 2 (drop_bit 6 c))"
    unfolding m by (rule bit_word_eqI) (auto simp: bit_simps)
  then have "unat (c AND 0xC0) = unat c div 64 mod 4 * 64 mod 256"
    by (simp add: take_bit_eq_mod drop_bit_eq_div push_bit_eq_mult unat_word_ariths unat_mod unat_div mod_mod_cancel)
  moreover have "unat c div 64 < 4" using unat_lt_u8[of c] by (simp add: div_less_iff_less_mult)
  ultimately have "unat (c AND 0xC0) = unat c div 64 * 64" by simp
  moreover have "c AND 0xC0 = 0x80 \<longleftrightarrow> unat (c AND 0xC0) = unat (0x80 :: u8)" by (simp only: word_unat_eq_iff)
  moreover have "n div 64 * 64 = 128 \<longleftrightarrow> 128 \<le> n \<and> n < 192" for n :: nat
  proof
    have m: "n mod 64 < 64" "n div 64 * 64 + n mod 64 = n" by simp_all
    show "128 \<le> n \<and> n < 192" if "n div 64 * 64 = 128" using that m by linarith
    show "n div 64 * 64 = 128" if "128 \<le> n \<and> n < 192"
    proof -
      have "n div 64 = 2" by (rule div_nat_eqI) (use that in simp_all)
      then show ?thesis by simp
    qed
  qed
  ultimately show ?thesis by simp
qed

lemma unat_low6: "unat (c AND 0x3F) = unat c mod 64" for c :: u8
proof -
  have "(0x3F :: u8) = mask 6" by (simp add: mask_eq_exp_minus_1)
  then have "c AND 0x3F = take_bit 6 c" by (simp only: take_bit_eq_mask)
  then show ?thesis by (simp add: take_bit_eq_mod unat_mod)
qed

lemma utf8_cont_bits: "128 \<le> unat c \<Longrightarrow> unat c < 192 \<Longrightarrow> unat (c AND 0x3F) = unat c - 128" for c :: u8
  by (simp add: unat_low6 le_mod_geq)

lemma utf8_shift: "unat (push_bit 6 cp OR ucast (b AND 0x3F)) = unat cp * 64 + unat (b AND 0x3F)"
  if "unat cp < 2 ^ 26" for cp :: u32 and b :: u8
proof -
  have mask: "(0x3F :: u8) = mask 6" by (simp add: mask_eq_exp_minus_1)
  have "push_bit 6 cp OR ucast (b AND 0x3F) = push_bit 6 cp + ucast (b AND 0x3F)"
    unfolding mask by (rule disjunctive_add [symmetric]) (auto simp: bit_simps)
  moreover have "unat (ucast (b AND 0x3F) :: u32) = unat (b AND 0x3F)"
    by (simp add: unsigned_ucast_eq take_bit_nat_eq_self order_less_trans[OF unat_lt_u8])
  moreover have "unat (b AND 0x3F) < 64" by (simp add: unat_low6)
  moreover have "unat (push_bit 6 cp) = unat cp * 64"
    using that by (simp add: push_bit_eq_mult unat_word_ariths)
  ultimately show ?thesis using that by (simp add: unat_word_ariths)
qed


definition is_cont :: "char \<Rightarrow> bool" where
  "is_cont x \<longleftrightarrow> 128 \<le> ord x \<and> ord x < 192"

definition utf8_val :: "nat \<Rightarrow> string \<Rightarrow> nat" where
  "utf8_val = foldl (\<lambda>a x. a * 64 + (ord x - 128))"

lemma utf8_cont_value: "map_option unat (utf8_cont k s cp) =
   (if k \<le> length s \<and> list_all is_cont (take k s) then Some (utf8_val (unat cp) (take k s)) else None)"
  if "(unat cp + 1) * 64 ^ k \<le> 2 ^ 32"
  using that
proof (induction k s cp rule: utf8_cont.induct)
  case (3 k x s cp)
  have cp: "unat cp < 2 ^ 26"
  proof -
    have "(unat cp + 1) * 64 \<le> (unat cp + 1) * 64 * 64 ^ k" by simp
    then show ?thesis using "3.prems" by (simp add: algebra_simps)
  qed
  show ?case
  proof (cases "is_cont x")
    case True
    then have "unat (push_bit 6 cp OR ucast (byte x AND 0x3F)) = unat cp * 64 + (ord x - 128)"
      using utf8_shift[OF cp, of "byte x"] utf8_cont_bits[of "byte x"] by (simp add: is_cont_def)
    moreover have "(unat cp * 64 + (ord x - 128) + 1) * 64 ^ k \<le> 2 ^ 32"
    proof -
      have "(unat cp * 64 + (ord x - 128) + 1) * 64 ^ k \<le> (unat cp + 1) * 64 * 64 ^ k"
        using True by (intro mult_right_mono) (auto simp: is_cont_def)
      then show ?thesis using "3.prems" by (simp add: algebra_simps)
    qed
    ultimately show ?thesis using True "3.IH" by (simp add: is_cont_def utf8_cont_byte utf8_val_def)
  qed (auto simp: is_cont_def utf8_cont_byte)
qed (simp_all add: utf8_val_def)

lemma ValidUtf8_multi: "ValidUtf8 (c # rest) \<longleftrightarrow>
    length rest + 1 \<ge> len \<and> list_all is_cont (take (len - 1) rest) \<and>
    (let cp = utf8_val (unat cp0) (take (len - 1) rest) in
       (len = 3 \<longrightarrow> 0x800 \<le> cp) \<and> (len = 4 \<longrightarrow> 0x10000 \<le> cp) \<and> scalar cp) \<and>
    ValidUtf8 (drop (len - 1) rest)"
  if "utf8_lead (byte c) = Some (len, cp0)" "(unat cp0 + 1) * 64 ^ (len - 1) \<le> 2 ^ 32" "128 \<le> ord c"
proof -
  have c: "\<not> byte c < 0x80" using that by (simp add: word_less_nat_alt)
  show ?thesis
  proof (cases "utf8_cont (len - 1) rest cp0")
    case None
    then show ?thesis using utf8_cont_value[OF that(2), of rest] c that(1)
      by (auto split: if_splits)
  next
    case (Some cp)
    then have "len - 1 \<le> length rest" "list_all is_cont (take (len - 1) rest)"
      "unat cp = utf8_val (unat cp0) (take (len - 1) rest)"
      using utf8_cont_value[OF that(2), of rest] by (auto split: if_splits)
    then show ?thesis using Some c that(1)
      by (subst ValidUtf8.simps(2)) (auto simp: Let_def scalar_def word_less_nat_alt word_le_nat_alt)
  qed
qed

lemma utf8_lead_unat:
  "194 \<le> ord c \<Longrightarrow> ord c < 224 \<Longrightarrow> \<exists>cp0. utf8_lead (byte c) = Some (2, cp0) \<and> unat cp0 = ord c - 192"
  "224 \<le> ord c \<Longrightarrow> ord c < 240 \<Longrightarrow> \<exists>cp0. utf8_lead (byte c) = Some (3, cp0) \<and> unat cp0 = ord c - 224"
  "240 \<le> ord c \<Longrightarrow> ord c \<le> 244 \<Longrightarrow> \<exists>cp0. utf8_lead (byte c) = Some (4, cp0) \<and> unat cp0 = ord c - 240"
proof -
  have lead: "unat (ucast (byte c) - n :: u32) = ord c - unat n" if "unat n \<le> ord c" for n :: u32
    using that by (simp add: unat_diff_word word_le_nat_alt unsigned_ucast_eq take_bit_nat_eq_self
        order_less_trans[OF ord_lt])
  show "194 \<le> ord c \<Longrightarrow> ord c < 224 \<Longrightarrow> \<exists>cp0. utf8_lead (byte c) = Some (2, cp0) \<and> unat cp0 = ord c - 192"
  "224 \<le> ord c \<Longrightarrow> ord c < 240 \<Longrightarrow> \<exists>cp0. utf8_lead (byte c) = Some (3, cp0) \<and> unat cp0 = ord c - 224"
  "240 \<le> ord c \<Longrightarrow> ord c \<le> 244 \<Longrightarrow> \<exists>cp0. utf8_lead (byte c) = Some (4, cp0) \<and> unat cp0 = ord c - 240"
    by (simp_all add: utf8_lead_cases word_le_nat_alt word_less_nat_alt lead)
qed

lemma ValidUtf8_ascii: "ord c < 128 \<Longrightarrow> ValidUtf8 (c # rest) = ValidUtf8 rest"
  by (simp add: word_less_nat_alt)

lemma ValidUtf8_2: "194 \<le> ord c \<Longrightarrow> ord c < 224 \<Longrightarrow> ValidUtf8 (c # rest) \<longleftrightarrow>
   (case rest of x # s \<Rightarrow> is_cont x \<and> ValidUtf8 s | _ \<Rightarrow> False)"
proof -
  assume c: "194 \<le> ord c" "ord c < 224"
  then obtain cp0 where cp0: "utf8_lead (byte c) = Some (2, cp0)" "unat cp0 = ord c - 192"
    using utf8_lead_unat(1) by blast
  show ?thesis using c
    by (subst ValidUtf8_multi[OF cp0(1)])
       (auto simp: cp0(2) utf8_val_def scalar_def is_cont_def Let_def split: list.splits)
qed

lemma ValidUtf8_3: "224 \<le> ord c \<Longrightarrow> ord c < 240 \<Longrightarrow> ValidUtf8 (c # rest) \<longleftrightarrow>
   (case rest of x # y # s \<Rightarrow> is_cont x \<and> is_cont y \<and>
      0x800 \<le> utf8_val (ord c - 224) [x, y] \<and> scalar (utf8_val (ord c - 224) [x, y]) \<and> ValidUtf8 s
    | _ \<Rightarrow> False)"
proof -
  assume c: "224 \<le> ord c" "ord c < 240"
  then obtain cp0 where cp0: "utf8_lead (byte c) = Some (3, cp0)" "unat cp0 = ord c - 224"
    using utf8_lead_unat(2) by blast
  have b: "(unat cp0 + 1) * 64 ^ (3 - 1) \<le> 2 ^ 32" using c by (simp add: cp0(2))
  show ?thesis using c
    by (subst ValidUtf8_multi[OF cp0(1) b])
       (auto simp: cp0(2) Let_def numeral_2_eq_2 split: list.splits)
qed

lemma ValidUtf8_4: "240 \<le> ord c \<Longrightarrow> ord c \<le> 244 \<Longrightarrow> ValidUtf8 (c # rest) \<longleftrightarrow>
   (case rest of x # y # z # s \<Rightarrow> is_cont x \<and> is_cont y \<and> is_cont z \<and>
      0x10000 \<le> utf8_val (ord c - 240) [x, y, z] \<and> scalar (utf8_val (ord c - 240) [x, y, z]) \<and> ValidUtf8 s
    | _ \<Rightarrow> False)"
proof -
  assume c: "240 \<le> ord c" "ord c \<le> 244"
  then obtain cp0 where cp0: "utf8_lead (byte c) = Some (4, cp0)" "unat cp0 = ord c - 240"
    using utf8_lead_unat(3) by blast
  have b: "(unat cp0 + 1) * 64 ^ (4 - 1) \<le> 2 ^ 32" using c by (simp add: cp0(2))
  show ?thesis using c
    by (subst ValidUtf8_multi[OF cp0(1) b])
       (auto simp: cp0(2) Let_def numeral_3_eq_3 split: list.splits)
qed

lemma ValidUtf8_bad: "128 \<le> ord c \<Longrightarrow> ord c < 194 \<or> 244 < ord c \<Longrightarrow> \<not> ValidUtf8 (c # rest)"
  by (auto simp: utf8_lead_cases word_le_nat_alt word_less_nat_alt)

declare ValidUtf8.simps(2) [simp del]

lemma ord_char_of [simp]: "n < 256 \<Longrightarrow> ord (char_of n) = n"
  by simp

lemma pack64: "b < 64 \<Longrightarrow> (a * 64 + b) div 64 = a" "b < 64 \<Longrightarrow> (a * 64 + b) mod 64 = b" for a b :: nat
  by simp_all

lemma unpack64: "n div 64 * 64 + n mod 64 = n" "n div 4096 = n div 64 div 64" "n div 262144 = n div 64 div 64 div 64" for n :: nat
  by (simp_all add: div_mult2_eq[symmetric])

lemma cont_ord: "is_cont x \<Longrightarrow> ord x - 128 < 64 \<and> 128 + (ord x - 128) = ord x"
  by (auto simp: is_cont_def)

lemma ValidUtf8_enc: "scalar cp \<Longrightarrow> ValidUtf8 (map char_of (utf8_enc cp) @ s) = ValidUtf8 s"
proof -
  assume sc: "scalar cp"
  consider "cp < 0x80" | "0x80 \<le> cp" "cp < 0x800" | "0x800 \<le> cp" "cp < 0x10000" | "0x10000 \<le> cp" "cp \<le> 0x10FFFF"
    using sc by (fastforce simp: scalar_def)
  then show ?thesis
  proof cases
    case 1
    then show ?thesis by (simp add: utf8_enc_def ValidUtf8_ascii)
  next
    case 2
    then have "cp div 64 < 32" "2 \<le> cp div 64"
      by (simp_all add: div_less_iff_less_mult less_eq_div_iff_mult_less_eq)
    with 2 show ?thesis by (simp add: utf8_enc_def ValidUtf8_2 is_cont_def)
  next
    case 3
    then have d: "cp div 4096 < 16" by (simp add: div_less_iff_less_mult)
    have v: "utf8_val (cp div 4096) [char_of (128 + cp div 64 mod 64), char_of (128 + cp mod 64)] = cp"
      by (simp add: utf8_val_def unpack64(2))
    show ?thesis using 3 d sc by (simp add: utf8_enc_def ValidUtf8_3 is_cont_def v)
  next
    case 4
    then have d: "cp div 262144 < 5" by (simp add: div_less_iff_less_mult)
    have v: "utf8_val (cp div 262144) [char_of (128 + cp div 4096 mod 64), char_of (128 + cp div 64 mod 64),
        char_of (128 + cp mod 64)] = cp"
      by (simp add: utf8_val_def unpack64(2,3))
    show ?thesis using 4 d sc by (simp add: utf8_enc_def ValidUtf8_4 is_cont_def v)
  qed
qed

lemma ValidUtf8_dec: "ValidUtf8 (c # rest) \<Longrightarrow>
   \<exists>cp s. scalar cp \<and> map ord (c # rest) = utf8_enc cp @ map ord s \<and> ValidUtf8 s \<and> length s \<le> length rest"
proof -
  assume v: "ValidUtf8 (c # rest)"
  have "ord c < 128 \<or> 194 \<le> ord c \<and> ord c \<le> 244" using ValidUtf8_bad[of c rest] v by linarith
  then consider "ord c < 128" | "194 \<le> ord c" "ord c < 224" | "224 \<le> ord c" "ord c < 240" | "240 \<le> ord c" "ord c \<le> 244"
    by linarith
  then show ?thesis
  proof cases
    case 1
    then show ?thesis using v
      by (intro exI[of _ "ord c"] exI[of _ rest]) (simp add: ValidUtf8_ascii utf8_enc_def scalar_def)
  next
    case 2
    then obtain x s where r: "rest = x # s" "is_cont x" "ValidUtf8 s"
      using v by (auto simp: ValidUtf8_2 split: list.splits)
    let ?cp = "(ord c - 192) * 64 + (ord x - 128)"
    have "?cp div 64 = ord c - 192" "?cp mod 64 = ord x - 128" "0x80 \<le> ?cp" "?cp < 0x800"
      using 2 cont_ord[OF r(2)] by (simp_all only: pack64) linarith+
    then have "scalar ?cp \<and> utf8_enc ?cp = [ord c, ord x]"
      using 2 r(2) unfolding utf8_enc_def scalar_def is_cont_def by simp
    then show ?thesis using r by (intro exI[of _ ?cp] exI[of _ s]) simp
  next
    case 3
    then obtain x y s where r: "rest = x # y # s" "is_cont x" "is_cont y" "ValidUtf8 s"
       "0x800 \<le> utf8_val (ord c - 224) [x, y]" "scalar (utf8_val (ord c - 224) [x, y])"
      using v by (auto simp: ValidUtf8_3 split: list.splits)
    let ?cp = "utf8_val (ord c - 224) [x, y]"
    have cp: "?cp = ((ord c - 224) * 64 + (ord x - 128)) * 64 + (ord y - 128)" by (simp add: utf8_val_def)
    have "?cp div 4096 = ord c - 224" "?cp div 64 mod 64 = ord x - 128" "?cp mod 64 = ord y - 128"
      using cont_ord[OF r(2)] cont_ord[OF r(3)] by (simp_all only: cp unpack64(2) pack64)
    moreover have "?cp < 0x10000" unfolding cp using 3 cont_ord[OF r(2)] cont_ord[OF r(3)] by auto
    ultimately have "utf8_enc ?cp = [ord c, ord x, ord y]"
      using 3 r unfolding utf8_enc_def is_cont_def by simp
    then show ?thesis using r by (intro exI[of _ ?cp] exI[of _ s]) simp
  next
    case 4
    then obtain x y z s where r: "rest = x # y # z # s" "is_cont x" "is_cont y" "is_cont z" "ValidUtf8 s"
       "0x10000 \<le> utf8_val (ord c - 240) [x, y, z]" "scalar (utf8_val (ord c - 240) [x, y, z])"
      using v by (auto simp: ValidUtf8_4 split: list.splits)
    let ?cp = "utf8_val (ord c - 240) [x, y, z]"
    have cp: "?cp = (((ord c - 240) * 64 + (ord x - 128)) * 64 + (ord y - 128)) * 64 + (ord z - 128)"
      by (simp add: utf8_val_def)
    have "?cp div 262144 = ord c - 240" "?cp div 4096 mod 64 = ord x - 128"
      "?cp div 64 mod 64 = ord y - 128" "?cp mod 64 = ord z - 128"
      using cont_ord[OF r(2)] cont_ord[OF r(3)] cont_ord[OF r(4)]
      by (simp_all only: cp unpack64(2,3) pack64)
    then have "utf8_enc ?cp = [ord c, ord x, ord y, ord z]"
      using 4 r unfolding utf8_enc_def is_cont_def by simp
    then show ?thesis using r by (intro exI[of _ ?cp] exI[of _ s]) simp
  qed
qed

text \<open>C20. ValidUtf8 accepts a byte string exactly when it is the concatenation of the UTF-8 encodings of
Unicode scalar values: no overlong forms, no surrogates, nothing above U+10FFFF, no truncated sequence.\<close>

theorem ValidUtf8_iff_encoding:
  "ValidUtf8 s \<longleftrightarrow> (\<exists>cps. list_all scalar cps \<and> map ord s = concat (map utf8_enc cps))"
proof
  show "ValidUtf8 s \<Longrightarrow> \<exists>cps. list_all scalar cps \<and> map ord s = concat (map utf8_enc cps)"
  proof (induction "length s" arbitrary: s rule: less_induct)
    case less
    show ?case
    proof (cases s)
      case (Cons c rest)
      obtain cp s' where d: "scalar cp" "map ord s = utf8_enc cp @ map ord s'" "ValidUtf8 s'" "length s' < length s"
        using ValidUtf8_dec[of c rest] less.prems Cons by force
      with less.hyps[of s'] obtain cps where "list_all scalar cps" "map ord s' = concat (map utf8_enc cps)" by blast
      with d show ?thesis by (intro exI[of _ "cp # cps"]) simp
    qed (auto intro: exI[of _ "[]"])
  qed
next
  have enc: "ValidUtf8 (map char_of (concat (map utf8_enc cps)))" if "list_all scalar cps" for cps
    using that by (induction cps) (simp_all add: ValidUtf8_enc)
  assume "\<exists>cps. list_all scalar cps \<and> map ord s = concat (map utf8_enc cps)"
  then obtain cps where c: "list_all scalar cps" "map ord s = concat (map utf8_enc cps)" by blast
  have "map char_of (map ord s) = s" by (simp add: map_idI)
  with enc[OF c(1)] c(2) show "ValidUtf8 s" by (simp del: map_map)
qed

section \<open>Safe paths\<close>

lemma SafeComponent_Nil [simp]: "\<not> SafeComponent []"
  by (simp add: SafeComponent_def)

lemma safe_loop_iff: "safe_loop rest \<longleftrightarrow> list_all SafeComponent (split_on CHR ''/'' rest)"
proof (induction rest rule: safe_loop.induct)
  case (1 rest)
  show ?case
    using 1 by (subst safe_loop.simps, subst split_on.simps) (auto simp: Let_def)
qed

lemma IsSafeRelativePath_iff: "IsSafeRelativePath rel \<longleftrightarrow>
    length rel \<le> kMaxPathBytes \<and> ValidUtf8 rel \<and> list_all SafeComponent (split_on CHR ''/'' rel)"
proof (cases "rel = []")
  case False
  then have "hd rel = CHR ''/'' \<Longrightarrow> \<not> list_all SafeComponent (split_on CHR ''/'' rel)"
    using split_on_snoc_sep[of rel "CHR ''/''"] by (force simp: list_all_iff)
  with False show ?thesis by (auto simp: IsSafeRelativePath_def safe_loop_iff)
qed (simp add: IsSafeRelativePath_def)

lemma join_loop_split: "join_loop out rest = out @ filter (\<lambda>p. p \<noteq> []) (split_on CHR ''/'' rest)"
proof (induction out rest rule: join_loop.induct)
  case (1 out rest)
  show ?case
    using 1 by (subst join_loop.simps, subst split_on.simps) (auto simp: Let_def)
qed

definition confined :: "string \<Rightarrow> bool" where
  "confined c \<longleftrightarrow> c \<noteq> [] \<and> c \<noteq> ''.'' \<and> c \<noteq> ''..'' \<and> length c \<le> kMaxComponentBytes \<and>
     set c \<inter> {CHR ''/'', CHR 0x5C, CHR '':'', CHR 0x00} = {} \<and> \<not> IsReservedDeviceName c"

lemma SafeComponent_confined: "SafeComponent c \<Longrightarrow> CHR ''/'' \<notin> set c \<Longrightarrow> confined c"
proof -
  assume s: "SafeComponent c" "CHR ''/'' \<notin> set c"
  have "\<not> bad_char x" if "x \<in> set c" for x
    using s(1) that by (auto simp: SafeComponent_def list_ex_iff split: if_splits)
  moreover have "bad_char CHR 0x5C" "bad_char CHR '':''" "bad_char CHR 0x00" by (simp_all add: bad_char_def)
  ultimately have "CHR 0x5C \<notin> set c" "CHR '':'' \<notin> set c" "CHR 0x00 \<notin> set c" by blast+
  then show "confined c" using s by (simp add: SafeComponent_def confined_def split: if_splits)
qed

lemma ValidUtf8_ascii_all: "list_all (\<lambda>c. ord c < 128) s \<Longrightarrow> ValidUtf8 s"
  by (induction s) (simp_all add: ValidUtf8_ascii)

text \<open>Rules that evaluate the checker on a concrete ASCII path.\<close>

lemmas path_eval = IsSafeRelativePath_iff kMaxPathBytes_def ValidUtf8_ascii_all split_on.simps[of _ "_ # _"]
  SafeComponent_def kMaxComponentBytes_def bad_char_def IsReservedDeviceName_def toupper_def

lemma JoinSafe_split:
  assumes "IsSafeRelativePath rel"
  shows "JoinSafe base rel = base @ split_on CHR ''/'' rel \<and> list_all confined (split_on CHR ''/'' rel)"
proof -
  let ?comps = "split_on CHR ''/'' rel"
  have safe: "list_all SafeComponent ?comps" using assms by (simp add: IsSafeRelativePath_iff)
  then have "filter (\<lambda>p. p \<noteq> []) ?comps = ?comps" by (auto simp: filter_id_conv list_all_iff)
  moreover have "confined c" if c: "c \<in> set ?comps" for c
    using safe c by (simp add: SafeComponent_confined split_on_sep[OF c] list_all_iff)
  ultimately show ?thesis by (simp add: JoinSafe_def join_loop_split list_all_iff)
qed

lemma JoinSafe_injective:
  assumes "IsSafeRelativePath a" "IsSafeRelativePath b" "JoinSafe base a = JoinSafe base b"
  shows "a = b"
  using assms JoinSafe_split[of a base] JoinSafe_split[of b base] join_split_on by (metis same_append_eq)

text \<open>C19. A relative path that passes IsSafeRelativePath is joined strictly below the save directory: the joined path is
the base followed by one or more components, none of which is empty, a dot name, a reserved device or contains a
separator, a drive colon or NUL, and the components spell the path.\<close>

theorem safe_path_stays_below_base:
  assumes "IsSafeRelativePath rel"
  shows "\<exists>comps. JoinSafe base rel = base @ comps \<and> comps \<noteq> [] \<and> list_all confined comps \<and>
    rel = join_on CHR ''/'' comps"
  using JoinSafe_split[OF assms] by (intro exI[of _ "split_on CHR ''/'' rel"]) simp

lemma safe_path_stays_below_base_witness:
  "\<exists>comps. JoinSafe [''home'', ''Downloads''] ''photos/a.txt'' = [''home'', ''Downloads''] @ comps \<and> comps \<noteq> [] \<and>
     list_all confined comps \<and> ''photos/a.txt'' = join_on CHR ''/'' comps"
proof -
  have "IsSafeRelativePath ''photos/a.txt''" by (simp add: path_eval)
  then show ?thesis by (rule safe_path_stays_below_base)
qed

text \<open>The name is free unless all ten thousand numbered candidates are taken.\<close>

lemma UniqueName_fresh: "(\<exists>i\<in>{1..10000}. \<not> exists (numbered (split_ext name is_dir) i)) \<Longrightarrow>
   \<not> exists (UniqueName exists rd name is_dir)"
proof -
  assume "\<exists>i\<in>{1..10000}. \<not> exists (numbered (split_ext name is_dir) i)"
  then have "find (\<lambda>i. \<not> exists (numbered (split_ext name is_dir) i)) [1..<10001] \<noteq> None"
    unfolding find_None_iff by force
  then obtain i where i: "find (\<lambda>i. \<not> exists (numbered (split_ext name is_dir) i)) [1..<10001] = Some i" by blast
  then have "\<not> exists (numbered (split_ext name is_dir) i)" unfolding find_Some_iff by blast
  then show ?thesis using i unfolding UniqueName_def Let_def by simp
qed

end
