(* ===== verification/Take_Code.thy ===== *)
theory Take_Code
  imports Path_Sanitize
begin

text \<open>
  Take codes and links, \<^verbatim>\<open>core/src/share/take_code.{h,cpp}\<close>.  The functions return the empty string on failure, as
  in the source.  The decode table is the function \<open>DecodeTable\<close> from a byte to an index, \<open>None\<close> for \<^verbatim>\<open>-1\<close>.
\<close>

definition kAlphabet :: string where
  "kAlphabet = ''0123456789ABCDEFGHJKMNPQRSTVWXYZ''"
definition kLength :: nat where "kLength = 10"
definition kPrefixLength :: nat where "kPrefixLength = 4"
definition kScheme :: string where "kScheme = ''crosstransfer''"

text \<open>The table is filled from the alphabet, then the three look-alike entries are set.\<close>

definition DecodeTable :: "char \<Rightarrow> nat option" where
  "DecodeTable =
     (let t = map_of (zip kAlphabet [0..<length kAlphabet]) in
      t(CHR ''O'' := t CHR ''0'', CHR ''I'' := t CHR ''1'', CHR ''L'' := t CHR ''1''))"

text \<open>\<^verbatim>\<open>std::isspace\<close> and \<^verbatim>\<open>std::tolower\<close> in the C locale.\<close>

definition isspace :: "char \<Rightarrow> bool" where
  "isspace c \<longleftrightarrow> ord c = 32 \<or> 9 \<le> ord c \<and> ord c \<le> 13"

definition tolower :: "char \<Rightarrow> char" where
  "tolower c = (if 65 \<le> ord c \<and> ord c \<le> 90 then char_of (ord c + 32) else c)"

definition Trim :: "string \<Rightarrow> string" where
  "Trim s = rev (dropWhile isspace (rev (dropWhile isspace s)))"

definition IEquals :: "string \<Rightarrow> string \<Rightarrow> bool" where
  "IEquals a b \<longleftrightarrow> (if length a \<noteq> length b then False else map tolower a = map tolower b)"

definition skipped :: "char \<Rightarrow> bool" where
  "skipped c \<longleftrightarrow> c = CHR ''-'' \<or> c = CHR '' '' \<or> ord c = 9 \<or> c = CHR ''_''"

fun Normalize_loop :: "string \<Rightarrow> string \<Rightarrow> string" where
  "Normalize_loop [] out = (if length out \<noteq> kLength then [] else out)"
| "Normalize_loop (ch # rest) out =
     (if skipped ch then Normalize_loop rest out
      else let c = toupper ch in
        if 128 \<le> ord c then []
        else case DecodeTable c of None \<Rightarrow> []
          | Some idx \<Rightarrow> if kLength \<le> length out then []
              else Normalize_loop rest (out @ [kAlphabet ! idx]))"

definition Normalize :: "string \<Rightarrow> string" where
  "Normalize input = Normalize_loop input []"

definition Format :: "string \<Rightarrow> string" where
  "Format canonical =
     (if length canonical \<noteq> kLength then canonical else take 5 canonical @ ''-'' @ drop 5 canonical)"

text \<open>\<^verbatim>\<open>find\<close> of a substring: the position of its first occurrence.\<close>

fun find_sub :: "string \<Rightarrow> string \<Rightarrow> nat option" where
  "find_sub pat [] = (if pat = [] then Some 0 else None)"
| "find_sub pat (c # s) =
     (if take (length pat) (c # s) = pat then Some 0 else map_option Suc (find_sub pat s))"

definition code_part :: "string \<Rightarrow> string" where
  "code_part rest = Normalize (takeWhile (\<lambda>c. c \<notin> set ''?#/'') rest)"

definition link_code :: "string \<Rightarrow> string" where
  "link_code rest =
     (case find_sub ''/r/'' rest of
        Some r \<Rightarrow> code_part (drop (r + 3) rest)
      | None \<Rightarrow>
          if 2 < length rest \<and> (rest ! 0 = CHR ''r'' \<or> rest ! 0 = CHR ''R'') \<and> rest ! 1 = CHR ''/''
          then code_part (drop 2 rest) else [])"

definition ParseCodeOrLink :: "string \<Rightarrow> string" where
  "ParseCodeOrLink input =
     (let s = Trim input; scheme_prefix = ''crosstransfer:'' in
      if s = [] then []
      else case find_sub ''://'' s of
        Some scheme_sep \<Rightarrow> link_code (drop (scheme_sep + 3) s)
      | None \<Rightarrow>
          if length scheme_prefix < length s \<and> IEquals (take (length scheme_prefix) s) scheme_prefix
          then link_code (drop (length scheme_prefix) s)
          else Normalize s)"

definition MakeHttpsLink :: "string \<Rightarrow> string \<Rightarrow> string" where
  "MakeHttpsLink link_host canonical =
     (if link_host = [] \<or> length canonical \<noteq> kLength then []
      else ''https://'' @ link_host @ ''/r/'' @ Format canonical)"

definition MakeSchemeLink :: "string \<Rightarrow> string" where
  "MakeSchemeLink canonical =
     (if length canonical \<noteq> kLength then [] else kScheme @ ''://r/'' @ Format canonical)"

definition LogPrefix :: "string \<Rightarrow> string" where
  "LogPrefix canonical =
     (if length canonical < kPrefixLength then ''????******'' else take kPrefixLength canonical @ ''******'')"

section \<open>Canonical codes\<close>

definition canonical :: "string \<Rightarrow> bool" where
  "canonical c \<longleftrightarrow> length c = kLength \<and> list_all (\<lambda>x. x \<in> set kAlphabet) c"

text \<open>What a symbol is read as; \<open>None\<close> for a byte outside the accepted spellings.\<close>

definition symbol :: "char \<Rightarrow> char option" where
  "symbol ch = (if 128 \<le> ord (toupper ch) then None else map_option ((!) kAlphabet) (DecodeTable (toupper ch)))"

lemma alphabet_symbol: "list_all (\<lambda>x. symbol x = Some x \<and> \<not> skipped x \<and> \<not> isspace x \<and> x \<notin> set ''?#/:'') kAlphabet"
  by (simp add: kAlphabet_def symbol_def DecodeTable_def toupper_def skipped_def isspace_def Let_def upt_rec)

lemma DecodeTable_bound: "DecodeTable c = Some i \<Longrightarrow> i < length kAlphabet"
  by (auto simp: DecodeTable_def Let_def split: if_splits dest!: map_of_SomeD set_zip_rightD)


lemma symbol_in_alphabet: "symbol ch = Some x \<Longrightarrow> x \<in> set kAlphabet"
  by (auto simp: symbol_def dest: DecodeTable_bound split: if_splits)

text \<open>Normalisation in closed form: drop separators, read every symbol, demand ten of them.\<close>

lemma Normalize_loop_closed: "length out \<le> kLength \<Longrightarrow> Normalize_loop s out =
   (let t = filter (\<lambda>c. \<not> skipped c) s in
    if list_all (\<lambda>c. symbol c \<noteq> None) t \<and> length out + length t = kLength
    then out @ map (the \<circ> symbol) t else [])"
proof (induction s out rule: Normalize_loop.induct)
  case (2 ch rest out)
  show ?case
  proof (cases "skipped ch \<or> symbol ch = None")
    case True
    then show ?thesis using 2 by (auto simp: symbol_def Let_def)
  next
    case False
    then obtain idx where "DecodeTable (toupper ch) = Some idx" "ord (toupper ch) < 128"
      by (auto simp: symbol_def split: if_splits)
    moreover from this have "symbol ch = Some (kAlphabet ! idx)" by (simp add: symbol_def)
    ultimately show ?thesis using 2 False by (auto simp: Let_def)
  qed
qed (simp add: Let_def)

lemmas Normalize_closed = Normalize_loop_closed[where out = "[]", folded Normalize_def, simplified]

lemma Normalize_canonical_or_empty: "Normalize s = [] \<or> canonical (Normalize s)"
proof -
  have "the (symbol x) \<in> set kAlphabet" if "symbol x \<noteq> None" for x
    using that symbol_in_alphabet by force
  then show ?thesis
    by (auto simp: Normalize_closed Let_def canonical_def list_all_iff)
qed

lemma alphabetD: "x \<in> set kAlphabet \<Longrightarrow> symbol x = Some x \<and> \<not> skipped x \<and> \<not> isspace x \<and> x \<notin> set ''?#/:''"
  using alphabet_symbol unfolding list_all_iff by blast

lemma Normalize_canonical: "canonical c \<Longrightarrow> Normalize c = c \<and> Normalize (Format c) = c"
proof -
  assume c: "canonical c"
  then have keep: "filter (\<lambda>c. \<not> skipped c) xs = xs \<and> list_all (\<lambda>c. symbol c \<noteq> None) xs \<and> map (the \<circ> symbol) xs = xs"
    if "set xs \<subseteq> set c" for xs
    using that by (auto simp: canonical_def list_all_iff alphabetD filter_id_conv subset_iff intro!: map_idI)
  have dash: "skipped CHR ''-''" by (simp add: skipped_def)
  have len: "length c = kLength" using c by (simp add: canonical_def)
  have "filter (\<lambda>c. \<not> skipped c) (Format c) = c"
    using keep[of "take 5 c"] keep[of "drop 5 c"] dash len
    by (simp add: Format_def set_take_subset set_drop_subset)
  then show ?thesis using keep[of c] len by (simp add: Normalize_closed)
qed

section \<open>Links\<close>

lemma find_sub_skip: "p \<notin> set xs \<Longrightarrow> find_sub (p # ps) (xs @ ys) = map_option (\<lambda>n. length xs + n) (find_sub (p # ps) ys)"
proof (induction xs)
  case Nil
  then show ?case by (cases "find_sub (p # ps) ys") auto
next
  case (Cons a xs)
  then show ?case by (cases "find_sub (p # ps) ys") auto
qed

lemma find_sub_here: "find_sub pat (pat @ ys) = Some 0"
  by (metis append_eq_conv_conj append_is_Nil_conv find_sub.elims)

lemma find_sub_None: "p \<notin> set xs \<Longrightarrow> find_sub (p # ps) xs = None"
  using find_sub_skip[of p xs ps "[]"] by simp

lemma Trim_padded: "list_all isspace pre \<Longrightarrow> list_all isspace post \<Longrightarrow> s \<noteq> [] \<Longrightarrow> \<not> isspace (hd s) \<Longrightarrow>
   \<not> isspace (last s) \<Longrightarrow> Trim (pre @ s @ post) = s"
proof -
  assume a: "list_all isspace pre" "list_all isspace post" "s \<noteq> []" "\<not> isspace (hd s)" "\<not> isspace (last s)"
  have d: "dropWhile isspace (xs @ y # ys) = y # ys" if "list_all isspace xs" "\<not> isspace y" for xs y ys
    using that by (induction xs) auto
  obtain y ys where s: "s = y # ys" using a(3) by (cases s) auto
  obtain z zs where r: "rev s = z # zs" using a(3) by (cases "rev s") auto
  have "\<not> isspace z" using a(5) r by (metis last_rev list.sel(1) rev_rev_ident hd_rev)
  then have "dropWhile isspace (rev post @ rev s) = rev s" using d[of "rev post" z zs] a(2) r by (simp add: list_all_rev)
  moreover have "dropWhile isspace (pre @ s @ post) = s @ post" using d[of pre y "ys @ post"] a(1,4) s by simp
  ultimately show ?thesis by (simp add: Trim_def)
qed

lemma Format_chars: "canonical c \<Longrightarrow> x \<in> set (Format c) \<Longrightarrow> x \<in> set kAlphabet \<or> x = CHR ''-''"
  by (auto simp: Format_def canonical_def list_all_iff dest: in_set_takeD in_set_dropD split: if_splits)

lemma Format_ends: "canonical c \<Longrightarrow> Format c \<noteq> [] \<and> hd (Format c) \<in> set kAlphabet \<and> last (Format c) \<in> set kAlphabet"
proof -
  assume c: "canonical c"
  then have l: "length c = 10" by (simp add: canonical_def kLength_def)
  then have "hd (Format c) = c ! 0" "last (Format c) = c ! 9" "Format c \<noteq> []"
    by (auto simp: Format_def kLength_def hd_conv_nth last_conv_nth nth_append hd_append)
  then show ?thesis using c l by (simp add: canonical_def list_all_iff)
qed

lemma code_part_Format: "canonical c \<Longrightarrow> code_part (Format c) = c"
proof -
  assume c: "canonical c"
  then have "takeWhile (\<lambda>x. x \<notin> set ''?#/'') (Format c) = Format c"
    using Format_chars alphabetD by (fastforce simp: takeWhile_eq_all_conv)
  then show ?thesis using Normalize_canonical[OF c] by (simp only: code_part_def)
qed

lemma link_code_path: "canonical c \<Longrightarrow> CHR ''/'' \<notin> set host \<Longrightarrow> link_code (host @ ''/r/'' @ Format c) = c"
proof -
  assume c: "canonical c" "CHR ''/'' \<notin> set host"
  have "find_sub ''/r/'' (host @ ''/r/'' @ Format c) = Some (length host)"
    using find_sub_skip[OF c(2), of "''r/''" "''/r/'' @ Format c"] find_sub_here[of "''/r/''"] by simp
  then show ?thesis using code_part_Format[OF c(1)] by (simp add: link_code_def)
qed

lemma link_code_bare: "canonical c \<Longrightarrow> link_code (''r/'' @ Format c) = c"
proof -
  assume c: "canonical c"
  obtain x xs where f: "Format c = x # xs" "x \<in> set kAlphabet" using Format_ends[OF c] by (cases "Format c") auto
  have sl: "CHR ''/'' \<notin> set (Format c)" using Format_chars[OF c] alphabetD[of "CHR ''/''"] by auto
  have "x \<noteq> CHR ''r''" using f(2) by (auto simp: kAlphabet_def)
  then have "find_sub ''/r/'' (''r/'' @ Format c) = None"
    using find_sub_None[OF sl, of "''r/''"] sl f(1) by auto
  then show ?thesis using code_part_Format[OF c] f(1) by (simp add: link_code_def)
qed

lemma ParseCodeOrLink_scheme: "list_all isspace pre \<Longrightarrow> list_all isspace post \<Longrightarrow> CHR '':'' \<notin> set sch \<Longrightarrow>
   sch \<noteq> [] \<Longrightarrow> \<not> isspace (hd sch) \<Longrightarrow> s \<noteq> [] \<Longrightarrow> \<not> isspace (last s) \<Longrightarrow>
   ParseCodeOrLink (pre @ (sch @ ''://'' @ s) @ post) = link_code s"
proof -
  assume a: "list_all isspace pre" "list_all isspace post" "CHR '':'' \<notin> set sch"
    "sch \<noteq> []" "\<not> isspace (hd sch)" "s \<noteq> []" "\<not> isspace (last s)"
  have "find_sub ''://'' (sch @ ''://'' @ s) = Some (length sch)"
    using find_sub_skip[OF a(3), of "''//''" "''://'' @ s"] find_sub_here[of "''://''" s] by simp
  then show ?thesis
    using Trim_padded[OF a(1,2), of "sch @ ''://'' @ s"] a by (simp add: ParseCodeOrLink_def Let_def)
qed

lemma Normalize_spelling: "Normalize s \<noteq> [] \<Longrightarrow> CHR '':'' \<notin> set s"
proof
  assume n: "Normalize s \<noteq> []" "CHR '':'' \<in> set s"
  have "\<not> skipped CHR '':''" "symbol CHR '':'' = None"
    by (simp_all add: skipped_def symbol_def toupper_def DecodeTable_def kAlphabet_def Let_def upt_rec)
  with n show False by (auto simp: Normalize_closed Let_def list_all_iff split: if_splits)
qed

lemma tolower_colon: "tolower x = CHR '':'' \<Longrightarrow> x = CHR '':''"
proof (rule ccontr)
  assume x: "tolower x = CHR '':''" "x \<noteq> CHR '':''"
  then have r: "65 \<le> ord x" "ord x \<le> 90" "char_of (ord x + 32) = CHR '':''"
    by (auto simp: tolower_def split: if_splits)
  have "ord (char_of (ord x + 32)) = ord x + 32" using r(2) by (intro ord_char_of) simp
  with r(1,3) show False by simp
qed

lemma ParseCodeOrLink_bare: "Normalize (Trim s) \<noteq> [] \<Longrightarrow> ParseCodeOrLink s = Normalize (Trim s)"
proof -
  assume n: "Normalize (Trim s) \<noteq> []"
  have c: "CHR '':'' \<notin> set (Trim s)" by (rule Normalize_spelling[OF n])
  have "\<not> IEquals (take 14 (Trim s)) ''crosstransfer:''"
  proof
    assume eq: "IEquals (take 14 (Trim s)) ''crosstransfer:''"
    then have m: "map tolower (take 14 (Trim s)) = ''crosstransfer:''"
      by (simp add: IEquals_def tolower_def split: if_splits)
    have l: "length (take 14 (Trim s)) = 14" using arg_cong[OF m, of length] by simp
    then have "tolower (take 14 (Trim s) ! 13) = CHR '':''" using arg_cong[OF m, of "\<lambda>x. x ! 13"] by simp
    then have "take 14 (Trim s) ! 13 = CHR '':''" by (rule tolower_colon)
    then show False using c l nth_mem[of 13 "take 14 (Trim s)"] in_set_takeD by fastforce
  qed
  then show ?thesis
    using find_sub_None[OF c, of "''//''"] n by (auto simp: ParseCodeOrLink_def Let_def Normalize_def eval_nat_numeral)
qed

text \<open>A canonical take code survives every form the core hands out: the bare code, the formatted code, the https
link and the custom-scheme link, each with surrounding white space, all parse back to the code.\<close>

theorem take_code_roundtrip:
  assumes "canonical c" "host \<noteq> []" "CHR ''/'' \<notin> set host" "list_all isspace pre" "list_all isspace post"
  shows "ParseCodeOrLink (pre @ c @ post) = c \<and> ParseCodeOrLink (pre @ Format c @ post) = c \<and>
    ParseCodeOrLink (pre @ MakeHttpsLink host c @ post) = c \<and> ParseCodeOrLink (pre @ MakeSchemeLink c @ post) = c"
proof -
  have len: "length c = kLength" and ne: "c \<noteq> []" using assms(1) by (auto simp: canonical_def kLength_def)
  have ends: "Format c \<noteq> []" "\<not> isspace (hd (Format c))" "\<not> isspace (last (Format c))"
    using Format_ends[OF assms(1)] alphabetD by auto
  have cends: "\<not> isspace (hd c)" "\<not> isspace (last c)"
    using assms(1) ne alphabetD by (auto simp: canonical_def list_all_iff)
  have nz: "Normalize c = c" "Normalize (Format c) = c" using Normalize_canonical[OF assms(1)] by auto
  have "ParseCodeOrLink (pre @ c @ post) = c"
    using ParseCodeOrLink_bare[of "pre @ c @ post"] Trim_padded[OF assms(4,5) ne cends] nz ne by simp
  moreover have "ParseCodeOrLink (pre @ Format c @ post) = c"
    using ParseCodeOrLink_bare[of "pre @ Format c @ post"] Trim_padded[OF assms(4,5) ends] nz ne by simp
  moreover have "ParseCodeOrLink (pre @ MakeHttpsLink host c @ post) = c"
  proof -
    have "ParseCodeOrLink (pre @ (''https'' @ ''://'' @ host @ ''/r/'' @ Format c) @ post) = link_code (host @ ''/r/'' @ Format c)"
      using ends by (intro ParseCodeOrLink_scheme[OF assms(4,5)]) (simp_all add: isspace_def)
    moreover have "MakeHttpsLink host c = ''https'' @ ''://'' @ host @ ''/r/'' @ Format c"
      using assms(2) len by (simp add: MakeHttpsLink_def)
    ultimately show ?thesis using link_code_path[OF assms(1,3)] by (simp only:)
  qed
  moreover have "ParseCodeOrLink (pre @ MakeSchemeLink c @ post) = c"
    using ParseCodeOrLink_scheme[OF assms(4,5), of kScheme "''r/'' @ Format c"] ends len link_code_bare[OF assms(1)]
    by (simp add: MakeSchemeLink_def kScheme_def isspace_def)
  ultimately show ?thesis by blast
qed

lemma take_code_roundtrip_witness:
  "canonical ''0123456789'' \<and> ParseCodeOrLink ('' '' @ MakeHttpsLink ''ct.example'' ''0123456789'' @ []) = ''0123456789''"
proof -
  have c: "canonical ''0123456789''" by (simp add: canonical_def kLength_def kAlphabet_def)
  show ?thesis using take_code_roundtrip[OF c, of "''ct.example''" "'' ''" "[]"] c by (simp add: isspace_def)
qed

text \<open>C26. Whatever the input, parsing returns the empty string or a canonical ten-symbol code of the alphabet, and a
code that was returned parses to itself.\<close>

theorem ParseCodeOrLink_canonical:
  "(ParseCodeOrLink s = [] \<or> canonical (ParseCodeOrLink s)) \<and>
   ParseCodeOrLink (ParseCodeOrLink s) = ParseCodeOrLink s"
proof -
  have "link_code r = [] \<or> canonical (link_code r)" for r
    using Normalize_canonical_or_empty by (auto simp: link_code_def code_part_def split: option.splits)
  then have p: "ParseCodeOrLink s = [] \<or> canonical (ParseCodeOrLink s)"
    using Normalize_canonical_or_empty by (auto simp: ParseCodeOrLink_def Let_def split: option.splits)
  have "ParseCodeOrLink c = c" if "canonical c" for c
  proof -
    have ne: "c \<noteq> []" using that by (auto simp: canonical_def kLength_def)
    then have "Trim c = c" using Trim_padded[of "[]" "[]" c] that alphabetD by (auto simp: canonical_def list_all_iff)
    then show ?thesis using ParseCodeOrLink_bare[of c] Normalize_canonical[OF that] ne by simp
  qed
  moreover have "ParseCodeOrLink [] = []" by (simp add: ParseCodeOrLink_def Trim_def)
  ultimately show ?thesis using p by metis
qed

end
