(* ===== verification/Json.thy ===== *)
theory Json
  imports CT_Prelude
begin

text \<open>
  The operations of \<^verbatim>\<open>nlohmann::json\<close> the core calls, as a record that every definition working on JSON
  takes as a parameter: the library itself is not part of the repository.  A field returning an option is \<open>None\<close>
  where the library throws \<^verbatim>\<open>type_error\<close>.  \<open>json_laws\<close> collects the documented behaviour that the round-trip
  properties rely on; \<open>jval_ops\<close> is a concrete instance of it, used to evaluate the model on examples.
\<close>

record 'j json_ops =
  j_is_object :: "'j \<Rightarrow> bool"
  j_is_array :: "'j \<Rightarrow> bool"
  j_is_string :: "'j \<Rightarrow> bool"
  j_is_number_unsigned :: "'j \<Rightarrow> bool"
  j_find :: "'j \<Rightarrow> string \<Rightarrow> 'j option"
  j_elems :: "'j \<Rightarrow> 'j list"
  j_items :: "'j \<Rightarrow> (string \<times> 'j) list"
  j_get_string :: "'j \<Rightarrow> string option"
  j_get_u64 :: "'j \<Rightarrow> u64 option"
  j_value_bool :: "'j \<Rightarrow> string \<Rightarrow> bool \<Rightarrow> bool option"
  j_value_int :: "'j \<Rightarrow> string \<Rightarrow> int \<Rightarrow> int option"
  j_value_string :: "'j \<Rightarrow> string \<Rightarrow> string \<Rightarrow> string option"
  j_object :: "(string \<times> 'j) list \<Rightarrow> 'j"
  j_array :: "'j list \<Rightarrow> 'j"
  j_string :: "string \<Rightarrow> 'j"
  j_u64 :: "u64 \<Rightarrow> 'j"
  j_bool :: "bool \<Rightarrow> 'j"
  j_is_null :: "'j \<Rightarrow> bool"
  j_get_bool :: "'j \<Rightarrow> bool option"
  j_get_int :: "'j \<Rightarrow> int option"
  j_int :: "int \<Rightarrow> 'j"
  j_null :: 'j

text \<open>A call that may return a value, report an error message or let an exception escape.\<close>

datatype 'a outcome = Done 'a | Fail string | Throw

fun bindO :: "'a outcome \<Rightarrow> ('a \<Rightarrow> 'b outcome) \<Rightarrow> 'b outcome" where
  "bindO (Done a) f = f a"
| "bindO (Fail e) f = Fail e"
| "bindO Throw f = Throw"

lemma bindO_Done: "bindO x f = Done b \<longleftrightarrow> (\<exists>a. x = Done a \<and> f a = Done b)"
  by (cases x) auto

lemma if_Fail_Done: "(if P then Fail e else x) = Done a \<longleftrightarrow> \<not> P \<and> x = Done a"
  by simp

definition json_laws :: "'j json_ops \<Rightarrow> bool" where
  "json_laws J \<longleftrightarrow>
     (\<forall>kvs. j_is_object J (j_object J kvs) \<and> (\<forall>k. j_find J (j_object J kvs) k = map_of kvs k)) \<and>
     (\<forall>kvs k d b. map_of kvs k = Some (j_bool J b) \<longrightarrow> j_value_bool J (j_object J kvs) k d = Some b) \<and>
     (\<forall>xs. j_is_array J (j_array J xs) \<and> j_elems J (j_array J xs) = xs) \<and>
     (\<forall>s. j_is_string J (j_string J s) \<and> j_get_string J (j_string J s) = Some s) \<and>
     (\<forall>n. j_is_number_unsigned J (j_u64 J n) \<and> j_get_u64 J (j_u64 J n) = Some n)"

lemma json_laws_object:
  "json_laws J \<Longrightarrow> j_is_object J (j_object J kvs)"
  "json_laws J \<Longrightarrow> j_find J (j_object J kvs) k = map_of kvs k"
  "json_laws J \<Longrightarrow> map_of kvs k = Some (j_bool J b) \<Longrightarrow> j_value_bool J (j_object J kvs) k d = Some b"
  by (simp_all add: json_laws_def)

lemma json_laws_values:
  "json_laws J \<Longrightarrow> j_is_array J (j_array J xs)" "json_laws J \<Longrightarrow> j_elems J (j_array J xs) = xs"
  "json_laws J \<Longrightarrow> j_is_string J (j_string J s)" "json_laws J \<Longrightarrow> j_get_string J (j_string J s) = Some s"
  "json_laws J \<Longrightarrow> j_is_number_unsigned J (j_u64 J n)" "json_laws J \<Longrightarrow> j_get_u64 J (j_u64 J n) = Some n"
  by (simp_all add: json_laws_def)

lemmas json_simps = json_laws_object json_laws_values

text \<open>Reading a member with a default, and iterating over the members of an object.\<close>

definition json_value_laws :: "'j json_ops \<Rightarrow> bool" where
  "json_value_laws J \<longleftrightarrow> json_laws J \<and>
     (\<forall>kvs k d. map_of kvs k = None \<longrightarrow> j_value_bool J (j_object J kvs) k d = Some d) \<and>
     (\<forall>kvs k d n. map_of kvs k = Some (j_u64 J n) \<and> n < 2 ^ 31 \<longrightarrow> j_value_int J (j_object J kvs) k d = Some (uint n)) \<and>
     (\<forall>kvs k d s. map_of kvs k = Some (j_string J s) \<longrightarrow> j_value_string J (j_object J kvs) k d = Some s) \<and>
     (\<forall>kvs k d n. map_of kvs k = Some (j_int J n) \<longrightarrow> j_value_int J (j_object J kvs) k d = Some n) \<and>
     (\<forall>b n s kvs. \<not> j_is_null J (j_bool J b) \<and> \<not> j_is_null J (j_int J n) \<and> \<not> j_is_null J (j_string J s) \<and>
        \<not> j_is_null J (j_object J kvs) \<and> j_get_bool J (j_bool J b) = Some b \<and> j_get_int J (j_int J n) = Some n) \<and>
     (\<forall>kvs. distinct (map fst kvs) \<longrightarrow>
        distinct (map fst (j_items J (j_object J kvs))) \<and> set (j_items J (j_object J kvs)) = set kvs)"

lemma json_value_laws:
  "json_value_laws J \<Longrightarrow> json_laws J"
  "json_value_laws J \<Longrightarrow> map_of kvs k = None \<Longrightarrow> j_value_bool J (j_object J kvs) k db = Some db"
  "json_value_laws J \<Longrightarrow> map_of kvs k = Some (j_u64 J n) \<Longrightarrow> n < 2 ^ 31 \<Longrightarrow> j_value_int J (j_object J kvs) k di = Some (uint n)"
  "json_value_laws J \<Longrightarrow> map_of kvs k = Some (j_string J s) \<Longrightarrow> j_value_string J (j_object J kvs) k ds = Some s"
  "json_value_laws J \<Longrightarrow> map_of kvs k = Some (j_int J i) \<Longrightarrow> j_value_int J (j_object J kvs) k di = Some i"
  "json_value_laws J \<Longrightarrow> distinct (map fst kvs) \<Longrightarrow> distinct (map fst (j_items J (j_object J kvs)))"
  "json_value_laws J \<Longrightarrow> distinct (map fst kvs) \<Longrightarrow> set (j_items J (j_object J kvs)) = set kvs"
  by (simp_all add: json_value_laws_def)

lemma json_scalar_laws:
  "json_value_laws J \<Longrightarrow> \<not> j_is_null J (j_bool J b)" "json_value_laws J \<Longrightarrow> \<not> j_is_null J (j_int J n)"
  "json_value_laws J \<Longrightarrow> \<not> j_is_null J (j_string J s)" "json_value_laws J \<Longrightarrow> \<not> j_is_null J (j_object J kvs)"
  "json_value_laws J \<Longrightarrow> j_get_bool J (j_bool J b) = Some b" "json_value_laws J \<Longrightarrow> j_get_int J (j_int J n) = Some n"
  by (simp_all add: json_value_laws_def)

section \<open>A concrete instance\<close>

datatype jval = JNull | JBool bool | JNum u64 | JInt int | JStr string | JArr "jval list" | JObj "(string \<times> jval) list"

definition jval_ops :: "jval json_ops" where
  "jval_ops = \<lparr>
     j_is_object = (\<lambda>j. case j of JObj _ \<Rightarrow> True | _ \<Rightarrow> False),
     j_is_array = (\<lambda>j. case j of JArr _ \<Rightarrow> True | _ \<Rightarrow> False),
     j_is_string = (\<lambda>j. case j of JStr _ \<Rightarrow> True | _ \<Rightarrow> False),
     j_is_number_unsigned = (\<lambda>j. case j of JNum _ \<Rightarrow> True | _ \<Rightarrow> False),
     j_find = (\<lambda>j k. case j of JObj kvs \<Rightarrow> map_of kvs k | _ \<Rightarrow> None),
     j_elems = (\<lambda>j. case j of JArr xs \<Rightarrow> xs | _ \<Rightarrow> []),
     j_items = (\<lambda>j. case j of JObj kvs \<Rightarrow> kvs | _ \<Rightarrow> []),
     j_get_string = (\<lambda>j. case j of JStr s \<Rightarrow> Some s | _ \<Rightarrow> None),
     j_get_u64 = (\<lambda>j. case j of JNum n \<Rightarrow> Some n | _ \<Rightarrow> None),
     j_value_bool = (\<lambda>j k d. case j of JObj kvs \<Rightarrow>
        (case map_of kvs k of None \<Rightarrow> Some d | Some (JBool b) \<Rightarrow> Some b | _ \<Rightarrow> None) | _ \<Rightarrow> None),
     j_value_int = (\<lambda>j k d. case j of JObj kvs \<Rightarrow>
        (case map_of kvs k of None \<Rightarrow> Some d | Some (JNum n) \<Rightarrow> Some (uint n) | Some (JInt n) \<Rightarrow> Some n | _ \<Rightarrow> None) | _ \<Rightarrow> None),
     j_value_string = (\<lambda>j k d. case j of JObj kvs \<Rightarrow>
        (case map_of kvs k of None \<Rightarrow> Some d | Some (JStr s) \<Rightarrow> Some s | _ \<Rightarrow> None) | _ \<Rightarrow> None),
     j_object = JObj, j_array = JArr, j_string = JStr, j_u64 = JNum, j_bool = JBool,
     j_is_null = (\<lambda>j. j = JNull), j_get_bool = (\<lambda>j. case j of JBool b \<Rightarrow> Some b | _ \<Rightarrow> None),
     j_get_int = (\<lambda>j. case j of JNum n \<Rightarrow> Some (uint n) | JInt n \<Rightarrow> Some n | _ \<Rightarrow> None), j_int = JInt, j_null = JNull\<rparr>"

lemma jval_laws: "json_laws jval_ops"
  by (simp add: json_laws_def jval_ops_def)

lemma jval_value_laws: "json_value_laws jval_ops"
  using jval_laws by (simp add: json_value_laws_def jval_ops_def)

end
