(* ===== verification/Manifest.thy ===== *)
theory Manifest
  imports Json Path_Sanitize Protocol "HOL-Library.List_Lexorder" "HOL-Library.Char_ord"
begin

text \<open>
  The manifest of a transfer, \<^verbatim>\<open>core/src/transfer/manifest.{h,cpp}\<close>: block arithmetic, the JSON form, the validation
  a receiver applies to a peer's manifest, and the walk a sender builds its manifest with.  The JSON library
  (\<open>json_ops\<close>) and the filesystem (\<open>fs_ops\<close>) are parameters.
\<close>

record ManifestFile =
  mf_path :: string
  mf_size :: u64

record ManifestRoot =
  mr_name :: string
  mr_is_dir :: bool

record Manifest =
  m_files :: "ManifestFile list"
  m_dirs :: "string list"
  m_roots :: "ManifestRoot list"
  m_total_bytes :: u64

section \<open>Blocks of a file\<close>

definition BlockCountFor :: "u64 \<Rightarrow> u32" where
  "BlockCountFor sz =
     (if sz = 0 then 0
      else ucast ((sz + of_nat kBlockPayloadSize - 1) div of_nat kBlockPayloadSize))"

definition BlockLenFor :: "u64 \<Rightarrow> u32 \<Rightarrow> u16" where
  "BlockLenFor sz index =
     (let offset = ucast index * of_nat kBlockPayloadSize in
      if sz \<le> offset then 0
      else let remain = sz - offset in
        ucast (if remain < of_nat kBlockPayloadSize then remain else of_nat kBlockPayloadSize))"

section \<open>JSON\<close>

definition file_json :: "'j json_ops \<Rightarrow> ManifestFile \<Rightarrow> 'j" where
  "file_json J f = j_object J [(''path'', j_string J (mf_path f)), (''size'', j_u64 J (mf_size f))]"

definition root_json :: "'j json_ops \<Rightarrow> ManifestRoot \<Rightarrow> 'j" where
  "root_json J r = j_object J [(''name'', j_string J (mr_name r)), (''dir'', j_bool J (mr_is_dir r))]"

definition ToJson :: "'j json_ops \<Rightarrow> Manifest \<Rightarrow> 'j" where
  "ToJson J m = j_object J
     [(''files'', j_array J (map (file_json J) (m_files m))),
      (''dirs'', j_array J (map (j_string J) (m_dirs m))),
      (''roots'', j_array J (map (root_json J) (m_roots m))),
      (''total_bytes'', j_u64 J (m_total_bytes m))]"

definition has_slash :: "string \<Rightarrow> bool" where
  "has_slash s \<longleftrightarrow> CHR ''/'' \<in> set s"

text \<open>\<^verbatim>\<open>root_of\<close>: the first component.\<close>

definition root_of :: "string \<Rightarrow> string" where
  "root_of p = takeWhile (\<lambda>c. c \<noteq> CHR ''/'') p"

definition get_str :: "'j json_ops \<Rightarrow> 'j \<Rightarrow> string \<Rightarrow> string option" where
  "get_str J j k = (case j_find J j k of None \<Rightarrow> None | Some v \<Rightarrow> if j_is_string J v then j_get_string J v else None)"

definition get_unsigned :: "'j json_ops \<Rightarrow> 'j \<Rightarrow> string \<Rightarrow> u64 option" where
  "get_unsigned J j k =
     (case j_find J j k of None \<Rightarrow> None | Some v \<Rightarrow> if j_is_number_unsigned J v then j_get_u64 J v else None)"

text \<open>The loop over \<^verbatim>\<open>roots\<close>: \<open>names\<close> is \<^verbatim>\<open>root_names\<close>, \<open>acc\<close> is \<^verbatim>\<open>m.roots\<close>.\<close>

fun read_roots :: "'j json_ops \<Rightarrow> 'j list \<Rightarrow> ManifestRoot list \<Rightarrow> ManifestRoot list outcome" where
  "read_roots J [] acc = Done acc"
| "read_roots J (r # rs) acc =
     (if \<not> j_is_object J r then Fail ''manifest.roots entry invalid''
      else case get_str J r ''name'' of None \<Rightarrow> Fail ''manifest.roots entry invalid''
      | Some name \<Rightarrow>
        (case j_value_bool J r ''dir'' False of None \<Rightarrow> Throw
         | Some is_dir \<Rightarrow>
            if \<not> IsSafeRelativePath name \<or> has_slash name then Fail ''manifest root name unsafe''
            else if name \<in> set (map mr_name acc) then Fail ''duplicate root''
            else read_roots J rs (acc @ [\<lparr>mr_name = name, mr_is_dir = is_dir\<rparr>])))"

text \<open>The loop over \<^verbatim>\<open>dirs\<close>; \<^verbatim>\<open>seen\<close> holds the entries accepted so far.\<close>

fun read_dirs :: "'j json_ops \<Rightarrow> string list \<Rightarrow> 'j list \<Rightarrow> string list \<Rightarrow> string list outcome" where
  "read_dirs J names [] acc = Done acc"
| "read_dirs J names (d # ds) acc =
     (if \<not> j_is_string J d then Fail ''manifest.dirs entry invalid''
      else case j_get_string J d of None \<Rightarrow> Throw
      | Some p \<Rightarrow>
        if \<not> IsSafeRelativePath p then Fail ''manifest dir path unsafe''
        else if p \<in> set acc then Fail ''duplicate manifest entry''
        else if root_of p \<notin> set names then Fail ''manifest dir outside roots''
        else read_dirs J names ds (acc @ [p]))"

text \<open>The loop over \<^verbatim>\<open>files\<close>; \<^verbatim>\<open>seen\<close> is \<open>dirs\<close> and the accepted files, \<open>tot\<close> wraps at 64 bits.\<close>

fun read_files ::
  "'j json_ops \<Rightarrow> string list \<Rightarrow> string list \<Rightarrow> 'j list \<Rightarrow> ManifestFile list \<Rightarrow> u64 \<Rightarrow> (ManifestFile list \<times> u64) outcome"
where
  "read_files J names dirs [] acc tot = Done (acc, tot)"
| "read_files J names dirs (f # fs) acc tot =
     (if \<not> j_is_object J f then Fail ''manifest.files entry invalid''
      else case get_str J f ''path'' of None \<Rightarrow> Fail ''manifest.files entry invalid''
      | Some path \<Rightarrow>
        (case get_unsigned J f ''size'' of None \<Rightarrow> Fail ''manifest.files entry invalid''
         | Some sz \<Rightarrow>
            if \<not> IsSafeRelativePath path then Fail ''manifest file path unsafe''
            else if kMaxFileSize < unat sz then Fail ''file too large''
            else if path \<in> set dirs \<or> path \<in> set (map mf_path acc) then Fail ''duplicate manifest entry''
            else if root_of path \<notin> set names then Fail ''manifest file outside roots''
            else let tot' = tot + sz in
              if tot' < sz then Fail ''total size overflow''
              else read_files J names dirs fs (acc @ [\<lparr>mf_path = path, mf_size = sz\<rparr>]) tot'))"

text \<open>The closing nesting checks: the first offending file decides the message.\<close>

fun check_nesting :: "string list \<Rightarrow> ManifestRoot list \<Rightarrow> ManifestFile list \<Rightarrow> unit outcome" where
  "check_nesting dirs roots [] = Done ()"
| "check_nesting dirs roots (f # fs) =
     (let prefix = mf_path f @ ''/'' in
      if list_ex (\<lambda>d. take (length prefix) d = prefix) dirs then Fail ''directory nested in file''
      else if list_ex (\<lambda>r. mr_is_dir r \<and> mr_name r = mf_path f) roots then Fail ''root type mismatch''
      else check_nesting dirs roots fs)"

text \<open>The three loops and the closing checks, once the members are known to be arrays.\<close>

definition FromJson_entries :: "'j json_ops \<Rightarrow> 'j list \<Rightarrow> 'j list option \<Rightarrow> 'j list \<Rightarrow> Manifest outcome" where
  "FromJson_entries J roots_v dirs_v files_v =
     bindO (read_roots J roots_v []) (\<lambda>roots.
     bindO (case dirs_v of None \<Rightarrow> Done [] | Some d \<Rightarrow> read_dirs J (map mr_name roots) d []) (\<lambda>dirs.
     bindO (read_files J (map mr_name roots) dirs files_v [] 0) (\<lambda>(files, tot).
     bindO (check_nesting dirs roots files) (\<lambda>_.
       Done \<lparr>m_files = files, m_dirs = dirs, m_roots = roots, m_total_bytes = tot\<rparr>))))"

definition FromJson :: "'j json_ops \<Rightarrow> 'j \<Rightarrow> Manifest outcome" where
  "FromJson J j =
     (if \<not> j_is_object J j then Fail ''manifest not an object''
      else let dirs_v = j_find J j ''dirs'' in
      case j_find J j ''files'' of None \<Rightarrow> Fail ''manifest.files missing''
      | Some files_v \<Rightarrow>
        if \<not> j_is_array J files_v then Fail ''manifest.files missing''
        else if dirs_v \<noteq> None \<and> \<not> j_is_array J (the dirs_v) then Fail ''manifest.dirs invalid''
        else case j_find J j ''roots'' of None \<Rightarrow> Fail ''manifest.roots missing''
        | Some roots_v \<Rightarrow>
          if \<not> j_is_array J roots_v then Fail ''manifest.roots missing''
          else if kMaxFilesPerTransfer < length (j_elems J files_v) then Fail ''too many files''
          else FromJson_entries J (j_elems J roots_v) (map_option (j_elems J) dirs_v) (j_elems J files_v))"

section \<open>Walking the shared paths\<close>

datatype ftype = Regular | Directory | Symlink | OtherFile

text \<open>
  The filesystem calls: \<open>fs_status\<close> is \<^verbatim>\<open>symlink_status\<close> (\<open>Inl\<close> carries \<^verbatim>\<open>ec.message()\<close>), \<open>fs_walk\<close> the entries a
  \<^verbatim>\<open>recursive_directory_iterator\<close> visits in order, \<open>fs_relative e p\<close> the components of
  \<^verbatim>\<open>relative(e, p.parent_path())\<close>.
\<close>

record 'p fs_ops =
  fs_of_utf8 :: "string \<Rightarrow> 'p"
  fs_status :: "'p \<Rightarrow> string + ftype"
  fs_filename :: "'p \<Rightarrow> string"
  fs_file_size :: "'p \<Rightarrow> u64 option"
  fs_walk :: "'p \<Rightarrow> string + 'p list"
  fs_relative :: "'p \<Rightarrow> 'p \<Rightarrow> string list option"

definition add_dir :: "Manifest \<Rightarrow> string \<Rightarrow> Manifest" where
  "add_dir m d = m\<lparr>m_dirs := m_dirs m @ [d]\<rparr>"

definition add_root :: "Manifest \<Rightarrow> string \<Rightarrow> bool \<Rightarrow> Manifest" where
  "add_root m name is_dir = m\<lparr>m_roots := m_roots m @ [\<lparr>mr_name = name, mr_is_dir = is_dir\<rparr>]\<rparr>"

definition add_file :: "Manifest \<Rightarrow> string \<Rightarrow> u64 \<Rightarrow> Manifest" where
  "add_file m path sz =
     m\<lparr>m_files := m_files m @ [\<lparr>mf_path = path, mf_size = sz\<rparr>], m_total_bytes := m_total_bytes m + sz\<rparr>"

text \<open>The string built from the components of the relative path.\<close>

fun rel_string :: "string \<Rightarrow> string list \<Rightarrow> string" where
  "rel_string rel [] = rel"
| "rel_string rel (c # cs) = rel_string ((if rel \<noteq> [] then rel @ ''/'' else rel) @ c) cs"

fun walk_entries :: "'p fs_ops \<Rightarrow> 'p \<Rightarrow> 'p list \<Rightarrow> Manifest \<times> 'p list \<Rightarrow> (Manifest \<times> 'p list) outcome" where
  "walk_entries F p [] acc = Done acc"
| "walk_entries F p (e # es) (m, files) =
     (case fs_status F e of
        Inl _ \<Rightarrow> walk_entries F p es (m, files)
      | Inr st \<Rightarrow>
        if st = Symlink then walk_entries F p es (m, files)
        else case fs_relative F e p of None \<Rightarrow> Fail ''relative path failed''
        | Some comps \<Rightarrow>
          let rel = rel_string [] comps in
          if \<not> IsSafeRelativePath rel then Fail (''unsafe path: '' @ rel)
          else if st = Directory then walk_entries F p es (add_dir m rel, files)
          else if st = Regular then
            (case fs_file_size F e of None \<Rightarrow> Fail (''cannot size '' @ rel)
             | Some sz \<Rightarrow>
                if kMaxFileSize < unat sz then Fail (''file too large: '' @ rel)
                else if kMaxFilesPerTransfer \<le> length (m_files m) then Fail ''too many files''
                else walk_entries F p es (add_file m rel sz, files @ [e]))
          else walk_entries F p es (m, files))"

definition add_path :: "'p fs_ops \<Rightarrow> string \<Rightarrow> Manifest \<times> 'p list \<Rightarrow> (Manifest \<times> 'p list) outcome" where
  "add_path F raw acc =
     (let p = fs_of_utf8 F raw; m = fst acc; files = snd acc in
      case fs_status F p of
        Inl msg \<Rightarrow> Fail (''cannot stat '' @ raw @ '': '' @ msg)
      | Inr st \<Rightarrow>
        if st = Symlink then Fail (''symlink not supported: '' @ raw)
        else let name = fs_filename F p in
          if name = [] \<or> \<not> IsSafeRelativePath name \<or> has_slash name then Fail (''unsafe name: '' @ name)
          else if name \<in> set (map mr_name (m_roots m)) then Fail (''duplicate name: '' @ name)
          else if st = Regular then
            (case fs_file_size F p of None \<Rightarrow> Fail (''cannot size '' @ raw)
             | Some sz \<Rightarrow>
                if kMaxFileSize < unat sz then Fail (''file too large: '' @ raw)
                else Done (add_file (add_root m name False) name sz, files @ [p]))
          else if st = Directory then
            (case fs_walk F p of Inl msg \<Rightarrow> Fail (''cannot list '' @ raw @ '': '' @ msg)
             | Inr es \<Rightarrow> walk_entries F p es (add_dir (add_root m name True) name, files))
          else Fail (''not a file or directory: '' @ raw))"

fun add_paths :: "'p fs_ops \<Rightarrow> string list \<Rightarrow> Manifest \<times> 'p list \<Rightarrow> (Manifest \<times> 'p list) outcome" where
  "add_paths F [] acc = Done acc"
| "add_paths F (raw # raws) acc =
     bindO (add_path F raw acc) (\<lambda>acc'.
       if kMaxFilesPerTransfer < length (m_files (fst acc')) then Fail ''too many files''
       else add_paths F raws acc')"

definition empty_manifest :: Manifest where
  "empty_manifest = \<lparr>m_files = [], m_dirs = [], m_roots = [], m_total_bytes = 0\<rparr>"

definition BuildManifest :: "'p fs_ops \<Rightarrow> string list \<Rightarrow> (Manifest \<times> 'p list) outcome" where
  "BuildManifest F abs_paths =
     bindO (add_paths F abs_paths (empty_manifest, [])) (\<lambda>(m, files).
       if m_roots m = [] then Fail ''nothing to share''
       else Done (m\<lparr>m_dirs := sort (m_dirs m)\<rparr>, files))"

section \<open>Block arithmetic\<close>

lemma unat_kPayload: "unat (of_nat kBlockPayloadSize :: u64) = 1100"
  by (simp add: kBlockPayloadSize_def)

lemma unat_BlockCountFor: "unat sz \<le> kMaxFileSize \<Longrightarrow> unat (BlockCountFor sz) = (unat sz + 1099) div 1100"
proof (cases "sz = 0")
  case False
  assume le: "unat sz \<le> kMaxFileSize"
  have pos: "0 < unat sz" using False by (simp add: unat_gt_0)
  have b: "unat sz \<le> 4724464024500" using le by (simp add: kMaxFileSize_def kBlockPayloadSize_def)
  have s: "unat (sz + of_nat kBlockPayloadSize - 1) = unat sz + 1099"
  proof -
    have "sz + of_nat kBlockPayloadSize - 1 = sz + 1099" by (simp add: kBlockPayloadSize_def)
    then show ?thesis using b by (simp add: unat_word_ariths)
  qed
  have "unat ((sz + of_nat kBlockPayloadSize - 1) div of_nat kBlockPayloadSize) = (unat sz + 1099) div 1100"
    by (simp only: unat_div s unat_kPayload)
  moreover have "(unat sz + 1099) div 1100 < 4294967296" using b by (simp add: div_less_iff_less_mult)
  ultimately show ?thesis using False
    by (simp add: BlockCountFor_def unsigned_ucast_eq take_bit_nat_eq_self)
qed (simp add: BlockCountFor_def)

lemma unat_BlockLenFor: "unat (BlockLenFor sz i) = min 1100 (unat sz - unat i * 1100)"
proof -
  let ?off = "ucast i * of_nat kBlockPayloadSize :: u64"
  have off: "unat ?off = unat i * 1100"
  proof -
    have "unat (ucast i :: u64) = unat i" by (simp add: unsigned_ucast_eq take_bit_nat_eq_self order_less_trans[OF unat_lt_u32])
    moreover have "unat i * 1100 < 18446744073709551616" using unat_lt_u32[of i] by linarith
    ultimately show ?thesis by (simp add: unat_word_ariths(2) unat_kPayload)
  qed
  show ?thesis
  proof (cases "sz \<le> ?off")
    case True
    then show ?thesis using off by (simp add: BlockLenFor_def Let_def word_le_nat_alt)
  next
    case False
    then have d: "unat (sz - ?off) = unat sz - unat i * 1100"
      using off by (simp add: unat_diff_word word_le_nat_alt)
    have "unat (if sz - ?off < of_nat kBlockPayloadSize then sz - ?off else of_nat kBlockPayloadSize) = min 1100 (unat sz - unat i * 1100)"
      by (simp add: word_less_nat_alt d unat_kPayload)
    then show ?thesis using False
      by (simp add: BlockLenFor_def Let_def unsigned_ucast_eq take_bit_nat_eq_self)
  qed
qed

lemma sum_block_lengths: "(\<Sum>i<n. min 1100 (s - i * 1100)) = min s (n * 1100)" for s n :: nat
  by (induction n) (auto simp: min_def)

lemma lt_ceil_iff: "i < (s + 1099) div 1100 \<longleftrightarrow> i * 1100 < s" for i s :: nat
proof -
  have "i < (s + 1099) div 1100 \<longleftrightarrow> Suc i * 1100 \<le> s + 1099"
    by (simp only: less_eq_div_iff_mult_less_eq Suc_le_eq[symmetric] zero_less_numeral)
  then show ?thesis by linarith
qed

text \<open>For every file size the protocol allows, the blocks counted by BlockCountFor partition the file: their lengths sum
to the size, an index has a non-empty block exactly when it is below the count, and every block but the last is full.\<close>

theorem blocks_partition_file:
  assumes "unat sz \<le> kMaxFileSize"
  shows "(\<Sum>i<unat (BlockCountFor sz). unat (BlockLenFor sz (of_nat i))) = unat sz \<and>
    (\<forall>i. unat i < unat (BlockCountFor sz) \<longleftrightarrow> BlockLenFor sz i \<noteq> 0) \<and>
    (\<forall>i. Suc (unat i) < unat (BlockCountFor sz) \<longrightarrow> unat (BlockLenFor sz i) = kBlockPayloadSize)"
proof (intro conjI allI impI)
  let ?n = "(unat sz + 1099) div 1100"
  have n: "unat (BlockCountFor sz) = ?n" by (rule unat_BlockCountFor[OF assms])
  have n32: "?n < 2 ^ 32" using unat_lt_u32[of "BlockCountFor sz"] n by simp
  have cover: "unat sz \<le> ?n * 1100" using lt_ceil_iff[of ?n "unat sz"] by simp
  have "(\<Sum>i<?n. unat (BlockLenFor sz (of_nat i))) = (\<Sum>i<?n. min 1100 (unat sz - i * 1100))"
    using n32 by (intro sum.cong) (simp_all add: unat_BlockLenFor unat_of_nat_u32)
  then show "(\<Sum>i<unat (BlockCountFor sz). unat (BlockLenFor sz (of_nat i))) = unat sz"
    using cover by (simp add: n sum_block_lengths)
  fix i :: u32
  have "unat i < ?n \<longleftrightarrow> unat i * 1100 < unat sz" by (rule lt_ceil_iff)
  then show "unat i < unat (BlockCountFor sz) \<longleftrightarrow> BlockLenFor sz i \<noteq> 0"
    by (simp add: n unat_eq_0 unat_BlockLenFor flip: unat_gt_0)
  assume "Suc (unat i) < unat (BlockCountFor sz)"
  then have "Suc (unat i) < ?n" by (simp add: n)
  then have "Suc (unat i) * 1100 < unat sz" by (simp only: lt_ceil_iff)
  then show "unat (BlockLenFor sz i) = kBlockPayloadSize"
    by (simp add: unat_BlockLenFor kBlockPayloadSize_def)
qed

lemma blocks_partition_file_witness:
  "unat (0x1000 :: u64) \<le> kMaxFileSize \<and>
   (\<Sum>i<unat (BlockCountFor 0x1000). unat (BlockLenFor 0x1000 (of_nat i))) = 4096 \<and> BlockLenFor 0x1000 4 = 0"
proof -
  have s: "unat (0x1000 :: u64) \<le> kMaxFileSize" by (simp add: kMaxFileSize_def kBlockPayloadSize_def)
  have "BlockCountFor 0x1000 = 4" by code_simp
  with s blocks_partition_file[OF s] show ?thesis by fastforce
qed

section \<open>Accepted manifests are valid\<close>

definition roots_ok :: "ManifestRoot list \<Rightarrow> bool" where
  "roots_ok roots \<longleftrightarrow> distinct (map mr_name roots) \<and>
     list_all (\<lambda>r. IsSafeRelativePath (mr_name r) \<and> \<not> has_slash (mr_name r)) roots"

text \<open>Entries (directories before files) that are safe, distinct and below a root.\<close>

definition entries_ok :: "string list \<Rightarrow> string list \<Rightarrow> bool" where
  "entries_ok names ps \<longleftrightarrow> distinct ps \<and> list_all (\<lambda>p. IsSafeRelativePath p \<and> root_of p \<in> set names) ps"

definition nesting_ok :: "string list \<Rightarrow> ManifestRoot list \<Rightarrow> ManifestFile list \<Rightarrow> bool" where
  "nesting_ok dirs roots files \<longleftrightarrow>
     list_all (\<lambda>f. list_all (\<lambda>d. take (length (mf_path f) + 1) d \<noteq> mf_path f @ ''/'') dirs \<and>
                   list_all (\<lambda>r. mr_is_dir r \<longrightarrow> mr_name r \<noteq> mf_path f) roots) files"

definition sizes_ok :: "ManifestFile list \<Rightarrow> bool" where
  "sizes_ok files \<longleftrightarrow> list_all (\<lambda>f. unat (mf_size f) \<le> kMaxFileSize) files"

abbreviation bytes_of :: "ManifestFile list \<Rightarrow> nat" where
  "bytes_of files \<equiv> sum_list (map (\<lambda>f. unat (mf_size f)) files)"

definition manifest_ok :: "Manifest \<Rightarrow> bool" where
  "manifest_ok m \<longleftrightarrow>
     length (m_files m) \<le> kMaxFilesPerTransfer \<and> roots_ok (m_roots m) \<and>
     entries_ok (map mr_name (m_roots m)) (m_dirs m @ map mf_path (m_files m)) \<and>
     sizes_ok (m_files m) \<and> unat (m_total_bytes m) = bytes_of (m_files m) \<and>
     nesting_ok (m_dirs m) (m_roots m) (m_files m)"

lemma read_roots_ok: "read_roots J rs acc = Done roots \<Longrightarrow> roots_ok acc \<Longrightarrow> roots_ok roots"
  by (induction J rs acc rule: read_roots.induct)
     (auto simp: roots_ok_def split: if_splits option.splits)

lemma read_dirs_ok: "read_dirs J names ds acc = Done dirs \<Longrightarrow> entries_ok names acc \<Longrightarrow> entries_ok names dirs"
  by (induction J names ds acc rule: read_dirs.induct)
     (auto simp: entries_ok_def split: if_splits option.splits)

lemma bytes_of_bound: "sizes_ok files \<Longrightarrow> length files \<le> kMaxFilesPerTransfer \<Longrightarrow> bytes_of files < 2 ^ 63"
proof -
  assume a: "sizes_ok files" "length files \<le> kMaxFilesPerTransfer"
  have "bytes_of files \<le> length files * kMaxFileSize"
    using a(1) by (induction files) (auto simp: sizes_ok_def)
  also have "\<dots> \<le> kMaxFilesPerTransfer * kMaxFileSize" using a(2) by simp
  finally show ?thesis by (simp add: kMaxFilesPerTransfer_def kMaxFileSize_def kBlockPayloadSize_def)
qed

definition files_inv :: "string list \<Rightarrow> string list \<Rightarrow> ManifestFile list \<Rightarrow> u64 \<Rightarrow> bool" where
  "files_inv names dirs acc tot \<longleftrightarrow> entries_ok names (dirs @ map mf_path acc) \<and> sizes_ok acc \<and>
     unat tot = bytes_of acc"

lemma files_inv_snoc:
  "files_inv names dirs (acc @ [\<lparr>mf_path = p, mf_size = s\<rparr>]) (tot + s) \<and> \<not> tot + s < s"
  if "files_inv names dirs acc tot" "length acc < kMaxFilesPerTransfer" "IsSafeRelativePath p"
    "\<not> kMaxFileSize < unat s" "p \<notin> set dirs" "p \<notin> set (map mf_path acc)" "root_of p \<in> set names"
proof -
  let ?acc = "acc @ [\<lparr>mf_path = p, mf_size = s\<rparr>]"
  have sz: "sizes_ok ?acc" using that by (simp add: files_inv_def sizes_ok_def)
  have "bytes_of ?acc < 2 ^ 63" using bytes_of_bound[OF sz] that(2) by simp
  then have "unat tot + unat s < 2 ^ 63" using that(1) by (simp add: files_inv_def)
  then have "unat (tot + s) = unat tot + unat s" by (simp add: unat_add_u64)
  then show ?thesis using that sz
    by (simp add: files_inv_def entries_ok_def word_less_nat_alt)
qed

lemma read_files_ok:
  "read_files J names dirs fs acc tot = Done (files, tot') \<Longrightarrow> files_inv names dirs acc tot \<Longrightarrow>
   length acc + length fs \<le> kMaxFilesPerTransfer \<Longrightarrow>
   files_inv names dirs files tot' \<and> length files = length acc + length fs"
proof (induction J names dirs fs acc tot rule: read_files.induct)
  case (2 J names dirs f fs acc tot)
  obtain path s where ps: "get_str J f ''path'' = Some path" "get_unsigned J f ''size'' = Some s" "j_is_object J f"
    using "2.prems"(1) by (auto split: if_splits option.splits)
  let ?acc = "acc @ [\<lparr>mf_path = path, mf_size = s\<rparr>]"
  have g: "IsSafeRelativePath path" "\<not> kMaxFileSize < unat s" "path \<notin> set dirs" "path \<notin> set (map mf_path acc)"
    "root_of path \<in> set names" "\<not> tot + s < s" "read_files J names dirs fs ?acc (tot + s) = Done (files, tot')"
    using "2.prems"(1) ps by (auto simp: Let_def split: if_splits)
  have "files_inv names dirs ?acc (tot + s)"
    using files_inv_snoc[OF "2.prems"(2) _ g(1-5)] "2.prems"(3) by simp
  with "2.IH"[of path s "tot + s"] ps g "2.prems"(3) show ?case by simp
qed simp

lemma check_nesting_ok: "check_nesting dirs roots files = Done () \<longleftrightarrow> nesting_ok dirs roots files"
  by (induction files) (auto simp: nesting_ok_def Let_def list_ex_iff list_all_iff)

lemma FromJson_sound:
  assumes "FromJson J j = Done m"
  shows "manifest_ok m"
proof -
  obtain roots_v dirs_v files_v where n: "length files_v \<le> kMaxFilesPerTransfer"
    and e: "FromJson_entries J roots_v dirs_v files_v = Done m"
    using assms unfolding FromJson_def Let_def by (auto simp: not_less split: if_splits option.splits)
  obtain roots dirs files tot where
    r: "read_roots J roots_v [] = Done roots" and
    d: "(case dirs_v of None \<Rightarrow> Done [] | Some d \<Rightarrow> read_dirs J (map mr_name roots) d []) = Done dirs" and
    f: "read_files J (map mr_name roots) dirs files_v [] 0 = Done (files, tot)" and
    c: "check_nesting dirs roots files = Done ()" and
    m: "m = \<lparr>m_files = files, m_dirs = dirs, m_roots = roots, m_total_bytes = tot\<rparr>"
    using e unfolding FromJson_entries_def by (auto simp: bindO_Done)
  have r': "roots_ok roots" using read_roots_ok[OF r] by (simp add: roots_ok_def)
  have d': "entries_ok (map mr_name roots) dirs"
    using d read_dirs_ok by (force simp: entries_ok_def split: option.splits)
  have "files_inv (map mr_name roots) dirs files tot \<and> length files \<le> kMaxFilesPerTransfer"
    using read_files_ok[OF f] n d' by (simp add: files_inv_def sizes_ok_def)
  then show ?thesis using r' c by (simp add: manifest_ok_def files_inv_def m check_nesting_ok)
qed

lemma JoinSafe_root:
  assumes "IsSafeRelativePath p"
  shows "\<exists>comps. JoinSafe base p = base @ root_of p # comps \<and> list_all confined (root_of p # comps)"
proof -
  obtain comps where c: "JoinSafe base p = base @ comps" "comps = split_on CHR ''/'' p" "list_all confined comps"
    using JoinSafe_split[OF assms, of base] by blast
  moreover have "\<exists>cs. split_on CHR ''/'' p = root_of p # cs"
    by (subst split_on.simps) (simp add: root_of_def Let_def)
  ultimately show ?thesis by auto
qed

section \<open>Round trip\<close>

lemma read_roots_json: "json_laws J \<Longrightarrow> roots_ok (acc @ roots) \<Longrightarrow>
   read_roots J (map (root_json J) roots) acc = Done (acc @ roots)"
proof (induction roots arbitrary: acc)
  case (Cons r roots)
  then show ?case by (auto simp: root_json_def get_str_def json_simps roots_ok_def)
qed simp

lemma read_dirs_json: "json_laws J \<Longrightarrow> entries_ok names (acc @ dirs) \<Longrightarrow>
   read_dirs J names (map (j_string J) dirs) acc = Done (acc @ dirs)"
proof (induction dirs arbitrary: acc)
  case (Cons d dirs)
  then show ?case by (auto simp: json_simps entries_ok_def)
qed simp

lemma read_files_json: "json_laws J \<Longrightarrow> entries_ok names (dirs @ map mf_path (acc @ files)) \<Longrightarrow> sizes_ok (acc @ files) \<Longrightarrow>
   length (acc @ files) \<le> kMaxFilesPerTransfer \<Longrightarrow> unat tot = bytes_of acc \<Longrightarrow>
   read_files J names dirs (map (file_json J) files) acc tot = Done (acc @ files, of_nat (bytes_of (acc @ files)))"
proof (induction files arbitrary: acc tot)
  case Nil
  then show ?case by (simp add: word_of_unat)
next
  case (Cons f files)
  have f: "f = \<lparr>mf_path = mf_path f, mf_size = mf_size f\<rparr>" by simp
  have g: "IsSafeRelativePath (mf_path f)" "\<not> kMaxFileSize < unat (mf_size f)" "mf_path f \<notin> set dirs"
     "mf_path f \<notin> set (map mf_path acc)" "root_of (mf_path f) \<in> set names"
    using Cons.prems by (auto simp: entries_ok_def sizes_ok_def)
  have "files_inv names dirs acc tot" "length acc < kMaxFilesPerTransfer"
    using Cons.prems by (auto simp: files_inv_def entries_ok_def sizes_ok_def)
  note step = files_inv_snoc[OF this g, folded f]
  have "read_files J names dirs (map (file_json J) files) (acc @ [f]) (tot + mf_size f) =
     Done ((acc @ [f]) @ files, of_nat (bytes_of ((acc @ [f]) @ files)))"
    using Cons.IH[of "acc @ [f]" "tot + mf_size f"] Cons.prems step by (simp add: files_inv_def)
  then show ?case using Cons.prems(1) g step
    by (auto simp: file_json_def[of J f] get_str_def get_unsigned_def json_simps Let_def f[symmetric])
qed

lemma FromJson_ToJson: "json_laws J \<Longrightarrow> manifest_ok m \<Longrightarrow> FromJson J (ToJson J m) = Done m"
proof -
  assume J: "json_laws J" and m: "manifest_ok m"
  have n: "\<not> kMaxFilesPerTransfer < length (m_files m)" and c: "check_nesting (m_dirs m) (m_roots m) (m_files m) = Done ()"
    using m by (auto simp: manifest_ok_def check_nesting_ok)
  have r: "read_roots J (map (root_json J) (m_roots m)) [] = Done (m_roots m)"
    using read_roots_json[OF J, of "[]"] m by (simp add: manifest_ok_def)
  have "entries_ok (map mr_name (m_roots m)) (m_dirs m)"
    using m by (simp add: manifest_ok_def entries_ok_def)
  then have d: "read_dirs J (map mr_name (m_roots m)) (map (j_string J) (m_dirs m)) [] = Done (m_dirs m)"
    using read_dirs_json[OF J, of _ "[]"] by simp
  have tot: "m_total_bytes m = of_nat (bytes_of (m_files m))"
    using m unfolding manifest_ok_def by (intro word_of_unat) blast
  have f: "read_files J (map mr_name (m_roots m)) (m_dirs m) (map (file_json J) (m_files m)) [] 0 =
      Done (m_files m, m_total_bytes m)"
  proof -
    have e: "entries_ok (map mr_name (m_roots m)) (m_dirs m @ map mf_path ([] @ m_files m))"
      "sizes_ok ([] @ m_files m)" "length ([] @ m_files m) \<le> kMaxFilesPerTransfer"
      using m unfolding manifest_ok_def append_Nil by blast+
    have z: "unat (0 :: u64) = bytes_of []" by simp
    show ?thesis unfolding tot using read_files_json[OF J e z] by (simp only: append_Nil)
  qed
  have "FromJson_entries J (map (root_json J) (m_roots m)) (Some (map (j_string J) (m_dirs m)))
      (map (file_json J) (m_files m)) = Done m"
    by (simp only: FromJson_entries_def option.case r d f c bindO.simps prod.case) simp
  then show ?thesis using n
    by (simp add: FromJson_def ToJson_def json_simps[OF J])
qed

text \<open>C18. With a JSON library that behaves as documented, serialising a manifest and reading it back succeeds and
returns the same manifest exactly when the manifest satisfies \<open>manifest_ok\<close>, the conditions the code checks: at most 65535
files, distinct safe root names, distinct safe entries below a root, sizes up to the maximum and a total that is their sum,
no directory below a file and no directory root that is a file.  A file below another file passes, unlike what the
comment in the code says.\<close>

theorem manifest_json_roundtrip:
  assumes "json_laws J"
  shows "FromJson J (ToJson J m) = Done m \<longleftrightarrow> manifest_ok m"
  by (rule iffI, erule FromJson_sound, erule FromJson_ToJson[OF assms])

definition sample_manifest :: Manifest where
  "sample_manifest = \<lparr>m_files = [\<lparr>mf_path = ''d/a'', mf_size = 5\<rparr>, \<lparr>mf_path = ''d/b/c'', mf_size = 7\<rparr>],
     m_dirs = [''d'', ''d/b''], m_roots = [\<lparr>mr_name = ''d'', mr_is_dir = True\<rparr>], m_total_bytes = 12\<rparr>"

definition nested_manifest :: Manifest where
  "nested_manifest = \<lparr>m_files = [\<lparr>mf_path = ''d/a'', mf_size = 5\<rparr>, \<lparr>mf_path = ''d/a/b'', mf_size = 7\<rparr>],
     m_dirs = [''d''], m_roots = [\<lparr>mr_name = ''d'', mr_is_dir = True\<rparr>], m_total_bytes = 12\<rparr>"

lemma sample_manifest_sel:
  "m_files sample_manifest = [\<lparr>mf_path = ''d/a'', mf_size = 5\<rparr>, \<lparr>mf_path = ''d/b/c'', mf_size = 7\<rparr>]"
  "m_dirs sample_manifest = [''d'', ''d/b'']"
  by (simp_all add: sample_manifest_def)

lemma sample_manifest_ok: "manifest_ok sample_manifest" "manifest_ok nested_manifest"
  unfolding manifest_ok_def sample_manifest_def nested_manifest_def
  by (simp_all add: path_eval roots_ok_def entries_ok_def nesting_ok_def sizes_ok_def root_of_def has_slash_def
      kMaxFilesPerTransfer_def kMaxFileSize_def kBlockPayloadSize_def)

lemma manifest_json_roundtrip_witness:
  "json_laws jval_ops \<and> FromJson jval_ops (ToJson jval_ops sample_manifest) = Done sample_manifest"
  using manifest_json_roundtrip[OF jval_laws, of sample_manifest] sample_manifest_ok(1) jval_laws by blast

text \<open>C17. Whatever a peer sends, a manifest that FromJson accepts has at most 65535 files of at most the maximum size, a
total that is the exact sum of the sizes, and directories and files that are joined below the save directory, each
under one of the declared roots and no two at the same place.\<close>

theorem accepted_manifest_is_safe:
  assumes "FromJson J j = Done m"
  shows "length (m_files m) \<le> kMaxFilesPerTransfer \<and>
    unat (m_total_bytes m) = (\<Sum>f\<leftarrow>m_files m. unat (mf_size f)) \<and>
    distinct (map (JoinSafe base) (m_dirs m @ map mf_path (m_files m))) \<and>
    list_all (\<lambda>p. \<exists>root comps. JoinSafe base p = base @ root # comps \<and> list_all confined (root # comps) \<and>
       root \<in> set (map mr_name (m_roots m))) (m_dirs m @ map mf_path (m_files m)) \<and>
    list_all (\<lambda>f. unat (mf_size f) \<le> kMaxFileSize) (m_files m)"
proof -
  let ?ps = "m_dirs m @ map mf_path (m_files m)"
  have m: "manifest_ok m" by (rule FromJson_sound[OF assms])
  then have e: "entries_ok (map mr_name (m_roots m)) ?ps" by (simp add: manifest_ok_def)
  have "inj_on (JoinSafe base) (set ?ps)"
    using e JoinSafe_injective unfolding entries_ok_def list_all_iff inj_on_def by blast
  then have "distinct (map (JoinSafe base) ?ps)" using e by (simp only: distinct_map entries_ok_def)
  moreover have "\<exists>root comps. JoinSafe base p = base @ root # comps \<and> list_all confined (root # comps) \<and>
       root \<in> set (map mr_name (m_roots m))" if "p \<in> set ?ps" for p
  proof -
    have p: "IsSafeRelativePath p" "root_of p \<in> set (map mr_name (m_roots m))"
      using e that unfolding entries_ok_def list_all_iff by blast+
    then show ?thesis using JoinSafe_root[OF p(1), of base] by (metis (no_types, lifting))
  qed
  ultimately show ?thesis using m unfolding manifest_ok_def sizes_ok_def list_all_iff by blast
qed

lemma accepted_manifest_is_safe_witness:
  "FromJson jval_ops (ToJson jval_ops sample_manifest) = Done sample_manifest \<and>
   distinct (map (JoinSafe [''tmp'']) [''d'', ''d/b'', ''d/a'', ''d/b/c''])"
proof -
  have d: "FromJson jval_ops (ToJson jval_ops sample_manifest) = Done sample_manifest"
    by (rule FromJson_ToJson[OF jval_laws sample_manifest_ok(1)])
  from accepted_manifest_is_safe[OF d, of "[''tmp'']"]
  have "distinct (map (JoinSafe [''tmp'']) (m_dirs sample_manifest @ map mf_path (m_files sample_manifest)))" by blast
  then have "distinct (map (JoinSafe [''tmp'']) [''d'', ''d/b'', ''d/a'', ''d/b/c''])"
    by (simp only: sample_manifest_sel ManifestFile.simps list.map append.simps)
  with d show ?thesis by blast
qed

text \<open>The closing check of FromJson compares files with directories only: a manifest with a file nested inside
another file is accepted.\<close>

theorem file_nested_in_file_is_accepted:
  assumes "json_laws J"
  shows "\<exists>m f g. FromJson J (ToJson J m) = Done m \<and> f \<in> set (m_files m) \<and> g \<in> set (m_files m) \<and>
    mf_path g = mf_path f @ ''/b''"
  using FromJson_ToJson[OF assms sample_manifest_ok(2)]
  by (intro exI[of _ nested_manifest] exI[of _ "\<lparr>mf_path = ''d/a'', mf_size = 5\<rparr>"]
      exI[of _ "\<lparr>mf_path = ''d/a/b'', mf_size = 7\<rparr>"]) (simp add: nested_manifest_def)

lemma file_nested_in_file_is_accepted_witness:
  "\<exists>m f g. FromJson jval_ops (ToJson jval_ops m) = Done m \<and> f \<in> set (m_files m) \<and> g \<in> set (m_files m) \<and>
    mf_path g = mf_path f @ ''/b''"
  by (rule file_nested_in_file_is_accepted[OF jval_laws])

end
