(* ===== verification/File_Io.thy ===== *)
theory File_Io
  imports Path_Sanitize
begin

text \<open>
  Files and directories, \<^verbatim>\<open>core/src/transfer/file_io.{h,cpp}\<close> (the POSIX branches) and the file hash of
  \<^verbatim>\<open>core/src/transfer/sha256.cpp\<close>.  The world holds the contents of the files the process works on and the
  outcomes of its system calls still to come: every call takes one outcome, and a call that finds none succeeds, so
  a statement about an arbitrary world covers every pattern of failures, interruptions and short counts.  A
  \<open>SysStop\<close> outcome is the owner's \<^verbatim>\<open>Stop()\<close> arriving while the call runs; the call itself then succeeds.
  SHA-256 comes from OpenSSL and is the parameter \<open>sha\<close>, the lower-case hex digest of a byte string.
\<close>

datatype sys = SysOk | SysFail string | SysIntr | SysShort nat | SysStop

record world =
  w_files :: "fspath \<rightharpoonup> bytes"
  w_dirs :: "fspath set"
  w_sys :: "sys list"
  w_stop :: bool

definition next_sys :: "world \<Rightarrow> sys \<times> world" where
  "next_sys w =
     (case w_sys w of
        [] \<Rightarrow> (SysOk, w)
      | SysStop # xs \<Rightarrow> (SysOk, w\<lparr>w_sys := xs, w_stop := True\<rparr>)
      | x # xs \<Rightarrow> (x, w\<lparr>w_sys := xs\<rparr>))"

definition file_bytes :: "world \<Rightarrow> fspath \<Rightarrow> bytes" where
  "file_bytes w p = (case w_files w p of None \<Rightarrow> [] | Some c \<Rightarrow> c)"

definition is_regular_file :: "world \<Rightarrow> fspath \<Rightarrow> bool" where
  "is_regular_file w p \<longleftrightarrow> w_files w p \<noteq> None"

text \<open>Extend with zero bytes; overwrite part of a file, extending it when the end is passed.\<close>

definition pad_to :: "nat \<Rightarrow> bytes \<Rightarrow> bytes" where
  "pad_to n c = c @ replicate (n - length c) 0"

definition overwrite :: "nat \<Rightarrow> bytes \<Rightarrow> bytes \<Rightarrow> bytes" where
  "overwrite off d c = take off (pad_to off c) @ d @ drop (off + length d) c"

definition write_bytes :: "fspath \<Rightarrow> nat \<Rightarrow> bytes \<Rightarrow> world \<Rightarrow> world" where
  "write_bytes p off d w = w\<lparr>w_files := (w_files w)(p \<mapsto> overwrite off d (file_bytes w p))\<rparr>"

text \<open>The number of bytes a transfer of \<open>n\<close> moves: a short count of \<open>k\<close> moves \<open>k + 1\<close> bytes, less when fewer are left.\<close>

definition moved :: "sys \<Rightarrow> nat \<Rightarrow> nat" where
  "moved r n = (case r of SysShort k \<Rightarrow> min (Suc k) n | _ \<Rightarrow> n)"

definition is_fail :: "sys \<Rightarrow> bool" where
  "is_fail r \<longleftrightarrow> (case r of SysFail _ \<Rightarrow> True | SysIntr \<Rightarrow> True | _ \<Rightarrow> False)"

text \<open>\<^verbatim>\<open>strerror(errno)\<close>.\<close>

definition err_text :: "sys \<Rightarrow> string" where
  "err_text r = (case r of SysFail e \<Rightarrow> e | _ \<Rightarrow> ''Interrupted system call'')"

text \<open>What the loops below use up: an interrupted call an outcome, any other call bytes.\<close>

lemma next_sys_le: "(r, w') = next_sys w \<Longrightarrow> length (w_sys w') \<le> length (w_sys w)"
  by (auto simp: next_sys_def split: list.splits sys.splits)

lemma next_sys_intr: "(SysIntr, w') = next_sys w \<Longrightarrow> length (w_sys w') < length (w_sys w)"
  by (auto simp: next_sys_def split: list.splits sys.splits)

lemma moved_le: "moved r n \<le> n" and moved_pos: "0 < n \<Longrightarrow> 0 < moved r n"
  by (auto simp: moved_def split: sys.splits)

section \<open>Reader and writer\<close>

text \<open>\<^verbatim>\<open>FileReader::Open\<close>: \<^verbatim>\<open>fopen\<close>, then the size; yields the size of the file as it is now.\<close>

definition OpenReader :: "fspath \<Rightarrow> world \<Rightarrow> (string + u64) \<times> world" where
  "OpenReader p w =
     (case next_sys w of (r, w1) \<Rightarrow>
        if is_fail r then (Inl (err_text r), w1)
        else if w_files w1 p = None then (Inl ''No such file or directory'', w1)
        else case next_sys w1 of (r2, w2) \<Rightarrow>
          if is_fail r2 then (Inl (err_text r2), w2)
          else (Inr (of_nat (length (file_bytes w2 p))), w2))"

text \<open>\<open>got\<close> is the part of the buffer filled so far; \<^verbatim>\<open>pread\<close> returns 0 at the end of the file.\<close>

function ReadAt_loop :: "fspath \<Rightarrow> nat \<Rightarrow> nat \<Rightarrow> bytes \<Rightarrow> world \<Rightarrow> bytes option \<times> world" where
  "ReadAt_loop p off len got w =
     (if length got < len then
        (case next_sys w of (r, w') \<Rightarrow>
          let avail = take (len - length got) (drop (off + length got) (file_bytes w' p)) in
          if r = SysIntr then ReadAt_loop p off len got w'
          else if is_fail r then (None, w')
          else if avail = [] then (Some got, w')
          else ReadAt_loop p off len (got @ take (moved r (length avail)) avail) w')
      else (Some got, w))"
  by pat_completeness auto
termination
proof (relation "measures [\<lambda>(p, off, len, got, w). length (w_sys w), \<lambda>(p, off, len, got, w). len - length got]", goal_cases)
  case (2 p off len got w r w' avail)
  then show ?case using next_sys_intr[of w' w] by simp
next
  case (3 p off len got w r w' avail)
  let ?n = "moved r (length avail)"
  have "length avail \<le> len - length got" "0 < length avail" using 3 by simp_all
  then have "0 < ?n" "?n \<le> length avail" using moved_pos moved_le by blast+
  then have "len - length (got @ take ?n avail) < len - length got" using 3(1) by simp
  then show ?case using next_sys_le[OF 3(2)] by (auto simp: le_less)
qed simp

declare ReadAt_loop.simps [simp del]

definition ReadAt :: "fspath \<Rightarrow> nat \<Rightarrow> nat \<Rightarrow> world \<Rightarrow> bytes option \<times> world" where
  "ReadAt p off len w = ReadAt_loop p off len [] w"

text \<open>\<open>off\<close> and \<open>data\<close> are the position and the bytes still to be written.\<close>

function WriteAt_loop :: "fspath \<Rightarrow> nat \<Rightarrow> bytes \<Rightarrow> world \<Rightarrow> bool \<times> world" where
  "WriteAt_loop p off data w =
     (if data = [] then (True, w)
      else case next_sys w of (r, w') \<Rightarrow>
        if r = SysIntr then WriteAt_loop p off data w'
        else if is_fail r then (False, w')
        else let n = moved r (length data) in
          WriteAt_loop p (off + n) (drop n data) (write_bytes p off (take n data) w'))"
  by pat_completeness auto
termination
proof (relation "measures [\<lambda>(p, off, data, w). length (w_sys w), \<lambda>(p, off, data, w). length data]", goal_cases)
  case (2 p off data w r w')
  then show ?case using next_sys_intr[of w' w] by simp
next
  case (3 p off data w r w' n)
  then show ?case using next_sys_le[of r w' w] moved_pos[of "length data" r] by (auto simp: write_bytes_def)
qed simp

declare WriteAt_loop.simps [simp del]

text \<open>\<^verbatim>\<open>FileWriter\<close>: \<open>opened\<close> says whether \<^verbatim>\<open>fp_\<close> is set.\<close>

definition WriteAt :: "bool \<Rightarrow> fspath \<Rightarrow> nat \<Rightarrow> bytes \<Rightarrow> world \<Rightarrow> bool \<times> world" where
  "WriteAt opened p off data w = (if \<not> opened then (False, w) else WriteAt_loop p off data w)"

text \<open>\<^verbatim>\<open>FileWriter::Open\<close>: \<^verbatim>\<open>open\<close>, which creates the file, then \<^verbatim>\<open>fdopen\<close>.\<close>

function OpenWriter :: "fspath \<Rightarrow> world \<Rightarrow> (string + unit) \<times> world" where
  "OpenWriter p w =
     (case next_sys w of (r, w') \<Rightarrow>
        if r = SysIntr then OpenWriter p w'
        else if is_fail r then (Inl (err_text r), w')
        else if p \<in> w_dirs w' then (Inl ''Is a directory'', w')
        else case next_sys (w'\<lparr>w_files := (w_files w')(p \<mapsto> file_bytes w' p)\<rparr>) of (rd, w1) \<Rightarrow>
          if is_fail rd then (Inl (err_text rd), w1) else (Inr (), w1))"
  by pat_completeness auto
termination
  by (relation "measure (\<lambda>(p, w). length (w_sys w))") (auto dest: next_sys_intr)

declare OpenWriter.simps [simp del]

text \<open>\<^verbatim>\<open>EnsureSize\<close>: \<^verbatim>\<open>fstat\<close>, then \<^verbatim>\<open>ftruncate\<close> when the file is shorter.\<close>

definition EnsureSize :: "fspath \<Rightarrow> nat \<Rightarrow> world \<Rightarrow> bool \<times> world" where
  "EnsureSize p sz w =
     (case next_sys w of (r, w1) \<Rightarrow>
        if is_fail r then (False, w1)
        else if sz \<le> length (file_bytes w1 p) then (True, w1)
        else case next_sys w1 of (r2, w2) \<Rightarrow>
          if is_fail r2 then (False, w2)
          else (True, w2\<lparr>w_files := (w_files w2)(p \<mapsto> pad_to sz (file_bytes w2 p))\<rparr>))"

section \<open>Helpers\<close>

definition prefixes_of :: "fspath \<Rightarrow> fspath set" where
  "prefixes_of d = (\<lambda>n. take n d) ` {0 .. length d}"

definition EnsureDir :: "fspath \<Rightarrow> world \<Rightarrow> (string + unit) \<times> world" where
  "EnsureDir d w =
     (if d \<in> w_dirs w then (Inr (), w)
      else case next_sys w of (r, w') \<Rightarrow>
        if is_fail r then (Inl (err_text r), w')
        else if list_ex (\<lambda>n. is_regular_file w' (take n d)) [0..<Suc (length d)] then (Inl ''Not a directory'', w')
        else (Inr (), w'\<lparr>w_dirs := w_dirs w' \<union> prefixes_of d\<rparr>))"

definition RenameReplace :: "fspath \<Rightarrow> fspath \<Rightarrow> world \<Rightarrow> (string + unit) \<times> world" where
  "RenameReplace from to w =
     (case next_sys w of (r, w') \<Rightarrow>
        if is_fail r then (Inl (err_text r), w')
        else case w_files w' from of
          None \<Rightarrow> (Inl ''No such file or directory'', w')
        | Some c \<Rightarrow>
            if to \<in> w_dirs w' then (Inl ''Is a directory'', w')
            else (Inr (), w'\<lparr>w_files := ((w_files w')(from := None))(to \<mapsto> c)\<rparr>))"

definition CreateEmptyFile :: "fspath \<Rightarrow> world \<Rightarrow> bool \<times> world" where
  "CreateEmptyFile p w =
     (case next_sys w of (r, w') \<Rightarrow>
        if is_fail r \<or> p \<in> w_dirs w' then (False, w') else (True, w'\<lparr>w_files := (w_files w')(p \<mapsto> [])\<rparr>))"

definition remove_file :: "fspath \<Rightarrow> world \<Rightarrow> world" where
  "remove_file p w =
     (case next_sys w of (r, w') \<Rightarrow> if is_fail r then w' else w'\<lparr>w_files := (w_files w')(p := None)\<rparr>)"

definition add_suffix :: "string \<Rightarrow> fspath \<Rightarrow> fspath" where
  "add_suffix sfx p = (if p = [] then [sfx] else butlast p @ [last p @ sfx])"

text \<open>
  Buffered output.  \<open>stream_write\<close> hands buffered bytes to \<^verbatim>\<open>write\<close> until all are in the file or a call fails; it returns the
  bytes that are left and \<^verbatim>\<open>errno\<close>.  \<^verbatim>\<open>fwrite\<close> may leave its data in the buffer: on the outcome \<open>SysShort k\<close> the first \<open>k + 1\<close>
  bytes are written at once, otherwise none.
\<close>

definition append_bytes :: "fspath \<Rightarrow> bytes \<Rightarrow> world \<Rightarrow> world" where
  "append_bytes p d w = w\<lparr>w_files := (w_files w)(p \<mapsto> file_bytes w p @ d)\<rparr>"

function stream_write :: "fspath \<Rightarrow> bytes \<Rightarrow> sys \<Rightarrow> world \<Rightarrow> bytes \<times> sys \<times> world" where
  "stream_write p buf errno w =
     (if buf = [] then ([], errno, w)
      else case next_sys w of (r, w') \<Rightarrow>
        if is_fail r then (buf, r, w')
        else let n = moved r (length buf) in stream_write p (drop n buf) errno (append_bytes p (take n buf) w'))"
  by pat_completeness auto
termination
  by (relation "measure (\<lambda>(p, buf, errno, w). length buf)") (use moved_pos in auto)

declare stream_write.simps [simp del]

definition stream_put :: "fspath \<Rightarrow> bytes \<Rightarrow> world \<Rightarrow> bool \<times> bytes \<times> sys \<times> world" where
  "stream_put p data w =
     (case next_sys w of (r, w1) \<Rightarrow>
        if is_fail r then (False, [], r, w1)
        else let n = (case r of SysShort k \<Rightarrow> min (Suc k) (length data) | _ \<Rightarrow> 0) in
          case stream_write p (take n data) SysOk w1 of (rest, errno, w2) \<Rightarrow>
            (rest = [], if rest = [] then drop n data else rest, errno, w2))"

text \<open>\<^verbatim>\<open>fclose\<close> writes what is still buffered and closes; its result is not looked at.\<close>

definition stream_close :: "fspath \<Rightarrow> bytes \<Rightarrow> sys \<Rightarrow> world \<Rightarrow> sys \<times> world" where
  "stream_close p buf errno w =
     (case stream_write p buf errno w of (_, e1, w1) \<Rightarrow>
      case next_sys w1 of (r, w2) \<Rightarrow> (if is_fail r then r else e1, w2))"

definition WriteFileAtomic :: "fspath \<Rightarrow> bytes \<Rightarrow> world \<Rightarrow> (string + unit) \<times> world" where
  "WriteFileAtomic path data w =
     (let tmp = add_suffix ''.tmp'' path in
      case next_sys w of (r, w1) \<Rightarrow>
        if is_fail r \<or> tmp \<in> w_dirs w1 then (Inl (err_text r), w1)
        else let w2 = w1\<lparr>w_files := (w_files w1)(tmp \<mapsto> [])\<rparr> in
          case (if data = [] then (True, [], SysOk, w2) else stream_put tmp data w2) of (ok, buf, e3, w3) \<Rightarrow>
          case stream_write tmp buf e3 w3 of (rest, e4, w4) \<Rightarrow>
          let flushed = (rest = []) in
          case stream_close tmp rest e4 w4 of (e5, w5) \<Rightarrow>
            if \<not> ok \<or> \<not> flushed then (Inl (err_text e5), remove_file tmp w5)
            else RenameReplace tmp path w5)"

section \<open>Hashing a file\<close>

definition kHashChunk :: nat where "kHashChunk = 1048576"

function Sha256_loop :: "bytes \<Rightarrow> bytes \<Rightarrow> world \<Rightarrow> bytes option \<times> world" where
  "Sha256_loop rest acc w =
     (if w_stop w then (None, w)
      else case next_sys w of (r, w') \<Rightarrow>
        if is_fail r then (None, w')
        else if length rest < kHashChunk then (Some (acc @ rest), w')
        else Sha256_loop (drop kHashChunk rest) (acc @ take kHashChunk rest) w')"
  by pat_completeness auto
termination
  by (relation "measure (\<lambda>(rest, acc, w). length rest)") (auto simp: kHashChunk_def)

declare Sha256_loop.simps [simp del]

definition Sha256File :: "(bytes \<Rightarrow> string) \<Rightarrow> fspath \<Rightarrow> world \<Rightarrow> string option \<times> world" where
  "Sha256File sha p w =
     (case next_sys w of (r, w1) \<Rightarrow>
        if is_fail r then (None, w1)
        else case w_files w1 p of None \<Rightarrow> (None, w1)
        | Some c \<Rightarrow> (case Sha256_loop c [] w1 of (out, w2) \<Rightarrow> (map_option sha out, w2)))"

function ReadFile_loop :: "bytes \<Rightarrow> bytes \<Rightarrow> world \<Rightarrow> bytes option \<times> world" where
  "ReadFile_loop rest acc w =
     (case next_sys w of (r, w') \<Rightarrow>
        if is_fail r then (None, w')
        else if length rest < 65536 then (Some (acc @ rest), w')
        else ReadFile_loop (drop 65536 rest) (acc @ take 65536 rest) w')"
  by pat_completeness auto
termination
  by (relation "measure (\<lambda>(rest, acc, w). length rest)") auto

declare ReadFile_loop.simps [simp del]

definition ReadFileToString :: "fspath \<Rightarrow> world \<Rightarrow> (string + bytes) \<times> world" where
  "ReadFileToString p w =
     (case next_sys w of (r, w1) \<Rightarrow>
        if is_fail r then (Inl (err_text r), w1)
        else case w_files w1 p of None \<Rightarrow> (Inl ''No such file or directory'', w1)
        | Some c \<Rightarrow> (case ReadFile_loop c [] w1 of
            (None, w2) \<Rightarrow> (Inl ''read error'', w2) | (Some b, w2) \<Rightarrow> (Inr b, w2)))"

section \<open>Overwriting\<close>

lemma length_pad_to [simp]: "length (pad_to n c) = max n (length c)"
  by (simp add: pad_to_def)

lemma length_overwrite [simp]: "length (overwrite off d c) = max (length c) (off + length d)"
  by (simp add: overwrite_def)

lemma nth_overwrite: "i < max (length c) (off + length d) \<Longrightarrow> overwrite off d c ! i =
   (if i < off then (if i < length c then c ! i else 0) else if i < off + length d then d ! (i - off) else c ! i)"
  by (auto simp: overwrite_def pad_to_def nth_append min_def max_def split: if_splits)

lemma overwrite_append: "overwrite (off + length a) b (overwrite off a c) = overwrite off (a @ b) c"
  by (rule nth_equalityI) (auto simp: nth_overwrite nth_append)

section \<open>System calls\<close>

lemma next_sysD:
  assumes "next_sys w = (r, w')"
  shows "w_files w' = w_files w" "w_dirs w' = w_dirs w" "w_stop w \<Longrightarrow> w_stop w'"
    "length (w_sys w') \<le> length (w_sys w)"
  using assms by (auto simp: next_sys_def split: list.splits sys.splits)

lemma file_bytes_cong: "w_files w' p = w_files w p \<Longrightarrow> file_bytes w' p = file_bytes w p"
  by (simp add: file_bytes_def)

lemma w_files_write_bytes: "w_files (write_bytes p off d w) = (w_files w)(p \<mapsto> overwrite off d (file_bytes w p))"
  by (simp add: write_bytes_def)

lemma write_bytes_sel [simp]: "w_dirs (write_bytes p off d w) = w_dirs w" "w_stop (write_bytes p off d w) = w_stop w"
  "file_bytes (write_bytes p off d w) p = overwrite off d (file_bytes w p)"
  by (simp_all add: write_bytes_def file_bytes_def)

text \<open>A write leaves a prefix of the data in the file, all of it when it reports success, and touches nothing else.\<close>

lemma WriteAt_loop_spec: "WriteAt_loop p off data w = (ok, w') \<Longrightarrow>
   \<exists>n \<le> length data. (ok \<longrightarrow> n = length data) \<and>
     w_files w' = (if n = 0 then w_files w
                   else (w_files w)(p \<mapsto> overwrite off (take n data) (file_bytes w p))) \<and>
     w_dirs w' = w_dirs w \<and> (w_stop w \<longrightarrow> w_stop w')"
proof (induction p off data w arbitrary: ok w' rule: WriteAt_loop.induct)
  case (1 p off data w)
  obtain r w1 where n: "next_sys w = (r, w1)" by fastforce
  note same = next_sysD[OF n]
  have fb: "file_bytes w1 p = file_bytes w p" using same(1) by (simp add: file_bytes_def)
  note run = "1.prems"[unfolded WriteAt_loop.simps[of p off data w]]
  consider "data = []" | "data \<noteq> []" "r = SysIntr" | "data \<noteq> []" "r \<noteq> SysIntr" "is_fail r"
    | "data \<noteq> []" "r \<noteq> SysIntr" "\<not> is_fail r" by blast
  then show ?case
  proof cases
    case 1
    then show ?thesis using run by auto
  next
    case 2
    then have "WriteAt_loop p off data w1 = (ok, w')" using run n by simp
    from "1.IH"(1)[OF 2(1) n[symmetric] 2(2) this] obtain m where
      "m \<le> length data" "ok \<longrightarrow> m = length data"
      "w_files w' = (if m = 0 then w_files w1 else (w_files w1)(p \<mapsto> overwrite off (take m data) (file_bytes w1 p)))"
      "w_dirs w' = w_dirs w1" "w_stop w1 \<longrightarrow> w_stop w'" by blast
    then show ?thesis using same(3) by (intro exI[of _ m]) (simp add: same(1,2) fb)
  next
    case 3
    then show ?thesis using run n same by (intro exI[of _ 0]) simp
  next
    case 4
    let ?n = "moved r (length data)"
    let ?w2 = "write_bytes p off (take ?n data) w1"
    have n0: "0 < ?n" "?n \<le> length data" using 4 moved_pos moved_le by auto
    have "WriteAt_loop p (off + ?n) (drop ?n data) ?w2 = (ok, w')" using run n 4 by (simp add: Let_def)
    from "1.IH"(2)[OF 4(1) n[symmetric] 4(2,3) refl this] obtain m where m:
      "m \<le> length data - ?n" "ok \<longrightarrow> m = length data - ?n"
      "w_files w' = (if m = 0 then w_files ?w2
         else (w_files ?w2)(p \<mapsto> overwrite (off + ?n) (take m (drop ?n data)) (file_bytes ?w2 p)))"
      "w_dirs w' = w_dirs ?w2" "w_stop ?w2 \<longrightarrow> w_stop w'" by auto
    have app: "overwrite (off + ?n) (take m (drop ?n data)) (overwrite off (take ?n data) c) =
        overwrite off (take (?n + m) data) c" for c
      using overwrite_append[of off "take ?n data" "take m (drop ?n data)" c] n0
      by (simp add: take_add min_absorb2)
    show ?thesis
      using m n0 same fb app by (intro exI[of _ "?n + m"]) (auto simp: w_files_write_bytes)
  qed
qed

lemma WriteAt_spec: "WriteAt opened p off data w = (ok, w') \<Longrightarrow>
   \<exists>n \<le> length data. (ok \<longrightarrow> opened \<and> n = length data) \<and>
     w_files w' = (if n = 0 then w_files w
                   else (w_files w)(p \<mapsto> overwrite off (take n data) (file_bytes w p))) \<and>
     w_dirs w' = w_dirs w \<and> (w_stop w \<longrightarrow> w_stop w')"
  using WriteAt_loop_spec[of p off data w ok w'] by (cases opened) (auto simp: WriteAt_def intro: exI[of _ 0])

lemma ReadAt_loop_spec: "ReadAt_loop p off len got w = (out, w') \<Longrightarrow> length got \<le> len \<Longrightarrow>
   got = take (length got) (drop off (file_bytes w p)) \<Longrightarrow>
   w_files w' = w_files w \<and> w_dirs w' = w_dirs w \<and>
   (out = None \<or> out = Some (take len (drop off (file_bytes w p))))"
proof (induction p off len got w arbitrary: out w' rule: ReadAt_loop.induct)
  case (1 p off len got w)
  obtain r w1 where n: "next_sys w = (r, w1)" by fastforce
  note same = next_sysD[OF n]
  have fb: "file_bytes w1 p = file_bytes w p" using same(1) by (simp add: file_bytes_def)
  define c where "c = drop off (file_bytes w p)"
  define avail where "avail = take (len - length got) (drop (off + length got) (file_bytes w1 p))"
  have av: "avail = take (len - length got) (drop (length got) c)"
    by (simp add: avail_def c_def fb add.commute)
  have got: "got = take (length got) c" using "1.prems"(3) by (simp add: c_def)
  note run = "1.prems"(1)[unfolded ReadAt_loop.simps[of p off len got w]]
  consider "\<not> length got < len" | "length got < len" "r = SysIntr" | "length got < len" "r \<noteq> SysIntr" "is_fail r"
    | "length got < len" "r \<noteq> SysIntr" "\<not> is_fail r" "avail = []"
    | "length got < len" "r \<noteq> SysIntr" "\<not> is_fail r" "avail \<noteq> []" by blast
  then show ?case
  proof cases
    case 1
    then have "len = length got" using "1.prems"(2) by simp
    then show ?thesis using run "1.prems"(3) by auto
  next
    case 2
    then have "ReadAt_loop p off len got w1 = (out, w')" using run n by simp
    from "1.IH"(1)[OF 2(1) n[symmetric] refl 2(2) this "1.prems"(2)] show ?thesis
      using same fb "1.prems"(3) by simp
  next
    case 3
    then show ?thesis using run n same by simp
  next
    case 4
    then have "length c \<le> length got" using av by auto
    then have "got = take len c" using got 4(1) by (metis le_trans less_imp_le take_all)
    moreover have "(out, w') = (Some got, w1)" using run n 4 by (simp add: avail_def)
    ultimately show ?thesis using same by (simp add: c_def)
  next
    case 5
    let ?g = "got @ take (moved r (length avail)) avail"
    have g1: "ReadAt_loop p off len ?g w1 = (out, w')" using run n 5 by (simp add: avail_def)
    have g2: "length ?g \<le> len"
    proof -
      have "length avail \<le> len - length got" by (simp add: av)
      then show ?thesis using 5(1) by simp
    qed
    have g3: "?g = take (length ?g) (drop off (file_bytes w1 p))"
    proof -
      have "?g = take (length got) c @ take (moved r (length avail)) (take (len - length got) (drop (length got) c))"
        using got av by metis
      also have "\<dots> = take (length got + min (moved r (length avail)) (len - length got)) c"
        by (simp add: take_add)
      finally have "\<exists>k. ?g = take k c" by blast
      then show ?thesis unfolding fb c_def[symmetric] by (metis length_take min.cobounded1 take_all_iff linear min_def)
    qed
    show ?thesis
      using "1.IH"(2)[OF 5(1) n[symmetric] avail_def 5(2,3,4) g1 g2 g3] by (simp only: same(1,2) fb)
  qed
qed

lemma OpenReader_spec: "OpenReader p w = (res, w') \<Longrightarrow>
   w_files w' = w_files w \<and> w_dirs w' = w_dirs w \<and>
   (\<forall>n. res = Inr n \<longrightarrow> w_files w p \<noteq> None \<and> n = of_nat (length (file_bytes w p)))"
proof -
  assume a: "OpenReader p w = (res, w')"
  obtain r w1 where n1: "next_sys w = (r, w1)" by fastforce
  obtain r2 w2 where n2: "next_sys w1 = (r2, w2)" by fastforce
  note same = next_sysD(1,2)[OF n1] next_sysD(1,2)[OF n2]
  show ?thesis using a same by (auto simp: OpenReader_def n1 n2 file_bytes_def split: if_splits)
qed

lemma ReadAt_spec: "ReadAt p off len w = (out, w') \<Longrightarrow>
   w_files w' = w_files w \<and> w_dirs w' = w_dirs w \<and>
   (out = None \<or> out = Some (take len (drop off (file_bytes w p))))"
  unfolding ReadAt_def by (erule ReadAt_loop_spec) auto

lemma Sha256_loop_spec: "Sha256_loop rest acc w = (out, w') \<Longrightarrow>
   w_files w' = w_files w \<and> w_dirs w' = w_dirs w \<and> (w_stop w \<longrightarrow> w_stop w') \<and>
   (out = None \<or> out = Some (acc @ rest))"
proof (induction rest acc w arbitrary: out w' rule: Sha256_loop.induct)
  case (1 rest acc w)
  obtain r w1 where n: "next_sys w = (r, w1)" by fastforce
  note same = next_sysD[OF n]
  note run = "1.prems"[unfolded Sha256_loop.simps[of rest acc w]]
  consider "w_stop w" | "\<not> w_stop w" "is_fail r \<or> length rest < kHashChunk"
    | "\<not> w_stop w" "\<not> is_fail r" "\<not> length rest < kHashChunk" by blast
  then show ?case
  proof cases
    case 2
    then show ?thesis using run n same by (auto split: if_splits)
  next
    case 3
    then have "Sha256_loop (drop kHashChunk rest) (acc @ take kHashChunk rest) w1 = (out, w')" using run n by simp
    from "1.IH"[OF 3(1) n[symmetric] 3(2,3) this] show ?thesis using same 3(1) by simp
  qed (use run in auto)
qed

text \<open>A hash that was computed is the hash of the file's contents; hashing changes no file.\<close>

lemma Sha256File_spec:
  assumes "Sha256File sha p w = (out, w')"
  shows "w_files w' = w_files w \<and> w_dirs w' = w_dirs w \<and> (w_stop w \<longrightarrow> w_stop w') \<and>
    (out = None \<or> (\<exists>c. w_files w p = Some c \<and> out = Some (sha c)))"
proof -
  obtain r w1 where n: "next_sys w = (r, w1)" by fastforce
  note same = next_sysD[OF n]
  show ?thesis
  proof (cases "is_fail r \<or> w_files w1 p = None")
    case True
    then show ?thesis using assms n same by (auto simp: Sha256File_def split: if_splits)
  next
    case False
    then obtain c where c: "w_files w1 p = Some c" by blast
    obtain o2 w2 where s: "Sha256_loop c [] w1 = (o2, w2)" by fastforce
    have "out = map_option sha o2" "w' = w2" using assms n False c s by (auto simp: Sha256File_def)
    then show ?thesis using Sha256_loop_spec[OF s] same c by auto
  qed
qed

lemma EnsureSize_spec:
  assumes "EnsureSize p sz w = (ok, w')"
  shows "w_dirs w' = w_dirs w \<and> (w_stop w \<longrightarrow> w_stop w') \<and>
    (w_files w' = w_files w \<or> w_files w' = (w_files w)(p \<mapsto> pad_to sz (file_bytes w p))) \<and>
    (ok \<longrightarrow> file_bytes w' p = pad_to sz (file_bytes w p))"
proof -
  obtain r w1 where n: "next_sys w = (r, w1)" by fastforce
  obtain r2 w2 where n2: "next_sys w1 = (r2, w2)" by fastforce
  note same = next_sysD[OF n] next_sysD[OF n2]
  have "sz \<le> length c \<Longrightarrow> pad_to sz c = c" for c by (simp add: pad_to_def)
  then show ?thesis using assms n n2 same by (auto simp: EnsureSize_def file_bytes_def split: if_splits)
qed

lemma RenameReplace_spec:
  assumes "RenameReplace from to w = (res, w')"
  shows "w_dirs w' = w_dirs w \<and> (w_stop w \<longrightarrow> w_stop w') \<and>
    ((\<exists>e. res = Inl e) \<and> w_files w' = w_files w \<or>
     (\<exists>c. res = Inr () \<and> w_files w from = Some c \<and> w_files w' = ((w_files w)(from := None))(to \<mapsto> c)))"
proof -
  obtain r w1 where n: "next_sys w = (r, w1)" by fastforce
  note same = next_sysD[OF n]
  show ?thesis
  proof (cases "is_fail r \<or> w_files w1 from = None \<or> to \<in> w_dirs w1")
    case True
    then have "(\<exists>e. res = Inl e) \<and> w' = w1" using assms n by (auto simp: RenameReplace_def split: option.splits if_splits)
    then show ?thesis using same by blast
  next
    case False
    then obtain c where c: "w_files w1 from = Some c" by auto
    then have "res = Inr () \<and> w' = w1\<lparr>w_files := ((w_files w1)(from := None))(to \<mapsto> c)\<rparr>"
      using assms n False by (auto simp: RenameReplace_def)
    then show ?thesis using same(1-3) c by simp
  qed
qed

lemma OpenWriter_spec: "OpenWriter p w = (res, w') \<Longrightarrow>
   w_dirs w' = w_dirs w \<and> (w_stop w \<longrightarrow> w_stop w') \<and>
   ((\<exists>e. res = Inl e) \<and> (w_files w' = w_files w \<or> w_files w' = (w_files w)(p \<mapsto> file_bytes w p)) \<or>
    res = Inr () \<and> w_files w' = (w_files w)(p \<mapsto> file_bytes w p))"
proof (induction p w arbitrary: res w' rule: OpenWriter.induct)
  case (1 p w)
  obtain r w1 where n: "next_sys w = (r, w1)" by fastforce
  note same = next_sysD[OF n]
  have fb: "file_bytes w1 p = file_bytes w p" using same(1) by (simp add: file_bytes_def)
  note run = "1.prems"[unfolded OpenWriter.simps[of p w]]
  show ?case
  proof (cases "r = SysIntr")
    case True
    then have "OpenWriter p w1 = (res, w')" using run n by simp
    from "1.IH"[OF n[symmetric] True this] show ?thesis using same fb by simp
  next
    case False
    show ?thesis
    proof (cases "is_fail r \<or> p \<in> w_dirs w1")
      case True
      then have "(\<exists>e. res = Inl e) \<and> w' = w1" using run n False by (auto split: if_splits)
      then show ?thesis using same by blast
    next
      case ok: False
      obtain rd w2 where n2: "next_sys (w1\<lparr>w_files := (w_files w1)(p \<mapsto> file_bytes w1 p)\<rparr>) = (rd, w2)" by fastforce
      have "w' = w2" "(\<exists>e. res = Inl e) \<or> res = Inr ()" using run n n2 False ok by (auto split: if_splits)
      then show ?thesis using next_sysD[OF n2] same(1-3) fb by auto
    qed
  qed
qed

lemma add_suffix_neq: "sfx \<noteq> [] \<Longrightarrow> p \<noteq> [] \<Longrightarrow> add_suffix sfx p \<noteq> p"
  by (cases p rule: rev_cases) (auto simp: add_suffix_def)

text \<open>A stream leaves the bytes it was given, in order: some of them in the file, the others in the buffer.\<close>

lemma stream_write_spec: "stream_write p buf errno w = (rest, e, w') \<Longrightarrow> \<exists>n \<le> length buf. rest = drop n buf \<and>
    w_files w' = (if n = 0 then w_files w else (w_files w)(p \<mapsto> file_bytes w p @ take n buf))"
proof (induction p buf errno w rule: stream_write.induct)
  case (1 p buf errno w)
  obtain r w1 where n1: "next_sys w = (r, w1)" by fastforce
  note same = next_sysD(1)[OF n1]
  have fb: "file_bytes w1 p = file_bytes w p" using same by (simp add: file_bytes_def)
  note run = "1.prems"[unfolded stream_write.simps[of p buf errno w]]
  show ?case
  proof (cases "buf = [] \<or> is_fail r")
    case True
    then show ?thesis using run n1 same by (intro exI[of _ 0]) (auto split: if_splits)
  next
    case False
    let ?n = "moved r (length buf)"
    have n: "0 < ?n" "?n \<le> length buf" using False moved_pos moved_le by auto
    have "stream_write p (drop ?n buf) errno (append_bytes p (take ?n buf) w1) = (rest, e, w')" using run n1 False by (simp add: Let_def)
    from "1.IH"[OF _ n1[symmetric] _ refl this] False obtain m where m: "m \<le> length buf - ?n" "rest = drop m (drop ?n buf)"
      "w_files w' = (if m = 0 then w_files (append_bytes p (take ?n buf) w1)
         else (w_files (append_bytes p (take ?n buf) w1))(p \<mapsto> file_bytes (append_bytes p (take ?n buf) w1) p @ take m (drop ?n buf)))"
      by auto
    have "drop (?n + m) buf = drop m (drop ?n buf)" by (simp add: add.commute)
    then show ?thesis using m n same fb
      by (intro exI[of _ "?n + m"]) (auto simp: append_bytes_def file_bytes_def take_add simp del: drop_drop)
  qed
qed

text \<open>The contents of the temporary file after each call, and what is then buffered.\<close>

definition holds :: "fspath \<Rightarrow> (fspath \<rightharpoonup> bytes) \<Rightarrow> bytes \<Rightarrow> world \<Rightarrow> bool" where
  "holds tmp old c w \<longleftrightarrow> w_files w = old(tmp \<mapsto> c)"

lemma holds_write:
  assumes "holds tmp old c w" "stream_write tmp buf errno w = (rest, e, w')"
  shows "\<exists>d. buf = d @ rest \<and> holds tmp old (c @ d) w'"
proof -
  obtain n where n: "n \<le> length buf" "rest = drop n buf"
    "w_files w' = (if n = 0 then w_files w else (w_files w)(tmp \<mapsto> file_bytes w tmp @ take n buf))"
    using stream_write_spec[OF assms(2)] by blast
  have "buf = take n buf @ rest" using n(2) by simp
  moreover have "holds tmp old (c @ take n buf) w'" using n assms(1) by (auto simp: holds_def file_bytes_def)
  ultimately show ?thesis by blast
qed

lemma holds_put:
  assumes "holds tmp old [] w" "stream_put tmp data w = (ok, buf, e, w')"
  shows "\<exists>c. holds tmp old c w' \<and> (ok \<longrightarrow> data = c @ buf)"
proof -
  obtain r w1 where n1: "next_sys w = (r, w1)" by fastforce
  have h: "holds tmp old [] w1" using assms(1) next_sysD(1)[OF n1] by (simp add: holds_def)
  show ?thesis
  proof (cases "is_fail r")
    case False
    define n where "n = (case r of SysShort k \<Rightarrow> min (Suc k) (length data) | _ \<Rightarrow> 0)"
    obtain rest e1 w2 where s: "stream_write tmp (take n data) SysOk w1 = (rest, e1, w2)" by (metis prod_cases3)
    have r: "ok = (rest = [])" "buf = (if rest = [] then drop n data else rest)" "w' = w2"
      using assms(2) n1 False s by (auto simp: stream_put_def Let_def n_def[symmetric])
    from holds_write[OF h s] obtain d where d: "take n data = d @ rest" "holds tmp old d w2" by auto
    have "data = d @ buf" if ok using that r d(1) append_take_drop_id[of n data] by simp
    then show ?thesis using d(2) r(3) by blast
  qed (use assms(2) n1 h in \<open>auto simp: stream_put_def\<close>)
qed

text \<open>C21. Whatever system calls fail, an atomic write leaves the target file either untouched or holding exactly the
new data, holds the new data when it reports success, and changes no file but the target and its temporary sibling.  The
data may sit in the buffer of the stream until it is flushed, and each call may write any part of it before it fails.\<close>

theorem WriteFileAtomic_atomic:
  assumes "WriteFileAtomic path data w = (res, w')" "path \<noteq> []"
  shows "(w_files w' path = w_files w path \<or> w_files w' path = Some data) \<and>
    (res = Inr () \<longrightarrow> w_files w' path = Some data) \<and>
    (\<forall>q. q \<noteq> path \<longrightarrow> q \<noteq> add_suffix ''.tmp'' path \<longrightarrow> w_files w' q = w_files w q)"
proof -
  let ?tmp = "add_suffix ''.tmp'' path"
  have tmp: "?tmp \<noteq> path" using assms(2) by (intro add_suffix_neq) simp_all
  obtain r w1 where n1: "next_sys w = (r, w1)" by fastforce
  note same1 = next_sysD[OF n1]
  show ?thesis
  proof (cases "is_fail r \<or> ?tmp \<in> w_dirs w1")
    case True
    then show ?thesis using assms(1) n1 same1 by (auto simp: WriteFileAtomic_def Let_def)
  next
    case False
    define w2 where "w2 = w1\<lparr>w_files := (w_files w1)(?tmp \<mapsto> [])\<rparr>"
    have h2: "holds ?tmp (w_files w) [] w2" by (simp add: holds_def w2_def same1(1))
    obtain ok buf e3 w3 where n3: "(if data = [] then (True, [], SysOk, w2) else stream_put ?tmp data w2) = (ok, buf, e3, w3)"
      by (metis prod_cases4)
    obtain c where h3: "holds ?tmp (w_files w) c w3" and ok: "ok \<longrightarrow> data = c @ buf"
      using n3 h2 holds_put[OF h2, of data ok buf e3 w3] by (cases "data = []") auto
    obtain rest e4 w4 where n4: "stream_write ?tmp buf e3 w3 = (rest, e4, w4)" by (metis prod_cases3)
    obtain d where d: "buf = d @ rest" "holds ?tmp (w_files w) (c @ d) w4" using holds_write[OF h3 n4] by blast
    obtain x e w5 where n5: "stream_write ?tmp rest e4 w4 = (x, e, w5)" by (metis prod_cases3)
    obtain d' where d': "rest = d' @ x" "holds ?tmp (w_files w) (c @ d @ d') w5" using holds_write[OF d(2) n5] by auto
    obtain rc w6 where n6: "next_sys w5 = (rc, w6)" by fastforce
    have h6: "holds ?tmp (w_files w) (c @ d @ d') w6" using d'(2) next_sysD(1)[OF n6] by (simp add: holds_def)
    have eq: "WriteFileAtomic path data w =
       (if \<not> ok \<or> rest \<noteq> [] then (Inl (err_text (if is_fail rc then rc else e)), remove_file ?tmp w6) else RenameReplace ?tmp path w6)"
      using False by (simp add: WriteFileAtomic_def Let_def n1 w2_def[symmetric] n3 n4 stream_close_def n5 n6)
    show ?thesis
    proof (cases "\<not> ok \<or> rest \<noteq> []")
      case True
      obtain rr w7 where n7: "next_sys w6 = (rr, w7)" by fastforce
      have "w' = remove_file ?tmp w6" "\<exists>e. res = Inl e" using assms(1) True by (auto simp: eq)
      then show ?thesis using n7 next_sysD(1)[OF n7] h6 tmp by (auto simp: remove_file_def holds_def)
    next
      case good: False
      then have "RenameReplace ?tmp path w6 = (res, w')" using assms(1) by (simp add: eq)
      moreover have "w_files w6 = (w_files w)(?tmp \<mapsto> data)" using h6 good ok d(1) d'(1) by (simp add: holds_def)
      ultimately show ?thesis using RenameReplace_spec[of ?tmp path w6 res w'] tmp by auto
    qed
  qed
qed

lemma WriteFileAtomic_atomic_witness:
  "let w = \<lparr>w_files = (\<lambda>p. if p = [''db''] then Some [1] else None), w_dirs = {}, w_sys = [SysOk, SysShort 0, SysOk, SysFail ''full''],
       w_stop = False\<rparr>;
       r = WriteFileAtomic [''db''] [2, 3] w
   in fst r = Inl ''full'' \<and> (w_files (snd r) [''db''] = Some [1] \<or> w_files (snd r) [''db''] = Some [2, 3])"
proof -
  let ?w = "\<lparr>w_files = (\<lambda>p. if p = [''db''] then Some [1] else None), w_dirs = {}, w_sys = [SysOk, SysShort 0, SysOk, SysFail ''full''],
       w_stop = False\<rparr> :: world"
  have e: "fst (WriteFileAtomic [''db''] [2, 3] ?w) = Inl ''full''"
    by (simp add: WriteFileAtomic_def next_sys_def is_fail_def Let_def stream_put_def stream_write.simps stream_close_def append_bytes_def moved_def err_text_def)
  show ?thesis
    using WriteFileAtomic_atomic[of "[''db'']" "[2, 3]" ?w, OF prod.collapse[symmetric]] e by (simp add: Let_def)
qed

end
