(* ===== verification/Sender.thy ===== *)
theory Sender
  imports Complex_Main Manifest File_Io Block_Codec Bitmap
begin

text \<open>
  The sender engine, \<^verbatim>\<open>core/src/transfer/sender.{h,cpp}\<close>.  The sender thread shares its state with the transport
  thread (\<^verbatim>\<open>OnSack\<close>) and the owner (\<^verbatim>\<open>OnFileOk\<close>, \<^verbatim>\<open>OnFileBad\<close>, \<^verbatim>\<open>SetPaused\<close>, \<^verbatim>\<open>Stop\<close>).  Wherever the thread reads
  shared state, the clock or the link, it takes one entry of the environment: the actions of the other threads that
  arrive there, the clock readings and the answers of the link.  A statement about every environment therefore covers
  every interleaving.  An environment that runs out ends the computation with \<open>Starved\<close>; the loops below carry the
  length of the environment as their bound, and each of their passes takes at least one entry.  An index outside
  \<^verbatim>\<open>sweep_ms\<close> is \<open>Crash\<close>.  Doubles are rationals; rounding is not modelled.  SHA-256 is the parameter \<open>sha\<close>.
\<close>

section \<open>State\<close>

definition kMinRateBps :: int where "kMinRateBps = 300000"
definition kMaxRateBps :: int where "kMaxRateBps = 1000000000"
definition kRateUpdateMs :: u32 where "kRateUpdateMs = 200"
definition kReadChunkBlocks :: nat where "kReadChunkBlocks = 256"
definition kMaxInflightFiles :: nat where "kMaxInflightFiles = 8"
definition kBucketBlocks :: u32 where "kBucketBlocks = 256"
definition kMaxRepairsPerPass :: u32 where "kMaxRepairsPerPass = 4096"
definition kLinkDownTimeoutMs :: u32 where "kLinkDownTimeoutMs = 20000"

datatype tx_event =
    TxDatagram bytes
  | TxFileDone u16 string
  | TxAllDone
  | TxError string string

record FileTx =
  tf_index :: u16
  tf_size :: u64
  tf_blocks :: u32
  tf_path :: fspath
  tf_skip :: bitmap
  tf_sweep_ms :: "u32 list"
  tf_repair_ms :: "(u32 \<times> u32) list"
  tf_sweep_done :: bool
  tf_sha256 :: string
  tf_reader :: "(bool \<times> u64) option"
  tf_ok :: bool
  tf_announced :: bool
  tf_sack :: sack
  tf_sack_seq :: u32
  tf_acked_bytes :: u64

datatype tx_act = ASack bytes | AFileOk u16 | AFileBad u16 | APause bool | AStop

text \<open>\<open>e_link\<close> is what \<^verbatim>\<open>SendDatagram\<close> returns, \<open>e_est\<close> what \<^verbatim>\<open>LinkEstimate\<close> does (bandwidth, round trip).\<close>

record tx_env =
  e_acts :: "tx_act list"
  e_now :: u32
  e_exact :: rat
  e_link :: int
  e_est :: "(int \<times> int) option"

text \<open>
  The members of \<^verbatim>\<open>SenderTransfer\<close>, then the variables its methods pass to each other by pointer (\<open>s_did_work\<close>,
  \<open>s_budget\<close>, \<open>s_since_repair\<close>, \<open>s_buf\<close>, the input of the hasher \<open>s_hashed\<close>), the disk, the environment and what was sent and reported.
\<close>

record tx_state =
  s_manifest :: Manifest
  s_tx :: "FileTx list"
  s_inflight :: "nat list"
  s_started :: bool
  s_stop :: bool
  s_paused :: bool
  s_finished :: bool
  s_failed :: bool
  s_tokens :: rat
  s_last_token_ms :: rat
  s_target_bps :: int
  s_aimd_bps :: int
  s_rtt_ms :: int
  s_last_rate_update_ms :: u32
  s_window_bytes :: u64
  s_window_start_ms :: u32
  s_link_down_since_ms :: u32
  s_bytes_sent :: u64
  s_bytes_acked :: u64
  s_files_done :: u32
  s_current_file :: int
  s_send_rate_bps :: int
  s_repairs :: u32
  s_max_loss_permille :: u16
  s_did_work :: bool
  s_budget :: u32
  s_since_repair :: nat
  s_buf :: bytes
  s_hashed :: bytes
  s_world :: world
  s_env :: "tx_env list"
  s_out :: "tx_event list"

definition upd_tx :: "nat \<Rightarrow> (FileTx \<Rightarrow> FileTx) \<Rightarrow> tx_state \<Rightarrow> tx_state" where
  "upd_tx i g s = s\<lparr>s_tx := (s_tx s)[i := g (s_tx s ! i)]\<rparr>"

definition tx_emit :: "tx_event \<Rightarrow> tx_state \<Rightarrow> tx_state" where
  "tx_emit e s = s\<lparr>s_out := s_out s @ [e]\<rparr>"

definition tx_Fail :: "string \<Rightarrow> string \<Rightarrow> tx_state \<Rightarrow> tx_state" where
  "tx_Fail code message s =
     (if s_failed s then s else tx_emit (TxError code message) (s\<lparr>s_failed := True\<rparr>))"

section \<open>Start\<close>

definition new_tx :: "(u16 \<rightharpoonup> sack_run list) \<Rightarrow> nat \<Rightarrow> ManifestFile \<Rightarrow> fspath \<Rightarrow> FileTx" where
  "new_tx have i mf path =
     (let blocks = BlockCountFor (mf_size mf);
          skip = (case have (of_nat i) of None \<Rightarrow> bm_Reset blocks | Some rs \<Rightarrow> bm_SetRuns rs (bm_Reset blocks))
      in \<lparr>tf_index = of_nat i, tf_size = mf_size mf, tf_blocks = blocks, tf_path = path, tf_skip = skip,
          tf_sweep_ms = replicate (unat ((blocks + kBucketBlocks - 1) div kBucketBlocks)) 0, tf_repair_ms = [],
          tf_sweep_done = False, tf_sha256 = [], tf_reader = None, tf_ok = False, tf_announced = False,
          tf_sack = empty_sack, tf_sack_seq = 0, tf_acked_bytes = 0\<rparr>)"

definition mark_verified :: "u16 \<Rightarrow> tx_state \<Rightarrow> tx_state" where
  "mark_verified v s =
     (if unat v < length (s_tx s)
      then (upd_tx (unat v) (\<lambda>f. f\<lparr>tf_ok := True, tf_announced := True\<rparr>) s)
             \<lparr>s_files_done := s_files_done s + 1,
              s_bytes_acked := s_bytes_acked s + tf_size (s_tx s ! unat v)\<rparr>
      else s)"

definition tx_Start ::
  "Manifest \<Rightarrow> fspath list \<Rightarrow> (u16 \<rightharpoonup> sack_run list) \<Rightarrow> u16 list \<Rightarrow> tx_state \<Rightarrow> (string + unit) \<times> tx_state"
where
  "tx_Start m files have verified s =
     (if s_started s then (Inl ''already started'', s)
      else if length files \<noteq> length (m_files m) then (Inl ''manifest / file list mismatch'', s)
      else let s1 = s\<lparr>s_manifest := m,
                      s_tx := map (\<lambda>(i, mf, p). new_tx have i mf p) (zip [0..<length files] (zip (m_files m) files))\<rparr>;
               s2 = fold mark_verified verified s1
           in (Inr (), s2\<lparr>s_stop := False, s_started := True\<rparr>))"

record SenderProgress =
  sp_bytes_total :: u64
  sp_bytes_sent :: u64
  sp_bytes_acked :: u64
  sp_files_total :: u32
  sp_files_done :: u32
  sp_current_file :: int
  sp_send_rate_bps :: int
  sp_target_bps :: int
  sp_repairs :: u32

definition tx_Progress :: "tx_state \<Rightarrow> SenderProgress" where
  "tx_Progress s = \<lparr>sp_bytes_total = m_total_bytes (s_manifest s), sp_bytes_sent = s_bytes_sent s,
     sp_bytes_acked = min (s_bytes_acked s) (m_total_bytes (s_manifest s)),
     sp_files_total = of_nat (length (m_files (s_manifest s))), sp_files_done = s_files_done s,
     sp_current_file = s_current_file s, sp_send_rate_bps = s_send_rate_bps s,
     sp_target_bps = s_target_bps s, sp_repairs = s_repairs s\<rparr>"

section \<open>Transport and owner threads\<close>

definition sack_acked :: "sack \<Rightarrow> FileTx \<Rightarrow> u64" where
  "sack_acked s f =
     (if sk_flags s AND kSackFlagComplete \<noteq> 0 then tf_size f
      else min (ucast (sk_received_count s) * of_nat kBlockPayloadSize) (tf_size f))"

definition OnSack :: "bytes \<Rightarrow> tx_state \<Rightarrow> tx_state" where
  "OnSack data s =
     (case DecodeSack data of None \<Rightarrow> s
      | Some k \<Rightarrow>
          let i = unat (sk_file_index k) in
          if length (s_tx s) \<le> i then s
          else let f = s_tx s ! i; acked = sack_acked k f in
            if 0 < tf_sack_seq f \<and> sk_received_count k < sk_received_count (tf_sack f) then s
            else let f1 = f\<lparr>tf_sack := k, tf_sack_seq := tf_sack_seq f + 1\<rparr>;
                     more = tf_acked_bytes f < acked
                 in s\<lparr>s_tx := (s_tx s)[i := if more then f1\<lparr>tf_acked_bytes := acked\<rparr> else f1],
                     s_bytes_acked := (if more then s_bytes_acked s + (acked - tf_acked_bytes f) else s_bytes_acked s),
                     s_max_loss_permille := max (s_max_loss_permille s) (sk_loss_permille k)\<rparr>)"

definition OnFileBad :: "u16 \<Rightarrow> tx_state \<Rightarrow> tx_state" where
  "OnFileBad index s =
     (if length (s_tx s) \<le> unat index then s
      else let f = s_tx s ! unat index in
        if tf_ok f then s
        else s\<lparr>s_bytes_acked := (if 0 < tf_acked_bytes f
                  then s_bytes_acked s - min (s_bytes_acked s) (tf_acked_bytes f) else s_bytes_acked s),
               s_tx := (s_tx s)[unat index := f\<lparr>tf_skip := bm_Reset (tf_blocks f), tf_acked_bytes := 0,
                  tf_sack := empty_sack, tf_sack_seq := 0\<rparr>]\<rparr>)"

definition OnFileOk :: "u16 \<Rightarrow> tx_state \<Rightarrow> tx_state" where
  "OnFileOk index s =
     (if length (s_tx s) \<le> unat index then s
      else let f = s_tx s ! unat index in
        if tf_ok f then s
        else let more = tf_acked_bytes f < tf_size f;
                 f1 = f\<lparr>tf_ok := True\<rparr>
             in s\<lparr>s_tx := (s_tx s)[unat index := if more then f1\<lparr>tf_acked_bytes := tf_size f\<rparr> else f1],
                 s_bytes_acked := (if more then s_bytes_acked s + (tf_size f - tf_acked_bytes f) else s_bytes_acked s),
                 s_files_done := s_files_done s + 1\<rparr>)"

definition SetPaused :: "bool \<Rightarrow> tx_state \<Rightarrow> tx_state" where
  "SetPaused paused s = s\<lparr>s_paused := paused\<rparr>"

definition tx_Stop :: "tx_state \<Rightarrow> tx_state" where
  "tx_Stop s = s\<lparr>s_stop := True\<rparr>"

primrec apply_act :: "tx_act \<Rightarrow> tx_state \<Rightarrow> tx_state" where
  "apply_act (ASack data) s = OnSack data s"
| "apply_act (AFileOk index) s = OnFileOk index s"
| "apply_act (AFileBad index) s = OnFileBad index s"
| "apply_act (APause paused) s = SetPaused paused s"
| "apply_act AStop s = tx_Stop s"

section \<open>Control\<close>

text \<open>\<open>Go\<close> and \<open>Quit\<close> are the results true and false of the sender's methods.\<close>

datatype ctl = Go | Quit | Starved | Crash

definition seqc :: "ctl \<times> tx_state \<Rightarrow> (tx_state \<Rightarrow> ctl \<times> tx_state) \<Rightarrow> ctl \<times> tx_state" where
  "seqc m k = (if fst m = Go then k (snd m) else m)"

definition poll :: "tx_state \<Rightarrow> (tx_env \<Rightarrow> tx_state \<Rightarrow> ctl \<times> tx_state) \<Rightarrow> ctl \<times> tx_state" where
  "poll s k = (case s_env s of [] \<Rightarrow> (Starved, s) | e # es \<Rightarrow> k e (fold apply_act (e_acts e) (s\<lparr>s_env := es\<rparr>)))"

section \<open>Rate control\<close>

definition clamp_rate :: "int \<Rightarrow> int" where
  "clamp_rate r = max kMinRateBps (min kMaxRateBps r)"

text \<open>Multiplicative decrease on reported loss, additive increase otherwise.\<close>

definition next_aimd :: "u16 \<Rightarrow> int \<Rightarrow> int" where
  "next_aimd loss aimd =
     clamp_rate (if 100 < loss then aimd * 7 div 10 else if 30 < loss then aimd * 9 div 10 else aimd + 2000000)"

definition target_rate :: "(int \<times> int) option \<Rightarrow> int \<Rightarrow> int" where
  "target_rate est aimd =
     (let bwe = (case est of None \<Rightarrow> 0 | Some (b, _) \<Rightarrow> b)
      in clamp_rate (if 0 < bwe then min aimd (bwe + bwe div 10) else aimd))"

definition est_rtt :: "(int \<times> int) option \<Rightarrow> int \<Rightarrow> int" where
  "est_rtt est old = (case est of None \<Rightarrow> old | Some (_, rtt) \<Rightarrow> if 0 < rtt then rtt else old)"

definition window_rate :: "u32 \<Rightarrow> tx_state \<Rightarrow> tx_state" where
  "window_rate now s =
     (if 1000 \<le> now - s_window_start_ms s
      then s\<lparr>s_send_rate_bps := sint (s_window_bytes s * 8000 div ucast (now - s_window_start_ms s)),
             s_window_bytes := 0, s_window_start_ms := now\<rparr>
      else s)"

definition UpdateRate :: "tx_env \<Rightarrow> tx_state \<Rightarrow> tx_state" where
  "UpdateRate e s =
     (let aimd = next_aimd (s_max_loss_permille s) (s_aimd_bps s)
      in window_rate (e_now e)
           (s\<lparr>s_last_rate_update_ms := e_now e, s_rtt_ms := est_rtt (e_est e) (s_rtt_ms s),
              s_max_loss_permille := 0, s_aimd_bps := aimd, s_target_bps := target_rate (e_est e) aimd\<rparr>))"

text \<open>The refill of the token bucket at a clock reading.\<close>

definition burst_bytes :: "int \<Rightarrow> rat" where
  "burst_bytes target_bps = max (64 * 1024) (of_int target_bps / 8000 * 50)"

definition refill :: "rat \<Rightarrow> tx_state \<Rightarrow> tx_state" where
  "refill now s =
     (let tokens = s_tokens s + (now - s_last_token_ms s) * (of_int (s_target_bps s) / 8000)
      in s\<lparr>s_last_token_ms := now, s_tokens := min tokens (burst_bytes (s_target_bps s))\<rparr>)"

fun wait_loop :: "nat \<Rightarrow> nat \<Rightarrow> tx_state \<Rightarrow> ctl \<times> tx_state" where
  "wait_loop 0 bytes s = (Starved, s)"
| "wait_loop (Suc n) bytes s =
     poll s (\<lambda>e s.
       if s_stop s then (Quit, s)
       else let s1 = (if kRateUpdateMs \<le> e_now e - s_last_rate_update_ms s then UpdateRate e s else s);
                s2 = refill (e_exact e) s1
            in if of_nat bytes \<le> s_tokens s2 then (Go, s2\<lparr>s_tokens := s_tokens s2 - of_nat bytes\<rparr>)
               else wait_loop n bytes s2)"

definition WaitTokens :: "nat \<Rightarrow> tx_state \<Rightarrow> ctl \<times> tx_state" where
  "WaitTokens bytes s = wait_loop (length (s_env s)) bytes s"

fun pause_loop :: "nat \<Rightarrow> tx_state \<Rightarrow> ctl \<times> tx_state" where
  "pause_loop 0 s = (Starved, s)"
| "pause_loop (Suc n) s =
     poll s (\<lambda>e s.
       if s_paused s \<and> \<not> s_stop s then pause_loop n s
       else (if s_stop s then Quit else Go, s\<lparr>s_last_token_ms := e_exact e, s_tokens := 0\<rparr>))"

definition PauseWait :: "tx_state \<Rightarrow> ctl \<times> tx_state" where
  "PauseWait s =
     poll s (\<lambda>e s. if \<not> s_paused s then (if s_stop s then Quit else Go, s)
                    else pause_loop (length (s_env s)) s)"

section \<open>Sending and reading\<close>

definition block_wire :: "FileTx \<Rightarrow> u32 \<Rightarrow> bytes \<Rightarrow> u16 \<Rightarrow> bytes" where
  "block_wire f block payload len =
     (case EncodeBlock \<lparr>bh_flags = (if block + 1 = tf_blocks f then kBlockFlagLast else 0), bh_file_index = tf_index f,
             bh_block_index = block, bh_len = len\<rparr> payload (kBlockHeaderSize + kBlockPayloadSize) of
        None \<Rightarrow> [] | Some w \<Rightarrow> w)"

definition count_sent :: "u16 \<Rightarrow> bool \<Rightarrow> tx_state \<Rightarrow> tx_state" where
  "count_sent len repair s =
     s\<lparr>s_link_down_since_ms := 0, s_bytes_sent := s_bytes_sent s + ucast len,
       s_window_bytes := s_window_bytes s + ucast len,
       s_repairs := (if repair then s_repairs s + 1 else s_repairs s)\<rparr>"

fun send_loop :: "nat \<Rightarrow> bytes \<Rightarrow> u16 \<Rightarrow> bool \<Rightarrow> tx_state \<Rightarrow> ctl \<times> tx_state" where
  "send_loop 0 wire len repair s = (Starved, s)"
| "send_loop (Suc n) wire len repair s =
     poll s (\<lambda>e s.
       if s_stop s then (Quit, s)
       else if e_link e = 0 then (Go, count_sent len repair (tx_emit (TxDatagram wire) s))
       else if e_link e = 1 then send_loop n wire len repair s
       else let since = (if s_link_down_since_ms s = 0 then (if e_now e = 0 then 1 else e_now e)
                         else s_link_down_since_ms s);
                s1 = s\<lparr>s_link_down_since_ms := since\<rparr>
            in if kLinkDownTimeoutMs < e_now e - since
               then (Quit, tx_Fail ''link_down'' ''transport unavailable'' s1)
               else send_loop n wire len repair s1)"

definition SendBlock :: "nat \<Rightarrow> u32 \<Rightarrow> bytes \<Rightarrow> u16 \<Rightarrow> bool \<Rightarrow> tx_state \<Rightarrow> ctl \<times> tx_state" where
  "SendBlock i block payload len repair s =
     send_loop (length (s_env s)) (block_wire (s_tx s ! i) block payload len) len repair s"

definition file_name :: "fspath \<Rightarrow> string" where
  "file_name p = (if p = [] then [] else last p)"

text \<open>Opening the reader on first use; an unchanged size is required.\<close>

definition open_reader :: "nat \<Rightarrow> tx_state \<Rightarrow> ctl \<times> tx_state" where
  "open_reader i s =
     (let f = s_tx s ! i in
      if tf_reader f \<noteq> None then (Go, s)
      else case OpenReader (tf_path f) (s_world s) of
        (Inl err, w) \<Rightarrow>
          (Quit, tx_Fail ''io'' (''open failed: '' @ err)
             (upd_tx i (\<lambda>f. f\<lparr>tf_reader := Some (False, 0)\<rparr>) (s\<lparr>s_world := w\<rparr>)))
      | (Inr n, w) \<Rightarrow>
          let s1 = upd_tx i (\<lambda>f. f\<lparr>tf_reader := Some (True, n)\<rparr>) (s\<lparr>s_world := w\<rparr>) in
          if n \<noteq> tf_size f then (Quit, tx_Fail ''file_changed'' (''file size changed: '' @ file_name (tf_path f)) s1)
          else (Go, s1))"

definition read_want :: "FileTx \<Rightarrow> u32 \<Rightarrow> u32 \<Rightarrow> u64" where
  "read_want f first_block count =
     (let offset = ucast first_block * of_nat kBlockPayloadSize
      in min (ucast count * of_nat kBlockPayloadSize) (tf_size f - min (tf_size f) offset))"

definition ReadBlocks :: "nat \<Rightarrow> u32 \<Rightarrow> u32 \<Rightarrow> tx_state \<Rightarrow> ctl \<times> tx_state" where
  "ReadBlocks i first_block count s =
     seqc (open_reader i s) (\<lambda>s.
       let f = s_tx s ! i;
           offset = ucast first_block * of_nat kBlockPayloadSize :: u64;
           want = read_want f first_block count;
           opened = (case tf_reader f of None \<Rightarrow> False | Some (o', _) \<Rightarrow> o');
           fail = (\<lambda>s. (Quit, tx_Fail ''io'' (''read failed: '' @ file_name (tf_path f)) s))
       in if \<not> opened then fail s
          else case ReadAt (tf_path f) (unat offset) (unat want) (s_world s) of
            (None, w) \<Rightarrow> fail (s\<lparr>s_world := w\<rparr>)
          | (Some got, w) \<Rightarrow>
              if length got \<noteq> unat want then fail (s\<lparr>s_world := w\<rparr>)
              else (Go, s\<lparr>s_world := w, s_buf := got\<rparr>))"

section \<open>Repairs\<close>

definition LastSent :: "FileTx \<Rightarrow> u32 \<Rightarrow> u32 option" where
  "LastSent f block =
     (let k = unat (block div kBucketBlocks) in
      if length (tf_sweep_ms f) \<le> k then None
      else let t = tf_sweep_ms f ! k in
        Some (case map_of (tf_repair_ms f) block of None \<Rightarrow> t | Some r \<Rightarrow> if t < r then r else t))"

definition note_repair :: "nat \<Rightarrow> u32 \<Rightarrow> u32 \<Rightarrow> tx_state \<Rightarrow> tx_state" where
  "note_repair i block now s =
     (upd_tx i (\<lambda>f. f\<lparr>tf_repair_ms := omap_put block now (tf_repair_ms f)\<rparr>) s)\<lparr>s_budget := s_budget s - 1\<rparr>"

fun repair_blocks :: "u32 list \<Rightarrow> nat \<Rightarrow> u32 \<Rightarrow> u32 \<Rightarrow> tx_state \<Rightarrow> ctl \<times> tx_state" where
  "repair_blocks [] i now hold s = (Go, s)"
| "repair_blocks (b # bs) i now hold s =
     (if s_budget s = 0 then (Go, s)
      else poll s (\<lambda>e s.
        if bm_Test (tf_skip (s_tx s ! i)) b then repair_blocks bs i now hold s
        else case LastSent (s_tx s ! i) b of None \<Rightarrow> (Crash, s)
        | Some t \<Rightarrow>
            if t \<noteq> 0 \<and> now - t < hold then repair_blocks bs i now hold s
            else seqc (PauseWait s) (\<lambda>s.
                 seqc (ReadBlocks i b 1 s) (\<lambda>s.
                   let buf = s_buf s; len = BlockLenFor (tf_size (s_tx s ! i)) b in
                   seqc (WaitTokens (unat len) s) (\<lambda>s.
                   seqc (SendBlock i b buf len True s) (\<lambda>s.
                     poll s (\<lambda>e s. repair_blocks bs i now hold (note_repair i b (e_now e) s))))))))"

definition hole_blocks :: "FileTx \<Rightarrow> sack_run \<Rightarrow> u32 list" where
  "hole_blocks f run =
     map of_nat [unat (run_start run) ..< min (unat (run_start run) + unat (run_length run)) (unat (tf_blocks f))]"

fun repair_runs :: "sack_run list \<Rightarrow> nat \<Rightarrow> u32 \<Rightarrow> u32 \<Rightarrow> tx_state \<Rightarrow> ctl \<times> tx_state" where
  "repair_runs [] i now hold s = (Go, s)"
| "repair_runs (run # rest) i now hold s =
     seqc (repair_blocks (hole_blocks (s_tx s ! i) run) i now hold s) (\<lambda>s.
       if s_budget s = 0 then (Go, s) else repair_runs rest i now hold s)"

definition repair_holes :: "FileTx \<Rightarrow> sack_run list" where
  "repair_holes f =
     (let k = tf_sack f; seq = tf_sack_seq f;
          holes = (if 0 < seq then sk_holes k else []);
          frontier = (if 0 < seq then max (sk_frontier k) (sk_ack_base k) else 0)
      in if tf_sweep_done f \<and> frontier < tf_blocks f then holes @ [mk_run frontier (tf_blocks f - frontier)] else holes)"

definition RepairFile :: "nat \<Rightarrow> u32 \<Rightarrow> u32 \<Rightarrow> tx_state \<Rightarrow> ctl \<times> tx_state" where
  "RepairFile i now hold s =
     poll s (\<lambda>e s.
       let f = s_tx s ! i; k = tf_sack f; seq = tf_sack_seq f; holes = repair_holes f in
       if 0 < seq \<and> sk_flags k AND kSackFlagComplete \<noteq> 0 then (Go, s)
       else if holes = [] then (Go, s)
       else repair_runs holes i now hold
              (if 0 < seq
               then upd_tx i (\<lambda>f. f\<lparr>tf_repair_ms := filter (\<lambda>(b, _). sk_ack_base k \<le> b) (tf_repair_ms f)\<rparr>) s
               else s))"

fun repair_files :: "nat list \<Rightarrow> u32 \<Rightarrow> u32 \<Rightarrow> tx_state \<Rightarrow> ctl \<times> tx_state" where
  "repair_files [] now hold s = (Go, s)"
| "repair_files (i # is) now hold s =
     poll s (\<lambda>e s.
       if tf_ok (s_tx s ! i) then repair_files is now hold s
       else let before = s_budget s in
         seqc (RepairFile i now hold s) (\<lambda>s.
           let s1 = (if s_budget s \<noteq> before then s\<lparr>s_did_work := True\<rparr> else s) in
           if s_budget s1 = 0 then (Go, s1) else repair_files is now hold s1))"

definition repair_hold :: "int \<Rightarrow> u32" where
  "repair_hold rtt_ms = max (of_nat kRepairMinHoldMs) (word_of_int (rtt_ms * 3 div 2) + of_nat kSackIntervalMs)"

definition RepairPass :: "tx_state \<Rightarrow> ctl \<times> tx_state" where
  "RepairPass s0 =
     (let s = s0\<lparr>s_did_work := False\<rparr> in
      if s_inflight s = [] then (Go, s)
      else poll s (\<lambda>e s.
        repair_files (s_inflight s) (e_now e) (repair_hold (s_rtt_ms s)) (s\<lparr>s_budget := kMaxRepairsPerPass\<rparr>)))"

fun reap_loop :: "nat list \<Rightarrow> tx_state \<Rightarrow> ctl \<times> tx_state" where
  "reap_loop [] s = (Go, s)"
| "reap_loop (i # is) s =
     poll s (\<lambda>e s.
       if tf_ok (s_tx s ! i)
       then reap_loop is ((upd_tx i (\<lambda>f. f\<lparr>tf_reader := None, tf_repair_ms := []\<rparr>) s)\<lparr>s_inflight := remove1 i (s_inflight s)\<rparr>)
       else reap_loop is s)"

definition ReapInflight :: "tx_state \<Rightarrow> ctl \<times> tx_state" where
  "ReapInflight s = reap_loop (s_inflight s) s"

section \<open>Sweep\<close>

text \<open>\<open>j\<close> counts the blocks of the chunk that starts at block \<open>base\<close> and was read into \<open>buf\<close>.\<close>

definition note_sweep :: "nat \<Rightarrow> u32 \<Rightarrow> tx_state \<Rightarrow> ctl \<times> tx_state" where
  "note_sweep i block s =
     poll s (\<lambda>e s.
       let k = unat (block div kBucketBlocks) in
       if length (tf_sweep_ms (s_tx s ! i)) \<le> k then (Crash, s)
       else let s1 = upd_tx i (\<lambda>f. f\<lparr>tf_sweep_ms := (tf_sweep_ms f)[k := e_now e]\<rparr>) s;
                n = s_since_repair s1 + 1
            in if 64 \<le> n
               then seqc (ReapInflight (s1\<lparr>s_since_repair := 0\<rparr>)) RepairPass
               else (Go, s1\<lparr>s_since_repair := n\<rparr>))"

fun sweep_blocks :: "nat list \<Rightarrow> nat \<Rightarrow> nat \<Rightarrow> bytes \<Rightarrow> tx_state \<Rightarrow> ctl \<times> tx_state" where
  "sweep_blocks [] i base buf s = (Go, s)"
| "sweep_blocks (j # js) i base buf s =
     (let block = of_nat (base + j) :: u32;
          len = BlockLenFor (tf_size (s_tx s ! i)) block;
          payload = drop (j * kBlockPayloadSize) buf
      in poll s (\<lambda>e s.
           seqc (if bm_Test (tf_skip (s_tx s ! i)) block then (Go, s)
                 else seqc (WaitTokens (unat len) s) (SendBlock i block payload len False)) (\<lambda>s.
           seqc (note_sweep i block s) (sweep_blocks js i base buf))))"

function sweep_loop :: "nat \<Rightarrow> nat \<Rightarrow> nat \<Rightarrow> tx_state \<Rightarrow> ctl \<times> tx_state" where
  "sweep_loop i blocks block s =
     (if block < blocks
      then seqc (PauseWait s) (\<lambda>s.
           let n = min kReadChunkBlocks (blocks - block) in
           seqc (ReadBlocks i (of_nat block) (of_nat n) s) (\<lambda>s.
             seqc (sweep_blocks [0..<n] i block (s_buf s) (s\<lparr>s_hashed := s_hashed s @ s_buf s\<rparr>))
               (sweep_loop i blocks (block + n))))
      else (Go, s))"
  by pat_completeness auto
termination
  by (relation "measure (\<lambda>(i, blocks, block, s). blocks - block)") (auto simp: kReadChunkBlocks_def)

declare sweep_loop.simps [simp del]

definition SweepFile :: "(bytes \<Rightarrow> string) \<Rightarrow> nat \<Rightarrow> tx_state \<Rightarrow> ctl \<times> tx_state" where
  "SweepFile sha i s =
     seqc (sweep_loop i (unat (tf_blocks (s_tx s ! i))) 0 (s\<lparr>s_since_repair := 0, s_hashed := []\<rparr>)) (\<lambda>s.
       (Go, upd_tx i (\<lambda>f. f\<lparr>tf_sha256 := sha (s_hashed s), tf_sweep_done := True\<rparr>) s))"

section \<open>Sender thread\<close>

text \<open>Repair until fewer than \<open>limit\<close> files are in flight; a failing pass leaves the loop.\<close>

fun drain_loop :: "nat \<Rightarrow> nat \<Rightarrow> tx_state \<Rightarrow> ctl \<times> tx_state" where
  "drain_loop 0 limit s = (Starved, s)"
| "drain_loop (Suc n) limit s =
     poll s (\<lambda>e s.
       if s_stop s \<or> s_failed s then (Go, s)
       else seqc (ReapInflight s) (\<lambda>s.
         if length (s_inflight s) < limit then (Go, s)
         else let r = RepairPass s in
           if fst r = Quit then (Go, snd r) else seqc r (drain_loop n limit)))"

definition announce :: "nat \<Rightarrow> tx_state \<Rightarrow> tx_state" where
  "announce i s =
     (let f = s_tx s ! i;
          s1 = (if tf_announced f then s
                else tx_emit (TxFileDone (tf_index f) (tf_sha256 f)) (upd_tx i (\<lambda>f. f\<lparr>tf_announced := True\<rparr>) s))
      in s1\<lparr>s_inflight := s_inflight s1 @ [i]\<rparr>)"

definition send_file :: "(bytes \<Rightarrow> string) \<Rightarrow> nat \<Rightarrow> tx_state \<Rightarrow> ctl \<times> tx_state" where
  "send_file sha i s =
     (if tf_blocks (s_tx s ! i) = 0
      then (Go, upd_tx i (\<lambda>f. f\<lparr>tf_sha256 := sha [], tf_sweep_done := True\<rparr>) s)
      else SweepFile sha i s)"

fun run_files :: "(bytes \<Rightarrow> string) \<Rightarrow> nat list \<Rightarrow> tx_state \<Rightarrow> ctl \<times> tx_state" where
  "run_files sha [] s = (Go, s)"
| "run_files sha (i # is) s =
     poll s (\<lambda>e s.
       if s_stop s \<or> s_failed s then (Go, s)
       else if tf_ok (s_tx s ! i) then run_files sha is s
       else let r = send_file sha i (s\<lparr>s_current_file := int (unat (tf_index (s_tx s ! i)))\<rparr>) in
         if fst r = Quit then (Go, snd r)
         else seqc r (\<lambda>s.
           let s1 = announce i s in
           seqc (drain_loop (length (s_env s1)) kMaxInflightFiles s1) (run_files sha is)))"

definition finish_run :: "tx_state \<Rightarrow> ctl \<times> tx_state" where
  "finish_run s =
     poll (s\<lparr>s_tx := map (\<lambda>f. f\<lparr>tf_reader := None\<rparr>) (s_tx s)\<rparr>) (\<lambda>e s.
       if \<not> s_stop s \<and> \<not> s_failed s then (Go, tx_emit TxAllDone (s\<lparr>s_finished := True\<rparr>)) else (Go, s))"

definition tx_Run :: "(bytes \<Rightarrow> string) \<Rightarrow> tx_state \<Rightarrow> ctl \<times> tx_state" where
  "tx_Run sha s =
     poll s (\<lambda>e s.
       seqc (run_files sha [0..<length (s_tx s)]
               (UpdateRate e (s\<lparr>s_last_token_ms := e_exact e, s_window_start_ms := e_now e\<rparr>))) (\<lambda>s.
       let s1 = s\<lparr>s_current_file := - 1\<rparr> in
       seqc (drain_loop (length (s_env s1)) 1 s1) finish_run))"

end
