(* ===== verification/Sender_Steps.thy ===== *)
theory Sender_Steps
  imports Sender
begin

text \<open>
  The sender thread of \<^verbatim>\<open>core/src/transfer/sender.cpp\<close> as a system of primitive steps: every method runs along
  \<open>tx_step\<close>, returns false only when the sender has stopped or failed, and reads only what is on disk.  The
  invariants of the steps (what is fixed, which files are covered, what may be emitted) then hold of the thread in
  every interleaving.
\<close>

section \<open>The sender as a step system\<close>

text \<open>What the sender thread never changes: the identity of its files and the contents of the disk.\<close>

definition fixed :: "tx_state \<Rightarrow> (u16 \<times> u64 \<times> u32 \<times> fspath \<times> nat) list \<times> (fspath \<rightharpoonup> bytes)" where
  "fixed s = (map (\<lambda>f. (tf_index f, tf_size f, tf_blocks f, tf_path f, length (tf_sweep_ms f))) (s_tx s), w_files (s_world s))"

text \<open>
  The primitive steps.  The first is a poll of the lock or the clock: the calls the other threads have made since the last
  one take effect.  \<open>hashing\<close> says whether the input of the file hash may grow, which only the sweep of a file does.
  Changes to the thread's own bookkeeping and to one file's reader and timestamps come first.
\<close>

definition same_core :: "tx_state \<Rightarrow> tx_state \<Rightarrow> bool" where
  "same_core s s' \<longleftrightarrow> s_tx s' = s_tx s \<and> s_inflight s' = s_inflight s \<and> s_stop s' = s_stop s \<and> s_failed s' = s_failed s \<and>
     s_finished s' = s_finished s \<and> s_target_bps s' = s_target_bps s \<and> s_aimd_bps s' = s_aimd_bps s \<and>
     s_bytes_acked s' = s_bytes_acked s \<and> s_files_done s' = s_files_done s \<and> s_out s' = s_out s \<and>
     s_hashed s' = s_hashed s \<and> s_env s' = s_env s \<and> w_files (s_world s') = w_files (s_world s)"

definition same_file :: "FileTx \<Rightarrow> FileTx \<Rightarrow> bool" where
  "same_file f g \<longleftrightarrow> (\<exists>sw rp rd. length sw = length (tf_sweep_ms f) \<and>
     g = f\<lparr>tf_sweep_ms := sw, tf_repair_ms := rp, tf_reader := rd\<rparr>)"

definition disk_bytes :: "nat \<Rightarrow> tx_state \<Rightarrow> bytes" where
  "disk_bytes i s = file_bytes (s_world s) (tf_path (s_tx s ! i))"

inductive tx_step :: "(bytes \<Rightarrow> string) \<Rightarrow> bool \<Rightarrow> tx_state \<Rightarrow> tx_state \<Rightarrow> bool" for sha hashing where
  tx_poll: "s_env s = e # es \<Longrightarrow> tx_step sha hashing s (fold apply_act (e_acts e) (s\<lparr>s_env := es\<rparr>))"
| tx_hashing: "hashing \<Longrightarrow> tx_step sha hashing s (s\<lparr>s_hashed := h\<rparr>)"
| tx_local: "same_core s s' \<Longrightarrow> tx_step sha hashing s s'"
| tx_rate: "tx_step sha hashing s (UpdateRate e s)"
| tx_fail: "tx_step sha hashing s (tx_Fail code message s)"
| tx_private: "i < length (s_tx s) \<Longrightarrow> same_file (s_tx s ! i) (g (s_tx s ! i)) \<Longrightarrow> tx_step sha hashing s (upd_tx i g s)"
| tx_send: "i < length (s_tx s) \<Longrightarrow> block < tf_blocks (s_tx s ! i) \<Longrightarrow> len = BlockLenFor (tf_size (s_tx s ! i)) block \<Longrightarrow>
    unat len \<le> length payload \<Longrightarrow>
    take (unat len) payload = take (unat len) (drop (unat block * 1100) (disk_bytes i s)) \<Longrightarrow>
    tx_step sha hashing s (count_sent len repair (tx_emit (TxDatagram (block_wire (s_tx s ! i) block payload len)) s))"
| tx_reap: "tf_ok (s_tx s ! i) \<Longrightarrow> tx_step sha hashing s (s\<lparr>s_inflight := remove1 i (s_inflight s)\<rparr>)"
| tx_hash: "i < length (s_tx s) \<Longrightarrow> h = sha (take (unat (tf_size (s_tx s ! i))) (disk_bytes i s)) \<Longrightarrow>
    tx_step sha hashing s (upd_tx i (\<lambda>f. f\<lparr>tf_sha256 := h, tf_sweep_done := True\<rparr>) s)"
| tx_announce: "i < length (s_tx s) \<Longrightarrow> tf_sweep_done (s_tx s ! i) \<Longrightarrow> tx_step sha hashing s (announce i s)"
| tx_close: "tx_step sha hashing s (s\<lparr>s_tx := map (\<lambda>f. f\<lparr>tf_reader := None\<rparr>) (s_tx s)\<rparr>)"
| tx_finish: "list_all tf_ok (s_tx s) \<Longrightarrow> tx_step sha hashing s (tx_emit TxAllDone (s\<lparr>s_finished := True\<rparr>))"

inductive_cases tx_stepE: "tx_step sha hashing s s'"

abbreviation tx_steps :: "(bytes \<Rightarrow> string) \<Rightarrow> bool \<Rightarrow> tx_state \<Rightarrow> tx_state \<Rightarrow> bool" where
  "tx_steps sha hashing \<equiv> (tx_step sha hashing)\<^sup>*\<^sup>*"

subsection \<open>What every step keeps\<close>

lemma upd_tx_sel [simp]: "s_tx (upd_tx i g s) = (s_tx s)[i := g (s_tx s ! i)]" "s_inflight (upd_tx i g s) = s_inflight s"
  "s_stop (upd_tx i g s) = s_stop s" "s_failed (upd_tx i g s) = s_failed s" "s_out (upd_tx i g s) = s_out s"
  "s_world (upd_tx i g s) = s_world s" "s_target_bps (upd_tx i g s) = s_target_bps s" "s_aimd_bps (upd_tx i g s) = s_aimd_bps s"
  "s_env (upd_tx i g s) = s_env s" "s_budget (upd_tx i g s) = s_budget s" "s_buf (upd_tx i g s) = s_buf s"
  "s_finished (upd_tx i g s) = s_finished s" "s_bytes_acked (upd_tx i g s) = s_bytes_acked s" "s_hashed (upd_tx i g s) = s_hashed s"
  by (simp_all add: upd_tx_def)

lemma tx_emit_sel [simp]: "s_tx (tx_emit e s) = s_tx s" "s_inflight (tx_emit e s) = s_inflight s"
  "s_stop (tx_emit e s) = s_stop s" "s_failed (tx_emit e s) = s_failed s" "s_out (tx_emit e s) = s_out s @ [e]"
  "s_world (tx_emit e s) = s_world s" "s_target_bps (tx_emit e s) = s_target_bps s" "s_aimd_bps (tx_emit e s) = s_aimd_bps s"
  "s_env (tx_emit e s) = s_env s" "s_finished (tx_emit e s) = s_finished s" "s_bytes_acked (tx_emit e s) = s_bytes_acked s" "s_hashed (tx_emit e s) = s_hashed s"
  by (simp_all add: tx_emit_def)

lemma count_sent_sel [simp]: "s_tx (count_sent n r s) = s_tx s" "s_inflight (count_sent n r s) = s_inflight s"
  "s_stop (count_sent n r s) = s_stop s" "s_failed (count_sent n r s) = s_failed s" "s_out (count_sent n r s) = s_out s"
  "s_world (count_sent n r s) = s_world s" "s_target_bps (count_sent n r s) = s_target_bps s"
  "s_aimd_bps (count_sent n r s) = s_aimd_bps s" "s_env (count_sent n r s) = s_env s" "s_finished (count_sent n r s) = s_finished s" "s_bytes_acked (count_sent n r s) = s_bytes_acked s" "s_hashed (count_sent n r s) = s_hashed s"
  by (simp_all add: count_sent_def)

lemma tx_Fail_sel [simp]: "s_tx (tx_Fail c m s) = s_tx s" "s_inflight (tx_Fail c m s) = s_inflight s"
  "s_stop (tx_Fail c m s) = s_stop s" "s_failed (tx_Fail c m s)" "s_world (tx_Fail c m s) = s_world s"
  "s_target_bps (tx_Fail c m s) = s_target_bps s" "s_aimd_bps (tx_Fail c m s) = s_aimd_bps s"
  "s_out (tx_Fail c m s) = (if s_failed s then s_out s else s_out s @ [TxError c m])"
  "s_env (tx_Fail c m s) = s_env s" "s_finished (tx_Fail c m s) = s_finished s"
  "s_bytes_acked (tx_Fail c m s) = s_bytes_acked s" "s_hashed (tx_Fail c m s) = s_hashed s"
  by (simp_all add: tx_Fail_def)

lemma UpdateRate_sel [simp]: "s_tx (UpdateRate e s) = s_tx s" "s_inflight (UpdateRate e s) = s_inflight s"
  "s_stop (UpdateRate e s) = s_stop s" "s_failed (UpdateRate e s) = s_failed s" "s_out (UpdateRate e s) = s_out s"
  "s_world (UpdateRate e s) = s_world s" "s_env (UpdateRate e s) = s_env s" "s_bytes_acked (UpdateRate e s) = s_bytes_acked s"
  "s_hashed (UpdateRate e s) = s_hashed s" "s_finished (UpdateRate e s) = s_finished s"
  by (simp_all add: UpdateRate_def window_rate_def Let_def)

lemma announce_sel [simp]: "s_inflight (announce i s) = s_inflight s @ [i]"
  "s_tx (announce i s) = (s_tx s)[i := (s_tx s ! i)\<lparr>tf_announced := True\<rparr>]"
  "s_stop (announce i s) = s_stop s" "s_failed (announce i s) = s_failed s" "s_world (announce i s) = s_world s"
  "s_out (announce i s) = s_out s @ (if tf_announced (s_tx s ! i) then [] else [TxFileDone (tf_index (s_tx s ! i)) (tf_sha256 (s_tx s ! i))])"
  "s_target_bps (announce i s) = s_target_bps s" "s_aimd_bps (announce i s) = s_aimd_bps s" "s_bytes_acked (announce i s) = s_bytes_acked s"
  "s_hashed (announce i s) = s_hashed s" "s_env (announce i s) = s_env s" "s_finished (announce i s) = s_finished s"
proof -
  have eq: "f\<lparr>tf_announced := True\<rparr> = f" if "tf_announced f" for f :: FileTx using that by (cases f) simp
  show "s_tx (announce i s) = (s_tx s)[i := (s_tx s ! i)\<lparr>tf_announced := True\<rparr>]"
    by (simp add: announce_def Let_def eq)
qed (simp_all add: announce_def Let_def)

lemmas act_defs = OnSack_def OnFileOk_def OnFileBad_def SetPaused_def tx_Stop_def Let_def

lemma map_upd: "i < length xs \<Longrightarrow> g x = g (xs ! i) \<Longrightarrow> map g (xs[i := x]) = map g xs"
  by (simp add: map_update list_update_same_conv)

lemma fixed_act: "fixed (apply_act a s) = fixed s"
proof (cases a)
  case (ASack data)
  then show ?thesis by (cases "DecodeSack data") (simp_all add: OnSack_def Let_def fixed_def map_upd)
qed (simp_all add: act_defs fixed_def map_upd)

text \<open>What one call keeps, all calls seen at a poll keep.\<close>

lemma fold_act: "(\<And>a s. P s \<Longrightarrow> P (apply_act a s)) \<Longrightarrow> P s \<Longrightarrow> P (fold apply_act as s)"
  by (induction as arbitrary: s) simp_all

lemma fold_act_eq: "(\<And>a s. g (apply_act a s) = g s) \<Longrightarrow> g (fold apply_act as s) = g s"
  by (induction as arbitrary: s) simp_all

lemma fixed_acts: "fixed (fold apply_act as s) = fixed s"
  by (rule fold_act_eq) (rule fixed_act)

lemma tx_step_fixed: "tx_step sha hashing s s' \<Longrightarrow> fixed s' = fixed s"
proof (induction rule: tx_step.induct)
  case (tx_private i s g)
  then show ?case by (auto simp: fixed_def map_upd same_file_def)
next
  case (tx_announce i s)
  then show ?case by (simp add: fixed_def map_upd)
next
  case (tx_hash i s h)
  then show ?case by (simp add: fixed_def map_upd)
next
  case (tx_poll s e es)
  show ?case unfolding fixed_acts by (simp add: fixed_def)
qed (simp_all add: fixed_def same_core_def o_def)

lemma tx_steps_fixed: "tx_steps sha hashing s s' \<Longrightarrow> fixed s' = fixed s"
  by (induction rule: rtranclp_induct) (auto dest: tx_step_fixed)

lemma fixedD:
  assumes "fixed s' = fixed s"
  shows "length (s_tx s') = length (s_tx s)" "w_files (s_world s') = w_files (s_world s)"
    "i < length (s_tx s) \<Longrightarrow> tf_index (s_tx s' ! i) = tf_index (s_tx s ! i) \<and> tf_size (s_tx s' ! i) = tf_size (s_tx s ! i) \<and>
       tf_blocks (s_tx s' ! i) = tf_blocks (s_tx s ! i) \<and> tf_path (s_tx s' ! i) = tf_path (s_tx s ! i) \<and>
       length (tf_sweep_ms (s_tx s' ! i)) = length (tf_sweep_ms (s_tx s ! i)) \<and> disk_bytes i s' = disk_bytes i s"
proof -
  have m: "map (\<lambda>f. (tf_index f, tf_size f, tf_blocks f, tf_path f, length (tf_sweep_ms f))) (s_tx s') =
      map (\<lambda>f. (tf_index f, tf_size f, tf_blocks f, tf_path f, length (tf_sweep_ms f))) (s_tx s)"
    and w: "w_files (s_world s') = w_files (s_world s)" using assms by (simp_all add: fixed_def)
  show l: "length (s_tx s') = length (s_tx s)" using arg_cong[OF m, of length] by simp
  show "w_files (s_world s') = w_files (s_world s)" using w .
  assume "i < length (s_tx s)"
  then show "tf_index (s_tx s' ! i) = tf_index (s_tx s ! i) \<and> tf_size (s_tx s' ! i) = tf_size (s_tx s ! i) \<and>
       tf_blocks (s_tx s' ! i) = tf_blocks (s_tx s ! i) \<and> tf_path (s_tx s' ! i) = tf_path (s_tx s ! i) \<and>
       length (tf_sweep_ms (s_tx s' ! i)) = length (tf_sweep_ms (s_tx s ! i)) \<and> disk_bytes i s' = disk_bytes i s"
    using arg_cong[OF m, of "\<lambda>xs. xs ! i"] l w by (simp add: disk_bytes_def file_bytes_def)
qed


lemma tx_steps_mono: "tx_steps sha False s s' \<Longrightarrow> tx_steps sha hashing s s'"
proof (induction rule: rtranclp_induct)
  case (step y z)
  have "tx_step sha hashing y z" using step.hyps(2)
    by (induction rule: tx_step.induct) (auto intro: tx_step.intros)
  with step.IH show ?case by simp
qed simp

lemma act_sel: "s_hashed (apply_act a s) = s_hashed s" "s_out (apply_act a s) = s_out s"
  "s_inflight (apply_act a s) = s_inflight s" "s_failed (apply_act a s) = s_failed s" "s_stop s \<Longrightarrow> s_stop (apply_act a s)"
  "s_target_bps (apply_act a s) = s_target_bps s" "s_aimd_bps (apply_act a s) = s_aimd_bps s"
  "s_env (apply_act a s) = s_env s" "s_finished (apply_act a s) = s_finished s"
  by (cases a; simp add: act_defs split: option.split)+

lemma acts_sel: "s_hashed (fold apply_act as s) = s_hashed s" "s_out (fold apply_act as s) = s_out s"
  "s_inflight (fold apply_act as s) = s_inflight s" "s_failed (fold apply_act as s) = s_failed s"
  "s_stop s \<Longrightarrow> s_stop (fold apply_act as s)"
  "s_target_bps (fold apply_act as s) = s_target_bps s" "s_aimd_bps (fold apply_act as s) = s_aimd_bps s"
  "s_env (fold apply_act as s) = s_env s" "s_finished (fold apply_act as s) = s_finished s"
  by (induction as arbitrary: s) (simp_all add: act_sel)

lemma tx_steps_hashed: "tx_steps sha False s s' \<Longrightarrow> s_hashed s' = s_hashed s"
proof (induction rule: rtranclp_induct)
  case (step y z)
  have "s_hashed z = s_hashed y" using step.hyps(2)
    by (induction rule: tx_step.induct) (simp_all add: acts_sel same_core_def)
  with step.IH show ?case by simp
qed simp

text \<open>A stopped or failed sender stays so.\<close>

definition ended :: "tx_state \<Rightarrow> bool" where
  "ended s \<longleftrightarrow> s_stop s \<or> s_failed s"

lemma tx_steps_ended: "tx_steps sha hashing s s' \<Longrightarrow> ended s \<Longrightarrow> ended s'"
proof (induction rule: rtranclp_induct)
  case (step y z)
  have "ended y \<Longrightarrow> ended z" using step.hyps(2)
    by (induction rule: tx_step.induct) (auto simp: acts_sel same_core_def ended_def)
  with step show ?case by simp
qed simp

text \<open>A file that the receiver has confirmed stays confirmed, and only confirmed files leave the list in flight.\<close>

definition covered :: "nat \<Rightarrow> tx_state \<Rightarrow> bool" where
  "covered i s \<longleftrightarrow> i < length (s_tx s) \<and> (tf_ok (s_tx s ! i) \<or> i \<in> set (s_inflight s))"

lemma ok_act: "i < length (s_tx s) \<Longrightarrow> tf_ok (s_tx s ! i) \<Longrightarrow> tf_ok (s_tx (apply_act a s) ! i)"
proof (cases a)
  case (ASack data)
  assume "i < length (s_tx s)" "tf_ok (s_tx s ! i)"
  then show ?thesis using ASack by (cases "DecodeSack data") (auto simp: OnSack_def Let_def nth_list_update)
qed (auto simp: act_defs nth_list_update)

lemma ok_acts: "i < length (s_tx s) \<Longrightarrow> tf_ok (s_tx s ! i) \<Longrightarrow> tf_ok (s_tx (fold apply_act as s) ! i)"
  using fold_act[of "\<lambda>s. i < length (s_tx s) \<and> tf_ok (s_tx s ! i)" s as] ok_act fixedD(1)[OF fixed_act] by auto

lemma tx_step_ok: "tx_step sha hashing s s' \<Longrightarrow> i < length (s_tx s) \<Longrightarrow> tf_ok (s_tx s ! i) \<Longrightarrow> tf_ok (s_tx s' ! i)"
proof (induction rule: tx_step.induct)
  case (tx_poll s e es)
  then show ?case using ok_acts[of i "s\<lparr>s_env := es\<rparr>"] by simp
next
  case (tx_private j s g)
  then show ?case by (cases "i = j") (auto simp: same_file_def)
qed (auto simp: same_core_def nth_list_update)

lemma tx_step_covered: "tx_step sha hashing s s' \<Longrightarrow> covered i s \<Longrightarrow> covered i s'"
proof -
  assume st: "tx_step sha hashing s s'" and c: "covered i s"
  have len: "length (s_tx s') = length (s_tx s)" using fixedD(1)[OF tx_step_fixed[OF st]] .
  show ?thesis
  proof (cases "tf_ok (s_tx s ! i)")
    case True
    then show ?thesis using tx_step_ok[OF st _ True] c len by (simp add: covered_def)
  next
    case False
    then have i: "i \<in> set (s_inflight s)" "\<not> tf_ok (s_tx s ! i)" using c by (auto simp: covered_def)
    from st i have "i \<in> set (s_inflight s')"
    proof (induction rule: tx_step.induct)
      case (tx_reap s j)
      then show ?case by (cases "i = j") (auto simp: in_set_remove1)
    qed (auto simp: acts_sel same_core_def)
    then show ?thesis using c len by (simp add: covered_def)
  qed
qed

lemma tx_steps_covered: "tx_steps sha hashing s s' \<Longrightarrow> covered i s \<Longrightarrow> covered i s'"
  by (induction rule: rtranclp_induct) (auto dest: tx_step_covered)

section \<open>The sender thread follows the steps\<close>

text \<open>
  Every method of the thread runs along the steps, returns false only when the sender has stopped or failed, and stays
  inside \<^verbatim>\<open>sweep_ms\<close> when each file has its buckets.
\<close>

definition bucketed :: "tx_state \<Rightarrow> bool" where
  "bucketed s \<longleftrightarrow> list_all (\<lambda>f. unat (tf_blocks f) \<le> 256 * length (tf_sweep_ms f)) (s_tx s)"

definition good :: "(bytes \<Rightarrow> string) \<Rightarrow> bool \<Rightarrow> tx_state \<Rightarrow> ctl \<times> tx_state \<Rightarrow> bool" where
  "good sha hashing s0 r \<longleftrightarrow> tx_steps sha hashing s0 (snd r) \<and> (fst r = Quit \<longrightarrow> ended (snd r)) \<and>
     (bucketed s0 \<longrightarrow> fst r \<noteq> Crash)"

lemma goodI [intro]: "tx_steps sha h s0 s \<Longrightarrow> c \<noteq> Quit \<Longrightarrow> c \<noteq> Crash \<Longrightarrow> good sha h s0 (c, s)"
  by (simp add: good_def)

lemma good_quitI: "tx_steps sha h s0 s \<Longrightarrow> ended s \<Longrightarrow> c \<noteq> Crash \<Longrightarrow> good sha h s0 (c, s)"
  by (simp add: good_def)

lemma steps_step: "tx_steps sha h s0 s \<Longrightarrow> tx_step sha h s s' \<Longrightarrow> tx_steps sha h s0 s'"
  by (rule rtranclp.rtrancl_into_rtrancl)

lemma steps_local: "tx_steps sha h s0 s \<Longrightarrow> same_core s s' \<Longrightarrow> tx_steps sha h s0 s'"
  by (rule steps_step[OF _ tx_local])

lemma steps_poll: "tx_steps sha h s0 s \<Longrightarrow> s_env s = e # es \<Longrightarrow> tx_steps sha h s0 (fold apply_act (e_acts e) (s\<lparr>s_env := es\<rparr>))"
  by (rule steps_step[OF _ tx_poll])

lemma good_poll:
  assumes "tx_steps sha h s0 s" "\<And>e s1. tx_steps sha h s0 s1 \<Longrightarrow> good sha h s0 (k e s1)"
  shows "good sha h s0 (poll s k)"
proof (cases "s_env s")
  case Nil
  then show ?thesis using assms(1) by (auto simp: poll_def)
next
  case (Cons e es)
  then show ?thesis using assms(2)[OF steps_poll[OF assms(1) Cons]] by (simp add: poll_def)
qed

lemma good_seqc:
  assumes "good sha h s0 m" "\<And>s1. m = (Go, s1) \<Longrightarrow> tx_steps sha h s0 s1 \<Longrightarrow> good sha h s0 (k s1)"
  shows "good sha h s0 (seqc m k)"
proof (cases "fst m = Go")
  case True
  then show ?thesis using assms(1) assms(2)[of "snd m"] by (cases m) (simp add: seqc_def good_def)
qed (use assms(1) in \<open>simp add: seqc_def\<close>)

lemma good_steps: "good sha h s0 (c, s) \<Longrightarrow> tx_steps sha h s0 s"
  by (simp add: good_def)

lemma steps_idx: "tx_steps sha h s0 s \<Longrightarrow> i < length (s_tx s0) \<Longrightarrow> i < length (s_tx s)"
  using fixedD(1)[OF tx_steps_fixed] by simp

lemmas steps_file = fixedD(3)[OF tx_steps_fixed]

lemma refill_core: "same_core s (refill t s)"
  by (simp add: refill_def Let_def same_core_def)

lemma good_wait_loop: "tx_steps sha h s0 s \<Longrightarrow> good sha h s0 (wait_loop n bytes s)"
proof (induction n arbitrary: s)
  case (Suc n)
  show ?case unfolding wait_loop.simps
  proof (rule good_poll[OF Suc.prems])
    fix e s1 assume s1: "tx_steps sha h s0 s1"
    let ?s1 = "if kRateUpdateMs \<le> e_now e - s_last_rate_update_ms s1 then UpdateRate e s1 else s1"
    have "tx_steps sha h s0 ?s1" using s1 by (simp add: steps_step[OF s1 tx_rate])
    then have s2: "tx_steps sha h s0 (refill (e_exact e) ?s1)" by (rule steps_local) (rule refill_core)
    have s3: "tx_steps sha h s0 ((refill (e_exact e) ?s1)\<lparr>s_tokens := t\<rparr>)" for t
      by (rule steps_local[OF s2]) (simp add: same_core_def)
    show "good sha h s0 (if s_stop s1 then (Quit, s1)
       else let s1 = ?s1; s2 = refill (e_exact e) s1
            in if of_nat bytes \<le> s_tokens s2 then (Go, s2\<lparr>s_tokens := s_tokens s2 - of_nat bytes\<rparr>) else wait_loop n bytes s2)"
      using s1 s3 Suc.IH[OF s2] by (simp add: Let_def goodI good_quitI ended_def)
  qed
qed auto

lemma good_WaitTokens: "tx_steps sha h s0 s \<Longrightarrow> good sha h s0 (WaitTokens n s)"
  by (simp add: WaitTokens_def good_wait_loop)

lemma good_pause_loop: "tx_steps sha h s0 s \<Longrightarrow> good sha h s0 (pause_loop n s)"
proof (induction n arbitrary: s)
  case (Suc n)
  show ?case unfolding pause_loop.simps
  proof (rule good_poll[OF Suc.prems])
    fix e s1 assume s1: "tx_steps sha h s0 s1"
    have s2: "tx_steps sha h s0 (s1\<lparr>s_last_token_ms := e_exact e, s_tokens := 0\<rparr>)"
      by (rule steps_local[OF s1]) (simp add: same_core_def)
    show "good sha h s0 (if s_paused s1 \<and> \<not> s_stop s1 then pause_loop n s1
       else (if s_stop s1 then Quit else Go, s1\<lparr>s_last_token_ms := e_exact e, s_tokens := 0\<rparr>))"
      using Suc.IH[OF s1] s2 by (auto simp: good_def ended_def)
  qed
qed auto

lemma good_PauseWait: "tx_steps sha h s0 s \<Longrightarrow> good sha h s0 (PauseWait s)"
  unfolding PauseWait_def
  by (erule good_poll) (auto simp: good_pause_loop good_quitI goodI ended_def)

text \<open>What may be sent: the leading bytes of the payload are the block's bytes on disk.\<close>

definition payload_ok :: "tx_state \<Rightarrow> nat \<Rightarrow> u32 \<Rightarrow> bytes \<Rightarrow> bool" where
  "payload_ok s0 i block payload \<longleftrightarrow>
     (let len = unat (BlockLenFor (tf_size (s_tx s0 ! i)) block) in
      block < tf_blocks (s_tx s0 ! i) \<and> len \<le> length payload \<and>
      take len payload = take len (drop (unat block * 1100) (disk_bytes i s0)))"

lemma good_send_loop:
  assumes "i < length (s_tx s0)" "payload_ok s0 i block payload" "len = BlockLenFor (tf_size (s_tx s0 ! i)) block"
    "wire = block_wire f block payload len" "tf_index f = tf_index (s_tx s0 ! i)" "tf_blocks f = tf_blocks (s_tx s0 ! i)"
  shows "tx_steps sha h s0 s \<Longrightarrow> good sha h s0 (send_loop n wire len repair s)"
proof (induction n arbitrary: s)
  case (Suc n)
  show ?case unfolding send_loop.simps
  proof (rule good_poll[OF Suc.prems])
    fix e s1 assume s1: "tx_steps sha h s0 s1"
    have i1: "i < length (s_tx s1)" using steps_idx[OF s1 assms(1)] .
    note same = steps_file[OF s1 assms(1)]
    have w: "wire = block_wire (s_tx s1 ! i) block payload len"
      using assms(4-6) same by (simp add: block_wire_def)
    have "tx_step sha h s1 (count_sent len repair (tx_emit (TxDatagram wire) s1))"
      unfolding w using assms(2,3) same i1 by (intro tx_send) (auto simp: payload_ok_def Let_def)
    then have sent: "tx_steps sha h s0 (count_sent len repair (tx_emit (TxDatagram wire) s1))" by (rule steps_step[OF s1])
    have s2: "tx_steps sha h s0 (s1\<lparr>s_link_down_since_ms := t\<rparr>)" for t by (rule steps_local[OF s1]) (simp add: same_core_def)
    have s3: "good sha h s0 (Quit, tx_Fail a b (s1\<lparr>s_link_down_since_ms := t\<rparr>))" for t a b
      by (rule good_quitI[OF steps_step[OF s2 tx_fail]]) (simp_all add: ended_def)
    show "good sha h s0
       (if s_stop s1 then (Quit, s1)
       else if e_link e = 0 then (Go, count_sent len repair (tx_emit (TxDatagram wire) s1))
       else if e_link e = 1 then send_loop n wire len repair s1
       else let since = (if s_link_down_since_ms s1 = 0 then (if e_now e = 0 then 1 else e_now e) else s_link_down_since_ms s1);
                s1 = s1\<lparr>s_link_down_since_ms := since\<rparr>
            in if kLinkDownTimeoutMs < e_now e - since
               then (Quit, tx_Fail ''link_down'' ''transport unavailable'' s1)
               else send_loop n wire len repair s1)"
      using s1 sent s3 Suc.IH[OF s1] Suc.IH[OF s2] by (simp add: Let_def goodI good_quitI ended_def)
  qed
qed auto

lemma good_SendBlock:
  assumes "tx_steps sha h s0 s" "i < length (s_tx s0)" "payload_ok s0 i block payload"
    "len = BlockLenFor (tf_size (s_tx s0 ! i)) block"
  shows "good sha h s0 (SendBlock i block payload len repair s)"
  unfolding SendBlock_def
  by (rule good_send_loop[OF assms(2-4) refl _ _ assms(1)]) (use steps_file[OF assms(1,2)] in auto)


lemma bucket_index:
  assumes "tx_steps sha h s0 s" "i < length (s_tx s0)" "bucketed s0" "block < tf_blocks (s_tx s0 ! i)"
  shows "unat (block div kBucketBlocks) < length (tf_sweep_ms (s_tx s ! i))"
proof -
  have "unat (tf_blocks (s_tx s0 ! i)) \<le> 256 * length (tf_sweep_ms (s_tx s0 ! i))"
    using assms(2,3) by (simp add: bucketed_def list_all_length)
  then have "unat block < length (tf_sweep_ms (s_tx s0 ! i)) * 256" using assms(4) by (simp add: word_less_nat_alt)
  then have "unat block div 256 < length (tf_sweep_ms (s_tx s0 ! i))" by (simp add: div_less_iff_less_mult)
  then show ?thesis using steps_file[OF assms(1,2)] by (simp add: unat_div kBucketBlocks_def)
qed

lemma steps_private:
  assumes "tx_steps sha h s0 s" "i < length (s_tx s0)" "same_file (s_tx s ! i) (g (s_tx s ! i))"
  shows "tx_steps sha h s0 (upd_tx i g s)"
  by (rule steps_step[OF assms(1) tx_private]) (use assms(3) steps_idx[OF assms(1,2)] in auto)

lemma same_file_reader [simp]: "same_file f (f\<lparr>tf_reader := r\<rparr>)"
  unfolding same_file_def by (rule exI[of _ "tf_sweep_ms f"], rule exI[of _ "tf_repair_ms f"], rule exI[of _ r]) simp

lemma same_file_repair [simp]: "same_file f (f\<lparr>tf_repair_ms := r\<rparr>)"
  unfolding same_file_def by (rule exI[of _ "tf_sweep_ms f"], rule exI[of _ r], rule exI[of _ "tf_reader f"]) simp

lemma same_file_reap [simp]: "same_file f (f\<lparr>tf_reader := a, tf_repair_ms := r\<rparr>)"
  unfolding same_file_def by (rule exI[of _ "tf_sweep_ms f"], rule exI[of _ r], rule exI[of _ a]) simp

lemma same_file_sweep [simp]: "length sw = length (tf_sweep_ms f) \<Longrightarrow> same_file f (f\<lparr>tf_sweep_ms := sw\<rparr>)"
  unfolding same_file_def by (rule exI[of _ sw], rule exI[of _ "tf_repair_ms f"], rule exI[of _ "tf_reader f"]) simp

lemma good_open_reader:
  assumes "tx_steps sha h s0 s" "i < length (s_tx s0)"
  shows "good sha h s0 (open_reader i s)"
proof (cases "tf_reader (s_tx s ! i)")
  case None
  obtain res w where o: "OpenReader (tf_path (s_tx s ! i)) (s_world s) = (res, w)" by fastforce
  have w: "w_files w = w_files (s_world s)" using OpenReader_spec[OF o] by simp
  have s1: "tx_steps sha h s0 (s\<lparr>s_world := w\<rparr>)" by (rule steps_local[OF assms(1)]) (simp add: same_core_def w)
  have s2: "tx_steps sha h s0 (upd_tx i (\<lambda>f. f\<lparr>tf_reader := rd\<rparr>) (s\<lparr>s_world := w\<rparr>))" for rd
    by (rule steps_private[OF s1 assms(2)]) simp
  have s3: "good sha h s0 (Quit, tx_Fail a b (upd_tx i (\<lambda>f. f\<lparr>tf_reader := rd\<rparr>) (s\<lparr>s_world := w\<rparr>)))" for a b rd
    by (rule good_quitI[OF steps_step[OF s2 tx_fail]]) (simp_all add: ended_def)
  show ?thesis
    using None s2 s3 by (cases res) (simp_all add: open_reader_def Let_def o goodI)
next
  case (Some r)
  then show ?thesis using assms(1) by (simp add: open_reader_def Let_def goodI)
qed

lemma good_fail: "tx_steps sha h s0 s \<Longrightarrow> good sha h s0 (Quit, tx_Fail a b s)"
  by (rule good_quitI[OF steps_step[OF _ tx_fail]]) (simp_all add: ended_def)

lemma steps_world: "tx_steps sha h s0 s \<Longrightarrow> w_files w = w_files (s_world s) \<Longrightarrow> tx_steps sha h s0 (s\<lparr>s_world := w, s_buf := b\<rparr>)"
  "tx_steps sha h s0 s \<Longrightarrow> w_files w = w_files (s_world s) \<Longrightarrow> tx_steps sha h s0 (s\<lparr>s_world := w\<rparr>)"
  by (erule steps_local, simp add: same_core_def)+

lemma good_ReadBlocks:
  assumes "tx_steps sha h s0 s" "i < length (s_tx s0)"
  shows "good sha h s0 (ReadBlocks i first count s)"
  unfolding ReadBlocks_def
proof (rule good_seqc[OF good_open_reader[OF assms]])
  fix s1 assume s1: "tx_steps sha h s0 s1"
  obtain got w where r: "ReadAt (tf_path (s_tx s1 ! i)) (unat (ucast first * of_nat kBlockPayloadSize :: u64))
      (unat (read_want (s_tx s1 ! i) first count)) (s_world s1) = (got, w)" by fastforce
  have w: "w_files w = w_files (s_world s1)" using ReadAt_spec[OF r] by simp
  show "good sha h s0
     (let f = s_tx s1 ! i; offset = ucast first * of_nat kBlockPayloadSize :: u64; want = read_want f first count;
           opened = (case tf_reader f of None \<Rightarrow> False | Some (o', _) \<Rightarrow> o');
           fail = (\<lambda>s. (Quit, tx_Fail ''io'' (''read failed: '' @ file_name (tf_path f)) s))
       in if \<not> opened then fail s1
          else case ReadAt (tf_path f) (unat offset) (unat want) (s_world s1) of
            (None, w) \<Rightarrow> fail (s1\<lparr>s_world := w\<rparr>)
          | (Some got, w) \<Rightarrow>
              if length got \<noteq> unat want then fail (s1\<lparr>s_world := w\<rparr>)
              else (Go, s1\<lparr>s_world := w, s_buf := got\<rparr>))"
    using good_fail[OF s1] good_fail[OF steps_world(2)[OF s1 w]] steps_world(1)[OF s1 w]
    by (cases got) (simp_all add: Let_def r goodI)
qed

lemma unat_block_offset: "unat (ucast (b :: u32) * of_nat kBlockPayloadSize :: u64) = unat b * 1100"
proof -
  have "unat (ucast b :: u64) = unat b" by (simp add: unsigned_ucast_eq take_bit_nat_eq_self order_less_trans[OF unat_lt_u32])
  moreover have "unat b * 1100 < 18446744073709551616" using unat_lt_u32[of b] by linarith
  ultimately show ?thesis by (simp add: unat_word_ariths(2) unat_kPayload)
qed

lemma unat_read_want: "unat (read_want f first count) = min (unat count * 1100) (unat (tf_size f) - unat first * 1100)"
proof -
  let ?off = "ucast first * of_nat kBlockPayloadSize :: u64"
  have m: "unat (min a b) = min (unat a) (unat b)" for a b :: u64 by (simp add: min_def word_le_nat_alt)
  have "unat (tf_size f - min (tf_size f) ?off) = unat (tf_size f) - min (unat (tf_size f)) (unat first * 1100)"
    by (subst unat_sub) (simp_all add: m unat_block_offset)
  then show ?thesis unfolding read_want_def Let_def m unat_block_offset by (simp add: min_def)
qed

lemma open_reader_buf: "open_reader i s = (Go, s1) \<Longrightarrow> i < length (s_tx s) \<Longrightarrow> fixed s1 = fixed s"
proof -
  assume a: "open_reader i s = (Go, s1)" and i: "i < length (s_tx s)"
  have "good (\<lambda>_. []) False s (open_reader i s)" by (rule good_open_reader[OF _ i]) simp
  then show ?thesis using a tx_steps_fixed by (metis good_steps)
qed

lemma ReadBlocks_buf:
  assumes "ReadBlocks i first count s = (Go, s1)" "i < length (s_tx s)"
  shows "s_buf s1 = take (min (unat count * 1100) (unat (tf_size (s_tx s ! i)) - unat first * 1100))
           (drop (unat first * 1100) (disk_bytes i s)) \<and>
         length (s_buf s1) = min (unat count * 1100) (unat (tf_size (s_tx s ! i)) - unat first * 1100)"
proof -
  obtain c s2 where o: "open_reader i s = (c, s2)" by fastforce
  have c: "c = Go" using assms(1) o by (auto simp: ReadBlocks_def seqc_def split: if_splits)
  have fx: "fixed s2 = fixed s" using open_reader_buf o c assms(2) by blast
  note same = fixedD(1)[OF fx] fixedD(3)[OF fx, of i]
  obtain got w where r: "ReadAt (tf_path (s_tx s2 ! i)) (unat (ucast first * of_nat kBlockPayloadSize :: u64))
      (unat (read_want (s_tx s2 ! i) first count)) (s_world s2) = (got, w)" by fastforce
  obtain g where g: "got = Some g" "length g = unat (read_want (s_tx s2 ! i) first count)" "s_buf s1 = g"
    using assms(1) o c r by (cases got) (auto simp: ReadBlocks_def seqc_def Let_def split: if_splits)
  have "g = take (unat (read_want (s_tx s2 ! i) first count)) (drop (unat first * 1100) (disk_bytes i s2))"
    using ReadAt_spec[OF r] g(1) by (simp add: unat_block_offset disk_bytes_def)
  then show ?thesis using g same assms(2) by (simp add: unat_read_want)
qed

lemma payload_one:
  assumes "ReadBlocks i b 1 s = (Go, s1)" "tx_steps sha h s0 s" "i < length (s_tx s0)" "b < tf_blocks (s_tx s0 ! i)"
  shows "payload_ok s0 i b (s_buf s1)"
proof -
  let ?n = "min 1100 (unat (tf_size (s_tx s0 ! i)) - unat b * 1100)"
  have buf: "s_buf s1 = take ?n (drop (unat b * 1100) (disk_bytes i s0))" and len: "length (s_buf s1) = ?n"
    using conjunct1[OF ReadBlocks_buf[OF assms(1) steps_idx[OF assms(2,3)]]]
      conjunct2[OF ReadBlocks_buf[OF assms(1) steps_idx[OF assms(2,3)]]] steps_file[OF assms(2,3)] by (simp_all only: unsigned_1 mult_1)
  have "take ?n (s_buf s1) = take ?n (drop (unat b * 1100) (disk_bytes i s0))" unfolding buf by simp
  then show ?thesis unfolding payload_ok_def Let_def unat_BlockLenFor using len assms(4) by simp
qed

lemma good_repair_blocks:
  assumes "i < length (s_tx s0)"
  shows "tx_steps sha h s0 s \<Longrightarrow> list_all (\<lambda>b. b < tf_blocks (s_tx s0 ! i)) bs \<Longrightarrow> good sha h s0 (repair_blocks bs i now hold s)"
proof (induction bs arbitrary: s)
  case (Cons b bs)
  have all: "list_all (\<lambda>b. b < tf_blocks (s_tx s0 ! i)) bs" "b < tf_blocks (s_tx s0 ! i)" using Cons.prems(2) by auto
  have send: "good sha h s0 (seqc (PauseWait s) (\<lambda>s.
                 seqc (ReadBlocks i b 1 s) (\<lambda>s.
                   let buf = s_buf s; len = BlockLenFor (tf_size (s_tx s ! i)) b in
                   seqc (WaitTokens (unat len) s) (\<lambda>s.
                   seqc (SendBlock i b buf len True s) (\<lambda>s.
                     poll s (\<lambda>e s. repair_blocks bs i now hold (note_repair i b (e_now e) s)))))))"
    if "tx_steps sha h s0 s" for s
  proof (rule good_seqc[OF good_PauseWait[OF that]])
    fix s1 assume s1: "tx_steps sha h s0 s1"
    show "good sha h s0 (seqc (ReadBlocks i b 1 s1) (\<lambda>s.
                   let buf = s_buf s; len = BlockLenFor (tf_size (s_tx s ! i)) b in
                   seqc (WaitTokens (unat len) s) (\<lambda>s.
                   seqc (SendBlock i b buf len True s) (\<lambda>s.
                     poll s (\<lambda>e s. repair_blocks bs i now hold (note_repair i b (e_now e) s))))))"
    proof (rule good_seqc[OF good_ReadBlocks[OF s1 assms]])
      fix s2 assume r: "ReadBlocks i b 1 s1 = (Go, s2)" and s2: "tx_steps sha h s0 s2"
      have p: "payload_ok s0 i b (s_buf s2)" by (rule payload_one[OF r s1 assms all(2)])
      have sz: "tf_size (s_tx s2 ! i) = tf_size (s_tx s0 ! i)" using steps_file[OF s2 assms] by simp
      have last: "good sha h s0 (poll s3 (\<lambda>e s. repair_blocks bs i now hold (note_repair i b (e_now e) s)))"
        if "tx_steps sha h s0 s3" for s3
      proof (rule good_poll[OF that])
        fix e s4 assume s4: "tx_steps sha h s0 s4"
        have "tx_steps sha h s0 (note_repair i b (e_now e) s4)"
          unfolding note_repair_def
          by (rule steps_local[OF steps_private[OF s4 assms, of "\<lambda>f. f\<lparr>tf_repair_ms := omap_put b (e_now e) (tf_repair_ms f)\<rparr>"]])
             (simp_all add: same_core_def)
        then show "good sha h s0 (repair_blocks bs i now hold (note_repair i b (e_now e) s4))" using Cons.IH all(1) by blast
      qed
      show "good sha h s0 (let buf = s_buf s2; len = BlockLenFor (tf_size (s_tx s2 ! i)) b in
                   seqc (WaitTokens (unat len) s2) (\<lambda>s.
                   seqc (SendBlock i b buf len True s) (\<lambda>s.
                     poll s (\<lambda>e s. repair_blocks bs i now hold (note_repair i b (e_now e) s)))))"
        unfolding Let_def sz
        by (intro good_seqc good_WaitTokens good_SendBlock last s2 assms p refl)
    qed
  qed
  show ?case
  proof (cases "s_budget s = 0")
    case False
    have body: "good sha h s0 (if bm_Test (tf_skip (s_tx s1 ! i)) b then repair_blocks bs i now hold s1
        else case LastSent (s_tx s1 ! i) b of None \<Rightarrow> (Crash, s1)
        | Some t \<Rightarrow>
            if t \<noteq> 0 \<and> now - t < hold then repair_blocks bs i now hold s1
            else seqc (PauseWait s1) (\<lambda>s.
                 seqc (ReadBlocks i b 1 s) (\<lambda>s.
                   let buf = s_buf s; len = BlockLenFor (tf_size (s_tx s ! i)) b in
                   seqc (WaitTokens (unat len) s) (\<lambda>s.
                   seqc (SendBlock i b buf len True s) (\<lambda>s.
                     poll s (\<lambda>e s. repair_blocks bs i now hold (note_repair i b (e_now e) s)))))))"
      if "tx_steps sha h s0 s1" for s1
    proof (cases "LastSent (s_tx s1 ! i) b")
      case None
      then have "\<not> bucketed s0" using bucket_index[OF that assms _ all(2)] by (auto simp: LastSent_def Let_def split: if_splits)
      then show ?thesis using None Cons.IH[OF that all(1)] that by (simp add: good_def)
    qed (use Cons.IH[OF that all(1)] send[OF that] in simp)
    show ?thesis unfolding repair_blocks.simps(2) if_not_P[OF False]
      by (rule good_poll[OF Cons.prems(1)]) (rule body)
  qed (use Cons.prems(1) in \<open>simp add: goodI\<close>)
qed auto

lemma hole_blocks_below: "list_all (\<lambda>b. b < tf_blocks f) (hole_blocks f r)"
proof -
  have "of_nat n < tf_blocks f" if "n < unat (tf_blocks f)" for n
  proof -
    have "n < 4294967296" using that unat_lt_u32[of "tf_blocks f"] by linarith
    then show ?thesis using that by (simp add: word_less_nat_alt unat_of_nat_u32)
  qed
  then show ?thesis by (auto simp: hole_blocks_def list_all_iff)
qed

lemma good_repair_runs:
  assumes "i < length (s_tx s0)"
  shows "tx_steps sha h s0 s \<Longrightarrow> good sha h s0 (repair_runs rs i now hold s)"
proof (induction rs arbitrary: s)
  case (Cons r rs)
  have "list_all (\<lambda>b. b < tf_blocks (s_tx s0 ! i)) (hole_blocks (s_tx s ! i) r)"
    using hole_blocks_below[of "s_tx s ! i" r] steps_file[OF Cons.prems assms] by simp
  from good_repair_blocks[OF assms Cons.prems this] show ?case
    unfolding repair_runs.simps by (rule good_seqc) (auto simp: Cons.IH goodI)
qed auto

lemma good_RepairFile:
  assumes "tx_steps sha h s0 s" "i < length (s_tx s0)"
  shows "good sha h s0 (RepairFile i now hold s)"
  unfolding RepairFile_def
proof (rule good_poll[OF assms(1)])
  fix e s1 assume s1: "tx_steps sha h s0 s1"
  have s2: "tx_steps sha h s0 (upd_tx i (\<lambda>f. f\<lparr>tf_repair_ms := filter (\<lambda>(b, _). a \<le> b) (tf_repair_ms f)\<rparr>) s1)" for a
    by (rule steps_private[OF s1 assms(2)]) simp
  show "good sha h s0 (let f = s_tx s1 ! i; k = tf_sack f; seq = tf_sack_seq f; holes = repair_holes f in
       if 0 < seq \<and> sk_flags k AND kSackFlagComplete \<noteq> 0 then (Go, s1)
       else if holes = [] then (Go, s1)
       else repair_runs holes i now hold
              (if 0 < seq
               then upd_tx i (\<lambda>f. f\<lparr>tf_repair_ms := filter (\<lambda>(b, _). sk_ack_base k \<le> b) (tf_repair_ms f)\<rparr>) s1
               else s1))"
    using goodI[OF s1, of Go] good_repair_runs[OF assms(2) s1] good_repair_runs[OF assms(2) s2] by (simp add: Let_def)
qed

text \<open>The files in flight are files of the transfer.\<close>

definition inflight_ok :: "tx_state \<Rightarrow> bool" where
  "inflight_ok s \<longleftrightarrow> set (s_inflight s) \<subseteq> {..<length (s_tx s)}"

lemma tx_step_inflight: "tx_step sha h s s' \<Longrightarrow> inflight_ok s \<Longrightarrow> inflight_ok s'"
proof -
  assume st: "tx_step sha h s s'" and ok: "inflight_ok s"
  have len: "length (s_tx s') = length (s_tx s)" using fixedD(1)[OF tx_step_fixed[OF st]] .
  from st ok have "set (s_inflight s') \<subseteq> {..<length (s_tx s)}"
    by (induction rule: tx_step.induct) (auto simp: acts_sel same_core_def inflight_ok_def dest: notin_set_remove1 set_mp[OF set_remove1_subset])
  then show ?thesis using len by (simp add: inflight_ok_def)
qed

lemma tx_steps_inflight: "tx_steps sha h s s' \<Longrightarrow> inflight_ok s \<Longrightarrow> inflight_ok s'"
  by (induction rule: rtranclp_induct) (auto dest: tx_step_inflight)

lemma inflight_range: "tx_steps sha h s0 s \<Longrightarrow> inflight_ok s0 \<Longrightarrow> list_all (\<lambda>i. i < length (s_tx s0)) (s_inflight s)"
  using tx_steps_inflight[of sha h s0 s] fixedD(1)[OF tx_steps_fixed, of sha h s0 s]
  by (auto simp: inflight_ok_def list_all_iff)

lemma good_repair_files: "tx_steps sha h s0 s \<Longrightarrow> list_all (\<lambda>i. i < length (s_tx s0)) is \<Longrightarrow> good sha h s0 (repair_files is now hold s)"
proof (induction "is" arbitrary: s)
  case (Cons i "is")
  then have i: "i < length (s_tx s0)" "list_all (\<lambda>i. i < length (s_tx s0)) is" by auto
  show ?case unfolding repair_files.simps
  proof (rule good_poll[OF Cons.prems(1)])
    fix e s1 assume s1: "tx_steps sha h s0 s1"
    have rest: "good sha h s0 (let s1 = (if s_budget s2 \<noteq> before then s2\<lparr>s_did_work := True\<rparr> else s2) in
           if s_budget s1 = 0 then (Go, s1) else repair_files is now hold s1)" if s2: "tx_steps sha h s0 s2" for s2 before
    proof -
      have "tx_steps sha h s0 (s2\<lparr>s_did_work := True\<rparr>)" by (rule steps_local[OF s2]) (simp add: same_core_def)
      then show ?thesis using Cons.IH i(2) s2 by (simp add: Let_def goodI)
    qed
    have "good sha h s0 (seqc (RepairFile i now hold s1) (\<lambda>s.
           let s1 = (if s_budget s \<noteq> before then s\<lparr>s_did_work := True\<rparr> else s) in
           if s_budget s1 = 0 then (Go, s1) else repair_files is now hold s1))" for before
      by (rule good_seqc[OF good_RepairFile[OF s1 i(1)]]) (rule rest)
    then show "good sha h s0 (if tf_ok (s_tx s1 ! i) then repair_files is now hold s1
       else let before = s_budget s1 in
         seqc (RepairFile i now hold s1) (\<lambda>s.
           let s1 = (if s_budget s \<noteq> before then s\<lparr>s_did_work := True\<rparr> else s) in
           if s_budget s1 = 0 then (Go, s1) else repair_files is now hold s1))"
      using Cons.IH[OF s1 i(2)] by (simp add: Let_def)
  qed
qed auto

lemma good_RepairPass:
  assumes "tx_steps sha h s0 s" "inflight_ok s0"
  shows "good sha h s0 (RepairPass s)"
proof -
  have s1: "tx_steps sha h s0 (s\<lparr>s_did_work := False\<rparr>)" by (rule steps_local[OF assms(1)]) (simp add: same_core_def)
  have "good sha h s0 (poll (s\<lparr>s_did_work := False\<rparr>) (\<lambda>e s. repair_files (s_inflight s) (e_now e) (repair_hold (s_rtt_ms s)) (s\<lparr>s_budget := kMaxRepairsPerPass\<rparr>)))"
  proof (rule good_poll[OF s1])
    fix e s2 assume s2: "tx_steps sha h s0 s2"
    have "tx_steps sha h s0 (s2\<lparr>s_budget := kMaxRepairsPerPass\<rparr>)" by (rule steps_local[OF s2]) (simp add: same_core_def)
    then show "good sha h s0 (repair_files (s_inflight s2) (e_now e) (repair_hold (s_rtt_ms s2)) (s2\<lparr>s_budget := kMaxRepairsPerPass\<rparr>))"
      by (rule good_repair_files[OF _ inflight_range[OF s2 assms(2)]])
  qed
  then show ?thesis using s1 by (simp add: RepairPass_def Let_def goodI)
qed

lemma good_reap_loop: "tx_steps sha h s0 s \<Longrightarrow> list_all (\<lambda>i. i < length (s_tx s0)) is \<Longrightarrow> good sha h s0 (reap_loop is s)"
proof (induction "is" arbitrary: s)
  case (Cons i "is")
  then have i: "i < length (s_tx s0)" "list_all (\<lambda>i. i < length (s_tx s0)) is" by auto
  show ?case unfolding reap_loop.simps
  proof (rule good_poll[OF Cons.prems(1)])
    fix e s1 assume s1: "tx_steps sha h s0 s1"
    let ?s2 = "upd_tx i (\<lambda>f. f\<lparr>tf_reader := None, tf_repair_ms := []\<rparr>) s1"
    have s2: "tx_steps sha h s0 ?s2" by (rule steps_private[OF s1 i(1)]) simp
    have s3: "tx_steps sha h s0 (?s2\<lparr>s_inflight := remove1 i (s_inflight s1)\<rparr>)" if "tf_ok (s_tx s1 ! i)"
      using steps_step[OF s2 tx_reap[of ?s2 i]] that steps_idx[OF s1 i(1)] by simp
    show "good sha h s0 (if tf_ok (s_tx s1 ! i) then reap_loop is (?s2\<lparr>s_inflight := remove1 i (s_inflight s1)\<rparr>) else reap_loop is s1)"
      using Cons.IH[OF s3 i(2)] Cons.IH[OF s1 i(2)] by simp
  qed
qed auto

lemma good_ReapInflight: "tx_steps sha h s0 s \<Longrightarrow> inflight_ok s0 \<Longrightarrow> good sha h s0 (ReapInflight s)"
  unfolding ReapInflight_def by (rule good_reap_loop[OF _ inflight_range])

lemma good_note_sweep:
  assumes "tx_steps sha h s0 s" "i < length (s_tx s0)" "inflight_ok s0" "block < tf_blocks (s_tx s0 ! i)"
  shows "good sha h s0 (note_sweep i block s)"
  unfolding note_sweep_def
proof (rule good_poll[OF assms(1)])
  fix e s1 assume s1: "tx_steps sha h s0 s1"
  let ?k = "unat (block div kBucketBlocks)"
  let ?s2 = "upd_tx i (\<lambda>f. f\<lparr>tf_sweep_ms := (tf_sweep_ms f)[?k := e_now e]\<rparr>) s1"
  have "tx_steps sha h s0 ?s2" by (rule steps_private[OF s1 assms(2)]) simp
  then have s3: "tx_steps sha h s0 (?s2\<lparr>s_since_repair := n\<rparr>)" for n by (rule steps_local) (simp add: same_core_def)
  have crash: "good sha h s0 (Crash, s1)" if "length (tf_sweep_ms (s_tx s1 ! i)) \<le> ?k"
    using that s1 bucket_index[OF s1 assms(2) _ assms(4)] by (auto simp: good_def)
  show "good sha h s0 (let k = ?k in
       if length (tf_sweep_ms (s_tx s1 ! i)) \<le> k then (Crash, s1)
       else let s1 = upd_tx i (\<lambda>f. f\<lparr>tf_sweep_ms := (tf_sweep_ms f)[k := e_now e]\<rparr>) s1;
                n = s_since_repair s1 + 1
            in if 64 \<le> n then seqc (ReapInflight (s1\<lparr>s_since_repair := 0\<rparr>)) RepairPass
               else (Go, s1\<lparr>s_since_repair := n\<rparr>))"
    using crash s3 good_seqc[OF good_ReapInflight[OF s3 assms(3)] good_RepairPass[OF _ assms(3)]]
    by (simp add: Let_def goodI)
qed

lemma min_chunk: "min c (z - (a + j)) \<le> min b (z - a) - j" if "j + c \<le> b" for a b c j z :: nat
  using that by linarith

lemma min_extend: "min a z + min b (z - a) = min (a + b) z" if "a \<le> z" for a b z :: nat
  using that by linarith

definition chunk_ok :: "tx_state \<Rightarrow> nat \<Rightarrow> nat \<Rightarrow> nat \<Rightarrow> bytes \<Rightarrow> bool" where
  "chunk_ok s0 i base n buf \<longleftrightarrow>
     (let want = min (n * 1100) (unat (tf_size (s_tx s0 ! i)) - base * 1100) in
      buf = take want (drop (base * 1100) (disk_bytes i s0)) \<and> length buf = want)"

lemma chunk_payload:
  assumes "chunk_ok s0 i base n buf" "j < n" "base + n \<le> unat (tf_blocks (s_tx s0 ! i))"
  shows "payload_ok s0 i (of_nat (base + j)) (drop (j * 1100) buf)"
proof -
  let ?sz = "unat (tf_size (s_tx s0 ! i))" and ?d = "disk_bytes i s0"
  have lt: "base + j < unat (tf_blocks (s_tx s0 ! i))" using assms(2,3) by simp
  have u: "unat (of_nat (base + j) :: u32) = base + j"
    using lt unat_lt_u32[of "tf_blocks (s_tx s0 ! i)"] by (intro unat_of_nat_u32) linarith
  let ?want = "min (n * 1100) (?sz - base * 1100)" and ?len = "min 1100 (?sz - (base + j) * 1100)"
  have buf: "buf = take ?want (drop (base * 1100) ?d)" "length buf = ?want"
    using assms(1) unfolding chunk_ok_def Let_def by blast+
  have "j * 1100 + 1100 \<le> n * 1100" using assms(2) by simp
  from min_chunk[OF this, of ?sz "base * 1100"] have le: "?len \<le> ?want - j * 1100" by (simp add: add_mult_distrib)
  have "take ?len (drop (j * 1100) buf) = take ?len (drop ((base + j) * 1100) ?d)"
    unfolding buf(1) using le by (simp add: drop_take min_absorb1 algebra_simps)
  moreover have "?len \<le> length (drop (j * 1100) buf)" using le buf(2) by simp
  ultimately show ?thesis unfolding payload_ok_def Let_def unat_BlockLenFor u
    using lt u by (simp add: word_less_nat_alt)
qed

lemma good_sweep_blocks:
  assumes "i < length (s_tx s0)" "inflight_ok s0" "chunk_ok s0 i base n buf" "base + n \<le> unat (tf_blocks (s_tx s0 ! i))"
  shows "tx_steps sha h s0 s \<Longrightarrow> list_all (\<lambda>j. j < n) js \<Longrightarrow> good sha h s0 (sweep_blocks js i base buf s)"
proof (induction js arbitrary: s)
  case (Cons j js)
  let ?b = "of_nat (base + j) :: u32"
  have j: "j < n" "list_all (\<lambda>j. j < n) js" using Cons.prems(2) by auto
  have p: "payload_ok s0 i ?b (drop (j * 1100) buf)" by (rule chunk_payload[OF assms(3) j(1) assms(4)])
  have b: "?b < tf_blocks (s_tx s0 ! i)" using p by (simp add: payload_ok_def Let_def)
  have sz: "tf_size (s_tx s ! i) = tf_size (s_tx s0 ! i)" using steps_file[OF Cons.prems(1) assms(1)] by simp
  let ?len = "BlockLenFor (tf_size (s_tx s0 ! i)) ?b"
  have send: "good sha h s0 (if bm_Test (tf_skip (s_tx s1 ! i)) ?b then (Go, s1)
      else seqc (WaitTokens (unat ?len) s1) (SendBlock i ?b (drop (j * 1100) buf) ?len False))"
    if s1: "tx_steps sha h s0 s1" for s1
    using s1 good_seqc[OF good_WaitTokens[OF s1] good_SendBlock[OF _ assms(1) p refl]] by (simp add: goodI)
  show ?case unfolding sweep_blocks.simps Let_def kBlockPayloadSize_def sz
    by (intro good_poll[OF Cons.prems(1)] good_seqc[OF send] good_seqc[OF good_note_sweep] Cons.IH j b assms)
qed auto


lemma ReadBlocks_chunk:
  assumes "ReadBlocks i (of_nat base) (of_nat n) s = (Go, s1)" "tx_steps sha h s0 s" "i < length (s_tx s0)"
    "base + n < 4294967296"
  shows "chunk_ok s0 i base n (s_buf s1)"
proof -
  have u: "unat (of_nat base :: u32) = base" "unat (of_nat n :: u32) = n" using assms(4) by (auto intro: unat_of_nat_u32)
  have same: "tf_size (s_tx s ! i) = tf_size (s_tx s0 ! i)" "disk_bytes i s = disk_bytes i s0"
    using steps_file[OF assms(2,3)] by simp_all
  show ?thesis using ReadBlocks_buf[OF assms(1) steps_idx[OF assms(2,3)]] unfolding u same chunk_ok_def Let_def .
qed

text \<open>The hash input after the blocks below \<open>block\<close>.\<close>

definition hashed_upto :: "tx_state \<Rightarrow> nat \<Rightarrow> nat \<Rightarrow> bytes \<Rightarrow> bool" where
  "hashed_upto s0 i block h \<longleftrightarrow> h = take (min (block * 1100) (unat (tf_size (s_tx s0 ! i)))) (disk_bytes i s0)"

lemma hashed_chunk:
  assumes "hashed_upto s0 i base h" "chunk_ok s0 i base n buf"
  shows "hashed_upto s0 i (base + n) (h @ buf)"
proof -
  let ?sz = "unat (tf_size (s_tx s0 ! i))" and ?d = "disk_bytes i s0"
  let ?want = "min (n * 1100) (?sz - base * 1100)"
  have buf: "buf = take ?want (drop (base * 1100) ?d)" using assms(2) unfolding chunk_ok_def Let_def by blast
  show ?thesis
  proof (cases "base * 1100 \<le> ?sz")
    case True
    then have "min (base * 1100) ?sz + ?want = min ((base + n) * 1100) ?sz" using min_extend by (simp add: add_mult_distrib)
    moreover have "h @ buf = take (base * 1100 + ?want) ?d" using assms(1) True
      by (simp add: hashed_upto_def buf take_add min_absorb1)
    ultimately show ?thesis using True by (simp add: hashed_upto_def min_absorb1)
  next
    case False
    then show ?thesis using assms(1) by (simp add: hashed_upto_def buf min_absorb2)
  qed
qed

lemma tx_steps_trans: "tx_steps sha False s0 s \<Longrightarrow> tx_steps sha h s1 s0 \<Longrightarrow> tx_steps sha h s1 s"
  using tx_steps_mono by (metis rtranclp_trans)

lemma bucketed_steps: "tx_steps sha h s0 s \<Longrightarrow> bucketed s = bucketed s0"
  using fixedD(1)[OF tx_steps_fixed, of sha h s0 s] steps_file[of sha h s0 s] by (auto simp: bucketed_def list_all_length)

lemma good_inner: "good sha False s r \<Longrightarrow> tx_steps sha h s0 s \<Longrightarrow> good sha h s0 r"
  unfolding good_def using tx_steps_trans bucketed_steps by blast

lemma good_hashed: "good sha False s (c, s1) \<Longrightarrow> s_hashed s1 = s_hashed s"
  unfolding good_def using tx_steps_hashed by (metis snd_conv)

lemma chunk_ok_cong: "tx_steps sha h s0 s \<Longrightarrow> i < length (s_tx s0) \<Longrightarrow> chunk_ok s i = chunk_ok s0 i"
  using steps_file[of sha h s0 s i] by (simp add: fun_eq_iff chunk_ok_def)

lemma good_sweep_loop:
  assumes "i < length (s_tx s0)" "inflight_ok s0" "blocks = unat (tf_blocks (s_tx s0 ! i))"
  shows "tx_steps sha True s0 s \<Longrightarrow>
    good sha True s0 (sweep_loop i blocks block s) \<and>
    (\<forall>s1. hashed_upto s0 i block (s_hashed s) \<longrightarrow> sweep_loop i blocks block s = (Go, s1) \<longrightarrow>
       (\<exists>b. blocks \<le> b \<and> hashed_upto s0 i b (s_hashed s1)))"
    (is "_ \<Longrightarrow> ?P block s (sweep_loop i blocks block s)")
proof (induction "blocks - block" arbitrary: block s rule: less_induct)
  case less
  show ?case
  proof (cases "block < blocks")
    case False
    then have eq: "sweep_loop i blocks block s = (Go, s)" by (simp add: sweep_loop.simps)
    have "blocks \<le> block" using False by simp
    then show ?thesis unfolding eq using goodI[OF less.prems, of Go] by auto
  next
    case True
    let ?n = "min kReadChunkBlocks (blocks - block)"
    have n: "0 < ?n" "block + ?n \<le> blocks" using True by (auto simp: kReadChunkBlocks_def)
    have small: "block + ?n < 4294967296" using n(2) assms(3) unat_lt_u32[of "tf_blocks (s_tx s0 ! i)"] by linarith
    have i: "i < length (s_tx s)" using steps_idx[OF less.prems assms(1)] .
    have inf: "inflight_ok s" using tx_steps_inflight[OF less.prems assms(2)] .
    obtain c1 s1 where p: "PauseWait s = (c1, s1)" by fastforce
    have g1: "good sha False s (c1, s1)" using good_PauseWait[of sha False s s] p by simp
    obtain c2 s2 where r: "ReadBlocks i (of_nat block) (of_nat ?n) s1 = (c2, s2)" by fastforce
    have g2: "good sha False s (c2, s2)" using good_ReadBlocks[OF good_steps[OF g1] i] r by metis
    let ?s3 = "s2\<lparr>s_hashed := s_hashed s2 @ s_buf s2\<rparr>"
    obtain c4 s4 where w: "sweep_blocks [0..<?n] i block (s_buf s2) ?s3 = (c4, s4)" by fastforce
    have eq: "sweep_loop i blocks block s =
      (if c1 \<noteq> Go then (c1, s1) else if c2 \<noteq> Go then (c2, s2) else if c4 \<noteq> Go then (c4, s4) else sweep_loop i blocks (block + ?n) s4)"
      using True by (subst sweep_loop.simps) (simp add: seqc_def p r w)
    have s2: "tx_steps sha True s0 s2" using tx_steps_trans[OF good_steps[OF g2] less.prems] .
    have s3: "tx_steps sha True s0 ?s3" by (rule steps_step[OF s2 tx_hashing]) simp
    have ok: "chunk_ok s0 i block ?n (s_buf s2)" if "c2 = Go"
      using ReadBlocks_chunk[OF _ good_steps[OF g1] i small] r that chunk_ok_cong[OF less.prems assms(1)] by simp
    have hs: "hashed_upto s0 i block (s_hashed s) \<Longrightarrow> hashed_upto s0 i (block + ?n) (s_hashed ?s3)" if "c2 = Go"
      using hashed_chunk[OF _ ok[OF that], of "s_hashed s"] good_hashed[OF g2] by simp
    have i3: "i < length (s_tx ?s3)" "inflight_ok ?s3" "block + ?n \<le> unat (tf_blocks (s_tx ?s3 ! i))"
      "chunk_ok ?s3 i = chunk_ok s0 i"
      using steps_idx[OF s3 assms(1)] tx_steps_inflight[OF s3 assms(2)] steps_file[OF s3 assms(1)] n(2) assms(3)
        chunk_ok_cong[OF s3 assms(1)] by simp_all
    have g4: "good sha False ?s3 (c4, s4)" if "c2 = Go"
      using good_sweep_blocks[OF i3(1,2) _ i3(3), of "s_buf s2" sha False ?s3 "[0..<?n]"] w i3(4) ok[OF that]
      by (simp add: list_all_iff)
    have s4: "tx_steps sha True s0 s4" "hashed_upto s0 i block (s_hashed s) \<Longrightarrow> hashed_upto s0 i (block + ?n) (s_hashed s4)" if "c2 = Go"
      using tx_steps_trans[OF good_steps[OF g4[OF that]] s3] hs[OF that] good_hashed[OF g4[OF that]] by simp_all
    have rec: "?P (block + ?n) s4 (sweep_loop i blocks (block + ?n) s4)" if "c2 = Go"
      by (rule less.hyps[OF _ s4(1)[OF that]]) (use n True in linarith)
    show ?thesis
    proof (cases "c1 = Go \<and> c2 = Go \<and> c4 = Go")
      case True
      then show ?thesis using rec s4(2) unfolding eq by simp
    next
      case no: False
      show ?thesis unfolding eq
        using no good_inner[OF g1 less.prems] good_inner[OF g2 less.prems] good_inner[OF g4 s3]
        by (cases "c1 = Go"; cases "c2 = Go") auto
    qed
  qed
qed

definition tx_files_ok :: "tx_state \<Rightarrow> bool" where
  "tx_files_ok s \<longleftrightarrow> list_all (\<lambda>f. tf_blocks f = BlockCountFor (tf_size f) \<and> unat (tf_size f) \<le> kMaxFileSize) (s_tx s)"

lemma blocks_cover:
  assumes "tx_files_ok s" "i < length (s_tx s)"
  shows "unat (tf_size (s_tx s ! i)) \<le> unat (tf_blocks (s_tx s ! i)) * 1100"
proof -
  have "unat (tf_blocks (s_tx s ! i)) = (unat (tf_size (s_tx s ! i)) + 1099) div 1100"
    using assms by (simp add: tx_files_ok_def list_all_length unat_BlockCountFor)
  then show ?thesis using lt_ceil_iff[of "unat (tf_blocks (s_tx s ! i))"] by (metis less_irrefl not_le)
qed

lemma good_SweepFile:
  assumes "tx_steps sha True s0 s" "i < length (s_tx s0)" "inflight_ok s0" "tx_files_ok s0"
  shows "good sha True s0 (SweepFile sha i s) \<and> (\<forall>s1. SweepFile sha i s = (Go, s1) \<longrightarrow> tf_sweep_done (s_tx s1 ! i))"
proof -
  let ?s1 = "s\<lparr>s_since_repair := 0, s_hashed := []\<rparr>"
  have s0: "tx_steps sha True s0 (s\<lparr>s_since_repair := 0\<rparr>)" by (rule steps_local[OF assms(1)]) (simp add: same_core_def)
  have s1: "tx_steps sha True s0 ?s1" using steps_step[OF s0 tx_hashing[of True _ "s\<lparr>s_since_repair := 0\<rparr>" "[]"]] by simp
  have bl: "unat (tf_blocks (s_tx s ! i)) = unat (tf_blocks (s_tx s0 ! i))" using steps_file[OF assms(1,2)] by simp
  obtain c s2 where l: "sweep_loop i (unat (tf_blocks (s_tx s ! i))) 0 ?s1 = (c, s2)" by fastforce
  have sw: "good sha True s0 (c, s2)" "c = Go \<Longrightarrow> \<exists>b. unat (tf_blocks (s_tx s0 ! i)) \<le> b \<and> hashed_upto s0 i b (s_hashed s2)"
    using good_sweep_loop[OF assms(2,3) bl s1, of 0] l bl by (auto simp: hashed_upto_def[of s0 i 0])
  show ?thesis
  proof (cases "c = Go")
    case True
    then obtain b where b: "unat (tf_blocks (s_tx s0 ! i)) \<le> b" "hashed_upto s0 i b (s_hashed s2)" using sw by blast
    have "unat (tf_size (s_tx s0 ! i)) \<le> b * 1100" using blocks_cover[OF assms(4,2)] b(1) by linarith
    then have h: "s_hashed s2 = take (unat (tf_size (s_tx s2 ! i))) (disk_bytes i s2)"
      using b(2) steps_file[OF good_steps[OF sw(1)] assms(2)] by (simp add: hashed_upto_def min_absorb2)
    have i2: "i < length (s_tx s2)" using steps_idx[OF good_steps[OF sw(1)] assms(2)] .
    have "tx_steps sha True s0 (upd_tx i (\<lambda>f. f\<lparr>tf_sha256 := sha (s_hashed s2), tf_sweep_done := True\<rparr>) s2)"
      by (rule steps_step[OF good_steps[OF sw(1)] tx_hash[OF i2]]) (simp add: h)
    then show ?thesis using True i2 by (simp add: SweepFile_def l seqc_def goodI)
  qed (use sw(1) in \<open>simp add: SweepFile_def l seqc_def\<close>)
qed

lemma good_send_file:
  assumes "tx_steps sha True s0 s" "i < length (s_tx s0)" "inflight_ok s0" "tx_files_ok s0"
  shows "good sha True s0 (send_file sha i s) \<and> (\<forall>s1. send_file sha i s = (Go, s1) \<longrightarrow> tf_sweep_done (s_tx s1 ! i))"
proof (cases "tf_blocks (s_tx s ! i) = 0")
  case True
  have "tf_blocks (s_tx s0 ! i) = 0" using True steps_file[OF assms(1,2)] by simp
  then have "unat (tf_size (s_tx s0 ! i)) = 0" using blocks_cover[OF assms(4,2)] by simp
  then have z: "take (unat (tf_size (s_tx s ! i))) (disk_bytes i s) = []" using steps_file[OF assms(1,2)] by simp
  have i: "i < length (s_tx s)" using steps_idx[OF assms(1,2)] .
  have "tx_steps sha True s0 (upd_tx i (\<lambda>f. f\<lparr>tf_sha256 := sha [], tf_sweep_done := True\<rparr>) s)"
    by (rule steps_step[OF assms(1) tx_hash[OF i]]) (simp add: z)
  then show ?thesis using True i by (simp add: send_file_def goodI)
next
  case False
  then show ?thesis using good_SweepFile[OF assms] by (simp add: send_file_def)
qed

lemma good_drain_loop:
  assumes "inflight_ok s0"
  shows "tx_steps sha h s0 s \<Longrightarrow> good sha h s0 (drain_loop n limit s) \<and>
    (\<forall>s1. drain_loop n limit s = (Go, s1) \<longrightarrow> ended s1 \<or> length (s_inflight s1) < limit)"
proof (induction n arbitrary: s)
  case (Suc n)
  show ?case
  proof (cases "s_env s")
    case Nil
    then show ?thesis using goodI[OF Suc.prems, of Starved] by (simp add: poll_def)
  next
    case (Cons e es)
    let ?s1 = "fold apply_act (e_acts e) (s\<lparr>s_env := es\<rparr>)"
    have s1: "tx_steps sha h s0 ?s1" by (rule steps_poll[OF Suc.prems Cons])
    obtain c2 s2 where r: "ReapInflight ?s1 = (c2, s2)" by fastforce
    have g2: "good sha h s0 (c2, s2)" using good_ReapInflight[OF s1 assms] r by simp
    obtain c3 s3 where p: "RepairPass s2 = (c3, s3)" by fastforce
    have g3: "good sha h s0 (c3, s3)" using good_RepairPass[OF good_steps[OF g2] assms] p by simp
    have "drain_loop (Suc n) limit s =
       (if ended ?s1 then (Go, ?s1) else if c2 \<noteq> Go then (c2, s2) else if length (s_inflight s2) < limit then (Go, s2)
        else if c3 = Quit then (Go, s3) else if c3 \<noteq> Go then (c3, s3) else drain_loop n limit s3)"
      by (simp add: poll_def Cons seqc_def r p ended_def Let_def)
    then show ?thesis using goodI[OF s1, of Go] goodI[OF good_steps[OF g2], of Go] goodI[OF good_steps[OF g3], of Go]
        g2 g3 Suc.IH[OF good_steps[OF g3]] by (auto simp: good_def)
  qed
qed auto

lemma tx_steps_files_ok: "tx_steps sha h s s' \<Longrightarrow> tx_files_ok s \<Longrightarrow> tx_files_ok s'"
proof -
  assume a: "tx_steps sha h s s'" "tx_files_ok s"
  have len: "length (s_tx s') = length (s_tx s)" using fixedD(1)[OF tx_steps_fixed[OF a(1)]] .
  show ?thesis unfolding tx_files_ok_def list_all_length len
  proof (intro allI impI)
    fix i assume i: "i < length (s_tx s)"
    show "tf_blocks (s_tx s' ! i) = BlockCountFor (tf_size (s_tx s' ! i)) \<and> unat (tf_size (s_tx s' ! i)) \<le> kMaxFileSize"
      using a(2) i steps_file[OF a(1) i] by (simp add: tx_files_ok_def list_all_length)
  qed
qed

text \<open>A file that has been swept and announced is covered, and covered files stay so.\<close>

lemma send_file_covered:
  assumes "send_file sha i s = (Go, s1)" "drain_loop n limit (announce i s1) = (c, s2)"
    "i < length (s_tx s)" "inflight_ok s" "tx_files_ok s" "covered j s \<or> j = i"
  shows "covered j s2"
proof -
  have g: "tx_steps sha True s s1" "tf_sweep_done (s_tx s1 ! i)"
    using good_send_file[OF rtranclp.rtrancl_refl assms(3-5), of sha] assms(1) by (auto dest: good_steps)
  have i1: "i < length (s_tx s1)" using steps_idx[OF g(1) assms(3)] .
  have s2: "tx_steps sha True s (announce i s1)" by (rule steps_step[OF g(1) tx_announce[OF i1 g(2)]])
  have "covered j (announce i s1)"
    using assms(6) tx_steps_covered[OF s2, of j] i1 by (cases "j = i") (auto simp: covered_def)
  moreover have "tx_steps sha True (announce i s1) s2"
    using good_drain_loop[OF tx_steps_inflight[OF s2 assms(4)] rtranclp.rtrancl_refl, of sha True n limit] assms(2)
    by (metis good_steps)
  ultimately show ?thesis using tx_steps_covered by blast
qed

lemma good_run_files:
  assumes "inflight_ok s0" "tx_files_ok s0"
  shows "tx_steps sha True s0 s \<Longrightarrow> list_all (\<lambda>i. i < length (s_tx s0)) is \<Longrightarrow>
    good sha True s0 (run_files sha is s) \<and>
    (\<forall>s1. run_files sha is s = (Go, s1) \<longrightarrow> ended s1 \<or> (\<forall>i. covered i s \<or> i \<in> set is \<longrightarrow> covered i s1))"
proof (induction "is" arbitrary: s)
  case (Cons i "is")
  then have i: "i < length (s_tx s0)" "list_all (\<lambda>i. i < length (s_tx s0)) is" by auto
  show ?case
  proof (cases "s_env s")
    case Nil
    then show ?thesis using goodI[OF Cons.prems(1), of Starved] by (simp add: poll_def)
  next
    case env: (Cons e es)
    let ?s1 = "fold apply_act (e_acts e) (s\<lparr>s_env := es\<rparr>)"
    have t1: "tx_steps sha True s ?s1" by (rule steps_poll[OF rtranclp.rtrancl_refl env])
    have s1: "tx_steps sha True s0 ?s1" using Cons.prems(1) t1 by (rule rtranclp_trans)
    have i1: "i < length (s_tx ?s1)" using steps_idx[OF s1 i(1)] .
    let ?s2 = "?s1\<lparr>s_current_file := int (unat (tf_index (s_tx ?s1 ! i)))\<rparr>"
    have t2: "tx_steps sha True ?s1 ?s2" by (rule steps_local[OF rtranclp.rtrancl_refl]) (simp add: same_core_def)
    have s2: "tx_steps sha True s0 ?s2" using s1 t2 by (rule rtranclp_trans)
    obtain c3 s3 where f: "send_file sha i ?s2 = (c3, s3)" by fastforce
    have g3: "good sha True s0 (c3, s3)" and d3: "c3 = Go \<Longrightarrow> tf_sweep_done (s_tx s3 ! i)"
      using good_send_file[OF s2 i(1) assms] f by auto
    have i3: "i < length (s_tx s3)" using steps_idx[OF good_steps[OF g3] i(1)] .
    let ?s4 = "announce i s3"
    have s4: "tx_steps sha True s0 ?s4" if "c3 = Go" using steps_step[OF good_steps[OF g3] tx_announce[OF i3 d3[OF that]]] .
    obtain c5 s5 where dr: "drain_loop (length (s_env ?s4)) kMaxInflightFiles ?s4 = (c5, s5)" by fastforce
    have g5: "good sha True s0 (c5, s5)" if "c3 = Go"
      using good_drain_loop[OF assms(1) s4[OF that]] dr by metis
    have eq: "run_files sha (i # is) s =
       (if ended ?s1 then (Go, ?s1) else if tf_ok (s_tx ?s1 ! i) then run_files sha is ?s1
        else if c3 = Quit then (Go, s3) else if c3 \<noteq> Go then (c3, s3) else if c5 \<noteq> Go then (c5, s5) else run_files sha is s5)"
      unfolding run_files.simps poll_def env list.case Let_def f seqc_def fst_conv snd_conv dr ended_def by simp
    have keep: "covered j ?s1" if "covered j s" for j using tx_steps_covered[OF t1 that] .
    have cov5: "covered j s5" if go: "c3 = Go" and j: "covered j s \<or> j = i" for j
    proof (rule send_file_covered[OF _ dr])
      show "send_file sha i ?s2 = (Go, s3)" using f go by simp
      show "i < length (s_tx ?s2)" using i1 by simp
      show "inflight_ok ?s2" "tx_files_ok ?s2" using tx_steps_inflight[OF s2 assms(1)] tx_steps_files_ok[OF s2 assms(2)] .
      show "covered j ?s2 \<or> j = i" using j keep tx_steps_covered[OF t2] by blast
    qed
    have IH1: "good sha True s0 (run_files sha is ?s1)"
      "run_files sha is ?s1 = (Go, s9) \<Longrightarrow> ended s9 \<or> (\<forall>j. covered j ?s1 \<or> j \<in> set is \<longrightarrow> covered j s9)" for s9
      using Cons.IH[OF s1 i(2)] by auto
    have IH5: "good sha True s0 (run_files sha is s5)"
      "run_files sha is s5 = (Go, s9) \<Longrightarrow> ended s9 \<or> (\<forall>j. covered j s5 \<or> j \<in> set is \<longrightarrow> covered j s9)" if "c3 = Go" for s9
      using Cons.IH[OF good_steps[OF g5[OF that]] i(2)] by auto
    have ok1: "covered i ?s1" if "tf_ok (s_tx ?s1 ! i)" using that i1 by (simp add: covered_def)
    have q3: "ended s3" if "c3 = Quit" using g3 that by (simp add: good_def)
    show ?thesis unfolding eq
      using goodI[OF s1, of Go] goodI[OF good_steps[OF g3], of Go] g3 g5 IH1 IH5 keep ok1 q3 cov5
      by (cases "ended ?s1"; cases "tf_ok (s_tx ?s1 ! i)"; cases c3; cases c5) auto
  qed
qed auto

lemma good_finish_run:
  assumes "tx_steps sha h s0 s" "ended s \<or> list_all tf_ok (s_tx s)"
  shows "good sha h s0 (finish_run s)"
proof -
  let ?s1 = "s\<lparr>s_tx := map (\<lambda>f. f\<lparr>tf_reader := None\<rparr>) (s_tx s)\<rparr>"
  have s1: "tx_steps sha h s0 ?s1" by (rule steps_step[OF assms(1) tx_close])
  show ?thesis
  proof (cases "s_env s")
    case Nil
    then show ?thesis using s1 by (simp add: finish_run_def poll_def goodI)
  next
    case (Cons e es)
    let ?s2 = "fold apply_act (e_acts e) (?s1\<lparr>s_env := es\<rparr>)"
    have t2: "tx_steps sha h s ?s2"
      by (rule steps_poll[OF r_into_rtranclp[of "tx_step sha h", OF tx_close]]) (simp add: Cons)
    have s2: "tx_steps sha h s0 ?s2" using assms(1) t2 by (rule rtranclp_trans)
    have "ended ?s2 \<or> list_all tf_ok (s_tx ?s2)"
    proof (cases "ended s")
      case True
      then show ?thesis using tx_steps_ended[OF t2] by blast
    next
      case False
      then have ok: "list_all tf_ok (s_tx s)" using assms(2) by blast
      have "tf_ok (s_tx ?s2 ! i)" if "i < length (s_tx ?s2)" for i
      proof -
        have i: "i < length (s_tx s)" using that fixedD(1)[OF tx_steps_fixed[OF t2]] by simp
        have "tf_ok (s_tx s ! i)" using ok i by (simp add: list_all_length)
        with t2 i show ?thesis
          by (induction rule: rtranclp_induct) (auto intro: tx_step_ok dest: steps_idx)
      qed
      then show ?thesis by (simp add: list_all_length)
    qed
    then show ?thesis using s2 steps_step[OF s2 tx_finish] Cons
      by (auto simp: finish_run_def poll_def ended_def intro: goodI)
  qed
qed

lemma tx_Run_steps:
  assumes "inflight_ok s" "tx_files_ok s"
  shows "good sha True s (tx_Run sha s)"
proof -
  let ?R = "\<lambda>e s. UpdateRate e (s\<lparr>s_last_token_ms := e_exact e, s_window_start_ms := e_now e\<rparr>)"
  show ?thesis unfolding tx_Run_def
  proof (rule good_poll[OF rtranclp.rtrancl_refl])
    fix e :: tx_env and s1 assume s1: "tx_steps sha True s s1"
    have "tx_steps sha True s (s1\<lparr>s_last_token_ms := e_exact e, s_window_start_ms := e_now e\<rparr>)"
      by (rule steps_local[OF s1]) (simp add: same_core_def)
    then have s2: "tx_steps sha True s (?R e s1)" by (rule steps_step[OF _ tx_rate])
    have len: "length (s_tx s1) = length (s_tx s)" using fixedD(1)[OF tx_steps_fixed[OF s1]] .
    have rf: "good sha True s (run_files sha [0..<length (s_tx s1)] (?R e s1))"
      "run_files sha [0..<length (s_tx s1)] (?R e s1) = (Go, s3) \<Longrightarrow> ended s3 \<or> (\<forall>i<length (s_tx s). covered i s3)" for s3
      using good_run_files[OF assms s2, of "[0..<length (s_tx s1)]"] by (auto simp: list_all_iff len)
    show "good sha True s (seqc (run_files sha [0..<length (s_tx s1)] (?R e s1)) (\<lambda>s.
       let s1 = s\<lparr>s_current_file := - 1\<rparr> in seqc (drain_loop (length (s_env s1)) 1 s1) finish_run))"
    proof (rule good_seqc[OF rf(1)])
      fix s3 assume r: "run_files sha [0..<length (s_tx s1)] (?R e s1) = (Go, s3)" and s3: "tx_steps sha True s s3"
      let ?s4 = "s3\<lparr>s_current_file := - 1\<rparr>"
      have t4: "tx_steps sha True s3 ?s4" by (rule steps_local[OF rtranclp.rtrancl_refl]) (simp add: same_core_def)
      have s4: "tx_steps sha True s ?s4" using s3 t4 by (rule rtranclp_trans)
      have "good sha True s (seqc (drain_loop (length (s_env ?s4)) 1 ?s4) finish_run)"
      proof (rule good_seqc)
        show "good sha True s (drain_loop (length (s_env ?s4)) 1 ?s4)" using good_drain_loop[OF assms(1) s4] by blast
      next
        fix s5 assume d: "drain_loop (length (s_env ?s4)) 1 ?s4 = (Go, s5)" and s5: "tx_steps sha True s s5"
        have end5: "ended s5 \<or> s_inflight s5 = []" using good_drain_loop[OF assms(1) s4, of "length (s_env ?s4)" 1] d by simp
        have t5: "tx_steps sha True s3 s5"
          using good_drain_loop[OF tx_steps_inflight[OF s3 assms(1)] t4, of "length (s_env ?s4)" 1] d by (metis good_steps)
        have "ended s5 \<or> list_all tf_ok (s_tx s5)"
        proof (cases "ended s5")
          case False
          then have "\<not> ended s3" using tx_steps_ended[OF t5] by blast
          then have "\<forall>i<length (s_tx s). covered i s5" using rf(2)[OF r] tx_steps_covered[OF t5] by blast
          then show ?thesis using False end5 fixedD(1)[OF tx_steps_fixed[OF s5]] by (simp add: covered_def list_all_length)
        qed simp
        then show "good sha True s (finish_run s5)" by (rule good_finish_run[OF s5])
      qed
      then show "good sha True s (let s1 = s3\<lparr>s_current_file := - 1\<rparr> in seqc (drain_loop (length (s_env s1)) 1 s1) finish_run)"
        by (simp add: Let_def)
    qed
  qed
qed

section \<open>Confirmations and completion\<close>

text \<open>
  The confirmations of the files are those of the calls polled so far and of nothing else, and the thread sets its finished
  flag only when every file is confirmed.
\<close>

abbreviation oks :: "tx_state \<Rightarrow> bool list" where
  "oks t \<equiv> map tf_ok (s_tx t)"

primrec ok_of :: "tx_act \<Rightarrow> bool list \<Rightarrow> bool list" where
  "ok_of (ASack data) l = l"
| "ok_of (AFileOk index) l = l[unat index := True]"
| "ok_of (AFileBad index) l = l"
| "ok_of (APause paused) l = l"
| "ok_of AStop l = l"

lemma OnFileOk_oks: "oks (OnFileOk idx t) = (oks t)[unat idx := True]" "s_finished (OnFileOk idx t) = s_finished t"
  by (auto simp: OnFileOk_def Let_def map_update list_update_beyond nth_list_update intro!: nth_equalityI split: if_splits)

lemma OnFileBad_oks: "oks (OnFileBad idx t) = oks t" "s_finished (OnFileBad idx t) = s_finished t"
  by (auto simp: OnFileBad_def Let_def map_update list_update_same_conv intro!: nth_equalityI)

lemma OnSack_oks: "oks (OnSack data t) = oks t" "s_finished (OnSack data t) = s_finished t"
  by (auto simp: OnSack_def Let_def map_upd split: option.split)

lemma oks_act: "oks (apply_act a s) = ok_of a (oks s)"
  by (cases a) (simp_all add: OnFileOk_oks OnFileBad_oks OnSack_oks SetPaused_def tx_Stop_def)

lemma oks_acts: "oks (fold apply_act as s) = fold ok_of as (oks s)"
  by (induction as arbitrary: s) (simp_all add: oks_act)

definition polled :: "tx_env list \<Rightarrow> tx_act list" where
  "polled es = concat (map e_acts es)"

lemma tx_step_oks:
  assumes "tx_step sha h s s'"
  shows "\<exists>es. s_env s = es @ s_env s' \<and> oks s' = fold ok_of (polled es) (oks s)"
proof -
  have keep: ?thesis if "s_env s' = s_env s" "oks s' = oks s" using that by (intro exI[of _ "[]"]) (simp add: polled_def)
  from assms show ?thesis
  proof (cases rule: tx_step.cases)
    case (tx_poll e es)
    then show ?thesis by (intro exI[of _ "[e]"]) (simp add: polled_def oks_acts acts_sel)
  next
    case (tx_private i g)
    then show ?thesis by (intro keep) (auto simp: map_upd same_file_def)
  qed (rule keep; force simp: same_core_def map_upd o_def)+
qed

lemma tx_steps_oks: "tx_steps sha h s s' \<Longrightarrow> \<exists>es. s_env s = es @ s_env s' \<and> oks s' = fold ok_of (polled es) (oks s)"
proof (induction rule: rtranclp_induct)
  case base
  show ?case by (intro exI[of _ "[]"]) (simp add: polled_def)
next
  case (step y z)
  from step.IH obtain es where es: "s_env s = es @ s_env y" "oks y = fold ok_of (polled es) (oks s)" by blast
  from tx_step_oks[OF step.hyps(2)] obtain fs where fs: "s_env y = fs @ s_env z" "oks z = fold ok_of (polled fs) (oks y)" by blast
  show ?case using es fs by (intro exI[of _ "es @ fs"]) (simp add: polled_def)
qed

lemma tx_step_finished:
  assumes "tx_step sha h s s'" "s_finished s \<longrightarrow> list_all tf_ok (s_tx s)"
  shows "s_finished s' \<longrightarrow> list_all tf_ok (s_tx s')"
proof -
  have "s_finished s' \<longrightarrow> list_all tf_ok (s_tx s)" using assms
    by (cases rule: tx_step.cases) (simp_all add: acts_sel same_core_def)
  then show ?thesis using tx_step_ok[OF assms(1)] fixedD(1)[OF tx_step_fixed[OF assms(1)]] by (simp add: list_all_length)
qed

lemma tx_steps_finished: "tx_steps sha h s s' \<Longrightarrow> \<not> s_finished s \<Longrightarrow> s_finished s' \<longrightarrow> list_all tf_ok (s_tx s')"
  by (induction rule: rtranclp_induct) (auto dest: tx_step_finished)

lemma tx_Run_finished:
  assumes "inflight_ok s" "tx_files_ok s" "\<not> s_finished s" "s_finished (snd (tx_Run sha s))"
  shows "list_all tf_ok (s_tx (snd (tx_Run sha s)))"
  using tx_Run_steps[OF assms(1,2), of sha] tx_steps_finished[of sha True s] assms(3,4) by (auto simp: good_def)

lemma tx_Run_oks:
  assumes "inflight_ok s" "tx_files_ok s" "s_env (snd (tx_Run sha s)) = []"
  shows "oks (snd (tx_Run sha s)) = fold ok_of (polled (s_env s)) (oks s)"
  using tx_Run_steps[OF assms(1,2), of sha] tx_steps_oks[of sha True s] assms(3) by (fastforce simp: good_def)

section \<open>What the sender emits\<close>

definition swept_ok :: "(bytes \<Rightarrow> string) \<Rightarrow> tx_state \<Rightarrow> bool" where
  "swept_ok sha s \<longleftrightarrow> (\<forall>i<length (s_tx s). tf_sweep_done (s_tx s ! i) \<longrightarrow>
     tf_sha256 (s_tx s ! i) = sha (take (unat (tf_size (s_tx s ! i))) (disk_bytes i s)))"

definition event_ok :: "(bytes \<Rightarrow> string) \<Rightarrow> tx_state \<Rightarrow> tx_event \<Rightarrow> bool" where
  "event_ok sha s ev \<longleftrightarrow>
     (case ev of
        TxDatagram d \<Rightarrow> \<exists>i<length (s_tx s). \<exists>block payload. payload_ok s i block payload \<and>
          d = block_wire (s_tx s ! i) block payload (BlockLenFor (tf_size (s_tx s ! i)) block)
      | TxFileDone idx h \<Rightarrow> \<exists>i<length (s_tx s). idx = tf_index (s_tx s ! i) \<and>
          h = sha (take (unat (tf_size (s_tx s ! i))) (disk_bytes i s))
      | TxAllDone \<Rightarrow> list_all tf_ok (s_tx s)
      | TxError _ _ \<Rightarrow> True)"

definition emits_ok :: "(bytes \<Rightarrow> string) \<Rightarrow> tx_state \<Rightarrow> bool" where
  "emits_ok sha s \<longleftrightarrow> swept_ok sha s \<and> list_all (event_ok sha s) (s_out s)"

lemma payload_ok_cong: "fixed s' = fixed s \<Longrightarrow> i < length (s_tx s) \<Longrightarrow> payload_ok s' i = payload_ok s i"
  using fixedD(3)[of s' s i] by (simp add: fun_eq_iff payload_ok_def)

lemma block_wire_cong: "tf_index f = tf_index g \<Longrightarrow> tf_blocks f = tf_blocks g \<Longrightarrow> block_wire f = block_wire g"
  by (simp add: fun_eq_iff block_wire_def)

lemma event_ok_step:
  assumes "tx_step sha h s s'" "event_ok sha s ev"
  shows "event_ok sha s' ev"
proof -
  have fx: "fixed s' = fixed s" by (rule tx_step_fixed[OF assms(1)])
  note same = fixedD(1)[OF fx] fixedD(3)[OF fx]
  show ?thesis
  proof (cases ev)
    case (TxDatagram d)
    then obtain i block payload where i: "i < length (s_tx s)" "payload_ok s i block payload"
      "d = block_wire (s_tx s ! i) block payload (BlockLenFor (tf_size (s_tx s ! i)) block)"
      using assms(2) by (auto simp: event_ok_def)
    have "d = block_wire (s_tx s' ! i) block payload (BlockLenFor (tf_size (s_tx s' ! i)) block)"
      using i(3) same(2)[OF i(1)] block_wire_cong[of "s_tx s' ! i" "s_tx s ! i"] by simp
    moreover have "payload_ok s' i block payload" "i < length (s_tx s')" using i same(1) payload_ok_cong[OF fx i(1)] by simp_all
    ultimately show ?thesis unfolding TxDatagram event_ok_def tx_event.case by blast
  next
    case (TxFileDone idx hs)
    then show ?thesis using assms(2) same by (auto simp: event_ok_def)
  next
    case TxAllDone
    then show ?thesis using assms(2) same(1) tx_step_ok[OF assms(1)] by (simp add: event_ok_def list_all_length)
  qed (simp add: event_ok_def)
qed

lemma swept_act: "i < length (s_tx s) \<Longrightarrow> tf_sweep_done (s_tx (apply_act a s) ! i) = tf_sweep_done (s_tx s ! i) \<and>
   tf_sha256 (s_tx (apply_act a s) ! i) = tf_sha256 (s_tx s ! i)"
proof (cases a)
  case (ASack data)
  assume "i < length (s_tx s)"
  then show ?thesis using ASack by (cases "DecodeSack data") (auto simp: OnSack_def Let_def nth_list_update)
qed (auto simp: act_defs nth_list_update)

lemma swept_acts: "i < length (s_tx s) \<Longrightarrow> tf_sweep_done (s_tx (fold apply_act as s) ! i) = tf_sweep_done (s_tx s ! i) \<and>
   tf_sha256 (s_tx (fold apply_act as s) ! i) = tf_sha256 (s_tx s ! i)"
proof (induction as arbitrary: s)
  case (Cons a as)
  then show ?case using swept_act[of i s a] fixedD(1)[OF fixed_act, of a s] by simp
qed simp

lemma swept_step:
  assumes "tx_step sha h s s'" "swept_ok sha s"
  shows "swept_ok sha s'"
proof -
  note fx = tx_step_fixed[OF assms(1)]
  note same = fixedD(1)[OF fx] fixedD(3)[OF fx]
  from assms have "\<forall>i<length (s_tx s). tf_sweep_done (s_tx s' ! i) \<longrightarrow>
     tf_sha256 (s_tx s' ! i) = sha (take (unat (tf_size (s_tx s ! i))) (disk_bytes i s))"
  proof (induction rule: tx_step.induct)
    case (tx_poll s e es)
    then show ?case using swept_acts[of _ "s\<lparr>s_env := es\<rparr>"] by (simp add: swept_ok_def)
  next
    case (tx_private j s g)
    then show ?case by (auto simp: swept_ok_def nth_list_update same_file_def)
  qed (auto simp: swept_ok_def same_core_def nth_list_update)
  then show ?thesis using same by (simp add: swept_ok_def)
qed

lemma emits_step:
  assumes "tx_step sha h s s'" "emits_ok sha s"
  shows "emits_ok sha s'"
proof -
  have sw: "swept_ok sha s'" using swept_step[OF assms(1)] assms(2) by (simp add: emits_ok_def)
  have old: "list_all (event_ok sha s') (s_out s)" using event_ok_step[OF assms(1)] assms(2) by (auto simp: emits_ok_def list_all_iff)
  have new: "list_all (event_ok sha s') (s_out s')"
    using assms(1)
  proof (cases rule: tx_step.cases)
    case (tx_send i block len payload repair)
    have "event_ok sha s (TxDatagram (block_wire (s_tx s ! i) block payload len))"
      using tx_send by (auto simp: event_ok_def payload_ok_def Let_def)
    then show ?thesis using event_ok_step[OF assms(1)] old tx_send(1) by simp
  next
    case (tx_announce i)
    have "event_ok sha s (TxFileDone (tf_index (s_tx s ! i)) (tf_sha256 (s_tx s ! i)))"
      using tx_announce assms(2) by (auto simp: event_ok_def emits_ok_def swept_ok_def)
    then show ?thesis using event_ok_step[OF assms(1)] old tx_announce(1) by simp
  next
    case tx_finish
    then have "event_ok sha s' TxAllDone" by (simp add: event_ok_def)
    then show ?thesis using old tx_finish by simp
  next
    case (tx_fail code message)
    then show ?thesis using old by (simp add: event_ok_def)
  qed (use old in \<open>simp_all add: acts_sel same_core_def\<close>)
  show ?thesis using sw new by (simp add: emits_ok_def)
qed

lemma emits_steps: "tx_steps sha h s s' \<Longrightarrow> emits_ok sha s \<Longrightarrow> emits_ok sha s'"
  by (induction rule: rtranclp_induct) (auto dest: emits_step)

end
