(* ===== verification/Receiver.thy ===== *)
theory Receiver
  imports Bitmap Block_Codec Manifest File_Io "HOL-Library.Monad_Syntax"
begin

text \<open>
  The receiving engine, \<^verbatim>\<open>core/src/transfer/receiver.{h,cpp}\<close>.  \<open>rcv\<close> is the object's state together with the
  world its writer works on and the log of what it sent and called back.  The transport thread only touches the
  queue (\<open>OnBlock\<close>), the owner only the pending hashes and the stop flag (\<open>OnFileDone\<close>, \<open>Stop_request\<close>), everything
  else belongs to the writer thread, whose loop body is \<open>Run_body\<close>; \<open>rcv_step\<close> interleaves them.  The stop flag is
  \<open>w_stop\<close> of the world, so that it may also be raised while a system call runs.  Operations that scan a bitmap
  return \<open>None\<close> if the scan does not end.  Clock readings are arguments.
\<close>

definition kPersistIntervalMs :: u32 where "kPersistIntervalMs = 2000"
definition kRateWindowMs :: u32 where "kRateWindowMs = 500"
definition kCompleteSackRepeats :: u32 where "kCompleteSackRepeats = 5"
definition kMaxQueueBytes :: nat where "kMaxQueueBytes = 64 * 1024 * 1024"
definition kMaxRunBytes :: nat where "kMaxRunBytes = 1048576"
definition kSnapshotRuns :: nat where "kSnapshotRuns = 1048576"

section \<open>State\<close>

record ReceiverFileState =
  rs_index :: u16
  rs_have :: "sack_run list"
  rs_verified :: bool

text \<open>\<open>rx_writer\<close>: \<open>None\<close> is the null pointer, \<open>Some b\<close> a writer whose file is open iff \<open>b\<close>.\<close>

record FileRx =
  rx_index :: u16
  rx_size :: u64
  rx_blocks :: u32
  rx_part_path :: fspath
  rx_final_path :: fspath
  rx_bitmap :: bitmap
  rx_writer :: "bool option"
  rx_expected_sha256 :: string
  rx_complete :: bool
  rx_verified :: bool
  rx_verifying :: bool
  rx_dirty :: bool
  rx_last_sack_ms :: u32
  rx_received_since_sack :: u32
  rx_expected_since_sack :: u32
  rx_frontier :: u32
  rx_complete_sacks_sent :: u32

record Pending =
  p_file :: u16
  p_block :: u32
  p_len :: u16
  p_payload :: bytes

datatype rx_event =
    SackSent bytes
  | FileOk u16
  | FileBad u16 string
  | AllDone
  | RxError string string
  | Persisted "ReceiverFileState list"

record rcv =
  r_manifest :: Manifest
  r_save_dir :: fspath
  r_rx :: "FileRx list"
  r_created_dirs :: "fspath list"
  r_started :: bool
  r_running :: bool
  r_initial_check :: bool
  r_finished :: bool
  r_failed :: bool
  r_queue :: "Pending list"
  r_queue_bytes :: nat
  r_pending_done :: "(u16 \<times> string) list"
  r_last_persist_ms :: u32
  r_last_rate_ms :: u32
  r_rate_bytes :: u64
  r_rate_expected :: u32
  r_rate_received :: u32
  r_bytes_received :: u64
  r_files_done :: u32
  r_current_file :: int
  r_recv_rate_bps :: int
  r_loss_permille :: u16
  r_duplicates :: u32
  r_world :: world
  r_out :: "rx_event list"

definition upd_rx :: "nat \<Rightarrow> FileRx \<Rightarrow> rcv \<Rightarrow> rcv" where
  "upd_rx i f r = r\<lparr>r_rx := (r_rx r)[i := f]\<rparr>"

definition emit :: "rx_event \<Rightarrow> rcv \<Rightarrow> rcv" where
  "emit e r = r\<lparr>r_out := r_out r @ [e]\<rparr>"

definition rx_Fail :: "string \<Rightarrow> string \<Rightarrow> rcv \<Rightarrow> rcv" where
  "rx_Fail code msg r = (if r_failed r then r else emit (RxError code msg) (r\<lparr>r_failed := True\<rparr>))"

text \<open>\<^verbatim>\<open>std::min<uint64_t>(count * kBlockPayloadSize, size)\<close>.\<close>

definition held_bytes :: "FileRx \<Rightarrow> u64" where
  "held_bytes f = min (ucast (bm_count (rx_bitmap f)) * of_nat kBlockPayloadSize) (rx_size f)"

section \<open>Start\<close>

text \<open>\<^verbatim>\<open>mapped\<close>: the on-disk relative path, with the root renamed.\<close>

definition mapped :: "(string \<rightharpoonup> string) \<Rightarrow> string \<Rightarrow> string" where
  "mapped final_names rel =
     (let root = root_of rel;
          head = (case final_names root of None \<Rightarrow> root | Some n \<Rightarrow> n)
      in head @ dropWhile (\<lambda>c. c \<noteq> CHR ''/'') rel)"

fun make_dirs :: "(string \<rightharpoonup> string) \<Rightarrow> string list \<Rightarrow> rcv \<Rightarrow> (string + unit) \<times> rcv" where
  "make_dirs names [] r = (Inr (), r)"
| "make_dirs names (d # ds) r =
     (let p = JoinSafe (r_save_dir r) (mapped names d);
          existed = p \<in> w_dirs (r_world r) \<or> is_regular_file (r_world r) p
      in case EnsureDir p (r_world r) of
           (Inl e, w) \<Rightarrow> (Inl (''mkdir: '' @ e), r\<lparr>r_world := w\<rparr>)
         | (Inr _, w) \<Rightarrow>
             make_dirs names ds (r\<lparr>r_world := w,
               r_created_dirs := (if existed then r_created_dirs r else r_created_dirs r @ [p])\<rparr>))"

definition new_rx :: "fspath \<Rightarrow> (string \<rightharpoonup> string) \<Rightarrow> nat \<Rightarrow> ManifestFile \<Rightarrow> FileRx" where
  "new_rx save_dir names i mf =
     (let final = JoinSafe save_dir (mapped names (mf_path mf)); blocks = BlockCountFor (mf_size mf) in
      \<lparr>rx_index = of_nat i, rx_size = mf_size mf, rx_blocks = blocks,
       rx_part_path = add_suffix ''.ctpart'' final, rx_final_path = final,
       rx_bitmap = bm_Reset blocks, rx_writer = None, rx_expected_sha256 = [],
       rx_complete = False, rx_verified = False, rx_verifying = False, rx_dirty = False,
       rx_last_sack_ms = 0, rx_received_since_sack = 0, rx_expected_since_sack = 0,
       rx_frontier = 0, rx_complete_sacks_sent = 0\<rparr>)"

definition push_rx :: "FileRx \<Rightarrow> rcv \<Rightarrow> rcv" where
  "push_rx f r = r\<lparr>r_rx := r_rx r @ [f]\<rparr>"

text \<open>Taking over the runs a previous session saved.\<close>

definition resume_rx :: "ReceiverFileState \<Rightarrow> FileRx \<Rightarrow> rcv \<Rightarrow> rcv option" where
  "resume_rx s f r =
     (let f1 = f\<lparr>rx_bitmap := bm_SetRuns (rs_have s) (rx_bitmap f)\<rparr> in
      do { (base, b) \<leftarrow> bm_AckBase (rx_bitmap f1);
           Some (push_rx (f1\<lparr>rx_bitmap := b, rx_frontier := base, rx_complete := bm_Complete b\<rparr>)
                   (r\<lparr>r_bytes_received := r_bytes_received r + held_bytes f1\<rparr>)) })"

definition start_file ::
  "(string \<rightharpoonup> string) \<Rightarrow> (u16 \<rightharpoonup> ReceiverFileState) \<Rightarrow> nat \<Rightarrow> ManifestFile \<Rightarrow> rcv \<Rightarrow> ((string + unit) \<times> rcv) option"
where
  "start_file names resume i mf r =
     (let f = new_rx (r_save_dir r) names i mf; rit = resume (rx_index f) in
      if rit \<noteq> None \<and> rs_verified (the rit) \<and> is_regular_file (r_world r) (rx_final_path f) then
        Some (Inr (), push_rx
          (f\<lparr>rx_verified := True, rx_complete := True,
             rx_bitmap := bm_SetRuns [mk_run 0 (rx_blocks f)] (rx_bitmap f)\<rparr>)
          (r\<lparr>r_bytes_received := r_bytes_received r + rx_size f, r_files_done := r_files_done r + 1\<rparr>))
      else case EnsureDir (butlast (rx_final_path f)) (r_world r) of
        (Inl e, w) \<Rightarrow> Some (Inl (''mkdir: '' @ e), r\<lparr>r_world := w\<rparr>)
      | (Inr _, w) \<Rightarrow>
          if rx_blocks f = 0 then Some (Inr (), push_rx (f\<lparr>rx_complete := True\<rparr>) (r\<lparr>r_world := w\<rparr>))
          else let part_exists = is_regular_file w (rx_part_path f) in
            case OpenWriter (rx_part_path f) w of
              (Inl e, w1) \<Rightarrow> Some (Inl (''open part: '' @ e), r\<lparr>r_world := w1\<rparr>)
            | (Inr _, w1) \<Rightarrow>
                (case EnsureSize (rx_part_path f) (unat (rx_size f)) w1 of
                   (False, w2) \<Rightarrow> Some (Inl ''allocate part file'', r\<lparr>r_world := w2\<rparr>)
                 | (True, w2) \<Rightarrow>
                     let f1 = f\<lparr>rx_writer := Some True\<rparr>; r1 = r\<lparr>r_world := w2\<rparr> in
                     if rit \<noteq> None \<and> part_exists
                     then map_option (\<lambda>r2. (Inr (), r2)) (resume_rx (the rit) f1 r1)
                     else Some (Inr (), push_rx f1 r1)))"

fun start_files ::
  "(string \<rightharpoonup> string) \<Rightarrow> (u16 \<rightharpoonup> ReceiverFileState) \<Rightarrow> nat \<Rightarrow> ManifestFile list \<Rightarrow> rcv \<Rightarrow> ((string + unit) \<times> rcv) option"
where
  "start_files names resume i [] r = Some (Inr (), r)"
| "start_files names resume i (mf # mfs) r =
     do { (res, r1) \<leftarrow> start_file names resume i mf r;
          case res of Inl e \<Rightarrow> Some (Inl e, r1) | Inr _ \<Rightarrow> start_files names resume (Suc i) mfs r1 }"

definition resume_by_index :: "ReceiverFileState list \<Rightarrow> u16 \<rightharpoonup> ReceiverFileState" where
  "resume_by_index resume = map_of (rev (map (\<lambda>s. (rs_index s, s)) resume))"

definition rx_Start ::
  "Manifest \<Rightarrow> fspath \<Rightarrow> (string \<rightharpoonup> string) \<Rightarrow> ReceiverFileState list \<Rightarrow> rcv \<Rightarrow> ((string + unit) \<times> rcv) option"
where
  "rx_Start m save_dir names resume r =
     (if r_started r then Some (Inl ''already started'', r)
      else let r1 = r\<lparr>r_manifest := m, r_save_dir := save_dir\<rparr> in
        case EnsureDir save_dir (r_world r1) of
          (Inl e, w) \<Rightarrow> Some (Inl (''save dir: '' @ e), r1\<lparr>r_world := w\<rparr>)
        | (Inr _, w) \<Rightarrow>
          (case make_dirs names (m_dirs m) (r1\<lparr>r_world := w\<rparr>) of
             (Inl e, r2) \<Rightarrow> Some (Inl e, r2)
           | (Inr _, r2) \<Rightarrow>
              do { (res, r3) \<leftarrow> start_files names (resume_by_index resume) 0 (m_files m) (r2\<lparr>r_rx := []\<rparr>);
                   case res of Inl e \<Rightarrow> Some (Inl e, r3)
                   | Inr _ \<Rightarrow> Some (Inr (), r3\<lparr>r_started := True, r_running := True, r_initial_check := True,
                                r_world := (r_world r3)\<lparr>w_stop := False\<rparr>\<rparr>) }))"

section \<open>Snapshots\<close>

fun rx_HaveRuns :: "FileRx list \<Rightarrow> (u16 \<times> sack_run list) list option" where
  "rx_HaveRuns [] = Some []"
| "rx_HaveRuns (f # fs) =
     (if rx_verified f \<or> bm_count (rx_bitmap f) = 0 then rx_HaveRuns fs
      else do { hs \<leftarrow> bm_HaveRuns kSnapshotRuns (rx_bitmap f);
                rest \<leftarrow> rx_HaveRuns fs;
                Some ((rx_index f, hs) # rest) })"

definition VerifiedFiles :: "rcv \<Rightarrow> u16 list" where
  "VerifiedFiles r = map rx_index (filter rx_verified (r_rx r))"

fun rx_Snapshot :: "FileRx list \<Rightarrow> ReceiverFileState list option" where
  "rx_Snapshot [] = Some []"
| "rx_Snapshot (f # fs) =
     do { hs \<leftarrow> (if rx_verified f then Some [] else bm_HaveRuns kSnapshotRuns (rx_bitmap f));
          rest \<leftarrow> rx_Snapshot fs;
          Some (\<lparr>rs_index = rx_index f, rs_have = hs, rs_verified = rx_verified f\<rparr> # rest) }"

record ReceiverProgress =
  rp_bytes_total :: u64
  rp_bytes_received :: u64
  rp_files_total :: u32
  rp_files_done :: u32
  rp_current_file :: int
  rp_recv_rate_bps :: int
  rp_loss_permille :: u16
  rp_duplicates :: u32

definition rx_Progress :: "rcv \<Rightarrow> ReceiverProgress" where
  "rx_Progress r = \<lparr>rp_bytes_total = m_total_bytes (r_manifest r),
     rp_bytes_received = min (r_bytes_received r) (m_total_bytes (r_manifest r)),
     rp_files_total = of_nat (length (m_files (r_manifest r))), rp_files_done = r_files_done r,
     rp_current_file = r_current_file r, rp_recv_rate_bps = r_recv_rate_bps r,
     rp_loss_permille = r_loss_permille r, rp_duplicates = r_duplicates r\<rparr>"

section \<open>Transport and owner threads\<close>

definition OnBlock :: "bytes \<Rightarrow> rcv \<Rightarrow> rcv" where
  "OnBlock data r =
     (case DecodeBlock data of None \<Rightarrow> r
      | Some (h, payload) \<Rightarrow>
          if length (r_rx r) \<le> unat (bh_file_index h) then r
          else if kMaxQueueBytes < r_queue_bytes r + unat (bh_len h) then r
          else r\<lparr>r_queue_bytes := r_queue_bytes r + unat (bh_len h),
                 r_queue := r_queue r @ [\<lparr>p_file = bh_file_index h, p_block = bh_block_index h,
                    p_len = bh_len h, p_payload = take (unat (bh_len h)) payload\<rparr>]\<rparr>)"

definition OnFileDone :: "u16 \<Rightarrow> string \<Rightarrow> rcv \<Rightarrow> rcv" where
  "OnFileDone index sha256 r = r\<lparr>r_pending_done := omap_put index sha256 (r_pending_done r)\<rparr>"

definition Stop_request :: "rcv \<Rightarrow> rcv" where
  "Stop_request r = r\<lparr>r_world := (r_world r)\<lparr>w_stop := True\<rparr>\<rparr>"

text \<open>After the join: flush and close every writer.\<close>

definition Stop_close :: "rcv \<Rightarrow> rcv" where
  "Stop_close r = r\<lparr>r_rx := map (\<lambda>f. f\<lparr>rx_writer := None\<rparr>) (r_rx r), r_started := False\<rparr>"

definition Cleanup_parts :: "rcv \<Rightarrow> world" where
  "Cleanup_parts r =
     fold (\<lambda>f w. if rx_verified f then w else remove_file (rx_part_path f) w) (r_rx r) (r_world r)"

definition remove_empty_dir :: "(fspath \<Rightarrow> world \<Rightarrow> bool) \<Rightarrow> fspath \<Rightarrow> world \<Rightarrow> world" where
  "remove_empty_dir is_empty d w = (if is_empty d w then w\<lparr>w_dirs := w_dirs w - {d}\<rparr> else w)"

definition Cleanup :: "(fspath \<Rightarrow> world \<Rightarrow> bool) \<Rightarrow> rcv \<Rightarrow> rcv" where
  "Cleanup is_empty r =
     (let r1 = Stop_close r in
      r1\<lparr>r_world := fold (remove_empty_dir is_empty) (rev (r_created_dirs r1)) (Cleanup_parts r1)\<rparr>)"

section \<open>Selective acknowledgements\<close>

text \<open>Holes at or above the frontier are dropped and the last one is clipped to it.\<close>

definition clip_last :: "u32 \<Rightarrow> sack_run list \<Rightarrow> sack_run list" where
  "clip_last frontier hs =
     (if hs = [] then [] else
        let last_run = last hs in
        if frontier < run_start last_run + run_length last_run
        then butlast hs @ [last_run\<lparr>run_length := frontier - run_start last_run\<rparr>] else hs)"

definition below_frontier :: "u32 \<Rightarrow> sack_run list \<Rightarrow> sack_run list" where
  "below_frontier frontier hs =
     clip_last frontier (rev (dropWhile (\<lambda>h. frontier \<le> run_start h) (rev hs)))"

definition build_sack :: "FileRx \<Rightarrow> int \<Rightarrow> u16 \<Rightarrow> (sack \<times> bitmap) option" where
  "build_sack f rate loss =
     do { (ack_base, b) \<leftarrow> bm_AckBase (rx_bitmap f);
          (let flags = (if bm_Complete b then kSackFlagComplete else 0);
               frontier = max (rx_frontier f) ack_base
           in do { (holes, b') \<leftarrow> (if flags AND kSackFlagComplete = 0 then bm_Holes ack_base kSackMaxRuns b
                                   else Some ([], b));
                   Some (\<lparr>sk_file_index = rx_index f, sk_flags = flags, sk_ack_base = ack_base,
                     sk_frontier = frontier, sk_received_count = bm_count b,
                     sk_recv_rate_bps = word_of_int (min rate 0xFFFFFFFF), sk_loss_permille = loss,
                     sk_holes = below_frontier frontier holes\<rparr>, b') }) }"

definition SendSack :: "u32 \<Rightarrow> nat \<Rightarrow> rcv \<Rightarrow> rcv option" where
  "SendSack now i r =
     (let f = r_rx r ! i in
      do { (s, b) \<leftarrow> build_sack f (r_recv_rate_bps r) (r_loss_permille r);
           (let r1 = emit (SackSent (EncodeSack s)) r;
                f1 = f\<lparr>rx_bitmap := b, rx_last_sack_ms := now, rx_dirty := False,
                       rx_complete_sacks_sent :=
                         (if sk_flags s AND kSackFlagComplete \<noteq> 0 then rx_complete_sacks_sent f + 1
                          else rx_complete_sacks_sent f),
                       rx_expected_since_sack := 0, rx_received_since_sack := 0\<rparr>
            in Some (upd_rx i f1 (r1\<lparr>r_rate_expected := r_rate_expected r + rx_expected_since_sack f\<rparr>))) })"

definition sack_due :: "u32 \<Rightarrow> bool \<Rightarrow> FileRx \<Rightarrow> bool" where
  "sack_due now force f =
     (if rx_verified f then False
      else if rx_complete f then
        rx_complete_sacks_sent f < kCompleteSackRepeats \<and>
        of_nat kSackCompleteRepeatMs \<le> now - rx_last_sack_ms f
      else if \<not> rx_dirty f \<and> \<not> force then False
      else if \<not> force \<and> now - rx_last_sack_ms f < of_nat kSackIntervalMs then False
      else True)"

fun sacks_loop :: "u32 \<Rightarrow> bool \<Rightarrow> nat list \<Rightarrow> rcv \<Rightarrow> rcv option" where
  "sacks_loop now force [] r = Some r"
| "sacks_loop now force (i # is) r =
     (if sack_due now force (r_rx r ! i)
      then do { r1 \<leftarrow> SendSack now i r; sacks_loop now force is r1 }
      else sacks_loop now force is r)"

definition SendSacks :: "u32 \<Rightarrow> bool \<Rightarrow> rcv \<Rightarrow> rcv option" where
  "SendSacks now force r = sacks_loop now force [0..<length (r_rx r)] r"

section \<open>Verification\<close>

definition verify_hash :: "(bytes \<Rightarrow> string) \<Rightarrow> FileRx \<Rightarrow> world \<Rightarrow> string option \<times> world" where
  "verify_hash sha f w =
     (if rx_blocks f = 0
      then (case CreateEmptyFile (rx_part_path f) w of (ok, w') \<Rightarrow> (if ok then Some (sha []) else None, w'))
      else Sha256File sha (rx_part_path f) w)"

text \<open>The file starts over: the bitmap is cleared, the part file kept and reopened.\<close>

definition reject_file :: "nat \<Rightarrow> FileRx \<Rightarrow> rcv \<Rightarrow> rcv" where
  "reject_file i f r =
     (let had = held_bytes f;
          r1 = r\<lparr>r_bytes_received := r_bytes_received r - min (r_bytes_received r) had\<rparr>;
          f1 = f\<lparr>rx_bitmap := bm_Reset (rx_blocks f), rx_complete := False, rx_verifying := False,
                 rx_frontier := 0, rx_complete_sacks_sent := 0\<rparr>
      in if 0 < rx_blocks f
         then (case OpenWriter (rx_part_path f) (r_world r1) of (res, w) \<Rightarrow>
                emit (FileBad (rx_index f) ''sha256_mismatch'')
                  (upd_rx i (f1\<lparr>rx_writer := Some (res = Inr ())\<rparr>) (r1\<lparr>r_world := w\<rparr>)))
         else emit (FileBad (rx_index f) ''sha256_mismatch'') (upd_rx i f1 r1))"

definition MaybeVerify :: "(bytes \<Rightarrow> string) \<Rightarrow> nat \<Rightarrow> rcv \<Rightarrow> rcv" where
  "MaybeVerify sha i r =
     (let f = r_rx r ! i in
      if rx_verified f \<or> rx_verifying f \<or> \<not> rx_complete f \<or> rx_expected_sha256 f = [] then r
      else let f1 = f\<lparr>rx_verifying := True, rx_writer := None\<rparr> in
        case verify_hash sha f1 (r_world r) of (hex, w) \<Rightarrow>
          let r1 = r\<lparr>r_world := w\<rparr> in
          if w_stop w then upd_rx i (f1\<lparr>rx_verifying := False\<rparr>) r1
          else case hex of
            None \<Rightarrow> rx_Fail ''io'' ''verify read failed'' (upd_rx i f1 r1)
          | Some h \<Rightarrow>
              if h \<noteq> rx_expected_sha256 f1 then reject_file i f1 r1
              else (case RenameReplace (rx_part_path f1) (rx_final_path f1) w of
                      (Inl e, w2) \<Rightarrow> rx_Fail ''io'' (''rename failed: '' @ e) (upd_rx i f1 (r1\<lparr>r_world := w2\<rparr>))
                    | (Inr _, w2) \<Rightarrow>
                        emit (FileOk (rx_index f1))
                          (upd_rx i (f1\<lparr>rx_verified := True, rx_verifying := False\<rparr>)
                            (r1\<lparr>r_world := w2, r_files_done := r_files_done r + 1\<rparr>))))"

section \<open>Blocks\<close>

definition AcceptBlock :: "Pending \<Rightarrow> rcv \<Rightarrow> bool \<times> rcv" where
  "AcceptBlock p r =
     (let i = unat (p_file p); f = r_rx r ! i in
      if rx_verified f \<or> rx_blocks f = 0 \<or> rx_blocks f \<le> p_block p then (False, r)
      else if p_len p \<noteq> BlockLenFor (rx_size f) (p_block p) then (False, r)
      else let r1 = r\<lparr>r_current_file := int (unat (rx_index f))\<rparr>;
               f1 = f\<lparr>rx_dirty := True\<rparr>;
               f2 = (if rx_frontier f1 \<le> p_block p
                     then f1\<lparr>rx_expected_since_sack := rx_expected_since_sack f1 + (p_block p - rx_frontier f1 + 1),
                             rx_frontier := p_block p + 1\<rparr>
                     else f1);
               fresh = (\<not> bm_Test (rx_bitmap f2) (p_block p));
               r2 = upd_rx i f2 r1
           in (fresh, if fresh then r2 else r2\<lparr>r_duplicates := r_duplicates r2 + 1\<rparr>))"

definition set_blocks :: "u32 list \<Rightarrow> bitmap \<Rightarrow> bitmap" where
  "set_blocks blocks b = fold (\<lambda>i b. snd (bm_Set i b)) blocks b"

text \<open>The bookkeeping after a successful write.\<close>

definition commit_run :: "nat \<Rightarrow> bytes \<Rightarrow> u32 list \<Rightarrow> world \<Rightarrow> rcv \<Rightarrow> rcv" where
  "commit_run i data blocks w r =
     (let f = r_rx r ! i;
          b = set_blocks blocks (rx_bitmap f);
          f1 = f\<lparr>rx_bitmap := b, rx_complete := rx_complete f \<or> bm_Complete b,
                 rx_received_since_sack := rx_received_since_sack f + of_nat (length blocks)\<rparr>
      in upd_rx i f1 (r\<lparr>r_world := w,
           r_rate_received := r_rate_received r + of_nat (length blocks),
           r_rate_bytes := r_rate_bytes r + of_nat (length data),
           r_bytes_received := r_bytes_received r + of_nat (length data)\<rparr>))"

definition FlushRun ::
  "(bytes \<Rightarrow> string) \<Rightarrow> u32 \<Rightarrow> nat \<Rightarrow> u32 \<Rightarrow> bytes \<Rightarrow> u32 list \<Rightarrow> rcv \<Rightarrow> (bool \<times> rcv) option"
where
  "FlushRun sha now i first_block data blocks r =
     (if blocks = [] then Some (True, r)
      else let f = r_rx r ! i;
               io_fail = (\<lambda>w. Some (False, rx_Fail ''io'' (''write failed: '' @ last (rx_final_path f)) (r\<lparr>r_world := w\<rparr>)))
      in case rx_writer f of None \<Rightarrow> io_fail (r_world r)
      | Some opened \<Rightarrow>
        (case WriteAt opened (rx_part_path f) (unat first_block * kBlockPayloadSize) data (r_world r) of
           (False, w) \<Rightarrow> io_fail w
         | (True, w) \<Rightarrow>
             let r1 = commit_run i data blocks w r in
             if rx_complete (r_rx r1 ! i)
             then do { r2 \<leftarrow> SendSack now i r1; Some (True, MaybeVerify sha i r2) }
             else Some (True, r1)))"

text \<open>The run being collected; \<open>ru_file = None\<close> is the null \<^verbatim>\<open>run_file\<close>.\<close>

record run_buf =
  ru_file :: "nat option"
  ru_first :: u32
  ru_data :: bytes
  ru_blocks :: "u32 list"

definition empty_run :: run_buf where
  "empty_run = \<lparr>ru_file = None, ru_first = 0, ru_data = [], ru_blocks = []\<rparr>"

definition flush_buf :: "(bytes \<Rightarrow> string) \<Rightarrow> u32 \<Rightarrow> run_buf \<Rightarrow> rcv \<Rightarrow> (bool \<times> run_buf \<times> rcv) option" where
  "flush_buf sha now u r =
     (case ru_file u of None \<Rightarrow> Some (True, u, r)
      | Some i \<Rightarrow> do { (ok, r1) \<leftarrow> FlushRun sha now i (ru_first u) (ru_data u) (ru_blocks u) r;
                       Some (ok, u\<lparr>ru_file := None, ru_data := [], ru_blocks := []\<rparr>, r1) })"

definition contiguous :: "Pending \<Rightarrow> run_buf \<Rightarrow> bool" where
  "contiguous p u \<longleftrightarrow> ru_file u = Some (unat (p_file p)) \<and> ru_blocks u \<noteq> [] \<and>
     p_block p = last (ru_blocks u) + 1 \<and> length (ru_data u) = length (ru_blocks u) * kBlockPayloadSize"

definition add_block :: "Pending \<Rightarrow> run_buf \<Rightarrow> run_buf" where
  "add_block p u =
     (let u1 = (if ru_file u = None then u\<lparr>ru_file := Some (unat (p_file p)), ru_first := p_block p\<rparr> else u)
      in u1\<lparr>ru_data := ru_data u1 @ p_payload p, ru_blocks := ru_blocks u1 @ [p_block p]\<rparr>)"

fun batch_loop :: "(bytes \<Rightarrow> string) \<Rightarrow> u32 \<Rightarrow> Pending list \<Rightarrow> run_buf \<Rightarrow> rcv \<Rightarrow> rcv option" where
  "batch_loop sha now [] u r = do { (_, _, r1) \<leftarrow> flush_buf sha now u r; Some r1 }"
| "batch_loop sha now (p # ps) u r =
     do { (ok, u1, r1) \<leftarrow> (if contiguous p u then Some (True, u, r) else flush_buf sha now u r);
          if \<not> ok then Some r1
          else (case AcceptBlock p r1 of
              (False, r2) \<Rightarrow> batch_loop sha now ps u1 r2
            | (True, r2) \<Rightarrow>
                let u2 = add_block p u1 in
                if kMaxRunBytes \<le> length (ru_data u2)
                then do { (ok3, u3, r3) \<leftarrow> flush_buf sha now u2 r2;
                          if \<not> ok3 then Some r3 else batch_loop sha now ps u3 r3 }
                else batch_loop sha now ps u2 r2) }"

definition HandleBatch :: "(bytes \<Rightarrow> string) \<Rightarrow> u32 \<Rightarrow> Pending list \<Rightarrow> rcv \<Rightarrow> rcv option" where
  "HandleBatch sha now batch r = batch_loop sha now batch empty_run r"

section \<open>Writer thread\<close>

definition Persist :: "u32 \<Rightarrow> bool \<Rightarrow> rcv \<Rightarrow> rcv option" where
  "Persist now force r =
     (if \<not> force \<and> now - r_last_persist_ms r < kPersistIntervalMs then Some r
      else do { snap \<leftarrow> rx_Snapshot (r_rx r);
                Some (emit (Persisted snap) (r\<lparr>r_last_persist_ms := now\<rparr>)) })"

definition UpdateRates :: "u32 \<Rightarrow> rcv \<Rightarrow> rcv" where
  "UpdateRates now r =
     (if now - r_last_rate_ms r < kRateWindowMs then r
      else let elapsed = now - r_last_rate_ms r;
               lost = (if r_rate_received r < r_rate_expected r then r_rate_expected r - r_rate_received r else 0)
           in r\<lparr>r_last_rate_ms := now,
                r_recv_rate_bps := sint (r_rate_bytes r * 8000 div ucast elapsed),
                r_rate_bytes := 0,
                r_loss_permille := (if 0 < r_rate_expected r
                   then ucast (min 1000 (lost * 1000 div r_rate_expected r)) else 0),
                r_rate_expected := 0, r_rate_received := 0\<rparr>)"

definition AllVerified :: "rcv \<Rightarrow> bool" where
  "AllVerified r \<longleftrightarrow> list_all rx_verified (r_rx r)"

fun apply_done :: "(bytes \<Rightarrow> string) \<Rightarrow> (u16 \<times> string) list \<Rightarrow> rcv \<Rightarrow> rcv" where
  "apply_done sha [] r = r"
| "apply_done sha ((index, hash) # ds) r =
     (if length (r_rx r) \<le> unat index then apply_done sha ds r
      else let i = unat index in
        apply_done sha ds (MaybeVerify sha i (upd_rx i ((r_rx r ! i)\<lparr>rx_expected_sha256 := hash\<rparr>) r)))"

definition first_check :: "rcv \<Rightarrow> rcv" where
  "first_check r =
     (if r_initial_check r
      then r\<lparr>r_initial_check := False,
             r_rx := map (\<lambda>f. if rx_complete f \<and> \<not> rx_verified f then f\<lparr>rx_dirty := True\<rparr> else f) (r_rx r)\<rparr>
      else r)"

text \<open>One pass of the loop of \<^verbatim>\<open>Run\<close> from the swap of the queues on; \<open>now\<close>, \<open>t1\<close>, \<open>t2\<close> are its clock readings.\<close>

definition Run_body :: "(bytes \<Rightarrow> string) \<Rightarrow> u32 \<Rightarrow> u32 \<Rightarrow> u32 \<Rightarrow> rcv \<Rightarrow> rcv option" where
  "Run_body sha now t1 t2 r =
     (let batch = r_queue r; done = r_pending_done r in
      do { r1 \<leftarrow> HandleBatch sha now batch (r\<lparr>r_queue := [], r_pending_done := [], r_queue_bytes := 0\<rparr>);
           if r_failed r1 then Some (r1\<lparr>r_running := False\<rparr>)
           else do {
             r2 \<leftarrow> SendSacks now False (first_check (apply_done sha done r1));
             r3 \<leftarrow> Persist t1 False (UpdateRates now r2);
             if AllVerified r3
             then do { r4 \<leftarrow> Persist t2 True r3;
                       Some (emit AllDone (r4\<lparr>r_finished := True, r_running := False\<rparr>)) }
             else Some r3 } })"

text \<open>The loop condition fails: the final save.\<close>

definition Run_exit :: "u32 \<Rightarrow> rcv \<Rightarrow> rcv option" where
  "Run_exit now r = do { r1 \<leftarrow> Persist now True r; Some (r1\<lparr>r_running := False\<rparr>) }"

section \<open>The threads interleaved\<close>

datatype rx_label =
    LBlock bytes
  | LDone u16 string
  | LStop
  | LBody u32 u32 u32
  | LExit u32
  | LClose

inductive rcv_step :: "(bytes \<Rightarrow> string) \<Rightarrow> rx_label \<Rightarrow> rcv \<Rightarrow> rcv \<Rightarrow> bool" for sha where
  step_block: "rcv_step sha (LBlock data) r (OnBlock data r)"
| step_done: "rcv_step sha (LDone index hash) r (OnFileDone index hash r)"
| step_stop: "rcv_step sha LStop r (Stop_request r)"
| step_body: "r_running r \<Longrightarrow> Run_body sha now t1 t2 r = Some r' \<Longrightarrow> rcv_step sha (LBody now t1 t2) r r'"
| step_exit: "r_running r \<Longrightarrow> w_stop (r_world r) \<or> r_failed r \<Longrightarrow> Run_exit now r = Some r' \<Longrightarrow>
    rcv_step sha (LExit now) r r'"
| step_close: "\<not> r_running r \<Longrightarrow> w_stop (r_world r) \<Longrightarrow> rcv_step sha LClose r (Stop_close r)"

inductive rcv_run :: "(bytes \<Rightarrow> string) \<Rightarrow> rx_label list \<Rightarrow> rcv \<Rightarrow> rcv \<Rightarrow> bool" for sha where
  run_nil: "rcv_run sha [] r r"
| run_step: "rcv_run sha ls r r1 \<Longrightarrow> rcv_step sha l r1 r2 \<Longrightarrow> rcv_run sha (ls @ [l]) r r2"

inductive_cases rcv_stepE: "rcv_step sha l r r'"

end
