(* ===== verification/Receiver_Inv.thy ===== *)
theory Receiver_Inv
  imports Receiver
begin

text \<open>
  The invariant of the receiving engine: what the part files and the renamed files on disk hold, relative to the bitmaps and
  flags kept in memory.  The invariant is stated once in the locale \<open>rx_env\<close>, over an abstract description of what the
  peer may send, and is kept by every operation of the writer thread; the theory of the properties instantiates it.
\<close>


section \<open>Blocks of a file's contents\<close>

text \<open>Block \<open>k\<close> of contents \<open>c\<close> of a file of \<open>n\<close> bytes.\<close>

definition blk :: "nat \<Rightarrow> nat \<Rightarrow> bytes \<Rightarrow> bytes" where
  "blk n k c = take (min 1100 (n - k * 1100)) (drop (k * 1100) c)"

lemma length_blk: "n \<le> length c \<Longrightarrow> length (blk n k c) = min 1100 (n - k * 1100)"
  by (auto simp: blk_def)

lemma blk_overwrite_outside:
  assumes "n \<le> length c" "k * 1100 < n" "k < first \<or> first * 1100 + length d \<le> k * 1100"
  shows "blk n k (overwrite (first * 1100) d c) = blk n k c"
proof (rule nth_equalityI)
  show "length (blk n k (overwrite (first * 1100) d c)) = length (blk n k c)"
    using assms by (simp add: length_blk)
next
  fix i assume "i < length (blk n k (overwrite (first * 1100) d c))"
  then have i: "i < 1100" "i < n - k * 1100" "k * 1100 + i < length c" using assms by (auto simp: length_blk)
  have "k < first \<Longrightarrow> k * 1100 + i < first * 1100" using i(1) by simp
  then have "overwrite (first * 1100) d c ! (k * 1100 + i) = c ! (k * 1100 + i)"
    using assms(3) i by (subst nth_overwrite) auto
  then show "blk n k (overwrite (first * 1100) d c) ! i = blk n k c ! i"
    using i assms(1) by (simp add: blk_def add.commute)
qed

lemma blk_overwrite_inside:
  assumes "n \<le> length c" "first \<le> k" "k * 1100 < n" "length d = min (m * 1100) (n - first * 1100)" "k < first + m"
  shows "blk n k (overwrite (first * 1100) d c) = take (min 1100 (n - k * 1100)) (drop ((k - first) * 1100) d)"
proof (rule nth_equalityI)
  have kf: "k * 1100 = first * 1100 + (k - first) * 1100" using assms(2) by (simp add: algebra_simps)
  have fit: "(k - first) * 1100 + min 1100 (n - k * 1100) \<le> length d"
  proof -
    have "Suc (k - first) * 1100 \<le> m * 1100" using assms(2,5) by (intro mult_right_mono) auto
    then show ?thesis using assms(3) kf by (auto simp: assms(4))
  qed
  then show "length (blk n k (overwrite (first * 1100) d c)) = length (take (min 1100 (n - k * 1100)) (drop ((k - first) * 1100) d))"
    using assms(1) by (simp add: length_blk)
  fix i assume "i < length (blk n k (overwrite (first * 1100) d c))"
  then have i: "i < min 1100 (n - k * 1100)" using assms(1) by (simp add: length_blk)
  have "overwrite (first * 1100) d c ! (k * 1100 + i) = d ! ((k - first) * 1100 + i)"
    using i fit kf by (subst nth_overwrite) auto
  then show "blk n k (overwrite (first * 1100) d c) ! i = take (min 1100 (n - k * 1100)) (drop ((k - first) * 1100) d) ! i"
    using i fit by (simp add: blk_def add.commute)
qed

text \<open>Contents that agree block by block agree.\<close>

lemma blk_ext:
  assumes "length c = n" "length d = n" "\<And>k. k * 1100 < n \<Longrightarrow> blk n k c = blk n k d"
  shows "c = d"
proof (rule nth_equalityI)
  show "length c = length d" using assms by simp
  fix i assume i: "i < length c"
  let ?k = "i div 1100" and ?j = "i mod 1100"
  have ij: "i = ?k * 1100 + ?j" by simp
  have j: "?j < min 1100 (n - ?k * 1100)"
  proof -
    have "?j < 1100" by simp
    moreover have "?j < n - ?k * 1100" using i assms(1) ij by linarith
    ultimately show ?thesis by simp
  qed
  have "blk n ?k e ! ?j = e ! i" if "length e = n" for e
    using j that by (simp add: blk_def)
  then show "c ! i = d ! i" using assms i by (metis div_times_less_eq_dividend le_less_trans)
qed

section \<open>The contract a transfer runs under\<close>

text \<open>
  What the receiver may rely on, abstractly: \<open>sz i\<close> is the size of file \<open>i\<close>, \<open>B i k d\<close> holds of the payloads that may
  arrive for block \<open>k\<close>, \<open>H i h\<close> of the hashes the peer may announce, \<open>L i n\<close> of the part file's lengths; \<open>Q i c\<close> is
  what is then known of the contents a verified file has.
\<close>

locale rx_env =
  fixes sha :: "bytes \<Rightarrow> string"
    and sz :: "nat \<Rightarrow> nat"
    and B :: "nat \<Rightarrow> nat \<Rightarrow> bytes \<Rightarrow> bool"
    and H :: "nat \<Rightarrow> string \<Rightarrow> bool"
    and L :: "nat \<Rightarrow> nat \<Rightarrow> bool"
    and Q :: "nat \<Rightarrow> bytes \<Rightarrow> bool"
    and V :: "nat set"
  assumes verified_content:
      "(\<And>k. k * 1100 < sz i \<Longrightarrow> B i k (blk (sz i) k c)) \<Longrightarrow> sz i \<le> length c \<Longrightarrow> L i (length c) \<Longrightarrow>
       H i (sha c) \<Longrightarrow> Q i c"
    and exact_length: "L i (sz i)"
begin

definition static_ok :: "nat \<Rightarrow> FileRx \<Rightarrow> bool" where
  "static_ok i f \<longleftrightarrow> unat (rx_size f) = sz i \<and> sz i \<le> kMaxFileSize \<and> rx_blocks f = BlockCountFor (rx_size f) \<and>
     bm_wf (rx_bitmap f) \<and> bm_size (rx_bitmap f) = rx_blocks f"

definition disk_ok :: "nat \<Rightarrow> FileRx \<Rightarrow> world \<Rightarrow> bool" where
  "disk_ok i f w \<longleftrightarrow>
     (\<not> rx_verified f \<and> 0 < rx_blocks f \<longrightarrow>
        (\<exists>c. w_files w (rx_part_path f) = Some c \<and> sz i \<le> length c \<and> L i (length c) \<and>
             (\<forall>k. bm_has (rx_bitmap f) k \<longrightarrow> B i k (blk (sz i) k c)))) \<and>
     (rx_verified f \<and> i \<notin> V \<longrightarrow> (\<exists>c. w_files w (rx_final_path f) = Some c \<and> Q i c))"

definition flags_ok :: "nat \<Rightarrow> FileRx \<Rightarrow> bool" where
  "flags_ok i f \<longleftrightarrow>
     (rx_complete f \<and> \<not> rx_verified f \<longrightarrow> bm_Complete (rx_bitmap f)) \<and>
     (rx_expected_sha256 f \<noteq> [] \<longrightarrow> H i (rx_expected_sha256 f))"

definition file_ok :: "nat \<Rightarrow> FileRx \<Rightarrow> world \<Rightarrow> bool" where
  "file_ok i f w \<longleftrightarrow> static_ok i f \<and> disk_ok i f w \<and> flags_ok i f"

definition files_ok :: "rcv \<Rightarrow> bool" where
  "files_ok r \<longleftrightarrow> (\<forall>i<length (r_rx r). file_ok i (r_rx r ! i) (r_world r))"

lemma blocks_iff: "static_ok i f \<Longrightarrow> k < unat (rx_blocks f) \<longleftrightarrow> k * 1100 < sz i"
  by (simp add: static_ok_def unat_BlockCountFor lt_ceil_iff)

lemma complete_iff: "static_ok i f \<Longrightarrow> bm_Complete (rx_bitmap f) \<longleftrightarrow> (\<forall>k. k * 1100 < sz i \<longrightarrow> bm_has (rx_bitmap f) k)"
  using blocks_iff[of i f] bm_Complete_iff[of "rx_bitmap f"] bm_has_size[of "rx_bitmap f"]
  by (auto simp: static_ok_def set_eq_iff)

end

text \<open>Paths: every part file and every target is at a place of its own.\<close>

definition paths_ok :: "FileRx list \<Rightarrow> bool" where
  "paths_ok rx \<longleftrightarrow> distinct (map rx_part_path rx @ map rx_final_path rx)"

text \<open>What a step on file \<open>i\<close> may change: that file's record, its own two paths and nothing else on disk.\<close>

definition same_paths :: "FileRx \<Rightarrow> FileRx \<Rightarrow> bool" where
  "same_paths f g \<longleftrightarrow> rx_part_path f = rx_part_path g \<and> rx_final_path f = rx_final_path g"

definition touches :: "nat \<Rightarrow> rcv \<Rightarrow> rcv \<Rightarrow> bool" where
  "touches i r r' \<longleftrightarrow>
     (\<exists>f'. r_rx r' = (r_rx r)[i := f'] \<and> same_paths f' (r_rx r ! i)) \<and>
     (\<forall>q. q \<noteq> rx_part_path (r_rx r ! i) \<longrightarrow> q \<noteq> rx_final_path (r_rx r ! i) \<longrightarrow>
        w_files (r_world r') q = w_files (r_world r) q)"

lemma paths_ok_neq: "paths_ok rx \<Longrightarrow> i < length rx \<Longrightarrow> j < length rx \<Longrightarrow> i \<noteq> j \<Longrightarrow>
   rx_part_path (rx ! j) \<noteq> rx_part_path (rx ! i) \<and> rx_part_path (rx ! j) \<noteq> rx_final_path (rx ! i) \<and>
   rx_final_path (rx ! j) \<noteq> rx_part_path (rx ! i) \<and> rx_final_path (rx ! j) \<noteq> rx_final_path (rx ! i)"
proof -
  assume a: "paths_ok rx" "i < length rx" "j < length rx" "i \<noteq> j"
  have d: "distinct (map rx_part_path rx)" "distinct (map rx_final_path rx)"
    "set (map rx_part_path rx) \<inter> set (map rx_final_path rx) = {}" using a(1) by (auto simp: paths_ok_def)
  have "rx_part_path (rx ! k) \<in> set (map rx_part_path rx)" "rx_final_path (rx ! k) \<in> set (map rx_final_path rx)"
    if "k < length rx" for k using that by auto
  then have "rx_part_path (rx ! k) \<noteq> rx_final_path (rx ! l)" if "k < length rx" "l < length rx" for k l
    using d(3) that by (metis disjoint_iff)
  then show ?thesis using a(2-4) nth_eq_iff_index_eq[OF d(1), of j i] nth_eq_iff_index_eq[OF d(2), of j i] by force
qed

lemma paths_ok_own: "paths_ok rx \<Longrightarrow> i < length rx \<Longrightarrow> rx_part_path (rx ! i) \<noteq> rx_final_path (rx ! i)"
proof -
  assume a: "paths_ok rx" "i < length rx"
  then have "set (map rx_part_path rx) \<inter> set (map rx_final_path rx) = {}" by (auto simp: paths_ok_def)
  moreover have "rx_part_path (rx ! i) \<in> set (map rx_part_path rx)" "rx_final_path (rx ! i) \<in> set (map rx_final_path rx)"
    using a(2) by auto
  ultimately show ?thesis by (metis disjoint_iff)
qed

lemma map_upd_same: "g f = g (xs ! i) \<Longrightarrow> map g (xs[i := f]) = map g xs"
  by (metis list_update_id map_update)

lemma paths_ok_update: "paths_ok rx \<Longrightarrow> same_paths f (rx ! i) \<Longrightarrow> paths_ok (rx[i := f])"
proof -
  assume a: "paths_ok rx" "same_paths f (rx ! i)"
  have "map rx_part_path (rx[i := f]) = map rx_part_path rx" "map rx_final_path (rx[i := f]) = map rx_final_path rx"
    using a(2) by (auto simp: same_paths_def intro!: map_upd_same)
  then show ?thesis using a(1) by (simp add: paths_ok_def)
qed

lemma touches_refl: "touches i r r"
  unfolding touches_def same_paths_def by (intro conjI exI[of _ "r_rx r ! i"]) auto

lemma touches_length: "touches i r r' \<Longrightarrow> length (r_rx r') = length (r_rx r)"
  by (auto simp: touches_def)

lemma touches_nth: "touches i r r' \<Longrightarrow> j \<noteq> i \<Longrightarrow> r_rx r' ! j = r_rx r ! j"
  by (auto simp: touches_def)

lemma touches_same_paths: "touches i r r' \<Longrightarrow> same_paths (r_rx r' ! j) (r_rx r ! j)"
  by (cases "i < length (r_rx r)"; cases "j = i") (auto simp: touches_def same_paths_def list_update_beyond)

lemma touches_trans: "touches i r r1 \<Longrightarrow> touches i r1 r2 \<Longrightarrow> touches i r r2"
proof -
  assume a: "touches i r r1" "touches i r1 r2"
  have sp: "same_paths (r_rx r1 ! i) (r_rx r ! i)" by (rule touches_same_paths[OF a(1)])
  with a show ?thesis unfolding touches_def same_paths_def by fastforce
qed

lemma touches_paths_ok: "touches i r r' \<Longrightarrow> paths_ok (r_rx r) \<Longrightarrow> paths_ok (r_rx r')"
  using paths_ok_update by (auto simp: touches_def)

lemma touches_upd: "same_paths f (r_rx r ! i) \<Longrightarrow> r_rx r1 = r_rx r \<Longrightarrow>
   (\<And>q. q \<noteq> rx_part_path (r_rx r ! i) \<Longrightarrow> q \<noteq> rx_final_path (r_rx r ! i) \<Longrightarrow>
      w_files (r_world r1) q = w_files (r_world r) q) \<Longrightarrow> touches i r (upd_rx i f r1)"
  by (auto simp: touches_def upd_rx_def)

lemma rx_Fail_sel [simp]: "r_rx (rx_Fail c m r) = r_rx r" "r_world (rx_Fail c m r) = r_world r"
  by (simp_all add: rx_Fail_def emit_def)

lemma emit_sel [simp]: "r_rx (emit e r) = r_rx r" "r_world (emit e r) = r_world r"
  by (simp_all add: emit_def)

lemma upd_rx_sel [simp]: "r_rx (upd_rx i f r) = (r_rx r)[i := f]" "r_world (upd_rx i f r) = r_world r"
  by (simp_all add: upd_rx_def)

lemma touches_cong: "r_rx r2 = r_rx r1 \<Longrightarrow> r_world r2 = r_world r1 \<Longrightarrow> touches i r r2 = touches i r r1"
  by (simp add: touches_def)

text \<open>The cached acknowledgement base is the only thing a scan changes in a bitmap.\<close>

definition bm_same :: "bitmap \<Rightarrow> bitmap \<Rightarrow> bool" where
  "bm_same b' b \<longleftrightarrow> bm_wf b' \<and> bm_set b' = bm_set b \<and> bm_size b' = bm_size b \<and> bm_count b' = bm_count b"

lemma bm_AckBase_same: "bm_AckBase b = Some (i, b') \<Longrightarrow> bm_wf b \<Longrightarrow> bm_same b' b"
  using bm_AckBase_spec[of b] bm_wf_ack[of b] by (auto simp: bm_same_def)

lemma bm_Holes_same: "bm_Holes frm m b = Some (hs, b') \<Longrightarrow> bm_wf b \<Longrightarrow> bm_same b' b"
  using bm_AckBase_same by (fastforce simp: bm_Holes_def bm_same_def split: if_splits bind_splits)

lemma bm_same_trans: "bm_same a b \<Longrightarrow> bm_same b c \<Longrightarrow> bm_same a c"
  by (simp add: bm_same_def)

lemma build_sack_same:
  assumes "build_sack f rate loss = Some (s, b)" "bm_wf (rx_bitmap f)"
  shows "bm_same b (rx_bitmap f)"
proof -
  obtain i b1 where 1: "bm_AckBase (rx_bitmap f) = Some (i, b1)"
    using assms(1) by (auto simp: build_sack_def split: bind_splits)
  note s1 = bm_AckBase_same[OF 1 assms(2)]
  have "b = b1 \<or> (\<exists>hs. bm_Holes i kSackMaxRuns b1 = Some (hs, b))"
    using assms(1) 1 by (auto simp: build_sack_def Let_def split: bind_splits if_splits)
  then show ?thesis using s1 bm_Holes_same bm_same_trans by (metis bm_same_def)
qed

context rx_env
begin

text \<open>A step that touches only file \<open>i\<close> keeps the invariant if it re-establishes it for that file.\<close>

lemma files_ok_touches:
  assumes "files_ok r" "paths_ok (r_rx r)" "touches i r r'" "i < length (r_rx r)"
    "file_ok i (r_rx r' ! i) (r_world r')"
  shows "files_ok r' \<and> paths_ok (r_rx r')"
proof
  show "paths_ok (r_rx r')" using assms(2,3) by (rule touches_paths_ok[rotated])
  show "files_ok r'" unfolding files_ok_def
  proof (intro allI impI)
    fix j assume j: "j < length (r_rx r')"
    show "file_ok j (r_rx r' ! j) (r_world r')"
    proof (cases "j = i")
      case False
      have jl: "j < length (r_rx r)" using j touches_length[OF assms(3)] by simp
      note ne = paths_ok_neq[OF assms(2) assms(4) jl False[symmetric]]
      have "w_files (r_world r') (rx_part_path (r_rx r ! j)) = w_files (r_world r) (rx_part_path (r_rx r ! j))"
        "w_files (r_world r') (rx_final_path (r_rx r ! j)) = w_files (r_world r) (rx_final_path (r_rx r ! j))"
        using assms(3) ne unfolding touches_def by blast+
      moreover have "file_ok j (r_rx r ! j) (r_world r)" using assms(1) jl by (simp add: files_ok_def)
      ultimately show ?thesis using touches_nth[OF assms(3) False] by (simp add: file_ok_def disk_ok_def)
    qed (use assms(5) in simp)
  qed
qed

text \<open>Changes of bookkeeping fields only.\<close>

definition similar :: "FileRx \<Rightarrow> FileRx \<Rightarrow> bool" where
  "similar f g \<longleftrightarrow> rx_size f = rx_size g \<and> rx_blocks f = rx_blocks g \<and> same_paths f g \<and>
     bm_wf (rx_bitmap f) \<and> bm_set (rx_bitmap f) = bm_set (rx_bitmap g) \<and> bm_size (rx_bitmap f) = bm_size (rx_bitmap g) \<and>
     bm_count (rx_bitmap f) = bm_count (rx_bitmap g) \<and>
     rx_verified f = rx_verified g \<and> rx_complete f = rx_complete g \<and> rx_expected_sha256 f = rx_expected_sha256 g"

lemma similar_file_ok: "similar f g \<Longrightarrow> file_ok i g w \<Longrightarrow> file_ok i f w"
proof -
  assume s: "similar f g" and g: "file_ok i g w"
  have "bm_has (rx_bitmap f) k = bm_has (rx_bitmap g) k" for k using s by (metis similar_def bm_set_iff)
  moreover have "bm_Complete (rx_bitmap f) = bm_Complete (rx_bitmap g)" using s by (simp add: similar_def bm_Complete_def)
  ultimately show ?thesis using s g
    by (simp add: file_ok_def static_ok_def disk_ok_def flags_ok_def similar_def same_paths_def)
qed

lemma SendSack_similar:
  assumes "SendSack now i r = Some r'" "bm_wf (rx_bitmap (r_rx r ! i))" "i < length (r_rx r)"
  shows "similar (r_rx r' ! i) (r_rx r ! i) \<and> r_world r' = r_world r \<and> touches i r r'"
proof -
  obtain s b f1 where b: "build_sack (r_rx r ! i) (r_recv_rate_bps r) (r_loss_permille r) = Some (s, b)"
    and rx: "r_rx r' = (r_rx r)[i := f1]" and w: "r_world r' = r_world r"
    and f1: "rx_bitmap f1 = b" "rx_size f1 = rx_size (r_rx r ! i)" "rx_blocks f1 = rx_blocks (r_rx r ! i)"
      "same_paths f1 (r_rx r ! i)" "rx_verified f1 = rx_verified (r_rx r ! i)" "rx_complete f1 = rx_complete (r_rx r ! i)"
      "rx_expected_sha256 f1 = rx_expected_sha256 (r_rx r ! i)"
    using assms(1) by (auto simp: SendSack_def Let_def same_paths_def split: bind_splits)
  have "bm_same b (rx_bitmap (r_rx r ! i))" by (rule build_sack_same[OF b assms(2)])
  then show ?thesis using rx w f1 assms(3) by (auto simp: similar_def touches_def bm_same_def)
qed

lemma SendSack_ok:
  assumes "files_ok r" "paths_ok (r_rx r)" "SendSack now i r = Some r'" "i < length (r_rx r)"
  shows "files_ok r' \<and> paths_ok (r_rx r')"
proof -
  have f: "file_ok i (r_rx r ! i) (r_world r)" using assms by (simp add: files_ok_def)
  then have "bm_wf (rx_bitmap (r_rx r ! i))" by (simp add: file_ok_def static_ok_def)
  from SendSack_similar[OF assms(3) this assms(4)] f show ?thesis
    using files_ok_touches[OF assms(1,2) _ assms(4)] similar_file_ok by metis
qed

text \<open>Verification keeps the invariant: a file is renamed only with contents that were hashed and match.\<close>

lemma verify_hash_spec:
  assumes "verify_hash sha f w = (hex, w')" "static_ok i f"
  shows "w_stop w \<longrightarrow> w_stop w'" "\<And>q. q \<noteq> rx_part_path f \<Longrightarrow> w_files w' q = w_files w q"
    "0 < rx_blocks f \<Longrightarrow> w_files w' = w_files w"
    "hex = Some h \<Longrightarrow> \<exists>c. w_files w' (rx_part_path f) = Some c \<and> sha c = h \<and> (rx_blocks f = 0 \<longrightarrow> c = [])"
proof -
  obtain r w1 where n: "next_sys w = (r, w1)" by fastforce
  note same = next_sysD[OF n]
  have "(w_stop w \<longrightarrow> w_stop w') \<and> (\<forall>q. q \<noteq> rx_part_path f \<longrightarrow> w_files w' q = w_files w q) \<and>
    (0 < rx_blocks f \<longrightarrow> w_files w' = w_files w) \<and>
    (hex = Some h \<longrightarrow> (\<exists>c. w_files w' (rx_part_path f) = Some c \<and> sha c = h \<and> (rx_blocks f = 0 \<longrightarrow> c = [])))"
  proof (cases "rx_blocks f = 0")
    case True
    show ?thesis
    proof (cases "is_fail r \<or> rx_part_path f \<in> w_dirs w1")
      case True
      then have "hex = None" "w' = w1" using assms(1) n \<open>rx_blocks f = 0\<close> by (auto simp: verify_hash_def CreateEmptyFile_def)
      then show ?thesis using same \<open>rx_blocks f = 0\<close> by auto
    next
      case False
      then have "hex = Some (sha [])" "w' = w1\<lparr>w_files := (w_files w1)(rx_part_path f \<mapsto> [])\<rparr>"
        using assms(1) n \<open>rx_blocks f = 0\<close> by (auto simp: verify_hash_def CreateEmptyFile_def)
      then show ?thesis using same \<open>rx_blocks f = 0\<close> by auto
    qed
  next
    case False
    then have "Sha256File sha (rx_part_path f) w = (hex, w')" using assms(1) by (simp add: verify_hash_def)
    from Sha256File_spec[OF this] False show ?thesis by auto
  qed
  then show "w_stop w \<longrightarrow> w_stop w'" "\<And>q. q \<noteq> rx_part_path f \<Longrightarrow> w_files w' q = w_files w q"
    "0 < rx_blocks f \<Longrightarrow> w_files w' = w_files w"
    "hex = Some h \<Longrightarrow> \<exists>c. w_files w' (rx_part_path f) = Some c \<and> sha c = h \<and> (rx_blocks f = 0 \<longrightarrow> c = [])"
    by blast+
qed

lemma reject_file_ok:
  assumes "static_ok i f" "\<not> rx_verified f" "flags_ok i f" "i < length (r_rx r)" "same_paths f (r_rx r ! i)"
    "0 < rx_blocks f \<Longrightarrow> \<exists>c. w_files (r_world r) (rx_part_path f) = Some c \<and> sz i \<le> length c \<and> L i (length c)"
  shows "file_ok i (r_rx (reject_file i f r) ! i) (r_world (reject_file i f r)) \<and> touches i r (reject_file i f r)"
proof -
  let ?f1 = "f\<lparr>rx_bitmap := bm_Reset (rx_blocks f), rx_complete := False, rx_verifying := False,
                 rx_frontier := 0, rx_complete_sacks_sent := 0\<rparr>"
  let ?r1 = "r\<lparr>r_bytes_received := r_bytes_received r - min (r_bytes_received r) (held_bytes f)\<rparr>"
  show ?thesis
  proof (cases "0 < rx_blocks f")
    case True
    obtain res w where o: "OpenWriter (rx_part_path f) (r_world r) = (res, w)" by fastforce
    have w: "w_files w = w_files (r_world r) \<or> w_files w = (w_files (r_world r))(rx_part_path f \<mapsto> file_bytes (r_world r) (rx_part_path f))"
      using OpenWriter_spec[OF o] by blast
    obtain c where c: "w_files (r_world r) (rx_part_path f) = Some c" "sz i \<le> length c" "L i (length c)"
      using assms(6)[OF True] by blast
    have wf: "w_files w = w_files (r_world r)" using w c(1) by (auto simp: file_bytes_def fun_upd_idem)
    show ?thesis using True o c wf assms
      by (auto simp: reject_file_def Let_def file_ok_def static_ok_def disk_ok_def flags_ok_def touches_def same_paths_def)
  next
    case False
    then show ?thesis using assms
      by (auto simp: reject_file_def Let_def file_ok_def static_ok_def disk_ok_def flags_ok_def touches_def same_paths_def)
  qed
qed
end

context rx_env
begin

lemma hashed_content:
  assumes "static_ok i f" "flags_ok i f" "rx_complete f" "\<not> rx_verified f" "rx_expected_sha256 f \<noteq> []"
    "sha c = rx_expected_sha256 f" "rx_blocks f = 0 \<longrightarrow> c = []"
    and part: "0 < rx_blocks f \<Longrightarrow> sz i \<le> length c \<and> L i (length c) \<and> (\<forall>k. bm_has (rx_bitmap f) k \<longrightarrow> B i k (blk (sz i) k c))"
  shows "Q i c"
proof (rule verified_content)
  show "H i (sha c)" using assms(2,5,6) by (simp add: flags_ok_def)
  have z: "rx_blocks f = 0 \<longleftrightarrow> sz i = 0" using blocks_iff[OF assms(1), of 0] by (auto simp: unat_eq_0)
  show "sz i \<le> length c" "L i (length c)"
    using part assms(7) z exact_length[of i] by (cases "rx_blocks f = 0"; force simp: word_neq_0_conv)+
  fix k assume k: "k * 1100 < sz i"
  then have "0 < rx_blocks f" using z by (simp add: word_neq_0_conv flip: word_gt_0)
  moreover have "bm_has (rx_bitmap f) k" using complete_iff[OF assms(1)] assms(2-4) k by (auto simp: flags_ok_def)
  ultimately show "B i k (blk (sz i) k c)" using part by auto
qed

lemma verified_rename_ok:
  assumes i: "i < length (r_rx r)"
    and f: "file_ok i f w" "\<not> rx_verified f" "rx_complete f" "rx_expected_sha256 f \<noteq> []" "same_paths f (r_rx r ! i)"
    and frame: "\<And>q. q \<noteq> rx_part_path f \<Longrightarrow> w_files w q = w_files (r_world r) q"
    and c: "w_files w (rx_part_path f) = Some c" "sha c = rx_expected_sha256 f" "rx_blocks f = 0 \<longrightarrow> c = []"
    and rr: "RenameReplace (rx_part_path f) (rx_final_path f) w = (res, w2)"
    and r': "r' = (case res of
        Inl e \<Rightarrow> rx_Fail ''io'' (''rename failed: '' @ e) (upd_rx i f (r\<lparr>r_world := w2\<rparr>))
      | Inr _ \<Rightarrow> emit (FileOk (rx_index f)) (upd_rx i (f\<lparr>rx_verified := True, rx_verifying := False\<rparr>)
                  (r\<lparr>r_world := w2, r_files_done := r_files_done r + 1\<rparr>)))"
  shows "file_ok i (r_rx r' ! i) (r_world r') \<and> touches i r r'"
proof (cases res)
  case (Inl e)
  have "w_files w2 = w_files w" using RenameReplace_spec[OF rr] Inl by auto
  then show ?thesis using f frame i r' Inl by (auto simp: touches_def file_ok_def disk_ok_def same_paths_def)
next
  case (Inr u)
  have w2: "w_files w2 = ((w_files w)(rx_part_path f := None))(rx_final_path f \<mapsto> c)"
    using RenameReplace_spec[OF rr] Inr c(1) by auto
  have "Q i c" by (rule hashed_content[of i f]) (use f c in \<open>auto simp: file_ok_def disk_ok_def\<close>)
  then show ?thesis using f w2 i frame r' Inr
    by (auto simp: file_ok_def static_ok_def disk_ok_def flags_ok_def touches_def same_paths_def)
qed

lemma MaybeVerify_ok:
  assumes "files_ok r" "paths_ok (r_rx r)" "i < length (r_rx r)"
  shows "files_ok (MaybeVerify sha i r) \<and> paths_ok (r_rx (MaybeVerify sha i r)) \<and> touches i r (MaybeVerify sha i r)"
proof -
  let ?f = "r_rx r ! i" and ?r' = "MaybeVerify sha i r"
  have f: "file_ok i ?f (r_world r)" using assms by (simp add: files_ok_def)
  have "file_ok i (r_rx ?r' ! i) (r_world ?r') \<and> touches i r ?r'"
  proof (cases "rx_verified ?f \<or> rx_verifying ?f \<or> \<not> rx_complete ?f \<or> rx_expected_sha256 ?f = []")
    case True
    then show ?thesis using f by (simp add: MaybeVerify_def Let_def touches_refl)
  next
    case False
    let ?f1 = "?f\<lparr>rx_verifying := True, rx_writer := None\<rparr>"
    obtain hex w where v: "verify_hash sha ?f1 (r_world r) = (hex, w)" by fastforce
    have st: "static_ok i ?f1" "flags_ok i ?f1" using f by (auto simp: file_ok_def static_ok_def flags_ok_def)
    note vh = verify_hash_spec[OF v st(1)]
    let ?r1 = "r\<lparr>r_world := w\<rparr>"
    have disk: "disk_ok i ?f1 w" using f vh(3) False by (auto simp: file_ok_def disk_ok_def)
    have f1: "file_ok i ?f1 w" using st disk by (simp add: file_ok_def)
    consider "w_stop w" | "\<not> w_stop w" "hex = None" | h where "\<not> w_stop w" "hex = Some h" "h \<noteq> rx_expected_sha256 ?f1"
      | "\<not> w_stop w" "hex = Some (rx_expected_sha256 ?f1)" by (cases hex) auto
    then show ?thesis
    proof cases
      case 1
      then have "?r' = upd_rx i (?f1\<lparr>rx_verifying := False\<rparr>) ?r1" using False v by (simp add: MaybeVerify_def Let_def)
      then show ?thesis using f1 vh(2) assms(3) by (auto simp: file_ok_def static_ok_def flags_ok_def disk_ok_def touches_def same_paths_def)
    next
      case 2
      then have "?r' = rx_Fail ''io'' ''verify read failed'' (upd_rx i ?f1 ?r1)" using False v by (simp add: MaybeVerify_def Let_def)
      then show ?thesis using f1 vh(2) assms(3) by (auto simp: touches_def same_paths_def)
    next
      case 3
      then have r': "?r' = reject_file i ?f1 ?r1" using False v by (simp add: MaybeVerify_def Let_def)
      have "file_ok i (r_rx ?r' ! i) (r_world ?r') \<and> touches i ?r1 ?r'" unfolding r'
        by (rule reject_file_ok) (use st False assms(3) disk in \<open>auto simp: same_paths_def disk_ok_def\<close>)
      moreover have "touches i r ?r1" using vh(2) by (auto simp: touches_def same_paths_def intro!: exI[of _ ?f])
      ultimately show ?thesis using touches_trans by blast
    next
      case 4
      obtain res w2 where rr: "RenameReplace (rx_part_path ?f1) (rx_final_path ?f1) w = (res, w2)" by fastforce
      obtain c where c: "w_files w (rx_part_path ?f1) = Some c" "sha c = rx_expected_sha256 ?f1" "rx_blocks ?f1 = 0 \<longrightarrow> c = []"
        using vh(4)[OF 4(2)] by auto
      show ?thesis
        by (rule verified_rename_ok[OF assms(3) f1 _ _ _ _ vh(2) c rr])
          (use False 4 v rr in \<open>simp_all add: same_paths_def MaybeVerify_def Let_def split: sum.splits\<close>)
    qed
  qed
  then show ?thesis using files_ok_touches[OF assms(1,2) _ assms(3)] by blast
qed

section \<open>Accepting and writing blocks\<close>

text \<open>A queued block is in range and, where its index and length fit the file, carries a payload the contract allows.\<close>

definition pending_ok :: "rcv \<Rightarrow> Pending \<Rightarrow> bool" where
  "pending_ok r p \<longleftrightarrow> unat (p_file p) < length (r_rx r) \<and> length (p_payload p) = unat (p_len p) \<and>
     (let i = unat (p_file p) in
      unat (p_block p) * 1100 < sz i \<and> unat (p_len p) = min 1100 (sz i - unat (p_block p) * 1100) \<longrightarrow>
      B i (unat (p_block p)) (p_payload p))"

text \<open>The run buffer holds consecutive blocks that are new to the file.\<close>

definition run_ok :: "rcv \<Rightarrow> run_buf \<Rightarrow> bool" where
  "run_ok r u \<longleftrightarrow>
     (case ru_file u of None \<Rightarrow> ru_data u = [] \<and> ru_blocks u = []
      | Some i \<Rightarrow>
          let f = r_rx r ! i; first = unat (ru_first u); n = length (ru_blocks u) in
          i < length (r_rx r) \<and> 0 < n \<and> \<not> rx_verified f \<and> 0 < rx_blocks f \<and>
          map unat (ru_blocks u) = [first ..< first + n] \<and> (first + n - 1) * 1100 < sz i \<and>
          length (ru_data u) = min (n * 1100) (sz i - first * 1100) \<and>
          (\<forall>k. first \<le> k \<longrightarrow> k < first + n \<longrightarrow> \<not> bm_has (rx_bitmap f) k \<and>
             B i k (take (min 1100 (sz i - k * 1100)) (drop ((k - first) * 1100) (ru_data u)))))"

lemma AcceptBlock_ok:
  assumes "AcceptBlock p r = (fresh, r')" "files_ok r" "pending_ok r p"
  shows "similar (r_rx r' ! unat (p_file p)) (r_rx r ! unat (p_file p)) \<and> touches (unat (p_file p)) r r' \<and>
    r_world r' = r_world r \<and> r_queue r' = r_queue r \<and> r_pending_done r' = r_pending_done r \<and>
    (fresh \<longrightarrow> (let i = unat (p_file p); k = unat (p_block p) in
       \<not> rx_verified (r_rx r ! i) \<and> 0 < rx_blocks (r_rx r ! i) \<and> k * 1100 < sz i \<and> \<not> bm_has (rx_bitmap (r_rx r ! i)) k \<and>
       length (p_payload p) = min 1100 (sz i - k * 1100) \<and> B i k (p_payload p)))"
proof -
  let ?i = "unat (p_file p)" let ?f = "r_rx r ! ?i"
  have i: "?i < length (r_rx r)" using assms(3) by (simp add: pending_ok_def)
  have st: "static_ok ?i ?f" using assms(2) i by (simp add: files_ok_def file_ok_def)
  have wf: "bm_wf (rx_bitmap ?f)" using st by (simp add: static_ok_def)
  show ?thesis
  proof (cases "rx_verified ?f \<or> rx_blocks ?f = 0 \<or> rx_blocks ?f \<le> p_block p \<or> p_len p \<noteq> BlockLenFor (rx_size ?f) (p_block p)")
    case True
    then have "fresh = False \<and> r' = r" using assms(1) by (auto simp: AcceptBlock_def Let_def split: if_splits)
    then show ?thesis using wf by (simp add: touches_refl similar_def same_paths_def)
  next
    case False
    define f2 where "f2 = (if rx_frontier ?f \<le> p_block p
       then ?f\<lparr>rx_dirty := True, rx_expected_since_sack := rx_expected_since_sack ?f + (p_block p - rx_frontier ?f + 1),
               rx_frontier := p_block p + 1\<rparr> else ?f\<lparr>rx_dirty := True\<rparr>)"
    have sim: "similar f2 ?f" using wf by (auto simp: f2_def similar_def same_paths_def)
    have f: "fresh = (\<not> bm_has (rx_bitmap ?f) (unat (p_block p)))" "r_rx r' = (r_rx r)[?i := f2]"
      "r_world r' = r_world r" "r_queue r' = r_queue r" "r_pending_done r' = r_pending_done r"
      using assms(1) False by (auto simp: AcceptBlock_def Let_def f2_def upd_rx_def split: if_splits)
    have k: "unat (p_block p) * 1100 < sz ?i"
      using False blocks_iff[OF st, of "unat (p_block p)"] by (simp add: word_le_nat_alt)
    have len: "unat (p_len p) = min 1100 (sz ?i - unat (p_block p) * 1100)"
      using False st by (simp add: unat_BlockLenFor static_ok_def)
    have "B ?i (unat (p_block p)) (p_payload p) \<and> length (p_payload p) = unat (p_len p)"
      using assms(3) k len by (simp add: pending_ok_def Let_def)
    then show ?thesis using f sim False i k len
      by (simp add: touches_def similar_def word_gt_0 Let_def) (metis same_paths_def)
  qed
qed

lemma contiguous_full: "contiguous p u \<Longrightarrow> length (ru_data u) = length (ru_blocks u) * 1100"
  by (simp add: contiguous_def kBlockPayloadSize_def)

lemma similar_has: "similar f g \<Longrightarrow> bm_has (rx_bitmap f) k = bm_has (rx_bitmap g) k"
  by (simp add: similar_def flip: bm_set_iff)

lemma run_ok_similar:
  assumes "run_ok r u" "length (r_rx r') = length (r_rx r)"
    "\<And>i. ru_file u = Some i \<Longrightarrow> similar (r_rx r' ! i) (r_rx r ! i)"
  shows "run_ok r' u"
proof (cases "ru_file u")
  case (Some i)
  have s: "similar (r_rx r' ! i) (r_rx r ! i)" using assms(3) Some by blast
  have e: "bm_has (rx_bitmap (r_rx r' ! i)) k = bm_has (rx_bitmap (r_rx r ! i)) k" for k
    by (rule similar_has[OF s])
  have v: "rx_verified (r_rx r' ! i) = rx_verified (r_rx r ! i)" "rx_blocks (r_rx r' ! i) = rx_blocks (r_rx r ! i)"
    using s by (simp_all add: similar_def)
  show ?thesis using assms(1) unfolding run_ok_def Some option.case Let_def v e assms(2) .
qed (use assms in \<open>simp add: run_ok_def\<close>)

lemma bm_has_set_blocks:
  "bm_wf b \<Longrightarrow> bm_wf (set_blocks bs b) \<and> bm_size (set_blocks bs b) = bm_size b \<and>
   (bm_has (set_blocks bs b) k \<longleftrightarrow> bm_has b k \<or> k < unat (bm_size b) \<and> k \<in> unat ` set bs)"
proof (induction bs arbitrary: b)
  case (Cons x bs)
  have "set_blocks (x # bs) b = set_blocks bs (snd (bm_Set x b))" by (simp add: set_blocks_def)
  then show ?case using Cons.IH[of "snd (bm_Set x b)"] bm_wf_Set[OF Cons.prems] bm_has_Set[OF Cons.prems]
    by (auto simp: word_less_nat_alt)
qed (simp add: set_blocks_def)

text \<open>Writing the buffered run, fully or in part.\<close>

lemma write_run_disk:
  assumes ok: "file_ok i f w" and "\<not> rx_verified f" "0 < rx_blocks f"
    and n: "0 < n" and data: "length data = min (n * 1100) (sz i - first * 1100)"
    and "(first + n - 1) * 1100 < sz i" and m: "m \<le> length data"
    and w': "w_files w' = (if m = 0 then w_files w
       else (w_files w)(rx_part_path f \<mapsto> overwrite (first * 1100) (take m data) (file_bytes w (rx_part_path f))))"
  shows "\<exists>c c'. w_files w (rx_part_path f) = Some c \<and> w_files w' (rx_part_path f) = Some c' \<and>
    length c' = length c \<and> sz i \<le> length c \<and>
    (\<forall>k. k * 1100 < sz i \<longrightarrow> k < first \<or> first + n \<le> k \<longrightarrow> blk (sz i) k c' = blk (sz i) k c) \<and>
    (\<forall>k. m = length data \<longrightarrow> first \<le> k \<longrightarrow> k < first + n \<longrightarrow>
       blk (sz i) k c' = take (min 1100 (sz i - k * 1100)) (drop ((k - first) * 1100) data))"
proof -
  obtain c where c: "w_files w (rx_part_path f) = Some c" "sz i \<le> length c"
    using ok assms(2,3) by (auto simp: file_ok_def disk_ok_def)
  let ?c' = "if m = 0 then c else overwrite (first * 1100) (take m data) c"
  have w1: "w_files w' (rx_part_path f) = Some ?c'" using w' c by (simp add: file_bytes_def)
  have fin: "first * 1100 + length data \<le> sz i" using data assms(6) n by auto
  have len: "length ?c' = length c" using m c(2) fin by auto
  have out: "blk (sz i) k ?c' = blk (sz i) k c" if "k * 1100 < sz i" "k < first \<or> first + n \<le> k" for k
  proof -
    have "first + n \<le> k \<Longrightarrow> first * 1100 + length (take m data) \<le> k * 1100"
      using data by auto
    then show ?thesis using blk_overwrite_outside[OF c(2) that(1), of first "take m data"] that(2) by auto
  qed
  have inn: "blk (sz i) k ?c' = take (min 1100 (sz i - k * 1100)) (drop ((k - first) * 1100) data)"
    if "m = length data" "first \<le> k" "k < first + n" for k
  proof -
    have kk: "k * 1100 < sz i"
    proof -
      have "k \<le> first + n - 1" using that(3) by simp
      then have "k * 1100 \<le> (first + n - 1) * 1100" by (rule mult_right_mono) simp
      then show ?thesis using assms(6) by linarith
    qed
    have "0 < length data"
    proof -
      have "first * 1100 \<le> k * 1100" using that(2) by simp
      then show ?thesis using data n kk by auto
    qed
    then show ?thesis using blk_overwrite_inside[OF c(2) that(2) kk data that(3)] that(1) by simp
  qed
  show ?thesis using c(1) w1 len c(2) out inn by blast
qed

lemma flush_write_ok:
  assumes "files_ok r" "run_ok r u" "ru_file u = Some i"
    "WriteAt opened (rx_part_path (r_rx r ! i)) (unat (ru_first u) * kBlockPayloadSize) (ru_data u) (r_world r) = (wok, w)"
  obtains c where "w_files w (rx_part_path (r_rx r ! i)) = Some c" "sz i \<le> length c" "L i (length c)"
    "\<And>q. q \<noteq> rx_part_path (r_rx r ! i) \<Longrightarrow> w_files w q = w_files (r_world r) q"
    "\<And>k. bm_has (rx_bitmap (r_rx r ! i)) k \<Longrightarrow> B i k (blk (sz i) k c)"
    "\<And>k. wok \<Longrightarrow> unat (ru_first u) \<le> k \<Longrightarrow> k < unat (ru_first u) + length (ru_blocks u) \<Longrightarrow> B i k (blk (sz i) k c)"
proof -
  let ?f = "r_rx r ! i" and ?first = "unat (ru_first u)" and ?n = "length (ru_blocks u)" and ?data = "ru_data u"
  have run: "i < length (r_rx r)" "0 < ?n" "\<not> rx_verified ?f" "0 < rx_blocks ?f" "(?first + ?n - 1) * 1100 < sz i"
    "length ?data = min (?n * 1100) (sz i - ?first * 1100)"
    and new: "\<And>k. ?first \<le> k \<Longrightarrow> k < ?first + ?n \<Longrightarrow> \<not> bm_has (rx_bitmap ?f) k \<and>
       B i k (take (min 1100 (sz i - k * 1100)) (drop ((k - ?first) * 1100) ?data))"
    using assms(2,3) by (auto simp: run_ok_def Let_def)
  have fok: "file_ok i ?f (r_world r)" using assms(1) run(1) by (simp add: files_ok_def)
  then have st: "static_ok i ?f" by (simp add: file_ok_def)
  obtain m where m: "m \<le> length ?data" "wok \<longrightarrow> m = length ?data" "w_files w = (if m = 0 then w_files (r_world r)
      else (w_files (r_world r))(rx_part_path ?f \<mapsto> overwrite (?first * 1100) (take m ?data) (file_bytes (r_world r) (rx_part_path ?f))))"
    using WriteAt_spec[OF assms(4)] unfolding kBlockPayloadSize_def by blast
  obtain c c' where c: "w_files (r_world r) (rx_part_path ?f) = Some c" "w_files w (rx_part_path ?f) = Some c'"
    "length c' = length c" "sz i \<le> length c"
    and outside: "\<And>k. k * 1100 < sz i \<Longrightarrow> k < ?first \<or> ?first + ?n \<le> k \<Longrightarrow> blk (sz i) k c' = blk (sz i) k c"
    and inside: "\<And>k. m = length ?data \<Longrightarrow> ?first \<le> k \<Longrightarrow> k < ?first + ?n \<Longrightarrow>
      blk (sz i) k c' = take (min 1100 (sz i - k * 1100)) (drop ((k - ?first) * 1100) ?data)"
    using write_run_disk[OF fok run(3,4) run(2) run(6) run(5) m(1,3)] by blast
  have L: "L i (length c)" and oldB: "\<And>k. bm_has (rx_bitmap ?f) k \<Longrightarrow> B i k (blk (sz i) k c)"
    using fok c(1) run(3,4) by (auto simp: file_ok_def disk_ok_def)
  have keepB: "B i k (blk (sz i) k c')" if "bm_has (rx_bitmap ?f) k" for k
  proof -
    have "k * 1100 < sz i" using bm_has_size[OF that] st blocks_iff[OF st] by (simp add: static_ok_def)
    moreover have "k < ?first \<or> ?first + ?n \<le> k" using new that by (meson not_le)
    ultimately show ?thesis using outside oldB[OF that] by simp
  qed
  show ?thesis by (rule that[OF c(2)]) (use c L keepB new inside m in auto)
qed

text \<open>The bitmap takes in the blocks of a run that is on disk.\<close>

lemma commit_run_ok:
  assumes inv: "files_ok r" "paths_ok (r_rx r)" and u: "run_ok r u" "ru_file u = Some i"
    and c: "w_files w (rx_part_path (r_rx r ! i)) = Some c" "sz i \<le> length c" "L i (length c)"
    and frame: "\<And>q. q \<noteq> rx_part_path (r_rx r ! i) \<Longrightarrow> w_files w q = w_files (r_world r) q"
    and keepB: "\<And>k. bm_has (rx_bitmap (r_rx r ! i)) k \<Longrightarrow> B i k (blk (sz i) k c)"
    and newB: "\<And>k. unat (ru_first u) \<le> k \<Longrightarrow> k < unat (ru_first u) + length (ru_blocks u) \<Longrightarrow> B i k (blk (sz i) k c)"
  defines "r1 \<equiv> commit_run i (ru_data u) (ru_blocks u) w r"
  shows "files_ok r1 \<and> paths_ok (r_rx r1) \<and> touches i r r1 \<and> static_ok i (r_rx r1 ! i)"
proof -
  let ?f = "r_rx r ! i" and ?b = "set_blocks (ru_blocks u) (rx_bitmap (r_rx r ! i))"
  have run: "i < length (r_rx r)" "\<not> rx_verified ?f" "0 < rx_blocks ?f"
    "map unat (ru_blocks u) = [unat (ru_first u) ..< unat (ru_first u) + length (ru_blocks u)]"
    using u by (auto simp: run_ok_def Let_def)
  have fok: "file_ok i ?f (r_world r)" using inv run(1) by (simp add: files_ok_def)
  then have st: "static_ok i ?f" by (simp add: file_ok_def)
  define f1 where "f1 = ?f\<lparr>rx_bitmap := ?b, rx_complete := rx_complete ?f \<or> bm_Complete ?b,
      rx_received_since_sack := rx_received_since_sack ?f + of_nat (length (ru_blocks u))\<rparr>"
  have r1: "r_rx r1 = (r_rx r)[i := f1]" "r_world r1 = w" by (simp_all add: r1_def commit_run_def Let_def f1_def)
  have wfb: "bm_wf (rx_bitmap ?f)" using st by (simp add: static_ok_def)
  note sb = bm_has_set_blocks[OF wfb, of "ru_blocks u"]
  have inset: "k \<in> unat ` set (ru_blocks u) \<longleftrightarrow> unat (ru_first u) \<le> k \<and> k < unat (ru_first u) + length (ru_blocks u)" for k
    using arg_cong[OF run(4), of set] by auto
  have t1: "touches i r r1" using r1 frame by (auto simp: touches_def f1_def same_paths_def)
  have st1: "static_ok i f1" using st sb by (auto simp: static_ok_def f1_def)
  have allB: "B i k (blk (sz i) k c)" if "bm_has ?b k" for k using that sb[of k] keepB inset newB by auto
  have mono: "bm_Complete (rx_bitmap ?f) \<Longrightarrow> bm_Complete ?b"
    using complete_iff[OF st] complete_iff[OF st1] sb by (auto simp: f1_def)
  have "file_ok i f1 w" using st1 fok c allB run(2) mono by (auto simp: file_ok_def disk_ok_def flags_ok_def f1_def)
  then show ?thesis using files_ok_touches[OF inv t1 run(1)] r1 run(1) t1 st1 by simp
qed

lemma FlushRun_ok:
  assumes fr: "FlushRun sha now i (ru_first u) (ru_data u) (ru_blocks u) r = Some (ok, r')"
    and inv: "files_ok r" "paths_ok (r_rx r)" and u: "run_ok r u" "ru_file u = Some i"
  shows "files_ok r' \<and> paths_ok (r_rx r') \<and> touches i r r'"
proof -
  let ?f = "r_rx r ! i"
  have run: "i < length (r_rx r)" "ru_blocks u \<noteq> []" "\<not> rx_verified ?f" using u by (auto simp: run_ok_def Let_def)
  have fok: "file_ok i ?f (r_world r)" using inv run(1) by (simp add: files_ok_def)
  show ?thesis
  proof (cases "rx_writer ?f")
    case None
    then have "r' = rx_Fail ''io'' (''write failed: '' @ last (rx_final_path ?f)) (r\<lparr>r_world := r_world r\<rparr>)"
      using fr run(2) by (simp add: FlushRun_def Let_def)
    then have "r_rx r' = r_rx r" "r_world r' = r_world r" by simp_all
    then show ?thesis using inv touches_cong[of r' r i r] touches_refl[of i r] by (simp add: files_ok_def)
  next
    case (Some opened)
    obtain wok w where wr: "WriteAt opened (rx_part_path ?f) (unat (ru_first u) * kBlockPayloadSize) (ru_data u) (r_world r) = (wok, w)"
      by fastforce
    from flush_write_ok[OF inv(1) u wr] obtain c where c: "w_files w (rx_part_path ?f) = Some c" "sz i \<le> length c" "L i (length c)"
      and frame: "\<And>q. q \<noteq> rx_part_path ?f \<Longrightarrow> w_files w q = w_files (r_world r) q"
      and keepB: "\<And>k. bm_has (rx_bitmap ?f) k \<Longrightarrow> B i k (blk (sz i) k c)"
      and newB: "\<And>k. wok \<Longrightarrow> unat (ru_first u) \<le> k \<Longrightarrow> k < unat (ru_first u) + length (ru_blocks u) \<Longrightarrow> B i k (blk (sz i) k c)"
      by blast
    show ?thesis
    proof (cases wok)
      case False
      then have r': "r' = rx_Fail ''io'' (''write failed: '' @ last (rx_final_path ?f)) (r\<lparr>r_world := w\<rparr>)"
        using fr run(2) Some wr by (simp add: FlushRun_def Let_def)
      have t: "touches i r r'" using frame r' by (auto simp: touches_def same_paths_def intro!: exI[of _ ?f])
      moreover have "file_ok i (r_rx r' ! i) (r_world r')" using fok c keepB run(3) r' by (auto simp: file_ok_def disk_ok_def)
      ultimately show ?thesis using files_ok_touches[OF inv t run(1)] by blast
    next
      case True
      define r1 where "r1 = commit_run i (ru_data u) (ru_blocks u) w r"
      have inv1: "files_ok r1 \<and> paths_ok (r_rx r1) \<and> touches i r r1 \<and> static_ok i (r_rx r1 ! i)"
        unfolding r1_def by (rule commit_run_ok[OF inv u c frame keepB newB[OF True]])
      then have il: "i < length (r_rx r1)" using touches_length run(1) by metis
      have "if rx_complete (r_rx r1 ! i) then \<exists>r2. SendSack now i r1 = Some r2 \<and> r' = MaybeVerify sha i r2 else r' = r1"
        using fr run(2) Some wr True by (auto simp: FlushRun_def Let_def r1_def[symmetric] split: bind_splits if_splits)
      then consider "r' = r1" | r2 where "SendSack now i r1 = Some r2" "r' = MaybeVerify sha i r2" by (auto split: if_splits)
      then show ?thesis
      proof cases
        case 2
        have inv2: "files_ok r2 \<and> paths_ok (r_rx r2)" using SendSack_ok[OF _ _ 2(1) il] inv1 by blast
        have t2: "touches i r1 r2" using SendSack_similar[OF 2(1) _ il] inv1 by (simp add: static_ok_def)
        then have "i < length (r_rx r2)" using touches_length il by metis
        then show ?thesis using MaybeVerify_ok[of r2 i] inv1 inv2 2(2) touches_trans touches_trans[OF t2] by blast
      qed (use inv1 in simp)
    qed
  qed
qed
end

section \<open>What the writer thread leaves alone\<close>

definition same_queues :: "rcv \<Rightarrow> rcv \<Rightarrow> bool" where
  "same_queues r r' \<longleftrightarrow> r_queue r' = r_queue r \<and> r_pending_done r' = r_pending_done r \<and>
     length (r_rx r') = length (r_rx r)"

lemma same_queues_trans: "same_queues r r1 \<Longrightarrow> same_queues r1 r2 \<Longrightarrow> same_queues r r2"
  by (simp add: same_queues_def)

lemma same_queues_refl [simp]: "same_queues r r"
  by (simp add: same_queues_def)

lemma same_queues_basic [simp]:
  "same_queues r (emit e r') = same_queues r r'" "same_queues r (rx_Fail c m r') = same_queues r r'"
  "same_queues r (upd_rx i f r') = same_queues r r'" "same_queues r (r'\<lparr>r_world := w\<rparr>) = same_queues r r'"
  by (simp_all add: same_queues_def emit_def rx_Fail_def upd_rx_def)

lemma same_queues_fields [simp]:
  "same_queues r (r'\<lparr>r_bytes_received := x\<rparr>) = same_queues r r'" "same_queues r (r'\<lparr>r_files_done := y\<rparr>) = same_queues r r'"
  "same_queues r (r'\<lparr>r_rate_received := z\<rparr>) = same_queues r r'" "same_queues r (r'\<lparr>r_rate_bytes := x\<rparr>) = same_queues r r'"
  "same_queues r (r'\<lparr>r_rate_expected := z\<rparr>) = same_queues r r'" "same_queues r (r'\<lparr>r_current_file := v\<rparr>) = same_queues r r'"
  "same_queues r (r'\<lparr>r_duplicates := z\<rparr>) = same_queues r r'" "same_queues r (r'\<lparr>r_last_persist_ms := z\<rparr>) = same_queues r r'"
  "same_queues r (r'\<lparr>r_running := b\<rparr>) = same_queues r r'" "same_queues r (r'\<lparr>r_finished := b\<rparr>) = same_queues r r'"
  by (simp_all add: same_queues_def)

lemma SendSack_queues: "SendSack now i r = Some r' \<Longrightarrow> same_queues r r'"
  by (auto simp: SendSack_def Let_def split: bind_splits)

lemma reject_file_queues: "same_queues r (reject_file i f r)"
  by (auto simp: reject_file_def Let_def split: prod.splits)

lemma MaybeVerify_queues: "same_queues r (MaybeVerify sha i r)"
proof -
  have "same_queues r (reject_file i f (r\<lparr>r_world := w\<rparr>))" for f w
    using reject_file_queues[of "r\<lparr>r_world := w\<rparr>" i f] by (simp add: same_queues_def)
  then show ?thesis by (auto simp: MaybeVerify_def Let_def split: prod.splits option.splits sum.splits)
qed

lemma AcceptBlock_queues: "AcceptBlock p r = (fresh, r') \<Longrightarrow> same_queues r r'"
  by (auto simp: AcceptBlock_def Let_def split: if_splits)

lemma FlushRun_queues:
  assumes "FlushRun sha now i first data blocks r = Some (ok, r')"
  shows "same_queues r r'"
proof (cases "blocks = [] \<or> rx_writer (r_rx r ! i) = None")
  case True
  then show ?thesis using assms by (auto simp: FlushRun_def Let_def split: if_splits)
next
  case False
  then obtain opened where o: "rx_writer (r_rx r ! i) = Some opened" by auto
  obtain wok w where wr: "WriteAt opened (rx_part_path (r_rx r ! i)) (unat first * kBlockPayloadSize) data (r_world r) = (wok, w)"
    by fastforce
  show ?thesis
  proof (cases wok)
    case False
    then show ?thesis using assms \<open>\<not> (blocks = [] \<or> _)\<close> o wr by (auto simp: FlushRun_def Let_def)
  next
    case True
    have q: "same_queues r (commit_run i data blocks w r)"
      by (simp add: commit_run_def Let_def same_queues_def upd_rx_def)
    have "(\<exists>r2. SendSack now i (commit_run i data blocks w r) = Some r2 \<and> r' = MaybeVerify sha i r2) \<or>
        r' = commit_run i data blocks w r"
      using assms False o wr True by (auto simp: FlushRun_def Let_def split: if_splits bind_splits)
    then show ?thesis using q SendSack_queues same_queues_trans MaybeVerify_queues by metis
  qed
qed

lemma flush_buf_queues: "flush_buf sha now u r = Some (ok, u', r') \<Longrightarrow> same_queues r r'"
  by (auto simp: flush_buf_def dest: FlushRun_queues split: option.splits bind_splits)

context rx_env
begin

lemma pending_ok_queues: "same_queues r r' \<Longrightarrow> pending_ok r' p = pending_ok r p"
  by (simp add: pending_ok_def same_queues_def)

lemma flush_buf_ok:
  assumes "flush_buf sha now u r = Some (ok, u', r')" "files_ok r" "paths_ok (r_rx r)" "run_ok r u"
  shows "files_ok r' \<and> paths_ok (r_rx r') \<and> run_ok r' u' \<and> ru_file u' = None"
proof (cases "ru_file u")
  case None
  then show ?thesis using assms by (auto simp: flush_buf_def run_ok_def)
next
  case (Some i)
  then have "FlushRun sha now i (ru_first u) (ru_data u) (ru_blocks u) r = Some (ok, r')"
    "u' = u\<lparr>ru_file := None, ru_data := [], ru_blocks := []\<rparr>"
    using assms(1) by (auto simp: flush_buf_def split: bind_splits)
  then show ?thesis using FlushRun_ok[OF _ assms(2-4) Some] by (simp add: run_ok_def)
qed

text \<open>Appending an accepted block to the run it continues, or starting a run with it.\<close>

lemma add_block_ok:
  assumes "run_ok r u" "ru_file u = None \<or> contiguous p u" "unat (p_file p) < length (r_rx r)" "static_ok (unat (p_file p)) (r_rx r ! unat (p_file p))"
    "\<not> rx_verified (r_rx r ! unat (p_file p))" "0 < rx_blocks (r_rx r ! unat (p_file p))"
    "unat (p_block p) * 1100 < sz (unat (p_file p))" "\<not> bm_has (rx_bitmap (r_rx r ! unat (p_file p))) (unat (p_block p))"
    "length (p_payload p) = min 1100 (sz (unat (p_file p)) - unat (p_block p) * 1100)"
    "B (unat (p_file p)) (unat (p_block p)) (p_payload p)"
  shows "run_ok r (add_block p u)"
proof (cases "ru_file u")
  case None
  then have "ru_data u = []" "ru_blocks u = []" using assms(1) by (auto simp: run_ok_def)
  then show ?thesis using assms(3-10) None
    by (auto simp: run_ok_def add_block_def Let_def le_Suc_eq less_Suc_eq dest: le_antisym)
next
  case (Some i)
  let ?first = "unat (ru_first u)" and ?n = "length (ru_blocks u)" and ?k = "unat (p_block p)"
  have c: "contiguous p u" using assms(2) Some by simp
  then have i: "unat (p_file p) = i" and ne: "ru_blocks u \<noteq> []" and nx: "p_block p = last (ru_blocks u) + 1"
    and full: "length (ru_data u) = ?n * 1100"
    using Some contiguous_full[OF c] by (auto simp: contiguous_def)
  have run: "map unat (ru_blocks u) = [?first ..< ?first + ?n]" "(?first + ?n - 1) * 1100 < sz i"
    and old: "\<And>k. ?first \<le> k \<Longrightarrow> k < ?first + ?n \<Longrightarrow> \<not> bm_has (rx_bitmap (r_rx r ! i)) k \<and>
       B i k (take (min 1100 (sz i - k * 1100)) (drop ((k - ?first) * 1100) (ru_data u)))"
    using assms(1) Some by (auto simp: run_ok_def Let_def)
  have n0: "0 < ?n" using ne by simp
  have "unat (last (ru_blocks u)) = ?first + ?n - 1"
    using arg_cong[OF run(1), of last] ne n0 by (simp add: last_map)
  moreover have "unat (last (ru_blocks u)) + 1 < 4294967296"
  proof -
    have "unat (last (ru_blocks u)) * 1100 < sz i" using \<open>unat (last (ru_blocks u)) = _\<close> run(2) by simp
    moreover have "sz i \<le> kMaxFileSize" using assms(4) i by (simp add: static_ok_def)
    ultimately show ?thesis by (simp add: kMaxFileSize_def kBlockPayloadSize_def)
  qed
  ultimately have k: "?k = ?first + ?n" using nx n0 by (simp add: unat_Suc_u32)
  have blocks: "map unat (ru_blocks u @ [p_block p]) = [?first ..< ?first + Suc ?n]" using run(1) k by simp
  have slice: "take m (drop ((k' - ?first) * 1100) (ru_data u @ p_payload p)) = take m (drop ((k' - ?first) * 1100) (ru_data u))"
    if "?first \<le> k'" "k' < ?first + ?n" "m \<le> 1100" for k' m
  proof -
    have "Suc (k' - ?first) * 1100 \<le> ?n * 1100" using that by (intro mult_right_mono) auto
    then show ?thesis using full that(3) by simp
  qed
  have "B i k' (take (min 1100 (sz i - k' * 1100)) (drop ((k' - ?first) * 1100) (ru_data u @ p_payload p))) \<and>
     \<not> bm_has (rx_bitmap (r_rx r ! i)) k'" if "?first \<le> k'" "k' < ?first + Suc ?n" for k'
  proof (cases "k' = ?first + ?n")
    case True
    then show ?thesis using assms(8-10) full k i by simp
  next
    case False
    then have "?first \<le> k'" "k' < ?first + ?n" using that by simp_all
    then show ?thesis using old[of k'] slice[of k' "min 1100 (sz i - k' * 1100)"] by (metis min.cobounded1)
  qed
  moreover have "length (ru_data u @ p_payload p) = min (Suc ?n * 1100) (sz i - ?first * 1100)"
    using full assms(7,9) k i by (simp add: algebra_simps)
  ultimately show ?thesis using assms(3-7) blocks Some i k run(2)
    by (simp add: run_ok_def add_block_def Let_def)
qed

text \<open>Deciding on one block keeps the invariant and the run buffer, with the block added where it is new.\<close>

lemma accept_step_ok:
  assumes a: "AcceptBlock p r1 = (fresh, r2)" and inv1: "files_ok r1" "paths_ok (r_rx r1)" "run_ok r1 u1"
    and c: "ru_file u1 = None \<or> contiguous p u1" and pend1: "list_all (pending_ok r1) (p # ps)"
  shows "files_ok r2 \<and> paths_ok (r_rx r2) \<and> run_ok r2 u1 \<and> same_queues r1 r2 \<and> list_all (pending_ok r2) ps \<and>
    (fresh \<longrightarrow> run_ok r2 (add_block p u1))"
proof -
  let ?i = "unat (p_file p)"
  have p: "pending_ok r1 p" using pend1 by simp
  have il: "?i < length (r_rx r1)" using p by (simp add: pending_ok_def)
  note acc = AcceptBlock_ok[OF a inv1(1) p, THEN conjunct1] AcceptBlock_ok[OF a inv1(1) p, THEN conjunct2, THEN conjunct1]
    AcceptBlock_ok[OF a inv1(1) p, THEN conjunct2, THEN conjunct2, THEN conjunct1]
  have q2: "same_queues r1 r2" by (rule AcceptBlock_queues[OF a])
  have f1: "file_ok ?i (r_rx r1 ! ?i) (r_world r1)" using inv1 il by (simp add: files_ok_def)
  have f2: "file_ok ?i (r_rx r2 ! ?i) (r_world r2)" using similar_file_ok[OF acc(1) f1] acc(3) by simp
  have inv2: "files_ok r2 \<and> paths_ok (r_rx r2)" using files_ok_touches[OF inv1(1,2) acc(2) il f2] .
  have run2: "run_ok r2 u1"
  proof (rule run_ok_similar[OF inv1(3)])
    fix j assume j: "ru_file u1 = Some j"
    then have "j < length (r_rx r1)" using inv1 by (simp add: run_ok_def Let_def)
    then have "static_ok j (r_rx r1 ! j)" using inv1 by (simp add: files_ok_def file_ok_def)
    then show "similar (r_rx r2 ! j) (r_rx r1 ! j)"
      using acc touches_nth[OF acc(2)] by (cases "j = ?i") (auto simp: similar_def same_paths_def static_ok_def)
  qed (use q2 in \<open>simp add: same_queues_def\<close>)
  have "run_ok r2 (add_block p u1)" if fresh
  proof (rule add_block_ok[OF run2 c])
    show "?i < length (r_rx r2)" using il q2 by (simp add: same_queues_def)
    show "static_ok ?i (r_rx r2 ! ?i)" using f2 by (simp add: file_ok_def)
  qed (use AcceptBlock_ok[OF a inv1(1) p] that acc(1) similar_has[OF acc(1)] in \<open>auto simp: similar_def Let_def\<close>)
  moreover have "list_all (pending_ok r2) ps" using pend1 pending_ok_queues[OF q2] by (simp add: list_all_iff)
  ultimately show ?thesis using inv2 run2 q2 by blast
qed

text \<open>The state before a block is looked at: the run it continues, or none.\<close>

lemma before_block_ok:
  assumes "(if contiguous p u then Some (True, u, r) else flush_buf sha now u r) = Some (ok, u1, r1)"
    "files_ok r" "paths_ok (r_rx r)" "run_ok r u" "list_all (pending_ok r) ps"
  shows "files_ok r1 \<and> paths_ok (r_rx r1) \<and> run_ok r1 u1 \<and> (ru_file u1 = None \<or> contiguous p u1) \<and>
    same_queues r r1 \<and> list_all (pending_ok r1) ps"
proof -
  have q1: "same_queues r r1" using assms(1) flush_buf_queues by (auto split: if_splits)
  then have pend: "list_all (pending_ok r1) ps" using assms(5) pending_ok_queues[OF q1] by (simp add: list_all_iff)
  show ?thesis
  proof (cases "contiguous p u")
    case True
    then show ?thesis using assms(1-4) q1 pend by simp
  next
    case False
    then have "flush_buf sha now u r = Some (ok, u1, r1)" using assms(1) by simp
    from flush_buf_ok[OF this assms(2-4)] show ?thesis using q1 pend by blast
  qed
qed

lemma batch_loop_ok:
  "batch_loop sha now ps u r = Some r' \<Longrightarrow> files_ok r \<Longrightarrow> paths_ok (r_rx r) \<Longrightarrow> run_ok r u \<Longrightarrow>
   list_all (pending_ok r) ps \<Longrightarrow> files_ok r' \<and> paths_ok (r_rx r') \<and> same_queues r r'"
proof (induction ps arbitrary: u r)
  case Nil
  then show ?case using flush_buf_ok flush_buf_queues by (fastforce split: bind_splits)
next
  case (Cons p ps)
  obtain ok u1 r1 where 1: "(if contiguous p u then Some (True, u, r) else flush_buf sha now u r) = Some (ok, u1, r1)"
    and k1: "(if \<not> ok then Some r1 else case AcceptBlock p r1 of
              (False, r2) \<Rightarrow> batch_loop sha now ps u1 r2
            | (True, r2) \<Rightarrow>
                let u2 = add_block p u1 in
                if kMaxRunBytes \<le> length (ru_data u2)
                then do { (ok3, u3, r3) \<leftarrow> flush_buf sha now u2 r2;
                          if \<not> ok3 then Some r3 else batch_loop sha now ps u3 r3 }
                else batch_loop sha now ps u2 r2) = Some r'"
    using Cons.prems(1) unfolding batch_loop.simps by (auto simp del: not_None_eq split: bind_splits)
  note inv1 = before_block_ok[OF 1 Cons.prems(2-5)]
  obtain fresh r2 where a: "AcceptBlock p r1 = (fresh, r2)" by fastforce
  have inv2: "files_ok r2 \<and> paths_ok (r_rx r2) \<and> run_ok r2 u1 \<and> same_queues r1 r2 \<and> list_all (pending_ok r2) ps \<and>
    (fresh \<longrightarrow> run_ok r2 (add_block p u1))"
    by (rule accept_step_ok[OF a]) (use inv1 in simp_all)
  have q: "same_queues r r2" using inv1 inv2 same_queues_trans by blast
  let ?u2 = "add_block p u1"
  consider "\<not> ok" | "ok" "\<not> fresh" | "ok" "fresh" "\<not> kMaxRunBytes \<le> length (ru_data ?u2)"
    | "ok" "fresh" "kMaxRunBytes \<le> length (ru_data ?u2)" by blast
  then show ?case
  proof cases
    case 1
    then show ?thesis using k1 inv1 by simp
  next
    case 2
    then have "batch_loop sha now ps u1 r2 = Some r'" using k1 a by simp
    from Cons.IH[OF this] inv2 q show ?thesis by (meson same_queues_trans)
  next
    case 3
    then have "batch_loop sha now ps ?u2 r2 = Some r'" using k1 a by (simp add: Let_def)
    from Cons.IH[OF this] inv2 3 q show ?thesis by (meson same_queues_trans)
  next
    case 4
    then obtain ok3 u3 r3 where fl: "flush_buf sha now ?u2 r2 = Some (ok3, u3, r3)"
      and k3: "(if \<not> ok3 then Some r3 else batch_loop sha now ps u3 r3) = Some r'"
      using k1 a by (auto simp: Let_def split: bind_splits)
    have inv3: "files_ok r3 \<and> paths_ok (r_rx r3) \<and> run_ok r3 u3" using flush_buf_ok[OF fl] inv2 4 by blast
    have q3: "same_queues r2 r3" by (rule flush_buf_queues[OF fl])
    have pend3: "list_all (pending_ok r3) ps" using inv2 pending_ok_queues[OF q3] by (simp add: list_all_iff)
    show ?thesis
    proof (cases ok3)
      case False
      then show ?thesis using k3 inv3 same_queues_trans[OF q q3] by simp
    next
      case True
      then have "batch_loop sha now ps u3 r3 = Some r'" using k3 by simp
      from Cons.IH[OF this] inv3 pend3 show ?thesis using same_queues_trans[OF same_queues_trans[OF q q3]] by blast
    qed
  qed
qed

end

context rx_env
begin

section \<open>The rest of the writer loop\<close>

text \<open>Updates that change neither a file's data nor its flags in a way the invariant sees.\<close>

lemma files_ok_map:
  assumes "files_ok r" "r_rx r' = map g (r_rx r)" "r_world r' = r_world r"
    "\<And>f. bm_wf (rx_bitmap f) \<Longrightarrow> similar (g f) f"
  shows "files_ok r'"
  unfolding files_ok_def
proof (intro allI impI)
  fix i assume i: "i < length (r_rx r')"
  then have f: "file_ok i (r_rx r ! i) (r_world r)" using assms(1,2) by (simp add: files_ok_def)
  then have "bm_wf (rx_bitmap (r_rx r ! i))" by (simp add: file_ok_def static_ok_def)
  from similar_file_ok[OF assms(4)[OF this] f] show "file_ok i (r_rx r' ! i) (r_world r')"
    using i assms(2,3) by simp
qed

lemma paths_ok_map: "paths_ok rx \<Longrightarrow> (\<And>f. same_paths (g f) f) \<Longrightarrow> paths_ok (map g rx)"
  by (simp add: paths_ok_def same_paths_def o_def)

lemma sacks_loop_ok: "sacks_loop now force is r = Some r' \<Longrightarrow> files_ok r \<Longrightarrow> paths_ok (r_rx r) \<Longrightarrow>
   list_all (\<lambda>i. i < length (r_rx r)) is \<Longrightarrow> files_ok r' \<and> paths_ok (r_rx r') \<and> same_queues r r'"
proof (induction "is" arbitrary: r)
  case (Cons i "is")
  show ?case
  proof (cases "sack_due now force (r_rx r ! i)")
    case True
    then obtain r1 where r1: "SendSack now i r = Some r1" "sacks_loop now force is r1 = Some r'"
      using Cons.prems(1) by (auto split: bind_splits)
    have q: "same_queues r r1" by (rule SendSack_queues[OF r1(1)])
    have "files_ok r1 \<and> paths_ok (r_rx r1)" using SendSack_ok[OF Cons.prems(2,3) r1(1)] Cons.prems(4) by simp
    moreover have "list_all (\<lambda>i. i < length (r_rx r1)) is" using Cons.prems(4) q by (simp add: same_queues_def)
    ultimately show ?thesis using Cons.IH[OF r1(2)] q same_queues_trans by blast
  next
    case False
    then show ?thesis using Cons by simp
  qed
qed simp

lemma SendSacks_ok: "SendSacks now force r = Some r' \<Longrightarrow> files_ok r \<Longrightarrow> paths_ok (r_rx r) \<Longrightarrow>
   files_ok r' \<and> paths_ok (r_rx r') \<and> same_queues r r'"
  unfolding SendSacks_def by (erule sacks_loop_ok) (auto simp: list_all_iff)

lemma files_ok_cong: "r_rx r' = r_rx r \<Longrightarrow> r_world r' = r_world r \<Longrightarrow> files_ok r' = files_ok r"
  by (simp add: files_ok_def)

lemma Persist_sel: "Persist now force r = Some r' \<Longrightarrow>
   r_rx r' = r_rx r \<and> r_world r' = r_world r \<and> same_queues r r'"
  by (auto simp: Persist_def split: if_splits bind_splits)

lemma UpdateRates_sel: "r_rx (UpdateRates now r) = r_rx r" "r_world (UpdateRates now r) = r_world r"
  "same_queues r (UpdateRates now r)"
  by (simp_all add: UpdateRates_def Let_def same_queues_def)

lemma set_expected_ok:
  assumes "files_ok r" "paths_ok (r_rx r)" "i < length (r_rx r)" "hash = [] \<or> H i hash"
  shows "files_ok (upd_rx i ((r_rx r ! i)\<lparr>rx_expected_sha256 := hash\<rparr>) r) \<and>
    paths_ok (r_rx (upd_rx i ((r_rx r ! i)\<lparr>rx_expected_sha256 := hash\<rparr>) r))"
proof -
  have t: "touches i r (upd_rx i ((r_rx r ! i)\<lparr>rx_expected_sha256 := hash\<rparr>) r)"
    by (auto simp: touches_def same_paths_def)
  have "file_ok i (r_rx r ! i) (r_world r)" using assms by (simp add: files_ok_def)
  then have "file_ok i ((r_rx r ! i)\<lparr>rx_expected_sha256 := hash\<rparr>) (r_world r)"
    using assms(4) by (auto simp: file_ok_def static_ok_def disk_ok_def flags_ok_def)
  then show ?thesis using files_ok_touches[OF assms(1,2) t assms(3)] assms(3) by simp
qed

definition hash_ok :: "u16 \<times> string \<Rightarrow> bool" where
  "hash_ok d \<longleftrightarrow> snd d = [] \<or> H (unat (fst d)) (snd d)"

lemma apply_done_ok: "files_ok r \<Longrightarrow> paths_ok (r_rx r) \<Longrightarrow> list_all hash_ok ds \<Longrightarrow>
   files_ok (apply_done sha ds r) \<and> paths_ok (r_rx (apply_done sha ds r)) \<and> same_queues r (apply_done sha ds r)"
proof (induction ds arbitrary: r)
  case (Cons d ds)
  obtain index hash where d: "d = (index, hash)" by fastforce
  show ?case
  proof (cases "length (r_rx r) \<le> unat index")
    case True
    then show ?thesis using Cons d by simp
  next
    case False
    let ?i = "unat index"
    let ?r1 = "upd_rx ?i ((r_rx r ! ?i)\<lparr>rx_expected_sha256 := hash\<rparr>) r"
    let ?r2 = "MaybeVerify sha ?i ?r1"
    have 1: "files_ok ?r1 \<and> paths_ok (r_rx ?r1)"
      using set_expected_ok[OF Cons.prems(1,2), of ?i hash] False Cons.prems(3) d by (simp add: hash_ok_def)
    then have 2: "files_ok ?r2 \<and> paths_ok (r_rx ?r2)"
      using MaybeVerify_ok[of ?r1 ?i] False by simp
    have q: "same_queues r ?r2" using MaybeVerify_queues[of ?r1 sha ?i] by (simp add: same_queues_def upd_rx_def)
    have "apply_done sha (d # ds) r = apply_done sha ds ?r2" using False d by (simp add: Let_def)
    then show ?thesis using Cons.IH[of ?r2] 2 Cons.prems(3) same_queues_trans[OF q] by simp
  qed
qed simp

lemma first_check_ok: "files_ok r \<Longrightarrow> paths_ok (r_rx r) \<Longrightarrow>
   files_ok (first_check r) \<and> paths_ok (r_rx (first_check r)) \<and> same_queues r (first_check r)"
proof (cases "r_initial_check r")
  case True
  assume inv: "files_ok r" "paths_ok (r_rx r)"
  let ?g = "\<lambda>f. if rx_complete f \<and> \<not> rx_verified f then f\<lparr>rx_dirty := True\<rparr> else f"
  have e: "r_rx (first_check r) = map ?g (r_rx r)" "r_world (first_check r) = r_world r"
    using True by (simp_all add: first_check_def)
  have "files_ok (first_check r)"
    by (rule files_ok_map[OF inv(1) e]) (auto simp: similar_def same_paths_def)
  moreover have "paths_ok (r_rx (first_check r))"
    unfolding e by (rule paths_ok_map[OF inv(2)]) (simp add: same_paths_def)
  ultimately show ?thesis using True by (simp add: first_check_def same_queues_def)
qed (simp add: first_check_def)

lemma HandleBatch_ok: "HandleBatch sha now batch r = Some r' \<Longrightarrow> files_ok r \<Longrightarrow> paths_ok (r_rx r) \<Longrightarrow>
   list_all (pending_ok r) batch \<Longrightarrow> files_ok r' \<and> paths_ok (r_rx r') \<and> same_queues r r'"
  unfolding HandleBatch_def by (erule batch_loop_ok) (simp_all add: run_ok_def empty_run_def)

text \<open>The invariant of the whole object.\<close>

definition rcv_inv :: "rcv \<Rightarrow> bool" where
  "rcv_inv r \<longleftrightarrow> files_ok r \<and> paths_ok (r_rx r) \<and> list_all (pending_ok r) (r_queue r) \<and>
     list_all hash_ok (r_pending_done r)"

lemma rcv_inv_queues: "same_queues r r' \<Longrightarrow> files_ok r' \<Longrightarrow> paths_ok (r_rx r') \<Longrightarrow>
   list_all (pending_ok r) (r_queue r) \<Longrightarrow> list_all hash_ok (r_pending_done r) \<Longrightarrow> rcv_inv r'"
proof -
  assume a: "same_queues r r'" "files_ok r'" "paths_ok (r_rx r')"
    "list_all (pending_ok r) (r_queue r)" "list_all hash_ok (r_pending_done r)"
  then have "list_all (pending_ok r') (r_queue r')" using pending_ok_queues[OF a(1)]
    by (simp add: same_queues_def list_all_iff)
  then show ?thesis using a by (simp add: rcv_inv_def same_queues_def)
qed

lemma Run_body_inv:
  assumes "Run_body sha now t1 t2 r = Some r'" "rcv_inv r"
  shows "rcv_inv r'"
proof -
  let ?r0 = "r\<lparr>r_queue := [], r_pending_done := [], r_queue_bytes := 0\<rparr>"
  obtain r1 where r1: "HandleBatch sha now (r_queue r) ?r0 = Some r1"
    using assms(1) by (auto simp: Run_body_def Let_def split: bind_splits)
  have p0: "pending_ok ?r0 p = pending_ok r p" for p by (simp add: pending_ok_def)
  have "files_ok ?r0 \<and> paths_ok (r_rx ?r0) \<and> list_all (pending_ok ?r0) (r_queue r)"
    using assms(2) p0 by (simp add: rcv_inv_def files_ok_def list_all_iff)
  then have 1: "files_ok r1 \<and> paths_ok (r_rx r1) \<and> same_queues ?r0 r1" using HandleBatch_ok[OF r1] by blast
  have fin: "rcv_inv x" if "files_ok x" "paths_ok (r_rx x)" "same_queues ?r0 x" for x
    by (rule rcv_inv_queues[OF that(3,1,2)]) simp_all
  show ?thesis
  proof (cases "r_failed r1")
    case True
    then have "r' = r1\<lparr>r_running := False\<rparr>" using assms(1) r1 by (simp add: Run_body_def Let_def)
    then show ?thesis using fin[of r'] 1 files_ok_cong[of r' r1] by simp
  next
    case False
    let ?r2 = "first_check (apply_done sha (r_pending_done r) r1)"
    have ad: "files_ok (apply_done sha (r_pending_done r) r1) \<and> paths_ok (r_rx (apply_done sha (r_pending_done r) r1)) \<and>
        same_queues r1 (apply_done sha (r_pending_done r) r1)"
      using apply_done_ok[of r1 "r_pending_done r"] 1 assms(2) by (simp add: rcv_inv_def)
    have 2: "files_ok ?r2 \<and> paths_ok (r_rx ?r2) \<and> same_queues ?r0 ?r2"
      using first_check_ok[of "apply_done sha (r_pending_done r) r1"] ad 1 same_queues_trans by blast
    obtain r3 r4 where r3: "SendSacks now False ?r2 = Some r3" and r4: "Persist t1 False (UpdateRates now r3) = Some r4"
      and k: "(if AllVerified r4 then Option.bind (Persist t2 True r4)
               (\<lambda>r5. Some (emit AllDone (r5\<lparr>r_finished := True, r_running := False\<rparr>))) else Some r4) = Some r'"
      using assms(1) r1 False by (auto simp: Run_body_def Let_def simp del: not_None_eq split: bind_splits)
    have 3: "files_ok r3 \<and> paths_ok (r_rx r3) \<and> same_queues ?r0 r3"
      using SendSacks_ok[OF r3] 2 same_queues_trans by blast
    have 4: "files_ok r4 \<and> paths_ok (r_rx r4) \<and> same_queues ?r0 r4"
      using Persist_sel[OF r4] UpdateRates_sel[where now = now and r = r3] 3 files_ok_cong[of r4 r3]
        same_queues_trans[of ?r0 r3] same_queues_trans[of r3 "UpdateRates now r3" r4] by simp
    have "r_rx r' = r_rx r4 \<and> r_world r' = r_world r4 \<and> same_queues r4 r'"
      using k by (auto dest!: Persist_sel split: if_splits bind_splits)
    then show ?thesis using fin[of r'] 4 files_ok_cong[of r' r4] same_queues_trans[of ?r0 r4 r'] by simp
  qed
qed

text \<open>What the environment may do.\<close>

definition label_ok :: "rx_label \<Rightarrow> bool" where
  "label_ok l \<longleftrightarrow>
     (case l of
        LBlock data \<Rightarrow>
          (case DecodeBlock data of None \<Rightarrow> True
           | Some (h, payload) \<Rightarrow>
               let i = unat (bh_file_index h); k = unat (bh_block_index h) in
               k * 1100 < sz i \<and> unat (bh_len h) = min 1100 (sz i - k * 1100) \<longrightarrow> B i k payload)
      | LDone index hash \<Rightarrow> hash_ok (index, hash)
      | _ \<Rightarrow> True)"

lemma DecodeBlock_length: "DecodeBlock data = Some (h, payload) \<Longrightarrow> length payload = unat (bh_len h)"
  by (auto simp: DecodeBlock_def Let_def split: if_splits)

lemma OnBlock_inv: "label_ok (LBlock data) \<Longrightarrow> rcv_inv r \<Longrightarrow> rcv_inv (OnBlock data r)"
proof (cases "DecodeBlock data")
  case (Some hp)
  assume a: "label_ok (LBlock data)" "rcv_inv r"
  obtain h payload where hp: "hp = (h, payload)" by fastforce
  have len: "length payload = unat (bh_len h)" using DecodeBlock_length Some hp by blast
  have same: "pending_ok (r\<lparr>r_queue_bytes := n, r_queue := q\<rparr>) p = pending_ok r p"
    "files_ok (r\<lparr>r_queue_bytes := n, r_queue := q\<rparr>) = files_ok r" for n q p
    by (simp_all add: pending_ok_def files_ok_def)
  show ?thesis using a len
    by (auto simp: OnBlock_def Some hp rcv_inv_def same label_ok_def Let_def pending_ok_def list_all_iff)
qed (simp add: OnBlock_def)

lemma pending_ok_cong: "length (r_rx r') = length (r_rx r) \<Longrightarrow> pending_ok r' = pending_ok r"
  by (simp add: pending_ok_def fun_eq_iff)

lemma rcv_step_inv:
  assumes "rcv_step sha l r r'" "label_ok l" "rcv_inv r"
  shows "rcv_inv r'"
  using assms(1)
proof (cases rule: rcv_step.cases)
  case (step_block data)
  then show ?thesis using OnBlock_inv assms by simp
next
  case (step_done index hash)
  have "list_all hash_ok (omap_put index hash (r_pending_done r))"
    using assms step_done set_omap_put[of index hash "r_pending_done r"]
    by (auto simp: list_all_iff rcv_inv_def label_ok_def)
  moreover have "pending_ok r' = pending_ok r" using step_done by (intro pending_ok_cong) (simp add: OnFileDone_def)
  ultimately show ?thesis using step_done assms(3) by (simp add: rcv_inv_def OnFileDone_def files_ok_def)
next
  case step_stop
  have "pending_ok r' = pending_ok r" using step_stop by (intro pending_ok_cong) (simp add: Stop_request_def)
  then show ?thesis using assms(3) step_stop
    by (simp add: rcv_inv_def Stop_request_def files_ok_def file_ok_def disk_ok_def)
next
  case (step_body now t1 t2)
  then show ?thesis using Run_body_inv assms(3) by blast
next
  case (step_exit now)
  obtain r1 where r1: "Persist now True r = Some r1" "r' = r1\<lparr>r_running := False\<rparr>"
    using step_exit by (auto simp: Run_exit_def split: bind_splits)
  have s: "r_rx r' = r_rx r" "r_world r' = r_world r" "same_queues r r'" using Persist_sel[OF r1(1)] r1(2) by simp_all
  show ?thesis
    by (rule rcv_inv_queues[OF s(3)]) (use assms(3) s files_ok_cong[OF s(1,2)] in \<open>simp_all add: rcv_inv_def\<close>)
next
  case step_close
  have inv: "files_ok r" "paths_ok (r_rx r)" using assms(3) by (simp_all add: rcv_inv_def)
  have e: "r_rx r' = map (\<lambda>f. f\<lparr>rx_writer := None\<rparr>) (r_rx r)" "r_world r' = r_world r"
    using step_close by (simp_all add: Stop_close_def)
  have f: "files_ok r'" by (rule files_ok_map[OF inv(1) e]) (simp add: similar_def same_paths_def)
  have p: "paths_ok (r_rx r')" unfolding e by (rule paths_ok_map[OF inv(2)]) (simp add: same_paths_def)
  have q: "same_queues r r'" using step_close by (simp add: Stop_close_def same_queues_def)
  show ?thesis by (rule rcv_inv_queues[OF q f p]) (use assms(3) in \<open>simp_all add: rcv_inv_def\<close>)
qed

lemma rcv_run_inv: "rcv_run sha ls r r' \<Longrightarrow> list_all label_ok ls \<Longrightarrow> rcv_inv r \<Longrightarrow> rcv_inv r'"
proof (induction rule: rcv_run.induct)
  case (run_step ls r r1 l r2)
  then show ?case using rcv_step_inv by simp
qed
end
end
