(* ===== verification/Receiver_Props.thy ===== *)
theory Receiver_Props
  imports Receiver_Inv "HOL-Library.Code_Target_Nat"
begin

text \<open>
  What the receiver of \<^verbatim>\<open>core/src/transfer/receiver.cpp\<close> guarantees, in every interleaving of its transport,
  owner and writer threads and under every pattern of failing system calls: integrity and delivery (two
  interpretations of \<open>rx_env\<close>), the state \<^verbatim>\<open>Start\<close> establishes, termination of a pass of the writer
  loop, and what a selective acknowledgement says.
\<close>


section \<open>States a transfer starts from\<close>

definition rx_ready_file :: "world \<Rightarrow> FileRx \<Rightarrow> bool" where
  "rx_ready_file w f \<longleftrightarrow>
     rx_blocks f = BlockCountFor (rx_size f) \<and> unat (rx_size f) \<le> kMaxFileSize \<and>
     bm_wf (rx_bitmap f) \<and> bm_size (rx_bitmap f) = rx_blocks f \<and>
     (\<not> rx_verified f \<and> 0 < rx_blocks f \<longrightarrow>
        is_regular_file w (rx_part_path f) \<and> unat (rx_size f) \<le> length (file_bytes w (rx_part_path f))) \<and>
     (rx_complete f \<and> \<not> rx_verified f \<longrightarrow> bm_Complete (rx_bitmap f)) \<and> rx_expected_sha256 f = []"

definition rx_ready :: "rcv \<Rightarrow> bool" where
  "rx_ready r \<longleftrightarrow> paths_ok (r_rx r) \<and> list_all (rx_ready_file (r_world r)) (r_rx r) \<and>
     r_queue r = [] \<and> r_pending_done r = []"

definition rx_sizes :: "rcv \<Rightarrow> nat \<Rightarrow> nat" where
  "rx_sizes r i = (if i < length (r_rx r) then unat (rx_size (r_rx r ! i)) else 0)"

definition already :: "rcv \<Rightarrow> nat set" where
  "already r = {i. i < length (r_rx r) \<and> rx_verified (r_rx r ! i)}"

section \<open>Integrity: only announced hashes pass\<close>

text \<open>Nothing is assumed of the payloads; the hashes are those in \<open>A\<close>.\<close>

interpretation integ: rx_env sha sz "\<lambda>_ _ _. True" "\<lambda>i h. \<exists>idx. (idx, h) \<in> A \<and> unat (idx :: u16) = i" "\<lambda>_ _. True"
  "\<lambda>i c. \<exists>idx. (idx, sha c) \<in> A \<and> unat idx = i" V
  for sha sz A V
  by unfold_locales auto

definition announced :: "rx_label list \<Rightarrow> (u16 \<times> string) set" where
  "announced ls = {(idx, h). LDone idx h \<in> set ls}"

lemma rx_ready_integ:
  assumes "rx_ready r"
  shows "integ.rcv_inv (rx_sizes r) A sha (already r) r"
proof -
  have "integ.file_ok (rx_sizes r) A sha (already r) i (r_rx r ! i) (r_world r)" if i: "i < length (r_rx r)" for i
  proof -
    have f: "rx_ready_file (r_world r) (r_rx r ! i)" using assms i by (simp add: rx_ready_def list_all_length)
    then show ?thesis using i
      by (auto simp: integ.file_ok_def integ.static_ok_def integ.disk_ok_def integ.flags_ok_def rx_ready_file_def rx_sizes_def
          already_def is_regular_file_def file_bytes_def)
  qed
  then show ?thesis using assms by (simp add: integ.rcv_inv_def integ.files_ok_def rx_ready_def)
qed


lemma reachable_integ:
  assumes "rcv_run sha ls r r'" "rx_ready r"
  shows "integ.rcv_inv (rx_sizes r) (announced ls) sha (already r) r'"
proof -
  have "list_all (integ.label_ok (rx_sizes r) (announced ls)) ls"
    unfolding list_all_iff integ.label_ok_def integ.hash_ok_def
    by (auto simp: announced_def split: rx_label.splits option.splits)
  then show ?thesis using integ.rcv_run_inv[OF assms(1)] rx_ready_integ[OF assms(2)] by blast
qed

lemma announced_verified:
  assumes "rcv_run sha ls r r'" "rx_ready r" "i < length (r_rx r')" "rx_verified (r_rx r' ! i)"
    "\<not> (i < length (r_rx r) \<and> rx_verified (r_rx r ! i))"
  shows "\<exists>c idx. w_files (r_world r') (rx_final_path (r_rx r' ! i)) = Some c \<and> LDone idx (sha c) \<in> set ls \<and> unat idx = i"
proof -
  have "integ.file_ok (rx_sizes r) (announced ls) sha (already r) i (r_rx r' ! i) (r_world r')"
    using reachable_integ[OF assms(1,2)] assms(3) by (simp add: integ.rcv_inv_def integ.files_ok_def)
  moreover have "i \<notin> already r" using assms(5) by (simp add: already_def)
  ultimately show ?thesis using assms(4) unfolding integ.file_ok_def integ.disk_ok_def
    by (auto simp: announced_def)
qed

text \<open>C3. However blocks, hashes, stop requests and passes of the writer loop interleave and whatever system calls fail,
a file becomes verified only when its renamed contents hash to a value the sender announced for it.\<close>

theorem verified_only_with_announced_hash:
  assumes "rcv_run sha ls r r'" "rx_ready r" "i < length (r_rx r')" "rx_verified (r_rx r' ! i)"
    "\<not> (i < length (r_rx r) \<and> rx_verified (r_rx r ! i))"
  shows "\<exists>c idx. w_files (r_world r') (rx_final_path (r_rx r' ! i)) = Some c \<and> LDone idx (sha c) \<in> set ls \<and> unat idx = i"
  by (rule announced_verified[OF assms])

section \<open>Delivery: honest blocks arrive intact\<close>

text \<open>The payloads and hashes come from the source files \<open>src\<close>.\<close>

interpretation deliv: rx_env sha "\<lambda>i. length (src i)" "\<lambda>i k d. d = blk (length (src i)) k (src i)"
  "\<lambda>i h. h = sha (src i)" "\<lambda>i n. n = length (src i)" "\<lambda>i c. c = src i" V
  for sha and src :: "nat \<Rightarrow> bytes" and V
  by unfold_locales (auto intro: blk_ext)

text \<open>A label of an honest sender: a block datagram whose header fits the file carries that block of the source.\<close>

definition honest :: "(bytes \<Rightarrow> string) \<Rightarrow> (nat \<Rightarrow> bytes) \<Rightarrow> rx_label \<Rightarrow> bool" where
  "honest sha src l \<longleftrightarrow>
     (case l of
        LBlock data \<Rightarrow>
          (case DecodeBlock data of None \<Rightarrow> True
           | Some (h, payload) \<Rightarrow>
               let s = src (unat (bh_file_index h)); k = unat (bh_block_index h) in
               (if k * 1100 < length s \<and> unat (bh_len h) = min 1100 (length s - k * 1100)
                then payload = blk (length s) k s else True))
      | LDone index hash \<Rightarrow> hash = sha (src (unat index))
      | _ \<Rightarrow> True)"

text \<open>The part files have the right length and hold source data where the bitmap says so.\<close>

definition disk_matches :: "(nat \<Rightarrow> bytes) \<Rightarrow> rcv \<Rightarrow> bool" where
  "disk_matches src r \<longleftrightarrow>
     (\<forall>i<length (r_rx r). let f = r_rx r ! i; c = file_bytes (r_world r) (rx_part_path f) in
        length (src i) = unat (rx_size f) \<and>
        (\<not> rx_verified f \<and> 0 < rx_blocks f \<longrightarrow> length c = length (src i) \<and>
           (\<forall>k\<in>bm_set (rx_bitmap f). blk (length (src i)) k c = blk (length (src i)) k (src i))))"

lemma rx_ready_deliv:
  assumes "rx_ready r" "disk_matches src r"
  shows "deliv.rcv_inv src sha (already r) r"
proof -
  have "deliv.file_ok src sha (already r) i (r_rx r ! i) (r_world r)" if i: "i < length (r_rx r)" for i
  proof -
    have f: "rx_ready_file (r_world r) (r_rx r ! i)" using assms(1) i by (simp add: rx_ready_def list_all_length)
    have d: "length (src i) = unat (rx_size (r_rx r ! i))"
      "\<not> rx_verified (r_rx r ! i) \<and> 0 < rx_blocks (r_rx r ! i) \<longrightarrow>
         length (file_bytes (r_world r) (rx_part_path (r_rx r ! i))) = length (src i) \<and>
         (\<forall>k\<in>bm_set (rx_bitmap (r_rx r ! i)). blk (length (src i)) k (file_bytes (r_world r) (rx_part_path (r_rx r ! i))) =
            blk (length (src i)) k (src i))"
      using assms(2) i by (auto simp: disk_matches_def Let_def)
    show ?thesis using f d i
      by (auto simp: deliv.file_ok_def deliv.static_ok_def deliv.disk_ok_def deliv.flags_ok_def rx_ready_file_def
          already_def is_regular_file_def file_bytes_def)
  qed
  then show ?thesis using assms(1) by (simp add: deliv.rcv_inv_def deliv.files_ok_def rx_ready_def)
qed

lemma honest_verified:
  assumes "rcv_run sha ls r r'" "rx_ready r" "disk_matches src r" "list_all (honest sha src) ls"
    "i < length (r_rx r')" "rx_verified (r_rx r' ! i)" "\<not> (i < length (r_rx r) \<and> rx_verified (r_rx r ! i))"
  shows "w_files (r_world r') (rx_final_path (r_rx r' ! i)) = Some (src i)"
proof -
  have lab: "list_all (deliv.label_ok src sha) ls"
    using assms(4) by (auto simp: list_all_iff deliv.label_ok_def deliv.hash_ok_def honest_def Let_def
        split: rx_label.splits option.splits if_splits)
  have "deliv.rcv_inv src sha (already r) r'"
    by (rule deliv.rcv_run_inv[OF assms(1) lab rx_ready_deliv[OF assms(2,3)]])
  then have "deliv.file_ok src sha (already r) i (r_rx r' ! i) (r_world r')"
    using assms(5) by (simp add: deliv.rcv_inv_def deliv.files_ok_def)
  moreover have "i \<notin> already r" using assms(7) by (simp add: already_def)
  ultimately show ?thesis using assms(6) by (auto simp: deliv.file_ok_def deliv.disk_ok_def)
qed

text \<open>C4. When the sender is honest and the part files start out with the right length, every file the receiver
verifies is, byte for byte, the sender's file, in any interleaving and under any pattern of I/O failures.\<close>

theorem verified_file_is_source_file:
  assumes "rcv_run sha ls r r'" "rx_ready r" "disk_matches src r" "list_all (honest sha src) ls"
    "i < length (r_rx r')" "rx_verified (r_rx r' ! i)" "\<not> (i < length (r_rx r) \<and> rx_verified (r_rx r ! i))"
  shows "w_files (r_world r') (rx_final_path (r_rx r' ! i)) = Some (src i)"
  by (rule honest_verified[OF assms])


section \<open>The loop body always returns\<close>

text \<open>Files whose block count leaves the 32-bit scan cursors room.\<close>

definition scan_safe :: "nat \<Rightarrow> bool" where
  "scan_safe n \<longleftrightarrow> n \<le> 1100 * 4294967232"

context rx_env
begin

lemma static_scan: "static_ok i f \<Longrightarrow> scan_safe (sz i) \<Longrightarrow> bm_wf (rx_bitmap f) \<and> unat (bm_size (rx_bitmap f)) + 64 \<le> 4294967296"
proof -
  assume a: "static_ok i f" "scan_safe (sz i)"
  have "unat (rx_blocks f) \<le> 4294967232"
  proof (rule ccontr)
    assume "\<not> unat (rx_blocks f) \<le> 4294967232"
    then have "4294967232 * 1100 < sz i" using blocks_iff[OF a(1), of 4294967232] by simp
    then show False using a(2) by (simp add: scan_safe_def)
  qed
  then show ?thesis using a(1) by (simp add: static_ok_def)
qed

lemma build_sack_total:
  assumes "bm_wf (rx_bitmap f)" "unat (bm_size (rx_bitmap f)) + 64 \<le> 4294967296"
  shows "\<exists>s b. build_sack f rate loss = Some (s, b)"
proof -
  obtain i where i: "bm_AckBase (rx_bitmap f) = Some (i, (rx_bitmap f)\<lparr>bm_ack := i\<rparr>)" "i \<le> bm_size (rx_bitmap f)"
    using bm_AckBase_spec[OF assms(1)] by blast
  let ?b = "(rx_bitmap f)\<lparr>bm_ack := i\<rparr>"
  have wf: "bm_wf ?b" using bm_AckBase_same[OF i(1) assms(1)] by (simp add: bm_same_def)
  have "\<exists>hs b'. bm_Holes i kSackMaxRuns ?b = Some (hs, b')"
    using bm_Holes_spec[OF wf, of i kSackMaxRuns] assms(2) i(2) by (auto simp: sack_consts)
  then show ?thesis using i(1) by (auto simp: build_sack_def Let_def)
qed

lemma SendSack_total: "static_ok i (r_rx r ! i) \<Longrightarrow> scan_safe (sz i) \<Longrightarrow> \<exists>r'. SendSack now i r = Some r'"
proof -
  assume a: "static_ok i (r_rx r ! i)" "scan_safe (sz i)"
  obtain s b where "build_sack (r_rx r ! i) (r_recv_rate_bps r) (r_loss_permille r) = Some (s, b)"
    using build_sack_total static_scan[OF a] by blast
  then show ?thesis by (simp add: SendSack_def Let_def)
qed

lemma FlushRun_total:
  assumes "files_ok r" "run_ok r u" "ru_file u = Some i" "scan_safe (sz i)"
  shows "\<exists>ok r'. FlushRun sha now i (ru_first u) (ru_data u) (ru_blocks u) r = Some (ok, r')"
proof -
  have i: "i < length (r_rx r)" using assms(2,3) by (simp add: run_ok_def Let_def)
  have st: "static_ok i (r_rx r ! i)" using assms(1) i by (simp add: files_ok_def file_ok_def)
  show ?thesis
  proof (cases "rx_writer (r_rx r ! i)")
    case None
    then show ?thesis by (cases "ru_blocks u = []") (auto simp: FlushRun_def Let_def)
  next
    case (Some opened)
    obtain ok w where wr: "WriteAt opened (rx_part_path (r_rx r ! i)) (unat (ru_first u) * kBlockPayloadSize) (ru_data u) (r_world r) = (ok, w)"
      by fastforce
    have "bm_wf (rx_bitmap (r_rx r ! i))" using st by (simp add: static_ok_def)
    from bm_has_set_blocks[OF this, of "ru_blocks u"]
    have "static_ok i (r_rx (commit_run i (ru_data u) (ru_blocks u) w r) ! i)"
      using st i by (auto simp: static_ok_def commit_run_def Let_def)
    then obtain r2 where "SendSack now i (commit_run i (ru_data u) (ru_blocks u) w r) = Some r2"
      using SendSack_total assms(4) by blast
    then show ?thesis using wr Some by (cases ok) (auto simp: FlushRun_def Let_def)
  qed
qed

lemma flush_buf_total: "files_ok r \<Longrightarrow> run_ok r u \<Longrightarrow> (\<And>i. scan_safe (sz i)) \<Longrightarrow> \<exists>ok u' r'. flush_buf sha now u r = Some (ok, u', r')"
  using FlushRun_total[of r u _ now] by (cases "ru_file u") (fastforce simp: flush_buf_def)+

lemma batch_loop_total: "files_ok r \<Longrightarrow> paths_ok (r_rx r) \<Longrightarrow> run_ok r u \<Longrightarrow> list_all (pending_ok r) ps \<Longrightarrow>
   (\<And>i. scan_safe (sz i)) \<Longrightarrow> \<exists>r'. batch_loop sha now ps u r = Some r'"
proof (induction ps arbitrary: u r)
  case Nil
  then show ?case using flush_buf_total[of r u now] by fastforce
next
  case (Cons p ps)
  obtain ok u1 r1 where 1: "(if contiguous p u then Some (True, u, r) else flush_buf sha now u r) = Some (ok, u1, r1)"
    using flush_buf_total[OF Cons.prems(1,3,5), of now] by (cases "contiguous p u") auto
  note inv1 = before_block_ok[OF 1 Cons.prems(1-4)]
  obtain fresh r2 where a: "AcceptBlock p r1 = (fresh, r2)" by fastforce
  have inv2: "files_ok r2 \<and> paths_ok (r_rx r2) \<and> run_ok r2 u1 \<and> same_queues r1 r2 \<and> list_all (pending_ok r2) ps \<and>
    (fresh \<longrightarrow> run_ok r2 (add_block p u1))"
    by (rule accept_step_ok[OF a]) (use inv1 in simp_all)
  let ?u2 = "add_block p u1"
  have rest: "\<exists>r'. batch_loop sha now ps u1 r2 = Some r'" using Cons.IH[of r2 u1] Cons.prems(5) inv2 by blast
  have rest2: "\<exists>r'. batch_loop sha now ps ?u2 r2 = Some r'" if fresh
    using Cons.IH[of r2 ?u2] Cons.prems(5) inv2 that by blast
  have big: "\<exists>r'. Option.bind (flush_buf sha now ?u2 r2) (\<lambda>(ok3, u3, r3). if \<not> ok3 then Some r3 else batch_loop sha now ps u3 r3) = Some r'"
    if f: fresh
  proof -
    obtain ok3 u3 r3 where fl: "flush_buf sha now ?u2 r2 = Some (ok3, u3, r3)"
      using flush_buf_total[of r2 ?u2 now] inv2 f Cons.prems(5) by blast
    have "files_ok r3 \<and> paths_ok (r_rx r3) \<and> run_ok r3 u3" using flush_buf_ok[OF fl] inv2 f by blast
    moreover have "list_all (pending_ok r3) ps"
      using inv2 pending_ok_queues[OF flush_buf_queues[OF fl]] by (simp add: list_all_iff)
    ultimately show ?thesis using fl Cons.IH[of r3 u3] Cons.prems(5) by auto
  qed
  show ?case using 1 a rest rest2 big by (cases ok; cases fresh) (simp_all add: Let_def)
qed

lemma sacks_loop_total: "files_ok r \<Longrightarrow> paths_ok (r_rx r) \<Longrightarrow> list_all (\<lambda>i. i < length (r_rx r)) is \<Longrightarrow>
   (\<And>i. scan_safe (sz i)) \<Longrightarrow> \<exists>r'. sacks_loop now force is r = Some r'"
proof (induction "is" arbitrary: r)
  case (Cons i "is")
  have st: "static_ok i (r_rx r ! i)" using Cons.prems by (simp add: files_ok_def file_ok_def)
  obtain r1 where r1: "SendSack now i r = Some r1" using SendSack_total[OF st] Cons.prems(4) by blast
  have "files_ok r1 \<and> paths_ok (r_rx r1)" using SendSack_ok[OF Cons.prems(1,2) r1] Cons.prems(3) by simp
  moreover have "length (r_rx r1) = length (r_rx r)" using SendSack_queues[OF r1] by (simp add: same_queues_def)
  ultimately show ?case using Cons r1 by simp
qed simp

lemma snapshot_total: "list_all (\<lambda>f. bm_wf (rx_bitmap f) \<and> unat (bm_size (rx_bitmap f)) + 64 \<le> 4294967296) fs \<Longrightarrow>
   \<exists>snap. rx_Snapshot fs = Some snap"
proof (induction fs)
  case (Cons f fs)
  then obtain hs where "bm_HaveRuns kSnapshotRuns (rx_bitmap f) = Some hs"
    using bm_HaveRuns_spec[of "rx_bitmap f" kSnapshotRuns] by auto
  with Cons show ?case by auto
qed simp

lemma Persist_total: "files_ok r \<Longrightarrow> (\<And>i. scan_safe (sz i)) \<Longrightarrow> \<exists>r'. Persist now force r = Some r'"
proof -
  assume a: "files_ok r" "\<And>i. scan_safe (sz i)"
  have "list_all (\<lambda>f. bm_wf (rx_bitmap f) \<and> unat (bm_size (rx_bitmap f)) + 64 \<le> 4294967296) (r_rx r)"
    using a static_scan by (auto simp: list_all_length files_ok_def file_ok_def)
  from snapshot_total[OF this] show ?thesis by (auto simp: Persist_def)
qed

lemma Run_body_total:
  assumes "rcv_inv r" "\<And>i. scan_safe (sz i)"
  shows "\<exists>r'. Run_body sha now t1 t2 r = Some r'"
proof -
  let ?r0 = "r\<lparr>r_queue := [], r_pending_done := [], r_queue_bytes := 0\<rparr>"
  have p0: "pending_ok ?r0 = pending_ok r" by (intro pending_ok_cong) simp
  have 0: "files_ok ?r0 \<and> paths_ok (r_rx ?r0) \<and> list_all (pending_ok ?r0) (r_queue r)"
    using assms(1) p0 by (simp add: rcv_inv_def files_ok_def)
  obtain r1 where r1: "HandleBatch sha now (r_queue r) ?r0 = Some r1"
    using batch_loop_total[of ?r0 empty_run "r_queue r" now] 0 assms(2)
    by (auto simp: HandleBatch_def run_ok_def empty_run_def)
  have 1: "files_ok r1 \<and> paths_ok (r_rx r1)" using HandleBatch_ok[OF r1] 0 by blast
  let ?r2 = "first_check (apply_done sha (r_pending_done r) r1)"
  have 2: "files_ok ?r2 \<and> paths_ok (r_rx ?r2)"
    using first_check_ok apply_done_ok[of r1 "r_pending_done r"] 1 assms(1) by (simp add: rcv_inv_def)
  obtain r3 where r3: "SendSacks now False ?r2 = Some r3"
    using sacks_loop_total[of ?r2 "[0..<length (r_rx ?r2)]" now False] 2 assms(2) by (auto simp: SendSacks_def list_all_iff)
  have 3: "files_ok (UpdateRates now r3)" using SendSacks_ok[OF r3] 2 files_ok_cong[OF UpdateRates_sel(1,2)] by blast
  obtain r4 where r4: "Persist t1 False (UpdateRates now r3) = Some r4" using Persist_total[OF 3 assms(2)] by blast
  have 4: "files_ok r4" using Persist_sel[OF r4] 3 files_ok_cong[of r4 "UpdateRates now r3"] by simp
  obtain r5 where "Persist t2 True r4 = Some r5" using Persist_total[OF 4 assms(2)] by blast
  then show ?thesis using r1 r3 r4 by (cases "r_failed r1") (auto simp: Run_body_def Let_def)
qed
end

section \<open>Start establishes the starting state\<close>

text \<open>Files may appear and grow while the destination is prepared, never shrink.\<close>

definition grows :: "world \<Rightarrow> world \<Rightarrow> bool" where
  "grows w w' \<longleftrightarrow> (\<forall>q c. w_files w q = Some c \<longrightarrow> (\<exists>c'. w_files w' q = Some c' \<and> length c \<le> length c'))"

lemma grows_refl [simp]: "grows w w"
  by (simp add: grows_def)

lemma grows_trans: "grows w w1 \<Longrightarrow> grows w1 w2 \<Longrightarrow> grows w w2"
  unfolding grows_def by (meson le_trans)

lemma rx_ready_file_grows: "rx_ready_file w f \<Longrightarrow> grows w w' \<Longrightarrow> rx_ready_file w' f"
  unfolding rx_ready_file_def grows_def is_regular_file_def file_bytes_def by (fastforce split: option.splits)

lemma EnsureDir_files: "EnsureDir d w = (res, w') \<Longrightarrow> w_files w' = w_files w"
  by (auto simp: EnsureDir_def dest: next_sysD(1) split: if_splits prod.splits)

lemma grows_same: "w_files w' = w_files w \<Longrightarrow> grows w w'"
  by (simp add: grows_def)

lemma open_and_size:
  assumes "OpenWriter p w = (Inr u, w1)" "EnsureSize p n w1 = (True, w2)"
  shows "grows w w2 \<and> is_regular_file w2 p \<and> n \<le> length (file_bytes w2 p)"
proof -
  have w1: "w_files w1 = (w_files w)(p \<mapsto> file_bytes w p)" using OpenWriter_spec[OF assms(1)] by auto
  have w2: "w_files w2 = w_files w1 \<or> w_files w2 = (w_files w1)(p \<mapsto> pad_to n (file_bytes w1 p))"
    "file_bytes w2 p = pad_to n (file_bytes w1 p)" using EnsureSize_spec[OF assms(2)] by auto
  show ?thesis using w1 w2 by (auto simp: grows_def is_regular_file_def file_bytes_def)
qed

lemma resume_rx_push:
  assumes "resume_rx s f r = Some r'" "bm_wf (rx_bitmap f)" "bm_size (rx_bitmap f) = rx_blocks f"
  shows "r_world r' = r_world r \<and> (\<exists>b fr. bm_wf b \<and> bm_size b = rx_blocks f \<and>
    r_rx r' = r_rx r @ [f\<lparr>rx_bitmap := b, rx_frontier := fr, rx_complete := bm_Complete b\<rparr>]) \<and>
    r_queue r' = r_queue r \<and> r_pending_done r' = r_pending_done r"
proof -
  let ?b0 = "bm_SetRuns (rs_have s) (rx_bitmap f)"
  have b0: "bm_wf ?b0" "bm_size ?b0 = rx_blocks f" using bm_SetRuns_props[OF assms(2)] assms(3) by auto
  obtain base b where ab: "bm_AckBase ?b0 = Some (base, b)" using bm_AckBase_spec[OF b0(1)] by blast
  have "bm_wf b \<and> bm_size b = rx_blocks f" using bm_AckBase_same[OF ab b0(1)] b0(2) by (simp add: bm_same_def)
  moreover have "r' = push_rx (f\<lparr>rx_bitmap := b, rx_frontier := base, rx_complete := bm_Complete b\<rparr>)
       (r\<lparr>r_bytes_received := r_bytes_received r + held_bytes (f\<lparr>rx_bitmap := ?b0\<rparr>)\<rparr>)"
    using assms(1) ab by (simp add: resume_rx_def Let_def)
  ultimately show ?thesis by (auto simp: push_rx_def)
qed

definition starting :: "rcv \<Rightarrow> bool" where
  "starting r \<longleftrightarrow> list_all (rx_ready_file (r_world r)) (r_rx r) \<and> r_queue r = [] \<and> r_pending_done r = []"

lemma starting_push:
  assumes "starting r" "grows (r_world r) w" "rx_ready_file w f" "r_rx r' = r_rx r @ [f]" "r_world r' = w"
    "r_queue r' = r_queue r" "r_pending_done r' = r_pending_done r"
  shows "starting r'"
  using assms rx_ready_file_grows by (auto simp: starting_def list_all_iff)

lemma new_rx_sel [simp]: "rx_size (new_rx d n i mf) = mf_size mf" "rx_blocks (new_rx d n i mf) = BlockCountFor (mf_size mf)"
  "rx_bitmap (new_rx d n i mf) = bm_Reset (BlockCountFor (mf_size mf))" "rx_verified (new_rx d n i mf) = False"
  "rx_complete (new_rx d n i mf) = False" "rx_expected_sha256 (new_rx d n i mf) = []"
  by (simp_all add: new_rx_def Let_def)

lemma bm_Complete_empty: "bm_Complete (bm_Reset 0)"
  by (simp add: bm_Complete_def bm_Reset_def)

lemma start_file_starting:
  assumes "start_file names resume i mf r = Some (Inr u, r')" "starting r" "unat (mf_size mf) \<le> kMaxFileSize"
  shows "starting r'"
proof -
  let ?f = "new_rx (r_save_dir r) names i mf"
  let ?rit = "resume (rx_index ?f)"
  show ?thesis
  proof (cases "?rit \<noteq> None \<and> rs_verified (the ?rit) \<and> is_regular_file (r_world r) (rx_final_path ?f)")
    case True
    let ?g = "?f\<lparr>rx_verified := True, rx_complete := True, rx_bitmap := bm_SetRuns [mk_run 0 (rx_blocks ?f)] (rx_bitmap ?f)\<rparr>"
    have "rx_ready_file (r_world r) ?g"
      using bm_SetRuns_props[of "bm_Reset (BlockCountFor (mf_size mf))"] assms(3) by (simp add: rx_ready_file_def del: bm_SetRuns_simps)
    then show ?thesis using assms(1,2) True
      by (intro starting_push[OF assms(2), of "r_world r" ?g]) (auto simp: start_file_def Let_def push_rx_def)
  next
    case False
    obtain e w where ed: "EnsureDir (butlast (rx_final_path ?f)) (r_world r) = (e, w)" by fastforce
    have gw: "grows (r_world r) w" using EnsureDir_files[OF ed] by (rule grows_same)
    obtain u1 where e: "e = Inr u1" using assms(1) False ed by (cases e) (auto simp: start_file_def Let_def)
    show ?thesis
    proof (cases "rx_blocks ?f = 0")
      case True
      have "rx_ready_file w (?f\<lparr>rx_complete := True\<rparr>)"
        using assms(3) True bm_Complete_empty by (simp add: rx_ready_file_def)
      then show ?thesis using assms(1) False ed e True
        by (intro starting_push[OF assms(2) gw, of "?f\<lparr>rx_complete := True\<rparr>"]) (auto simp: start_file_def Let_def push_rx_def)
    next
      case nz: False
      obtain o1 w1 where ow: "OpenWriter (rx_part_path ?f) w = (o1, w1)" by fastforce
      obtain u2 where o1: "o1 = Inr u2" using assms(1) False ed e nz ow by (cases o1) (auto simp: start_file_def Let_def)
      obtain ok w2 where es: "EnsureSize (rx_part_path ?f) (unat (rx_size ?f)) w1 = (ok, w2)" by fastforce
      have ok: ok using assms(1) False ed e nz ow o1 es by (cases ok) (auto simp: start_file_def Let_def)
      have os: "grows w w2" "is_regular_file w2 (rx_part_path ?f)" "unat (rx_size ?f) \<le> length (file_bytes w2 (rx_part_path ?f))"
        using open_and_size[of "rx_part_path ?f" w u2 w1] ow o1 es ok by simp_all
      let ?f1 = "?f\<lparr>rx_writer := Some True\<rparr>" and ?r1 = "r\<lparr>r_world := w2\<rparr>"
      have gw2: "grows (r_world r) w2" using gw os(1) by (rule grows_trans)
      show ?thesis
      proof (cases "?rit \<noteq> None \<and> is_regular_file w (rx_part_path ?f)")
        case True
        then have rr: "resume_rx (the ?rit) ?f1 ?r1 = Some r'"
          using assms(1) False ed e nz ow o1 es ok by (auto simp: start_file_def Let_def)
        from resume_rx_push[OF this] obtain b fr where b: "bm_wf b" "bm_size b = rx_blocks ?f"
          "r_rx r' = r_rx r @ [?f1\<lparr>rx_bitmap := b, rx_frontier := fr, rx_complete := bm_Complete b\<rparr>]"
          "r_world r' = w2" "r_queue r' = r_queue r" "r_pending_done r' = r_pending_done r" by auto
        have "rx_ready_file w2 (?f1\<lparr>rx_bitmap := b, rx_frontier := fr, rx_complete := bm_Complete b\<rparr>)"
          using assms(3) b(1,2) os by (simp add: rx_ready_file_def)
        from starting_push[OF assms(2) gw2 this b(3,4)] b(5,6) show ?thesis by simp
      next
        case nr: False
        then have r': "r' = push_rx ?f1 ?r1"
          using assms(1) False ed e nz ow o1 es ok by (auto simp: start_file_def Let_def split: if_splits)
        have "rx_ready_file w2 ?f1" using assms(3) os by (simp add: rx_ready_file_def)
        from starting_push[OF assms(2) gw2 this] show ?thesis by (simp add: r' push_rx_def)
      qed
    qed
  qed
qed

lemma start_files_starting: "start_files names resume i mfs r = Some (Inr u, r') \<Longrightarrow> starting r \<Longrightarrow>
   list_all (\<lambda>mf. unat (mf_size mf) \<le> kMaxFileSize) mfs \<Longrightarrow> starting r'"
proof (induction names resume i mfs r rule: start_files.induct)
  case (2 names resume i mf mfs r)
  then obtain res r1 where s: "start_file names resume i mf r = Some (res, r1)" by (auto split: bind_splits)
  show ?case
  proof (cases res)
    case (Inr v)
    then have "starting r1" using start_file_starting[of names resume i mf r v r1] s 2 by simp
    then show ?thesis using 2 s Inr by (auto split: bind_splits)
  qed (use 2 s in auto)
qed simp

text \<open>
  Where \<^verbatim>\<open>Start\<close> puts the files of a manifest.  It does not check that these paths differ: the part file of \<^verbatim>\<open>x\<close> is the final
  path of a file \<^verbatim>\<open>x.ctpart\<close>.
\<close>

definition final_paths :: "fspath \<Rightarrow> (string \<rightharpoonup> string) \<Rightarrow> Manifest \<Rightarrow> fspath list" where
  "final_paths save_dir names m = map (\<lambda>mf. JoinSafe save_dir (mapped names (mf_path mf))) (m_files m)"

definition no_clash :: "fspath \<Rightarrow> (string \<rightharpoonup> string) \<Rightarrow> Manifest \<Rightarrow> bool" where
  "no_clash save_dir names m \<longleftrightarrow> distinct (map (add_suffix ''.ctpart'') (final_paths save_dir names m) @ final_paths save_dir names m)"

lemma start_file_paths:
  assumes "start_file names resume i mf r = Some (Inr u, r')"
  shows "r_save_dir r' = r_save_dir r \<and> map rx_final_path (r_rx r') = map rx_final_path (r_rx r) @ [JoinSafe (r_save_dir r) (mapped names (mf_path mf))] \<and>
    map rx_part_path (r_rx r') = map rx_part_path (r_rx r) @ [add_suffix ''.ctpart'' (JoinSafe (r_save_dir r) (mapped names (mf_path mf)))]"
  using assms by (auto simp: start_file_def Let_def push_rx_def resume_rx_def new_rx_def split: if_splits bool.splits prod.splits sum.splits bind_splits)

lemma start_files_paths: "start_files names resume i mfs r = Some (Inr u, r') \<Longrightarrow>
    map rx_final_path (r_rx r') = map rx_final_path (r_rx r) @ map (\<lambda>mf. JoinSafe (r_save_dir r) (mapped names (mf_path mf))) mfs \<and>
    map rx_part_path (r_rx r') = map rx_part_path (r_rx r) @ map (\<lambda>mf. add_suffix ''.ctpart'' (JoinSafe (r_save_dir r) (mapped names (mf_path mf)))) mfs"
proof (induction names resume i mfs r rule: start_files.induct)
  case (2 names resume i mf mfs r)
  then obtain v r1 where s: "start_file names resume i mf r = Some (Inr v, r1)" by (auto split: bind_splits sum.splits)
  then show ?case using 2 start_file_paths[OF s] by auto
qed simp

lemma make_dirs_sel: "make_dirs names ds r = (res, r') \<Longrightarrow> r_queue r' = r_queue r \<and> r_pending_done r' = r_pending_done r \<and> r_save_dir r' = r_save_dir r"
  by (induction names ds r rule: make_dirs.induct) (auto simp: Let_def split: prod.splits sum.splits)

lemma rx_StartE:
  assumes "rx_Start m save_dir names resume r = Some (Inr u, r')"
  obtains r2 r3 u3 where "start_files names (resume_by_index resume) 0 (m_files m) (r2\<lparr>r_rx := []\<rparr>) = Some (Inr u3, r3)"
    "r_queue r2 = r_queue r" "r_pending_done r2 = r_pending_done r" "r_save_dir r2 = save_dir"
    "r' = r3\<lparr>r_started := True, r_running := True, r_initial_check := True, r_world := (r_world r3)\<lparr>w_stop := False\<rparr>\<rparr>"
proof -
  obtain e w where ed: "EnsureDir save_dir (r_world r) = (e, w)" by fastforce
  let ?r1 = "r\<lparr>r_manifest := m, r_save_dir := save_dir\<rparr>"
  have ns: "\<not> r_started r" using assms(1) by (auto simp: rx_Start_def)
  obtain u1 where e: "e = Inr u1" using assms(1) ns ed by (cases e) (auto simp: rx_Start_def Let_def)
  obtain e2 r2 where md: "make_dirs names (m_dirs m) (?r1\<lparr>r_world := w\<rparr>) = (e2, r2)" by fastforce
  obtain u2 where e2: "e2 = Inr u2" using assms(1) ns ed e md by (cases e2) (auto simp: rx_Start_def Let_def)
  obtain res r3 where sf: "start_files names (resume_by_index resume) 0 (m_files m) (r2\<lparr>r_rx := []\<rparr>) = Some (res, r3)"
    using assms(1) ns ed e md e2 by (auto simp: rx_Start_def Let_def split: bind_splits)
  obtain u3 where res: "res = Inr u3" using assms(1) ns ed e md e2 sf by (cases res) (auto simp: rx_Start_def Let_def)
  have "r' = r3\<lparr>r_started := True, r_running := True, r_initial_check := True, r_world := (r_world r3)\<lparr>w_stop := False\<rparr>\<rparr>"
    using assms(1) ns ed e md e2 sf res by (auto simp: rx_Start_def Let_def)
  then show thesis using that[of r2 u3 r3] sf res make_dirs_sel[OF md] by simp
qed

lemma rx_Start_ready:
  assumes "rx_Start m save_dir names resume r = Some (Inr u, r')" "sizes_ok (m_files m)"
    "r_queue r = []" "r_pending_done r = []" "paths_ok (r_rx r')"
  shows "rx_ready r'"
proof -
  obtain r2 r3 u3 where sf: "start_files names (resume_by_index resume) 0 (m_files m) (r2\<lparr>r_rx := []\<rparr>) = Some (Inr u3, r3)"
    and q: "r_queue r2 = r_queue r" "r_pending_done r2 = r_pending_done r"
    and r': "r' = r3\<lparr>r_started := True, r_running := True, r_initial_check := True, r_world := (r_world r3)\<lparr>w_stop := False\<rparr>\<rparr>"
    by (rule rx_StartE[OF assms(1)])
  have "starting (r2\<lparr>r_rx := []\<rparr>)" using q assms(3,4) by (simp add: starting_def)
  then have "starting r3" using start_files_starting[OF sf] assms(2) by (simp add: sizes_ok_def)
  moreover have "rx_ready_file ((r_world r3)\<lparr>w_stop := False\<rparr>) = rx_ready_file (r_world r3)"
    by (simp add: fun_eq_iff rx_ready_file_def is_regular_file_def file_bytes_def)
  ultimately show ?thesis using assms(5) by (simp add: rx_ready_def starting_def r')
qed

lemma rx_Start_paths:
  assumes "rx_Start m save_dir names resume r = Some (Inr u, r')"
  shows "paths_ok (r_rx r') \<longleftrightarrow> no_clash save_dir names m"
proof (rule rx_StartE[OF assms])
  fix r2 r3 u3
  assume sf: "start_files names (resume_by_index resume) 0 (m_files m) (r2\<lparr>r_rx := []\<rparr>) = Some (Inr u3, r3)" and d: "r_save_dir r2 = save_dir"
    and r': "r' = r3\<lparr>r_started := True, r_running := True, r_initial_check := True, r_world := (r_world r3)\<lparr>w_stop := False\<rparr>\<rparr>"
  show ?thesis using start_files_paths[OF sf] d by (simp add: r' paths_ok_def no_clash_def final_paths_def comp_def)
qed

section \<open>Reachable states\<close>

text \<open>C8. From a successful \<^verbatim>\<open>Start\<close> on, in every state the threads can reach, each file's bitmap is well formed
and has one bit per block of the file, a file marked complete has all of its blocks, and the part file of an
unverified file exists and has room for the whole file.  The manifest and the names chosen for its roots must put no
two files, and no part file and file, at one path; \<^verbatim>\<open>Start\<close> itself does not check this.\<close>

theorem receiver_state_stays_consistent:
  assumes "rx_Start m save_dir names resume r0 = Some (Inr u, r)" "sizes_ok (m_files m)"
    "r_queue r0 = []" "r_pending_done r0 = []" "no_clash save_dir names m"
    "rcv_run sha ls r r'" "i < length (r_rx r')"
  shows "let f = r_rx r' ! i in
    rx_blocks f = BlockCountFor (rx_size f) \<and> bm_wf (rx_bitmap f) \<and> bm_size (rx_bitmap f) = rx_blocks f \<and>
    (rx_complete f \<and> \<not> rx_verified f \<longrightarrow> bm_Complete (rx_bitmap f)) \<and>
    (\<not> rx_verified f \<and> 0 < rx_blocks f \<longrightarrow>
       is_regular_file (r_world r') (rx_part_path f) \<and>
       unat (rx_size f) \<le> length (file_bytes (r_world r') (rx_part_path f)))"
proof -
  have "integ.file_ok (rx_sizes r) (announced ls) sha (already r) i (r_rx r' ! i) (r_world r')"
    using reachable_integ[OF assms(6) rx_Start_ready[OF assms(1-4)]] rx_Start_paths[OF assms(1)] assms(5,7)
    by (simp add: integ.rcv_inv_def integ.files_ok_def)
  then show ?thesis
    unfolding integ.file_ok_def integ.static_ok_def integ.disk_ok_def integ.flags_ok_def Let_def
    by (auto simp: is_regular_file_def file_bytes_def)
qed

text \<open>C15. A pass of the writer thread always returns, in every reachable state and whatever system calls fail,
as long as no file has more than \<^verbatim>\<open>2^32 - 64\<close> blocks (about 4.3 TB), beyond which the bitmap scans may not.\<close>

theorem writer_pass_returns:
  assumes "rcv_run sha ls r r'" "rx_ready r" "list_all (\<lambda>f. scan_safe (unat (rx_size f))) (r_rx r)"
  shows "\<exists>r''. Run_body sha now t1 t2 r' = Some r''"
proof -
  have "scan_safe (rx_sizes r i)" for i
    using assms(3) by (cases "i < length (r_rx r)") (auto simp: rx_sizes_def list_all_length scan_safe_def)
  then show ?thesis by (rule integ.Run_body_total[OF reachable_integ[OF assms(1,2)]])
qed

section \<open>What a selective acknowledgement says\<close>

text \<open>The runs below a frontier, on pairs.\<close>

definition cut_runs :: "nat \<Rightarrow> (nat \<times> nat) list \<Rightarrow> (nat \<times> nat) list" where
  "cut_runs fr ps = map (\<lambda>(s, n). (s, min n (fr - s))) (filter (\<lambda>p. fst p < fr) ps)"

lemma runs_set_cut: "runs_set (cut_runs fr ps) = runs_set ps \<inter> {..<fr}"
proof (induction ps)
  case (Cons p ps)
  obtain s n where p: "p = (s, n)" by fastforce
  have "run_set (s, min n (fr - s)) = run_set (s, n) \<inter> {..<fr}" if "s < fr" using that by (auto simp: run_set_def)
  moreover have "run_set (s, n) \<inter> {..<fr} = {}" if "\<not> s < fr" using that by (auto simp: run_set_def)
  ultimately show ?case using Cons by (simp add: cut_runs_def p Int_Un_distrib2)
qed (simp add: cut_runs_def)

lemma sorted_filter_take:
  fixes ps :: "(nat \<times> nat) list"
  assumes "sorted_wrt (\<lambda>p q. fst p + snd p < fst q) ps"
  shows "filter (\<lambda>p. fst p < fr) ps = rev (dropWhile (\<lambda>p. fr \<le> fst p) (rev ps))"
  using assms
proof (induction ps rule: rev_induct)
  case (snoc p ps)
  show ?case
  proof (cases "fr \<le> fst p")
    case False
    have "fst q < fr" if "q \<in> set ps" for q
    proof -
      have "fst q + snd q < fst p" using snoc.prems that by (simp add: sorted_wrt_append)
      then show ?thesis using False by linarith
    qed
    then show ?thesis using False by (auto simp: filter_id_conv)
  qed (use snoc in \<open>auto simp: sorted_wrt_append\<close>)
qed simp

lemma runs_set_cut_take:
  assumes "runs_ok lo hi ps" "length (cut_runs fr (take m ps)) < m"
  shows "runs_set (cut_runs fr (take m ps)) = runs_set (cut_runs fr ps)"
proof (cases "length ps \<le> m")
  case False
  then have len: "length (take m ps) = m" by simp
  have "\<exists>p\<in>set (take m ps). fr \<le> fst p"
  proof (rule ccontr)
    assume "\<not> ?thesis"
    then have "filter (\<lambda>p. fst p < fr) (take m ps) = take m ps" by (auto simp: filter_id_conv)
    then show False using assms(2) len by (simp add: cut_runs_def)
  qed
  then obtain p where p: "p \<in> set (take m ps)" "fr \<le> fst p" by blast
  have s: "sorted_wrt (\<lambda>p q. fst p + snd p < fst q) (take m ps @ drop m ps)" using assms(1) by (simp add: runs_ok_def)
  have "\<forall>q\<in>set (drop m ps). fr \<le> fst q"
    using s p unfolding sorted_wrt_append by (meson le_add1 le_less_trans le_trans less_imp_le_nat)
  then have "runs_set (drop m ps) \<inter> {..<fr} = {}" by (fastforce simp: runs_set_def run_set_def)
  moreover have "runs_set ps = runs_set (take m ps) \<union> runs_set (drop m ps)"
    by (metis append_take_drop_id runs_set_simps(3))
  ultimately show ?thesis unfolding runs_set_cut by blast
qed simp

lemma below_frontier_cut:
  assumes "runs_ok lo hi (map run_pair hs)" "hi < 4294967296"
  shows "map run_pair (below_frontier fr hs) = cut_runs (unat fr) (map run_pair hs)"
proof -
  let ?P = "\<lambda>p. unat fr \<le> fst p"
  let ?hs = "rev (dropWhile (\<lambda>h. fr \<le> run_start h) (rev hs))"
  have srt: "sorted_wrt (\<lambda>p q. fst p + snd p < fst q) (map run_pair hs)" using assms(1) by (simp add: runs_ok_def)
  have eq: "map run_pair ?hs = filter (\<lambda>p. fst p < unat fr) (map run_pair hs)"
    unfolding sorted_filter_take[OF srt]
    by (simp add: rev_map dropWhile_map o_def word_le_nat_alt run_pair_def)
  show ?thesis
  proof (cases "?hs = []")
    case True
    then have "filter (\<lambda>p. fst p < unat fr) (map run_pair hs) = []" using eq by (simp only: list.map)
    then show ?thesis using True by (simp only: below_frontier_def clip_last_def cut_runs_def list.map simp_thms if_True)
  next
    case False
    then obtain gs h where gs: "?hs = gs @ [h]" by (metis append_butlast_last_id)
    have in_hs: "set ?hs \<subseteq> set hs" by (auto dest: set_dropWhileD)
    have room: "unat (run_start g) + unat (run_length g) < 4294967296" if "g \<in> set ?hs" for g
    proof -
      have "run_pair g \<in> set (map run_pair hs)" using that in_hs by auto
      then have "fst (run_pair g) + snd (run_pair g) \<le> hi" using assms(1) unfolding runs_ok_def by blast
      then show ?thesis using assms(2) by (simp add: run_pair_def)
    qed
    have fr: "map run_pair gs @ [run_pair h] = filter (\<lambda>p. fst p < unat fr) (map run_pair hs)" using eq gs by simp
    have sorted: "sorted_wrt (\<lambda>p q. fst p + snd p < fst q) (map run_pair gs @ [run_pair h])"
      unfolding fr using srt by (rule sorted_wrt_filter)
    have "run_pair h \<in> set (filter (\<lambda>p. fst p < unat fr) (map run_pair hs))" unfolding fr[symmetric] by simp
    then have h: "unat (run_start h) < unat fr" by (simp add: run_pair_def)
    have g: "min (unat (run_length g)) (unat fr - unat (run_start g)) = unat (run_length g)" if "g \<in> set gs" for g
    proof -
      have "unat (run_start g) + unat (run_length g) < unat (run_start h)"
        using sorted that by (simp add: sorted_wrt_append run_pair_def)
      then show ?thesis using h by linarith
    qed
    have cuts: "cut_runs (unat fr) (map run_pair hs) = map run_pair gs @ [(unat (run_start h), min (unat (run_length h)) (unat fr - unat (run_start h)))]"
      unfolding cut_runs_def fr[symmetric] using g by (simp add: run_pair_def)
    have sum: "unat (run_start h + run_length h) = unat (run_start h) + unat (run_length h)"
      using room[of h] gs by (simp add: unat_word_ariths)
    show ?thesis
    proof (cases "fr < run_start h + run_length h")
      case True
      then have "unat fr < unat (run_start h) + unat (run_length h)" using sum by (simp add: word_less_nat_alt)
      moreover have "unat (fr - run_start h) = unat fr - unat (run_start h)" using h by (simp add: unat_sub word_le_nat_alt)
      ultimately show ?thesis using True gs unfolding cuts
        by (simp add: below_frontier_def clip_last_def run_pair_def Let_def)
    next
      case False
      then have "unat (run_start h) + unat (run_length h) \<le> unat fr" using sum by (simp add: not_less word_le_nat_alt)
      then show ?thesis using False gs unfolding cuts
        by (simp add: below_frontier_def clip_last_def run_pair_def Let_def)
    qed
  qed
qed

lemma cut_nonempty: "runs_ok lo hi ps \<Longrightarrow> p \<in> set (cut_runs fr ps) \<Longrightarrow> 0 < snd p"
  by (auto simp: cut_runs_def runs_ok_def)

lemma length_cut: "length (cut_runs fr ps) \<le> length ps"
  by (simp add: cut_runs_def)

lemma runs_set_run_pair: "runs_set (map run_pair hs) = (\<Union>h \<in> set hs. run_blocks h)"
  by (simp add: runs_set_def run_blocks_def)

lemma build_sack_shape:
  assumes "bm_wf (rx_bitmap f)" "unat (bm_size (rx_bitmap f)) + 64 \<le> 2 ^ 32" "build_sack f rate loss = Some (s, b)"
  obtains i hs where "unat i = scan (bm_has (rx_bitmap f)) True (bm_bits (rx_bitmap f)) 0" "sk_ack_base s = i"
    "sk_frontier s = max (rx_frontier f) i" "sk_flags s = (if bm_Complete (rx_bitmap f) then kSackFlagComplete else 0)"
    "sk_holes s = (if bm_Complete (rx_bitmap f) then [] else below_frontier (max (rx_frontier f) i) hs)"
    "map run_pair (below_frontier (max (rx_frontier f) i) hs) = cut_runs (unat (max (rx_frontier f) i))
       (take kSackMaxRuns (runs (bm_has (rx_bitmap f)) False (bm_bits (rx_bitmap f)) (scan (bm_has (rx_bitmap f)) True (bm_bits (rx_bitmap f)) 0)))"
proof -
  let ?b = "rx_bitmap f"
  let ?base = "scan (bm_has ?b) True (bm_bits ?b) 0"
  let ?rs = "runs (bm_has ?b) False (bm_bits ?b) ?base"
  obtain i where i: "bm_AckBase ?b = Some (i, ?b\<lparr>bm_ack := i\<rparr>)" "unat i = ?base" "i \<le> bm_size ?b"
    using bm_AckBase_spec[OF assms(1)] by blast
  let ?b1 = "?b\<lparr>bm_ack := i\<rparr>"
  have wf: "bm_wf ?b1" using bm_wf_ack[OF assms(1) i(2,3)] .
  have has: "bm_has ?b1 = bm_has ?b" by (simp add: fun_eq_iff bm_has_def)
  obtain hs b2 where h: "bm_Holes i kSackMaxRuns ?b1 = Some (hs, b2)" "map run_pair hs = take kSackMaxRuns ?rs"
    using bm_Holes_spec[OF wf, of i kSackMaxRuns] assms(2) i(2,3) has by (auto simp: sack_consts)
  let ?fr = "max (rx_frontier f) i"
  have s: "sk_ack_base s = i" "sk_frontier s = ?fr"
    "sk_flags s = (if bm_Complete ?b then kSackFlagComplete else 0)"
    "sk_holes s = (if bm_Complete ?b then [] else below_frontier ?fr hs)"
    using assms(3) i(1) h(1) by (auto simp: build_sack_def Let_def bm_Complete_def sack_consts below_frontier_def clip_last_def split: if_splits)
  have okt: "runs_ok ?base (bm_bits ?b) (map run_pair hs)" unfolding h(2) by (rule runs_ok_take[OF runs_ok_runs])
  have "map run_pair (below_frontier ?fr hs) = cut_runs (unat ?fr) (take kSackMaxRuns ?rs)"
    using below_frontier_cut[OF okt unat_lt_u32] by (simp add: h(2))
  then show ?thesis using that i(2) s by blast
qed

text \<open>C16. A selective acknowledgement is accurate: it survives its own encoding; it carries the complete flag exactly when
the file is complete; everything below its base has been received; its holes are missing blocks below the frontier,
and all of them when fewer than the 140 that fit one datagram.\<close>

theorem sack_reports_missing_blocks:
  assumes "bm_wf (rx_bitmap f)" "unat (bm_size (rx_bitmap f)) + 64 \<le> 2 ^ 32"
    "build_sack f rate loss = Some (s, b)"
  defines "missing \<equiv> {k. k < unat (bm_size (rx_bitmap f)) \<and> k < unat (sk_frontier s)} - bm_set (rx_bitmap f)"
  shows "DecodeSack (EncodeSack s) = Some s \<and>
    (sk_flags s AND kSackFlagComplete \<noteq> 0 \<longleftrightarrow> bm_Complete (rx_bitmap f)) \<and>
    {..<unat (sk_ack_base s)} \<subseteq> bm_set (rx_bitmap f) \<and>
    (\<Union>h \<in> set (sk_holes s). run_blocks h) \<subseteq> missing \<and>
    (length (sk_holes s) < kSackMaxRuns \<longrightarrow> (\<Union>h \<in> set (sk_holes s). run_blocks h) = missing)"
proof -
  let ?b = "rx_bitmap f"
  let ?base = "scan (bm_has ?b) True (bm_bits ?b) 0"
  let ?rs = "runs (bm_has ?b) False (bm_bits ?b) ?base"
  obtain i hs where i: "unat i = ?base"
    and s: "sk_ack_base s = i" "sk_frontier s = max (rx_frontier f) i" "sk_flags s = (if bm_Complete ?b then kSackFlagComplete else 0)"
      "sk_holes s = (if bm_Complete ?b then [] else below_frontier (max (rx_frontier f) i) hs)"
    and bf: "map run_pair (below_frontier (max (rx_frontier f) i) hs) = cut_runs (unat (max (rx_frontier f) i)) (take kSackMaxRuns ?rs)"
    by (rule build_sack_shape[OF assms(1-3)])
  let ?fr = "max (rx_frontier f) i"
  have below: "{..<?base} \<subseteq> bm_set ?b" using scan_inside[of 0 _ "bm_has ?b" True "bm_bits ?b"] by auto
  have fullset: "runs_set ?rs = {k. k < bm_bits ?b} - bm_set ?b"
    using below by (auto simp: runs_set_runs not_less intro: leI)
  have ok: "runs_ok ?base (bm_bits ?b) ?rs" by (rule runs_ok_runs)
  have U: "(\<Union>h \<in> set (below_frontier ?fr hs). run_blocks h) = runs_set (cut_runs (unat ?fr) (take kSackMaxRuns ?rs))"
    unfolding bf[symmetric] by (rule runs_set_run_pair[symmetric])
  have miss: "missing = runs_set (cut_runs (unat ?fr) ?rs)"
    unfolding missing_def s runs_set_cut fullset by auto
  have cmp: "missing = {}" if "bm_Complete ?b"
  proof -
    have all: "bm_set ?b = {0 ..< bm_bits ?b}" using that bm_Complete_iff[OF assms(1)] by simp
    show ?thesis unfolding missing_def all by auto
  qed
  have "length (below_frontier ?fr hs) \<le> kSackMaxRuns"
    using arg_cong[OF bf, of length] length_cut[of "unat ?fr" "take kSackMaxRuns ?rs"] by simp
  moreover have "run_length h \<noteq> 0" if "h \<in> set (below_frontier ?fr hs)" for h
  proof -
    have "run_pair h \<in> set (cut_runs (unat ?fr) (take kSackMaxRuns ?rs))" using that unfolding bf[symmetric] by simp
    then show ?thesis using cut_nonempty[OF runs_ok_take[OF ok]] by (fastforce simp: run_pair_def)
  qed
  ultimately have "DecodeSack (EncodeSack s) = Some s"
    using sack_codec.roundtrip[of s] s(4) by (simp add: sack_valid_def)
  moreover have "sk_flags s AND kSackFlagComplete \<noteq> 0 \<longleftrightarrow> bm_Complete ?b" by (simp add: s sack_consts)
  moreover have "{..<unat (sk_ack_base s)} \<subseteq> bm_set ?b" using below by (simp add: s i)
  moreover have "(\<Union>h \<in> set (sk_holes s). run_blocks h) \<subseteq> missing"
    using runs_set_take[of kSackMaxRuns ?rs] cmp by (auto simp: s U miss runs_set_cut)
  moreover have "(\<Union>h \<in> set (sk_holes s). run_blocks h) = missing" if "length (sk_holes s) < kSackMaxRuns"
  proof (cases "bm_Complete ?b")
    case False
    then have "length (cut_runs (unat ?fr) (take kSackMaxRuns ?rs)) < kSackMaxRuns"
      using that arg_cong[OF bf, of length] by (simp add: s)
    from runs_set_cut_take[OF ok this] show ?thesis using False U by (simp add: s miss)
  qed (use cmp s in simp)
  ultimately show ?thesis by blast
qed

section \<open>A concrete transfer\<close>

text \<open>One file of three bytes, received in one block; a hash for the demonstration that is the contents themselves.\<close>

declare AckBase_loop.simps [code] skip_loop.simps [code] runs_loop.simps [code]

definition demo_hash :: "bytes \<Rightarrow> string" where
  "demo_hash b = map (\<lambda>x. char_of (unat x)) b"

definition idle_rcv :: rcv where
  "idle_rcv = \<lparr>r_manifest = empty_manifest, r_save_dir = [], r_rx = [], r_created_dirs = [],
     r_started = False, r_running = False, r_initial_check = False, r_finished = False, r_failed = False, r_queue = [],
     r_queue_bytes = 0, r_pending_done = [], r_last_persist_ms = 0, r_last_rate_ms = 0, r_rate_bytes = 0,
     r_rate_expected = 0, r_rate_received = 0, r_bytes_received = 0, r_files_done = 0, r_current_file = - 1,
     r_recv_rate_bps = 0, r_loss_permille = 0, r_duplicates = 0,
     r_world = \<lparr>w_files = Map.empty, w_dirs = {}, w_sys = [], w_stop = False\<rparr>, r_out = []\<rparr>"

definition demo_manifest :: Manifest where
  "demo_manifest = \<lparr>m_files = [\<lparr>mf_path = ''a'', mf_size = 3\<rparr>], m_dirs = [],
     m_roots = [\<lparr>mr_name = ''a'', mr_is_dir = False\<rparr>], m_total_bytes = 3\<rparr>"

definition demo_start :: "((string + unit) \<times> rcv) option" where
  "demo_start = rx_Start demo_manifest [''out''] Map.empty [] idle_rcv"

definition demo_rcv :: rcv where
  "demo_rcv = snd (the demo_start)"

definition demo_block :: bytes where
  "demo_block = [0x43, 0x42, 1, 1, 0, 0, 0, 0, 0, 0, 0, 3, 7, 8, 9]"

definition demo_queued :: rcv where
  "demo_queued = OnFileDone 0 (demo_hash [7, 8, 9]) (OnBlock demo_block demo_rcv)"

definition demo_end :: rcv where
  "demo_end = the (Run_body demo_hash 100 100 100 demo_queued)"

abbreviation demo_labels :: "rx_label list" where
  "demo_labels \<equiv> [LBlock demo_block, LDone 0 (demo_hash [7, 8, 9]), LBody 100 100 100]"

lemma demo_started: "map_option (isl \<circ> fst) demo_start = Some False"
  by code_simp

definition demo_shape :: "rcv \<Rightarrow> bool" where
  "demo_shape r \<longleftrightarrow> paths_ok (r_rx r) \<and> length (r_rx r) = 1 \<and> rx_size (r_rx r ! 0) = 3 \<and> rx_bitmap (r_rx r ! 0) = bm_Reset 1 \<and>
     file_bytes (r_world r) (rx_part_path (r_rx r ! 0)) = [0, 0, 0] \<and> \<not> rx_verified (r_rx r ! 0) \<and> r_running r"

lemma demo_shape_eval: "demo_shape demo_rcv"
  by code_simp

lemma demo_rcv_shape: "paths_ok (r_rx demo_rcv)" "length (r_rx demo_rcv) = 1" "rx_size (r_rx demo_rcv ! 0) = 3"
  "rx_bitmap (r_rx demo_rcv ! 0) = bm_Reset 1" "file_bytes (r_world demo_rcv) (rx_part_path (r_rx demo_rcv ! 0)) = [0, 0, 0]"
  "\<not> rx_verified (r_rx demo_rcv ! 0)" "r_running demo_queued"
  using demo_shape_eval by (simp_all add: demo_shape_def demo_queued_def OnFileDone_def OnBlock_def Let_def split: option.splits)

lemma demo_result:
  "map_option (\<lambda>r. (length (r_rx r), map rx_verified (r_rx r), map rx_final_path (r_rx r)))
     (Run_body demo_hash 100 100 100 demo_queued) = Some (1, [True], [[''out'', ''a'']])"
  by code_simp

lemma demo_verified: "Run_body demo_hash 100 100 100 demo_queued = Some demo_end" "length (r_rx demo_end) = 1"
  "rx_verified (r_rx demo_end ! 0)" "rx_final_path (r_rx demo_end ! 0) = [''out'', ''a'']"
  using demo_result by (auto simp: demo_end_def length_Suc_conv)

lemma demo_Start: "rx_Start demo_manifest [''out''] Map.empty [] idle_rcv = Some (Inr (), demo_rcv)"
proof -
  obtain e r where "demo_start = Some (e, r)" "\<not> isl e" using demo_started by (cases demo_start) auto
  then show ?thesis by (cases e) (auto simp: demo_rcv_def demo_start_def)
qed

lemma demo_sizes: "sizes_ok (m_files demo_manifest)"
  by (simp add: sizes_ok_def demo_manifest_def kMaxFileSize_def kBlockPayloadSize_def kMaxDatagram_def kBlockHeaderSize_def)

lemma demo_no_clash: "no_clash [''out''] Map.empty demo_manifest"
  by code_simp

lemma demo_idle: "r_queue idle_rcv = []" "r_pending_done idle_rcv = []"
  by (simp_all add: idle_rcv_def)

lemma demo_ready: "rx_ready demo_rcv"
  by (rule rx_Start_ready[OF demo_Start demo_sizes demo_idle demo_rcv_shape(1)])

lemma demo_run: "rcv_run demo_hash demo_labels demo_rcv demo_end"
proof -
  have "rcv_run demo_hash ([] @ [LBlock demo_block]) demo_rcv (OnBlock demo_block demo_rcv)"
    by (rule run_step[OF run_nil step_block])
  then have "rcv_run demo_hash (([] @ [LBlock demo_block]) @ [LDone 0 (demo_hash [7, 8, 9])]) demo_rcv demo_queued"
    unfolding demo_queued_def by (rule run_step[OF _ step_done])
  then have "rcv_run demo_hash ((([] @ [LBlock demo_block]) @ [LDone 0 (demo_hash [7, 8, 9])]) @ [LBody 100 100 100]) demo_rcv demo_end"
    by (rule run_step[OF _ step_body[OF demo_rcv_shape(7) demo_verified(1)]])
  then show ?thesis by simp
qed

lemma demo_disk: "disk_matches (\<lambda>_. [7, 8, 9]) demo_rcv"
proof -
  have "bm_set (bm_Reset 1) = {}" by (simp add: bm_set_def)
  then show ?thesis by (simp add: disk_matches_def Let_def demo_rcv_shape)
qed

lemma demo_honest: "list_all (honest demo_hash (\<lambda>_. [7, 8, 9])) demo_labels"
  by code_simp


section \<open>The properties on it\<close>

lemma demo_index: "0 < length (r_rx demo_end)" "\<not> (0 < length (r_rx demo_rcv) \<and> rx_verified (r_rx demo_rcv ! 0))"
  by (simp_all add: demo_verified demo_rcv_shape)

theorem verified_only_with_announced_hash_witness:
  "\<exists>c idx. w_files (r_world demo_end) [''out'', ''a''] = Some c \<and> LDone idx (demo_hash c) \<in> set demo_labels \<and> unat idx = 0"
  using verified_only_with_announced_hash[OF demo_run demo_ready demo_index(1) demo_verified(3) demo_index(2)]
  unfolding demo_verified(4) .

theorem verified_file_is_source_file_witness:
  "w_files (r_world demo_end) [''out'', ''a''] = Some [7, 8, 9]"
  using verified_file_is_source_file[OF demo_run demo_ready demo_disk demo_honest demo_index(1) demo_verified(3) demo_index(2)]
  unfolding demo_verified(4) .

theorem receiver_state_stays_consistent_witness:
  "rx_blocks (r_rx demo_end ! 0) = BlockCountFor (rx_size (r_rx demo_end ! 0)) \<and> bm_wf (rx_bitmap (r_rx demo_end ! 0))"
  using receiver_state_stays_consistent[OF demo_Start demo_sizes demo_idle demo_no_clash demo_run demo_index(1)]
  by (simp only: Let_def)

theorem writer_pass_returns_witness:
  "\<exists>r. Run_body demo_hash 200 201 202 demo_end = Some r"
proof -
  have "list_all (\<lambda>f. scan_safe (unat (rx_size f))) (r_rx demo_rcv)"
    by (simp add: list_all_length demo_rcv_shape scan_safe_def)
  from writer_pass_returns[OF demo_run demo_ready this] show ?thesis .
qed

theorem sack_reports_missing_blocks_witness:
  "\<exists>s b. build_sack (r_rx demo_rcv ! 0) 5 6 = Some (s, b) \<and> DecodeSack (EncodeSack s) = Some s \<and>
     sk_flags s AND kSackFlagComplete = 0"
proof -
  have wf: "bm_wf (rx_bitmap (r_rx demo_rcv ! 0))" "unat (bm_size (rx_bitmap (r_rx demo_rcv ! 0))) + 64 \<le> 2 ^ 32"
    by (simp_all add: demo_rcv_shape)
  then obtain s b where "build_sack (r_rx demo_rcv ! 0) 5 6 = Some (s, b)"
    using integ.build_sack_total[of "r_rx demo_rcv ! 0" 5 6] by auto
  moreover have "\<not> bm_Complete (rx_bitmap (r_rx demo_rcv ! 0))" by (simp add: demo_rcv_shape bm_Complete_def bm_Reset_def)
  ultimately show ?thesis using sack_reports_missing_blocks[OF wf] by blast
qed

end
