(* ===== verification/End_To_End.thy ===== *)
theory End_To_End
  imports Sender_Steps Receiver_Props
begin

text \<open>
  Properties of the sender (completeness of the sweep, bounds, pacing, accounting, completion) and of sender and
  receiver together: what the receiver verifies is what the sender shared.
\<close>

section \<open>Start of the sender\<close>

lemma mark_verified_sel: "fixed (mark_verified v s) = fixed s" "s_out (mark_verified v s) = s_out s"
  "s_inflight (mark_verified v s) = s_inflight s" "s_world (mark_verified v s) = s_world s"
  "map tf_sweep_done (s_tx (mark_verified v s)) = map tf_sweep_done (s_tx s)"
  by (simp_all add: mark_verified_def fixed_def map_upd)

lemma fold_mark_verified_sel: "fixed (fold mark_verified vs s) = fixed s" "s_out (fold mark_verified vs s) = s_out s"
  "s_inflight (fold mark_verified vs s) = s_inflight s" "s_world (fold mark_verified vs s) = s_world s"
  "map tf_sweep_done (s_tx (fold mark_verified vs s)) = map tf_sweep_done (s_tx s)"
  by (induction vs arbitrary: s) (simp_all add: mark_verified_sel)

lemma tx_Start_files:
  assumes "tx_Start m files have verified s0 = (Inr u, s)"
  shows "length files = length (m_files m)" "length (s_tx s) = length (m_files m)" "s_out s = s_out s0"
    "s_inflight s = s_inflight s0" "s_world s = s_world s0"
    "i < length (m_files m) \<Longrightarrow> tf_index (s_tx s ! i) = of_nat i \<and> tf_size (s_tx s ! i) = mf_size (m_files m ! i) \<and>
       tf_blocks (s_tx s ! i) = BlockCountFor (mf_size (m_files m ! i)) \<and> tf_path (s_tx s ! i) = files ! i \<and>
       \<not> tf_sweep_done (s_tx s ! i) \<and>
       length (tf_sweep_ms (s_tx s ! i)) = unat ((BlockCountFor (mf_size (m_files m ! i)) + kBucketBlocks - 1) div kBucketBlocks)"
proof -
  let ?s1 = "s0\<lparr>s_manifest := m,
    s_tx := map (\<lambda>(i, mf, p). new_tx have i mf p) (zip [0..<length files] (zip (m_files m) files))\<rparr>"
  show len: "length files = length (m_files m)" using assms by (auto simp: tx_Start_def split: if_splits)
  have s: "s = (fold mark_verified verified ?s1)\<lparr>s_stop := False, s_started := True\<rparr>"
    using assms by (auto simp: tx_Start_def Let_def split: if_splits)
  have fx: "fixed s = fixed ?s1" using fold_mark_verified_sel(1)[of verified ?s1] unfolding s fixed_def by simp
  show l: "length (s_tx s) = length (m_files m)" using fixedD(1)[OF fx] len by simp
  show "s_out s = s_out s0" "s_inflight s = s_inflight s0" "s_world s = s_world s0"
    using fold_mark_verified_sel(2-4)[of verified ?s1] by (simp_all add: s)
  assume i: "i < length (m_files m)"
  have new: "s_tx ?s1 ! i = new_tx have i (m_files m ! i) (files ! i)" using i len by simp
  have "map tf_sweep_done (s_tx s) ! i = map tf_sweep_done (s_tx ?s1) ! i"
    using fold_mark_verified_sel(5)[of verified ?s1] by (simp add: s)
  then have "\<not> tf_sweep_done (s_tx s ! i)" using i l len new by (simp add: new_tx_def Let_def)
  then show "tf_index (s_tx s ! i) = of_nat i \<and> tf_size (s_tx s ! i) = mf_size (m_files m ! i) \<and>
       tf_blocks (s_tx s ! i) = BlockCountFor (mf_size (m_files m ! i)) \<and> tf_path (s_tx s ! i) = files ! i \<and>
       \<not> tf_sweep_done (s_tx s ! i) \<and>
       length (tf_sweep_ms (s_tx s ! i)) = unat ((BlockCountFor (mf_size (m_files m ! i)) + kBucketBlocks - 1) div kBucketBlocks)"
    using fixedD(3)[OF fx, of i] i len unfolding new by (simp add: new_tx_def Let_def)
qed

text \<open>A sender that has been started with nothing sent yet.\<close>

definition tx_ready :: "tx_state \<Rightarrow> bool" where
  "tx_ready s \<longleftrightarrow> tx_files_ok s \<and> s_inflight s = [] \<and> s_out s = [] \<and>
     (\<forall>i<length (s_tx s). tf_index (s_tx s ! i) = of_nat i \<and> \<not> tf_sweep_done (s_tx s ! i))"

lemma tx_Start_ready:
  assumes "tx_Start m files have verified s0 = (Inr u, s)" "s_inflight s0 = []" "s_out s0 = []" "sizes_ok (m_files m)"
  shows "tx_ready s"
  using tx_Start_files[OF assms(1)] assms(2-4)
  by (simp add: tx_ready_def tx_files_ok_def list_all_length sizes_ok_def)

lemma tx_ready_run: "tx_ready s \<Longrightarrow> tx_steps sha True s (snd (tx_Run sha s)) \<and> emits_ok sha s"
  using tx_Run_steps[of s sha] by (simp add: tx_ready_def inflight_ok_def good_def emits_ok_def swept_ok_def)

section \<open>End to end\<close>

text \<open>A channel that loses, repeats and reorders, but does not invent: what arrives was sent.\<close>

definition delivered :: "tx_event list \<Rightarrow> rx_label \<Rightarrow> bool" where
  "delivered out l \<longleftrightarrow> (case l of LBlock d \<Rightarrow> TxDatagram d \<in> set out | LDone idx h \<Rightarrow> TxFileDone idx h \<in> set out | _ \<Rightarrow> True)"

text \<open>The files on the sender's disk are the sources, with the sizes of the manifest.\<close>

definition tx_sources :: "(nat \<Rightarrow> bytes) \<Rightarrow> tx_state \<Rightarrow> bool" where
  "tx_sources src s \<longleftrightarrow> (\<forall>i<length (s_tx s). disk_bytes i s = src i \<and> length (src i) = unat (tf_size (s_tx s ! i)))"

lemma DecodeBlock_wire:
  assumes "payload_ok s i block payload"
  shows "DecodeBlock (block_wire (s_tx s ! i) block payload (BlockLenFor (tf_size (s_tx s ! i)) block)) =
    Some (\<lparr>bh_flags = (if block + 1 = tf_blocks (s_tx s ! i) then kBlockFlagLast else 0), bh_file_index = tf_index (s_tx s ! i),
      bh_block_index = block, bh_len = BlockLenFor (tf_size (s_tx s ! i)) block\<rparr>,
      blk (unat (tf_size (s_tx s ! i))) (unat block) (disk_bytes i s))"
proof -
  let ?len = "BlockLenFor (tf_size (s_tx s ! i)) block"
  let ?h = "\<lparr>bh_flags = (if block + 1 = tf_blocks (s_tx s ! i) then kBlockFlagLast else 0), bh_file_index = tf_index (s_tx s ! i),
      bh_block_index = block, bh_len = ?len\<rparr>"
  have len: "unat ?len \<le> kBlockPayloadSize" by (simp add: unat_BlockLenFor kBlockPayloadSize_def)
  have "unat ?len \<le> length payload" using assms by (simp add: payload_ok_def Let_def)
  then have p: "length (take (unat ?len) payload) = unat ?len" by simp
  have tk: "take (unat ?len) payload = blk (unat (tf_size (s_tx s ! i))) (unat block) (disk_bytes i s)"
    using assms by (simp add: payload_ok_def Let_def blk_def unat_BlockLenFor)
  let ?w = "Put16 kBlockMagic @ [kProtoVersion, bh_flags ?h] @ Put16 (bh_file_index ?h) @ Put32 (bh_block_index ?h) @
      Put16 (bh_len ?h) @ take (unat ?len) payload"
  have "EncodeBlock ?h payload (kBlockHeaderSize + kBlockPayloadSize) = Some ?w"
    using len by (simp add: EncodeBlock_Some_iff)
  then have wire: "block_wire (s_tx s ! i) block payload ?len = ?w" by (simp add: block_wire_def)
  have dec: "DecodeBlock ?w = Some (?h, take (unat ?len) payload)"
    by (rule DecodeBlock_frame) (use len p in \<open>simp_all only: block_header.simps\<close>)
  show ?thesis unfolding wire using dec unfolding tk .
qed

lemma delivered_honest:
  assumes "emits_ok sha s" "tx_sources src s" "\<forall>i<length (s_tx s). tf_index (s_tx s ! i) = of_nat i"
    "length (s_tx s) \<le> kMaxFilesPerTransfer" "delivered (s_out s) l"
  shows "honest sha src l"
proof -
  have idx: "unat (tf_index (s_tx s ! i)) = i" if "i < length (s_tx s)" for i
    using that assms(3,4) by (simp add: unat_of_nat_u16 kMaxFilesPerTransfer_def)
  have ev: "event_ok sha s e" if "e \<in> set (s_out s)" for e using assms(1) that by (auto simp: emits_ok_def list_all_iff)
  show ?thesis
  proof (cases l)
    case (LBlock d)
    then have "event_ok sha s (TxDatagram d)" using assms(5) ev by (simp add: delivered_def)
    then obtain i block payload where i: "i < length (s_tx s)" "payload_ok s i block payload"
      "d = block_wire (s_tx s ! i) block payload (BlockLenFor (tf_size (s_tx s ! i)) block)"
      by (auto simp: event_ok_def)
    have "disk_bytes i s = src i" "length (src i) = unat (tf_size (s_tx s ! i))" using assms(2) i(1) by (auto simp: tx_sources_def)
    then show ?thesis using LBlock DecodeBlock_wire[OF i(2)] i(3) idx[OF i(1)] by (simp add: honest_def Let_def)
  next
    case (LDone x h)
    then have "event_ok sha s (TxFileDone x h)" using assms(5) ev by (simp add: delivered_def)
    then show ?thesis using LDone assms(2) idx by (auto simp: event_ok_def honest_def tx_sources_def)
  qed (simp_all add: honest_def)
qed

lemma run_delivered_honest:
  assumes "tx_ready s" "tx_sources src s" "length (s_tx s) \<le> kMaxFilesPerTransfer"
    "list_all (delivered (s_out (snd (tx_Run sha s)))) ls"
  shows "list_all (honest sha src) ls"
proof -
  let ?s' = "snd (tx_Run sha s)"
  have st: "tx_steps sha True s ?s'" "emits_ok sha ?s'" using tx_ready_run[OF assms(1), of sha] emits_steps by blast+
  note fx = tx_steps_fixed[OF st(1)]
  note same = fixedD(1)[OF fx] fixedD(3)[OF fx]
  have "tx_sources src ?s'" using assms(2) same by (simp add: tx_sources_def)
  moreover have "\<forall>i<length (s_tx ?s'). tf_index (s_tx ?s' ! i) = of_nat i" using assms(1) same by (simp add: tx_ready_def)
  ultimately show ?thesis using delivered_honest[OF st(2)] assms(3,4) same(1) by (auto simp: list_all_iff)
qed

text \<open>C1. End to end: when the receiver gets only datagrams and hashes the sender sent (lost, repeated and reordered at
will), every file it verifies is byte for byte the sender's file, whatever the interleaving of all threads on both sides
and whatever system calls fail.\<close>

theorem transfer_delivers_sources:
  assumes "tx_Start m files have verified s0 = (Inr u, s)" "s_inflight s0 = []" "s_out s0 = []"
    "sizes_ok (m_files m)" "length (m_files m) \<le> kMaxFilesPerTransfer" "tx_sources src s"
    "rx_ready r" "disk_matches src r" "rcv_run sha ls r r'"
    "list_all (delivered (s_out (snd (tx_Run sha s)))) ls"
    "i < length (r_rx r')" "rx_verified (r_rx r' ! i)" "\<not> (i < length (r_rx r) \<and> rx_verified (r_rx r ! i))"
  shows "w_files (r_world r') (rx_final_path (r_rx r' ! i)) = Some (src i)"
proof -
  have "list_all (honest sha src) ls"
    using run_delivered_honest[OF tx_Start_ready[OF assms(1-4)] assms(6) _ assms(10)] tx_Start_files(2)[OF assms(1)] assms(5) by simp
  from honest_verified[OF assms(9,7,8) this assms(11-13)] show ?thesis .
qed

section \<open>Completeness of the sweep\<close>

lemma tx_step_out: "tx_step sha h s s' \<Longrightarrow> set (s_out s) \<subseteq> set (s_out s')"
  by (induction rule: tx_step.induct) (auto simp: acts_sel same_core_def)

lemma tx_steps_out: "tx_steps sha h s s' \<Longrightarrow> set (s_out s) \<subseteq> set (s_out s')"
  by (induction rule: rtranclp_induct) (auto dest: tx_step_out)

text \<open>Blocks to be skipped are never added: a rejected file forgets them.\<close>

lemma skip_act: "i < length (s_tx s) \<Longrightarrow> bm_Test (tf_skip (s_tx (apply_act a s) ! i)) b \<Longrightarrow> bm_Test (tf_skip (s_tx s ! i)) b"
proof (cases a)
  case (ASack data)
  assume "i < length (s_tx s)" "bm_Test (tf_skip (s_tx (apply_act a s) ! i)) b"
  then show ?thesis using ASack by (cases "DecodeSack data") (auto simp: OnSack_def Let_def nth_list_update split: if_splits)
next
  case (AFileBad idx)
  assume a: "i < length (s_tx s)" "bm_Test (tf_skip (s_tx (apply_act a s) ! i)) b"
  have "\<not> bm_Test (bm_Reset n) b" for n
    using bm_has_Reset[of n "unat b"] by (simp add: bm_Test_iff)
  then show ?thesis using a AFileBad by (auto simp: OnFileBad_def Let_def nth_list_update split: if_splits)
qed (auto simp: act_defs nth_list_update split: if_splits)

lemma skip_acts: "i < length (s_tx s) \<Longrightarrow> bm_Test (tf_skip (s_tx (fold apply_act as s) ! i)) b \<Longrightarrow> bm_Test (tf_skip (s_tx s ! i)) b"
proof (induction as arbitrary: s)
  case (Cons a as)
  then show ?case using skip_act[of i s a b] fixedD(1)[OF fixed_act, of a s] by simp
qed simp

lemma tx_step_skip: "tx_step sha h s s' \<Longrightarrow> i < length (s_tx s) \<Longrightarrow> bm_Test (tf_skip (s_tx s' ! i)) b \<Longrightarrow> bm_Test (tf_skip (s_tx s ! i)) b"
proof (induction rule: tx_step.induct)
  case (tx_poll s e es)
  then show ?case using skip_acts[of i "s\<lparr>s_env := es\<rparr>"] by simp
next
  case (tx_private j s g)
  then show ?case by (cases "i = j") (auto simp: same_file_def)
qed (auto simp: same_core_def nth_list_update split: if_splits)

lemma tx_steps_skip: "tx_steps sha h s s' \<Longrightarrow> i < length (s_tx s) \<Longrightarrow> bm_Test (tf_skip (s_tx s' ! i)) b \<Longrightarrow> bm_Test (tf_skip (s_tx s ! i)) b"
  by (induction rule: rtranclp_induct) (auto dest: tx_step_skip steps_idx)

lemma pollD:
  assumes "poll s k = (Go, s')"
  shows "\<exists>e s1. k e s1 = (Go, s') \<and> tx_steps sha h s s1"
proof (cases "s_env s")
  case (Cons e es)
  from steps_poll[OF rtranclp.rtrancl_refl this] show ?thesis using assms Cons by (auto simp: poll_def)
qed (use assms in \<open>simp add: poll_def\<close>)

lemma seqcD: "seqc m k = (Go, s') \<Longrightarrow> \<exists>s1. m = (Go, s1) \<and> k s1 = (Go, s')"
  by (cases m) (auto simp: seqc_def split: if_splits)

lemma send_loop_sent: "send_loop n wire len repair s = (Go, s') \<Longrightarrow> TxDatagram wire \<in> set (s_out s')"
proof (induction n arbitrary: s)
  case (Suc n)
  then show ?case
    by (auto simp: poll_def Let_def split: list.splits if_splits)
qed simp


definition sweep_pre :: "nat \<Rightarrow> nat \<Rightarrow> nat \<Rightarrow> bytes \<Rightarrow> tx_state \<Rightarrow> bool" where
  "sweep_pre i base n buf s \<longleftrightarrow> i < length (s_tx s) \<and> inflight_ok s \<and> chunk_ok s i base n buf \<and>
     base + n \<le> unat (tf_blocks (s_tx s ! i))"

lemma sweep_pre_steps: "tx_steps sha h s s' \<Longrightarrow> sweep_pre i base n buf s \<Longrightarrow> sweep_pre i base n buf s'"
  using steps_idx[of sha h s s' i] tx_steps_inflight[of sha h s s'] chunk_ok_cong[of sha h s s' i] steps_file[of sha h s s' i]
  by (simp add: sweep_pre_def)

lemma sweep_pre_good: "sweep_pre i base n buf s \<Longrightarrow> list_all (\<lambda>j. j < n) js \<Longrightarrow> good sha h s (sweep_blocks js i base buf s)"
  unfolding sweep_pre_def using good_sweep_blocks[OF _ _ _ _ rtranclp.rtrancl_refl] by blast

text \<open>\<open>block_sent\<close>: a datagram of the block has left.\<close>

definition block_sent :: "FileTx \<Rightarrow> u32 \<Rightarrow> tx_state \<Rightarrow> bool" where
  "block_sent f block s \<longleftrightarrow>
     (\<exists>payload. TxDatagram (block_wire f block payload (BlockLenFor (tf_size f) block)) \<in> set (s_out s))"

lemma block_sent_steps:
  assumes "tx_steps sha h s s'" "block_sent f block s" "tf_index g = tf_index f" "tf_blocks g = tf_blocks f" "tf_size g = tf_size f"
  shows "block_sent g block s'"
  using assms tx_steps_out[OF assms(1)] block_wire_cong[of g f] by (auto simp: block_sent_def)

lemma sweep_blocks_sent:
  "sweep_pre i base n buf s \<Longrightarrow> list_all (\<lambda>j. j < n) js \<Longrightarrow> sweep_blocks js i base buf s = (Go, s') \<Longrightarrow>
   \<forall>j\<in>set js. bm_Test (tf_skip (s_tx s ! i)) (of_nat (base + j)) \<or> block_sent (s_tx s' ! i) (of_nat (base + j)) s'"
proof (induction js arbitrary: s)
  case (Cons j js)
  let ?b = "of_nat (base + j) :: u32"
  have i: "i < length (s_tx s)" using Cons.prems(1) by (simp add: sweep_pre_def)
  let ?len = "BlockLenFor (tf_size (s_tx s ! i)) ?b"
  obtain s1 where s1: "seqc (if bm_Test (tf_skip (s_tx s1 ! i)) ?b then (Go, s1)
           else seqc (WaitTokens (unat ?len) s1) (SendBlock i ?b (drop (j * kBlockPayloadSize) buf) ?len False))
         (\<lambda>s. seqc (note_sweep i ?b s) (sweep_blocks js i base buf)) = (Go, s')" "tx_steps (\<lambda>_. []) False s s1"
    using pollD[OF Cons.prems(3)[unfolded sweep_blocks.simps Let_def]] by meson
  have pre1: "sweep_pre i base n buf s1" using sweep_pre_steps[OF s1(2) Cons.prems(1)] .
  have p: "payload_ok s1 i ?b (drop (j * 1100) buf)"
    using chunk_payload[of s1 i base n buf j] pre1 Cons.prems(2) by (simp add: sweep_pre_def)
  have blk: "?b < tf_blocks (s_tx s1 ! i)" using p by (simp add: payload_ok_def Let_def)
  have i1: "i < length (s_tx s1)" "inflight_ok s1" using pre1 by (auto simp: sweep_pre_def)
  have sz: "tf_size (s_tx s ! i) = tf_size (s_tx s1 ! i)" using steps_file[OF s1(2) i] by simp
  obtain s2 where s2: "(if bm_Test (tf_skip (s_tx s1 ! i)) ?b then (Go, s1)
           else seqc (WaitTokens (unat ?len) s1) (SendBlock i ?b (drop (j * kBlockPayloadSize) buf) ?len False)) = (Go, s2)"
    "seqc (note_sweep i ?b s2) (sweep_blocks js i base buf) = (Go, s')" using seqcD[OF s1(1)] by blast
  have t2: "tx_steps (\<lambda>_. []) False s1 s2 \<and> (bm_Test (tf_skip (s_tx s1 ! i)) ?b \<or> block_sent (s_tx s2 ! i) ?b s2)"
  proof (cases "bm_Test (tf_skip (s_tx s1 ! i)) ?b")
    case False
    then obtain s3 where s3: "WaitTokens (unat ?len) s1 = (Go, s3)" "SendBlock i ?b (drop (j * kBlockPayloadSize) buf) ?len False s3 = (Go, s2)"
      using s2(1) seqcD by fastforce
    have t3: "tx_steps (\<lambda>_. []) False s1 s3" using good_WaitTokens[OF rtranclp.rtrancl_refl] s3(1) by (metis good_steps)
    have t: "tx_steps (\<lambda>_. []) False s1 s2"
      using good_SendBlock[OF t3 i1(1) p] s3(2) unfolding sz kBlockPayloadSize_def by (metis good_steps)
    have "TxDatagram (block_wire (s_tx s3 ! i) ?b (drop (j * kBlockPayloadSize) buf) ?len) \<in> set (s_out s2)"
      using send_loop_sent s3(2) by (simp add: SendBlock_def)
    then have "block_sent (s_tx s2 ! i) ?b s2"
      using steps_file[OF t i1(1)] steps_file[OF t3 i1(1)] sz block_wire_cong[of "s_tx s2 ! i" "s_tx s3 ! i"]
      by (auto simp: block_sent_def)
    with t show ?thesis by blast
  qed (use s2(1) in simp)
  obtain s4 where s4: "note_sweep i ?b s2 = (Go, s4)" "sweep_blocks js i base buf s4 = (Go, s')" using seqcD[OF s2(2)] by blast
  have t4: "tx_steps (\<lambda>_. []) False s1 s4"
    using good_note_sweep[OF conjunct1[OF t2] i1 blk] s4(1) by (metis good_steps)
  have pre4: "sweep_pre i base n buf s4" using sweep_pre_steps[OF t4 pre1] .
  have i4: "i < length (s_tx s4)" using pre4 by (simp add: sweep_pre_def)
  have t5: "tx_steps (\<lambda>_. []) False s4 s'"
    using sweep_pre_good[OF pre4, of js "\<lambda>_. []" False] Cons.prems(2) s4(2) by (simp add: good_def)
  have i2: "i < length (s_tx s2)" using steps_idx[OF conjunct1[OF t2] i1(1)] .
  have t6: "tx_steps (\<lambda>_. []) False s2 s'"
    using good_note_sweep[OF rtranclp.rtrancl_refl i2 tx_steps_inflight[OF conjunct1[OF t2] i1(2)], of ?b] s4(1) t5 blk
      steps_file[OF conjunct1[OF t2] i1(1)] by (metis good_steps rtranclp_trans)
  have first: "bm_Test (tf_skip (s_tx s ! i)) ?b \<or> block_sent (s_tx s' ! i) ?b s'"
    using t2 tx_steps_skip[OF s1(2) i, of ?b] block_sent_steps[OF t6, of "s_tx s2 ! i" ?b "s_tx s' ! i"] steps_file[OF t6 i2] by blast
  have "tx_steps (\<lambda>_. []) False s s4" using s1(2) t4 by (rule rtranclp_trans)
  then have "bm_Test (tf_skip (s_tx s ! i)) b" if "bm_Test (tf_skip (s_tx s4 ! i)) b" for b
    using tx_steps_skip i that by blast
  then show ?case using first Cons.IH[OF pre4 _ s4(2)] Cons.prems(2) by auto
qed simp


lemma sweep_loop_sent:
  assumes "inflight_ok s" "i < length (s_tx s)" "blocks = unat (tf_blocks (s_tx s ! i))"
    "sweep_loop i blocks block s = (Go, s')" "block \<le> k" "k < blocks"
  shows "bm_Test (tf_skip (s_tx s ! i)) (of_nat k) \<or> block_sent (s_tx s' ! i) (of_nat k) s'"
  using assms
proof (induction "blocks - block" arbitrary: block s rule: less_induct)
  case less
  have lt: "block < blocks" using less.prems(5,6) by simp
  let ?n = "min kReadChunkBlocks (blocks - block)"
  have n: "0 < ?n" "block + ?n \<le> blocks" using lt by (auto simp: kReadChunkBlocks_def)
  have small: "block + ?n < 4294967296" using n(2) less.prems(3) unat_lt_u32[of "tf_blocks (s_tx s ! i)"] by linarith
  obtain s1 s2 s4 where p: "PauseWait s = (Go, s1)" and r: "ReadBlocks i (of_nat block) (of_nat ?n) s1 = (Go, s2)"
    and w: "sweep_blocks [0..<?n] i block (s_buf s2) (s2\<lparr>s_hashed := s_hashed s2 @ s_buf s2\<rparr>) = (Go, s4)"
    and rest: "sweep_loop i blocks (block + ?n) s4 = (Go, s')"
    using less.prems(4) lt unfolding sweep_loop.simps[of i blocks block s] Let_def by (auto dest!: seqcD)
  let ?s3 = "s2\<lparr>s_hashed := s_hashed s2 @ s_buf s2\<rparr>"
  let ?sha = "\<lambda>_ :: bytes. [] :: string"
  have t1: "tx_steps ?sha True s s1" using good_PauseWait[of ?sha True s s] p by (simp add: good_def)
  have t2: "tx_steps ?sha True s s2" using good_ReadBlocks[OF t1 less.prems(2)] r by (metis good_steps)
  have t3: "tx_steps ?sha True s ?s3" by (rule steps_step[OF t2 tx_hashing]) simp
  have "chunk_ok s i block ?n (s_buf s2)" using ReadBlocks_chunk[OF r t1 less.prems(2) small] .
  then have "sweep_pre i block ?n (s_buf s2) s" using less.prems(1-3) n by (simp add: sweep_pre_def)
  then have pre: "sweep_pre i block ?n (s_buf s2) ?s3" by (rule sweep_pre_steps[OF t3])
  have js: "list_all (\<lambda>j. j < ?n) [0..<?n]" by (simp add: list_all_iff)
  have g4: "good ?sha True ?s3 (Go, s4)" using sweep_pre_good[OF pre js, of ?sha True] w by simp
  have t4: "tx_steps ?sha True s s4" using t3 good_steps[OF g4] by (rule rtranclp_trans)
  have f4: "unat (tf_blocks (s_tx s4 ! i)) = blocks" "inflight_ok s4" "i < length (s_tx s4)"
    using steps_file[OF t4 less.prems(2)] less.prems(3) tx_steps_inflight[OF t4 less.prems(1)] steps_idx[OF t4 less.prems(2)] by simp_all
  show ?case
  proof (cases "k < block + ?n")
    case True
    have "k - block \<in> set [0..<?n]" using True less.prems(5) by auto
    with sweep_blocks_sent[OF pre js w] less.prems(5)
    have "bm_Test (tf_skip (s_tx ?s3 ! i)) (of_nat k) \<or> block_sent (s_tx s4 ! i) (of_nat k) s4" by fastforce
    moreover have "tx_steps ?sha True s4 s'"
      using good_sweep_loop[OF f4(3,2) f4(1)[symmetric] rtranclp.rtrancl_refl, of ?sha "block + ?n"] rest by (simp add: good_def)
    ultimately show ?thesis
      using tx_steps_skip[OF t3 less.prems(2), of "of_nat k"] block_sent_steps[of ?sha True s4 s' "s_tx s4 ! i" "of_nat k" "s_tx s' ! i"]
        steps_file[of ?sha True s4 s' i] f4(3) by blast
  next
    case False
    have "bm_Test (tf_skip (s_tx s4 ! i)) (of_nat k) \<or> block_sent (s_tx s' ! i) (of_nat k) s'"
      by (rule less.hyps[OF _ f4(2,3) f4(1)[symmetric] rest _ less.prems(6)]) (use n lt False in auto)
    then show ?thesis using tx_steps_skip[OF t4 less.prems(2)] by blast
  qed
qed

section \<open>Properties of the sender\<close>

lemma ready_good: "tx_ready s \<Longrightarrow> good sha True s (tx_Run sha s)"
  using tx_Run_steps[of s sha] by (simp add: tx_ready_def inflight_ok_def)

text \<open>C6. A sweep that returns true has handed the link every block of the file that the receiver did not report
at the start, whatever the other threads did meanwhile.\<close>

theorem sweep_sends_every_missing_block:
  assumes "SweepFile sha i s = (Go, s')" "i < length (s_tx s)" "inflight_ok s"
    "k < unat (tf_blocks (s_tx s ! i))" "\<not> bm_Test (tf_skip (s_tx s ! i)) (of_nat k)"
  shows "\<exists>payload. TxDatagram (block_wire (s_tx s ! i) (of_nat k) payload (BlockLenFor (tf_size (s_tx s ! i)) (of_nat k)))
    \<in> set (s_out s')"
proof -
  let ?s1 = "s\<lparr>s_since_repair := 0, s_hashed := []\<rparr>"
  obtain s2 where s2: "sweep_loop i (unat (tf_blocks (s_tx s ! i))) 0 ?s1 = (Go, s2)"
    "s' = upd_tx i (\<lambda>f. f\<lparr>tf_sha256 := sha (s_hashed s2), tf_sweep_done := True\<rparr>) s2"
    using seqcD[OF assms(1)[unfolded SweepFile_def]] by auto
  have ok: "inflight_ok ?s1" "i < length (s_tx ?s1)" using assms(2,3) by (simp_all add: inflight_ok_def)
  have "block_sent (s_tx s2 ! i) (of_nat k) s2"
    using sweep_loop_sent[OF ok _ s2(1), of k] assms(4,5) by simp
  moreover have "tx_steps sha True ?s1 s2"
    using good_sweep_loop[OF ok(2,1) _ rtranclp.rtrancl_refl, of _ sha 0] s2(1) by (simp add: good_def)
  ultimately show ?thesis using steps_file[of sha True ?s1 s2 i] assms(2) s2(2) block_wire_cong[of "s_tx s2 ! i" "s_tx s ! i"]
    by (auto simp: block_sent_def)
qed

lemma ceil_256: "n \<le> 256 * ((n + 255) div 256)" for n :: nat
  using div_mult_mod_eq[of "n + 255" 256] mod_less_divisor[of 256 "n + 255"] by linarith

lemma bucket_room:
  fixes b :: u32
  assumes "unat b \<le> 4294967040"
  shows "unat b \<le> 256 * unat ((b + kBucketBlocks - 1) div kBucketBlocks)"
proof -
  have e: "b + kBucketBlocks - 1 = b + 255" by (simp add: kBucketBlocks_def)
  have u: "unat (b + 255) = unat b + 255" using assms by (simp add: unat_word_ariths)
  have "unat ((b + 255) div 256) = (unat b + 255) div 256" unfolding unat_div u by simp
  then show ?thesis using ceil_256[of "unat b"] unfolding e by (simp add: kBucketBlocks_def)
qed

text \<open>The sender never indexes outside its table of send times when no file has more than \<^verbatim>\<open>2^32 - 256\<close> blocks, in
any interleaving.\<close>

theorem sender_stays_in_bounds:
  assumes "tx_Start m files have verified s0 = (Inr u, s)" "s_inflight s0 = []" "s_out s0 = []" "sizes_ok (m_files m)"
    "list_all (\<lambda>f. unat (BlockCountFor (mf_size f)) \<le> 2 ^ 32 - 256) (m_files m)"
  shows "fst (tx_Run sha s) \<noteq> Crash"
proof -
  have room: "unat b \<le> 256 * unat ((b + kBucketBlocks - 1) div kBucketBlocks)" if "unat b \<le> 4294967040" for b :: u32
    by (rule bucket_room[OF that])
  have "bucketed s"
    unfolding bucketed_def list_all_length
    using tx_Start_files(2,6)[OF assms(1)] room assms(5) by (simp add: list_all_length)
  then show ?thesis using ready_good[OF tx_Start_ready[OF assms(1-4)], of sha] by (simp add: good_def)
qed

text \<open>Completion is reported only when the receiver has confirmed every file.\<close>

theorem all_done_only_when_confirmed:
  assumes "tx_ready s" "TxAllDone \<in> set (s_out (snd (tx_Run sha s)))"
  shows "list_all tf_ok (s_tx (snd (tx_Run sha s)))"
proof -
  have "emits_ok sha (snd (tx_Run sha s))" using tx_ready_run[OF assms(1), of sha] emits_steps by blast
  then show ?thesis using assms(2) by (auto simp: emits_ok_def list_all_iff event_ok_def)
qed

subsection \<open>Pacing\<close>

definition rates_ok :: "tx_state \<Rightarrow> bool" where
  "rates_ok s \<longleftrightarrow> kMinRateBps \<le> s_aimd_bps s \<and> s_aimd_bps s \<le> kMaxRateBps \<and>
     (s_target_bps s = 0 \<or> kMinRateBps \<le> s_target_bps s) \<and> s_target_bps s \<le> kMaxRateBps"

lemma clamp_rate_bounds: "kMinRateBps \<le> clamp_rate r \<and> clamp_rate r \<le> kMaxRateBps"
  by (auto simp: clamp_rate_def kMinRateBps_def kMaxRateBps_def)

lemma UpdateRate_rates: "rates_ok (UpdateRate e s)"
  using clamp_rate_bounds by (simp add: rates_ok_def UpdateRate_def window_rate_def Let_def next_aimd_def target_rate_def)

lemma tx_steps_rates: "tx_steps sha h s s' \<Longrightarrow> rates_ok s \<Longrightarrow> rates_ok s'"
proof (induction rule: rtranclp_induct)
  case (step y z)
  have "rates_ok y \<Longrightarrow> rates_ok z" using step.hyps(2)
  proof (induction rule: tx_step.induct)
    case (tx_rate s e)
    show ?case by (rule UpdateRate_rates)
  qed (simp_all add: rates_ok_def acts_sel same_core_def)
  with step show ?case by simp
qed

text \<open>Pacing: a wait for tokens that succeeds leaves a bucket that is neither overdrawn nor filled beyond the burst,
and the rates of a run stay between 300 kbit/s and 1 Gbit/s whatever loss and bandwidth are reported.\<close>

theorem pacing_bounded:
  "(WaitTokens n s = (Go, s') \<longrightarrow> 0 \<le> s_tokens s' \<and> s_tokens s' + of_nat n \<le> burst_bytes (s_target_bps s')) \<and>
   (tx_ready s \<longrightarrow> rates_ok s \<longrightarrow> rates_ok (snd (tx_Run sha s)))"
proof (intro conjI impI)
  have "0 \<le> s_tokens s' \<and> s_tokens s' + of_nat n \<le> burst_bytes (s_target_bps s')" if "wait_loop k n s = (Go, s')" for k s
    using that
  proof (induction k arbitrary: s)
    case (Suc k)
    then show ?case
      by (auto simp: poll_def Let_def refill_def split: list.splits if_splits)
  qed simp
  then show "WaitTokens n s = (Go, s') \<Longrightarrow> 0 \<le> s_tokens s'" "WaitTokens n s = (Go, s') \<Longrightarrow> s_tokens s' + of_nat n \<le> burst_bytes (s_target_bps s')"
    by (auto simp: WaitTokens_def)
  show "rates_ok (snd (tx_Run sha s))" if "tx_ready s" "rates_ok s"
    using tx_ready_run[OF that(1), of sha] tx_steps_rates that(2) by blast
qed

subsection \<open>Accounting of confirmed bytes\<close>

definition acked_sum :: "tx_state \<Rightarrow> nat" where
  "acked_sum s = (\<Sum>f\<leftarrow>s_tx s. unat (tf_acked_bytes f))"

definition size_sum :: "tx_state \<Rightarrow> nat" where
  "size_sum s = (\<Sum>f\<leftarrow>s_tx s. unat (tf_size f))"

definition acct :: "nat \<Rightarrow> tx_state \<Rightarrow> bool" where
  "acct base s \<longleftrightarrow> list_all (\<lambda>f. tf_acked_bytes f \<le> tf_size f) (s_tx s) \<and>
     unat (s_bytes_acked s) = base + acked_sum s \<and> base + size_sum s < 2 ^ 64"

lemma sum_list_upd: "i < length xs \<Longrightarrow> (\<Sum>x\<leftarrow>xs[i := y]. f x) + f (xs ! i) = (\<Sum>x\<leftarrow>xs. f x) + (f y :: nat)"
  by (induction xs arbitrary: i) (auto split: nat.splits)

lemma member_le_sum: "i < length xs \<Longrightarrow> f (xs ! i) \<le> (\<Sum>x\<leftarrow>xs. f x :: nat)"
  by (induction xs arbitrary: i) (auto simp: nth_Cons' intro: trans_le_add2)

lemma acked_le_size: "list_all (\<lambda>f. tf_acked_bytes f \<le> tf_size f) xs \<Longrightarrow> (\<Sum>f\<leftarrow>xs. unat (tf_acked_bytes f)) \<le> (\<Sum>f\<leftarrow>xs. unat (tf_size f))"
  by (induction xs) (auto simp: word_le_nat_alt)

text \<open>One file's count moves from \<open>tf_acked_bytes\<close> to \<open>a\<close> and the total with it.\<close>

lemma acct_upd:
  assumes "acct base s" "i < length (s_tx s)" "s_tx s' = (s_tx s)[i := g]" "tf_size g = tf_size (s_tx s ! i)"
    "tf_acked_bytes g \<le> tf_size g"
    "s_bytes_acked s' = s_bytes_acked s - tf_acked_bytes (s_tx s ! i) + tf_acked_bytes g"
  shows "acct base s'"
proof -
  let ?f = "s_tx s ! i"
  have all: "list_all (\<lambda>f. tf_acked_bytes f \<le> tf_size f) (s_tx s')"
    using assms(1-5) by (auto simp: acct_def list_all_length nth_list_update)
  have sz: "size_sum s' = size_sum s"
    using sum_list_upd[OF assms(2), of "\<lambda>f. unat (tf_size f)" g] assms(3,4) by (simp add: size_sum_def)
  have sum: "acked_sum s' + unat (tf_acked_bytes ?f) = acked_sum s + unat (tf_acked_bytes g)"
    using sum_list_upd[OF assms(2), of "\<lambda>f. unat (tf_acked_bytes f)" g] assms(3) by (simp add: acked_sum_def)
  have le: "unat (tf_acked_bytes ?f) \<le> unat (s_bytes_acked s)"
    using member_le_sum[OF assms(2), of "\<lambda>f. unat (tf_acked_bytes f)"] assms(1) by (simp add: acct_def acked_sum_def)
  have "acked_sum s' \<le> size_sum s'" using acked_le_size[OF all] by (simp add: acked_sum_def size_sum_def)
  then have "base + acked_sum s' < 2 ^ 64" using assms(1) sz by (simp add: acct_def)
  moreover have "unat (s_bytes_acked s - tf_acked_bytes ?f) = unat (s_bytes_acked s) - unat (tf_acked_bytes ?f)"
    using le by (simp add: unat_sub word_le_nat_alt)
  ultimately have "unat (s_bytes_acked s') = base + acked_sum s'"
    using assms(1,6) sum le by (simp add: acct_def unat_word_ariths(1))
  then show ?thesis using all sz assms(1) by (simp add: acct_def)
qed

lemma acct_same: "acct base s \<Longrightarrow> map (\<lambda>f. (tf_size f, tf_acked_bytes f)) (s_tx s') = map (\<lambda>f. (tf_size f, tf_acked_bytes f)) (s_tx s) \<Longrightarrow>
   s_bytes_acked s' = s_bytes_acked s \<Longrightarrow> acct base s'"
proof -
  assume a: "acct base s" "map (\<lambda>f. (tf_size f, tf_acked_bytes f)) (s_tx s') = map (\<lambda>f. (tf_size f, tf_acked_bytes f)) (s_tx s)"
    "s_bytes_acked s' = s_bytes_acked s"
  have len: "length (s_tx s') = length (s_tx s)" using arg_cong[OF a(2), of length] by simp
  have each: "tf_size (s_tx s' ! i) = tf_size (s_tx s ! i) \<and> tf_acked_bytes (s_tx s' ! i) = tf_acked_bytes (s_tx s ! i)"
    if "i < length (s_tx s)" for i using arg_cong[OF a(2), of "\<lambda>xs. xs ! i"] that len by simp
  have "map (\<lambda>f. unat (tf_size f)) (s_tx s') = map (\<lambda>f. unat (tf_size f)) (s_tx s)"
    "map (\<lambda>f. unat (tf_acked_bytes f)) (s_tx s') = map (\<lambda>f. unat (tf_acked_bytes f)) (s_tx s)"
    using each len by (simp_all add: list_eq_iff_nth_eq)
  then show ?thesis using a(1,3) each len by (simp add: acct_def acked_sum_def size_sum_def list_all_length)
qed

lemma acct_act: "acct base s \<Longrightarrow> acct base (apply_act a s)"
proof (cases a)
  case (ASack data)
  assume ac: "acct base s"
  show ?thesis
  proof (cases "DecodeSack data")
    case (Some k)
    let ?i = "unat (sk_file_index k)"
    let ?f = "s_tx s ! ?i"
    let ?g = "if tf_acked_bytes ?f < sack_acked k ?f then ?f\<lparr>tf_sack := k, tf_sack_seq := tf_sack_seq ?f + 1, tf_acked_bytes := sack_acked k ?f\<rparr>
      else ?f\<lparr>tf_sack := k, tf_sack_seq := tf_sack_seq ?f + 1\<rparr>"
    show ?thesis
    proof (cases "length (s_tx s) \<le> ?i \<or> (0 < tf_sack_seq ?f \<and> sk_received_count k < sk_received_count (tf_sack ?f))")
      case True
      then have "apply_act a s = s" using ASack Some by (auto simp: OnSack_def Let_def)
      then show ?thesis using ac by simp
    next
      case False
      then have i: "?i < length (s_tx s)" by simp
      have le: "tf_acked_bytes ?f \<le> tf_size ?f" "sack_acked k ?f \<le> tf_size ?f"
        using ac i by (simp_all add: acct_def list_all_length sack_acked_def)
      show ?thesis
        by (rule acct_upd[OF ac i, of _ ?g]) (use False ASack Some le in \<open>auto simp: OnSack_def Let_def\<close>)
    qed
  qed (use ASack ac in \<open>simp add: OnSack_def\<close>)
next
  case (AFileOk x)
  assume ac: "acct base s"
  show ?thesis
  proof (cases "length (s_tx s) \<le> unat x \<or> tf_ok (s_tx s ! unat x)")
    case False
    let ?f = "s_tx s ! unat x"
    have i: "unat x < length (s_tx s)" using False by simp
    have le: "tf_acked_bytes ?f \<le> tf_size ?f" using ac i by (simp add: acct_def list_all_length)
    show ?thesis
      by (rule acct_upd[OF ac i, of _ "if tf_acked_bytes ?f < tf_size ?f then ?f\<lparr>tf_ok := True, tf_acked_bytes := tf_size ?f\<rparr> else ?f\<lparr>tf_ok := True\<rparr>"])
         (use False AFileOk le in \<open>auto simp: OnFileOk_def Let_def\<close>)
  qed (use AFileOk ac in \<open>auto simp: OnFileOk_def Let_def\<close>)
next
  case (AFileBad x)
  assume ac: "acct base s"
  show ?thesis
  proof (cases "length (s_tx s) \<le> unat x \<or> tf_ok (s_tx s ! unat x)")
    case False
    let ?f = "s_tx s ! unat x"
    have i: "unat x < length (s_tx s)" using False by simp
    have le: "tf_acked_bytes ?f \<le> s_bytes_acked s"
      using member_le_sum[OF i, of "\<lambda>f. unat (tf_acked_bytes f)"] ac by (simp add: acct_def acked_sum_def word_le_nat_alt)
    have z: "0 < tf_acked_bytes ?f \<longleftrightarrow> tf_acked_bytes ?f \<noteq> 0" by (simp add: word_neq_0_conv)
    show ?thesis
      by (rule acct_upd[OF ac i, of _ "?f\<lparr>tf_skip := bm_Reset (tf_blocks ?f), tf_acked_bytes := 0, tf_sack := empty_sack, tf_sack_seq := 0\<rparr>"])
         (use False AFileBad le in \<open>auto simp: OnFileBad_def Let_def z min_absorb2\<close>)
  qed (use AFileBad ac in \<open>auto simp: OnFileBad_def Let_def\<close>)
qed (auto simp: SetPaused_def tx_Stop_def acct_def acked_sum_def size_sum_def)

lemma acct_step: "tx_step sha h s s' \<Longrightarrow> acct base s \<Longrightarrow> acct base s'"
proof (induction rule: tx_step.induct)
  case (tx_poll s e es)
  have "acct base (s\<lparr>s_env := es\<rparr>)" using tx_poll.prems by (simp add: acct_def acked_sum_def size_sum_def)
  then show ?case by (rule fold_act[rotated]) (rule acct_act)
next
  case (tx_private i s g)
  then show ?case by (intro acct_same[OF tx_private(3)]) (auto simp: map_upd same_file_def)
next
  case (tx_hash i s h)
  then show ?case by (intro acct_same[OF tx_hash(3)]) (simp_all add: map_upd)
next
  case (tx_announce i s)
  then show ?case by (intro acct_same[OF tx_announce(3)]) (simp_all add: map_upd)
next
  case (tx_close s)
  then show ?case by (intro acct_same[OF tx_close]) (simp_all add: o_def)
qed (simp_all add: acct_def acked_sum_def size_sum_def same_core_def)

text \<open>The total of confirmed bytes is exact: at every moment it is the value at the start plus the bytes confirmed per
file, each at most the file's size, through SACKs, confirmations and rejections in any order.\<close>

theorem acked_bytes_accounting:
  assumes "tx_ready s" "list_all (\<lambda>f. tf_acked_bytes f = 0) (s_tx s)" "unat (s_bytes_acked s) + size_sum s < 2 ^ 64"
  shows "let s' = snd (tx_Run sha s) in
    unat (s_bytes_acked s') = unat (s_bytes_acked s) + (\<Sum>f\<leftarrow>s_tx s'. unat (tf_acked_bytes f)) \<and>
    list_all (\<lambda>f. tf_acked_bytes f \<le> tf_size f) (s_tx s')"
proof -
  have zero: "(\<Sum>f\<leftarrow>xs. unat (tf_acked_bytes f)) = 0" if "list_all (\<lambda>f. tf_acked_bytes f = 0) xs" for xs
    using that by (induction xs) auto
  have "acct (unat (s_bytes_acked s)) s"
    using assms(2,3) zero[OF assms(2)] by (auto simp: acct_def acked_sum_def list_all_iff)
  moreover have "tx_steps sha True s (snd (tx_Run sha s))" using tx_ready_run[OF assms(1)] by blast
  then have "acct b s \<Longrightarrow> acct b (snd (tx_Run sha s))" for b
    by (induction rule: rtranclp_induct) (auto dest: acct_step)
  ultimately have "acct (unat (s_bytes_acked s)) (snd (tx_Run sha s))" by blast
  then show ?thesis by (simp add: acct_def acked_sum_def Let_def)
qed

section \<open>A rejected file that is never repaired\<close>

text \<open>C27. After the receiver has rejected a file, a delayed SACK that still carries the complete flag is accepted; from then
on the repair pass sends nothing for that file and every SACK with a smaller count, such as those of the restarted file,
is ignored.\<close>

theorem stale_complete_sack_stops_repair:
  assumes "unat idx < length (s_tx s)" "\<not> tf_ok (s_tx s ! unat idx)"
    "DecodeSack d = Some k" "sk_file_index k = idx" "sk_flags k AND kSackFlagComplete \<noteq> 0"
    "DecodeSack d' = Some k'" "sk_file_index k' = idx" "sk_received_count k' < sk_received_count k"
    "e_acts e = []"
  shows "let s1 = OnSack d (OnFileBad idx s) in
    OnSack d' s1 = s1 \<and> RepairFile (unat idx) now hold (s1\<lparr>s_env := e # es\<rparr>) = (Go, s1\<lparr>s_env := es\<rparr>)"
proof -
  let ?i = "unat idx"
  let ?s0 = "OnFileBad idx s" and ?s1 = "OnSack d (OnFileBad idx s)"
  have f0: "tf_sack_seq (s_tx ?s0 ! ?i) = 0" "length (s_tx ?s0) = length (s_tx s)" using assms(1,2) by (simp_all add: OnFileBad_def Let_def)
  have f1: "tf_sack (s_tx ?s1 ! ?i) = k" "tf_sack_seq (s_tx ?s1 ! ?i) = 1" "length (s_tx ?s1) = length (s_tx s)"
    using assms(1,3,4) f0 by (simp_all add: OnSack_def Let_def)
  have "OnSack d' ?s1 = ?s1" using assms(6-8) f1 by (simp add: OnSack_def[of d'] Let_def)
  moreover have "RepairFile ?i now hold (?s1\<lparr>s_env := e # es\<rparr>) = (Go, ?s1\<lparr>s_env := es\<rparr>)"
    using assms(5,9) f1 by (simp add: RepairFile_def poll_def Let_def)
  ultimately show ?thesis by (simp add: Let_def)
qed

section \<open>A concrete run\<close>

definition demo_step :: "tx_act list \<Rightarrow> nat \<Rightarrow> tx_env" where
  "demo_step acts t = \<lparr>e_acts = acts, e_now = of_nat t, e_exact = of_nat t, e_link = 0, e_est = None\<rparr>"

definition idle_tx :: tx_state where
  "idle_tx = \<lparr>s_manifest = empty_manifest, s_tx = [], s_inflight = [], s_started = False, s_stop = False, s_paused = False,
     s_finished = False, s_failed = False, s_tokens = 0, s_last_token_ms = 0, s_target_bps = 0, s_aimd_bps = 200000000,
     s_rtt_ms = 100, s_last_rate_update_ms = 0, s_window_bytes = 0, s_window_start_ms = 0, s_link_down_since_ms = 0,
     s_bytes_sent = 0, s_bytes_acked = 0, s_files_done = 0, s_current_file = - 1, s_send_rate_bps = 0, s_repairs = 0,
     s_max_loss_permille = 0, s_did_work = False, s_budget = 0, s_since_repair = 0, s_buf = [], s_hashed = [],
     s_world = \<lparr>w_files = [[''src'', ''a''] \<mapsto> [7, 8, 9]], w_dirs = {}, w_sys = [], w_stop = False\<rparr>,
     s_env = map (demo_step []) [1, 2, 3, 4, 5, 6, 7, 8, 9] @ [demo_step [AFileOk 0] 10] @ map (demo_step []) [11, 12, 13, 14, 15], s_out = []\<rparr>"

definition demo_tx :: tx_state where
  "demo_tx = snd (tx_Start demo_manifest [[''src'', ''a'']] Map.empty [] idle_tx)"

lemma demo_tx_Start: "tx_Start demo_manifest [[''src'', ''a'']] Map.empty [] idle_tx = (Inr (), demo_tx)"
  by (simp add: demo_tx_def tx_Start_def idle_tx_def demo_manifest_def Let_def)

lemma poll_cong: "s = s' \<Longrightarrow> poll s k = poll s' k" by simp
lemma seqc_cong: "m = m' \<Longrightarrow> seqc m k = seqc m' k" by simp
lemma seqc_Go: "seqc (Go, s) k = k s" by (simp add: seqc_def)
definition demo_ftx :: FileTx where "demo_ftx = new_tx Map.empty 0 \<lparr>mf_path = ''a'', mf_size = 3\<rparr> [''src'', ''a'']"
lemma demo_blocks: "tf_blocks demo_ftx = 1" "tf_size demo_ftx = 3" "tf_index demo_ftx = 0" "\<not> bm_has (tf_skip demo_ftx) k" "tf_path demo_ftx = [''src'', ''a'']"
  "tf_reader demo_ftx = None" "tf_sweep_ms demo_ftx = [0]" "\<not> tf_ok demo_ftx" "\<not> tf_announced demo_ftx"
  by (simp_all add: demo_ftx_def new_tx_def Let_def BlockCountFor_def kBlockPayloadSize_def kBucketBlocks_def)
lemma demo_tx_eq: "demo_tx = idle_tx\<lparr>s_manifest := demo_manifest, s_tx := [demo_ftx], s_started := True\<rparr>"
  by (simp add: demo_tx_def tx_Start_def Let_def demo_ftx_def demo_manifest_def idle_tx_def)
lemma demo_len: "BlockLenFor 3 0 = 3" by (simp add: BlockLenFor_def kBlockPayloadSize_def)
lemma demo_open: "w_files w [''src'', ''a''] = Some [7,8,9] \<Longrightarrow> w_sys w = [] \<Longrightarrow> OpenReader [''src'', ''a''] w = (Inr 3, w)"
  by (simp add: OpenReader_def next_sys_def is_fail_def file_bytes_def)
lemma demo_read: "w_files w [''src'', ''a''] = Some [7,8,9] \<Longrightarrow> w_sys w = [] \<Longrightarrow> ReadAt [''src'', ''a''] 0 3 w = (Some [7,8,9], w)"
  by (simp add: ReadAt_def ReadAt_loop.simps next_sys_def is_fail_def file_bytes_def moved_def)
lemma demo_wire: "tf_index f = 0 \<Longrightarrow> tf_blocks f = 1 \<Longrightarrow> block_wire f 0 [7,8,9] 3 = demo_block"
  by (simp add: block_wire_def EncodeBlock_def kBlockPayloadSize_def kBlockHeaderSize_def kBlockFlagLast_def Put16_def Put32_def kBlockMagic_def kProtoVersion_def demo_block_def)

lemma demo_step_sel [simp]: "e_acts (demo_step a t) = a" "e_now (demo_step a t) = of_nat t" "e_exact (demo_step a t) = of_nat t" "e_link (demo_step a t) = 0" "e_est (demo_step a t) = None"
  by (simp_all add: demo_step_def)
lemma demo_skip: "tf_skip demo_ftx = bm_Reset 1" by (simp add: demo_ftx_def new_tx_def Let_def BlockCountFor_def kBlockPayloadSize_def)
lemma demo_tx_out: "s_out (snd (tx_Run demo_hash demo_tx)) = [TxDatagram demo_block, TxFileDone 0 (demo_hash [7, 8, 9]), TxAllDone]"
  by (simp add: demo_tx_eq idle_tx_def tx_Run_def poll_def Let_def seqc_Go UpdateRate_def window_rate_def next_aimd_def target_rate_def clamp_rate_def est_rtt_def
   kMinRateBps_def kMaxRateBps_def demo_blocks demo_skip send_file_def SweepFile_def sweep_loop.simps PauseWait_def ReadBlocks_def open_reader_def demo_open demo_read read_want_def
   kReadChunkBlocks_def kBlockPayloadSize_def upd_tx_def demo_len WaitTokens_def refill_def burst_bytes_def kRateUpdateMs_def SendBlock_def count_sent_def tx_emit_def demo_wire
   note_sweep_def kBucketBlocks_def announce_def kMaxInflightFiles_def ReapInflight_def OnFileOk_def finish_run_def
   del: fold_simps cong: poll_cong seqc_cong)

lemmas demo_eval = demo_tx_eq idle_tx_def poll_def Let_def seqc_Go UpdateRate_def window_rate_def next_aimd_def target_rate_def
  clamp_rate_def est_rtt_def kMinRateBps_def kMaxRateBps_def demo_blocks demo_skip SweepFile_def sweep_loop.simps PauseWait_def
  ReadBlocks_def open_reader_def demo_open demo_read read_want_def kReadChunkBlocks_def kBlockPayloadSize_def upd_tx_def demo_len WaitTokens_def
  refill_def burst_bytes_def kRateUpdateMs_def SendBlock_def count_sent_def tx_emit_def demo_wire note_sweep_def kBucketBlocks_def

lemma demo_tx_ready: "tx_ready demo_tx"
  by (rule tx_Start_ready[OF demo_tx_Start]) (simp_all add: idle_tx_def demo_sizes)

lemma demo_sources: "tx_sources (\<lambda>_. [7, 8, 9]) demo_tx"
  by (simp add: tx_sources_def demo_tx_eq idle_tx_def disk_bytes_def file_bytes_def demo_blocks)

lemma demo_delivered: "list_all (delivered (s_out (snd (tx_Run demo_hash demo_tx)))) demo_labels"
  unfolding demo_tx_out by (simp add: delivered_def)

lemma demo_idle_tx: "s_inflight idle_tx = []" "s_out idle_tx = []" "length (m_files demo_manifest) \<le> kMaxFilesPerTransfer"
  by (simp_all add: idle_tx_def demo_manifest_def kMaxFilesPerTransfer_def)

theorem transfer_delivers_sources_witness:
  "w_files (r_world demo_end) [''out'', ''a''] = Some [7, 8, 9]"
  using transfer_delivers_sources[OF demo_tx_Start demo_idle_tx(1,2) demo_sizes demo_idle_tx(3) demo_sources demo_ready demo_disk
    demo_run demo_delivered demo_index(1) demo_verified(3) demo_index(2)]
  unfolding demo_verified(4) .

definition paced_tx :: tx_state where
  "paced_tx = demo_tx\<lparr>s_target_bps := 8000000\<rparr>"

theorem sweep_sends_every_missing_block_witness:
  "\<exists>payload s'. SweepFile demo_hash 0 paced_tx = (Go, s') \<and>
     TxDatagram (block_wire (s_tx paced_tx ! 0) 0 payload (BlockLenFor (tf_size (s_tx paced_tx ! 0)) 0)) \<in> set (s_out s')"
proof -
  have "fst (SweepFile demo_hash 0 paced_tx) = Go" by (simp add: paced_tx_def demo_eval cong: poll_cong seqc_cong)
  then obtain s' where s': "SweepFile demo_hash 0 paced_tx = (Go, s')" by (cases "SweepFile demo_hash 0 paced_tx") simp
  have "0 < length (s_tx paced_tx)" "inflight_ok paced_tx" "0 < unat (tf_blocks (s_tx paced_tx ! 0))"
    "\<not> bm_Test (tf_skip (s_tx paced_tx ! 0)) (of_nat 0)"
    by (simp_all add: paced_tx_def demo_tx_eq idle_tx_def inflight_ok_def demo_blocks)
  from sweep_sends_every_missing_block[OF s' this] s' show ?thesis by auto
qed

theorem sender_stays_in_bounds_witness: "fst (tx_Run demo_hash demo_tx) \<noteq> Crash"
  by (rule sender_stays_in_bounds[OF demo_tx_Start demo_idle_tx(1,2) demo_sizes])
     (simp add: demo_manifest_def BlockCountFor_def kBlockPayloadSize_def)

theorem all_done_only_when_confirmed_witness: "list_all tf_ok (s_tx (snd (tx_Run demo_hash demo_tx)))"
  by (rule all_done_only_when_confirmed[OF demo_tx_ready]) (simp add: demo_tx_out)

theorem pacing_bounded_witness: "rates_ok (snd (tx_Run demo_hash demo_tx))"
proof -
  have "rates_ok demo_tx" by (simp add: rates_ok_def demo_tx_eq idle_tx_def kMinRateBps_def kMaxRateBps_def)
  then show ?thesis using pacing_bounded[of 0 demo_tx demo_tx demo_hash] demo_tx_ready by blast
qed

theorem acked_bytes_accounting_witness:
  "unat (s_bytes_acked (snd (tx_Run demo_hash demo_tx))) = (\<Sum>f\<leftarrow>s_tx (snd (tx_Run demo_hash demo_tx)). unat (tf_acked_bytes f))"
proof -
  have "list_all (\<lambda>f. tf_acked_bytes f = 0) (s_tx demo_tx)"
    by (simp add: demo_tx_eq idle_tx_def demo_ftx_def new_tx_def Let_def)
  moreover have "unat (s_bytes_acked demo_tx) + size_sum demo_tx < 2 ^ 64" "unat (s_bytes_acked demo_tx) = 0"
    by (simp_all add: demo_tx_eq idle_tx_def size_sum_def demo_blocks)
  ultimately show ?thesis using acked_bytes_accounting[OF demo_tx_ready, of demo_hash] by (simp add: Let_def)
qed

definition full_sack :: sack where
  "full_sack = empty_sack\<lparr>sk_flags := kSackFlagComplete, sk_ack_base := 1, sk_frontier := 1, sk_received_count := 1\<rparr>"

theorem stale_complete_sack_stops_repair_witness:
  "let s1 = OnSack (EncodeSack full_sack) (OnFileBad 0 demo_tx) in
     OnSack (EncodeSack empty_sack) s1 = s1 \<and>
     RepairFile 0 500 120 (s1\<lparr>s_env := [demo_step [] 500]\<rparr>) = (Go, s1\<lparr>s_env := []\<rparr>)"
proof -
  have d: "DecodeSack (EncodeSack full_sack) = Some full_sack" "DecodeSack (EncodeSack empty_sack) = Some empty_sack"
    using sack_codec.roundtrip[of full_sack] sack_codec.roundtrip[of empty_sack]
    by (simp_all add: sack_valid_def full_sack_def empty_sack_def)
  have f: "unat (0 :: u16) < length (s_tx demo_tx)" "\<not> tf_ok (s_tx demo_tx ! unat (0 :: u16))"
    by (simp_all add: demo_tx_eq demo_blocks)
  show ?thesis
    using stale_complete_sack_stops_repair[OF f d(1) _ _ d(2), of "demo_step [] 500" 500 120 "[]"]
    by (simp add: full_sack_def empty_sack_def kSackFlagComplete_def)
qed

end
