(* ===== verification/Event_Loop.thy ===== *)
theory Event_Loop
  imports CT_Prelude
begin

text \<open>
  The event loop of \<^verbatim>\<open>core/src/runtime/event_loop.{h,cpp}\<close>.  The queue is a \<^verbatim>\<open>std::multimap\<close> from due times to
  entries: a list in key order, where an insertion goes behind the entries with the same key.  Times are natural
  numbers; the clock reading is a parameter.  \<^verbatim>\<open>Run\<close> is split into the decision it takes under the lock
  (\<open>loop_next\<close>) and the execution of the task it hands out.
\<close>

record 'task entry =
  en_when :: nat
  en_id :: u64
  en_task :: 'task

record 'task event_loop =
  el_running :: bool
  el_stop :: bool
  el_queue :: "'task entry list"
  el_next_id :: u64

definition el_Start :: "'task event_loop \<Rightarrow> 'task event_loop" where
  "el_Start l = (if el_running l then l else l\<lparr>el_running := True, el_stop := False\<rparr>)"

text \<open>\<^verbatim>\<open>Stop\<close>: the request, and what is left after the join.\<close>

definition el_Stop :: "'task event_loop \<Rightarrow> 'task event_loop" where
  "el_Stop l = (if \<not> el_running l then l else l\<lparr>el_stop := True, el_queue := [], el_running := False\<rparr>)"

fun el_emplace :: "'task entry \<Rightarrow> 'task entry list \<Rightarrow> 'task entry list" where
  "el_emplace e [] = [e]"
| "el_emplace e (x # xs) = (if en_when e < en_when x then e # x # xs else x # el_emplace e xs)"

definition PostDelayed :: "nat \<Rightarrow> 'task \<Rightarrow> int \<Rightarrow> 'task event_loop \<Rightarrow> u64 \<times> 'task event_loop" where
  "PostDelayed now task delay_ms l =
     (let when = now + (if delay_ms < 0 then 0 else nat delay_ms); id = el_next_id l in
      (id, l\<lparr>el_next_id := id + 1,
             el_queue := el_emplace \<lparr>en_when = when, en_id = id, en_task = task\<rparr> (el_queue l)\<rparr>))"

definition Post :: "nat \<Rightarrow> 'task \<Rightarrow> 'task event_loop \<Rightarrow> 'task event_loop" where
  "Post now task l = snd (PostDelayed now task 0 l)"

fun drop_id :: "u64 \<Rightarrow> 'task entry list \<Rightarrow> 'task entry list" where
  "drop_id i [] = []"
| "drop_id i (e # es) = (if en_id e = i then es else e # drop_id i es)"

definition el_Cancel :: "u64 \<Rightarrow> 'task event_loop \<Rightarrow> 'task event_loop" where
  "el_Cancel i l = l\<lparr>el_queue := drop_id i (el_queue l)\<rparr>"

datatype 'task decision = Return | WaitForever | WaitUntil nat | RunTask 'task

definition loop_next :: "nat \<Rightarrow> 'task event_loop \<Rightarrow> 'task decision \<times> 'task event_loop" where
  "loop_next now l =
     (if el_stop l then (Return, l)
      else case el_queue l of [] \<Rightarrow> (WaitForever, l)
      | e # es \<Rightarrow> if en_when e \<le> now then (RunTask (en_task e), l\<lparr>el_queue := es\<rparr>) else (WaitUntil (en_when e), l))"

text \<open>The loop at one clock reading, until it waits: the tasks it runs; the queue bounds the passes.\<close>

fun run_due :: "nat \<Rightarrow> nat \<Rightarrow> 'task event_loop \<Rightarrow> 'task list \<times> 'task event_loop" where
  "run_due 0 now l = ([], l)"
| "run_due (Suc n) now l =
     (case loop_next now l of
        (RunTask t, l') \<Rightarrow> (let (ts, l'') = run_due n now l' in (t # ts, l''))
      | (_, l') \<Rightarrow> ([], l'))"

section \<open>Order\<close>

text \<open>The order tasks are meant to run in: by due time, then by the order they were posted.\<close>

definition before :: "'task entry \<Rightarrow> 'task entry \<Rightarrow> bool" where
  "before a b \<longleftrightarrow> en_when a < en_when b \<or> (en_when a = en_when b \<and> en_id a < en_id b)"

definition el_wf :: "'task event_loop \<Rightarrow> bool" where
  "el_wf l \<longleftrightarrow> sorted_wrt before (el_queue l) \<and> (\<forall>e\<in>set (el_queue l). en_id e < el_next_id l)"

lemma set_el_emplace [simp]: "set (el_emplace e xs) = insert e (set xs)"
  by (induction xs) auto

lemma sorted_el_emplace:
  "sorted_wrt before xs \<Longrightarrow> \<forall>x\<in>set xs. en_id x < en_id e \<Longrightarrow> sorted_wrt before (el_emplace e xs)"
proof (induction xs)
  case (Cons x xs)
  show ?case
  proof (cases "en_when e < en_when x")
    case True
    then have "before e y" if "y \<in> set (x # xs)" for y
      using that Cons.prems(1) by (auto simp: before_def)
    then show ?thesis using True Cons.prems(1) by simp
  next
    case False
    then have "before x e" using Cons.prems(2) by (auto simp: before_def)
    then show ?thesis using False Cons by auto
  qed
qed simp

lemma drop_id_sub: "set (drop_id i xs) \<subseteq> set xs"
  by (induction xs) auto

lemma sorted_drop_id: "sorted_wrt before xs \<Longrightarrow> sorted_wrt before (drop_id i xs)"
  using drop_id_sub by (induction xs) fastforce+

lemma el_wf_Post:
  assumes "el_wf l" "unat (el_next_id l) < 2 ^ 64 - 1"
  shows "el_wf (snd (PostDelayed now task d l))"
proof -
  have lt: "el_next_id l < el_next_id l + 1" using assms(2) by (simp add: word_less_nat_alt unat_word_ariths)
  have "en_id e < el_next_id l + 1" if "e \<in> set (el_queue l)" for e
    using that assms(1) lt by (meson el_wf_def less_trans)
  then show ?thesis using assms(1) lt
    by (auto simp: el_wf_def PostDelayed_def Let_def intro!: sorted_el_emplace)
qed

lemma run_due_takeWhile:
  "\<not> el_stop l \<Longrightarrow> length (el_queue l) \<le> n \<Longrightarrow>
   fst (run_due n now l) = map en_task (takeWhile (\<lambda>e. en_when e \<le> now) (el_queue l))"
proof (induction n arbitrary: l)
  case (Suc n)
  show ?case
  proof (cases "el_queue l")
    case (Cons e es)
    then show ?thesis using Suc.IH[of "l\<lparr>el_queue := es\<rparr>"] Suc.prems by (simp add: loop_next_def split_def Let_def)
  qed (use Suc.prems in \<open>simp add: loop_next_def\<close>)
qed simp

lemma due_prefix: "sorted_wrt before xs \<Longrightarrow> set (takeWhile (\<lambda>e. en_when e \<le> now) xs) = {e \<in> set xs. en_when e \<le> now}"
proof (induction xs)
  case (Cons x xs)
  have "now < en_when e" if "\<not> en_when x \<le> now" "e \<in> set xs" for e using that Cons.prems by (auto simp: before_def)
  then show ?case using Cons by fastforce
qed simp

text \<open>C28. The event loop runs every task that is due, none before its time, in the order of due times and among equal
due times in the order they were posted; posting and cancelling keep the queue so ordered.\<close>

theorem event_loop_runs_in_order:
  assumes "el_wf l" "unat (el_next_id l) < 2 ^ 64 - 1" "\<not> el_stop l"
  shows "let l1 = snd (PostDelayed t task d l) in
    el_wf l1 \<and> el_wf (el_Cancel i l) \<and>
    (\<exists>rs. fst (run_due (length (el_queue l1)) now l1) = map en_task rs \<and> sorted_wrt before rs \<and>
       set rs = {e \<in> set (el_queue l1). en_when e \<le> now})"
proof -
  let ?l1 = "snd (PostDelayed t task d l)"
  let ?rs = "takeWhile (\<lambda>e. en_when e \<le> now) (el_queue ?l1)"
  have wf: "el_wf ?l1" using el_wf_Post[OF assms(1,2)] .
  then have s: "sorted_wrt before (el_queue ?l1)" by (simp add: el_wf_def)
  have "\<not> el_stop ?l1" using assms(3) by (simp add: PostDelayed_def Let_def)
  then have "fst (run_due (length (el_queue ?l1)) now ?l1) = map en_task ?rs" by (rule run_due_takeWhile) simp
  moreover have "sorted_wrt before ?rs" using s by (metis sorted_wrt_append takeWhile_dropWhile_id)
  moreover have "el_wf (el_Cancel i l)"
    using assms(1) drop_id_sub[of i "el_queue l"] by (auto simp: el_wf_def el_Cancel_def sorted_drop_id)
  ultimately show ?thesis using wf due_prefix[OF s] unfolding Let_def by blast
qed

definition demo_loop :: "string event_loop" where
  "demo_loop = \<lparr>el_running = True, el_stop = False, el_queue = [\<lparr>en_when = 5, en_id = 1, en_task = ''a''\<rparr>], el_next_id = 2\<rparr>"

theorem event_loop_runs_in_order_witness:
  "\<exists>rs. fst (run_due 2 7 (snd (PostDelayed 5 ''b'' 0 demo_loop))) = map en_task rs \<and> sorted_wrt before rs \<and> length rs = 2"
proof -
  have wf: "el_wf demo_loop" "unat (el_next_id demo_loop) < 2 ^ 64 - 1" "\<not> el_stop demo_loop" by (simp_all add: el_wf_def demo_loop_def)
  have two: "length (el_queue (snd (PostDelayed 5 ''b'' 0 demo_loop))) = 2" "fst (run_due 2 7 (snd (PostDelayed 5 ''b'' 0 demo_loop))) = [''a'', ''b'']"
    by (simp_all add: demo_loop_def PostDelayed_def numeral_2_eq_2 loop_next_def)
  from event_loop_runs_in_order[OF wf, of 5 "''b''" 0 0 7] obtain rs
    where "fst (run_due 2 7 (snd (PostDelayed 5 ''b'' 0 demo_loop))) = map en_task rs" "sorted_wrt before rs"
    unfolding Let_def two(1) by blast
  then show ?thesis using two(2) by (metis length_map list.size(3,4) One_nat_def numeral_2_eq_2 plus_1_eq_Suc add.commute)
qed

end
