(* ===== verification/Session_Link.thy ===== *)
theory Session_Link
  imports Ctrl_Codec Event_Loop
begin

text \<open>
  The session link of \<^verbatim>\<open>core/src/runtime/session_link.{h,cpp}\<close>: the queue of ctrl chunks with its pump, the dispatch of
  datagrams by stream, and the reassembly of incoming chunks.  \<^verbatim>\<open>Peer::Send\<close> is a parameter: \<open>send n\<close> is its
  answer to the \<open>n\<close>-th attempt (0 taken, 1 back pressure, negative unavailable).
\<close>

definition kCtrlRetryMs :: int where "kCtrlRetryMs = 5"
definition kCtrlUnavailableRetryMs :: int where "kCtrlUnavailableRetryMs = 50"
definition kCtrlUnavailableTimeoutMs :: int where "kCtrlUnavailableTimeoutMs = 20000"

definition kStreamCtrl :: string where "kStreamCtrl = ''ctrl''"
definition kStreamData :: string where "kStreamData = ''data''"
definition kStreamSack :: string where "kStreamSack = ''sack''"

text \<open>\<open>lk_sent\<close> records the chunks the transport took, \<open>lk_posted\<close> the delays of the pump tasks posted to the loop and
\<open>lk_gave_up\<close> how often the queue was dropped and \<open>lk_fail_calls\<close> how often \<^verbatim>\<open>on_fail\<close> was called.\<close>

record link =
  lk_attached :: bool
  lk_block_handler :: bool
  lk_sack_handler :: bool
  lk_path :: MiniRtcPath
  lk_ctrl_queue :: "bytes list"
  lk_ctrl_fail :: bool
  lk_pump_scheduled :: bool
  lk_unavailable_ms :: int
  lk_buffer :: bytes
  lk_attempts :: nat
  lk_sent :: "bytes list"
  lk_posted :: "int list"
  lk_gave_up :: nat
  lk_fail_calls :: nat

text \<open>The constructor.\<close>

definition new_link :: link where
  "new_link = \<lparr>lk_attached = False, lk_block_handler = False, lk_sack_handler = False, lk_path = PathUnknown, lk_ctrl_queue = [],
     lk_ctrl_fail = False, lk_pump_scheduled = False, lk_unavailable_ms = 0, lk_buffer = [], lk_attempts = 0, lk_sent = [],
     lk_posted = [], lk_gave_up = 0, lk_fail_calls = 0\<rparr>"

definition Attach :: "link \<Rightarrow> link" where
  "Attach l = l\<lparr>lk_attached := True\<rparr>"

definition Detach :: "link \<Rightarrow> link" where
  "Detach l = l\<lparr>lk_attached := False, lk_block_handler := False, lk_sack_handler := False\<rparr>"

definition SendDatagram :: "(nat \<Rightarrow> int) \<Rightarrow> link \<Rightarrow> int \<times> link" where
  "SendDatagram send l =
     (if \<not> lk_attached l then (- 1, l) else (send (lk_attempts l), l\<lparr>lk_attempts := lk_attempts l + 1\<rparr>))"

datatype dispatch = ToBlockHandler | ToSackHandler | Dropped

definition OnData :: "string \<Rightarrow> link \<Rightarrow> dispatch" where
  "OnData stream l =
     (if stream = kStreamData then (if lk_block_handler l then ToBlockHandler else Dropped)
      else if stream = kStreamSack then (if lk_sack_handler l then ToSackHandler else Dropped)
      else Dropped)"

definition SetBlockHandler :: "link \<Rightarrow> link" where
  "SetBlockHandler l = l\<lparr>lk_block_handler := True\<rparr>"

definition SetSackHandler :: "link \<Rightarrow> link" where
  "SetSackHandler l = l\<lparr>lk_sack_handler := True\<rparr>"

definition schedule_pump :: "int \<Rightarrow> link \<Rightarrow> link" where
  "schedule_pump delay l = l\<lparr>lk_pump_scheduled := True, lk_posted := lk_posted l @ [delay]\<rparr>"

definition SendCtrl :: "bytes \<Rightarrow> bool \<Rightarrow> link \<Rightarrow> link" where
  "SendCtrl message on_fail l =
     (let l1 = l\<lparr>lk_ctrl_queue := lk_ctrl_queue l @ SplitCtrlMessage message,
                 lk_ctrl_fail := (lk_ctrl_fail l \<or> on_fail)\<rparr>
      in if lk_pump_scheduled l1 then l1 else schedule_pump 0 l1)"

fun pump_loop :: "(nat \<Rightarrow> int) \<Rightarrow> bytes list \<Rightarrow> link \<Rightarrow> link" where
  "pump_loop send [] l = l\<lparr>lk_ctrl_queue := []\<rparr>"
| "pump_loop send (c # cs) l =
     (if \<not> lk_attached l then l\<lparr>lk_ctrl_queue := [], lk_gave_up := lk_gave_up l + 1\<rparr>
      else let r = send (lk_attempts l); l1 = l\<lparr>lk_attempts := lk_attempts l + 1\<rparr> in
        if r = 0 then pump_loop send cs (l1\<lparr>lk_sent := lk_sent l1 @ [c], lk_unavailable_ms := 0\<rparr>)
        else if r < 0 then
          (let u = lk_unavailable_ms l1 + kCtrlUnavailableRetryMs in
           if kCtrlUnavailableTimeoutMs \<le> u
           then l1\<lparr>lk_ctrl_queue := [], lk_unavailable_ms := 0, lk_gave_up := lk_gave_up l1 + 1,
                   lk_fail_calls := (if lk_ctrl_fail l1 then lk_fail_calls l1 + 1 else lk_fail_calls l1)\<rparr>
           else schedule_pump kCtrlUnavailableRetryMs (l1\<lparr>lk_ctrl_queue := c # cs, lk_unavailable_ms := u\<rparr>))
        else schedule_pump kCtrlRetryMs (l1\<lparr>lk_ctrl_queue := c # cs\<rparr>))"

text \<open>The posted task: clear the flag, then pump.\<close>

definition Pump :: "(nat \<Rightarrow> int) \<Rightarrow> link \<Rightarrow> link" where
  "Pump send l = (let l1 = l\<lparr>lk_pump_scheduled := False\<rparr> in pump_loop send (lk_ctrl_queue l1) l1)"

definition OnCtrlChunk :: "bytes \<Rightarrow> link \<Rightarrow> bytes option \<times> link" where
  "OnCtrlChunk chunk l =
     (case Feed chunk (lk_buffer l) of
        (FeedMessage m, b) \<Rightarrow> (Some m, l\<lparr>lk_buffer := b\<rparr>)
      | (_, b) \<Rightarrow> (None, l\<lparr>lk_buffer := b\<rparr>))"

section \<open>Order and completeness of the ctrl stream\<close>

text \<open>What the owner and the event loop do with a link.\<close>

datatype link_act = DoSend bytes bool | DoPump

primrec link_do :: "(nat \<Rightarrow> int) \<Rightarrow> link_act \<Rightarrow> link \<Rightarrow> link" where
  "link_do send (DoSend m on_fail) l = SendCtrl m on_fail l"
| "link_do send DoPump l = Pump send l"

definition queued :: "link_act list \<Rightarrow> bytes list" where
  "queued as = concat (map (\<lambda>a. case a of DoSend m _ \<Rightarrow> [m] | DoPump \<Rightarrow> []) as)"

lemma queued_simps [simp]: "queued [] = []" "queued (as @ [DoSend m f]) = queued as @ [m]" "queued (as @ [DoPump]) = queued as"
  by (simp_all add: queued_def)

text \<open>The invariant: what was sent and what is queued are all the chunks, in order, and an idle pump has nothing to do.\<close>

definition link_inv :: "bytes list \<Rightarrow> link \<Rightarrow> bool" where
  "link_inv ms l \<longleftrightarrow> lk_attached l \<and> lk_sent l @ lk_ctrl_queue l = concat (map SplitCtrlMessage ms) \<and>
     (lk_ctrl_queue l \<noteq> [] \<longrightarrow> lk_pump_scheduled l)"

lemma schedule_pump_sel [simp]: "lk_attached (schedule_pump d l) = lk_attached l" "lk_sent (schedule_pump d l) = lk_sent l"
  "lk_ctrl_queue (schedule_pump d l) = lk_ctrl_queue l" "lk_pump_scheduled (schedule_pump d l)"
  "lk_gave_up (schedule_pump d l) = lk_gave_up l"
  by (simp_all add: schedule_pump_def)

lemma pump_loop_inv:
  "lk_attached l \<Longrightarrow> lk_gave_up (pump_loop send cs l) = lk_gave_up l \<Longrightarrow>
   lk_attached (pump_loop send cs l) \<and>
   lk_sent (pump_loop send cs l) @ lk_ctrl_queue (pump_loop send cs l) = lk_sent l @ cs \<and>
   (lk_ctrl_queue (pump_loop send cs l) \<noteq> [] \<longrightarrow> lk_pump_scheduled (pump_loop send cs l))"
proof (induction send cs l rule: pump_loop.induct)
  case (2 send c cs l)
  show ?case
  proof (cases "send (lk_attempts l) = 0")
    case True
    then show ?thesis using "2.IH"[OF _ refl refl True] "2.prems" by (simp add: Let_def)
  qed (use "2.prems" in \<open>auto simp: Let_def split: if_splits\<close>)
qed simp

lemma pump_loop_gave_up: "lk_gave_up l \<le> lk_gave_up (pump_loop send cs l)"
  by (induction send cs l rule: pump_loop.induct) (auto simp: Let_def)

lemma link_do_gave_up: "lk_gave_up l \<le> lk_gave_up (link_do send a l)"
  using pump_loop_gave_up[of "l\<lparr>lk_pump_scheduled := False\<rparr>" send "lk_ctrl_queue l"]
  by (cases a) (simp_all add: SendCtrl_def Pump_def Let_def)

lemma fold_gave_up: "lk_gave_up l \<le> lk_gave_up (fold (link_do send) as l)"
  by (induction as arbitrary: l) (auto intro: order_trans[OF link_do_gave_up])

lemma link_run_inv:
  assumes "link_inv [] l" "lk_gave_up (fold (link_do send) as l) = lk_gave_up l"
  shows "link_inv (queued as) (fold (link_do send) as l)"
  using assms(2)
proof (induction as rule: rev_induct)
  case (snoc a as)
  let ?m = "fold (link_do send) as l"
  have same: "lk_gave_up ?m = lk_gave_up l" "lk_gave_up (link_do send a ?m) = lk_gave_up ?m"
    using snoc.prems fold_gave_up[of l send as] link_do_gave_up[of ?m send a] by simp_all
  have inv: "link_inv (queued as) ?m" using snoc.IH same(1) by blast
  show ?case
  proof (cases a)
    case (DoSend m f)
    then show ?thesis using inv by (auto simp: link_inv_def SendCtrl_def Let_def)
  next
    case DoPump
    then show ?thesis using inv same(2) pump_loop_inv[of "?m\<lparr>lk_pump_scheduled := False\<rparr>" send "lk_ctrl_queue ?m"]
      by (simp add: link_inv_def Pump_def Let_def)
  qed
qed (use assms(1) in simp)

text \<open>C29. Ctrl messages arrive in order and none is lost while the link does not give up: whatever answers the transport
gives, the messages the peer reassembles from what was sent so far are a prefix of the messages queued, all of them once the
queue is empty, and a queue that is not empty always has a pump scheduled.\<close>

theorem ctrl_link_delivers_in_order:
  assumes "link_inv [] l" "lk_gave_up (fold (link_do send) as l) = lk_gave_up l"
    "\<forall>m \<in> set (queued as). length m \<le> kMaxCtrlMessage"
  shows "let l' = fold (link_do send) as l; got = messages (fst (feed_all (lk_sent l') [])) in
    (\<exists>rest. queued as = got @ rest) \<and> (lk_ctrl_queue l' = [] \<longrightarrow> got = queued as) \<and>
    (lk_ctrl_queue l' \<noteq> [] \<longrightarrow> lk_pump_scheduled l')"
proof -
  let ?l = "fold (link_do send) as l"
  have inv: "link_inv (queued as) ?l" by (rule link_run_inv[OF assms(1,2)])
  then have eq: "concat (map SplitCtrlMessage (queued as)) = lk_sent ?l @ lk_ctrl_queue ?l" by (simp add: link_inv_def)
  have all: "messages (fst (feed_all (lk_sent ?l @ lk_ctrl_queue ?l) [])) = queued as"
    using feed_stream[OF assms(3)] unfolding eq by blast
  then have "queued as = messages (fst (feed_all (lk_sent ?l) [])) @
      messages (fst (feed_all (lk_ctrl_queue ?l) (snd (feed_all (lk_sent ?l) []))))"
    by (simp add: feed_all_append)
  moreover have "messages (fst (feed_all (lk_sent ?l) [])) = queued as" if "lk_ctrl_queue ?l = []" using all that by simp
  moreover have "lk_ctrl_queue ?l \<noteq> [] \<longrightarrow> lk_pump_scheduled ?l" using inv by (simp add: link_inv_def)
  ultimately show ?thesis unfolding Let_def by blast
qed

theorem ctrl_link_delivers_in_order_witness:
  "messages (fst (feed_all (lk_sent (fold (link_do (\<lambda>n. if n = 0 then 1 else 0))
      [DoSend [123, 125] False, DoPump, DoSend [7] False, DoPump] (Attach new_link))) [])) = [[123, 125], [7]]"
proof -
  let ?as = "[DoSend [123, 125] False, DoPump, DoSend [7] False, DoPump]"
  let ?send = "\<lambda>n :: nat. if n = 0 then 1 else 0 :: int"
  have one: "SplitCtrlMessage [123, 125] = [[1, 123, 125]]" "SplitCtrlMessage [7] = [[1, 7]]"
    by (simp_all add: SplitCtrlMessage_def split_loop.simps ctrl_consts)
  have q: "queued ?as = [[123, 125], [7]]" by (simp add: queued_def)
  have inv: "link_inv [] (Attach new_link)" by (simp add: link_inv_def new_link_def Attach_def)
  have g: "lk_gave_up (fold (link_do ?send) ?as (Attach new_link)) = lk_gave_up (Attach new_link)" "lk_ctrl_queue (fold (link_do ?send) ?as (Attach new_link)) = []"
    by (simp_all add: new_link_def Attach_def SendCtrl_def Pump_def Let_def one schedule_pump_def kCtrlRetryMs_def)
  from ctrl_link_delivers_in_order[OF inv g(1)] g(2) show ?thesis by (simp add: q Let_def ctrl_consts)
qed

end
