(* ===== verification/Transfer_Session.thy ===== *)
theory Transfer_Session
  imports Receiver Sender
begin

text \<open>
  One transfer, \<^verbatim>\<open>core/src/share/transfer_session.{h,cpp}\<close>: the ctrl protocol (offer, accept, file_done, file_ok, file_bad,
  transfer_done, pause, resume, cancel, error) around the two engines.  All of it runs on the event loop; a callback
  of an engine is an input of its own.  The JSON library \<open>J\<close>, its parser \<open>parse\<close>, SHA-256 \<open>sha\<close> and the random number
  \<open>rd\<close> are parameters.  A handler yields \<open>None\<close> when it does not return normally: the JSON library throws (nothing in
  the core catches it) or a bitmap scan does not end.
\<close>

section \<open>State\<close>

datatype TransferState =
    kConnecting | kOffering | kWaitingOffer | kTransferring | kVerifying | kCompleted | kFailed | kCancelled

definition TransferStateName :: "TransferState \<Rightarrow> string" where
  "TransferStateName s =
     (case s of kConnecting \<Rightarrow> ''connecting'' | kOffering \<Rightarrow> ''offering'' | kWaitingOffer \<Rightarrow> ''waiting_offer''
      | kTransferring \<Rightarrow> ''transferring'' | kVerifying \<Rightarrow> ''verifying'' | kCompleted \<Rightarrow> ''completed''
      | kFailed \<Rightarrow> ''failed'' | kCancelled \<Rightarrow> ''cancelled'')"

definition Terminal :: "TransferState \<Rightarrow> bool" where
  "Terminal s \<longleftrightarrow> s = kCompleted \<or> s = kFailed \<or> s = kCancelled"

record TransferSnapshot =
  sn_transfer_id :: string
  sn_session_id :: string
  sn_role :: string
  sn_state :: TransferState
  sn_error_code :: string
  sn_error_message :: string
  sn_path :: MiniRtcPath
  sn_bytes_total :: u64
  sn_bytes_done :: u64
  sn_files_total :: u32
  sn_files_done :: u32
  sn_rate_bps :: int
  sn_loss_permille :: u16
  sn_current_file :: int

text \<open>What the session does to the outside: a ctrl document, a state or progress callback with its snapshot, a resume record stored or
cleared, a progress timer.\<close>

datatype 'j ss_event =
    CtrlOut 'j | StateOut TransferSnapshot | ProgressOut TransferSnapshot | PersistOut 'j | PersistClear | TimerOut

text \<open>\<open>ss_new_tx\<close> and \<open>ss_new_rx\<close> are the states the constructors of the engines yield.\<close>

record 'j session =
  ss_is_sender :: bool
  ss_snap :: TransferSnapshot
  ss_transport_ready :: bool
  ss_offer_sent :: bool
  ss_accept_received :: bool
  ss_paused :: bool
  ss_progress_scheduled :: bool
  ss_done_sent :: bool
  ss_sender_confirmed :: bool
  ss_manifest :: Manifest
  ss_files :: "fspath list"
  ss_sender :: "tx_state option"
  ss_file_ok :: "bool list"
  ss_save_dir :: fspath
  ss_resume :: 'j
  ss_names :: "(string \<times> string) list"
  ss_receiver :: "rcv option"
  ss_new_tx :: tx_state
  ss_new_rx :: rcv
  ss_out :: "'j ss_event list"

abbreviation ss_state :: "'j session \<Rightarrow> TransferState" where
  "ss_state s \<equiv> sn_state (ss_snap s)"

definition ss_emit :: "'j ss_event \<Rightarrow> 'j session \<Rightarrow> 'j session" where
  "ss_emit e s = s\<lparr>ss_out := ss_out s @ [e]\<rparr>"

definition upd_snap :: "(TransferSnapshot \<Rightarrow> TransferSnapshot) \<Rightarrow> 'j session \<Rightarrow> 'j session" where
  "upd_snap g s = s\<lparr>ss_snap := g (ss_snap s)\<rparr>"

definition msg :: "'j json_ops \<Rightarrow> string \<Rightarrow> (string \<times> 'j) list \<Rightarrow> 'j" where
  "msg J type kvs = j_object J ((''type'', j_string J type) # kvs)"

definition ss_SendCtrl :: "'j \<Rightarrow> 'j session \<Rightarrow> 'j session" where
  "ss_SendCtrl j s = ss_emit (CtrlOut j) s"

definition SetSenderInput :: "Manifest \<Rightarrow> fspath list \<Rightarrow> 'j session \<Rightarrow> 'j session" where
  "SetSenderInput m files s =
     upd_snap (\<lambda>p. p\<lparr>sn_bytes_total := m_total_bytes m, sn_files_total := of_nat (length (m_files m))\<rparr>)
       (s\<lparr>ss_manifest := m, ss_files := files, ss_file_ok := replicate (length (m_files m)) False\<rparr>)"

definition SetReceiverInput :: "fspath \<Rightarrow> 'j \<Rightarrow> 'j session \<Rightarrow> 'j session" where
  "SetReceiverInput save_dir resume s = s\<lparr>ss_save_dir := save_dir, ss_resume := resume\<rparr>"

definition SetState :: "TransferState \<Rightarrow> 'j session \<Rightarrow> 'j session" where
  "SetState st s =
     (if ss_state s = st \<or> Terminal (ss_state s) then s
      else let s1 = upd_snap (\<lambda>p. p\<lparr>sn_state := st\<rparr>) s in ss_emit (StateOut (ss_snap s1)) s1)"

text \<open>\<^verbatim>\<open>Stop\<close> of both engines, as far as they exist.  It waits for the thread of the engine; \<open>jn\<close> is what the
writer thread still does until it ends.\<close>

definition stop_engines :: "(rcv \<Rightarrow> rcv) \<Rightarrow> 'j session \<Rightarrow> 'j session" where
  "stop_engines jn s = s\<lparr>ss_sender := map_option tx_Stop (ss_sender s),
     ss_receiver := map_option (\<lambda>r. Stop_close (jn (Stop_request r))) (ss_receiver s)\<rparr>"

definition ss_Fail :: "'j json_ops \<Rightarrow> (rcv \<Rightarrow> rcv) \<Rightarrow> string \<Rightarrow> string \<Rightarrow> 'j session \<Rightarrow> 'j session" where
  "ss_Fail J jn code message s =
     (if Terminal (ss_state s) then s
      else let s1 = stop_engines jn (upd_snap (\<lambda>p. p\<lparr>sn_error_code := code, sn_error_message := message\<rparr>) s);
               s2 = (if code \<noteq> ''session_end'' \<and> code \<noteq> ''peer_error''
                     then ss_SendCtrl (msg J ''error'' [(''code'', j_string J code), (''msg'', j_string J message)]) s1
                     else s1)
           in SetState kFailed s2)"

definition ScheduleProgress :: "'j session \<Rightarrow> 'j session" where
  "ScheduleProgress s =
     (if ss_progress_scheduled s then s else ss_emit TimerOut (s\<lparr>ss_progress_scheduled := True\<rparr>))"

definition read_progress :: "'j session \<Rightarrow> 'j session" where
  "read_progress s =
     (if ss_is_sender s \<and> ss_sender s \<noteq> None then
        (let p = tx_Progress (the (ss_sender s)) in
         upd_snap (\<lambda>q. q\<lparr>sn_bytes_done := sp_bytes_acked p, sn_files_done := sp_files_done p,
                        sn_rate_bps := sp_send_rate_bps p, sn_current_file := sp_current_file p\<rparr>) s)
      else case ss_receiver s of None \<Rightarrow> s
      | Some r \<Rightarrow>
        (let p = rx_Progress r in
         upd_snap (\<lambda>q. q\<lparr>sn_bytes_done := rp_bytes_received p, sn_files_done := rp_files_done p,
                        sn_rate_bps := rp_recv_rate_bps p, sn_loss_permille := rp_loss_permille p,
                        sn_current_file := rp_current_file p\<rparr>) s))"

definition EmitProgress :: "bool \<Rightarrow> 'j session \<Rightarrow> 'j session" where
  "EmitProgress force s =
     (let s1 = read_progress s in if force then ss_emit (ProgressOut (ss_snap s1)) s1 else ScheduleProgress s1)"

text \<open>The posted progress task.\<close>

definition OnProgressTimer :: "'j session \<Rightarrow> 'j session" where
  "OnProgressTimer s =
     (let s1 = s\<lparr>ss_progress_scheduled := False\<rparr> in
      if \<not> Terminal (ss_state s1) then EmitProgress True s1 else s1)"

section \<open>Sender side\<close>

definition StartOffer :: "'j json_ops \<Rightarrow> (rcv \<Rightarrow> rcv) \<Rightarrow> 'j session \<Rightarrow> 'j session" where
  "StartOffer J jn s =
     (if ss_offer_sent s \<or> ss_files s = [] then
        (if ss_files s = [] then ss_Fail J jn ''no_files'' ''nothing to send'' s else s)
      else ss_SendCtrl (msg J ''offer'' [(''manifest'', ToJson J (ss_manifest s))])
             (SetState kOffering (s\<lparr>ss_offer_sent := True\<rparr>)))"

text \<open>Pairs of numbers; entries that are not pairs are skipped, and a pair of something else throws.\<close>

fun read_runs :: "'j json_ops \<Rightarrow> 'j list \<Rightarrow> sack_run list option" where
  "read_runs J [] = Some []"
| "read_runs J (r # rs) =
     (if j_is_array J r \<and> length (j_elems J r) = 2
      then do { a \<leftarrow> j_get_u64 J (j_elems J r ! 0); b \<leftarrow> j_get_u64 J (j_elems J r ! 1);
                rest \<leftarrow> read_runs J rs; Some (mk_run (ucast a) (ucast b) # rest) }
      else read_runs J rs)"

fun read_accept ::
  "'j json_ops \<Rightarrow> nat \<Rightarrow> 'j list \<Rightarrow> (u16 \<times> sack_run list) list \<Rightarrow> u16 list \<Rightarrow> ((u16 \<times> sack_run list) list \<times> u16 list) option"
where
  "read_accept J n [] have verified = Some (have, verified)"
| "read_accept J n (f # fs) have verified =
     (case j_find J f ''index'' of None \<Rightarrow> read_accept J n fs have verified
      | Some v \<Rightarrow>
        if \<not> j_is_number_unsigned J v then read_accept J n fs have verified
        else do {
          k \<leftarrow> j_get_u64 J v;
          (let idx = ucast k :: u16 in
           if n \<le> unat idx then read_accept J n fs have verified
           else do {
             done \<leftarrow> j_value_bool J f ''verified'' False;
             if done then read_accept J n fs have (verified @ [idx])
             else case j_find J f ''have'' of None \<Rightarrow> read_accept J n fs have verified
             | Some h \<Rightarrow>
               if \<not> j_is_array J h then read_accept J n fs have verified
               else do { rs \<leftarrow> read_runs J (j_elems J h);
                         read_accept J n fs (if rs = [] then have else omap_put idx rs have) verified } }) })"

definition accept_entries :: "'j json_ops \<Rightarrow> 'j \<Rightarrow> 'j list" where
  "accept_entries J j = (case j_find J j ''files'' of None \<Rightarrow> [] | Some fs \<Rightarrow> if j_is_array J fs then j_elems J fs else [])"

definition mark_ok :: "u16 list \<Rightarrow> bool list \<Rightarrow> bool list" where
  "mark_ok verified oks = fold (\<lambda>v oks. if unat v < length oks then oks[unat v := True] else oks) verified oks"

definition HandleAccept :: "'j json_ops \<Rightarrow> (rcv \<Rightarrow> rcv) \<Rightarrow> 'j \<Rightarrow> 'j session \<Rightarrow> 'j session option" where
  "HandleAccept J jn j s =
     (if \<not> ss_is_sender s \<or> ss_accept_received s then Some s
      else let s1 = s\<lparr>ss_accept_received := True\<rparr> in
        do { (have, verified) \<leftarrow> read_accept J (length (m_files (ss_manifest s1))) (accept_entries J j) [] [];
             (case tx_Start (ss_manifest s1) (ss_files s1) (map_of have) verified (ss_new_tx s1) of
                (Inl err, t) \<Rightarrow> Some (ss_Fail J jn ''start'' err (s1\<lparr>ss_sender := Some t\<rparr>))
              | (Inr _, t) \<Rightarrow>
                  Some (EmitProgress False (SetState kTransferring
                    (s1\<lparr>ss_sender := Some t, ss_file_ok := mark_ok verified (ss_file_ok s1)\<rparr>)))) })"

definition HandleFileAck :: "'j json_ops \<Rightarrow> 'j \<Rightarrow> bool \<Rightarrow> 'j session \<Rightarrow> 'j session option" where
  "HandleFileAck J j ok s =
     (case ss_sender s of None \<Rightarrow> Some s
      | Some t \<Rightarrow>
        if \<not> ss_is_sender s then Some s
        else case j_find J j ''index'' of None \<Rightarrow> Some s
        | Some v \<Rightarrow>
          if \<not> j_is_number_unsigned J v then Some s
          else do {
            k \<leftarrow> j_get_u64 J v;
            (let idx = ucast k :: u16 in
             if length (ss_file_ok s) \<le> unat idx then Some s
             else if ok then
               (if ss_file_ok s ! unat idx then Some s
                else Some (s\<lparr>ss_file_ok := (ss_file_ok s)[unat idx := True], ss_sender := Some (OnFileOk idx t)\<rparr>))
             else Some (s\<lparr>ss_sender := Some (OnFileBad idx t)\<rparr>)) })"

definition OnSenderFileDone :: "'j json_ops \<Rightarrow> u16 \<Rightarrow> string \<Rightarrow> 'j session \<Rightarrow> 'j session" where
  "OnSenderFileDone J index sha256 s =
     EmitProgress True (ss_SendCtrl (msg J ''file_done'' [(''index'', j_u64 J (ucast index)), (''sha256'', j_string J sha256)]) s)"

definition OnSenderAllDone :: "'j json_ops \<Rightarrow> 'j session \<Rightarrow> 'j session" where
  "OnSenderAllDone J s =
     (if ss_done_sent s then s
      else EmitProgress True (SetState kCompleted
             (upd_snap (\<lambda>p. p\<lparr>sn_bytes_done := sn_bytes_total p, sn_files_done := sn_files_total p\<rparr>)
               (ss_SendCtrl (msg J ''transfer_done'' []) (s\<lparr>ss_done_sent := True\<rparr>)))))"

section \<open>Receiver side\<close>

definition ManifestSignature :: "(bytes \<Rightarrow> string) \<Rightarrow> Manifest \<Rightarrow> string" where
  "ManifestSignature sha m =
     sha (map (\<lambda>c. of_nat (of_char c)) (concat (map (\<lambda>f. mf_path f @ '':'' @ to_string (unat (mf_size f)) @ [CHR 0x0A]) (m_files m))))"

fun read_names :: "'j json_ops \<Rightarrow> (string \<times> 'j) list \<Rightarrow> (string \<times> string) list \<Rightarrow> (string \<times> string) list option" where
  "read_names J [] names = Some names"
| "read_names J ((k, v) # kvs) names = do { n \<leftarrow> j_get_string J v; read_names J kvs (omap_put k n names) }"

definition path_exists :: "world \<Rightarrow> fspath \<Rightarrow> bool" where
  "path_exists w p \<longleftrightarrow> is_regular_file w p \<or> p \<in> w_dirs w"

definition choose_root :: "world \<Rightarrow> fspath \<Rightarrow> nat \<Rightarrow> ManifestRoot \<Rightarrow> (string \<times> string) list \<Rightarrow> (string \<times> string) list" where
  "choose_root w save_dir rd r names =
     (if map_of names (mr_name r) \<noteq> None then names
      else omap_put (mr_name r) (UniqueName (\<lambda>n. path_exists w (save_dir @ [n])) rd (mr_name r) (mr_is_dir r)) names)"

definition ChooseNames :: "'j json_ops \<Rightarrow> nat \<Rightarrow> world \<Rightarrow> 'j session \<Rightarrow> (string \<times> string) list option" where
  "ChooseNames J rd w s =
     do { names \<leftarrow> (case (if j_is_object J (ss_resume s) then j_find J (ss_resume s) ''names'' else None) of
                      None \<Rightarrow> Some []
                    | Some ns \<Rightarrow> if j_is_object J ns then read_names J (j_items J ns) [] else Some []);
          Some (fold (choose_root w (ss_save_dir s) rd) (m_roots (ss_manifest s)) names) }"

fun read_resume :: "'j json_ops \<Rightarrow> 'j list \<Rightarrow> ReceiverFileState list option" where
  "read_resume J [] = Some []"
| "read_resume J (f # fs) =
     do { index \<leftarrow> j_value_int J f ''index'' 0;
          verified \<leftarrow> j_value_bool J f ''verified'' False;
          have \<leftarrow> (case j_find J f ''have'' of None \<Rightarrow> Some []
                   | Some h \<Rightarrow> if j_is_array J h then read_runs J (j_elems J h) else Some []);
          rest \<leftarrow> read_resume J fs;
          Some (\<lparr>rs_index = word_of_int index, rs_have = have, rs_verified = verified\<rparr> # rest) }"

text \<open>The saved state when it belongs to this manifest; otherwise nothing, and the record is cleared.\<close>

definition resume_state :: "'j json_ops \<Rightarrow> (bytes \<Rightarrow> string) \<Rightarrow> Manifest \<Rightarrow> 'j \<Rightarrow> (ReceiverFileState list \<times> 'j) option" where
  "resume_state J sha m rec =
     (if \<not> j_is_object J rec then Some ([], rec)
      else do {
        sig \<leftarrow> j_value_string J rec ''manifest_sig'' [];
        (case (if sig = ManifestSignature sha m then j_find J rec ''files'' else None) of
           None \<Rightarrow> Some ([], j_object J [])
         | Some fs \<Rightarrow>
             if j_is_array J fs then do { st \<leftarrow> read_resume J (j_elems J fs); Some (st, rec) }
             else Some ([], j_object J [])) })"

definition run_json :: "'j json_ops \<Rightarrow> sack_run \<Rightarrow> 'j" where
  "run_json J r = j_array J [j_u64 J (ucast (run_start r)), j_u64 J (ucast (run_length r))]"

definition accept_json :: "'j json_ops \<Rightarrow> (u16 \<times> sack_run list) list \<Rightarrow> u16 list \<Rightarrow> 'j" where
  "accept_json J have verified =
     j_array J (map (\<lambda>v. j_object J [(''index'', j_u64 J (ucast v)), (''verified'', j_bool J True)]) verified @
       map (\<lambda>(idx, rs). j_object J [(''index'', j_u64 J (ucast idx)), (''have'', j_array J (map (run_json J) rs))])
         (filter (\<lambda>(idx, _). idx \<notin> set verified) have))"

definition start_receiver :: "'j json_ops \<Rightarrow> (rcv \<Rightarrow> rcv) \<Rightarrow> ReceiverFileState list \<Rightarrow> 'j session \<Rightarrow> 'j session option" where
  "start_receiver J jn resume s =
     do { (res, r) \<leftarrow> rx_Start (ss_manifest s) (ss_save_dir s) (map_of (ss_names s)) resume (ss_new_rx s);
          (case res of
             Inl err \<Rightarrow> Some (ss_Fail J jn ''start'' err (s\<lparr>ss_receiver := Some r\<rparr>))
           | Inr _ \<Rightarrow>
               do { have \<leftarrow> rx_HaveRuns (r_rx r);
                    Some (EmitProgress False (SetState kTransferring
                      (ss_SendCtrl (msg J ''accept'' [(''files'', accept_json J have (VerifiedFiles r))])
                        (s\<lparr>ss_receiver := Some r\<rparr>)))) }) }"

definition HandleOffer :: "'j json_ops \<Rightarrow> (rcv \<Rightarrow> rcv) \<Rightarrow> (bytes \<Rightarrow> string) \<Rightarrow> nat \<Rightarrow> 'j \<Rightarrow> 'j session \<Rightarrow> 'j session option" where
  "HandleOffer J jn sha rd j s =
     (if ss_is_sender s \<or> ss_receiver s \<noteq> None then Some s
      else case j_find J j ''manifest'' of None \<Rightarrow> Some (ss_Fail J jn ''bad_offer'' ''missing manifest'' s)
      | Some mj \<Rightarrow>
        (case FromJson J mj of
           Throw \<Rightarrow> None
         | Fail err \<Rightarrow> Some (ss_Fail J jn ''bad_offer'' err s)
         | Done m \<Rightarrow>
           let s1 = s\<lparr>ss_manifest := m\<rparr> in
           if ss_save_dir s1 = [] then Some (ss_Fail J jn ''no_save_dir'' ''save directory not set'' s1)
           else let s2 = upd_snap (\<lambda>p. p\<lparr>sn_bytes_total := m_total_bytes m, sn_files_total := of_nat (length (m_files m))\<rparr>) s1 in
             do { (st, rec) \<leftarrow> resume_state J sha m (ss_resume s2);
                  (let s3 = s2\<lparr>ss_resume := rec\<rparr> in
                   do { names \<leftarrow> ChooseNames J rd (r_world (ss_new_rx s3)) s3;
                        start_receiver J jn st (s3\<lparr>ss_names := names\<rparr>) }) }))"

definition OnReceiverFileOk :: "'j json_ops \<Rightarrow> u16 \<Rightarrow> 'j session \<Rightarrow> 'j session" where
  "OnReceiverFileOk J index s =
     EmitProgress True (ss_SendCtrl (msg J ''file_ok'' [(''index'', j_u64 J (ucast index))]) s)"

definition OnReceiverFileVerified :: "'j json_ops \<Rightarrow> u16 \<Rightarrow> bool \<Rightarrow> string \<Rightarrow> 'j session \<Rightarrow> 'j session" where
  "OnReceiverFileVerified J index ok reason s =
     (if \<not> ok then ss_SendCtrl (msg J ''file_bad'' [(''index'', j_u64 J (ucast index)), (''reason'', j_string J reason)]) s
      else s)"

definition OnReceiverAllDone :: "'j session \<Rightarrow> 'j session" where
  "OnReceiverAllDone s =
     (if Terminal (ss_state s) then s
      else let s1 = upd_snap (\<lambda>p. p\<lparr>sn_bytes_done := sn_bytes_total p, sn_files_done := sn_files_total p\<rparr>) s in
        if \<not> ss_sender_confirmed s1 then EmitProgress True (SetState kVerifying s1)
        else EmitProgress True (ss_emit PersistClear (SetState kCompleted s1)))"

definition state_json :: "'j json_ops \<Rightarrow> ReceiverFileState \<Rightarrow> 'j" where
  "state_json J st = j_object J [(''index'', j_u64 J (ucast (rs_index st))), (''verified'', j_bool J (rs_verified st)),
     (''have'', j_array J (map (run_json J) (rs_have st)))]"

definition persist_record :: "'j json_ops \<Rightarrow> (bytes \<Rightarrow> string) \<Rightarrow> Manifest \<Rightarrow> (string \<times> string) list \<Rightarrow> ReceiverFileState list \<Rightarrow> 'j" where
  "persist_record J sha m names state =
     j_object J [(''manifest_sig'', j_string J (ManifestSignature sha m)),
       (''names'', j_object J (map (\<lambda>(root, name). (root, j_string J name)) names)),
       (''files'', j_array J (map (state_json J) state))]"

definition PersistReceiver :: "'j json_ops \<Rightarrow> (bytes \<Rightarrow> string) \<Rightarrow> ReceiverFileState list \<Rightarrow> 'j session \<Rightarrow> 'j session" where
  "PersistReceiver J sha state s =
     (if Terminal (ss_state s) then s
      else ss_emit (PersistOut (persist_record J sha (ss_manifest s) (ss_names s) state)) s)"

section \<open>Transport lifecycle and control\<close>

definition OnTransportReady :: "'j json_ops \<Rightarrow> (rcv \<Rightarrow> rcv) \<Rightarrow> MiniRtcPath \<Rightarrow> 'j session \<Rightarrow> 'j session" where
  "OnTransportReady J jn path s =
     (let s1 = upd_snap (\<lambda>p. p\<lparr>sn_path := path\<rparr>) s;
          s2 = s1\<lparr>ss_transport_ready := True\<rparr>
      in if ss_transport_ready s then s2
         else if ss_is_sender s then StartOffer J jn s2 else SetState kWaitingOffer s2)"

definition OnTransportDown :: "'j session \<Rightarrow> 'j session" where
  "OnTransportDown s = s\<lparr>ss_transport_ready := False\<rparr>"

definition OnPathChanged :: "MiniRtcPath \<Rightarrow> 'j session \<Rightarrow> 'j session" where
  "OnPathChanged path s = EmitProgress True (upd_snap (\<lambda>p. p\<lparr>sn_path := path\<rparr>) s)"

definition rx_finished :: "'j session \<Rightarrow> bool" where
  "rx_finished s \<longleftrightarrow> (case ss_receiver s of None \<Rightarrow> False | Some r \<Rightarrow> r_finished r)"

definition OnSessionEnd :: "'j json_ops \<Rightarrow> (rcv \<Rightarrow> rcv) \<Rightarrow> string \<Rightarrow> 'j session \<Rightarrow> 'j session" where
  "OnSessionEnd J jn reason s =
     (if Terminal (ss_state s) then s
      else if \<not> ss_is_sender s \<and> rx_finished s \<and> (reason = ''share_closed'' \<or> reason = ''peer_left'')
      then OnReceiverAllDone (s\<lparr>ss_sender_confirmed := True\<rparr>)
      else ss_Fail J jn ''session_end'' reason s)"

definition ParseCtrlMessage :: "'j json_ops \<Rightarrow> (bytes \<Rightarrow> 'j) \<Rightarrow> bytes \<Rightarrow> ('j \<times> string) option" where
  "ParseCtrlMessage J parse message =
     (let j = parse message in
      if \<not> j_is_object J j then None
      else case j_find J j ''type'' of None \<Rightarrow> None
      | Some t \<Rightarrow> if \<not> j_is_string J t then None else map_option (Pair j) (j_get_string J t))"

definition on_file_done_msg :: "'j json_ops \<Rightarrow> 'j \<Rightarrow> 'j session \<Rightarrow> 'j session option" where
  "on_file_done_msg J j s =
     (case (ss_receiver s, j_find J j ''index'', j_find J j ''sha256'') of
        (Some r, Some i, Some h) \<Rightarrow>
          if ss_is_sender s then Some s
          else do { k \<leftarrow> j_get_u64 J i; hash \<leftarrow> j_get_string J h;
                    Some (s\<lparr>ss_receiver := Some (OnFileDone (ucast k) hash r)\<rparr>) }
      | _ \<Rightarrow> Some s)"

definition on_cancel_msg :: "(rcv \<Rightarrow> rcv) \<Rightarrow> 'j session \<Rightarrow> 'j session" where
  "on_cancel_msg jn s =
     (if Terminal (ss_state s) then s
      else SetState kCancelled (stop_engines jn (upd_snap (\<lambda>p. p\<lparr>sn_error_code := ''peer_cancelled''\<rparr>) s)))"

definition dispatch_ctrl :: "'j json_ops \<Rightarrow> (rcv \<Rightarrow> rcv) \<Rightarrow> (bytes \<Rightarrow> string) \<Rightarrow> nat \<Rightarrow> 'j \<Rightarrow> string \<Rightarrow> 'j session \<Rightarrow> 'j session option" where
  "dispatch_ctrl J jn sha rd j type s =
     (if type = ''offer'' then HandleOffer J jn sha rd j s
      else if type = ''accept'' then HandleAccept J jn j s
      else if type = ''file_done'' then on_file_done_msg J j s
      else if type = ''file_ok'' then HandleFileAck J j True s
      else if type = ''file_bad'' then HandleFileAck J j False s
      else if type = ''transfer_done'' then
        (if ss_is_sender s then Some s
         else let s1 = s\<lparr>ss_sender_confirmed := True\<rparr> in
           Some (if rx_finished s1 then OnReceiverAllDone s1 else s1))
      else if type = ''pause'' then Some (s\<lparr>ss_sender := map_option (SetPaused True) (ss_sender s)\<rparr>)
      else if type = ''resume'' then
        Some (if ss_paused s then s else s\<lparr>ss_sender := map_option (SetPaused False) (ss_sender s)\<rparr>)
      else if type = ''cancel'' then Some (on_cancel_msg jn s)
      else if type = ''error'' then
        map_option (\<lambda>code. ss_Fail J jn ''peer_error'' code s) (j_value_string J j ''code'' ''error'')
      else Some s)"

definition OnCtrlMessage :: "'j json_ops \<Rightarrow> (rcv \<Rightarrow> rcv) \<Rightarrow> (bytes \<Rightarrow> 'j) \<Rightarrow> (bytes \<Rightarrow> string) \<Rightarrow> nat \<Rightarrow> bytes \<Rightarrow> 'j session \<Rightarrow> 'j session option" where
  "OnCtrlMessage J jn parse sha rd message s =
     (case ParseCtrlMessage J parse message of None \<Rightarrow> Some s
      | Some (j, type) \<Rightarrow> dispatch_ctrl J jn sha rd j type s)"

definition Pause :: "'j json_ops \<Rightarrow> 'j session \<Rightarrow> 'j session" where
  "Pause J s =
     (if ss_paused s \<or> Terminal (ss_state s) then s
      else let s1 = s\<lparr>ss_paused := True, ss_sender := map_option (SetPaused True) (ss_sender s)\<rparr> in
        if ss_is_sender s1 then s1 else ss_SendCtrl (msg J ''pause'' []) s1)"

definition Resume :: "'j json_ops \<Rightarrow> 'j session \<Rightarrow> 'j session" where
  "Resume J s =
     (if \<not> ss_paused s \<or> Terminal (ss_state s) then s
      else let s1 = s\<lparr>ss_paused := False, ss_sender := map_option (SetPaused False) (ss_sender s)\<rparr> in
        if ss_is_sender s1 then s1 else ss_SendCtrl (msg J ''resume'' []) s1)"

definition ss_Cancel :: "'j json_ops \<Rightarrow> (rcv \<Rightarrow> rcv) \<Rightarrow> (fspath \<Rightarrow> world \<Rightarrow> bool) \<Rightarrow> string \<Rightarrow> 'j session \<Rightarrow> 'j session" where
  "ss_Cancel J jn is_empty reason s =
     (if Terminal (ss_state s) then s
      else let s1 = ss_SendCtrl (msg J ''cancel'' [(''reason'', j_string J reason)]) (upd_snap (\<lambda>p. p\<lparr>sn_error_code := reason\<rparr>) s);
               s2 = SetState kCancelled (s1\<lparr>ss_sender := map_option tx_Stop (ss_sender s1),
                 ss_receiver := map_option (\<lambda>r. Cleanup is_empty (jn (Stop_request r))) (ss_receiver s1)\<rparr>)
           in if ss_is_sender s2 then s2 else ss_emit PersistClear s2)"

section \<open>The session as a state machine\<close>

text \<open>The inputs of the event loop.  Engine callbacks are posted by the engines; the receiver posts its completion only
after it has set its finished flag.\<close>

datatype 'j ss_input =
    InReady MiniRtcPath | InDown | InPath MiniRtcPath | InEnd string | InMessage bytes | InTimer
  | InTxFileDone u16 string | InTxAllDone | InEngineError string string
  | InRxFileOk u16 | InRxFileBad u16 string | InRxAllDone | InRxPersist "ReceiverFileState list"
  | InPause | InResume | InCancel string

fun ss_handle ::
  "'j json_ops \<Rightarrow> (rcv \<Rightarrow> rcv) \<Rightarrow> (bytes \<Rightarrow> 'j) \<Rightarrow> (bytes \<Rightarrow> string) \<Rightarrow> (fspath \<Rightarrow> world \<Rightarrow> bool) \<Rightarrow> nat \<Rightarrow>
    'j ss_input \<Rightarrow> 'j session \<Rightarrow> 'j session option"
where
  "ss_handle J jn parse sha em rd (InReady path) s = Some (OnTransportReady J jn path s)"
| "ss_handle J jn parse sha em rd InDown s = Some (OnTransportDown s)"
| "ss_handle J jn parse sha em rd (InPath path) s = Some (OnPathChanged path s)"
| "ss_handle J jn parse sha em rd (InEnd reason) s = Some (OnSessionEnd J jn reason s)"
| "ss_handle J jn parse sha em rd (InMessage m) s = OnCtrlMessage J jn parse sha rd m s"
| "ss_handle J jn parse sha em rd InTimer s = Some (OnProgressTimer s)"
| "ss_handle J jn parse sha em rd (InTxFileDone i h) s = Some (OnSenderFileDone J i h s)"
| "ss_handle J jn parse sha em rd InTxAllDone s = Some (OnSenderAllDone J s)"
| "ss_handle J jn parse sha em rd (InEngineError c m) s = Some (ss_Fail J jn c m s)"
| "ss_handle J jn parse sha em rd (InRxFileOk i) s = Some (OnReceiverFileOk J i s)"
| "ss_handle J jn parse sha em rd (InRxFileBad i reason) s = Some (OnReceiverFileVerified J i False reason s)"
| "ss_handle J jn parse sha em rd InRxAllDone s = Some (OnReceiverAllDone s)"
| "ss_handle J jn parse sha em rd (InRxPersist st) s = Some (PersistReceiver J sha st s)"
| "ss_handle J jn parse sha em rd InPause s = Some (Pause J s)"
| "ss_handle J jn parse sha em rd InResume s = Some (Resume J s)"
| "ss_handle J jn parse sha em rd (InCancel reason) s = Some (ss_Cancel J jn em reason s)"

text \<open>An engine posts its completion after it has set its finished flag.\<close>

definition tx_finished :: "'j session \<Rightarrow> bool" where
  "tx_finished s \<longleftrightarrow> (case ss_sender s of None \<Rightarrow> False | Some t \<Rightarrow> s_finished t)"

definition enabled :: "'j ss_input \<Rightarrow> 'j session \<Rightarrow> bool" where
  "enabled i s \<longleftrightarrow> (case i of InRxAllDone \<Rightarrow> rx_finished s | InTxAllDone \<Rightarrow> tx_finished s | _ \<Rightarrow> True)"

definition writer_label :: "rx_label \<Rightarrow> bool" where
  "writer_label l \<longleftrightarrow> (case l of LBody _ _ _ \<Rightarrow> True | LExit _ \<Rightarrow> True | _ \<Rightarrow> False)"

text \<open>The writer thread makes steps of its own until it is joined.\<close>

definition joins :: "(bytes \<Rightarrow> string) \<Rightarrow> (rcv \<Rightarrow> rcv) \<Rightarrow> bool" where
  "joins sha jn \<longleftrightarrow> (\<forall>r. \<exists>ls. list_all writer_label ls \<and> rcv_run sha ls r (jn r))"

text \<open>
  A move of the sender thread from one poll of its lock or clock to the next, or to its end: \<open>t\<close> is the state that
  \<^verbatim>\<open>Run\<close>, begun after a successful \<^verbatim>\<open>Start\<close>, has at a poll after the environment \<open>es\<close>, with the calls \<open>e_acts e\<close> that the session
  and the transport have made since then, and \<open>t'\<close> the state it reaches when it also polls \<open>e\<close>.
\<close>

definition sender_thread ::
  "(bytes \<Rightarrow> string) \<Rightarrow> Manifest \<Rightarrow> fspath list \<Rightarrow> tx_state \<Rightarrow> tx_state \<Rightarrow> tx_state \<Rightarrow> bool"
where
  "sender_thread sha m files new t t' \<longleftrightarrow>
     (\<exists>have verified t0 es e u. tx_Start m files have verified new = (Inr (), t0) \<and>
        tx_Run sha (t0\<lparr>s_env := es\<rparr>) = (Starved, u) \<and> s_env u = [] \<and> t = fold apply_act (e_acts e) u \<and>
        t' = snd (tx_Run sha (t0\<lparr>s_env := es @ [e]\<rparr>)) \<and> s_env t' = [])"

text \<open>Runs of a session with the inputs it has handled.  Blocks and SACKs arrive and the threads of the engines move in between.\<close>

inductive ss_run ::
  "'j json_ops \<Rightarrow> (bytes \<Rightarrow> 'j) \<Rightarrow> (bytes \<Rightarrow> string) \<Rightarrow> (fspath \<Rightarrow> world \<Rightarrow> bool) \<Rightarrow> 'j ss_input list \<Rightarrow> 'j session \<Rightarrow> 'j session \<Rightarrow> bool"
  for J parse sha em where
  ss_nil: "ss_run J parse sha em [] s s"
| ss_input: "ss_run J parse sha em ins s0 s \<Longrightarrow> enabled i s \<Longrightarrow> joins sha jn \<Longrightarrow> ss_handle J jn parse sha em rd i s = Some s' \<Longrightarrow>
    ss_run J parse sha em (ins @ [i]) s0 s'"
| ss_block: "ss_run J parse sha em ins s0 s \<Longrightarrow> ss_receiver s = Some r \<Longrightarrow>
    ss_run J parse sha em ins s0 (s\<lparr>ss_receiver := Some (OnBlock data r)\<rparr>)"
| ss_writer: "ss_run J parse sha em ins s0 s \<Longrightarrow> ss_receiver s = Some r \<Longrightarrow> writer_label l \<Longrightarrow> rcv_step sha l r r' \<Longrightarrow>
    ss_run J parse sha em ins s0 (s\<lparr>ss_receiver := Some r'\<rparr>)"
| ss_sack: "ss_run J parse sha em ins s0 s \<Longrightarrow> ss_sender s = Some t \<Longrightarrow>
    ss_run J parse sha em ins s0 (s\<lparr>ss_sender := Some (OnSack data t)\<rparr>)"
| ss_sender_thread: "ss_run J parse sha em ins s0 s \<Longrightarrow> ss_sender s = Some t \<Longrightarrow>
    sender_thread sha (ss_manifest s) (ss_files s) (ss_new_tx s) t t' \<Longrightarrow>
    ss_run J parse sha em ins s0 (s\<lparr>ss_sender := Some t'\<rparr>)"

end
