(* ===== verification/Session_Runs.thy ===== *)
theory Session_Runs
  imports Transfer_Session Receiver_Props
begin

text \<open>
  Runs of one transfer session, \<^verbatim>\<open>core/src/share/transfer_session.cpp\<close>: what each handler keeps, that the terminal states are
  final, and what a receiving session that reports completion has on disk.
\<close>

section \<open>What the basic operations keep\<close>

lemma ss_emit_sel [simp]:
  "ss_receiver (ss_emit e s) = ss_receiver s" "ss_sender (ss_emit e s) = ss_sender s" "ss_is_sender (ss_emit e s) = ss_is_sender s"
  "ss_new_rx (ss_emit e s) = ss_new_rx s" "ss_new_tx (ss_emit e s) = ss_new_tx s" "ss_save_dir (ss_emit e s) = ss_save_dir s"
  "ss_manifest (ss_emit e s) = ss_manifest s" "ss_file_ok (ss_emit e s) = ss_file_ok s" "ss_snap (ss_emit e s) = ss_snap s"
  "ss_done_sent (ss_emit e s) = ss_done_sent s" "ss_files (ss_emit e s) = ss_files s"
  "ss_accept_received (ss_emit e s) = ss_accept_received s" "ss_names (ss_emit e s) = ss_names s"
  by (simp_all add: ss_emit_def)

lemma upd_snap_sel [simp]:
  "ss_receiver (upd_snap g s) = ss_receiver s" "ss_sender (upd_snap g s) = ss_sender s" "ss_is_sender (upd_snap g s) = ss_is_sender s"
  "ss_new_rx (upd_snap g s) = ss_new_rx s" "ss_new_tx (upd_snap g s) = ss_new_tx s" "ss_save_dir (upd_snap g s) = ss_save_dir s"
  "ss_manifest (upd_snap g s) = ss_manifest s" "ss_file_ok (upd_snap g s) = ss_file_ok s" "ss_snap (upd_snap g s) = g (ss_snap s)"
  "ss_done_sent (upd_snap g s) = ss_done_sent s" "ss_files (upd_snap g s) = ss_files s"
  "ss_accept_received (upd_snap g s) = ss_accept_received s" "ss_names (upd_snap g s) = ss_names s"
  by (simp_all add: upd_snap_def)

lemma SetState_sel [simp]:
  "ss_receiver (SetState st s) = ss_receiver s" "ss_sender (SetState st s) = ss_sender s" "ss_is_sender (SetState st s) = ss_is_sender s"
  "ss_new_rx (SetState st s) = ss_new_rx s" "ss_new_tx (SetState st s) = ss_new_tx s" "ss_save_dir (SetState st s) = ss_save_dir s"
  "ss_manifest (SetState st s) = ss_manifest s" "ss_file_ok (SetState st s) = ss_file_ok s"
  "ss_state (SetState st s) = (if Terminal (ss_state s) then ss_state s else st)"
  "ss_done_sent (SetState st s) = ss_done_sent s" "ss_files (SetState st s) = ss_files s"
  "ss_accept_received (SetState st s) = ss_accept_received s" "ss_names (SetState st s) = ss_names s"
  by (simp_all add: SetState_def Let_def)

lemma read_progress_sel [simp]:
  "ss_receiver (read_progress s) = ss_receiver s" "ss_sender (read_progress s) = ss_sender s" "ss_is_sender (read_progress s) = ss_is_sender s"
  "ss_new_rx (read_progress s) = ss_new_rx s" "ss_new_tx (read_progress s) = ss_new_tx s" "ss_save_dir (read_progress s) = ss_save_dir s"
  "ss_manifest (read_progress s) = ss_manifest s" "ss_file_ok (read_progress s) = ss_file_ok s" "ss_state (read_progress s) = ss_state s"
  "ss_done_sent (read_progress s) = ss_done_sent s" "ss_files (read_progress s) = ss_files s"
  "ss_accept_received (read_progress s) = ss_accept_received s" "ss_names (read_progress s) = ss_names s"
  by (simp_all add: read_progress_def Let_def split: option.splits)

lemma EmitProgress_sel [simp]:
  "ss_receiver (EmitProgress f s) = ss_receiver s" "ss_sender (EmitProgress f s) = ss_sender s" "ss_is_sender (EmitProgress f s) = ss_is_sender s"
  "ss_new_rx (EmitProgress f s) = ss_new_rx s" "ss_new_tx (EmitProgress f s) = ss_new_tx s" "ss_save_dir (EmitProgress f s) = ss_save_dir s"
  "ss_manifest (EmitProgress f s) = ss_manifest s" "ss_file_ok (EmitProgress f s) = ss_file_ok s" "ss_state (EmitProgress f s) = ss_state s"
  "ss_done_sent (EmitProgress f s) = ss_done_sent s" "ss_files (EmitProgress f s) = ss_files s"
  "ss_accept_received (EmitProgress f s) = ss_accept_received s" "ss_names (EmitProgress f s) = ss_names s"
  by (simp_all add: EmitProgress_def ScheduleProgress_def Let_def)

lemma SendCtrl_sel [simp]: "ss_SendCtrl j s = ss_emit (CtrlOut j) s"
  by (simp add: ss_SendCtrl_def)

section \<open>Terminal states\<close>

lemma ss_Fail_final: "Terminal (ss_state s) \<Longrightarrow> ss_Fail J jn c m s = s"
  by (simp add: ss_Fail_def)

lemma HandleAccept_state: "HandleAccept J jn j s = Some s' \<Longrightarrow> Terminal (ss_state s) \<Longrightarrow> ss_state s' = ss_state s"
  by (auto simp: HandleAccept_def Let_def ss_Fail_def split: if_splits prod.splits sum.splits bind_splits)

lemma HandleFileAck_state: "HandleFileAck J j ok s = Some s' \<Longrightarrow> ss_state s' = ss_state s"
  by (auto simp: HandleFileAck_def Let_def split: if_splits option.splits bind_splits)

lemma start_receiver_state: "start_receiver J jn st s = Some s' \<Longrightarrow> Terminal (ss_state s) \<Longrightarrow> ss_state s' = ss_state s"
  by (auto simp: start_receiver_def Let_def ss_Fail_def split: if_splits prod.splits sum.splits bind_splits)

lemma HandleOffer_state: "HandleOffer J jn sha rd j s = Some s' \<Longrightarrow> Terminal (ss_state s) \<Longrightarrow> ss_state s' = ss_state s"
  by (auto simp: HandleOffer_def Let_def ss_Fail_def dest!: start_receiver_state
      split: if_splits prod.splits option.splits outcome.splits bind_splits)

lemma on_file_done_state: "on_file_done_msg J j s = Some s' \<Longrightarrow> ss_state s' = ss_state s"
  by (auto simp: on_file_done_msg_def split: if_splits option.splits bind_splits)

lemma OnReceiverAllDone_final: "Terminal (ss_state s) \<Longrightarrow> OnReceiverAllDone s = s"
  by (simp add: OnReceiverAllDone_def)

lemma dispatch_state: "dispatch_ctrl J jn sha rd j type s = Some s' \<Longrightarrow> Terminal (ss_state s) \<Longrightarrow> ss_state s' = ss_state s"
  by (auto simp: dispatch_ctrl_def Let_def ss_Fail_final OnReceiverAllDone_def on_cancel_msg_def
      dest: HandleAccept_state HandleFileAck_state HandleOffer_state on_file_done_state split: if_splits)

lemma handle_state:
  assumes "ss_handle J jn parse sha em rd i s = Some s'" "Terminal (ss_state s)"
  shows "ss_state s' = ss_state s"
proof (cases i)
  case (InMessage m)
  then show ?thesis using assms by (auto simp: OnCtrlMessage_def dest: dispatch_state split: option.splits)
next
  case (InReady path)
  then show ?thesis using assms by (auto simp: OnTransportReady_def StartOffer_def Let_def ss_Fail_def)
qed (use assms in \<open>auto simp: OnTransportDown_def OnPathChanged_def OnSessionEnd_def OnProgressTimer_def OnSenderFileDone_def
  OnSenderAllDone_def ss_Fail_final OnReceiverFileOk_def OnReceiverFileVerified_def OnReceiverAllDone_final PersistReceiver_def
  Pause_def Resume_def ss_Cancel_def Let_def\<close>)

text \<open>C9. Completed, failed and cancelled are final: whatever messages, transport events, engine callbacks or user
requests follow, the state of the session no longer changes.\<close>

theorem terminal_states_are_final:
  assumes "ss_run J parse sha em ins s0 s" "Terminal (ss_state s0)"
  shows "ss_state s = ss_state s0"
  using assms by induction (auto dest: handle_state)

section \<open>A finished receiver has verified every file\<close>

lemma fin_basic [simp]: "r_finished (emit e r) = r_finished r" "r_finished (rx_Fail c m r) = r_finished r"
  "r_finished (upd_rx i f r) = r_finished r"
  by (simp_all add: emit_def rx_Fail_def upd_rx_def)

lemma SendSack_fin: "SendSack now i r = Some r' \<Longrightarrow> r_finished r' = r_finished r"
  by (auto simp: SendSack_def Let_def split: bind_splits)

lemma MaybeVerify_fin: "r_finished (MaybeVerify sha i r) = r_finished r"
  by (auto simp: MaybeVerify_def reject_file_def Let_def split: prod.splits option.splits sum.splits)

lemma AcceptBlock_fin: "AcceptBlock p r = (fresh, r') \<Longrightarrow> r_finished r' = r_finished r"
  by (auto simp: AcceptBlock_def Let_def split: if_splits)

lemma FlushRun_fin: "FlushRun sha now i first data blocks r = Some (ok, r') \<Longrightarrow> r_finished r' = r_finished r"
  by (auto simp: FlushRun_def commit_run_def Let_def MaybeVerify_fin dest!: SendSack_fin
      split: if_splits option.splits prod.splits bool.splits bind_splits)

lemma flush_buf_fin: "flush_buf sha now u r = Some (ok, u', r') \<Longrightarrow> r_finished r' = r_finished r"
  by (auto simp: flush_buf_def dest: FlushRun_fin split: option.splits bind_splits)

lemma batch_loop_fin: "batch_loop sha now ps u r = Some r' \<Longrightarrow> r_finished r' = r_finished r"
proof (induction ps arbitrary: u r)
  case Nil
  then show ?case by (auto dest: flush_buf_fin split: bind_splits)
next
  case (Cons p ps)
  obtain ok u1 r1 where 1: "(if contiguous p u then Some (True, u, r) else flush_buf sha now u r) = Some (ok, u1, r1)"
    using Cons.prems by (auto split: bind_splits)
  have f1: "r_finished r1 = r_finished r" using 1 flush_buf_fin by (auto split: if_splits)
  obtain fresh r2 where 2: "AcceptBlock p r1 = (fresh, r2)" by fastforce
  have f2: "r_finished r2 = r_finished r" using f1 AcceptBlock_fin[OF 2] by simp
  consider "\<not> ok" | "ok" "\<not> fresh" | "ok" "fresh" "\<not> kMaxRunBytes \<le> length (ru_data (add_block p u1))"
    | "ok" "fresh" "kMaxRunBytes \<le> length (ru_data (add_block p u1))" by blast
  then show ?case
  proof cases
    case 4
    then obtain ok3 u3 r3 where 3: "flush_buf sha now (add_block p u1) r2 = Some (ok3, u3, r3)"
      using Cons.prems 1 2 by (auto simp: Let_def split: bind_splits)
    then have "(if ok3 then batch_loop sha now ps u3 r3 else Some r3) = Some r'" using Cons.prems 1 2 4 by (auto simp: Let_def split: if_splits)
    then show ?thesis using Cons.IH[of u3 r3] f2 flush_buf_fin[OF 3] by (auto split: if_splits)
  qed (use Cons 1 2 f1 f2 in \<open>simp_all add: Let_def\<close>)
qed

lemma sacks_loop_fin: "sacks_loop now force is r = Some r' \<Longrightarrow> r_finished r' = r_finished r"
  by (induction now force "is" r rule: sacks_loop.induct) (auto dest: SendSack_fin split: if_splits bind_splits)

lemma apply_done_fin: "r_finished (apply_done sha ds r) = r_finished r"
  by (induction sha ds r rule: apply_done.induct) (auto simp: Let_def MaybeVerify_fin)

lemma first_check_fin: "r_finished (first_check r) = r_finished r"
  by (simp add: first_check_def)

lemma Persist_fin: "Persist now force r = Some r' \<Longrightarrow> r_finished r' = r_finished r"
  by (auto simp: Persist_def split: if_splits bind_splits)

lemma UpdateRates_fin: "r_finished (UpdateRates now r) = r_finished r"
  by (simp add: UpdateRates_def Let_def)

definition fin_ok :: "rcv \<Rightarrow> bool" where
  "fin_ok r \<longleftrightarrow> (r_finished r \<longrightarrow> \<not> r_running r \<and> AllVerified r)"

lemma Run_body_fin:
  assumes "Run_body sha now t1 t2 r = Some r'" "\<not> r_finished r"
  shows "fin_ok r'"
proof -
  obtain r1 where r1: "HandleBatch sha now (r_queue r) (r\<lparr>r_queue := [], r_pending_done := [], r_queue_bytes := 0\<rparr>) = Some r1"
    using assms(1) by (auto simp: Run_body_def Let_def split: bind_splits)
  have f1: "\<not> r_finished r1" using batch_loop_fin[OF r1[unfolded HandleBatch_def]] assms(2) by simp
  show ?thesis
  proof (cases "r_failed r1")
    case True
    then show ?thesis using assms(1) r1 f1 by (auto simp: Run_body_def Let_def fin_ok_def)
  next
    case False
    obtain r2 r3 where r2: "SendSacks now False (first_check (apply_done sha (r_pending_done r) r1)) = Some r2"
      and r3: "Persist t1 False (UpdateRates now r2) = Some r3"
      using assms(1) r1 False by (auto simp: Run_body_def Let_def split: bind_splits)
    have f3: "\<not> r_finished r3" using f1 sacks_loop_fin[OF r2[unfolded SendSacks_def]] Persist_fin[OF r3]
      by (simp add: apply_done_fin first_check_fin UpdateRates_fin)
    show ?thesis
    proof (cases "AllVerified r3")
      case True
      then obtain r4 where "Persist t2 True r3 = Some r4" "r' = emit AllDone (r4\<lparr>r_finished := True, r_running := False\<rparr>)"
        using assms(1) r1 False r2 r3 by (auto simp: Run_body_def Let_def split: bind_splits)
      then show ?thesis using True integ.Persist_sel[of t2 True r3 r4] by (simp add: fin_ok_def AllVerified_def emit_def)
    next
      case nv: False
      then have "r' = r3" using assms(1) r1 False r2 r3 by (auto simp: Run_body_def Let_def)
      then show ?thesis using f3 by (simp add: fin_ok_def)
    qed
  qed
qed

lemma finished_step: "rcv_step sha l r r' \<Longrightarrow> fin_ok r \<Longrightarrow> fin_ok r'"
proof (induction rule: rcv_step.induct)
  case (step_body r now t1 t2 r')
  then show ?case using Run_body_fin by (auto simp: fin_ok_def)
next
  case (step_exit r now r')
  then show ?case by (auto simp: fin_ok_def Run_exit_def dest: Persist_fin split: bind_splits)
next
  case (step_close r)
  then show ?case by (simp add: fin_ok_def Stop_close_def AllVerified_def list.pred_map comp_def)
next
  case (step_block data r)
  then show ?case by (auto simp: fin_ok_def OnBlock_def AllVerified_def split: option.splits)
qed (simp_all add: fin_ok_def OnFileDone_def Stop_request_def AllVerified_def)

lemma finished_run: "rcv_run sha ls r r' \<Longrightarrow> fin_ok r \<Longrightarrow> fin_ok r'"
  by (induction rule: rcv_run.induct) (auto dest: finished_step)

section \<open>Completion of a receiving session\<close>

text \<open>The hash a ctrl message announces.\<close>

definition file_done_of :: "'j json_ops \<Rightarrow> (bytes \<Rightarrow> 'j) \<Rightarrow> bytes \<Rightarrow> (u16 \<times> string) option" where
  "file_done_of J parse m =
     do { (j, type) \<leftarrow> ParseCtrlMessage J parse m;
          if type = ''file_done''
          then do { i \<leftarrow> j_find J j ''index''; h \<leftarrow> j_find J j ''sha256''; k \<leftarrow> j_get_u64 J i; hash \<leftarrow> j_get_string J h;
                    Some (ucast k, hash) }
          else None }"

definition clean_rx :: "rcv \<Rightarrow> bool" where
  "clean_rx r \<longleftrightarrow> r_queue r = [] \<and> r_pending_done r = [] \<and> \<not> r_finished r"

definition receiving_session :: "'j session \<Rightarrow> bool" where
  "receiving_session s \<longleftrightarrow> \<not> ss_is_sender s \<and> ss_state s = kConnecting \<and> ss_receiver s = None \<and> ss_sender s = None \<and>
     clean_rx (ss_new_rx s)"

text \<open>The receiver was started and then only made steps of its own, with the hashes of the messages in \<open>ins\<close>.\<close>

definition tracked :: "'j json_ops \<Rightarrow> (bytes \<Rightarrow> 'j) \<Rightarrow> (bytes \<Rightarrow> string) \<Rightarrow> 'j ss_input list \<Rightarrow> rcv \<Rightarrow> rcv \<Rightarrow> rcv \<Rightarrow> bool" where
  "tracked J parse sha ins n r0 r \<longleftrightarrow>
     (\<exists>m dir names resume. sizes_ok (m_files m) \<and> rx_Start m dir names resume n = Some (Inr (), r0)) \<and>
     (\<exists>ls. rcv_run sha ls r0 r \<and>
        (\<forall>idx h. LDone idx h \<in> set ls \<longrightarrow> (\<exists>mg. InMessage mg \<in> set ins \<and> file_done_of J parse mg = Some (idx, h))))"

lemma tracked_step:
  assumes "tracked J parse sha ins n r0 r" "rcv_step sha l r r'"
    "\<And>idx h. l = LDone idx h \<Longrightarrow> \<exists>mg. InMessage mg \<in> set ins' \<and> file_done_of J parse mg = Some (idx, h)"
    "set ins \<subseteq> set ins'"
  shows "tracked J parse sha ins' n r0 r'"
proof -
  obtain ls where ls: "rcv_run sha ls r0 r"
    "\<And>idx h. LDone idx h \<in> set ls \<Longrightarrow> \<exists>mg. InMessage mg \<in> set ins \<and> file_done_of J parse mg = Some (idx, h)"
    using assms(1) unfolding tracked_def by blast
  have "rcv_run sha (ls @ [l]) r0 r'" using ls(1) assms(2) by (rule run_step)
  moreover have "\<exists>mg. InMessage mg \<in> set ins' \<and> file_done_of J parse mg = Some (idx, h)"
    if "LDone idx h \<in> set (ls @ [l])" for idx h
    using that ls(2)[of idx h] assms(3)[of idx h] assms(4) by auto
  ultimately show ?thesis using assms(1) unfolding tracked_def by blast
qed

lemma tracked_more: "tracked J parse sha ins n r0 r \<Longrightarrow> set ins \<subseteq> set ins' \<Longrightarrow> tracked J parse sha ins' n r0 r"
  unfolding tracked_def by blast

definition recv_inv :: "'j json_ops \<Rightarrow> (bytes \<Rightarrow> 'j) \<Rightarrow> (bytes \<Rightarrow> string) \<Rightarrow> 'j ss_input list \<Rightarrow> 'j session \<Rightarrow> bool" where
  "recv_inv J parse sha ins s \<longleftrightarrow> \<not> ss_is_sender s \<and> ss_sender s = None \<and> clean_rx (ss_new_rx s) \<and>
     (ss_state s \<noteq> kFailed \<and> ss_state s \<noteq> kCancelled \<longrightarrow>
        (ss_receiver s = None \<longrightarrow> ss_state s \<noteq> kCompleted) \<and>
        (\<forall>r. ss_receiver s = Some r \<longrightarrow> (\<exists>r0. tracked J parse sha ins (ss_new_rx s) r0 r) \<and> (ss_state s = kCompleted \<longrightarrow> r_finished r)))"

text \<open>An operation that gives up, or keeps the receiver and completes only with a finished one.\<close>

definition quiet :: "'j session \<Rightarrow> 'j session \<Rightarrow> bool" where
  "quiet s s' \<longleftrightarrow> ss_is_sender s' = ss_is_sender s \<and> ss_new_rx s' = ss_new_rx s \<and> (ss_sender s = None \<longrightarrow> ss_sender s' = None) \<and>
     (ss_state s' = kFailed \<or> ss_state s' = kCancelled \<or>
      ss_receiver s' = ss_receiver s \<and> (ss_state s' = kCompleted \<longrightarrow> ss_state s = kCompleted \<or> rx_finished s) \<and>
      (ss_state s' = ss_state s \<or> \<not> Terminal (ss_state s)))"

lemma quiet_inv:
  assumes q: "quiet s s'" and v: "recv_inv J parse sha ins s" and sub: "set ins \<subseteq> set ins'"
  shows "recv_inv J parse sha ins' s'"
proof -
  have base: "\<not> ss_is_sender s'" "ss_sender s' = None" "clean_rx (ss_new_rx s')" "ss_new_rx s' = ss_new_rx s"
    using q v by (auto simp: quiet_def recv_inv_def)
  have "(ss_receiver s' = None \<longrightarrow> ss_state s' \<noteq> kCompleted) \<and>
      (\<forall>r. ss_receiver s' = Some r \<longrightarrow> (\<exists>r0. tracked J parse sha ins' (ss_new_rx s') r0 r) \<and> (ss_state s' = kCompleted \<longrightarrow> r_finished r))"
    if st: "ss_state s' \<noteq> kFailed" "ss_state s' \<noteq> kCancelled"
  proof -
    have k: "ss_receiver s' = ss_receiver s" "ss_state s' = kCompleted \<longrightarrow> ss_state s = kCompleted \<or> rx_finished s"
      "ss_state s \<noteq> kFailed" "ss_state s \<noteq> kCancelled"
      using q st by (auto simp: quiet_def Terminal_def)
    then have old: "ss_receiver s = None \<longrightarrow> ss_state s \<noteq> kCompleted"
      "\<And>r. ss_receiver s = Some r \<Longrightarrow> (\<exists>r0. tracked J parse sha ins (ss_new_rx s) r0 r) \<and> (ss_state s = kCompleted \<longrightarrow> r_finished r)"
      using v by (auto simp: recv_inv_def)
    show ?thesis
    proof (cases "ss_receiver s")
      case None
      then show ?thesis using k old(1) by (auto simp: rx_finished_def)
    next
      case (Some r)
      then obtain r0 where "tracked J parse sha ins' (ss_new_rx s') r0 r" using old(2) tracked_more[OF _ sub] base(4) by metis
      then show ?thesis using k old(2)[OF Some] Some by (auto simp: rx_finished_def)
    qed
  qed
  then show ?thesis unfolding recv_inv_def using base(1-3) by blast
qed

lemma quiet_refl [simp]: "quiet s s"
  by (simp add: quiet_def)

lemma quiet_Fail: "quiet s (ss_Fail J jn c m s)"
  by (auto simp: quiet_def ss_Fail_def Let_def stop_engines_def)

lemma quiet_AllDone: "rx_finished s \<Longrightarrow> quiet s (OnReceiverAllDone s)"
  by (auto simp: quiet_def OnReceiverAllDone_def Let_def)

lemma quiet_confirmed: "rx_finished s \<Longrightarrow> quiet s (OnReceiverAllDone (s\<lparr>ss_sender_confirmed := True\<rparr>))"
  by (auto simp: quiet_def OnReceiverAllDone_def Let_def)

lemma quiet_fields: "quiet s (s\<lparr>ss_sender_confirmed := True\<rparr>)" "ss_sender s = None \<Longrightarrow> quiet s (s\<lparr>ss_sender := None\<rparr>)"
  by (simp_all add: quiet_def)

lemma rx_finished_confirm: "rx_finished (s\<lparr>ss_sender_confirmed := b\<rparr>) = rx_finished s"
  by (simp add: rx_finished_def)

lemma quiet_cancel: "quiet s (on_cancel_msg jn s)"
  by (auto simp: quiet_def on_cancel_msg_def stop_engines_def)

lemma quiet_other:
  assumes "ss_handle J jn parse sha em rd i s = Some s'" "enabled i s" "\<And>m. i \<noteq> InMessage m" "\<not> ss_is_sender s" "ss_sender s = None"
  shows "quiet s s'"
proof (cases i)
  case (InEnd reason)
  then show ?thesis using assms by (auto simp: OnSessionEnd_def quiet_Fail intro: quiet_confirmed)
next
  case (InEngineError c m)
  then show ?thesis using assms by (auto simp: quiet_Fail)
next
  case InRxAllDone
  then show ?thesis using assms by (auto simp: enabled_def quiet_AllDone)
next
  case InTxAllDone
  then show ?thesis using assms by (simp add: enabled_def tx_finished_def)
qed (use assms in \<open>auto simp: quiet_def OnTransportReady_def OnTransportDown_def OnPathChanged_def OnProgressTimer_def OnSenderFileDone_def
  OnReceiverFileOk_def OnReceiverFileVerified_def PersistReceiver_def Pause_def Resume_def ss_Cancel_def Let_def
  split: if_splits\<close>)

lemma rx_Start_sel: "rx_Start m dir names resume n = Some (Inr u, r) \<Longrightarrow> clean_rx n \<Longrightarrow> sizes_ok (m_files m) \<Longrightarrow>
   tracked J parse sha ins n r r"
  using run_nil[of sha r] unfolding tracked_def by (metis empty_iff empty_set old.unit.exhaust)

lemma start_receiver_inv:
  assumes "start_receiver J jn st s = Some s'" "recv_inv J parse sha ins s" "ss_receiver s = None"
    "sizes_ok (m_files (ss_manifest s))"
  shows "recv_inv J parse sha ins s'"
proof -
  obtain res r where st: "rx_Start (ss_manifest s) (ss_save_dir s) (map_of (ss_names s)) st (ss_new_rx s) = Some (res, r)"
    using assms(1) by (auto simp: start_receiver_def split: bind_splits)
  show ?thesis
  proof (cases res)
    case (Inl err)
    then have "s' = ss_Fail J jn ''start'' err (s\<lparr>ss_receiver := Some r\<rparr>)" using assms(1) st by (simp add: start_receiver_def)
    then show ?thesis using assms(2,3) by (auto simp: recv_inv_def ss_Fail_def Let_def stop_engines_def Terminal_def)
  next
    case (Inr u)
    have c: "clean_rx (ss_new_rx s)" using assms(2) by (simp add: recv_inv_def)
    have "tracked J parse sha ins (ss_new_rx s) r r" by (rule rx_Start_sel[OF st[unfolded Inr] c assms(4)])
    then show ?thesis using assms(1-3) st Inr
      by (auto simp: start_receiver_def recv_inv_def Terminal_def split: bind_splits if_splits)
  qed
qed

lemma FromJson_sizes: "FromJson J j = Done m \<Longrightarrow> sizes_ok (m_files m)"
  by (drule FromJson_sound) (simp add: manifest_ok_def)

lemma HandleOffer_inv:
  assumes "HandleOffer J jn sha rd j s = Some s'" "recv_inv J parse sha ins s"
  shows "recv_inv J parse sha ins s'"
proof (cases "ss_receiver s")
  case (Some r)
  then show ?thesis using assms by (simp add: HandleOffer_def)
next
  case None
  have ns: "\<not> ss_is_sender s" using assms(2) by (simp add: recv_inv_def)
  have F: "recv_inv J parse sha ins (ss_Fail J jn c m s)" for c m by (rule quiet_inv[OF quiet_Fail assms(2)]) simp
  show ?thesis
  proof (cases "\<exists>mj m. j_find J j ''manifest'' = Some mj \<and> FromJson J mj = Done m")
    case False
    then show ?thesis using assms(1) None ns F by (auto simp: HandleOffer_def split: option.splits outcome.splits)
  next
    case True
    then obtain mj m where m: "j_find J j ''manifest'' = Some mj" "FromJson J mj = Done m" by blast
    have m1: "recv_inv J parse sha ins (s\<lparr>ss_manifest := m\<rparr>)" using assms(2) by (simp add: recv_inv_def)
    show ?thesis
    proof (cases "ss_save_dir s = []")
      case True
      then show ?thesis using assms(1) None ns m quiet_inv[OF quiet_Fail m1 subset_refl] by (auto simp: HandleOffer_def Let_def)
    next
      case False
      let ?s2 = "upd_snap (\<lambda>p. p\<lparr>sn_bytes_total := m_total_bytes m, sn_files_total := of_nat (length (m_files m))\<rparr>) (s\<lparr>ss_manifest := m\<rparr>)"
      obtain st rec names where r: "start_receiver J jn st (?s2\<lparr>ss_resume := rec, ss_names := names\<rparr>) = Some s'"
        using assms(1) None ns m False by (auto simp: HandleOffer_def Let_def split: bind_splits)
      show ?thesis
        by (rule start_receiver_inv[OF r]) (use assms(2) None FromJson_sizes[OF m(2)] in \<open>simp_all add: recv_inv_def\<close>)
    qed
  qed
qed

lemma file_done_inv:
  assumes "on_file_done_msg J j s = Some s'" "ParseCtrlMessage J parse mg = Some (j, ''file_done'')" "recv_inv J parse sha ins s"
  shows "recv_inv J parse sha (ins @ [InMessage mg]) s'"
proof (cases "s' = s")
  case True
  then show ?thesis using quiet_inv[OF quiet_refl assms(3), of "ins @ [InMessage mg]"] by auto
next
  case False
  then obtain r i h k hash where d: "ss_receiver s = Some r" "j_find J j ''index'' = Some i" "j_find J j ''sha256'' = Some h"
    "j_get_u64 J i = Some k" "j_get_string J h = Some hash" "s' = s\<lparr>ss_receiver := Some (OnFileDone (ucast k) hash r)\<rparr>"
    using assms(1) by (auto simp: on_file_done_msg_def split: option.splits if_splits bind_splits)
  have "file_done_of J parse mg = Some (ucast k, hash)" using d assms(2) by (simp add: file_done_of_def)
  then have "tracked J parse sha (ins @ [InMessage mg]) n r0 (OnFileDone (ucast k) hash r)" if "tracked J parse sha ins n r0 r" for n r0
    using tracked_step[OF that step_done[of sha "ucast k" hash], of "ins @ [InMessage mg]"] by auto
  moreover have "r_finished (OnFileDone (ucast k) hash r) = r_finished r" by (simp add: OnFileDone_def)
  ultimately show ?thesis using assms(3) d(1) by (fastforce simp: recv_inv_def d(6))
qed

lemma message_inv:
  assumes "OnCtrlMessage J jn parse sha rd mg s = Some s'" "recv_inv J parse sha ins s"
  shows "recv_inv J parse sha (ins @ [InMessage mg]) s'"
proof (cases "ParseCtrlMessage J parse mg")
  case None
  then show ?thesis using assms quiet_inv[OF quiet_refl assms(2), of "ins @ [InMessage mg]"] by (auto simp: OnCtrlMessage_def)
next
  case (Some p)
  then obtain j type where p: "ParseCtrlMessage J parse mg = Some (j, type)" by (cases p) auto
  then have d: "dispatch_ctrl J jn sha rd j type s = Some s'" using assms(1) by (simp add: OnCtrlMessage_def)
  have ns: "\<not> ss_is_sender s" "ss_sender s = None" using assms(2) by (auto simp: recv_inv_def)
  consider "type = ''offer''" | "type = ''file_done''" | "type \<noteq> ''offer''" "type \<noteq> ''file_done''" by blast
  then show ?thesis
  proof cases
    case 1
    then have "recv_inv J parse sha ins s'" using d HandleOffer_inv[OF _ assms(2)] by (simp add: dispatch_ctrl_def)
    then show ?thesis by (rule quiet_inv[OF quiet_refl]) auto
  next
    case 2
    then show ?thesis using d p file_done_inv[OF _ _ assms(2), of j s' mg] by (simp add: dispatch_ctrl_def)
  next
    case 3
    have "quiet s s'" using d 3 ns
      by (auto simp: dispatch_ctrl_def HandleAccept_def HandleFileAck_def Let_def quiet_Fail quiet_cancel rx_finished_confirm
          intro!: quiet_confirmed quiet_fields split: if_splits option.splits)
    then show ?thesis by (rule quiet_inv[OF _ assms(2)]) auto
  qed
qed

lemma recv_step_inv:
  assumes "recv_inv J parse sha ins s" "ss_receiver s = Some r" "rcv_step sha l r r'" "\<And>idx h. l \<noteq> LDone idx h"
    "r_finished r \<Longrightarrow> r_finished r'"
  shows "recv_inv J parse sha ins (s\<lparr>ss_receiver := Some r'\<rparr>)"
proof -
  have "tracked J parse sha ins n r0 r'" if "tracked J parse sha ins n r0 r" for n r0
    by (rule tracked_step[OF that assms(3)]) (use assms(4) in auto)
  then have "\<exists>r0. tracked J parse sha ins n r0 r'" if "\<exists>r0. tracked J parse sha ins n r0 r" for n using that by blast
  then show ?thesis using assms(1,2,5) by (simp add: recv_inv_def)
qed

lemma writer_keeps_finished: "rcv_step sha l r r' \<Longrightarrow> writer_label l \<Longrightarrow> fin_ok r \<Longrightarrow> r_finished r \<Longrightarrow> r_finished r'"
  by (auto simp: writer_label_def fin_ok_def elim!: rcv_stepE)

lemma make_dirs_fin: "make_dirs names ds r = (res, r') \<Longrightarrow> r_finished r' = r_finished r"
  by (induction names ds r rule: make_dirs.induct) (auto simp: Let_def split: prod.splits sum.splits)

lemma resume_rx_fin: "resume_rx rs f r = Some r' \<Longrightarrow> r_finished r' = r_finished r"
  by (auto simp: resume_rx_def push_rx_def Let_def split: bind_splits)

lemma start_file_fin: "start_file names resume i mf r = Some (res, r') \<Longrightarrow> r_finished r' = r_finished r"
  by (auto simp: start_file_def push_rx_def Let_def dest!: resume_rx_fin
      split: if_splits prod.splits sum.splits bind_splits option.splits bool.splits)

lemma start_files_fin: "start_files names resume i mfs r = Some (res, r') \<Longrightarrow> r_finished r' = r_finished r"
proof (induction mfs arbitrary: i r)
  case (Cons mf mfs)
  then obtain res1 r1 where s: "start_file names resume i mf r = Some (res1, r1)" by (auto split: bind_splits)
  then have "r_finished r1 = r_finished r" by (rule start_file_fin)
  then show ?case using Cons s by (cases res1) auto
qed simp

lemma rx_Start_clean: "rx_Start m dir names resume n = Some (Inr u, r) \<Longrightarrow> r_finished r = r_finished n"
  by (auto simp: rx_Start_def Let_def dest!: make_dirs_fin start_files_fin split: if_splits prod.splits sum.splits bind_splits)

lemma tracked_fin: "tracked J parse sha ins n r0 r \<Longrightarrow> clean_rx n \<Longrightarrow> fin_ok r"
  unfolding tracked_def using finished_run rx_Start_clean by (metis clean_rx_def fin_ok_def)

lemma ss_run_inv:
  assumes "ss_run J parse sha em ins s0 s" "receiving_session s0"
  shows "recv_inv J parse sha ins s"
  using assms
proof (induction rule: ss_run.induct)
  case (ss_nil s)
  then show ?case by (simp add: receiving_session_def recv_inv_def)
next
  case (ss_input ins s0 s i jn rd s')
  then have v: "recv_inv J parse sha ins s" by blast
  show ?case
  proof (cases "\<exists>m. i = InMessage m")
    case True
    then show ?thesis using ss_input.hyps(4) message_inv[OF _ v] by auto
  next
    case False
    then have "quiet s s'" using quiet_other[OF ss_input.hyps(4,2)] v by (auto simp: recv_inv_def)
    then show ?thesis by (rule quiet_inv[OF _ v]) auto
  qed
next
  case (ss_block ins s0 s r data)
  show ?case by (rule recv_step_inv[OF ss_block.IH[OF ss_block.prems] ss_block.hyps(2) step_block[of sha data]])
      (auto simp: OnBlock_def split: option.splits)
next
  case (ss_writer ins s0 s r l r')
  then have v: "recv_inv J parse sha ins s" by blast
  show ?case
  proof (cases "ss_state s = kFailed \<or> ss_state s = kCancelled")
    case True
    then show ?thesis using v by (auto simp: recv_inv_def)
  next
    case False
    then have "fin_ok r" using v ss_writer.hyps(2) tracked_fin unfolding recv_inv_def by blast
    then show ?thesis using ss_writer.hyps(3,4)
      by (intro recv_step_inv[OF v ss_writer.hyps(2,4)]) (auto simp: writer_label_def intro: writer_keeps_finished)
  qed
next
  case (ss_sender_thread ins s0 s t t')
  then show ?case by (simp add: recv_inv_def)
next
  case (ss_sack ins s0 s t data)
  then show ?case by (simp add: recv_inv_def)
qed

text \<open>C2. A receiving session reaches the state completed only when its receiver has verified every file, whatever the
peer sends.  When no part or final path coincides with another, each of these files was verified by an earlier
session or now holds contents whose hash the peer has announced for that file in a \<^verbatim>\<open>file_done\<close> message.\<close>

theorem completed_session_is_verified:
  assumes "ss_run J parse sha em ins s0 s" "receiving_session s0" "ss_state s = kCompleted"
  shows "\<exists>r r0. ss_receiver s = Some r \<and> tracked J parse sha ins (ss_new_rx s) r0 r \<and> AllVerified r \<and>
    (paths_ok (r_rx r0) \<longrightarrow> (\<forall>i<length (r_rx r). i < length (r_rx r0) \<and> rx_verified (r_rx r0 ! i) \<or>
       (\<exists>c idx m. w_files (r_world r) (rx_final_path (r_rx r ! i)) = Some c \<and> InMessage m \<in> set ins \<and>
          file_done_of J parse m = Some (idx, sha c) \<and> unat idx = i)))"
proof -
  have v: "recv_inv J parse sha ins s" by (rule ss_run_inv[OF assms(1,2)])
  obtain r where r: "ss_receiver s = Some r" using v assms(3) by (cases "ss_receiver s") (auto simp: recv_inv_def)
  obtain r0 where t: "tracked J parse sha ins (ss_new_rx s) r0 r" "r_finished r" using v r assms(3) by (auto simp: recv_inv_def)
  have c: "clean_rx (ss_new_rx s)" using v by (simp add: recv_inv_def)
  then have av: "AllVerified r" using tracked_fin[OF t(1)] t(2) by (simp add: fin_ok_def)
  have "i < length (r_rx r0) \<and> rx_verified (r_rx r0 ! i) \<or>
       (\<exists>c idx m. w_files (r_world r) (rx_final_path (r_rx r ! i)) = Some c \<and> InMessage m \<in> set ins \<and>
          file_done_of J parse m = Some (idx, sha c) \<and> unat idx = i)"
    if p: "paths_ok (r_rx r0)" and i: "i < length (r_rx r)" for i
  proof -
    obtain m dir names resume ls where s: "sizes_ok (m_files m)" "rx_Start m dir names resume (ss_new_rx s) = Some (Inr (), r0)"
      and ls: "rcv_run sha ls r0 r"
      "\<And>idx h. LDone idx h \<in> set ls \<Longrightarrow> \<exists>mg. InMessage mg \<in> set ins \<and> file_done_of J parse mg = Some (idx, h)"
      using t(1) unfolding tracked_def by blast
    have ready: "rx_ready r0" by (rule rx_Start_ready[OF s(2,1) _ _ p]) (use c in \<open>simp_all add: clean_rx_def\<close>)
    have "rx_verified (r_rx r ! i)" using av i by (simp add: AllVerified_def list_all_length)
    then show ?thesis using announced_verified[OF ls(1) ready i] ls(2) by meson
  qed
  then show ?thesis using r t(1) av by blast
qed

end
