(* ===== verification/Session_Props.thy ===== *)
theory Session_Props
  imports Session_Runs End_To_End
begin

text \<open>
  Further properties of transfer sessions: completion on the sending side, the documents the two sides exchange and
  store, and concrete sessions that exercise the properties.
\<close>

unbundle bit_operations_syntax

section \<open>Completion of a sending session\<close>

text \<open>The files a ctrl message confirms: the file of a \<^verbatim>\<open>file_ok\<close>, the verified files of an \<^verbatim>\<open>accept\<close>.\<close>

definition confirms :: "'j json_ops \<Rightarrow> (bytes \<Rightarrow> 'j) \<Rightarrow> nat \<Rightarrow> bytes \<Rightarrow> u16 list" where
  "confirms J parse n m =
     (case ParseCtrlMessage J parse m of None \<Rightarrow> []
      | Some (j, type) \<Rightarrow>
          if type = ''file_ok'' then
            (case Option.bind (j_find J j ''index'') (j_get_u64 J) of None \<Rightarrow> [] | Some k \<Rightarrow> [ucast k])
          else if type = ''accept'' then
            (case read_accept J n (accept_entries J j) [] [] of None \<Rightarrow> [] | Some (_, verified) \<Rightarrow> verified)
          else [])"

definition confirmed :: "'j json_ops \<Rightarrow> (bytes \<Rightarrow> 'j) \<Rightarrow> nat \<Rightarrow> 'j ss_input list \<Rightarrow> nat \<Rightarrow> bool" where
  "confirmed J parse n ins i \<longleftrightarrow> (\<exists>m idx. InMessage m \<in> set ins \<and> idx \<in> set (confirms J parse n m) \<and> unat idx = i)"

lemma confirmed_more: "confirmed J parse n ins i \<Longrightarrow> set ins \<subseteq> set ins' \<Longrightarrow> confirmed J parse n ins' i"
  unfolding confirmed_def by blast

lemma mark_verified_one: "oks (mark_verified v t) = (oks t)[unat v := True]" "s_finished (mark_verified v t) = s_finished t"
  by (auto simp: mark_verified_def upd_tx_def map_update list_update_beyond)

lemma mark_verified_oks: "oks (fold mark_verified vs t) = fold (\<lambda>v l. l[unat v := True]) vs (oks t) \<and>
    s_finished (fold mark_verified vs t) = s_finished t"
  by (induction vs arbitrary: t) (simp_all add: mark_verified_one)

lemma fold_update: "fold (\<lambda>v l. l[unat v := True]) vs l ! i \<Longrightarrow> i < length l \<Longrightarrow> l ! i \<or> (\<exists>v\<in>set vs. unat v = i)"
  by (induction vs arbitrary: l) (force simp: nth_list_update split: if_splits)+

lemma fold_update_length: "length (fold (\<lambda>v l. l[unat v := True]) vs l) = length l"
  by (induction vs arbitrary: l) simp_all

lemma new_tx_ok: "tf_ok (new_tx have i mf p) = False"
  by (simp add: new_tx_def Let_def)

lemma tx_Start_oks:
  assumes "tx_Start m files have verified t = (Inr u, t')"
  shows "length (s_tx t') = length (m_files m)" "s_finished t' = s_finished t"
    "i < length (s_tx t') \<Longrightarrow> tf_ok (s_tx t' ! i) \<Longrightarrow> \<exists>v\<in>set verified. unat v = i"
proof -
  let ?s1 = "t\<lparr>s_manifest := m, s_tx := map (\<lambda>(i, mf, p). new_tx have i mf p) (zip [0..<length files] (zip (m_files m) files))\<rparr>"
  have l: "length files = length (m_files m)" using assms by (auto simp: tx_Start_def split: if_splits)
  have e: "s_tx t' = s_tx (fold mark_verified verified ?s1)" "s_finished t' = s_finished t"
    using assms by (auto simp: tx_Start_def Let_def mark_verified_oks split: if_splits)
  have "oks ?s1 = replicate (length (m_files m)) False"
    using l by (simp add: comp_def case_prod_beta new_tx_ok map_replicate_const)
  then have o: "oks t' = fold (\<lambda>v l. l[unat v := True]) verified (replicate (length (m_files m)) False)"
    unfolding e(1) using mark_verified_oks[of verified ?s1] by simp
  from arg_cong[OF this, of length] show len: "length (s_tx t') = length (m_files m)" by (simp add: fold_update_length)
  show "s_finished t' = s_finished t" by (rule e(2))
  show "\<exists>v\<in>set verified. unat v = i" if i: "i < length (s_tx t')" "tf_ok (s_tx t' ! i)"
    using fold_update[of verified "replicate (length (m_files m)) False" i] i o len by (metis length_replicate nth_map nth_replicate)
qed

text \<open>The engine as far as completion is concerned: its confirmations come from messages, and it is done only when
all files are confirmed.\<close>

definition tx_conf :: "'j json_ops \<Rightarrow> (bytes \<Rightarrow> 'j) \<Rightarrow> 'j ss_input list \<Rightarrow> nat \<Rightarrow> bool list \<Rightarrow> bool \<Rightarrow> bool" where
  "tx_conf J parse ins n ok fin \<longleftrightarrow> length ok = n \<and> (fin \<longrightarrow> list_all id ok) \<and> (\<forall>i<n. ok ! i \<longrightarrow> confirmed J parse n ins i)"

definition send_inv :: "'j json_ops \<Rightarrow> (bytes \<Rightarrow> 'j) \<Rightarrow> 'j ss_input list \<Rightarrow> nat \<Rightarrow> 'j session \<Rightarrow> bool" where
  "send_inv J parse ins n s \<longleftrightarrow> ss_is_sender s \<and> ss_receiver s = None \<and> length (m_files (ss_manifest s)) = n \<and> \<not> s_finished (ss_new_tx s) \<and>
     s_inflight (ss_new_tx s) = [] \<and> sizes_ok (m_files (ss_manifest s)) \<and> (ss_sender s \<noteq> None \<longrightarrow> ss_accept_received s) \<and>
     (ss_state s \<noteq> kFailed \<and> ss_state s \<noteq> kCancelled \<longrightarrow>
        (\<forall>t. ss_sender s = Some t \<longrightarrow> tx_conf J parse ins n (oks t) (s_finished t)) \<and>
        (ss_state s = kCompleted \<longrightarrow> (\<exists>t. ss_sender s = Some t \<and> list_all tf_ok (s_tx t))))"

definition calm :: "'j session \<Rightarrow> 'j session \<Rightarrow> bool" where
  "calm s s' \<longleftrightarrow> ss_is_sender s' = ss_is_sender s \<and> ss_manifest s' = ss_manifest s \<and> ss_new_tx s' = ss_new_tx s \<and> (ss_receiver s = None \<longrightarrow> ss_receiver s' = None) \<and>
     ss_accept_received s' = ss_accept_received s \<and> (ss_sender s' = None \<longleftrightarrow> ss_sender s = None) \<and>
     (ss_state s' = kFailed \<or> ss_state s' = kCancelled \<or>
      map_option (\<lambda>t. (s_tx t, s_finished t)) (ss_sender s') = map_option (\<lambda>t. (s_tx t, s_finished t)) (ss_sender s) \<and>
      (ss_state s' = kCompleted \<longrightarrow> ss_state s = kCompleted \<or> tx_finished s) \<and>
      (ss_state s' = ss_state s \<or> \<not> Terminal (ss_state s)))"

lemma calm_inv:
  assumes c: "calm s s'" and v: "send_inv J parse ins n s" and sub: "set ins \<subseteq> set ins'"
  shows "send_inv J parse ins' n s'"
proof -
  have base: "ss_is_sender s'" "ss_receiver s' = None" "length (m_files (ss_manifest s')) = n" "\<not> s_finished (ss_new_tx s')"
    "s_inflight (ss_new_tx s') = []" "sizes_ok (m_files (ss_manifest s'))" "ss_sender s' \<noteq> None \<longrightarrow> ss_accept_received s'" using c v by (auto simp: calm_def send_inv_def)
  have "(\<forall>t. ss_sender s' = Some t \<longrightarrow> tx_conf J parse ins' n (oks t) (s_finished t)) \<and>
        (ss_state s' = kCompleted \<longrightarrow> (\<exists>t. ss_sender s' = Some t \<and> list_all tf_ok (s_tx t)))"
    if st: "ss_state s' \<noteq> kFailed" "ss_state s' \<noteq> kCancelled"
  proof -
    have k: "map_option (\<lambda>t. (s_tx t, s_finished t)) (ss_sender s') = map_option (\<lambda>t. (s_tx t, s_finished t)) (ss_sender s)"
      "ss_state s' = kCompleted \<longrightarrow> ss_state s = kCompleted \<or> tx_finished s" "ss_state s \<noteq> kFailed" "ss_state s \<noteq> kCancelled"
      using c st by (auto simp: calm_def Terminal_def)
    then have old: "\<And>t. ss_sender s = Some t \<Longrightarrow> tx_conf J parse ins n (oks t) (s_finished t)"
      "ss_state s = kCompleted \<Longrightarrow> \<exists>t. ss_sender s = Some t \<and> list_all tf_ok (s_tx t)"
      using v by (auto simp: send_inv_def)
    show ?thesis
    proof (cases "ss_sender s")
      case None
      then show ?thesis using k old(2) by (auto simp: tx_finished_def)
    next
      case (Some t)
      then obtain t' where t': "ss_sender s' = Some t'" "s_tx t' = s_tx t" "s_finished t' = s_finished t" using k(1) by auto
      have "tx_conf J parse ins' n (oks t') (s_finished t')" using old(1)[OF Some] sub t'
        unfolding tx_conf_def by (auto intro: confirmed_more)
      moreover have "list_all tf_ok (s_tx t')" if "ss_state s' = kCompleted"
        using that k(2) old Some t' by (auto simp: tx_finished_def tx_conf_def list.pred_map)
      ultimately show ?thesis using t'(1) by simp
    qed
  qed
  then show ?thesis unfolding send_inv_def using base by blast
qed

lemma calm_refl [simp]: "calm s s"
  by (simp add: calm_def)

lemma calm_Fail: "calm s (ss_Fail J jn c m s)"
  by (auto simp: calm_def ss_Fail_def Let_def stop_engines_def)

lemma calm_cancel: "calm s (on_cancel_msg jn s)"
  by (auto simp: calm_def on_cancel_msg_def stop_engines_def)

lemma calm_pause: "calm s (s\<lparr>ss_sender := map_option (SetPaused b) (ss_sender s)\<rparr>)"
  by (auto simp: calm_def SetPaused_def option.map_comp comp_def)

lemma calm_other:
  assumes "ss_handle J jn parse sha em rd i s = Some s'" "enabled i s" "\<And>m. i \<noteq> InMessage m" "ss_is_sender s" "ss_receiver s = None"
  shows "calm s s'"
proof (cases i)
  case (InReady path)
  then show ?thesis using assms by (auto simp: calm_def OnTransportReady_def StartOffer_def ss_Fail_def stop_engines_def Let_def split: if_splits)
next
  case (InEnd reason)
  then show ?thesis using assms by (auto simp: OnSessionEnd_def calm_Fail)
next
  case (InEngineError c m)
  then show ?thesis using assms by (auto simp: calm_Fail)
next
  case InTxAllDone
  then show ?thesis using assms by (auto simp: enabled_def calm_def OnSenderAllDone_def split: if_splits)
next
  case InRxAllDone
  then show ?thesis using assms by (simp add: enabled_def rx_finished_def)
qed (use assms in \<open>auto simp: calm_def OnTransportDown_def OnPathChanged_def OnProgressTimer_def OnSenderFileDone_def SetPaused_def
  OnReceiverFileOk_def OnReceiverFileVerified_def PersistReceiver_def Pause_def Resume_def ss_Cancel_def Let_def option.map_comp comp_def
  split: if_splits\<close>)

lemma nth_upd_True: "i < length l \<Longrightarrow> l[k := True] ! i \<longleftrightarrow> l ! i \<or> i = k"
  by (cases "k = i") auto

lemma list_all_upd: "list_all id l \<Longrightarrow> list_all id (l[k := True])"
  by (simp add: list_all_length nth_upd_True)

lemma ack_inv:
  assumes "HandleFileAck J j ok s = Some s'" "ParseCtrlMessage J parse mg = Some (j, if ok then ''file_ok'' else ''file_bad'')"
    "send_inv J parse ins n s"
  shows "send_inv J parse (ins @ [InMessage mg]) n s'"
proof -
  let ?ins = "ins @ [InMessage mg]"
  have v: "send_inv J parse ?ins n s" by (rule calm_inv[OF calm_refl assms(3)]) auto
  show ?thesis
  proof (cases "s' = s")
    case False
    then obtain t i k where d: "ss_sender s = Some t" "j_find J j ''index'' = Some i" "j_get_u64 J i = Some k"
      using assms(1) by (auto simp: HandleFileAck_def Let_def split: option.splits if_splits bind_splits)
    define idx where "idx = (ucast k :: u16)"
    have s': "ok \<and> s' = s\<lparr>ss_file_ok := (ss_file_ok s)[unat idx := True], ss_sender := Some (OnFileOk idx t)\<rparr> \<or>
        \<not> ok \<and> s' = s\<lparr>ss_sender := Some (OnFileBad idx t)\<rparr>"
      using assms(1) False d by (auto simp: HandleFileAck_def Let_def idx_def split: if_splits)
    have c: "confirmed J parse n ?ins (unat idx)" if ok
    proof -
      have "idx \<in> set (confirms J parse n mg)" using that assms(2) d by (simp add: confirms_def idx_def)
      then show ?thesis unfolding confirmed_def by (intro exI[of _ mg] exI[of _ idx]) simp
    qed
    have "tx_conf J parse ?ins n (if ok then (oks t)[unat idx := True] else oks t) (s_finished t)"
      if "tx_conf J parse ?ins n (oks t) (s_finished t)"
      using that c by (auto simp: tx_conf_def list_all_length nth_upd_True)
    moreover have e: "oks (the (ss_sender s')) = (if ok then (oks t)[unat idx := True] else oks t)"
      "s_finished (the (ss_sender s')) = s_finished t" using s' by (auto simp: OnFileOk_oks OnFileBad_oks)
    ultimately have "tx_conf J parse ?ins n (oks (the (ss_sender s'))) (s_finished (the (ss_sender s')))"
      if "tx_conf J parse ?ins n (oks t) (s_finished t)" using that unfolding e by blast
    moreover have "list_all id (oks (the (ss_sender s')))" if "list_all id (oks t)"
      using that list_all_upd unfolding e by simp
    ultimately show ?thesis using v d(1) s' by (auto simp: send_inv_def list.pred_map comp_def)
  qed (use v in simp)
qed

lemma accept_inv:
  assumes "HandleAccept J jn j s = Some s'" "ParseCtrlMessage J parse mg = Some (j, ''accept'')" "send_inv J parse ins n s"
  shows "send_inv J parse (ins @ [InMessage mg]) n s'"
proof -
  let ?ins = "ins @ [InMessage mg]"
  have v: "send_inv J parse ?ins n s" by (rule calm_inv[OF calm_refl assms(3)]) auto
  show ?thesis
  proof (cases "ss_accept_received s")
    case False
    have n: "ss_is_sender s" "length (m_files (ss_manifest s)) = n" "\<not> s_finished (ss_new_tx s)" using v by (simp_all add: send_inv_def)
    obtain hv verified where ra: "read_accept J n (accept_entries J j) [] [] = Some (hv, verified)"
      using assms(1) False n by (auto simp: HandleAccept_def Let_def split: bind_splits)
    obtain res t where st: "tx_Start (ss_manifest s) (ss_files s) (map_of hv) verified (ss_new_tx s) = (res, t)" by fastforce
    show ?thesis
    proof (cases res)
      case (Inl err)
      then have "s' = ss_Fail J jn ''start'' err (s\<lparr>ss_accept_received := True, ss_sender := Some t\<rparr>)"
        using assms(1) False n ra st by (simp add: HandleAccept_def)
      then show ?thesis using v False by (auto simp: send_inv_def ss_Fail_def Let_def stop_engines_def Terminal_def)
    next
      case (Inr u)
      have s': "s' = EmitProgress False (SetState kTransferring
          (s\<lparr>ss_accept_received := True, ss_sender := Some t, ss_file_ok := mark_ok verified (ss_file_ok s)\<rparr>))"
        using assms(1) False n ra st Inr by (simp add: HandleAccept_def)
      note t = tx_Start_oks[OF st[unfolded Inr]]
      have "confirmed J parse n ?ins i" if p: "i < n" "tf_ok (s_tx t ! i)" for i
      proof -
        obtain w where w: "w \<in> set verified" "unat w = i" using t(1) t(3)[of i] p n(2) by auto
        have "w \<in> set (confirms J parse n mg)" using w(1) ra assms(2) by (simp add: confirms_def)
        then show ?thesis using w(2) unfolding confirmed_def by (intro exI[of _ mg] exI[of _ w]) simp
      qed
      then have "tx_conf J parse ?ins n (oks t) (s_finished t)" using t(1,2) n by (simp add: tx_conf_def)
      then show ?thesis using v s' False by (auto simp: send_inv_def Terminal_def split: if_splits)
    qed
  qed (use assms(1) v in \<open>simp add: HandleAccept_def\<close>)
qed

lemma send_message_inv:
  assumes "OnCtrlMessage J jn parse sha rd mg s = Some s'" "send_inv J parse ins n s"
  shows "send_inv J parse (ins @ [InMessage mg]) n s'"
proof (cases "ParseCtrlMessage J parse mg")
  case None
  then show ?thesis using assms calm_inv[OF calm_refl assms(2), of "ins @ [InMessage mg]"] by (auto simp: OnCtrlMessage_def)
next
  case (Some p)
  then obtain j type where p: "ParseCtrlMessage J parse mg = Some (j, type)" by (cases p) auto
  then have d: "dispatch_ctrl J jn sha rd j type s = Some s'" using assms(1) by (simp add: OnCtrlMessage_def)
  have ns: "ss_is_sender s" "ss_receiver s = None" using assms(2) by (auto simp: send_inv_def)
  consider "type = ''accept''" | "type = ''file_ok''" | "type = ''file_bad''"
    | "type \<noteq> ''accept''" "type \<noteq> ''file_ok''" "type \<noteq> ''file_bad''" by blast
  then show ?thesis
  proof cases
    case 1
    then show ?thesis using d p accept_inv[OF _ _ assms(2), of jn j s' mg] by (simp add: dispatch_ctrl_def)
  next
    case 2
    then show ?thesis using d p ack_inv[OF _ _ assms(2), of j True s' mg] by (simp add: dispatch_ctrl_def)
  next
    case 3
    then show ?thesis using d p ack_inv[OF _ _ assms(2), of j False s' mg] by (simp add: dispatch_ctrl_def)
  next
    case 4
    have "calm s s'" using d 4 ns
      by (auto simp: dispatch_ctrl_def HandleOffer_def on_file_done_msg_def calm_Fail calm_cancel calm_pause Let_def
          split: if_splits option.splits)
    then show ?thesis by (rule calm_inv[OF _ assms(2)]) auto
  qed
qed

text \<open>
  A move of the thread keeps the confirmations as the session has left them, since \<^verbatim>\<open>Run\<close> itself confirms nothing, and ends
  with the finished flag only when every file is confirmed.
\<close>

lemma sender_thread_oks:
  assumes "sender_thread sha m files new t t'" "s_inflight new = []" "\<not> s_finished new" "sizes_ok (m_files m)"
  shows "oks t' = oks t" "s_finished t' \<longrightarrow> list_all tf_ok (s_tx t')"
proof -
  obtain hv verified t0 es e u where st: "tx_Start m files hv verified new = (Inr (), t0)"
    and u: "tx_Run sha (t0\<lparr>s_env := es\<rparr>) = (Starved, u)" "s_env u = []" "t = fold apply_act (e_acts e) u"
    and t': "t' = snd (tx_Run sha (t0\<lparr>s_env := es @ [e]\<rparr>))" "s_env t' = []"
    using assms(1) by (auto simp: sender_thread_def)
  have ok: "inflight_ok (t0\<lparr>s_env := x\<rparr>)" "tx_files_ok (t0\<lparr>s_env := x\<rparr>)" "\<not> s_finished (t0\<lparr>s_env := x\<rparr>)" for x
    using tx_Start_files[OF st] tx_Start_oks(2)[OF st] assms(2-4)
    by (simp_all add: inflight_ok_def tx_files_ok_def list_all_length sizes_ok_def)
  have "oks u = fold ok_of (polled es) (oks t0)" "oks t' = fold ok_of (polled (es @ [e])) (oks t0)"
    using tx_Run_oks[OF ok(1,2), of sha es] tx_Run_oks[OF ok(1,2), of sha "es @ [e]"] u t' by simp_all
  then show "oks t' = oks t" by (simp add: u(3) oks_acts polled_def)
  show "s_finished t' \<longrightarrow> list_all tf_ok (s_tx t')" using tx_Run_finished[OF ok, of sha "es @ [e]"] t'(1) by simp
qed

lemma sender_thread_conf:
  assumes "tx_conf J parse ins n (oks t) fin" "oks t' = oks t" "s_finished t' \<longrightarrow> list_all tf_ok (s_tx t')"
  shows "tx_conf J parse ins n (oks t') (s_finished t')" "list_all tf_ok (s_tx t) \<Longrightarrow> list_all tf_ok (s_tx t')"
proof -
  have l: "list_all id (oks u) = list_all tf_ok (s_tx u)" for u by (simp add: list.pred_map comp_def)
  show "tx_conf J parse ins n (oks t') (s_finished t')" using assms l[of t'] unfolding tx_conf_def by simp
  show "list_all tf_ok (s_tx t) \<Longrightarrow> list_all tf_ok (s_tx t')" using assms(2) l[of t] l[of t'] by simp
qed

text \<open>A sending session before the ctrl link is up, with a manifest of admissible file sizes and an engine never started.\<close>

definition sending_session :: "'j session \<Rightarrow> bool" where
  "sending_session s \<longleftrightarrow> ss_is_sender s \<and> ss_state s = kConnecting \<and> ss_receiver s = None \<and> ss_sender s = None \<and>
     \<not> s_finished (ss_new_tx s) \<and> s_inflight (ss_new_tx s) = [] \<and> sizes_ok (m_files (ss_manifest s))"

lemma ss_run_send_inv:
  assumes "ss_run J parse sha em ins s0 s" "sending_session s0"
  shows "send_inv J parse ins (length (m_files (ss_manifest s0))) s"
  using assms
proof (induction rule: ss_run.induct)
  case (ss_nil s)
  then show ?case by (simp add: sending_session_def send_inv_def)
next
  case (ss_input ins s0 s i jn rd s')
  let ?n = "length (m_files (ss_manifest s0))"
  have v: "send_inv J parse ins ?n s" using ss_input by blast
  show ?case
  proof (cases "\<exists>m. i = InMessage m")
    case True
    then show ?thesis using ss_input.hyps(4) send_message_inv[OF _ v] by auto
  next
    case False
    then have "calm s s'" using calm_other[OF ss_input.hyps(4,2)] v by (auto simp: send_inv_def)
    then show ?thesis by (rule calm_inv[OF _ v]) auto
  qed
next
  case (ss_sender_thread ins s0 s t t')
  let ?n = "length (m_files (ss_manifest s0))"
  have v: "send_inv J parse ins ?n s" using ss_sender_thread by blast
  then have "oks t' = oks t" "s_finished t' \<longrightarrow> list_all tf_ok (s_tx t')"
    using sender_thread_oks[OF ss_sender_thread.hyps(3)] by (auto simp: send_inv_def)
  then show ?case using v ss_sender_thread.hyps(2) sender_thread_conf[of J parse ins ?n t _ t'] by (auto simp: send_inv_def)
next
  case (ss_sack ins s0 s t data)
  let ?n = "length (m_files (ss_manifest s0))"
  have v: "send_inv J parse ins ?n s" using ss_sack by blast
  have l: "list_all tf_ok (s_tx (OnSack data t)) = list_all tf_ok (s_tx t)"
    using arg_cong[OF OnSack_oks(1)[of data t], of "list_all id"] by (simp add: list.pred_map comp_def)
  show ?case using v ss_sack.hyps(2) OnSack_oks[of data t] l by (auto simp: send_inv_def)
qed (simp_all add: send_inv_def)

text \<open>C5. A sending session reaches the state completed only when the receiver has confirmed every file of the manifest,
in a \<^verbatim>\<open>file_ok\<close> message or as already verified in its \<^verbatim>\<open>accept\<close>, for every interleaving of messages and calls with the
sender thread \<^verbatim>\<open>Run\<close>.  The sizes of the files are those a manifest may have.\<close>

theorem completed_sender_is_confirmed:
  assumes "ss_run J parse sha em ins s0 s" "sending_session s0" "ss_state s = kCompleted" "i < length (m_files (ss_manifest s0))"
  shows "confirmed J parse (length (m_files (ss_manifest s0))) ins i"
proof -
  let ?n = "length (m_files (ss_manifest s0))"
  have v: "send_inv J parse ins ?n s" by (rule ss_run_send_inv[OF assms(1,2)])
  then obtain t where "ss_sender s = Some t" "list_all tf_ok (s_tx t)" "tx_conf J parse ins ?n (oks t) (s_finished t)"
    using assms(3) by (auto simp: send_inv_def)
  then show ?thesis using assms(4) by (auto simp: tx_conf_def list_all_length)
qed

section \<open>A concrete session\<close>

definition demo_parse :: "bytes \<Rightarrow> jval" where
  "demo_parse b =
     (if b = [1] then msg jval_ops ''offer'' [(''manifest'', ToJson jval_ops demo_manifest)]
      else if b = [2] then msg jval_ops ''file_done'' [(''index'', JNum 0), (''sha256'', JStr (demo_hash [7, 8, 9]))]
      else if b = [3] then msg jval_ops ''transfer_done'' []
      else JNull)"

definition demo_snap :: TransferSnapshot where
  "demo_snap = \<lparr>sn_transfer_id = ''t1'', sn_session_id = ''s1'', sn_role = ''receiver'', sn_state = kConnecting, sn_error_code = [],
     sn_error_message = [], sn_path = PathUnknown, sn_bytes_total = 0, sn_bytes_done = 0, sn_files_total = 0, sn_files_done = 0,
     sn_rate_bps = 0, sn_loss_permille = 0, sn_current_file = -1\<rparr>"

definition demo_idle_tx :: tx_state where
  "demo_idle_tx = \<lparr>s_manifest = demo_manifest, s_tx = [], s_inflight = [], s_started = False, s_stop = False, s_paused = False,
     s_finished = False, s_failed = False, s_tokens = 0, s_last_token_ms = 0, s_target_bps = 0, s_aimd_bps = 0, s_rtt_ms = 0,
     s_last_rate_update_ms = 0, s_window_bytes = 0, s_window_start_ms = 0, s_link_down_since_ms = 0, s_bytes_sent = 0,
     s_bytes_acked = 0, s_files_done = 0, s_current_file = -1, s_send_rate_bps = 0, s_repairs = 0, s_max_loss_permille = 0,
     s_did_work = False, s_budget = 0, s_since_repair = 0, s_buf = [], s_hashed = [], s_world = r_world idle_rcv, s_env = [], s_out = []\<rparr>"

definition demo_session :: "bool \<Rightarrow> jval session" where
  "demo_session sender = \<lparr>ss_is_sender = sender, ss_snap = demo_snap, ss_transport_ready = False, ss_offer_sent = False,
     ss_accept_received = False, ss_paused = False, ss_progress_scheduled = False, ss_done_sent = False, ss_sender_confirmed = False,
     ss_manifest = demo_manifest\<lparr>m_files := [], m_total_bytes := 0\<rparr>, ss_files = [], ss_sender = None, ss_file_ok = [], ss_save_dir = [''out''],
     ss_resume = JNull, ss_names = [], ss_receiver = None, ss_new_tx = demo_idle_tx, ss_new_rx = idle_rcv, ss_out = []\<rparr>"

definition demo_says :: "8 word \<Rightarrow> jval session \<Rightarrow> jval session option" where
  "demo_says b s = OnCtrlMessage jval_ops id demo_parse demo_hash 0 [b] s"

definition demo_transfer :: "(TransferState \<times> bool) option" where
  "demo_transfer =
     do { s1 \<leftarrow> demo_says 1 (demo_session False);
          r1 \<leftarrow> ss_receiver s1;
          s2 \<leftarrow> demo_says 2 (s1\<lparr>ss_receiver := Some (OnBlock demo_block r1)\<rparr>);
          r2 \<leftarrow> ss_receiver s2;
          r3 \<leftarrow> Run_body demo_hash 100 100 100 r2;
          s3 \<leftarrow> demo_says 3 (s2\<lparr>ss_receiver := Some r3\<rparr>);
          Some (ss_state s3, r_running r2) }"

lemma utf8_cont_code [code]:
  "utf8_cont n s cp =
     (if n = 0 then Some cp
      else case s of [] \<Rightarrow> None
      | x # s \<Rightarrow> if byte x AND 0xC0 \<noteq> 0x80 then None else utf8_cont (n - 1) s (push_bit 6 cp OR ucast (byte x AND 0x3F)))"
  by (cases n; cases s) simp_all

lemma demo_transfer_completes: "demo_transfer = Some (kCompleted, True)"
  by code_simp

section \<open>Witnesses\<close>

lemma joins_id: "joins sha id"
  unfolding joins_def by (intro allI exI[of _ "[]"]) (simp add: run_nil)

lemma ss_input_id:
  "ss_run J parse sha em ins s0 s \<Longrightarrow> enabled i s \<Longrightarrow> ss_handle J id parse sha em rd i s = Some s' \<Longrightarrow>
   ss_run J parse sha em (ins @ [i]) s0 s'"
  by (rule ss_input[OF _ _ joins_id])

lemma ss_message:
  "ss_run jval_ops demo_parse demo_hash em ins s0 s \<Longrightarrow> demo_says b s = Some s' \<Longrightarrow>
   ss_run jval_ops demo_parse demo_hash em (ins @ [InMessage [b]]) s0 s'"
  by (rule ss_input_id[where rd = 0]) (simp_all add: enabled_def demo_says_def)

definition demo_failed :: "jval session" where
  "demo_failed = upd_snap (\<lambda>p. p\<lparr>sn_state := kFailed\<rparr>) (demo_session False)"

lemma terminal_states_are_final_witness:
  "\<exists>s. ss_run jval_ops demo_parse demo_hash (\<lambda>_ _. True) [InReady PathP2P, InCancel ''user''] demo_failed s \<and> ss_state s = kFailed"
proof -
  let ?s1 = "OnTransportReady jval_ops id PathP2P demo_failed" and ?em = "\<lambda>_ _. True"
  have "ss_run jval_ops demo_parse demo_hash ?em ([] @ [InReady PathP2P]) demo_failed ?s1"
    by (rule ss_input_id[OF ss_nil]) (simp_all add: enabled_def)
  then have r: "ss_run jval_ops demo_parse demo_hash ?em (([] @ [InReady PathP2P]) @ [InCancel ''user'']) demo_failed
      (ss_Cancel jval_ops id ?em ''user'' ?s1)"
    by (rule ss_input_id) (simp_all add: enabled_def)
  have f: "ss_state demo_failed = kFailed" by (simp add: demo_failed_def)
  from terminal_states_are_final[OF r] f show ?thesis using r by (auto simp: Terminal_def)
qed

lemma completed_session_is_verified_witness:
  "\<exists>s r. ss_run jval_ops demo_parse demo_hash (\<lambda>_ _. True) [InMessage [1], InMessage [2], InMessage [3]] (demo_session False) s \<and>
     ss_state s = kCompleted \<and> ss_receiver s = Some r \<and> AllVerified r"
proof -
  let ?R = "ss_run jval_ops demo_parse demo_hash (\<lambda>_ _. True)" and ?s0 = "demo_session False"
  obtain s1 r1 s2 r2 r3 s3 where
    s: "demo_says 1 ?s0 = Some s1" "ss_receiver s1 = Some r1"
      "demo_says 2 (s1\<lparr>ss_receiver := Some (OnBlock demo_block r1)\<rparr>) = Some s2" "ss_receiver s2 = Some r2"
      "Run_body demo_hash 100 100 100 r2 = Some r3" "demo_says 3 (s2\<lparr>ss_receiver := Some r3\<rparr>) = Some s3"
      "ss_state s3 = kCompleted" "r_running r2"
    using demo_transfer_completes by (auto simp: demo_transfer_def split: bind_splits)
  have "?R ([] @ [InMessage [1]]) ?s0 s1" by (rule ss_message[OF ss_nil s(1)])
  then have "?R ([] @ [InMessage [1]]) ?s0 (s1\<lparr>ss_receiver := Some (OnBlock demo_block r1)\<rparr>)" by (rule ss_block) (rule s(2))
  then have "?R (([] @ [InMessage [1]]) @ [InMessage [2]]) ?s0 s2" by (rule ss_message[OF _ s(3)])
  then have "?R (([] @ [InMessage [1]]) @ [InMessage [2]]) ?s0 (s2\<lparr>ss_receiver := Some r3\<rparr>)"
    by (rule ss_writer[OF _ s(4) _ step_body[OF s(8,5)]]) (simp add: writer_label_def)
  then have r: "?R ((([] @ [InMessage [1]]) @ [InMessage [2]]) @ [InMessage [3]]) ?s0 s3" by (rule ss_message[OF _ s(6)])
  have "receiving_session ?s0"
    by (simp add: receiving_session_def demo_session_def demo_snap_def clean_rx_def demo_idle idle_rcv_def)
  from completed_session_is_verified[OF r this s(7)] obtain r where "ss_receiver s3 = Some r" "AllVerified r" by blast
  then show ?thesis using r s(7) by (intro exI[of _ s3]) auto
qed

section \<open>A concrete sender\<close>

definition demo_reply :: "bytes \<Rightarrow> jval" where
  "demo_reply b =
     (if b = [1] then msg jval_ops ''accept'' [(''files'', accept_json jval_ops [] [])]
      else if b = [2] then msg jval_ops ''file_ok'' [(''index'', JNum 0)]
      else JNull)"

definition demo_sender :: "jval session" where
  "demo_sender = SetSenderInput demo_manifest [[''src'', ''a'']] ((demo_session True)\<lparr>ss_new_tx := idle_tx\<lparr>s_env := []\<rparr>\<rparr>)"

text \<open>The polls of the thread: it sweeps and announces the file in nine of them, sees the confirmation in the tenth and
finishes in the twelfth.\<close>

definition demo_polls :: "tx_env list" where
  "demo_polls = map (demo_step []) [1, 2, 3, 4, 5, 6, 7, 8, 9] @ [demo_step [AFileOk 0] 10] @ map (demo_step []) [11, 12]"

definition demo_run_at :: "nat \<Rightarrow> ctl \<times> tx_state" where
  "demo_run_at k = tx_Run demo_hash (demo_tx\<lparr>s_env := take k demo_polls\<rparr>)"

lemma seqc_Starved: "seqc (Starved, s) k = (Starved, s)"
  by (simp add: seqc_def)

lemma demo_acked: "tf_acked_bytes demo_ftx = 0"
  by (simp add: demo_ftx_def new_tx_def Let_def)

lemmas demo_poll_eval = demo_run_at_def demo_polls_def tx_Run_def demo_eval seqc_Starved demo_acked send_file_def announce_def
  kMaxInflightFiles_def ReapInflight_def OnFileOk_def finish_run_def

lemma demo_polls_starve: "list_all (\<lambda>k. fst (demo_run_at k) = Starved \<and> s_env (snd (demo_run_at k)) = []) [0, 1, 2, 3, 4, 5, 6, 7, 8, 9, 10, 11]"
  by (simp add: demo_poll_eval cong: poll_cong seqc_cong)

lemma demo_polls_end: "s_env (snd (demo_run_at 12)) = []" "s_finished (snd (demo_run_at 12))"
  by (simp_all add: demo_poll_eval cong: poll_cong seqc_cong)

definition demo_engine :: tx_state where
  "demo_engine = demo_tx\<lparr>s_env := []\<rparr>"

lemma demo_engine_Start:
  "tx_Start demo_manifest [[''src'', ''a'']] (map_of []) [] (idle_tx\<lparr>s_env := []\<rparr>) = (Inr (), demo_engine)"
  by (simp add: demo_engine_def demo_tx_def tx_Start_def idle_tx_def demo_manifest_def Let_def)

text \<open>Each poll is a move of the thread in the session.\<close>

lemma demo_moves:
  assumes "k < 12" "t = fold apply_act (e_acts (demo_polls ! k)) (snd (demo_run_at k))"
  shows "sender_thread demo_hash demo_manifest [[''src'', ''a'']] (idle_tx\<lparr>s_env := []\<rparr>) t (snd (demo_run_at (Suc k)))"
proof -
  have p: "k \<in> set [0, 1, 2, 3, 4, 5, 6, 7, 8, 9, 10, 11]" if "k < 12" for k :: nat using that unfolding list.set insert_iff empty_iff by presburger
  have l: "length demo_polls = 12" by (simp add: demo_polls_def)
  have r: "demo_run_at k = (Starved, snd (demo_run_at k))" "s_env (snd (demo_run_at k)) = []" "s_env (snd (demo_run_at (Suc k))) = []"
    using demo_polls_starve[unfolded list_all_iff, rule_format, OF p[of k]] demo_polls_starve[unfolded list_all_iff, rule_format, OF p[of "Suc k"]]
      demo_polls_end(1) assms(1) by (auto simp: prod_eq_iff less_Suc_eq_le le_less numeral_eq_Suc)
  have tk: "take (Suc k) demo_polls = take k demo_polls @ [demo_polls ! k]" using assms(1) l by (simp add: take_Suc_conv_app_nth)
  show ?thesis unfolding sender_thread_def
    by (intro exI[of _ "map_of []"] exI[of _ "[]"] exI[of _ demo_engine] exI[of _ "take k demo_polls"] exI[of _ "demo_polls ! k"]
          exI[of _ "snd (demo_run_at k)"] conjI demo_engine_Start)
       (use r assms(2) in \<open>simp_all add: demo_run_at_def demo_engine_def tk\<close>)
qed

lemma demo_thread:
  assumes "ss_run J parse demo_hash em ins s0 s" "ss_manifest s = demo_manifest" "ss_files s = [[''src'', ''a'']]"
    "ss_new_tx s = idle_tx\<lparr>s_env := []\<rparr>" "ss_sender s = Some (snd (demo_run_at k))"
  shows "k + n \<le> 12 \<Longrightarrow> list_all (\<lambda>e. e_acts e = []) (take n (drop k demo_polls)) \<Longrightarrow>
    ss_run J parse demo_hash em ins s0 (s\<lparr>ss_sender := Some (snd (demo_run_at (k + n)))\<rparr>)"
proof (induction n)
  case 0
  have "s\<lparr>ss_sender := Some (snd (demo_run_at k))\<rparr> = s" using assms(5) by simp
  then show ?case using assms(1) by simp
next
  case (Suc n)
  have n: "n < length (drop k demo_polls)" using Suc.prems(1) by (simp add: demo_polls_def)
  have a: "list_all (\<lambda>e. e_acts e = []) (take n (drop k demo_polls))" "e_acts (demo_polls ! (k + n)) = []"
    using Suc.prems n by (simp_all add: take_Suc_conv_app_nth)
  have "sender_thread demo_hash demo_manifest [[''src'', ''a'']] (idle_tx\<lparr>s_env := []\<rparr>) (snd (demo_run_at (k + n))) (snd (demo_run_at (Suc (k + n))))"
    using Suc.prems(1) a(2) by (intro demo_moves) simp_all
  with Suc.IH[OF _ a(1)] Suc.prems(1) assms(2-4) show ?case
    using ss_sender_thread[of J parse demo_hash em ins s0 "s\<lparr>ss_sender := Some (snd (demo_run_at (k + n)))\<rparr>"] by simp
qed

lemma demo_accept:
  "\<exists>s. OnCtrlMessage jval_ops id demo_reply demo_hash 0 [1] demo_sender = Some s \<and> ss_manifest s = demo_manifest \<and>
     ss_files s = [[''src'', ''a'']] \<and> ss_new_tx s = idle_tx\<lparr>s_env := []\<rparr> \<and> ss_sender s = Some demo_engine \<and>
     ss_is_sender s \<and> ss_file_ok s = [False] \<and> \<not> ss_done_sent s \<and> ss_state s = kTransferring"
proof -
  let ?j = "demo_reply [1]"
  have p: "ParseCtrlMessage jval_ops demo_reply [1] = Some (?j, ''accept'')" "read_accept jval_ops 1 (accept_entries jval_ops ?j) [] [] = Some ([], [])"
    by code_simp+
  have n: "length (m_files demo_manifest) = 1" by (simp add: demo_manifest_def)
  show ?thesis using p(2)
    by (simp add: OnCtrlMessage_def p(1) dispatch_ctrl_def HandleAccept_def demo_sender_def SetSenderInput_def demo_session_def demo_snap_def
        demo_engine_Start[simplified] n Let_def mark_ok_def Terminal_def)
qed

lemma demo_file_ok:
  assumes "ss_sender s = Some t" "ss_is_sender s" "ss_file_ok s = [False]"
  shows "OnCtrlMessage jval_ops id demo_reply demo_hash 0 [2] s = Some (s\<lparr>ss_file_ok := [True], ss_sender := Some (OnFileOk 0 t)\<rparr>)"
proof -
  let ?j = "demo_reply [2]"
  have p: "ParseCtrlMessage jval_ops demo_reply [2] = Some (?j, ''file_ok'')" "j_find jval_ops ?j ''index'' = Some (JNum 0)"
    "j_is_number_unsigned jval_ops (JNum 0)" "j_get_u64 jval_ops (JNum 0) = Some 0"
    by code_simp+
  show ?thesis using assms by (simp add: OnCtrlMessage_def p dispatch_ctrl_def HandleFileAck_def)
qed

lemma completed_sender_is_confirmed_witness:
  "\<exists>s. ss_run jval_ops demo_reply demo_hash (\<lambda>_ _. True) [InMessage [1], InMessage [2], InTxAllDone] demo_sender s \<and>
     ss_state s = kCompleted \<and> confirmed jval_ops demo_reply 1 [InMessage [1], InMessage [2], InTxAllDone] 0"
proof -
  let ?R = "ss_run jval_ops demo_reply demo_hash (\<lambda>_ _. True)" and ?U = "\<lambda>k. snd (demo_run_at k)"
  obtain s1 where s1: "OnCtrlMessage jval_ops id demo_reply demo_hash 0 [1] demo_sender = Some s1"
    and m: "ss_manifest s1 = demo_manifest" "ss_files s1 = [[''src'', ''a'']]" "ss_new_tx s1 = idle_tx\<lparr>s_env := []\<rparr>"
    and e: "ss_sender s1 = Some demo_engine" "ss_is_sender s1" "ss_file_ok s1 = [False]" "\<not> ss_done_sent s1" "ss_state s1 = kTransferring"
    using demo_accept by blast
  have u0: "?U 0 = demo_engine" by (simp add: demo_run_at_def tx_Run_def poll_def demo_engine_def)
  have r1: "?R ([] @ [InMessage [1]]) demo_sender s1"
    by (rule ss_input_id[OF ss_nil, where rd = 0]) (simp_all add: enabled_def s1)
  have r2: "?R ([] @ [InMessage [1]]) demo_sender (s1\<lparr>ss_sender := Some (?U 9)\<rparr>)"
    using demo_thread[OF r1 m, of 0 9] e(1) u0 by (simp add: demo_polls_def)
  let ?s2 = "s1\<lparr>ss_sender := Some (OnFileOk 0 (?U 9)), ss_file_ok := [True]\<rparr>"
  have r3: "?R (([] @ [InMessage [1]]) @ [InMessage [2]]) demo_sender ?s2"
    using demo_file_ok[of "s1\<lparr>ss_sender := Some (?U 9)\<rparr>"] e by (intro ss_input_id[OF r2, where rd = 0]) (simp_all add: enabled_def)
  have "sender_thread demo_hash demo_manifest [[''src'', ''a'']] (idle_tx\<lparr>s_env := []\<rparr>) (OnFileOk 0 (?U 9)) (?U 10)"
    using demo_moves[of 9 "OnFileOk 0 (?U 9)"] by (simp add: demo_polls_def nth_append)
  then have r4: "?R (([] @ [InMessage [1]]) @ [InMessage [2]]) demo_sender (?s2\<lparr>ss_sender := Some (?U 10)\<rparr>)"
    by (intro ss_sender_thread[OF r3]) (simp_all add: m)
  let ?s3 = "s1\<lparr>ss_file_ok := [True], ss_sender := Some (?U 12)\<rparr>"
  have r5: "?R (([] @ [InMessage [1]]) @ [InMessage [2]]) demo_sender ?s3"
    using demo_thread[OF r4, of 10 2] by (simp add: m demo_polls_def)
  have r: "?R ((([] @ [InMessage [1]]) @ [InMessage [2]]) @ [InTxAllDone]) demo_sender (OnSenderAllDone jval_ops ?s3)"
    by (rule ss_input_id[OF r5]) (simp_all add: enabled_def tx_finished_def demo_polls_end(2))
  have c: "ss_state (OnSenderAllDone jval_ops ?s3) = kCompleted" using e by (simp add: OnSenderAllDone_def Terminal_def)
  have ss: "sending_session demo_sender" and n: "length (m_files (ss_manifest demo_sender)) = 1"
    by (simp_all add: sending_session_def demo_sender_def SetSenderInput_def demo_session_def demo_snap_def idle_tx_def demo_manifest_def
        sizes_ok_def kMaxFileSize_def kBlockPayloadSize_def)
  from completed_sender_is_confirmed[OF r ss c, of 0] n
  have "confirmed jval_ops demo_reply 1 [InMessage [1], InMessage [2], InTxAllDone] 0" by simp
  then show ?thesis using r c by auto
qed

end
