(* ===== verification/Config.thy ===== *)
theory Config
  imports Json File_Io
begin

text \<open>
  Preferences, \<^verbatim>\<open>core/src/api/config.{h,cpp}\<close>, and the files that keep them and the resumable receives,
  \<^verbatim>\<open>core/src/storage/storage.cpp\<close>.  The settings of the build (\<^verbatim>\<open>CT_DEVELOPER_MODE\<close>, \<^verbatim>\<open>CT_SERVICE_HOST\<close>, \<^verbatim>\<open>CT_LINK_HOST\<close>) are a
  parameter.  \<^verbatim>\<open>Merge\<close> changes the object in place: a key of the wrong type ends it with the earlier keys applied.
\<close>

section \<open>Preferences\<close>

record build =
  b_developer :: bool
  b_service_host :: string
  b_link_host :: string

record Config =
  c_data_dir :: string
  c_log_dir :: string
  c_log_level :: string
  c_server_host :: string
  c_server_port :: int
  c_server_tls :: bool
  c_server_path :: string
  c_link_host :: string
  c_turn_mode :: string
  c_ws_relay :: string
  c_enable_srtp :: bool
  c_enable_upnp :: bool
  c_ice_timeout_ms :: int
  c_save_dir :: string
  c_share_mode :: string
  c_share_ttl_sec :: int
  c_app_version :: string
  c_platform :: string

definition new_Config :: "build \<Rightarrow> Config" where
  "new_Config b =
     (let c = \<lparr>c_data_dir = [], c_log_dir = [], c_log_level = ''info'', c_server_host = b_service_host b, c_server_port = 443,
               c_server_tls = True, c_server_path = ''/ws'', c_link_host = b_link_host b, c_turn_mode = ''auto'',
               c_ws_relay = ''auto'', c_enable_srtp = True, c_enable_upnp = False, c_ice_timeout_ms = 15000, c_save_dir = [],
               c_share_mode = ''once'', c_share_ttl_sec = 600, c_app_version = ''0.1.0'', c_platform = []\<rparr>
      in if b_developer b \<and> c_server_host c = []
         then c\<lparr>c_server_host := ''127.0.0.1'', c_server_port := 8080, c_server_tls := False\<rparr> else c)"

type_synonym merged = "(string + unit) \<times> Config"

definition Take :: "'j json_ops \<Rightarrow> ('j \<Rightarrow> 'a option) \<Rightarrow> 'j \<Rightarrow> string \<Rightarrow> ('a \<Rightarrow> Config \<Rightarrow> Config) \<Rightarrow> Config \<Rightarrow> merged" where
  "Take J get j key put c =
     (case j_find J j key of None \<Rightarrow> (Inr (), c)
      | Some v \<Rightarrow>
          if j_is_null J v then (Inr (), c)
          else case get v of None \<Rightarrow> (Inl (''config.'' @ key @ '' has the wrong type''), c)
          | Some x \<Rightarrow> (Inr (), put x c))"

text \<open>\<^verbatim>\<open>if (!Take(...)) return false;\<close> for a list of keys.\<close>

fun take_all :: "(Config \<Rightarrow> merged) list \<Rightarrow> Config \<Rightarrow> merged" where
  "take_all [] c = (Inr (), c)"
| "take_all (t # ts) c = (case t c of (Inl e, c1) \<Rightarrow> (Inl e, c1) | (Inr _, c1) \<Rightarrow> take_all ts c1)"

definition take_preferences :: "'j json_ops \<Rightarrow> 'j \<Rightarrow> (Config \<Rightarrow> merged) list" where
  "take_preferences J j =
     [Take J (j_get_string J) j ''data_dir'' (\<lambda>x. c_data_dir_update (\<lambda>_. x)),
      Take J (j_get_string J) j ''log_dir'' (\<lambda>x. c_log_dir_update (\<lambda>_. x)),
      Take J (j_get_string J) j ''log_level'' (\<lambda>x. c_log_level_update (\<lambda>_. x))]"

definition take_service :: "'j json_ops \<Rightarrow> 'j \<Rightarrow> (Config \<Rightarrow> merged) list" where
  "take_service J j =
     [Take J (j_get_string J) j ''link_host'' (\<lambda>x. c_link_host_update (\<lambda>_. x)),
      Take J (j_get_string J) j ''turn_mode'' (\<lambda>x. c_turn_mode_update (\<lambda>_. x)),
      Take J (j_get_string J) j ''ws_relay'' (\<lambda>x. c_ws_relay_update (\<lambda>_. x)),
      Take J (j_get_bool J) j ''enable_srtp'' (\<lambda>x. c_enable_srtp_update (\<lambda>_. x)),
      Take J (j_get_bool J) j ''enable_upnp'' (\<lambda>x. c_enable_upnp_update (\<lambda>_. x)),
      Take J (j_get_int J) j ''ice_timeout_ms'' (\<lambda>x. c_ice_timeout_ms_update (\<lambda>_. x))]"

definition take_local :: "'j json_ops \<Rightarrow> 'j \<Rightarrow> (Config \<Rightarrow> merged) list" where
  "take_local J j =
     [Take J (j_get_string J) j ''save_dir'' (\<lambda>x. c_save_dir_update (\<lambda>_. x)),
      Take J (j_get_string J) j ''app_version'' (\<lambda>x. c_app_version_update (\<lambda>_. x)),
      Take J (j_get_string J) j ''platform'' (\<lambda>x. c_platform_update (\<lambda>_. x))]"

text \<open>A member that is an object, or nothing.\<close>

definition member :: "'j json_ops \<Rightarrow> 'j \<Rightarrow> string \<Rightarrow> ('j \<Rightarrow> (Config \<Rightarrow> merged) list) \<Rightarrow> (Config \<Rightarrow> merged) list" where
  "member J j key f = (case j_find J j key of None \<Rightarrow> [] | Some v \<Rightarrow> if j_is_object J v then f v else [])"

definition take_server :: "'j json_ops \<Rightarrow> 'j \<Rightarrow> (Config \<Rightarrow> merged) list" where
  "take_server J v =
     [Take J (j_get_string J) v ''host'' (\<lambda>x. c_server_host_update (\<lambda>_. x)),
      Take J (j_get_int J) v ''port'' (\<lambda>x. c_server_port_update (\<lambda>_. x)),
      Take J (j_get_bool J) v ''tls'' (\<lambda>x. c_server_tls_update (\<lambda>_. x)),
      Take J (j_get_string J) v ''path'' (\<lambda>x. c_server_path_update (\<lambda>_. x))]"

definition take_share :: "'j json_ops \<Rightarrow> 'j \<Rightarrow> (Config \<Rightarrow> merged) list" where
  "take_share J v =
     [Take J (j_get_string J) v ''mode'' (\<lambda>x. c_share_mode_update (\<lambda>_. x)),
      Take J (j_get_int J) v ''ttl_sec'' (\<lambda>x. c_share_ttl_sec_update (\<lambda>_. x))]"

definition check_values :: "Config \<Rightarrow> merged" where
  "check_values c =
     (if c_turn_mode c \<noteq> ''auto'' \<and> c_turn_mode c \<noteq> ''force'' \<and> c_turn_mode c \<noteq> ''off''
      then (Inl ''config.turn_mode must be auto|force|off'', c)
      else if c_ws_relay c \<noteq> ''auto'' \<and> c_ws_relay c \<noteq> ''force'' \<and> c_ws_relay c \<noteq> ''off''
      then (Inl ''config.ws_relay must be auto|force|off'', c)
      else if c_share_mode c \<noteq> ''once'' \<and> c_share_mode c \<noteq> ''open''
      then (Inl ''config.share.mode must be once|open'', c)
      else (Inr (), if c_server_path c = [] then c\<lparr>c_server_path := ''/ws''\<rparr> else c))"

definition Merge :: "'j json_ops \<Rightarrow> build \<Rightarrow> 'j \<Rightarrow> Config \<Rightarrow> merged" where
  "Merge J b j c =
     (if \<not> j_is_object J j then (Inl ''config must be an object'', c)
      else take_all
        (take_preferences J j @ (if b_developer b then take_service J j else []) @ take_local J j @
         (if b_developer b then member J j ''server'' (take_server J) else []) @
         member J j ''share'' (take_share J) @ [check_values]) c)"

definition service_keys :: "string list" where
  "service_keys = [''server'', ''link_host'', ''turn_mode'', ''ws_relay'', ''enable_srtp'', ''enable_upnp'', ''ice_timeout_ms'']"

definition HasServiceOverrides :: "'j json_ops \<Rightarrow> 'j \<Rightarrow> bool" where
  "HasServiceOverrides J j \<longleftrightarrow> list_ex (\<lambda>key. j_find J j key \<noteq> None) service_keys"

definition service_json :: "'j json_ops \<Rightarrow> Config \<Rightarrow> (string \<times> 'j) list" where
  "service_json J c =
     [(''server'', j_object J [(''host'', j_string J (c_server_host c)), (''port'', j_int J (c_server_port c)),
         (''tls'', j_bool J (c_server_tls c)), (''path'', j_string J (c_server_path c))]),
      (''link_host'', j_string J (c_link_host c)), (''turn_mode'', j_string J (c_turn_mode c)),
      (''ws_relay'', j_string J (c_ws_relay c)), (''enable_srtp'', j_bool J (c_enable_srtp c)),
      (''enable_upnp'', j_bool J (c_enable_upnp c)), (''ice_timeout_ms'', j_int J (c_ice_timeout_ms c))]"

definition Config_ToJson :: "'j json_ops \<Rightarrow> build \<Rightarrow> Config \<Rightarrow> 'j" where
  "Config_ToJson J b c =
     j_object J
       ([(''data_dir'', j_string J (c_data_dir c)), (''log_dir'', j_string J (c_log_dir c)),
         (''log_level'', j_string J (c_log_level c)), (''service_available'', j_bool J (c_server_host c \<noteq> [])),
         (''save_dir'', j_string J (c_save_dir c)),
         (''share'', j_object J [(''mode'', j_string J (c_share_mode c)), (''ttl_sec'', j_int J (c_share_ttl_sec c))]),
         (''app_version'', j_string J (c_app_version c)), (''platform'', j_string J (c_platform c))] @
        (if b_developer b then service_json J c else []))"

definition PeerAffectingDiff :: "Config \<Rightarrow> Config \<Rightarrow> bool" where
  "PeerAffectingDiff c d \<longleftrightarrow> c_server_host c \<noteq> c_server_host d \<or> c_server_port c \<noteq> c_server_port d \<or>
     c_server_tls c \<noteq> c_server_tls d \<or> c_server_path c \<noteq> c_server_path d \<or> c_turn_mode c \<noteq> c_turn_mode d \<or>
     c_ws_relay c \<noteq> c_ws_relay d \<or> c_enable_srtp c \<noteq> c_enable_srtp d \<or> c_enable_upnp c \<noteq> c_enable_upnp d \<or>
     c_ice_timeout_ms c \<noteq> c_ice_timeout_ms d"

section \<open>Storage\<close>

text \<open>\<open>parse\<close> is the parser without exceptions (\<open>None\<close> for a discarded value), \<open>dump\<close> the printer.\<close>

definition LoadJson :: "'j json_ops \<Rightarrow> (bytes \<Rightarrow> 'j option) \<Rightarrow> fspath \<Rightarrow> world \<Rightarrow> 'j \<times> world" where
  "LoadJson J parse p w =
     (case ReadFileToString p w of
        (Inl _, w1) \<Rightarrow> (j_null J, w1)
      | (Inr text, w1) \<Rightarrow> (case parse text of None \<Rightarrow> j_null J | Some j \<Rightarrow> j, w1))"

definition SaveJson :: "('j \<Rightarrow> bytes) \<Rightarrow> fspath \<Rightarrow> fspath \<Rightarrow> 'j \<Rightarrow> world \<Rightarrow> (string + unit) \<times> world" where
  "SaveJson dump data_dir p j w =
     (case EnsureDir data_dir w of (Inl e, w1) \<Rightarrow> (Inl e, w1) | (Inr _, w1) \<Rightarrow> WriteFileAtomic p (dump j) w1)"

definition LoadConfig :: "'j json_ops \<Rightarrow> (bytes \<Rightarrow> 'j option) \<Rightarrow> fspath \<Rightarrow> world \<Rightarrow> 'j \<times> world" where
  "LoadConfig J parse data_dir w =
     (case LoadJson J parse (data_dir @ [''config.json'']) w of (j, w1) \<Rightarrow> (if j_is_object J j then j else j_object J [], w1))"

definition SaveConfig :: "('j \<Rightarrow> bytes) \<Rightarrow> fspath \<Rightarrow> 'j \<Rightarrow> world \<Rightarrow> (string + unit) \<times> world" where
  "SaveConfig dump data_dir j w = SaveJson dump data_dir (data_dir @ [''config.json'']) j w"

definition LoadReceives_json :: "'j json_ops \<Rightarrow> (bytes \<Rightarrow> 'j option) \<Rightarrow> fspath \<Rightarrow> world \<Rightarrow> 'j list \<times> world" where
  "LoadReceives_json J parse data_dir w =
     (case LoadJson J parse (data_dir @ [''transfers.json'']) w of (j, w1) \<Rightarrow>
        (case (if j_is_object J j then j_find J j ''receives'' else None) of
           Some rs \<Rightarrow> if j_is_array J rs then j_elems J rs else []
         | None \<Rightarrow> [], w1))"

definition receives_doc :: "'j json_ops \<Rightarrow> 'j list \<Rightarrow> 'j" where
  "receives_doc J receives = j_object J [(''version'', j_int J 1), (''receives'', j_array J receives)]"

definition SaveReceives_json :: "'j json_ops \<Rightarrow> ('j \<Rightarrow> bytes) \<Rightarrow> fspath \<Rightarrow> 'j list \<Rightarrow> world \<Rightarrow> (string + unit) \<times> world" where
  "SaveReceives_json J dump data_dir receives w =
     SaveJson dump data_dir (data_dir @ [''transfers.json'']) (receives_doc J receives) w"

section \<open>Properties of the configuration\<close>

text \<open>The settings of the publisher.\<close>

definition service_part :: "Config \<Rightarrow> string \<times> int \<times> bool \<times> string \<times> string \<times> string \<times> string \<times> bool \<times> bool \<times> int" where
  "service_part c = (c_server_host c, c_server_port c, c_server_tls c, c_server_path c, c_link_host c, c_turn_mode c,
     c_ws_relay c, c_enable_srtp c, c_enable_upnp c, c_ice_timeout_ms c)"

definition valid_config :: "Config \<Rightarrow> bool" where
  "valid_config c \<longleftrightarrow> c_turn_mode c \<in> {''auto'', ''force'', ''off''} \<and> c_ws_relay c \<in> {''auto'', ''force'', ''off''} \<and>
     c_share_mode c \<in> {''once'', ''open''} \<and> c_server_path c \<noteq> []"

lemma take_all_append: "take_all (ts @ us) c = (case take_all ts c of (Inl e, c1) \<Rightarrow> (Inl e, c1) | (Inr _, c1) \<Rightarrow> take_all us c1)"
  by (induction ts arbitrary: c) (auto split: prod.splits sum.splits)

lemma service_part_updates [simp]:
  "service_part (c\<lparr>c_data_dir := x\<rparr>) = service_part c" "service_part (c\<lparr>c_log_dir := x\<rparr>) = service_part c"
  "service_part (c\<lparr>c_log_level := x\<rparr>) = service_part c" "service_part (c\<lparr>c_save_dir := x\<rparr>) = service_part c"
  "service_part (c\<lparr>c_app_version := x\<rparr>) = service_part c" "service_part (c\<lparr>c_platform := x\<rparr>) = service_part c"
  "service_part (c\<lparr>c_share_mode := x\<rparr>) = service_part c" "service_part (c\<lparr>c_share_ttl_sec := n\<rparr>) = service_part c"
  by (simp_all add: service_part_def)

definition keeps_service :: "(Config \<Rightarrow> merged) \<Rightarrow> bool" where
  "keeps_service t \<longleftrightarrow> (\<forall>c. c_server_path c \<noteq> [] \<longrightarrow> service_part (snd (t c)) = service_part c)"

lemma keeps_Take: "(\<And>x c. service_part (put x c) = service_part c) \<Longrightarrow> keeps_service (Take J get j key put)"
  by (simp add: keeps_service_def Take_def split: option.splits)

lemma keeps_lists:
  "list_all keeps_service (take_preferences J j)" "list_all keeps_service (take_local J j)"
  "list_all keeps_service (member J j key (take_share J))" "keeps_service check_values"
  by (simp_all add: take_preferences_def take_local_def take_share_def member_def keeps_Take split: option.splits)
    (simp add: keeps_service_def check_values_def)

lemma take_all_keeps: "list_all keeps_service ts \<Longrightarrow> c_server_path c \<noteq> [] \<Longrightarrow> service_part (snd (take_all ts c)) = service_part c"
proof (induction ts arbitrary: c)
  case (Cons t ts)
  obtain r c1 where t: "t c = (r, c1)" by fastforce
  then have e: "service_part c1 = service_part c" using Cons.prems by (auto simp: keeps_service_def dest: spec[of _ c])
  then have "c_server_path c1 \<noteq> []" using Cons.prems(2) by (simp add: service_part_def)
  then show ?case using Cons t e by (cases r) auto
qed simp

lemma check_values_valid: "check_values c = (Inr u, c') \<Longrightarrow> valid_config c'"
  by (auto simp: check_values_def valid_config_def split: if_splits)

lemma take_all_last: "take_all (ts @ [t]) c = (Inr u, c') \<Longrightarrow> \<exists>c1. t c1 = (Inr u, c')"
  by (auto simp: take_all_append split: prod.splits sum.splits)

lemma Merge_valid: "Merge J b j c = (Inr u, c') \<Longrightarrow> valid_config c'"
  using take_all_last check_values_valid unfolding Merge_def append_assoc[symmetric] by (metis prod.inject sum.distinct(2))

lemma Merge_service: "\<not> b_developer b \<Longrightarrow> c_server_path c \<noteq> [] \<Longrightarrow> service_part (snd (Merge J b j c)) = service_part c"
  by (simp add: Merge_def take_all_keeps keeps_lists)

text \<open>C31. In a release build no configuration document, neither the one a user passes nor the one on disk, changes a
setting of the publisher (server, link host, relay and encryption settings), and a document that is accepted leaves
modes the rest of the core can rely on.\<close>

theorem release_config_is_protected:
  assumes "\<not> b_developer b" "c_server_path c \<noteq> []"
  shows "service_part (snd (Merge J b j c)) = service_part c \<and>
    (fst (Merge J b j c) = Inr () \<longrightarrow> valid_config (snd (Merge J b j c)))"
  using Merge_service[OF assms] Merge_valid by (metis prod.collapse)

definition demo_build :: build where
  "demo_build = \<lparr>b_developer = False, b_service_host = ''ct.example'', b_link_host = ''l.example''\<rparr>"

lemma release_config_is_protected_witness:
  "c_server_host (snd (Merge jval_ops demo_build (JObj [(''server'', JObj [(''host'', JStr ''evil'')])]) (new_Config demo_build))) = ''ct.example''"
proof -
  have d: "\<not> b_developer demo_build" "c_server_path (new_Config demo_build) \<noteq> []" "c_server_host (new_Config demo_build) = ''ct.example''"
    by (simp_all add: demo_build_def new_Config_def Let_def)
  from release_config_is_protected[OF d(1,2), of jval_ops "JObj [(''server'', JObj [(''host'', JStr ''evil'')])]"] d(3)
  show ?thesis by (simp add: service_part_def)
qed

end
