(* ===== verification/Peer.thy ===== *)
theory Peer
  imports Config Session_Link "HOL-Library.Char_ord" "HOL-Library.List_Lexorder"
begin

text \<open>
  The adapter of the transport library, \<^verbatim>\<open>core/src/runtime/peer.{h,cpp}\<close>.  The library \<^verbatim>\<open>minirtc\<close> is a parameter: its answers are
  arguments of the operations, the calls into it are recorded in \<open>pe_calls\<close>.  A callback of the library yields the task it
  posts to the event loop, or nothing when the gate is closed.
\<close>

section \<open>State\<close>

datatype MiniRtcTurnMode = TurnAuto | TurnForce | TurnDisabled
datatype MiniRtcSignalStatus =
  SignalConnecting | SignalConnected | SignalFailed | SignalClosed | SignalReconnecting | SignalTlsError
datatype MiniRtcSessionStatus = SessionConnecting | SessionConnected | SessionDisconnected | SessionFailed | SessionClosed
datatype MiniRtcShareEvent = ShareCreated | ShareFailed | ShareClaimed | ShareClosed
datatype MiniRtcClaimResult = ClaimOk | ClaimCodeNotFound | ClaimCodeExpired | ClaimShareBusy | ClaimRateLimited | ClaimError

record PeerConfig =
  pc_server_host :: string
  pc_server_port :: int
  pc_server_tls :: bool
  pc_server_path :: string
  pc_log_dir :: string
  pc_turn_mode :: MiniRtcTurnMode
  pc_enable_srtp :: bool
  pc_enable_upnp :: bool
  pc_enable_ws_relay :: bool
  pc_force_ws_relay :: bool
  pc_ice_timeout_ms :: int
  pc_app :: string
  pc_version :: string
  pc_platform :: string
  pc_kcp_window :: int

definition ToPeerConfig :: "Config \<Rightarrow> PeerConfig" where
  "ToPeerConfig c = \<lparr>pc_server_host = c_server_host c, pc_server_port = c_server_port c, pc_server_tls = c_server_tls c,
     pc_server_path = c_server_path c, pc_log_dir = c_log_dir c,
     pc_turn_mode = (if c_turn_mode c = ''force'' then TurnForce else if c_turn_mode c = ''off'' then TurnDisabled else TurnAuto),
     pc_enable_srtp = c_enable_srtp c, pc_enable_upnp = c_enable_upnp c, pc_enable_ws_relay = (c_ws_relay c \<noteq> ''off''),
     pc_force_ws_relay = (c_ws_relay c = ''force''), pc_ice_timeout_ms = c_ice_timeout_ms c, pc_app = ''crosstransfer'',
     pc_version = c_app_version c, pc_platform = c_platform c, pc_kcp_window = 1024\<rparr>"

record SessionInfo =
  si_status :: MiniRtcSessionStatus
  si_session_id :: string
  si_role :: string
  si_resume_token :: string
  si_meta_json :: string
  si_path :: MiniRtcPath
  si_reason :: string

datatype rtc_call =
    RtcCreate PeerConfig | RtcAddDataStream string bool | RtcSetReliableWindow string int | RtcConnect | RtcDestroy
  | RtcCreateShare string int bytes | RtcCloseShare string | RtcClaim "string option" "string option" | RtcLeave string
  | RtcSend string string bytes

text \<open>\<open>pe_handle\<close>: the library object exists.  Sinks are named by numbers.\<close>

record peer =
  pe_cfg :: PeerConfig
  pe_open :: bool
  pe_handle :: bool
  pe_sinks :: "(string \<times> nat) list"
  pe_calls :: "rtc_call list"

definition new_peer :: "PeerConfig \<Rightarrow> peer" where
  "new_peer cfg = \<lparr>pe_cfg = cfg, pe_open = True, pe_handle = False, pe_sinks = [], pe_calls = []\<rparr>"

definition rtc :: "rtc_call list \<Rightarrow> peer \<Rightarrow> peer" where
  "rtc cs p = p\<lparr>pe_calls := pe_calls p @ cs\<rparr>"

section \<open>Operations\<close>

text \<open>\<open>created\<close> and \<open>connected\<close> are the answers of \<^verbatim>\<open>MiniRtcCreate\<close> and \<^verbatim>\<open>MiniRtcConnect\<close>.\<close>

definition Connect :: "bool \<Rightarrow> int \<Rightarrow> peer \<Rightarrow> (string + unit) \<times> peer" where
  "Connect created connected p =
     (if pe_handle p then (Inr (), p)
      else if \<not> pe_open p then (Inl ''peer closed'', p)
      else let p1 = rtc [RtcCreate (pe_cfg p)] p in
        if \<not> created then (Inl ''MiniRtcCreate failed'', p1)
        else let p2 = rtc [RtcAddDataStream kStreamCtrl True, RtcAddDataStream kStreamData False, RtcAddDataStream kStreamSack False,
                           RtcSetReliableWindow kStreamCtrl (pc_kcp_window (pe_cfg p)), RtcConnect] p1 in
          if connected \<noteq> 0 then (Inl ''MiniRtcConnect failed'', rtc [RtcDestroy] p2)
          else (Inr (), p2\<lparr>pe_handle := True\<rparr>))"

definition Close :: "peer \<Rightarrow> peer" where
  "Close p =
     (let p1 = p\<lparr>pe_open := False, pe_handle := False, pe_sinks := []\<rparr>
      in if pe_handle p then rtc [RtcDestroy] p1 else p1)"

text \<open>A call under the peer mutex: \<open>-1\<close> without a library object.\<close>

definition guarded :: "rtc_call \<Rightarrow> int \<Rightarrow> peer \<Rightarrow> int \<times> peer" where
  "guarded call answer p = (if pe_handle p then (answer, rtc [call] p) else (- 1, p))"

definition CreateShare :: "string \<Rightarrow> int \<Rightarrow> bytes \<Rightarrow> int \<Rightarrow> peer \<Rightarrow> int \<times> peer" where
  "CreateShare mode ttl_sec meta = guarded (RtcCreateShare mode ttl_sec meta)"

definition CloseShare :: "string \<Rightarrow> int \<Rightarrow> peer \<Rightarrow> int \<times> peer" where
  "CloseShare share_id = guarded (RtcCloseShare share_id)"

definition Claim :: "string \<Rightarrow> string \<Rightarrow> int \<Rightarrow> peer \<Rightarrow> int \<times> peer" where
  "Claim code token = guarded (RtcClaim (if code = [] then None else Some code) (if token = [] then None else Some token))"

definition Leave :: "string \<Rightarrow> int \<Rightarrow> peer \<Rightarrow> int \<times> peer" where
  "Leave session_id = guarded (RtcLeave session_id)"

definition peer_Send :: "string \<Rightarrow> string \<Rightarrow> bytes \<Rightarrow> int \<Rightarrow> peer \<Rightarrow> int \<times> peer" where
  "peer_Send session_id stream data answer p =
     (if \<not> pe_open p then (- 1, p)
      else if \<not> pe_handle p then (- 1, p)
      else (answer, rtc [RtcSend session_id stream data] p))"

definition GetLinkEstimate :: "(int \<times> int) option \<Rightarrow> peer \<Rightarrow> (int \<times> int) option" where
  "GetLinkEstimate answer p = (if \<not> pe_open p \<or> \<not> pe_handle p then None else answer)"

text \<open>A session link asks the peer; the caller's variables keep their values when there is no estimate.\<close>

definition LinkEstimate :: "(int \<times> int) option \<Rightarrow> peer \<Rightarrow> int \<times> int \<Rightarrow> bool \<times> (int \<times> int)" where
  "LinkEstimate answer p out =
     (case GetLinkEstimate answer p of None \<Rightarrow> (False, out) | Some (bwe_bps, rtt_ms) \<Rightarrow> (True, (bwe_bps, rtt_ms)))"

definition SetDataSink :: "string \<Rightarrow> nat \<Rightarrow> peer \<Rightarrow> peer" where
  "SetDataSink session_id sink p = p\<lparr>pe_sinks := omap_put session_id sink (pe_sinks p)\<rparr>"

definition RemoveDataSink :: "string \<Rightarrow> nat \<Rightarrow> peer \<Rightarrow> peer" where
  "RemoveDataSink session_id expected p =
     (if map_of (pe_sinks p) session_id = Some expected
      then p\<lparr>pe_sinks := filter (\<lambda>(k, _). k \<noteq> session_id) (pe_sinks p)\<rparr> else p)"

section \<open>Callbacks\<close>

datatype peer_task =
    CbNotifications string
  | CbSignal MiniRtcSignalStatus string
  | CbShare MiniRtcShareEvent string string int string
  | CbClaim MiniRtcClaimResult string string string
  | CbSession SessionInfo
  | CbStats string MiniRtcPath
  | CbCtrl string bytes

definition nul :: "string option \<Rightarrow> string" where
  "nul s = (case s of None \<Rightarrow> [] | Some t \<Rightarrow> t)"

definition gate :: "peer_task \<Rightarrow> peer \<Rightarrow> peer_task option" where
  "gate task p = (if pe_open p then Some task else None)"

definition OnNotifications :: "string option \<Rightarrow> peer \<Rightarrow> peer_task option" where
  "OnNotifications json = gate (CbNotifications (nul json))"

definition OnSignalStatus :: "MiniRtcSignalStatus \<Rightarrow> string option \<Rightarrow> peer \<Rightarrow> peer_task option" where
  "OnSignalStatus st peer_id = gate (CbSignal st (nul peer_id))"

definition peer_OnShareEvent ::
  "MiniRtcShareEvent \<Rightarrow> string option \<Rightarrow> string option \<Rightarrow> int \<Rightarrow> string option \<Rightarrow> peer \<Rightarrow> peer_task option" where
  "peer_OnShareEvent ev share_id code expires_at detail = gate (CbShare ev (nul share_id) (nul code) expires_at (nul detail))"

definition peer_OnClaimResult ::
  "MiniRtcClaimResult \<Rightarrow> string option \<Rightarrow> string option \<Rightarrow> string option \<Rightarrow> peer \<Rightarrow> peer_task option" where
  "peer_OnClaimResult r session_id token message = gate (CbClaim r (nul session_id) (nul token) (nul message))"

definition OnSessionStatus ::
  "MiniRtcSessionStatus \<Rightarrow> string option \<Rightarrow> string option \<Rightarrow> string option \<Rightarrow> string option \<Rightarrow> MiniRtcPath \<Rightarrow> string option \<Rightarrow>
    peer \<Rightarrow> peer_task option" where
  "OnSessionStatus st sid role token meta path reason =
     gate (CbSession \<lparr>si_status = st, si_session_id = nul sid, si_role = nul role, si_resume_token = nul token,
       si_meta_json = nul meta, si_path = path, si_reason = nul reason\<rparr>)"

definition OnNetStats :: "string option \<Rightarrow> MiniRtcPath option \<Rightarrow> peer \<Rightarrow> peer_task option" where
  "OnNetStats sid stats p = (case stats of None \<Rightarrow> None | Some path \<Rightarrow> gate (CbStats (nul sid) path) p)"

datatype delivery = ToLoop peer_task | ToSink nat | Ignored

definition OnReceiveData :: "bytes option \<Rightarrow> string option \<Rightarrow> string option \<Rightarrow> peer \<Rightarrow> delivery" where
  "OnReceiveData data sid stream p =
     (case (data, sid, stream) of
        (Some d, Some session, Some st) \<Rightarrow>
          if st = kStreamCtrl then (if pe_open p then ToLoop (CbCtrl session d) else Ignored)
          else (case map_of (pe_sinks p) session of None \<Rightarrow> Ignored | Some sink \<Rightarrow> ToSink sink)
      | _ \<Rightarrow> Ignored)"

definition SignalStatusName :: "MiniRtcSignalStatus \<Rightarrow> string" where
  "SignalStatusName s =
     (case s of SignalConnecting \<Rightarrow> ''connecting'' | SignalConnected \<Rightarrow> ''connected'' | SignalFailed \<Rightarrow> ''failed''
      | SignalClosed \<Rightarrow> ''closed'' | SignalReconnecting \<Rightarrow> ''reconnecting'' | SignalTlsError \<Rightarrow> ''tls_error'')"

definition SessionStatusName :: "MiniRtcSessionStatus \<Rightarrow> string" where
  "SessionStatusName s =
     (case s of SessionConnecting \<Rightarrow> ''connecting'' | SessionConnected \<Rightarrow> ''connected'' | SessionDisconnected \<Rightarrow> ''disconnected''
      | SessionFailed \<Rightarrow> ''failed'' | SessionClosed \<Rightarrow> ''closed'')"

definition PathName :: "MiniRtcPath \<Rightarrow> string" where
  "PathName p = (case p of PathP2P \<Rightarrow> ''p2p'' | PathTurn \<Rightarrow> ''turn'' | PathWsRelay \<Rightarrow> ''relay'' | PathUnknown \<Rightarrow> ''unknown'')"

definition ClaimResultName :: "MiniRtcClaimResult \<Rightarrow> string" where
  "ClaimResultName r =
     (case r of ClaimOk \<Rightarrow> ''ok'' | ClaimCodeNotFound \<Rightarrow> ''code_not_found'' | ClaimCodeExpired \<Rightarrow> ''code_expired''
      | ClaimShareBusy \<Rightarrow> ''share_busy'' | ClaimRateLimited \<Rightarrow> ''rate_limited'' | ClaimError \<Rightarrow> ''error'')"

end
