(* ===== verification/Core.thy ===== *)
theory Core
  imports Peer Transfer_Session Take_Code
begin

text \<open>
  The facade of the core, \<^verbatim>\<open>core/src/api/core.{h,cpp}\<close>: shares, receives and the transfers between them.  Every operation below
  is the task the code runs on the event loop (what the interface functions check before they post it is modelled with
  it).  \<open>core_env\<close> holds what a task reads from outside: the clock (one reading per task), random identifiers, the answers of
  the transport library and the libraries the code calls.  The callbacks of a session run inside its operations; here an
  operation is applied to the session and the callbacks it made are then run in their order, which is the same because a
  callback never calls back into the session.  \<open>None\<close> is an exception that leaves the task.
\<close>

section \<open>State\<close>

record 'j core_env =
  ce_json :: "'j json_ops"
  ce_parse :: "bytes \<Rightarrow> 'j"
  ce_discarded :: "'j \<Rightarrow> bool"
  ce_dump :: "'j \<Rightarrow> bytes"
  ce_sha :: "bytes \<Rightarrow> string"
  ce_empty :: "fspath \<Rightarrow> world \<Rightarrow> bool"
  ce_fs :: "fspath fs_ops"
  ce_build :: build
  ce_now :: int
  ce_hex :: string
  ce_rd :: nat
  ce_jn :: "rcv \<Rightarrow> rcv"
  ce_rc :: "nat \<Rightarrow> int"
  ce_created :: bool
  ce_connected :: int
  ce_new_tx :: tx_state
  ce_new_rx :: rcv

record Share =
  sh_id :: string
  sh_share_id :: string
  sh_code :: string
  sh_expires_at :: int
  sh_mode :: string
  sh_ttl_sec :: int
  sh_state :: string
  sh_error :: string
  sh_paths :: "string list"
  sh_manifest :: Manifest
  sh_files :: "fspath list"
  sh_sessions :: "(string \<times> string) list"
  sh_receivers :: int
  sh_completed :: int

record 'j Receive =
  rv_transfer_id :: string
  rv_code :: string
  rv_save_dir :: string
  rv_resume_token :: string
  rv_session_id :: string
  rv_state :: string
  rv_error_code :: string
  rv_error_message :: string
  rv_meta_json :: string
  rv_record :: 'j
  rv_created_at :: int
  rv_tried_token :: bool
  rv_active :: bool

text \<open>\<open>tr_owner\<close> identifies the session object.\<close>

record 'j Transfer =
  tr_session :: "'j session"
  tr_link :: link
  tr_share_local_id :: string
  tr_receive_id :: string
  tr_closing :: bool
  tr_owner :: nat

text \<open>\<open>co_out\<close> are the events emitted, \<open>co_saved\<close> and \<open>co_saved_cfg\<close> the receive lists and
configurations handed to the storage, \<open>co_linger\<close> the posted linger
tasks, \<open>co_next\<close> the number of session objects made so far and \<open>co_null_call\<close> says that a call has gone through a null \<^verbatim>\<open>peer_\<close>,
after which the process is gone.\<close>

record 'j core =
  co_cfg :: Config
  co_peer :: "peer option"
  co_peer_id :: string
  co_signal_connected :: bool
  co_notifications :: 'j
  co_shares :: "(string \<times> Share) list"
  co_share_queue :: "string list"
  co_share_inflight :: bool
  co_receives :: "(string \<times> 'j Receive) list"
  co_claim_queue :: "string list"
  co_claim_inflight :: bool
  co_transfers :: "(string \<times> 'j Transfer) list"
  co_transfer_ids :: "(string \<times> string) list"
  co_last_persist_ms :: int
  co_out :: "'j list"
  co_saved :: "'j list list"
  co_saved_cfg :: "'j list"
  co_linger :: "(string \<times> nat) list"
  co_next :: nat
  co_null_call :: bool

definition omap_del :: "'k \<Rightarrow> ('k \<times> 'v) list \<Rightarrow> ('k \<times> 'v) list" where
  "omap_del k m = filter (\<lambda>(a, _). a \<noteq> k) m"

definition omap_upd :: "'k \<Rightarrow> ('v \<Rightarrow> 'v) \<Rightarrow> ('k \<times> 'v) list \<Rightarrow> ('k \<times> 'v) list" where
  "omap_upd k f m = map (\<lambda>(a, v). (a, if a = k then f v else v)) m"

abbreviation share_of :: "'j core \<Rightarrow> string \<Rightarrow> Share option" where
  "share_of c k \<equiv> map_of (co_shares c) k"

abbreviation receive_of :: "'j core \<Rightarrow> string \<Rightarrow> 'j Receive option" where
  "receive_of c k \<equiv> map_of (co_receives c) k"

abbreviation transfer_of :: "'j core \<Rightarrow> string \<Rightarrow> 'j Transfer option" where
  "transfer_of c k \<equiv> map_of (co_transfers c) k"

definition upd_share :: "string \<Rightarrow> (Share \<Rightarrow> Share) \<Rightarrow> 'j core \<Rightarrow> 'j core" where
  "upd_share k f c = c\<lparr>co_shares := omap_upd k f (co_shares c)\<rparr>"

definition upd_receive :: "string \<Rightarrow> ('j Receive \<Rightarrow> 'j Receive) \<Rightarrow> 'j core \<Rightarrow> 'j core" where
  "upd_receive k f c = c\<lparr>co_receives := omap_upd k f (co_receives c)\<rparr>"

definition upd_transfer :: "string \<Rightarrow> ('j Transfer \<Rightarrow> 'j Transfer) \<Rightarrow> 'j core \<Rightarrow> 'j core" where
  "upd_transfer k f c = c\<lparr>co_transfers := omap_upd k f (co_transfers c)\<rparr>"

section \<open>Events\<close>

definition Emit :: "'j core_env \<Rightarrow> (string \<times> 'j) list \<Rightarrow> 'j core \<Rightarrow> 'j core" where
  "Emit E ev c = c\<lparr>co_out := co_out c @ [j_object (ce_json E) (ev @ [(''ts'', j_int (ce_json E) (ce_now E))])]\<rparr>"

definition emit_error :: "'j core_env \<Rightarrow> string \<Rightarrow> 'j core \<Rightarrow> 'j core" where
  "emit_error E err = Emit E (let J = ce_json E in
     [(''type'', j_string J ''error''), (''code'', j_string J ''peer''), (''message'', j_string J err)])"

definition share_event :: "'j json_ops \<Rightarrow> Config \<Rightarrow> Share \<Rightarrow> (string \<times> 'j) list" where
  "share_event J cfg s =
     [(''type'', j_string J ''share_state''), (''id'', j_string J (sh_id s)), (''share_id'', j_string J (sh_share_id s)),
      (''state'', j_string J (sh_state s)), (''mode'', j_string J (sh_mode s)),
      (''code'', j_string J (if sh_code s = [] then [] else Format (sh_code s))),
      (''link'', j_string J (if c_link_host cfg = [] then MakeSchemeLink (sh_code s) else MakeHttpsLink (c_link_host cfg) (sh_code s))),
      (''scheme_link'', j_string J (MakeSchemeLink (sh_code s))), (''expires_at'', j_int J (sh_expires_at s)),
      (''files'', j_u64 J (of_nat (length (m_files (sh_manifest s))))), (''bytes'', j_u64 J (m_total_bytes (sh_manifest s))),
      (''receivers'', j_int J (sh_receivers s)), (''completed'', j_int J (sh_completed s)), (''error'', j_string J (sh_error s))]"

definition EmitShare :: "'j core_env \<Rightarrow> string \<Rightarrow> 'j core \<Rightarrow> 'j core" where
  "EmitShare E k c = (case share_of c k of None \<Rightarrow> c | Some s \<Rightarrow> Emit E (share_event (ce_json E) (co_cfg c) s) c)"

definition receive_event :: "'j core_env \<Rightarrow> 'j Receive \<Rightarrow> (string \<times> 'j) list" where
  "receive_event E r =
     (let J = ce_json E; meta = ce_parse E (map byte (rv_meta_json r)) in
      [(''type'', j_string J ''receive_state''), (''transfer_id'', j_string J (rv_transfer_id r)),
       (''code'', j_string J (Format (rv_code r))), (''state'', j_string J (rv_state r)), (''save_dir'', j_string J (rv_save_dir r)),
       (''session_id'', j_string J (rv_session_id r)), (''resumable'', j_bool J (rv_resume_token r \<noteq> [])),
       (''error_code'', j_string J (rv_error_code r)), (''error_message'', j_string J (rv_error_message r))] @
      (if rv_meta_json r \<noteq> [] \<and> \<not> ce_discarded E meta then [(''meta'', meta)] else []))"

definition EmitReceive :: "'j core_env \<Rightarrow> string \<Rightarrow> 'j core \<Rightarrow> 'j core" where
  "EmitReceive E k c = (case receive_of c k of None \<Rightarrow> c | Some r \<Rightarrow> Emit E (receive_event E r) c)"

definition eta_sec :: "TransferSnapshot \<Rightarrow> int" where
  "eta_sec s = (if 0 < sn_rate_bps s \<and> sn_bytes_done s < sn_bytes_total s
     then sint ((sn_bytes_total s - sn_bytes_done s) * 8 div of_int (sn_rate_bps s)) else - 1)"

definition SnapshotJson :: "'j json_ops \<Rightarrow> 'j core \<Rightarrow> TransferSnapshot \<Rightarrow> (string \<times> 'j) list" where
  "SnapshotJson J c s =
     [(''transfer_id'', j_string J (sn_transfer_id s)), (''session_id'', j_string J (sn_session_id s)),
      (''share_id'', j_string J (case transfer_of c (sn_session_id s) of None \<Rightarrow> [] | Some t \<Rightarrow> tr_share_local_id t)),
      (''role'', j_string J (sn_role s)), (''state'', j_string J (TransferStateName (sn_state s))),
      (''error_code'', j_string J (sn_error_code s)), (''error_message'', j_string J (sn_error_message s)),
      (''path'', j_string J (PathName (sn_path s))), (''bytes_total'', j_u64 J (sn_bytes_total s)),
      (''bytes_done'', j_u64 J (sn_bytes_done s)), (''files_total'', j_u64 J (ucast (sn_files_total s))),
      (''files_done'', j_u64 J (ucast (sn_files_done s))), (''rate_bps'', j_int J (sn_rate_bps s)),
      (''loss_permille'', j_u64 J (ucast (sn_loss_permille s))), (''current_file'', j_int J (sn_current_file s)),
      (''eta_sec'', j_int J (eta_sec s))]"

section \<open>Stored receives\<close>

definition receive_json :: "'j json_ops \<Rightarrow> 'j Receive \<Rightarrow> 'j" where
  "receive_json J r =
     j_object J [(''transfer_id'', j_string J (rv_transfer_id r)), (''code'', j_string J (rv_code r)),
       (''save_dir'', j_string J (rv_save_dir r)), (''resume_token'', j_string J (rv_resume_token r)),
       (''state'', j_string J (rv_state r)), (''error_code'', j_string J (rv_error_code r)),
       (''created_at'', j_int J (rv_created_at r)), (''meta'', j_string J (rv_meta_json r)), (''record'', rv_record r)]"

definition unfinished :: "'j Receive \<Rightarrow> bool" where
  "unfinished r \<longleftrightarrow> rv_state r \<noteq> ''completed'' \<and> rv_state r \<noteq> ''cancelled''"

definition SaveReceives :: "'j core_env \<Rightarrow> 'j core \<Rightarrow> 'j core" where
  "SaveReceives E c =
     c\<lparr>co_saved := co_saved c @ [map (receive_json (ce_json E)) (filter unfinished (map snd (co_receives c)))]\<rparr>"

definition new_Receive :: "'j json_ops \<Rightarrow> 'j Receive" where
  "new_Receive J = \<lparr>rv_transfer_id = [], rv_code = [], rv_save_dir = [], rv_resume_token = [], rv_session_id = [],
     rv_state = ''claiming'', rv_error_code = [], rv_error_message = [], rv_meta_json = [], rv_record = j_null J,
     rv_created_at = 0, rv_tried_token = False, rv_active = False\<rparr>"

definition load_receive :: "'j json_ops \<Rightarrow> 'j \<Rightarrow> 'j Receive option" where
  "load_receive J j =
     do { transfer_id \<leftarrow> j_value_string J j ''transfer_id'' [];
          code \<leftarrow> j_value_string J j ''code'' [];
          save_dir \<leftarrow> j_value_string J j ''save_dir'' [];
          token \<leftarrow> j_value_string J j ''resume_token'' [];
          error_code \<leftarrow> j_value_string J j ''error_code'' [];
          created_at \<leftarrow> j_value_int J j ''created_at'' 0;
          meta \<leftarrow> j_value_string J j ''meta'' [];
          Some ((new_Receive J)\<lparr>rv_transfer_id := transfer_id, rv_code := code, rv_save_dir := save_dir, rv_resume_token := token,
            rv_state := ''interrupted'', rv_error_code := error_code, rv_created_at := created_at, rv_meta_json := meta,
            rv_record := (case j_find J j ''record'' of None \<Rightarrow> j_null J | Some v \<Rightarrow> v)\<rparr>) }"

fun load_loop :: "'j json_ops \<Rightarrow> 'j list \<Rightarrow> (string \<times> 'j Receive) list \<Rightarrow> (string \<times> 'j Receive) list option" where
  "load_loop J [] m = Some m"
| "load_loop J (j # js) m =
     (if \<not> j_is_object J j then load_loop J js m
      else do { r \<leftarrow> load_receive J j;
                load_loop J js (if rv_transfer_id r = [] \<or> rv_code r = [] then m else omap_put (rv_transfer_id r) r m) })"

definition LoadReceives :: "'j core_env \<Rightarrow> 'j list \<Rightarrow> 'j core \<Rightarrow> 'j core option" where
  "LoadReceives E stored c = map_option (\<lambda>m. c\<lparr>co_receives := m\<rparr>) (load_loop (ce_json E) stored (co_receives c))"

definition FinishReceive :: "'j core_env \<Rightarrow> string \<Rightarrow> string \<Rightarrow> string \<Rightarrow> string \<Rightarrow> 'j core \<Rightarrow> 'j core" where
  "FinishReceive E k state code message c =
     SaveReceives E (EmitReceive E k
       (upd_receive k (\<lambda>r. r\<lparr>rv_state := state, rv_error_code := code, rv_error_message := message, rv_active := False\<rparr>) c))"

section \<open>Peer\<close>

definition EnsurePeer :: "'j core_env \<Rightarrow> 'j core \<Rightarrow> (string + unit) \<times> 'j core" where
  "EnsurePeer E c =
     (if co_peer c \<noteq> None then (Inr (), c)
      else if c_server_host (co_cfg c) = [] then (Inl ''server host not configured'', c)
      else case Connect (ce_created E) (ce_connected E) (new_peer (ToPeerConfig (co_cfg c))) of
        (Inl e, _) \<Rightarrow> (Inl e, c)
      | (Inr _, p) \<Rightarrow> (Inr (), c\<lparr>co_peer := Some p\<rparr>))"

text \<open>A call through \<^verbatim>\<open>peer_\<close>; the answer of the library depends on the calls so far.  \<open>if_peer\<close> is a call under the test
\<^verbatim>\<open>if (peer_)\<close>.\<close>

definition peer_call :: "'j core_env \<Rightarrow> (int \<Rightarrow> peer \<Rightarrow> int \<times> peer) \<Rightarrow> 'j core \<Rightarrow> int \<times> 'j core" where
  "peer_call E f c =
     (case co_peer c of None \<Rightarrow> (- 1, c\<lparr>co_null_call := True\<rparr>)
      | Some p \<Rightarrow> (case f (ce_rc E (length (pe_calls p))) p of (r, p1) \<Rightarrow> (r, c\<lparr>co_peer := Some p1\<rparr>)))"

definition if_peer :: "'j core_env \<Rightarrow> (int \<Rightarrow> peer \<Rightarrow> int \<times> peer) \<Rightarrow> 'j core \<Rightarrow> 'j core" where
  "if_peer E f c = (if Option.is_none (co_peer c) then c else snd (peer_call E f c))"

definition OnNotificationsTask :: "'j core_env \<Rightarrow> string \<Rightarrow> 'j core \<Rightarrow> 'j core" where
  "OnNotificationsTask E snapshot c =
     (let J = ce_json E; ev = ce_parse E (map byte snapshot) in
      case (if j_is_object J ev then j_find J ev ''items'' else None) of None \<Rightarrow> c
      | Some items \<Rightarrow>
          if j_is_array J items
          then Emit E [(''type'', j_string J ''notifications''), (''items'', items)] (c\<lparr>co_notifications := items\<rparr>) else c)"

section \<open>Transfers\<close>

definition DropTransfer :: "string \<Rightarrow> 'j core \<Rightarrow> 'j core" where
  "DropTransfer sid c =
     (case transfer_of c sid of None \<Rightarrow> c
      | Some t \<Rightarrow> c\<lparr>co_transfer_ids := omap_del (sn_transfer_id (ss_snap (tr_session t))) (co_transfer_ids c),
                    co_peer := (if lk_attached (tr_link t) then map_option (RemoveDataSink sid (tr_owner t)) (co_peer c) else co_peer c),
                    co_transfers := omap_del sid (co_transfers c)\<rparr>)"

definition share_done :: "'j core_env \<Rightarrow> TransferSnapshot \<Rightarrow> string \<Rightarrow> 'j core \<Rightarrow> 'j core" where
  "share_done E snap k c =
     (let c1 = upd_share k (\<lambda>s. s\<lparr>sh_sessions := omap_del (sn_session_id snap) (sh_sessions s),
                 sh_completed := (if sn_state snap = kCompleted then sh_completed s + 1 else sh_completed s)\<rparr>) c
      in case share_of c1 k of None \<Rightarrow> c1
      | Some s \<Rightarrow>
        EmitShare E k
          (if sh_mode s = ''once'' then
             (if sn_state snap = kCompleted then
                (let c2 = upd_share k (\<lambda>s. s\<lparr>sh_state := ''completed''\<rparr>) c1 in
                 if co_signal_connected c2 \<and> sh_share_id s \<noteq> [] then if_peer E (CloseShare (sh_share_id s)) c2 else c2)
              else if sh_state s \<noteq> ''closed'' then upd_share k (\<lambda>s. s\<lparr>sh_state := ''claimed'', sh_error := sn_error_code snap\<rparr>) c1
              else c1)
           else if sh_sessions s = [] then upd_share k (\<lambda>s. s\<lparr>sh_state := ''ready''\<rparr>) c1
           else c1))"

definition FindReceiveBySession :: "'j core \<Rightarrow> string \<Rightarrow> string option" where
  "FindReceiveBySession c sid = map_option fst (find (\<lambda>(_, r). rv_session_id r = sid \<and> rv_active r) (co_receives c))"

definition receive_done :: "'j json_ops \<Rightarrow> TransferSnapshot \<Rightarrow> 'j Receive \<Rightarrow> 'j Receive" where
  "receive_done J snap r =
     (let r1 = r\<lparr>rv_state := TransferStateName (sn_state snap)\<rparr> in
      if \<not> Terminal (sn_state snap) then r1
      else let r2 = r1\<lparr>rv_error_code := sn_error_code snap, rv_error_message := sn_error_message snap, rv_active := False\<rparr> in
        if sn_state snap = kCompleted \<or> sn_state snap = kCancelled
        then r2\<lparr>rv_record := j_null J, rv_resume_token := []\<rparr> else r2)"

definition OnTransferState :: "'j core_env \<Rightarrow> TransferSnapshot \<Rightarrow> 'j core \<Rightarrow> 'j core" where
  "OnTransferState E snap c =
     (let J = ce_json E; sid = sn_session_id snap; terminal = Terminal (sn_state snap);
          c1 = Emit E (SnapshotJson J c snap @ [(''type'', j_string J ''transfer_state'')]) c;
          c2 = (if sn_role snap = ''sender'' then
                  (case transfer_of c1 sid of None \<Rightarrow> c1
                   | Some t \<Rightarrow> if share_of c1 (tr_share_local_id t) \<noteq> None \<and> terminal
                       then share_done E snap (tr_share_local_id t) c1 else c1)
                else case FindReceiveBySession c1 sid of None \<Rightarrow> c1
                | Some k \<Rightarrow>
                    (let c3 = EmitReceive E k (upd_receive k (receive_done J snap) c1)
                     in if terminal then SaveReceives E c3 else c3))
      in case transfer_of c2 sid of None \<Rightarrow> c2
         | Some t \<Rightarrow> if terminal \<and> \<not> tr_closing t
             then (upd_transfer sid (\<lambda>t. t\<lparr>tr_closing := True\<rparr>) c2)\<lparr>co_linger := co_linger c2 @ [(sid, tr_owner t)]\<rparr>
             else c2)"

definition OnTransferProgress :: "'j core_env \<Rightarrow> TransferSnapshot \<Rightarrow> 'j core \<Rightarrow> 'j core" where
  "OnTransferProgress E snap c =
     Emit E (SnapshotJson (ce_json E) c snap @ [(''type'', j_string (ce_json E) ''transfer_progress'')]) c"

definition OnPersist :: "'j core_env \<Rightarrow> string \<Rightarrow> 'j \<Rightarrow> bool \<Rightarrow> 'j core \<Rightarrow> 'j core" where
  "OnPersist E k record is_null c =
     (case receive_of c k of None \<Rightarrow> c
      | Some _ \<Rightarrow>
        (let c1 = upd_receive k (\<lambda>r. r\<lparr>rv_record := record\<rparr>) c in
         if is_null \<or> 1000 < ce_now E - co_last_persist_ms c1
         then SaveReceives E (c1\<lparr>co_last_persist_ms := ce_now E\<rparr>) else c1))"

text \<open>The callbacks of the session \<open>sid\<close> of transfer \<open>tid\<close>; only a receiving session (\<open>rcv\<close>) has one that persists.\<close>

definition session_event :: "'j core_env \<Rightarrow> string \<Rightarrow> bool \<Rightarrow> string \<Rightarrow> 'j ss_event \<Rightarrow> 'j core \<Rightarrow> 'j core" where
  "session_event E sid rcv tid e c =
     (case e of
        CtrlOut j \<Rightarrow> upd_transfer sid (\<lambda>t. t\<lparr>tr_link := SendCtrl (ce_dump E j) False (tr_link t)\<rparr>) c
      | StateOut snap \<Rightarrow> OnTransferState E snap c
      | ProgressOut snap \<Rightarrow> OnTransferProgress E snap c
      | PersistOut record \<Rightarrow> if rcv then OnPersist E tid record False c else c
      | PersistClear \<Rightarrow> if rcv then OnPersist E tid (j_null (ce_json E)) True c else c
      | TimerOut \<Rightarrow> c)"

definition on_session :: "'j core_env \<Rightarrow> string \<Rightarrow> ('j session \<Rightarrow> 'j session option) \<Rightarrow> 'j core \<Rightarrow> 'j core option" where
  "on_session E sid f c =
     (case transfer_of c sid of None \<Rightarrow> Some c
      | Some t \<Rightarrow>
          map_option (\<lambda>s. fold (session_event E sid (sn_role (ss_snap s) = ''receiver'') (sn_transfer_id (ss_snap s))) (ss_out s)
              (upd_transfer sid (\<lambda>t. t\<lparr>tr_session := s\<lparr>ss_out := []\<rparr>\<rparr>) c))
            (f (tr_session t)))"

definition total_session :: "'j core_env \<Rightarrow> string \<Rightarrow> ('j session \<Rightarrow> 'j session) \<Rightarrow> 'j core \<Rightarrow> 'j core" where
  "total_session E sid f c = (case on_session E sid (\<lambda>s. Some (f s)) c of None \<Rightarrow> c | Some c1 \<Rightarrow> c1)"

definition cancel_session :: "'j core_env \<Rightarrow> string \<Rightarrow> string \<Rightarrow> 'j core \<Rightarrow> 'j core" where
  "cancel_session E reason sid = total_session E sid (ss_Cancel (ce_json E) (ce_jn E) (ce_empty E) reason)"

section \<open>Shares\<close>

definition closed_share :: "Share \<Rightarrow> bool" where
  "closed_share s \<longleftrightarrow> sh_state s = ''completed'' \<or> sh_state s = ''closed'' \<or> sh_state s = ''failed''"

definition CloseShareInternal :: "'j core_env \<Rightarrow> string \<Rightarrow> string \<Rightarrow> string \<Rightarrow> 'j core \<Rightarrow> 'j core" where
  "CloseShareInternal E k state reason c =
     (case share_of c k of None \<Rightarrow> c
      | Some s \<Rightarrow>
        if closed_share s then c
        else let c1 = (if sh_share_id s \<noteq> [] \<and> co_signal_connected c then if_peer E (CloseShare (sh_share_id s)) c else c);
                 c2 = fold (cancel_session E reason) (map fst (sh_sessions s)) c1
             in EmitShare E k (upd_share k (\<lambda>s. s\<lparr>sh_state := state, sh_error := reason\<rparr>) c2))"

text \<open>\<^verbatim>\<open>PumpShareCreates\<close> and \<^verbatim>\<open>DoShareCreate\<close>, which call each other.\<close>

definition share_meta :: "'j json_ops \<Rightarrow> Manifest \<Rightarrow> 'j" where
  "share_meta J m = j_object J [(''files'', j_u64 J (of_nat (length (m_files m)))), (''bytes'', j_u64 J (m_total_bytes m)),
     (''name'', j_string J (case m_roots m of [] \<Rightarrow> [] | r # _ \<Rightarrow> mr_name r)), (''roots'', j_u64 J (of_nat (length (m_roots m))))]"

fun pump_shares :: "'j core_env \<Rightarrow> string list \<Rightarrow> 'j core \<Rightarrow> 'j core" where
  "pump_shares E [] c = c\<lparr>co_share_queue := []\<rparr>"
| "pump_shares E (k # q) c =
     (if co_share_inflight c \<or> \<not> co_signal_connected c then c\<lparr>co_share_queue := k # q\<rparr>
      else case share_of c k of None \<Rightarrow> pump_shares E q c
      | Some s \<Rightarrow>
        if sh_state s \<noteq> ''creating'' then pump_shares E q c
        else case peer_call E (CreateShare (sh_mode s) (sh_ttl_sec s) (ce_dump E (share_meta (ce_json E) (sh_manifest s)))) c of
          (r, c1) \<Rightarrow>
            if r \<noteq> 0
            then pump_shares E q (EmitShare E k (upd_share k (\<lambda>s. s\<lparr>sh_state := ''failed'', sh_error := ''create_share send failed''\<rparr>) c1))
            else c1\<lparr>co_share_queue := q, co_share_inflight := True\<rparr>)"

definition PumpShareCreates :: "'j core_env \<Rightarrow> 'j core \<Rightarrow> 'j core" where
  "PumpShareCreates E c = pump_shares E (co_share_queue c) c"

text \<open>What \<^verbatim>\<open>ShareCreate\<close> checks; the mode and time to live it posts.\<close>

definition ShareCreate :: "'j json_ops \<Rightarrow> Config \<Rightarrow> string list \<Rightarrow> 'j \<Rightarrow> (string \<times> int) outcome" where
  "ShareCreate J cfg paths options =
     (if paths = [] then Fail ''no paths''
      else case (if j_is_object J options
                 then do { m \<leftarrow> j_value_string J options ''mode'' (c_share_mode cfg);
                           t \<leftarrow> j_value_int J options ''ttl_sec'' (c_share_ttl_sec cfg); Some (m, t) }
                 else Some (c_share_mode cfg, c_share_ttl_sec cfg)) of None \<Rightarrow> Throw
      | Some (mode, ttl) \<Rightarrow>
          if mode \<noteq> ''once'' \<and> mode \<noteq> ''open'' then Fail ''mode must be once|open'' else Done (mode, ttl))"

definition new_Share :: "string \<Rightarrow> string \<Rightarrow> int \<Rightarrow> string list \<Rightarrow> Share" where
  "new_Share k mode ttl paths = \<lparr>sh_id = k, sh_share_id = [], sh_code = [], sh_expires_at = 0, sh_mode = mode, sh_ttl_sec = ttl,
     sh_state = ''creating'', sh_error = [], sh_paths = paths, sh_manifest = empty_manifest, sh_files = [], sh_sessions = [],
     sh_receivers = 0, sh_completed = 0\<rparr>"

definition put_share :: "string \<Rightarrow> Share \<Rightarrow> 'j core \<Rightarrow> 'j core" where
  "put_share k s c = c\<lparr>co_shares := omap_put k s (co_shares c)\<rparr>"

definition share_create_task :: "'j core_env \<Rightarrow> string \<Rightarrow> string list \<Rightarrow> string \<Rightarrow> int \<Rightarrow> 'j core \<Rightarrow> 'j core option" where
  "share_create_task E k paths mode ttl c =
     (let s = new_Share k mode ttl paths in
      case BuildManifest (ce_fs E) paths of
        Throw \<Rightarrow> None
      | Fail err \<Rightarrow> Some (EmitShare E k (put_share k (s\<lparr>sh_state := ''failed'', sh_error := err\<rparr>) c))
      | Done (m, files) \<Rightarrow>
          let c1 = EmitShare E k (put_share k (s\<lparr>sh_manifest := m, sh_files := files\<rparr>) c) in
          Some (case EnsurePeer E c1 of
             (Inl err, c2) \<Rightarrow> EmitShare E k (upd_share k (\<lambda>s. s\<lparr>sh_state := ''failed'', sh_error := err\<rparr>) c2)
           | (Inr _, c2) \<Rightarrow> PumpShareCreates E (c2\<lparr>co_share_queue := co_share_queue c2 @ [k]\<rparr>)))"

definition FindShareByServerId :: "'j core \<Rightarrow> string \<Rightarrow> string option" where
  "FindShareByServerId c share_id = map_option fst (find (\<lambda>(_, s). sh_share_id s = share_id) (co_shares c))"

definition FindShareBySession :: "'j core \<Rightarrow> string \<Rightarrow> string option" where
  "FindShareBySession c sid = map_option fst (find (\<lambda>(_, s). map_of (sh_sessions s) sid \<noteq> None) (co_shares c))"

text \<open>The share a created or failed event is taken to answer.\<close>

definition creating_share :: "'j core \<Rightarrow> string option" where
  "creating_share c = map_option fst (find (\<lambda>(_, s). sh_state s = ''creating'' \<and> sh_share_id s = []) (co_shares c))"

definition OnShareEvent :: "'j core_env \<Rightarrow> MiniRtcShareEvent \<Rightarrow> string \<Rightarrow> string \<Rightarrow> int \<Rightarrow> string \<Rightarrow> 'j core \<Rightarrow> 'j core" where
  "OnShareEvent E ev share_id code expires_at detail c =
     (case ev of
        ShareCreated \<Rightarrow>
          (let c1 = c\<lparr>co_share_inflight := False\<rparr> in
           case creating_share c1 of None \<Rightarrow> snd (peer_call E (CloseShare share_id) c1)
           | Some k \<Rightarrow> PumpShareCreates E (EmitShare E k (upd_share k (\<lambda>s. s\<lparr>sh_share_id := share_id, sh_code := Normalize code,
               sh_expires_at := expires_at, sh_state := ''ready''\<rparr>) c1)))
      | ShareFailed \<Rightarrow>
          (let c1 = c\<lparr>co_share_inflight := False\<rparr> in
           PumpShareCreates E (case creating_share c1 of None \<Rightarrow> c1
             | Some k \<Rightarrow> EmitShare E k (upd_share k (\<lambda>s. s\<lparr>sh_state := ''failed'', sh_error := detail\<rparr>) c1)))
      | ShareClaimed \<Rightarrow>
          (case FindShareByServerId c share_id of None \<Rightarrow> c
           | Some k \<Rightarrow> EmitShare E k (upd_share k (\<lambda>s. s\<lparr>sh_receivers := sh_receivers s + 1,
               sh_sessions := (if detail \<noteq> [] then omap_put detail [] (sh_sessions s) else sh_sessions s),
               sh_state := (if sh_state s = ''ready'' then ''claimed'' else sh_state s)\<rparr>) c))
      | ShareClosed \<Rightarrow>
          (case FindShareByServerId c share_id of None \<Rightarrow> c
           | Some k \<Rightarrow>
             (case share_of c k of None \<Rightarrow> c
              | Some s \<Rightarrow> if closed_share s then c
                  else if sh_sessions s = [] then CloseShareInternal E k ''closed'' detail c
                  else EmitShare E k (upd_share k (\<lambda>s. s\<lparr>sh_error := detail\<rparr>) c))))"

definition ShareClose :: "'j core_env \<Rightarrow> string \<Rightarrow> 'j core \<Rightarrow> 'j core" where
  "ShareClose E share_id c =
     (case share_of c share_id of
        None \<Rightarrow> (case FindShareByServerId c share_id of None \<Rightarrow> c | Some k \<Rightarrow> CloseShareInternal E k ''closed'' ''user'' c)
      | Some _ \<Rightarrow> CloseShareInternal E share_id ''closed'' ''user'' c)"

section \<open>Receives\<close>

fun pump_claims :: "'j core_env \<Rightarrow> string list \<Rightarrow> 'j core \<Rightarrow> 'j core" where
  "pump_claims E [] c = c\<lparr>co_claim_queue := []\<rparr>"
| "pump_claims E (k # q) c =
     (if co_claim_inflight c \<or> \<not> co_signal_connected c then c\<lparr>co_claim_queue := k # q\<rparr>
      else case receive_of c k of None \<Rightarrow> pump_claims E q c
      | Some r \<Rightarrow>
        if rv_state r \<noteq> ''claiming'' then pump_claims E q c
        else let token = rv_resume_token r \<noteq> [] \<and> \<not> rv_tried_token r;
                 c1 = (if token then upd_receive k (\<lambda>r. r\<lparr>rv_tried_token := True\<rparr>) c else c)
             in case peer_call E (if token then Claim [] (rv_resume_token r) else Claim (rv_code r) []) c1 of
               (rc, c2) \<Rightarrow>
                 if rc \<noteq> 0 then pump_claims E q (FinishReceive E k ''failed'' ''claim'' ''claim send failed'' c2)
                 else c2\<lparr>co_claim_queue := q, co_claim_inflight := True\<rparr>)"

definition PumpClaims :: "'j core_env \<Rightarrow> 'j core \<Rightarrow> 'j core" where
  "PumpClaims E c = pump_claims E (co_claim_queue c) c"

definition StartClaim :: "'j core_env \<Rightarrow> string \<Rightarrow> 'j core \<Rightarrow> 'j core" where
  "StartClaim E k c =
     (let c1 = EmitReceive E k (upd_receive k (\<lambda>r. r\<lparr>rv_active := True, rv_tried_token := False\<rparr>) c) in
      case EnsurePeer E c1 of
        (Inl err, c2) \<Rightarrow> FinishReceive E k ''failed'' ''peer'' err c2
      | (Inr _, c2) \<Rightarrow> PumpClaims E (c2\<lparr>co_claim_queue := co_claim_queue c2 @ [k]\<rparr>))"

definition put_receive :: "string \<Rightarrow> 'j Receive \<Rightarrow> 'j core \<Rightarrow> 'j core" where
  "put_receive k r c = c\<lparr>co_receives := omap_put k r (co_receives c)\<rparr>"

text \<open>\<open>None\<close>: the input is not a take code.  Otherwise the task with the new identifier \<open>k\<close>.\<close>

definition receive_start_task :: "'j core_env \<Rightarrow> string \<Rightarrow> string \<Rightarrow> string \<Rightarrow> 'j core \<Rightarrow> 'j core" where
  "receive_start_task E k code dir c =
     (case find (\<lambda>(_, r). rv_code r = code \<and> \<not> rv_active r \<and> rv_state r \<noteq> ''completed'' \<and> rv_state r \<noteq> ''cancelled'') (co_receives c) of
        Some (tid, r) \<Rightarrow>
          StartClaim E k (put_receive k (r\<lparr>rv_transfer_id := k, rv_save_dir := dir, rv_state := ''claiming'', rv_error_code := [],
            rv_error_message := []\<rparr>) (c\<lparr>co_receives := omap_del tid (co_receives c)\<rparr>))
      | None \<Rightarrow>
          StartClaim E k (put_receive k ((new_Receive (ce_json E))\<lparr>rv_transfer_id := k, rv_code := code, rv_save_dir := dir,
            rv_created_at := ce_now E\<rparr>) c))"

definition ReceiveStart :: "Config \<Rightarrow> string \<Rightarrow> string \<Rightarrow> (string \<times> string) option" where
  "ReceiveStart cfg code_or_link save_dir =
     (let code = ParseCodeOrLink code_or_link in
      if code = [] then None else Some (code, if save_dir = [] then c_save_dir cfg else save_dir))"

definition ReceiveResume :: "'j core_env \<Rightarrow> string \<Rightarrow> 'j core \<Rightarrow> 'j core" where
  "ReceiveResume E k c =
     (case receive_of c k of None \<Rightarrow> c
      | Some r \<Rightarrow>
        if rv_active r then c
        else if rv_state r = ''completed'' \<or> rv_state r = ''cancelled'' then c
        else StartClaim E k (upd_receive k (\<lambda>r. r\<lparr>rv_state := ''claiming'', rv_error_code := [], rv_error_message := []\<rparr>) c))"

text \<open>The receive a claim result is taken to answer: the one that was created first.\<close>

definition older :: "string \<times> 'j Receive \<Rightarrow> (string \<times> 'j Receive) option \<Rightarrow> (string \<times> 'j Receive) option" where
  "older p best =
     (if rv_state (snd p) = ''claiming'' \<and> rv_active (snd p)
      then (case best of None \<Rightarrow> Some p
            | Some b \<Rightarrow> if rv_created_at (snd p) < rv_created_at (snd b) then Some p else best)
      else best)"

definition oldest_claiming :: "'j core \<Rightarrow> string option" where
  "oldest_claiming c = map_option fst (fold older (co_receives c) None)"

definition OnClaimResult :: "'j core_env \<Rightarrow> MiniRtcClaimResult \<Rightarrow> string \<Rightarrow> string \<Rightarrow> string \<Rightarrow> 'j core \<Rightarrow> 'j core" where
  "OnClaimResult E res session_id token message c =
     (let c1 = c\<lparr>co_claim_inflight := False\<rparr> in
      case oldest_claiming c1 of None \<Rightarrow> PumpClaims E c1
      | Some k \<Rightarrow>
        (case receive_of c1 k of None \<Rightarrow> c1
         | Some r \<Rightarrow>
           PumpClaims E
             (if res = ClaimOk then
                SaveReceives E (EmitReceive E k (upd_receive k (\<lambda>r. r\<lparr>rv_session_id := session_id,
                  rv_resume_token := (if token \<noteq> [] then token else rv_resume_token r), rv_state := ''connecting''\<rparr>) c1))
              else if rv_tried_token r \<and> (res = ClaimCodeNotFound \<or> res = ClaimShareBusy) then
                (upd_receive k (\<lambda>r. r\<lparr>rv_resume_token := []\<rparr>) c1)\<lparr>co_claim_queue := rv_transfer_id r # co_claim_queue c1\<rparr>
              else FinishReceive E k ''failed'' (ClaimResultName res) message c1)))"

end
