(* ===== verification/Core_Loop.thy ===== *)
theory Core_Loop
  imports Core
begin

text \<open>
  The core continued, \<^verbatim>\<open>core/src/api/core.cpp\<close>: sessions of the transport, transfer control, configuration, queries, start and
  shutdown, and all of it as one machine of event loop tasks.
\<close>

section \<open>Sessions\<close>

definition new_session :: "'j core_env \<Rightarrow> string \<Rightarrow> string \<Rightarrow> string \<Rightarrow> 'j session" where
  "new_session E sid role tid =
     \<lparr>ss_is_sender = (role = ''sender''),
      ss_snap = \<lparr>sn_transfer_id = tid, sn_session_id = sid, sn_role = role, sn_state = kConnecting, sn_error_code = [],
        sn_error_message = [], sn_path = PathUnknown, sn_bytes_total = 0, sn_bytes_done = 0, sn_files_total = 0, sn_files_done = 0,
        sn_rate_bps = 0, sn_loss_permille = 0, sn_current_file = - 1\<rparr>,
      ss_transport_ready = False, ss_offer_sent = False, ss_accept_received = False, ss_paused = False,
      ss_progress_scheduled = False, ss_done_sent = False, ss_sender_confirmed = False, ss_manifest = empty_manifest,
      ss_files = [], ss_sender = None, ss_file_ok = [], ss_save_dir = [], ss_resume = j_null (ce_json E), ss_names = [],
      ss_receiver = None, ss_new_tx = ce_new_tx E, ss_new_rx = ce_new_rx E, ss_out = []\<rparr>"

text \<open>\<^verbatim>\<open>MakeSession\<close> with the input its callers set right after it; \<^verbatim>\<open>Attach\<close> of the new link calls the peer.\<close>

definition MakeSession ::
  "'j core_env \<Rightarrow> string \<Rightarrow> string \<Rightarrow> string \<Rightarrow> ('j session \<Rightarrow> 'j session) \<Rightarrow> string \<Rightarrow> string \<Rightarrow> 'j core \<Rightarrow> 'j core" where
  "MakeSession E sid role tid input share_local receive c =
     c\<lparr>co_transfers := omap_put sid \<lparr>tr_session = input (new_session E sid role tid), tr_link = Attach new_link,
         tr_share_local_id = share_local, tr_receive_id = receive, tr_closing = False, tr_owner = co_next c\<rparr> (co_transfers c),
       co_transfer_ids := omap_put tid sid (co_transfer_ids c),
       co_peer := map_option (SetDataSink sid (co_next c)) (co_peer c), co_next := co_next c + 1,
       co_null_call := (co_null_call c \<or> Option.is_none (co_peer c))\<rparr>"

text \<open>Without a recorded session: the open share that expires last.\<close>

definition later :: "string \<times> Share \<Rightarrow> (string \<times> Share) option \<Rightarrow> (string \<times> Share) option" where
  "later p best =
     (if sh_state (snd p) = ''claimed'' \<or> sh_state (snd p) = ''transferring'' \<or> sh_state (snd p) = ''ready''
      then (case best of None \<Rightarrow> Some p
            | Some b \<Rightarrow> if sh_expires_at (snd b) < sh_expires_at (snd p) then Some p else best)
      else best)"

definition share_for_session :: "'j core \<Rightarrow> string \<Rightarrow> string option" where
  "share_for_session c sid =
     (case FindShareBySession c sid of Some k \<Rightarrow> Some k
      | None \<Rightarrow> map_option fst (fold later (co_shares c) None))"

definition connect_sender :: "'j core_env \<Rightarrow> SessionInfo \<Rightarrow> 'j core \<Rightarrow> 'j core" where
  "connect_sender E info c =
     (let sid = si_session_id info in
      case share_for_session c sid of None \<Rightarrow> snd (peer_call E (Leave sid) c)
      | Some k \<Rightarrow>
        (case share_of c k of None \<Rightarrow> c
         | Some s \<Rightarrow>
           let tid = ''tx_'' @ ce_hex E;
               c1 = upd_share k (\<lambda>s. s\<lparr>sh_sessions := omap_put sid tid (sh_sessions s), sh_state := ''transferring''\<rparr>) c
           in EmitShare E k (MakeSession E sid ''sender'' tid (SetSenderInput (sh_manifest s) (sh_files s)) (sh_id s) [] c1)))"

text \<open>Without a recorded session: the last receive that waits for a claim.\<close>

definition receive_for_session :: "'j core \<Rightarrow> string \<Rightarrow> string option" where
  "receive_for_session c sid =
     (case FindReceiveBySession c sid of Some k \<Rightarrow> Some k
      | None \<Rightarrow> map_option fst (fold (\<lambda>p best. if rv_state (snd p) = ''claiming'' \<and> rv_active (snd p) then Some p else best) (co_receives c) None))"

definition connect_receiver :: "'j core_env \<Rightarrow> SessionInfo \<Rightarrow> 'j core \<Rightarrow> 'j core" where
  "connect_receiver E info c =
     (let sid = si_session_id info in
      case receive_for_session c sid of None \<Rightarrow> snd (peer_call E (Leave sid) c)
      | Some k \<Rightarrow>
        (case receive_of c k of None \<Rightarrow> c
         | Some r \<Rightarrow>
           let c1 = upd_receive k (\<lambda>r. r\<lparr>rv_session_id := sid,
                 rv_resume_token := (if si_resume_token info \<noteq> [] then si_resume_token info else rv_resume_token r),
                 rv_meta_json := (if si_meta_json info \<noteq> [] then si_meta_json info else rv_meta_json r),
                 rv_state := ''connecting''\<rparr>) c
           in SaveReceives E (EmitReceive E k (MakeSession E sid ''receiver'' (rv_transfer_id r)
                (SetReceiverInput (fs_of_utf8 (ce_fs E) (rv_save_dir r)) (rv_record r)) [] (rv_transfer_id r) c1))))"

definition OnSession :: "'j core_env \<Rightarrow> SessionInfo \<Rightarrow> 'j core \<Rightarrow> 'j core" where
  "OnSession E info c =
     (let sid = si_session_id info in
      case si_status info of
        SessionConnecting \<Rightarrow>
          (case transfer_of c sid of
             Some t \<Rightarrow> if \<not> tr_closing t then c
               else let c1 = DropTransfer sid c in
                 if si_role info = ''sender'' then connect_sender E info c1 else connect_receiver E info c1
           | None \<Rightarrow> if si_role info = ''sender'' then connect_sender E info c else connect_receiver E info c)
      | SessionConnected \<Rightarrow>
          (case transfer_of c sid of None \<Rightarrow> c
           | Some _ \<Rightarrow>
             let c1 = total_session E sid (OnTransportReady (ce_json E) (ce_jn E) (si_path info)) c in
             case FindReceiveBySession c1 sid of None \<Rightarrow> c1
             | Some k \<Rightarrow> (case receive_of c1 k of None \<Rightarrow> c1
                 | Some r \<Rightarrow> if rv_state r = ''connecting''
                     then EmitReceive E k (upd_receive k (\<lambda>r. r\<lparr>rv_state := ''waiting_offer''\<rparr>) c1) else c1))
      | _ \<Rightarrow>
          (case transfer_of c sid of None \<Rightarrow> c
           | Some t \<Rightarrow>
             if tr_closing t then DropTransfer sid c
             else DropTransfer sid (total_session E sid (OnSessionEnd (ce_json E) (ce_jn E) (si_reason info)) c)))"

text \<open>The link and the snapshot of a session always hold the same path: both are set together.\<close>

definition OnStats :: "'j core_env \<Rightarrow> string \<Rightarrow> MiniRtcPath \<Rightarrow> 'j core \<Rightarrow> 'j core" where
  "OnStats E sid path c =
     (case transfer_of c sid of None \<Rightarrow> c
      | Some t \<Rightarrow> if sn_path (ss_snap (tr_session t)) \<noteq> path \<and> path \<noteq> PathUnknown
          then total_session E sid (OnPathChanged path) c else c)"

definition OnCtrl :: "'j core_env \<Rightarrow> string \<Rightarrow> bytes \<Rightarrow> 'j core \<Rightarrow> 'j core option" where
  "OnCtrl E sid data c =
     (case transfer_of c sid of None \<Rightarrow> Some c
      | Some t \<Rightarrow>
        (case OnCtrlChunk data (tr_link t) of (m, l) \<Rightarrow>
           let c1 = upd_transfer sid (\<lambda>t. t\<lparr>tr_link := l\<rparr>) c in
           case m of None \<Rightarrow> Some c1
           | Some message \<Rightarrow>
               on_session E sid (OnCtrlMessage (ce_json E) (ce_jn E) (ce_parse E) (ce_sha E) (ce_rd E) message) c1))"

text \<open>The posted linger task.\<close>

definition LingerTask :: "'j core_env \<Rightarrow> string \<Rightarrow> nat \<Rightarrow> 'j core \<Rightarrow> 'j core" where
  "LingerTask E sid owner c =
     (case transfer_of c sid of None \<Rightarrow> c
      | Some t \<Rightarrow>
        if tr_owner t \<noteq> owner then c
        else if lk_ctrl_queue (tr_link t) \<noteq> [] \<and> co_signal_connected c then c\<lparr>co_linger := co_linger c @ [(sid, owner)]\<rparr>
        else DropTransfer sid (if_peer E (Leave sid) c))"

section \<open>Signalling\<close>

definition signal_lost :: "'j core_env \<Rightarrow> 'j core \<Rightarrow> 'j core" where
  "signal_lost E c =
     (let c1 = c\<lparr>co_share_inflight := False, co_claim_inflight := False\<rparr>;
          c2 = fold (\<lambda>k c. case share_of c k of None \<Rightarrow> c
                 | Some s \<Rightarrow> if sh_state s = ''ready'' \<or> sh_state s = ''claimed'' \<or> sh_state s = ''transferring''
                     then CloseShareInternal E k ''failed'' ''signal_lost'' c else c) (map fst (co_shares c1)) c1
      in fold (\<lambda>k c. case receive_of c k of None \<Rightarrow> c
             | Some r \<Rightarrow> if rv_state r = ''claiming'' \<or> rv_state r = ''connecting'' \<or> rv_state r = ''waiting_offer''
                 then FinishReceive E k ''failed'' ''signal_lost'' ''signaling connection lost'' c else c) (map fst (co_receives c2)) c2)"

definition OnSignal :: "'j core_env \<Rightarrow> MiniRtcSignalStatus \<Rightarrow> string \<Rightarrow> 'j core \<Rightarrow> 'j core" where
  "OnSignal E st peer_id c =
     (let J = ce_json E; was = co_signal_connected c;
          c1 = Emit E [(''type'', j_string J ''signal_state''), (''state'', j_string J (SignalStatusName st)), (''peer_id'', j_string J peer_id)]
                 (c\<lparr>co_peer_id := peer_id, co_signal_connected := (st = SignalConnected)\<rparr>)
      in if st = SignalConnected \<and> \<not> was then PumpClaims E (PumpShareCreates E c1)
         else if st \<noteq> SignalConnected \<and> was then signal_lost E c1 else c1)"

text \<open>The old peer is closed and destroyed; nothing refers to it afterwards.\<close>

definition RecreatePeer :: "'j core_env \<Rightarrow> 'j core \<Rightarrow> 'j core" where
  "RecreatePeer E c =
     (let c1 = fold (\<lambda>sid. total_session E sid (OnSessionEnd (ce_json E) (ce_jn E) ''reconfigured'')) (map fst (co_transfers c)) c;
          c2 = c1\<lparr>co_transfers := [], co_transfer_ids := []\<rparr>;
          c3 = fold (\<lambda>k. CloseShareInternal E k ''closed'' ''reconfigured'') (map fst (co_shares c2)) c2;
          c4 = c3\<lparr>co_peer := None, co_signal_connected := False\<rparr>
      in case EnsurePeer E c4 of (Inl err, c5) \<Rightarrow> emit_error E err c5 | (Inr _, c5) \<Rightarrow> c5)"

section \<open>Control, configuration, queries\<close>

definition on_transfer :: "'j core_env \<Rightarrow> string \<Rightarrow> ('j session \<Rightarrow> 'j session) \<Rightarrow> 'j core \<Rightarrow> 'j core" where
  "on_transfer E tid f c = (case map_of (co_transfer_ids c) tid of None \<Rightarrow> c | Some sid \<Rightarrow> total_session E sid f c)"

definition TransferPause :: "'j core_env \<Rightarrow> string \<Rightarrow> 'j core \<Rightarrow> 'j core" where
  "TransferPause E tid = on_transfer E tid (Pause (ce_json E))"

definition TransferResume :: "'j core_env \<Rightarrow> string \<Rightarrow> 'j core \<Rightarrow> 'j core" where
  "TransferResume E tid = on_transfer E tid (Resume (ce_json E))"

definition TransferCancel :: "'j core_env \<Rightarrow> string \<Rightarrow> 'j core \<Rightarrow> 'j core" where
  "TransferCancel E tid c =
     (case map_of (co_transfer_ids c) tid of
        Some sid \<Rightarrow> cancel_session E ''user'' sid c
      | None \<Rightarrow>
        (case receive_of c tid of None \<Rightarrow> c
         | Some _ \<Rightarrow> FinishReceive E tid ''cancelled'' ''user'' []
             (upd_receive tid (\<lambda>r. r\<lparr>rv_record := j_null (ce_json E)\<rparr>)
               (c\<lparr>co_claim_queue := filter (\<lambda>k. k \<noteq> tid) (co_claim_queue c)\<rparr>))))"

definition UpdateConfig :: "'j json_ops \<Rightarrow> build \<Rightarrow> 'j \<Rightarrow> Config \<Rightarrow> string + Config" where
  "UpdateConfig J b config cfg =
     (if \<not> b_developer b \<and> HasServiceOverrides J config then Inl ''service settings are managed by the publisher''
      else case Merge J b config cfg of (Inl err, _) \<Rightarrow> Inl err | (Inr _, cfg1) \<Rightarrow> Inr cfg1)"

definition update_task :: "'j core_env \<Rightarrow> Config \<Rightarrow> 'j core \<Rightarrow> 'j core" where
  "update_task E cfg1 c =
     (let J = ce_json E; recreate = PeerAffectingDiff (co_cfg c) cfg1;
          c1 = Emit E [(''type'', j_string J ''config''), (''config'', Config_ToJson J (ce_build E) cfg1)] 
        (c\<lparr>co_cfg := cfg1, co_saved_cfg := co_saved_cfg c @ [Config_ToJson J (ce_build E) cfg1]\<rparr>)
      in if recreate then RecreatePeer E c1 else c1)"

definition share_query :: "'j json_ops \<Rightarrow> Share \<Rightarrow> 'j" where
  "share_query J s =
     j_object J [(''id'', j_string J (sh_id s)), (''share_id'', j_string J (sh_share_id s)), (''state'', j_string J (sh_state s)),
       (''mode'', j_string J (sh_mode s)), (''code'', j_string J (if sh_code s = [] then [] else Format (sh_code s))),
       (''expires_at'', j_int J (sh_expires_at s)), (''files'', j_u64 J (of_nat (length (m_files (sh_manifest s))))),
       (''bytes'', j_u64 J (m_total_bytes (sh_manifest s))), (''receivers'', j_int J (sh_receivers s)),
       (''completed'', j_int J (sh_completed s)), (''error'', j_string J (sh_error s))]"

definition receive_query :: "'j json_ops \<Rightarrow> 'j Receive \<Rightarrow> 'j" where
  "receive_query J r =
     j_object J [(''transfer_id'', j_string J (rv_transfer_id r)), (''code'', j_string J (Format (rv_code r))),
       (''state'', j_string J (rv_state r)), (''save_dir'', j_string J (rv_save_dir r)),
       (''resumable'', j_bool J (rv_resume_token r \<noteq> [])), (''error_code'', j_string J (rv_error_code r)),
       (''created_at'', j_int J (rv_created_at r))]"

definition QueryLocked :: "'j core_env \<Rightarrow> string \<Rightarrow> 'j core \<Rightarrow> 'j" where
  "QueryLocked E what c =
     (let J = ce_json E in j_object J
       ((if what = ''shares'' \<or> what = ''all''
         then [(''shares'', j_array J (map (share_query J \<circ> snd) (co_shares c)))] else []) @
        (if what = ''receives'' \<or> what = ''all''
         then [(''receives'', j_array J (map (receive_query J \<circ> snd) (co_receives c)))] else []) @
        (if what = ''transfers'' \<or> what = ''all''
         then [(''transfers'', j_array J (map (\<lambda>(_, t). j_object J (SnapshotJson J c (ss_snap (tr_session t)))) (co_transfers c)))] else []) @
        (if what = ''config'' \<or> what = ''all''
         then [(''config'', Config_ToJson J (ce_build E) (co_cfg c)), (''notifications'', co_notifications c),
               (''signal_connected'', j_bool J (co_signal_connected c)), (''peer_id'', j_string J (co_peer_id c))] else [])))"

section \<open>Start and shutdown\<close>

text \<open>The configuration a core starts with, and the disk after it is saved.\<close>

definition Create ::
  "'j json_ops \<Rightarrow> build \<Rightarrow> (bytes \<Rightarrow> 'j option) \<Rightarrow> ('j \<Rightarrow> bytes) \<Rightarrow> (string \<Rightarrow> fspath) \<Rightarrow> (fspath \<Rightarrow> string) \<Rightarrow> 'j \<Rightarrow> world \<Rightarrow>
    (string + Config) \<times> world"
where
  "Create J b parse dump of_utf8 to_utf8 config w =
     (case Merge J b config (new_Config b) of
        (Inl err, _) \<Rightarrow> (Inl err, w)
      | (Inr _, cfg) \<Rightarrow>
        if c_data_dir cfg = [] then (Inl ''config.data_dir is required'', w)
        else let dir = of_utf8 (c_data_dir cfg) in
          case EnsureDir dir w of
            (Inl err, w1) \<Rightarrow> (Inl (''data_dir: '' @ err), w1)
          | (Inr _, w1) \<Rightarrow>
            (case LoadConfig J parse dir w1 of (saved, w2) \<Rightarrow>
              (case Merge J b config (snd (Merge J b saved (new_Config b))) of
                 (Inl err, _) \<Rightarrow> (Inl err, w2)
               | (Inr _, m) \<Rightarrow>
                 let m1 = (if c_log_dir m = [] then m\<lparr>c_log_dir := to_utf8 (dir @ [''logs''])\<rparr> else m);
                     m2 = (if c_save_dir m1 = [] then m1\<lparr>c_save_dir := to_utf8 (dir @ [''received''])\<rparr> else m1)
                 in (Inr m2, snd (SaveConfig dump dir (Config_ToJson J b m2) w2)))))"

definition new_core :: "'j json_ops \<Rightarrow> Config \<Rightarrow> 'j core" where
  "new_core J cfg = \<lparr>co_cfg = cfg, co_peer = None, co_peer_id = [], co_signal_connected = False, co_notifications = j_null J,
     co_shares = [], co_share_queue = [], co_share_inflight = False, co_receives = [], co_claim_queue = [],
     co_claim_inflight = False, co_transfers = [], co_transfer_ids = [], co_last_persist_ms = 0, co_out = [], co_saved = [], co_saved_cfg = [],
     co_linger = [], co_next = 0, co_null_call = False\<rparr>"

definition start_task :: "'j core_env \<Rightarrow> 'j list \<Rightarrow> 'j core \<Rightarrow> 'j core option" where
  "start_task E stored c =
     map_option (\<lambda>c1. if c_server_host (co_cfg c1) = [] then c1
        else case EnsurePeer E c1 of (Inl err, c2) \<Rightarrow> emit_error E err c2 | (Inr _, c2) \<Rightarrow> c2)
       (LoadReceives E stored c)"

definition CtrlPending :: "'j core \<Rightarrow> nat" where
  "CtrlPending c = sum_list (map (\<lambda>(_, t). length (lk_ctrl_queue (tr_link t))) (co_transfers c))"

text \<open>The first and the last task of \<^verbatim>\<open>Shutdown\<close>; between them it waits until \<open>CtrlPending\<close> is zero or a deadline passes.\<close>

definition shutdown_cancel :: "'j core_env \<Rightarrow> 'j core \<Rightarrow> 'j core" where
  "shutdown_cancel E c = fold (cancel_session E ''shutdown'') (map fst (co_transfers c)) c"

definition shutdown_close :: "'j core_env \<Rightarrow> 'j core \<Rightarrow> 'j core" where
  "shutdown_close E c =
     (let c1 = fold (\<lambda>sid. if_peer E (Leave sid)) (map fst (co_transfers c)) c;
          c2 = SaveReceives E (c1\<lparr>co_transfers := [], co_transfer_ids := []\<rparr>)
      in c2\<lparr>co_peer := None\<rparr>)"

section \<open>The core as a machine\<close>

datatype 'j core_input =
    PeerTask peer_task
  | UserShare string "string list" string int
  | UserShareClose string
  | UserReceive string string string
  | UserReceiveResume string
  | UserPause string | UserResume string | UserCancel string
  | UserConfig Config
  | Linger string nat
  | Engine string "'j ss_input"
  | LinkPump string "nat \<Rightarrow> int"

fun core_task :: "'j core_env \<Rightarrow> 'j core_input \<Rightarrow> 'j core \<Rightarrow> 'j core option" where
  "core_task E (PeerTask (CbNotifications snapshot)) c = Some (OnNotificationsTask E snapshot c)"
| "core_task E (PeerTask (CbSignal st pid)) c = Some (OnSignal E st pid c)"
| "core_task E (PeerTask (CbShare ev sid code expires detail)) c = Some (OnShareEvent E ev sid code expires detail c)"
| "core_task E (PeerTask (CbClaim r sid token message)) c = Some (OnClaimResult E r sid token message c)"
| "core_task E (PeerTask (CbSession info)) c = Some (OnSession E info c)"
| "core_task E (PeerTask (CbStats sid path)) c = Some (OnStats E sid path c)"
| "core_task E (PeerTask (CbCtrl sid data)) c = OnCtrl E sid data c"
| "core_task E (UserShare k paths mode ttl) c = share_create_task E k paths mode ttl c"
| "core_task E (UserShareClose k) c = Some (ShareClose E k c)"
| "core_task E (UserReceive k code dir) c = Some (receive_start_task E k code dir c)"
| "core_task E (UserReceiveResume k) c = Some (ReceiveResume E k c)"
| "core_task E (UserPause tid) c = Some (TransferPause E tid c)"
| "core_task E (UserResume tid) c = Some (TransferResume E tid c)"
| "core_task E (UserCancel tid) c = Some (TransferCancel E tid c)"
| "core_task E (UserConfig cfg) c = Some (update_task E cfg c)"
| "core_task E (Linger sid owner) c = Some (LingerTask E sid owner c)"
| "core_task E (Engine sid i) c =
     on_session E sid (ss_handle (ce_json E) (ce_jn E) (ce_parse E) (ce_sha E) (ce_empty E) (ce_rd E) i) c"
| "core_task E (LinkPump sid send) c = Some (upd_transfer sid (\<lambda>t. t\<lparr>tr_link := Pump send (tr_link t)\<rparr>) c)"

text \<open>A task that calls a null \<^verbatim>\<open>peer_\<close> does not return.\<close>

definition core_handle :: "'j core_env \<Rightarrow> 'j core_input \<Rightarrow> 'j core \<Rightarrow> 'j core option" where
  "core_handle E i c = (case core_task E i c of None \<Rightarrow> None | Some c' \<Rightarrow> if co_null_call c' then None else Some c')"

end
