(* ===== verification/Core_Steps.thy ===== *)
theory Core_Steps
  imports Core_Loop
begin

text \<open>
  Lemmas on the operations of the core: which part of its state each of them keeps, what the two request queues do to the
  other shares and receives, and what a stored receive becomes when it is read back.
\<close>

section \<open>What the basic operations keep\<close>

lemma Emit_sel [simp]:
  "co_shares (Emit E ev c) = co_shares c" "co_receives (Emit E ev c) = co_receives c" "co_transfers (Emit E ev c) = co_transfers c"
  "co_transfer_ids (Emit E ev c) = co_transfer_ids c" "co_peer (Emit E ev c) = co_peer c" "co_cfg (Emit E ev c) = co_cfg c"
  "co_signal_connected (Emit E ev c) = co_signal_connected c" "co_share_queue (Emit E ev c) = co_share_queue c"
  "co_share_inflight (Emit E ev c) = co_share_inflight c" "co_claim_queue (Emit E ev c) = co_claim_queue c"
  "co_claim_inflight (Emit E ev c) = co_claim_inflight c" "co_next (Emit E ev c) = co_next c" "co_linger (Emit E ev c) = co_linger c"
  by (simp_all add: Emit_def)

lemma EmitShare_sel [simp]:
  "co_shares (EmitShare E k c) = co_shares c" "co_receives (EmitShare E k c) = co_receives c" "co_transfers (EmitShare E k c) = co_transfers c"
  "co_transfer_ids (EmitShare E k c) = co_transfer_ids c" "co_peer (EmitShare E k c) = co_peer c" "co_cfg (EmitShare E k c) = co_cfg c"
  "co_signal_connected (EmitShare E k c) = co_signal_connected c" "co_share_queue (EmitShare E k c) = co_share_queue c"
  "co_share_inflight (EmitShare E k c) = co_share_inflight c" "co_claim_queue (EmitShare E k c) = co_claim_queue c"
  "co_claim_inflight (EmitShare E k c) = co_claim_inflight c" "co_next (EmitShare E k c) = co_next c" "co_linger (EmitShare E k c) = co_linger c"
  by (simp_all add: EmitShare_def split: option.splits)

lemma EmitReceive_sel [simp]:
  "co_shares (EmitReceive E k c) = co_shares c" "co_receives (EmitReceive E k c) = co_receives c" "co_transfers (EmitReceive E k c) = co_transfers c"
  "co_transfer_ids (EmitReceive E k c) = co_transfer_ids c" "co_peer (EmitReceive E k c) = co_peer c" "co_cfg (EmitReceive E k c) = co_cfg c"
  "co_signal_connected (EmitReceive E k c) = co_signal_connected c" "co_share_queue (EmitReceive E k c) = co_share_queue c"
  "co_share_inflight (EmitReceive E k c) = co_share_inflight c" "co_claim_queue (EmitReceive E k c) = co_claim_queue c"
  "co_claim_inflight (EmitReceive E k c) = co_claim_inflight c" "co_next (EmitReceive E k c) = co_next c" "co_linger (EmitReceive E k c) = co_linger c"
  by (simp_all add: EmitReceive_def split: option.splits)

lemma SaveReceives_sel [simp]:
  "co_shares (SaveReceives E c) = co_shares c" "co_receives (SaveReceives E c) = co_receives c" "co_transfers (SaveReceives E c) = co_transfers c"
  "co_transfer_ids (SaveReceives E c) = co_transfer_ids c" "co_peer (SaveReceives E c) = co_peer c" "co_cfg (SaveReceives E c) = co_cfg c"
  "co_signal_connected (SaveReceives E c) = co_signal_connected c" "co_share_queue (SaveReceives E c) = co_share_queue c"
  "co_share_inflight (SaveReceives E c) = co_share_inflight c" "co_claim_queue (SaveReceives E c) = co_claim_queue c"
  "co_claim_inflight (SaveReceives E c) = co_claim_inflight c" "co_next (SaveReceives E c) = co_next c" "co_linger (SaveReceives E c) = co_linger c"
  by (simp_all add: SaveReceives_def)

lemma upd_share_sel [simp]:
  "co_shares (upd_share k f c) = omap_upd k f (co_shares c)" "co_receives (upd_share k f c) = co_receives c"
  "co_transfers (upd_share k f c) = co_transfers c" "co_transfer_ids (upd_share k f c) = co_transfer_ids c"
  "co_peer (upd_share k f c) = co_peer c" "co_cfg (upd_share k f c) = co_cfg c" "co_signal_connected (upd_share k f c) = co_signal_connected c"
  "co_share_queue (upd_share k f c) = co_share_queue c" "co_share_inflight (upd_share k f c) = co_share_inflight c"
  "co_claim_queue (upd_share k f c) = co_claim_queue c" "co_claim_inflight (upd_share k f c) = co_claim_inflight c"
  "co_next (upd_share k f c) = co_next c"
  by (simp_all add: upd_share_def)

lemma upd_receive_sel [simp]:
  "co_receives (upd_receive k f c) = omap_upd k f (co_receives c)" "co_shares (upd_receive k f c) = co_shares c"
  "co_transfers (upd_receive k f c) = co_transfers c" "co_transfer_ids (upd_receive k f c) = co_transfer_ids c"
  "co_peer (upd_receive k f c) = co_peer c" "co_cfg (upd_receive k f c) = co_cfg c" "co_signal_connected (upd_receive k f c) = co_signal_connected c"
  "co_share_queue (upd_receive k f c) = co_share_queue c" "co_share_inflight (upd_receive k f c) = co_share_inflight c"
  "co_claim_queue (upd_receive k f c) = co_claim_queue c" "co_claim_inflight (upd_receive k f c) = co_claim_inflight c"
  "co_next (upd_receive k f c) = co_next c"
  by (simp_all add: upd_receive_def)

lemma upd_transfer_sel [simp]:
  "co_transfers (upd_transfer k f c) = omap_upd k f (co_transfers c)" "co_shares (upd_transfer k f c) = co_shares c"
  "co_receives (upd_transfer k f c) = co_receives c" "co_transfer_ids (upd_transfer k f c) = co_transfer_ids c"
  "co_peer (upd_transfer k f c) = co_peer c" "co_cfg (upd_transfer k f c) = co_cfg c" "co_signal_connected (upd_transfer k f c) = co_signal_connected c"
  "co_next (upd_transfer k f c) = co_next c"
  by (simp_all add: upd_transfer_def)

lemma map_of_omap_upd: "map_of (omap_upd k f m) j = (if j = k then map_option f (map_of m k) else map_of m j)"
  by (induction m) (auto simp: omap_upd_def)

lemma fst_omap_upd [simp]: "map fst (omap_upd k f m) = map fst m"
  by (simp add: omap_upd_def case_prod_beta)

lemma map_of_omap_del: "map_of (omap_del k m) j = (if j = k then None else map_of m j)"
  by (induction m) (auto simp: omap_del_def)

lemma FinishReceive_sel [simp]:
  "co_shares (FinishReceive E k st cd mg c) = co_shares c" "co_transfers (FinishReceive E k st cd mg c) = co_transfers c"
  "co_transfer_ids (FinishReceive E k st cd mg c) = co_transfer_ids c" "co_peer (FinishReceive E k st cd mg c) = co_peer c"
  "co_cfg (FinishReceive E k st cd mg c) = co_cfg c" "co_signal_connected (FinishReceive E k st cd mg c) = co_signal_connected c"
  "co_receives (FinishReceive E k st cd mg c) =
     omap_upd k (\<lambda>r. r\<lparr>rv_state := st, rv_error_code := cd, rv_error_message := mg, rv_active := False\<rparr>) (co_receives c)"
  by (simp_all add: FinishReceive_def)

section \<open>Requests to the server\<close>

text \<open>A core that is connected and idle.\<close>

definition idle_core :: "peer \<Rightarrow> 'j core \<Rightarrow> bool" where
  "idle_core p c \<longleftrightarrow> co_peer c = Some p \<and> pe_handle p \<and> co_signal_connected c \<and> co_share_queue c = [] \<and> \<not> co_share_inflight c \<and>
     co_claim_queue c = [] \<and> \<not> co_claim_inflight c"

lemma peer_call_up: "co_peer c = Some p \<Longrightarrow> pe_handle p \<Longrightarrow>
   peer_call E (guarded call) c = (ce_rc E (length (pe_calls p)), c\<lparr>co_peer := Some (rtc [call] p)\<rparr>)"
  by (simp add: peer_call_def guarded_def)

lemma null_sel [simp]:
  "co_null_call (Emit E ev c) = co_null_call c" "co_null_call (EmitShare E k c) = co_null_call c" "co_null_call (EmitReceive E k c) = co_null_call c"
  "co_null_call (SaveReceives E c) = co_null_call c" "co_null_call (emit_error E err c) = co_null_call c"
  "co_null_call (upd_share k f c) = co_null_call c" "co_null_call (upd_receive k g c) = co_null_call c" "co_null_call (upd_transfer k h c) = co_null_call c"
  "co_null_call (FinishReceive E k st cd mg c) = co_null_call c" "co_null_call (put_share k s c) = co_null_call c"
  "co_null_call (put_receive k r c) = co_null_call c" "co_null_call (OnNotificationsTask E sn c) = co_null_call c" "co_null_call (DropTransfer sid c) = co_null_call c"
  by (simp_all add: Emit_def EmitShare_def EmitReceive_def SaveReceives_def emit_error_def upd_share_def upd_receive_def upd_transfer_def
      FinishReceive_def put_share_def put_receive_def OnNotificationsTask_def DropTransfer_def Let_def split: option.splits)

lemma if_peer_sel [simp]:
  "co_shares (if_peer E f c) = co_shares c" "co_receives (if_peer E f c) = co_receives c"
  "co_transfers (if_peer E f c) = co_transfers c" "co_transfer_ids (if_peer E f c) = co_transfer_ids c"
  "co_signal_connected (if_peer E f c) = co_signal_connected c" "co_cfg (if_peer E f c) = co_cfg c"
  "co_next (if_peer E f c) = co_next c" "co_peer (if_peer E f c) = None \<longleftrightarrow> co_peer c = None" "co_null_call (if_peer E f c) = co_null_call c"
  by (simp_all add: if_peer_def peer_call_def Option.is_none_def split: option.splits prod.splits)

lemma peer_call_sel [simp]:
  "co_shares (snd (peer_call E f c)) = co_shares c" "co_receives (snd (peer_call E f c)) = co_receives c"
  "co_transfers (snd (peer_call E f c)) = co_transfers c" "co_transfer_ids (snd (peer_call E f c)) = co_transfer_ids c"
  "co_signal_connected (snd (peer_call E f c)) = co_signal_connected c" "co_cfg (snd (peer_call E f c)) = co_cfg c"
  "co_next (snd (peer_call E f c)) = co_next c" "co_peer (snd (peer_call E f c)) = None \<longleftrightarrow> co_peer c = None"
  by (simp_all add: peer_call_def split: option.splits prod.splits)

lemma pump_shares_keeps: "share_of c k = Some s \<Longrightarrow> sh_state s \<noteq> ''creating'' \<Longrightarrow> share_of (pump_shares E q c) k = Some s"
proof (induction q arbitrary: c)
  case (Cons j q)
  show ?case
  proof (cases "co_share_inflight c \<or> \<not> co_signal_connected c")
    case False
    show ?thesis
    proof (cases "\<exists>s'. share_of c j = Some s' \<and> sh_state s' = ''creating''")
      case True
      then obtain s' where s': "share_of c j = Some s'" "sh_state s' = ''creating''" by blast
      then have "j \<noteq> k" using Cons.prems by auto
      let ?f = "CreateShare (sh_mode s') (sh_ttl_sec s') (ce_dump E (share_meta (ce_json E) (sh_manifest s')))"
      obtain r c1 where pc: "peer_call E ?f c = (r, c1)" by fastforce
      then have "co_shares c1 = co_shares c" using peer_call_sel(1)[of E ?f c] by simp
      then show ?thesis using Cons False s' pc \<open>j \<noteq> k\<close> by (simp add: map_of_omap_upd)
    qed (use Cons False in \<open>auto split: option.splits\<close>)
  qed (use Cons in simp)
qed simp

lemma pump_claims_keeps: "k \<notin> set q \<or> (\<exists>r. receive_of c k = Some r \<and> rv_state r \<noteq> ''claiming'') \<Longrightarrow>
   receive_of (pump_claims E q c) k = receive_of c k"
proof (induction q arbitrary: c)
  case (Cons j q)
  show ?case
  proof (cases "co_claim_inflight c \<or> \<not> co_signal_connected c")
    case False
    show ?thesis
    proof (cases "\<exists>r. receive_of c j = Some r \<and> rv_state r = ''claiming''")
      case True
      then obtain r where r: "receive_of c j = Some r" "rv_state r = ''claiming''" by blast
      then have jk: "j \<noteq> k" using Cons.prems by auto
      let ?token = "rv_resume_token r \<noteq> [] \<and> \<not> rv_tried_token r"
      let ?c1 = "if ?token then upd_receive j (\<lambda>r. r\<lparr>rv_tried_token := True\<rparr>) c else c"
      let ?f = "if ?token then Claim [] (rv_resume_token r) else Claim (rv_code r) []"
      obtain rc c2 where pc: "peer_call E ?f ?c1 = (rc, c2)" by fastforce
      then have "co_receives c2 = co_receives ?c1" using peer_call_sel(2)[of E ?f ?c1] by simp
      then have e: "receive_of c2 k = receive_of c k" using jk by (auto simp: map_of_omap_upd)
      have "receive_of (FinishReceive E j ''failed'' ''claim'' ''claim send failed'' c2) k = receive_of c k"
        using e jk by (simp add: map_of_omap_upd)
      then show ?thesis using Cons.prems Cons.IH[of "FinishReceive E j ''failed'' ''claim'' ''claim send failed'' c2"] False r pc e
        by (auto simp: Let_def)
    qed (use Cons False in \<open>auto split: option.splits\<close>)
  qed simp
qed simp

lemma peer_call_claim: "co_peer c = Some p \<Longrightarrow> pe_handle p \<Longrightarrow>
   peer_call E (Claim code token) c = (ce_rc E (length (pe_calls p)),
     c\<lparr>co_peer := Some (rtc [RtcClaim (if code = [] then None else Some code) (if token = [] then None else Some token)] p)\<rparr>)"
  unfolding Claim_def by (rule peer_call_up)

section \<open>Stored receives\<close>

text \<open>What is left of a receive after a restart.\<close>

definition interrupted :: "'j Receive \<Rightarrow> 'j Receive" where
  "interrupted r = r\<lparr>rv_state := ''interrupted'', rv_error_message := [], rv_session_id := [], rv_tried_token := False, rv_active := False\<rparr>"

definition keyed_receives :: "(string \<times> 'j Receive) list \<Rightarrow> bool" where
  "keyed_receives m \<longleftrightarrow> sorted_wrt (<) (map fst m) \<and> (\<forall>(k, r) \<in> set m. rv_transfer_id r = k \<and> k \<noteq> [] \<and> rv_code r \<noteq> [])"

lemma load_receive_json: "json_value_laws J \<Longrightarrow> load_receive J (receive_json J r) = Some (interrupted r)"
  by (simp add: load_receive_def receive_json_def json_value_laws json_laws_object interrupted_def new_Receive_def)

lemma load_loop_json:
  assumes "json_value_laws J" "\<forall>r\<in>set rs. rv_transfer_id r \<noteq> [] \<and> rv_code r \<noteq> []" "distinct (map rv_transfer_id rs)"
  shows "\<exists>m'. load_loop J (map (receive_json J) rs) m = Some m' \<and>
    map_of m' = map_of m ++ map_of (map (\<lambda>r. (rv_transfer_id r, interrupted r)) rs)"
  using assms(2,3)
proof (induction rs arbitrary: m)
  case (Cons r rs)
  have o: "j_is_object J (receive_json J r)" using assms(1) by (simp add: receive_json_def json_laws_object json_value_laws)
  have i: "rv_transfer_id (interrupted r) = rv_transfer_id r" "rv_code (interrupted r) = rv_code r" by (simp_all add: interrupted_def)
  have "map_of (map (\<lambda>r. (rv_transfer_id r, interrupted r)) rs) (rv_transfer_id r) = None"
    using Cons.prems(2) by (auto simp: map_of_eq_None_iff)
  then have add: "map_of (omap_put (rv_transfer_id r) (interrupted r) m) ++ map_of (map (\<lambda>r. (rv_transfer_id r, interrupted r)) rs) =
      map_of m ++ map_of (map (\<lambda>r. (rv_transfer_id r, interrupted r)) (r # rs))"
    by (auto simp: fun_eq_iff map_add_def map_of_omap_put split: option.splits)
  have step: "load_loop J (map (receive_json J) (r # rs)) m =
      load_loop J (map (receive_json J) rs) (omap_put (rv_transfer_id r) (interrupted r) m)"
    using Cons.prems(1) o i by (simp add: load_receive_json[OF assms(1)])
  have "\<forall>r\<in>set rs. rv_transfer_id r \<noteq> [] \<and> rv_code r \<noteq> []" "distinct (map rv_transfer_id rs)" using Cons.prems by simp_all
  from Cons.IH[OF this, of "omap_put (rv_transfer_id r) (interrupted r) m"] show ?case unfolding add step .
qed simp

lemma map_of_filtered: "keyed_receives m \<Longrightarrow>
   map_of (map (\<lambda>r. (rv_transfer_id r, g r)) (filter P (map snd m))) k =
   (case map_of m k of None \<Rightarrow> None | Some r \<Rightarrow> if P r then Some (g r) else None)"
proof (induction m)
  case (Cons p m)
  obtain a r where p: "p = (a, r)" by fastforce
  have km: "keyed_receives m" and ar: "rv_transfer_id r = a" and notin: "a \<notin> fst ` set m"
    using Cons.prems p by (auto simp: keyed_receives_def)
  have "map_of m a = None" using notin by (simp add: map_of_eq_None_iff)
  then show ?case using Cons.IH[OF km] p ar by (auto split: option.splits)
qed simp

end
