(* ===== verification/Core_Inv.thy ===== *)
theory Core_Inv
  imports Core_Steps Session_Runs
begin

text \<open>
  The invariant of the core.  \<open>skel\<close> is the part of its state that carries the cross references: which objects there are
  under which keys, the identifiers inside them, the data sinks of the peer and the signalling flag.  Most tasks do not
  change it, which is a simplification rule for each operation; the invariant is then proved for the few that do.
\<close>

section \<open>Sessions keep their identity\<close>

definition ids :: "'j session \<Rightarrow> string \<times> string" where
  "ids s = (sn_session_id (ss_snap s), sn_transfer_id (ss_snap s))"

lemma ids_record [simp]:
  "ids (s\<lparr>ss_transport_ready := b\<rparr>) = ids s" "ids (s\<lparr>ss_offer_sent := b\<rparr>) = ids s" "ids (s\<lparr>ss_accept_received := b\<rparr>) = ids s"
  "ids (s\<lparr>ss_paused := b\<rparr>) = ids s" "ids (s\<lparr>ss_progress_scheduled := b\<rparr>) = ids s" "ids (s\<lparr>ss_done_sent := b\<rparr>) = ids s"
  "ids (s\<lparr>ss_sender_confirmed := b\<rparr>) = ids s" "ids (s\<lparr>ss_manifest := m\<rparr>) = ids s" "ids (s\<lparr>ss_files := fs\<rparr>) = ids s"
  "ids (s\<lparr>ss_sender := t\<rparr>) = ids s" "ids (s\<lparr>ss_file_ok := ok\<rparr>) = ids s" "ids (s\<lparr>ss_save_dir := d\<rparr>) = ids s"
  "ids (s\<lparr>ss_resume := j\<rparr>) = ids s" "ids (s\<lparr>ss_names := ns\<rparr>) = ids s" "ids (s\<lparr>ss_receiver := r\<rparr>) = ids s" "ids (s\<lparr>ss_out := es\<rparr>) = ids s"
  by (simp_all add: ids_def)

lemma ids_basic [simp]:
  "ids (ss_emit e s) = ids s" "ids (SetState st s) = ids s" "ids (read_progress s) = ids s" "ids (EmitProgress f s) = ids s"
  "ids (ScheduleProgress s) = ids s" "ids (stop_engines jn s) = ids s"
  by (simp_all add: ids_def ss_emit_def SetState_def upd_snap_def read_progress_def EmitProgress_def ScheduleProgress_def stop_engines_def
      Let_def split: option.splits)

lemma ids_upd_snap: "(\<And>n. sn_session_id (g n) = sn_session_id n \<and> sn_transfer_id (g n) = sn_transfer_id n) \<Longrightarrow> ids (upd_snap g s) = ids s"
  by (simp add: ids_def)

lemma ids_Fail [simp]: "ids (ss_Fail J jn c m s) = ids s"
  by (simp add: ss_Fail_def Let_def ids_upd_snap)

lemma ids_ops [simp]:
  "ids (StartOffer J jn s) = ids s" "ids (OnTransportReady J jn p s) = ids s" "ids (OnTransportDown s) = ids s" "ids (OnPathChanged p s) = ids s"
  "ids (OnSessionEnd J jn reason s) = ids s" "ids (OnProgressTimer s) = ids s" "ids (OnSenderFileDone J i h s) = ids s"
  "ids (OnSenderAllDone J s) = ids s" "ids (OnReceiverFileOk J i s) = ids s" "ids (OnReceiverFileVerified J i ok reason s) = ids s"
  "ids (OnReceiverAllDone s) = ids s" "ids (PersistReceiver J sha st s) = ids s" "ids (Pause J s) = ids s" "ids (Resume J s) = ids s"
  "ids (ss_Cancel J jn em reason s) = ids s" "ids (on_cancel_msg jn s) = ids s"
  by (simp_all add: StartOffer_def OnTransportReady_def OnTransportDown_def OnPathChanged_def OnSessionEnd_def OnProgressTimer_def OnSenderFileDone_def
      OnSenderAllDone_def OnReceiverFileOk_def OnReceiverFileVerified_def OnReceiverAllDone_def PersistReceiver_def Pause_def Resume_def
      ss_Cancel_def on_cancel_msg_def Let_def ids_upd_snap split: option.splits)

lemma ids_input [simp]: "ids (SetSenderInput m fs s) = ids s" "ids (SetReceiverInput d j s) = ids s"
  by (simp_all add: SetSenderInput_def SetReceiverInput_def ids_upd_snap)

lemma HandleAccept_ids: "HandleAccept J jn j s = Some s' \<Longrightarrow> ids s' = ids s"
  by (auto simp: HandleAccept_def Let_def ids_upd_snap split: if_splits prod.splits sum.splits bind_splits)

lemma HandleFileAck_ids: "HandleFileAck J j ok s = Some s' \<Longrightarrow> ids s' = ids s"
  by (auto simp: HandleFileAck_def Let_def ids_upd_snap split: if_splits option.splits bind_splits)

lemma start_receiver_ids: "start_receiver J jn st s = Some s' \<Longrightarrow> ids s' = ids s"
  by (auto simp: start_receiver_def Let_def ids_upd_snap split: if_splits prod.splits sum.splits bind_splits)

lemma HandleOffer_ids: "HandleOffer J jn sha rd j s = Some s' \<Longrightarrow> ids s' = ids s"
  by (auto simp: HandleOffer_def Let_def ids_upd_snap dest!: start_receiver_ids
      split: if_splits prod.splits option.splits outcome.splits bind_splits)

lemma on_file_done_ids: "on_file_done_msg J j s = Some s' \<Longrightarrow> ids s' = ids s"
  by (auto simp: on_file_done_msg_def ids_upd_snap split: if_splits option.splits bind_splits)

lemma dispatch_ids: "dispatch_ctrl J jn sha rd j type s = Some s' \<Longrightarrow> ids s' = ids s"
  by (auto simp: dispatch_ctrl_def Let_def dest: HandleAccept_ids HandleFileAck_ids HandleOffer_ids on_file_done_ids split: if_splits bind_splits)

lemma message_ids: "OnCtrlMessage J jn parse sha rd m s = Some s' \<Longrightarrow> ids s' = ids s"
  by (auto simp: OnCtrlMessage_def dest: dispatch_ids split: option.splits)

lemma handle_ids: "ss_handle J jn parse sha em rd i s = Some s' \<Longrightarrow> ids s' = ids s"
  by (cases i) (auto dest: message_ids)

section \<open>The skeleton of the state\<close>

definition share_keys :: "'j core \<Rightarrow> (string \<times> string \<times> string) list" where
  "share_keys c = map (\<lambda>(k, s). (k, sh_id s, sh_mode s)) (co_shares c)"

definition receive_keys :: "'j core \<Rightarrow> (string \<times> string) list" where
  "receive_keys c = map (\<lambda>(k, r). (k, rv_transfer_id r)) (co_receives c)"

definition transfer_keys :: "'j core \<Rightarrow> (string \<times> (string \<times> string) \<times> bool \<times> nat) list" where
  "transfer_keys c = map (\<lambda>(k, t). (k, ids (tr_session t), lk_attached (tr_link t), tr_owner t)) (co_transfers c)"

definition peer_key :: "'j core \<Rightarrow> (bool \<times> (string \<times> nat) list) option" where
  "peer_key c = map_option (\<lambda>p. (pe_open p \<and> pe_handle p, pe_sinks p)) (co_peer c)"

definition skel where
  "skel c = (share_keys c, receive_keys c, transfer_keys c, co_transfer_ids c, co_next c, co_signal_connected c, peer_key c)"

lemmas skel_defs = skel_def share_keys_def receive_keys_def transfer_keys_def peer_key_def

lemma map_omap_upd: "(\<And>v. g (f v) = g v) \<Longrightarrow> map (\<lambda>(a, v). (a, g v)) (omap_upd k f m) = map (\<lambda>(a, v). (a, g v)) m"
  by (auto simp: omap_upd_def)

lemma skel_record [simp]:
  "skel (c\<lparr>co_cfg := cfg\<rparr>) = skel c" "skel (c\<lparr>co_peer_id := pid\<rparr>) = skel c" "skel (c\<lparr>co_notifications := ns\<rparr>) = skel c"
  "skel (c\<lparr>co_share_queue := q\<rparr>) = skel c" "skel (c\<lparr>co_share_inflight := b\<rparr>) = skel c" "skel (c\<lparr>co_claim_queue := q\<rparr>) = skel c"
  "skel (c\<lparr>co_claim_inflight := b\<rparr>) = skel c" "skel (c\<lparr>co_last_persist_ms := n\<rparr>) = skel c" "skel (c\<lparr>co_out := es\<rparr>) = skel c"
  "skel (c\<lparr>co_saved := ss\<rparr>) = skel c" "skel (c\<lparr>co_saved_cfg := cs\<rparr>) = skel c" "skel (c\<lparr>co_linger := ls\<rparr>) = skel c" "skel (c\<lparr>co_null_call := b\<rparr>) = skel c"
  by (simp_all add: skel_defs)

lemma skel_upd_share: "(\<And>s. sh_id (f s) = sh_id s \<and> sh_mode (f s) = sh_mode s) \<Longrightarrow> skel (upd_share k f c) = skel c"
  by (simp add: skel_defs upd_share_def map_omap_upd[where g = "\<lambda>s. (sh_id s, sh_mode s)"])

lemma skel_upd_receive: "(\<And>r. rv_transfer_id (f r) = rv_transfer_id r) \<Longrightarrow> skel (upd_receive k f c) = skel c"
  by (simp add: skel_defs upd_receive_def map_omap_upd)

lemma skel_upd_transfer:
  "(\<And>t. ids (tr_session (f t)) = ids (tr_session t) \<and> lk_attached (tr_link (f t)) = lk_attached (tr_link t) \<and> tr_owner (f t) = tr_owner t) \<Longrightarrow>
   skel (upd_transfer k f c) = skel c"
  by (simp add: skel_defs upd_transfer_def map_omap_upd[where g = "\<lambda>t. (ids (tr_session t), lk_attached (tr_link t), tr_owner t)"])

definition one_per_key :: "'j core \<Rightarrow> bool" where
  "one_per_key c \<longleftrightarrow> distinct (map fst (transfer_keys c))"

lemma one_per_key_cong: "skel c' = skel c \<Longrightarrow> one_per_key c' = one_per_key c"
  by (simp add: one_per_key_def skel_def)

lemma skel_upd_session:
  assumes "transfer_of c k = Some t" "ids s = ids (tr_session t)" "one_per_key c"
  shows "skel (upd_transfer k (\<lambda>t. t\<lparr>tr_session := s\<rparr>) c) = skel c"
proof -
  have "distinct (map fst (co_transfers c))" using assms(3) by (simp add: one_per_key_def transfer_keys_def comp_def case_prod_beta)
  then have "b = t" if "(k, b) \<in> set (co_transfers c)" for b using that assms(1) by simp
  then show ?thesis using assms(2) by (auto simp: skel_defs upd_transfer_def omap_upd_def split: if_splits)
qed

lemma skel_events [simp]:
  "skel (Emit E ev c) = skel c" "skel (EmitShare E k c) = skel c" "skel (EmitReceive E k c) = skel c" "skel (SaveReceives E c) = skel c"
  "skel (emit_error E err c) = skel c" "skel (FinishReceive E k st cd mg c) = skel c" "skel (OnNotificationsTask E snapshot c) = skel c"
  by (simp_all add: Emit_def EmitShare_def EmitReceive_def SaveReceives_def emit_error_def FinishReceive_def skel_upd_receive
      OnNotificationsTask_def Let_def split: option.splits)

lemma skel_guarded [simp]: "skel (snd (peer_call E (guarded call) c)) = skel c"
  by (simp add: peer_call_def guarded_def skel_defs rtc_def split: option.splits)

lemma skel_calls [simp]:
  "skel (snd (peer_call E (CreateShare m t meta) c)) = skel c" "skel (snd (peer_call E (CloseShare i) c)) = skel c"
  "skel (snd (peer_call E (Claim code token) c)) = skel c" "skel (snd (peer_call E (Leave i) c)) = skel c"
  by (simp_all add: CreateShare_def CloseShare_def Claim_def Leave_def)

lemma skel_if_peer [simp]: "skel (if_peer E (CloseShare i) c) = skel c" "skel (if_peer E (Leave i) c) = skel c"
  by (simp_all add: if_peer_def)

lemma skel_call_eq:
  "peer_call E (CreateShare m t meta) c = (r, c') \<Longrightarrow> skel c' = skel c" "peer_call E (Claim code token) c = (r, c') \<Longrightarrow> skel c' = skel c"
  by (metis skel_calls snd_conv)+

lemma skel_pump_shares [simp]: "skel (pump_shares E q c) = skel c"
  by (induction E q c rule: pump_shares.induct) (auto simp: skel_upd_share split: option.splits prod.splits dest: skel_call_eq)

lemma skel_pump_claims [simp]: "skel (pump_claims E q c) = skel c"
  by (induction E q c rule: pump_claims.induct)
    (auto simp: skel_upd_receive Let_def split: option.splits prod.splits if_splits dest: skel_call_eq)

lemma skel_pumps [simp]: "skel (PumpShareCreates E c) = skel c" "skel (PumpClaims E c) = skel c"
  by (simp_all add: PumpShareCreates_def PumpClaims_def)

lemma skel_fold: "(\<And>x c. one_per_key c \<Longrightarrow> skel (f x c) = skel c) \<Longrightarrow> one_per_key c \<Longrightarrow> skel (fold f xs c) = skel c"
proof (induction xs arbitrary: c)
  case (Cons x xs)
  then show ?case using one_per_key_cong[of "f x c" c] by simp
qed simp

section \<open>Operations that keep the skeleton\<close>

lemma attached_ops [simp]: "lk_attached (SendCtrl m f l) = lk_attached l" "lk_attached (snd (OnCtrlChunk d l)) = lk_attached l"
  by (simp_all add: SendCtrl_def OnCtrlChunk_def Let_def split: prod.splits feed_result.splits)

lemma attached_pump_loop [simp]: "lk_attached (pump_loop send q l) = lk_attached l"
  by (induction send q l rule: pump_loop.induct) (auto simp: Let_def)

lemma attached_Pump [simp]: "lk_attached (Pump send l) = lk_attached l"
  by (simp add: Pump_def Let_def)

lemma receive_done_id [simp]: "rv_transfer_id (receive_done J snap r) = rv_transfer_id r"
  by (simp add: receive_done_def Let_def)

lemma skel_share_done [simp]: "skel (share_done E snap k c) = skel c"
  by (auto simp: share_done_def Let_def skel_upd_share split: option.splits)

lemma skel_OnTransferState [simp]: "skel (OnTransferState E snap c) = skel c"
  by (auto simp: OnTransferState_def Let_def skel_upd_transfer skel_upd_receive split: option.splits)

lemma skel_session_event [simp]: "skel (session_event E sid rcv tid e c) = skel c"
  by (auto simp: session_event_def OnTransferProgress_def OnPersist_def Let_def skel_upd_transfer skel_upd_receive
      split: ss_event.splits option.splits)

lemma skel_on_session:
  assumes "on_session E sid f c = Some c'" "\<And>s s'. f s = Some s' \<Longrightarrow> ids s' = ids s" "one_per_key c"
  shows "skel c' = skel c"
proof (cases "transfer_of c sid")
  case (Some t)
  then obtain s where s: "f (tr_session t) = Some s" using assms(1) by (auto simp: on_session_def)
  then have "ids (s\<lparr>ss_out := []\<rparr>) = ids (tr_session t)" using assms(2) by simp
  then have "skel (upd_transfer sid (\<lambda>t. t\<lparr>tr_session := s\<lparr>ss_out := []\<rparr>\<rparr>) c) = skel c" by (rule skel_upd_session[OF Some _ assms(3)])
  moreover have "skel (fold (session_event E sid rcv tid) es d) = skel d" for rcv tid es and d :: "'a core"
    by (induction es arbitrary: d) simp_all
  ultimately show ?thesis using assms(1) Some s by (auto simp: on_session_def)
qed (use assms(1) in \<open>simp add: on_session_def\<close>)

lemma skel_total_session: "(\<And>s. ids (f s) = ids s) \<Longrightarrow> one_per_key c \<Longrightarrow> skel (total_session E sid f c) = skel c"
  unfolding total_session_def using skel_on_session[of E sid "\<lambda>s. Some (f s)" c] by (auto split: option.splits)

lemma skel_cancel_session: "one_per_key c \<Longrightarrow> skel (cancel_session E reason sid c) = skel c"
  unfolding cancel_session_def by (rule skel_total_session) simp_all

lemma skel_CloseShareInternal: "one_per_key c \<Longrightarrow> skel (CloseShareInternal E k st reason c) = skel c"
proof -
  assume o: "one_per_key c"
  have "skel (fold (cancel_session E reason) xs d) = skel d" if "skel d = skel c" for xs d
    by (rule skel_fold) (use that o one_per_key_cong[of d c] in \<open>simp_all add: skel_cancel_session\<close>)
  then show ?thesis by (auto simp: CloseShareInternal_def Let_def skel_upd_share split: option.splits)
qed

lemma skel_signal_lost: "one_per_key c \<Longrightarrow> skel (signal_lost E c) = skel c"
proof -
  assume o: "one_per_key c"
  let ?f = "\<lambda>k c. case share_of c k of None \<Rightarrow> c
    | Some s \<Rightarrow> if sh_state s = ''ready'' \<or> sh_state s = ''claimed'' \<or> sh_state s = ''transferring''
        then CloseShareInternal E k ''failed'' ''signal_lost'' c else c"
  have f: "skel (fold ?f xs d) = skel d" if "one_per_key d" for xs and d :: "'a core"
    by (rule skel_fold) (use that in \<open>auto simp: skel_CloseShareInternal split: option.splits\<close>)
  have g: "skel (fold (\<lambda>k c. case receive_of c k of None \<Rightarrow> c
             | Some r \<Rightarrow> if rv_state r = ''claiming'' \<or> rv_state r = ''connecting'' \<or> rv_state r = ''waiting_offer''
                 then FinishReceive E k ''failed'' ''signal_lost'' ''signaling connection lost'' c else c) xs d) = skel d" for xs and d :: "'a core"
    by (induction xs arbitrary: d) (auto split: option.splits)
  have "one_per_key (c\<lparr>co_share_inflight := False, co_claim_inflight := False\<rparr>)" using o by (simp add: one_per_key_def transfer_keys_def)
  then show ?thesis using f g by (simp add: signal_lost_def Let_def)
qed

section \<open>The invariant\<close>

text \<open>The data sinks that belong to the transfers.\<close>

definition sinks_of :: "(string \<times> (string \<times> string) \<times> bool \<times> nat) list \<Rightarrow> (string \<times> nat) list" where
  "sinks_of ks = map (\<lambda>p. (fst p, snd (snd (snd p)))) ks"

definition core_wf :: "bool \<Rightarrow> 'j core \<Rightarrow> bool" where
  "core_wf down c \<longleftrightarrow>
     sorted_wrt (<) (map fst (share_keys c)) \<and> (\<forall>(k, i, m) \<in> set (share_keys c). i = k \<and> m \<in> {''once'', ''open''}) \<and>
     sorted_wrt (<) (map fst (receive_keys c)) \<and> (\<forall>(k, i) \<in> set (receive_keys c). i = k) \<and>
     sorted_wrt (<) (map fst (transfer_keys c)) \<and>
     (\<forall>(k, (i, tid), att, owner) \<in> set (transfer_keys c). i = k \<and> att \<and> owner < co_next c) \<and>
     sorted_wrt (<) (map fst (co_transfer_ids c)) \<and>
     (\<forall>(tid, sid) \<in> set (co_transfer_ids c). \<exists>owner. (sid, (sid, tid), True, owner) \<in> set (transfer_keys c)) \<and>
     (case peer_key c of None \<Rightarrow> (co_signal_connected c \<longrightarrow> down) \<and> transfer_keys c = []
      | Some (up, sinks) \<Rightarrow> up \<and> sinks = sinks_of (transfer_keys c))"

lemma core_wf_cong: "skel c' = skel c \<Longrightarrow> core_wf down c' = core_wf down c"
proof -
  assume "skel c' = skel c"
  then have e: "share_keys c' = share_keys c" "receive_keys c' = receive_keys c" "transfer_keys c' = transfer_keys c"
    "co_transfer_ids c' = co_transfer_ids c" "co_next c' = co_next c" "co_signal_connected c' = co_signal_connected c" "peer_key c' = peer_key c"
    by (simp_all add: skel_def)
  show ?thesis unfolding core_wf_def e ..
qed

lemma wf_one: "core_wf down c \<Longrightarrow> one_per_key c"
  by (simp add: core_wf_def one_per_key_def strict_sorted_iff)

lemma map_omap_put: "map (\<lambda>(a, v). (a, g v)) (omap_put k v m) = omap_put k (g v) (map (\<lambda>(a, v). (a, g v)) m)"
  by (induction m) auto

lemma map_omap_del: "map (\<lambda>(a, v). (a, g v)) (omap_del k m) = omap_del k (map (\<lambda>(a, v). (a, g v)) m)"
  by (induction m) (auto simp: omap_del_def)

lemma sorted_omap_del: "sorted_wrt (<) (map fst m) \<Longrightarrow> sorted_wrt (<) (map fst (omap_del k m))"
  by (induction m) (auto simp: omap_del_def)

lemma omap_del_Nil [simp]: "omap_del k [] = []"
  by (simp add: omap_del_def)

lemma ball_omap_put: "\<forall>x\<in>set m. P x \<Longrightarrow> P (k, v) \<Longrightarrow> \<forall>x\<in>set (omap_put k v m). P x"
  using set_omap_put[of k v m] by blast

lemma in_omap_put: "(k, v) \<in> set (omap_put k v m)" "(a, b) \<in> set m \<Longrightarrow> a \<noteq> k \<Longrightarrow> (a, b) \<in> set (omap_put k v m)"
  by (induction m) auto

lemma set_omap_del [simp]: "set (omap_del k m) = {p \<in> set m. fst p \<noteq> k}"
  by (auto simp: omap_del_def)

lemma omap_put_other: "(a, b) \<in> set (omap_put k v m) \<Longrightarrow> (a, b) = (k, v) \<or> (a, b) \<in> set m \<and> a \<noteq> k \<or> (a, b) \<in> set m"
  using set_omap_put[of k v m] by blast

lemma set_omap_put_sorted: "sorted_wrt (<) (map fst m) \<Longrightarrow> (a, b) \<in> set (omap_put k v m) \<Longrightarrow> (a, b) = (k, v) \<or> a \<noteq> k \<and> (a, b) \<in> set m"
proof -
  assume s: "sorted_wrt (<) (map fst m)" and m: "(a, b) \<in> set (omap_put k v m)"
  have "distinct (map fst (omap_put k v m))" using sorted_omap_put[OF s] by (simp add: strict_sorted_iff)
  then show ?thesis using m in_omap_put(1)[of k v m] set_omap_put[of k v m] by (metis eq_key_imp_eq_value insertE subsetD)
qed

lemma sinks_of_put: "sinks_of (omap_put k (i, att, ow) ks) = omap_put k ow (sinks_of ks)"
  by (induction ks) (auto simp: sinks_of_def)

lemma sinks_of_del: "sinks_of (omap_del k ks) = omap_del k (sinks_of ks)"
  by (induction ks) (auto simp: sinks_of_def omap_del_def)

lemma map_of_sinks: "map_of (sinks_of ks) k = map_option (\<lambda>v. snd (snd v)) (map_of ks k)"
  by (induction ks) (auto simp: sinks_of_def)

section \<open>Steps that change the skeleton\<close>

lemma wf_put_share: "core_wf down c \<Longrightarrow> sh_id s = k \<Longrightarrow> sh_mode s \<in> {''once'', ''open''} \<Longrightarrow> core_wf down (put_share k s c)"
proof -
  assume a: "core_wf down c" "sh_id s = k" "sh_mode s \<in> {''once'', ''open''}"
  have e: "share_keys (put_share k s c) = omap_put k (sh_id s, sh_mode s) (share_keys c)"
    "receive_keys (put_share k s c) = receive_keys c" "transfer_keys (put_share k s c) = transfer_keys c" "peer_key (put_share k s c) = peer_key c"
    "co_transfer_ids (put_share k s c) = co_transfer_ids c" "co_next (put_share k s c) = co_next c"
    "co_signal_connected (put_share k s c) = co_signal_connected c"
    by (simp_all add: put_share_def skel_defs map_omap_put[where g = "\<lambda>s. (sh_id s, sh_mode s)"])
  have "\<forall>x\<in>set (omap_put k (sh_id s, sh_mode s) (share_keys c)). case x of (k, i, m) \<Rightarrow> i = k \<and> m \<in> {''once'', ''open''}"
    by (rule ball_omap_put) (use a in \<open>simp_all add: core_wf_def\<close>)
  then show ?thesis using a(1) unfolding core_wf_def e by (simp add: sorted_omap_put)
qed

lemma wf_put_receive: "core_wf down c \<Longrightarrow> rv_transfer_id r = k \<Longrightarrow> core_wf down (put_receive k r c)"
proof -
  assume a: "core_wf down c" "rv_transfer_id r = k"
  have e: "receive_keys (put_receive k r c) = omap_put k (rv_transfer_id r) (receive_keys c)"
    "share_keys (put_receive k r c) = share_keys c" "transfer_keys (put_receive k r c) = transfer_keys c" "peer_key (put_receive k r c) = peer_key c"
    "co_transfer_ids (put_receive k r c) = co_transfer_ids c" "co_next (put_receive k r c) = co_next c"
    "co_signal_connected (put_receive k r c) = co_signal_connected c"
    by (simp_all add: put_receive_def skel_defs map_omap_put)
  have "\<forall>x\<in>set (omap_put k (rv_transfer_id r) (receive_keys c)). case x of (k, i) \<Rightarrow> i = k"
    by (rule ball_omap_put) (use a in \<open>simp_all add: core_wf_def\<close>)
  then show ?thesis using a(1) unfolding core_wf_def e by (simp add: sorted_omap_put)
qed

lemma wf_del_receive: "core_wf down c \<Longrightarrow> core_wf down (c\<lparr>co_receives := omap_del k (co_receives c)\<rparr>)"
proof -
  assume a: "core_wf down c"
  let ?c = "c\<lparr>co_receives := omap_del k (co_receives c)\<rparr>"
  have e: "receive_keys ?c = omap_del k (receive_keys c)" "share_keys ?c = share_keys c" "transfer_keys ?c = transfer_keys c"
    "peer_key ?c = peer_key c" "co_transfer_ids ?c = co_transfer_ids c" "co_next ?c = co_next c" "co_signal_connected ?c = co_signal_connected c"
    by (simp_all add: skel_defs map_omap_del)
  show ?thesis using a unfolding core_wf_def e by (auto simp: sorted_omap_del)
qed

lemma wf_signal: "core_wf down c \<Longrightarrow> co_peer c \<noteq> None \<or> down \<Longrightarrow> core_wf down (c\<lparr>co_signal_connected := b\<rparr>)"
proof -
  assume a: "core_wf down c" "co_peer c \<noteq> None \<or> down"
  let ?c = "c\<lparr>co_signal_connected := b\<rparr>"
  have e: "share_keys ?c = share_keys c" "receive_keys ?c = receive_keys c" "transfer_keys ?c = transfer_keys c"
    "co_transfer_ids ?c = co_transfer_ids c" "co_next ?c = co_next c" "peer_key ?c = peer_key c"
    by (simp_all add: skel_defs)
  show ?thesis using a unfolding core_wf_def e by (auto simp: peer_key_def split: option.splits)
qed

lemma wf_EnsurePeer: "core_wf down c \<Longrightarrow> EnsurePeer E c = (r, c') \<Longrightarrow> core_wf down c'"
proof -
  assume a: "core_wf down c" "EnsurePeer E c = (r, c')"
  have "c' = c \<or> (\<exists>p. c' = c\<lparr>co_peer := Some p\<rparr> \<and> co_peer c = None \<and> pe_open p \<and> pe_handle p \<and> pe_sinks p = [])"
    using a(2) by (auto simp: EnsurePeer_def Connect_def new_peer_def rtc_def Let_def split: if_splits sum.splits prod.splits)
  then show ?thesis
  proof
    assume "\<exists>p. c' = c\<lparr>co_peer := Some p\<rparr> \<and> co_peer c = None \<and> pe_open p \<and> pe_handle p \<and> pe_sinks p = []"
    then obtain p where p: "c' = c\<lparr>co_peer := Some p\<rparr>" "co_peer c = None" "pe_open p" "pe_handle p" "pe_sinks p = []" by blast
    have e: "share_keys c' = share_keys c" "receive_keys c' = receive_keys c" "transfer_keys c' = transfer_keys c"
      "co_transfer_ids c' = co_transfer_ids c" "co_next c' = co_next c" "co_signal_connected c' = co_signal_connected c" "peer_key c = None"
      "peer_key c' = Some (True, [])"
      using p by (simp_all add: skel_defs)
    show ?thesis using a(1) unfolding core_wf_def e by (auto simp: sinks_of_def)
  qed (use a(1) in simp)
qed

lemma wf_DropTransfer:
  assumes "core_wf down c"
  shows "core_wf down (DropTransfer sid c)"
proof (cases "transfer_of c sid")
  case (Some t)
  let ?c = "DropTransfer sid c"
  obtain i tid where it: "ids (tr_session t) = (i, tid)" by fastforce
  have t: "(sid, (i, tid), lk_attached (tr_link t), tr_owner t) \<in> set (transfer_keys c)"
    using map_of_SomeD[OF Some] it by (force simp: transfer_keys_def)
  then have a: "i = sid" "lk_attached (tr_link t)" using assms by (auto simp: core_wf_def)
  have e: "share_keys ?c = share_keys c" "receive_keys ?c = receive_keys c" "transfer_keys ?c = omap_del sid (transfer_keys c)"
    "co_transfer_ids ?c = omap_del tid (co_transfer_ids c)" "co_next ?c = co_next c" "co_signal_connected ?c = co_signal_connected c"
    using Some it a
    by (simp_all add: DropTransfer_def skel_defs ids_def
        map_omap_del[where g = "\<lambda>t. ((sn_session_id (ss_snap (tr_session t)), sn_transfer_id (ss_snap (tr_session t))), lk_attached (tr_link t), tr_owner t)"])
  have pk: "peer_key ?c = map_option (\<lambda>p. (pe_open p \<and> pe_handle p, pe_sinks (RemoveDataSink sid (tr_owner t) p))) (co_peer c)"
    using Some a by (cases "co_peer c") (simp_all add: DropTransfer_def peer_key_def RemoveDataSink_def)
  have d: "distinct (map fst (transfer_keys c))" using assms by (simp add: core_wf_def strict_sorted_iff)
  have other: "s \<noteq> sid" if "(s, (s, tid'), True, ow) \<in> set (transfer_keys c)" "tid' \<noteq> tid" for s tid' ow
    using that t d by (metis eq_key_imp_eq_value prod.inject)
  have sinks: "pe_sinks (RemoveDataSink sid (tr_owner t) p) = sinks_of (omap_del sid (transfer_keys c))"
    if "pe_sinks p = sinks_of (transfer_keys c)" for p
    using that t d by (simp add: RemoveDataSink_def map_of_sinks sinks_of_del) (simp add: omap_del_def)
  have i: "\<exists>ow. (s, (s, tid'), True, ow) \<in> set (omap_del sid (transfer_keys c))" if "(tid', s) \<in> set (omap_del tid (co_transfer_ids c))" for tid' s
  proof -
    have "(tid', s) \<in> set (co_transfer_ids c)" "tid' \<noteq> tid" using that by simp_all
    then show ?thesis using assms other by (fastforce simp: core_wf_def)
  qed
  show ?thesis using assms sinks i unfolding core_wf_def e pk
    by (auto simp: sorted_omap_del peer_key_def split: option.splits)
qed (use assms in \<open>simp add: DropTransfer_def\<close>)

lemma wf_MakeSession:
  assumes "core_wf down c" "transfer_of c sid = None" "\<not> co_null_call (MakeSession E sid role tid input sl rv c)" "\<And>s. ids (input s) = ids s"
  shows "core_wf down (MakeSession E sid role tid input sl rv c)"
proof -
  let ?c = "MakeSession E sid role tid input sl rv c"
  have up: "co_peer c \<noteq> None" using assms(3) by (auto simp: MakeSession_def Option.is_none_def)
  have e: "share_keys ?c = share_keys c" "receive_keys ?c = receive_keys c" "co_next ?c = co_next c + 1" "co_signal_connected ?c = co_signal_connected c"
    "transfer_keys ?c = omap_put sid ((sid, tid), True, co_next c) (transfer_keys c)" "co_transfer_ids ?c = omap_put tid sid (co_transfer_ids c)"
    "peer_key ?c = map_option (\<lambda>p. (pe_open p \<and> pe_handle p, omap_put sid (co_next c) (pe_sinks p))) (co_peer c)"
    using assms(4)
    by (simp_all add: MakeSession_def skel_defs Attach_def SetDataSink_def option.map_comp comp_def
        map_omap_put[where g = "\<lambda>t. (ids (tr_session t), lk_attached (tr_link t), tr_owner t)"])
      (simp add: ids_def new_session_def)
  have s: "sorted_wrt (<) (map fst (co_transfer_ids c))" using assms(1) by (simp add: core_wf_def)
  have n: "sid \<notin> fst ` set (transfer_keys c)" using assms(2) by (simp add: transfer_keys_def map_of_eq_None_iff image_image case_prod_beta)
  have i: "\<exists>ow. (s, (s, tid'), True, ow) \<in> set (omap_put sid ((sid, tid), True, co_next c) (transfer_keys c))"
    if "(tid', s) \<in> set (omap_put tid sid (co_transfer_ids c))" for tid' s
  proof (cases "(tid', s) = (tid, sid)")
    case False
    then have "(tid', s) \<in> set (co_transfer_ids c)" using set_omap_put_sorted[OF s that] by auto
    then obtain ow where "(s, (s, tid'), True, ow) \<in> set (transfer_keys c)" using assms(1) by (auto simp: core_wf_def)
    moreover from this have "s \<noteq> sid" using n by force
    ultimately show ?thesis using in_omap_put(2) by metis
  qed (use in_omap_put(1)[of sid "((sid, tid), True, co_next c)" "transfer_keys c"] in auto)
  have k: "\<forall>x \<in> set (omap_put sid ((sid, tid), True, co_next c) (transfer_keys c)). case x of (k, (i, _), att, ow) \<Rightarrow> i = k \<and> att \<and> ow < co_next c + 1"
    by (rule ball_omap_put) (use assms(1) in \<open>auto simp: core_wf_def\<close>)
  show ?thesis using assms(1) up i k unfolding core_wf_def e
    by (auto simp: sorted_omap_put peer_key_def sinks_of_put split: option.splits)
qed

section \<open>Every task keeps the invariant\<close>

lemmas wf_simps [simp] = skel_record[THEN core_wf_cong] skel_events[THEN core_wf_cong] skel_calls[THEN core_wf_cong]
  skel_if_peer[THEN core_wf_cong] skel_pumps[THEN core_wf_cong]

lemmas wf_upd = skel_upd_share[THEN core_wf_cong] skel_upd_receive[THEN core_wf_cong] skel_upd_transfer[THEN core_wf_cong]

lemma wf_calm: "core_wf down c \<Longrightarrow> skel c' = skel c \<Longrightarrow> core_wf down c'"
  using core_wf_cong by blast

lemma wf_session: "core_wf down c \<Longrightarrow> (\<And>s. ids (f s) = ids s) \<Longrightarrow> core_wf down (total_session E sid f c)"
  by (rule wf_calm) (simp_all add: skel_total_session wf_one)

lemma wf_on_session: "core_wf down c \<Longrightarrow> on_session E sid f c = Some c' \<Longrightarrow> (\<And>s s'. f s = Some s' \<Longrightarrow> ids s' = ids s) \<Longrightarrow> core_wf down c'"
  using skel_on_session wf_calm wf_one by metis

lemma wf_close: "core_wf down c \<Longrightarrow> core_wf down (CloseShareInternal E k st reason c)"
  by (rule wf_calm) (simp_all add: skel_CloseShareInternal wf_one)

lemma wf_share_create:
  assumes "core_wf down c" "share_create_task E k paths mode ttl c = Some c'" "mode \<in> {''once'', ''open''}"
  shows "core_wf down c'"
proof -
  have put: "core_wf down (put_share k s c)" if "sh_id s = k" "sh_mode s = mode" for s
    by (rule wf_put_share[OF assms(1)]) (use that assms(3) in simp_all)
  show ?thesis
  proof (cases "BuildManifest (ce_fs E) paths")
    case (Done mf)
    obtain m files where mf: "mf = (m, files)" by fastforce
    let ?c1 = "EmitShare E k (put_share k ((new_Share k mode ttl paths)\<lparr>sh_manifest := m, sh_files := files\<rparr>) c)"
    have 1: "core_wf down ?c1" by (rule wf_calm[OF put]) (simp_all add: new_Share_def)
    obtain r c2 where e: "EnsurePeer E ?c1 = (r, c2)" by fastforce
    have "skel c' = skel c2" using assms(2) Done mf e by (auto simp: share_create_task_def Let_def skel_upd_share split: sum.splits)
    then show ?thesis by (rule wf_calm[OF wf_EnsurePeer[OF 1 e]])
  next
    case (Fail err)
    then have "skel c' = skel (put_share k ((new_Share k mode ttl paths)\<lparr>sh_state := ''failed'', sh_error := err\<rparr>) c)"
      using assms(2) by (auto simp: share_create_task_def Let_def)
    then show ?thesis by (rule wf_calm[OF put, rotated 2]) (simp_all add: new_Share_def)
  qed (use assms(2) in \<open>simp add: share_create_task_def Let_def\<close>)
qed

lemma wf_StartClaim: "core_wf down c \<Longrightarrow> core_wf down (StartClaim E k c)"
proof -
  assume a: "core_wf down c"
  let ?c1 = "EmitReceive E k (upd_receive k (\<lambda>r. r\<lparr>rv_active := True, rv_tried_token := False\<rparr>) c)"
  have 1: "core_wf down ?c1" by (rule wf_calm[OF a]) (simp add: skel_upd_receive)
  obtain r c2 where e: "EnsurePeer E ?c1 = (r, c2)" by fastforce
  have "skel (StartClaim E k c) = skel c2" using e by (auto simp: StartClaim_def Let_def split: sum.splits)
  then show ?thesis by (rule wf_calm[OF wf_EnsurePeer[OF 1 e]])
qed

lemma wf_receive_start: "core_wf down c \<Longrightarrow> core_wf down (receive_start_task E k code dir c)"
  by (auto simp: receive_start_task_def intro!: wf_StartClaim wf_put_receive wf_del_receive split: option.splits)

lemma wf_ReceiveResume: "core_wf down c \<Longrightarrow> core_wf down (ReceiveResume E k c)"
  by (auto simp: ReceiveResume_def wf_upd intro!: wf_StartClaim split: option.splits)

lemma wf_OnShareEvent: "core_wf down c \<Longrightarrow> core_wf down (OnShareEvent E ev sid code expires detail c)"
proof (cases ev)
qed (auto simp: OnShareEvent_def Let_def wf_upd wf_close split: option.splits)

lemma wf_OnClaimResult: "core_wf down c \<Longrightarrow> core_wf down (OnClaimResult E r sid token message c)"
  by (auto simp: OnClaimResult_def Let_def wf_upd split: option.splits)

lemma wf_OnSignal: "core_wf down c \<Longrightarrow> co_peer c \<noteq> None \<or> down \<Longrightarrow> core_wf down (OnSignal E st pid c)"
proof -
  assume a: "core_wf down c" "co_peer c \<noteq> None \<or> down"
  let ?c = "c\<lparr>co_peer_id := pid, co_signal_connected := (st = SignalConnected)\<rparr>"
  have w: "core_wf down ?c" using wf_signal[of down "c\<lparr>co_peer_id := pid\<rparr>"] a by simp
  have "core_wf down (signal_lost E (Emit E ev ?c))" for ev
    by (rule wf_calm[of down "Emit E ev ?c"]) (use w in \<open>simp_all add: skel_signal_lost wf_one\<close>)
  then show ?thesis using w by (cases "st = SignalConnected") (simp_all add: OnSignal_def Let_def)
qed

lemma DropTransfer_none: "transfer_of (DropTransfer sid c) sid = None"
  by (simp add: DropTransfer_def map_of_omap_del split: option.splits)

lemma DropTransfer_peer: "co_peer (DropTransfer sid c) = None \<longleftrightarrow> co_peer c = None"
  by (simp add: DropTransfer_def split: option.splits)

lemma wf_connect_sender: "core_wf down c \<Longrightarrow> transfer_of c (si_session_id info) = None \<Longrightarrow> \<not> co_null_call (connect_sender E info c) \<Longrightarrow>
   core_wf down (connect_sender E info c)"
  unfolding connect_sender_def Let_def by (auto split: option.splits intro!: wf_MakeSession simp: wf_upd)

lemma wf_connect_receiver: "core_wf down c \<Longrightarrow> transfer_of c (si_session_id info) = None \<Longrightarrow> \<not> co_null_call (connect_receiver E info c) \<Longrightarrow>
   core_wf down (connect_receiver E info c)"
  unfolding connect_receiver_def Let_def by (auto split: option.splits intro!: wf_MakeSession simp: wf_upd)

lemma wf_OnSession:
  assumes "core_wf down c" "\<not> co_null_call (OnSession E info c)"
  shows "core_wf down (OnSession E info c)"
proof (cases "si_status info")
  case SessionConnecting
  then show ?thesis using assms
    by (auto simp: OnSession_def Let_def wf_DropTransfer DropTransfer_none wf_connect_sender wf_connect_receiver split: option.splits if_splits)
qed (use assms(1) in \<open>simp_all add: OnSession_def Let_def wf_DropTransfer wf_session wf_upd split: option.splits\<close>)

lemma wf_OnCtrl: "core_wf down c \<Longrightarrow> OnCtrl E sid data c = Some c' \<Longrightarrow> core_wf down c'"
proof -
  assume a: "core_wf down c" "OnCtrl E sid data c = Some c'"
  show ?thesis
  proof (cases "transfer_of c sid")
    case (Some t)
    obtain m l where l: "OnCtrlChunk data (tr_link t) = (m, l)" by fastforce
    then have at: "lk_attached l = lk_attached (tr_link t)" using attached_ops(2)[of data "tr_link t"] by simp
    have "b = t" if "(sid, b) \<in> set (co_transfers c)" for b
      using that Some wf_one[OF a(1)] by (simp add: one_per_key_def transfer_keys_def comp_def case_prod_beta)
    then have "skel (upd_transfer sid (\<lambda>t. t\<lparr>tr_link := l\<rparr>) c) = skel c"
      using at by (auto simp: skel_defs upd_transfer_def omap_upd_def split: if_splits)
    then have w: "core_wf down (upd_transfer sid (\<lambda>t. t\<lparr>tr_link := l\<rparr>) c)" by (rule wf_calm[OF a(1)])
    show ?thesis using a(2) Some l w
      by (auto simp: OnCtrl_def Let_def split: option.splits dest: message_ids elim: wf_on_session)
  qed (use a in \<open>simp add: OnCtrl_def\<close>)
qed

lemma wf_LingerTask: "core_wf down c \<Longrightarrow> core_wf down (LingerTask E sid owner c)"
  by (auto simp: LingerTask_def intro: wf_DropTransfer split: option.splits)

lemma wf_RecreatePeer: "core_wf down c \<Longrightarrow> core_wf down (RecreatePeer E c)"
proof -
  assume a: "core_wf down c"
  let ?f = "\<lambda>sid. total_session E sid (OnSessionEnd (ce_json E) (ce_jn E) ''reconfigured'')"
  let ?c1 = "fold ?f (map fst (co_transfers c)) c"
  let ?c2 = "?c1\<lparr>co_transfers := [], co_transfer_ids := []\<rparr>"
  let ?c3 = "fold (\<lambda>k. CloseShareInternal E k ''closed'' ''reconfigured'') (map fst (co_shares ?c2)) ?c2"
  let ?c4 = "?c3\<lparr>co_peer := None, co_signal_connected := False\<rparr>"
  have 1: "skel ?c1 = skel c" by (rule skel_fold) (simp_all add: skel_total_session wf_one[OF a])
  have "one_per_key ?c2" by (simp add: one_per_key_def transfer_keys_def)
  then have 3: "skel ?c3 = skel ?c2" by (rule skel_fold[rotated]) (simp add: skel_CloseShareInternal)
  have k: "share_keys ?c4 = share_keys c" "receive_keys ?c4 = receive_keys c" "transfer_keys ?c4 = []" "co_transfer_ids ?c4 = []"
    "co_signal_connected ?c4 = False" "peer_key ?c4 = None"
    using 1 3 by (simp_all add: skel_defs)
  have "core_wf down ?c4" using a unfolding core_wf_def k by simp
  then have "core_wf down c5" if "EnsurePeer E ?c4 = (r, c5)" for r c5 using wf_EnsurePeer that by blast
  then show ?thesis unfolding RecreatePeer_def Let_def by (auto split: prod.splits sum.splits)
qed

lemma wf_update: "core_wf down c \<Longrightarrow> core_wf down (update_task E cfg c)"
  by (simp add: update_task_def Let_def wf_RecreatePeer)

lemma wf_OnStats: "core_wf down c \<Longrightarrow> core_wf down (OnStats E sid path c)"
  by (simp add: OnStats_def wf_session split: option.splits)

lemma wf_ShareClose: "core_wf down c \<Longrightarrow> core_wf down (ShareClose E k c)"
  by (simp add: ShareClose_def wf_close split: option.splits)

lemma wf_on_transfer: "core_wf down c \<Longrightarrow> (\<And>s. ids (f s) = ids s) \<Longrightarrow> core_wf down (on_transfer E tid f c)"
  by (simp add: on_transfer_def wf_session split: option.splits)

lemma wf_TransferCancel: "core_wf down c \<Longrightarrow> core_wf down (TransferCancel E tid c)"
  by (simp add: TransferCancel_def cancel_session_def wf_session wf_upd split: option.splits)

section \<open>Calls through the peer\<close>

text \<open>
  Most operations call the peer only where the code tests \<^verbatim>\<open>peer_\<close>.  The two queues and the callbacks call it without a test:
  the former while signalling is up, the latter because they come from a peer.
\<close>

lemma null_share_done [simp]: "co_null_call (share_done E snap k c) = co_null_call c"
  by (simp add: share_done_def Let_def split: option.split)

lemma null_OnTransferState [simp]: "co_null_call (OnTransferState E snap c) = co_null_call c"
  by (simp add: OnTransferState_def Let_def split: option.split)

lemma null_session_event [simp]: "co_null_call (session_event E sid rcv tid e c) = co_null_call c"
  by (simp add: session_event_def OnTransferProgress_def OnPersist_def Let_def split: ss_event.split option.split)

lemma null_fold: "(\<And>x c. co_null_call (f x c) = co_null_call c) \<Longrightarrow> co_null_call (fold f xs c) = co_null_call c"
  by (induction xs arbitrary: c) simp_all

lemma null_on_session: "on_session E sid f c = Some c' \<Longrightarrow> co_null_call c' = co_null_call c"
  by (auto simp: on_session_def null_fold split: option.splits)

lemma null_total_session [simp]: "co_null_call (total_session E sid f c) = co_null_call c"
  by (auto simp: total_session_def dest: null_on_session split: option.splits)

lemma null_close [simp]: "co_null_call (CloseShareInternal E k st reason c) = co_null_call c"
proof -
  have "co_null_call (fold (cancel_session E reason) xs d) = co_null_call d" for xs and d :: "'a core"
    by (rule null_fold) (simp add: cancel_session_def)
  then show ?thesis by (simp add: CloseShareInternal_def Let_def split: option.split)
qed

lemma null_signal_lost [simp]: "co_null_call (signal_lost E c) = co_null_call c"
proof -
  have a: "co_null_call (fold (\<lambda>k c. case share_of c k of None \<Rightarrow> c
      | Some s \<Rightarrow> if sh_state s = ''ready'' \<or> sh_state s = ''claimed'' \<or> sh_state s = ''transferring''
          then CloseShareInternal E k ''failed'' ''signal_lost'' c else c) ks d) = co_null_call d" for ks and d :: "'a core"
    by (rule null_fold) (simp split: option.split)
  have b: "co_null_call (fold (\<lambda>k c. case receive_of c k of None \<Rightarrow> c
      | Some r \<Rightarrow> if rv_state r = ''claiming'' \<or> rv_state r = ''connecting'' \<or> rv_state r = ''waiting_offer''
          then FinishReceive E k ''failed'' ''signal_lost'' ''signaling connection lost'' c else c) ks d) = co_null_call d" for ks and d :: "'a core"
    by (rule null_fold) (simp split: option.split)
  show ?thesis by (simp add: signal_lost_def Let_def a b)
qed

lemma null_EnsurePeer: "EnsurePeer E c = (r, c') \<Longrightarrow> co_null_call c' = co_null_call c \<and> co_signal_connected c' = co_signal_connected c \<and>
    (\<forall>u. r = Inr u \<longrightarrow> co_peer c' \<noteq> None)"
  by (auto simp: EnsurePeer_def split: if_splits sum.splits prod.splits)

lemma null_call: "peer_call E f c = (r, c') \<Longrightarrow> co_peer c \<noteq> None \<Longrightarrow> co_null_call c' = co_null_call c \<and> co_peer c' \<noteq> None \<and>
    co_signal_connected c' = co_signal_connected c"
  by (auto simp: peer_call_def split: option.splits prod.splits)

definition reachable_peer :: "'j core \<Rightarrow> bool" where
  "reachable_peer c \<longleftrightarrow> (co_signal_connected c \<longrightarrow> co_peer c \<noteq> None)"

lemma null_pump_shares: "reachable_peer c \<Longrightarrow> co_null_call (pump_shares E q c) = co_null_call c"
proof (induction E q c rule: pump_shares.induct)
  case (2 E k q c)
  show ?case
  proof (cases "co_share_inflight c \<or> \<not> co_signal_connected c")
    case False
    then have up: "co_peer c \<noteq> None" "co_signal_connected c" "\<not> co_share_inflight c" using "2.prems" by (auto simp: reachable_peer_def)
    show ?thesis
    proof (cases "share_of c k")
      case None
      then show ?thesis using up "2.IH"(1) "2.prems" by simp
    next
      case (Some s)
      let ?f = "CreateShare (sh_mode s) (sh_ttl_sec s) (ce_dump E (share_meta (ce_json E) (sh_manifest s)))"
      obtain r c1 where pc: "peer_call E ?f c = (r, c1)" by fastforce
      have c1: "co_null_call c1 = co_null_call c" "co_peer c1 \<noteq> None" using null_call[OF pc up(1)] by simp_all
      show ?thesis using up Some "2.IH"(2)[OF _ Some] "2.IH"(3)[OF _ Some _ pc[symmetric]] "2.prems" pc c1
        by (simp add: reachable_peer_def)
    qed
  qed auto
qed simp

lemma null_pump_claims: "reachable_peer c \<Longrightarrow> co_null_call (pump_claims E q c) = co_null_call c"
proof (induction E q c rule: pump_claims.induct)
  case (2 E k q c)
  show ?case
  proof (cases "co_claim_inflight c \<or> \<not> co_signal_connected c")
    case False
    then have up: "co_peer c \<noteq> None" "co_signal_connected c" "\<not> co_claim_inflight c" using "2.prems" by (auto simp: reachable_peer_def)
    show ?thesis
    proof (cases "receive_of c k")
      case None
      then show ?thesis using up "2.IH"(1) "2.prems" by simp
    next
      case (Some r)
      define token where "token = (rv_resume_token r \<noteq> [] \<and> \<not> rv_tried_token r)"
      define c1 where "c1 = (if token then upd_receive k (\<lambda>r. r\<lparr>rv_tried_token := True\<rparr>) c else c)"
      obtain rc c2 where pc: "peer_call E (if token then Claim [] (rv_resume_token r) else Claim (rv_code r) []) c1 = (rc, c2)" by fastforce
      have "co_peer c1 \<noteq> None" using up by (simp add: c1_def)
      from null_call[OF pc this] have c2: "co_null_call c2 = co_null_call c" "co_peer c2 \<noteq> None" by (simp_all add: c1_def)
      have step: "pump_claims E (k # q) c =
         (if rv_state r \<noteq> ''claiming'' then pump_claims E q c
          else if rc \<noteq> 0 then pump_claims E q (FinishReceive E k ''failed'' ''claim'' ''claim send failed'' c2)
          else c2\<lparr>co_claim_queue := q, co_claim_inflight := True\<rparr>)"
        using up Some pc by (simp add: Let_def token_def[symmetric] c1_def[symmetric])
      have "co_null_call (pump_claims E q (FinishReceive E k ''failed'' ''claim'' ''claim send failed'' c2)) = co_null_call c2" if "rc \<noteq> 0" "rv_state r = ''claiming''"
        using "2.IH"(3)[OF _ Some _ token_def c1_def pc[symmetric]] that False c2 by (simp add: reachable_peer_def FinishReceive_def)
      then show ?thesis unfolding step using "2.IH"(2)[OF False Some] "2.prems" c2 by simp
    qed
  qed auto
qed simp

lemma null_pumps: "reachable_peer c \<Longrightarrow> co_null_call (PumpShareCreates E c) = co_null_call c" "reachable_peer c \<Longrightarrow> co_null_call (PumpClaims E c) = co_null_call c"
  by (simp_all add: PumpShareCreates_def PumpClaims_def null_pump_shares null_pump_claims)

lemma reachable_cong: "skel c' = skel c \<Longrightarrow> reachable_peer c' = reachable_peer c"
proof -
  assume "skel c' = skel c"
  then have "co_signal_connected c' = co_signal_connected c" "peer_key c' = peer_key c" by (simp_all add: skel_def)
  then show ?thesis by (cases "co_peer c"; cases "co_peer c'") (simp_all add: reachable_peer_def peer_key_def)
qed

lemmas reachable_simps [simp] = skel_record[THEN reachable_cong] skel_events[THEN reachable_cong] skel_pumps[THEN reachable_cong]
  skel_if_peer[THEN reachable_cong]

lemmas reachable_upd = skel_upd_share[THEN reachable_cong] skel_upd_receive[THEN reachable_cong]

lemma null_StartClaim: "reachable_peer c \<Longrightarrow> co_null_call (StartClaim E k c) = co_null_call c"
  by (auto simp: StartClaim_def Let_def null_pumps reachable_peer_def dest: null_EnsurePeer split: prod.split sum.split)

lemma null_share_create:
  assumes "reachable_peer c" "share_create_task E k paths mode ttl c = Some c'"
  shows "co_null_call c' = co_null_call c"
  using assms by (auto simp: share_create_task_def Let_def null_pumps reachable_peer_def dest: null_EnsurePeer
      split: outcome.splits prod.splits sum.splits)

lemma null_receive_start: "reachable_peer c \<Longrightarrow> co_null_call (receive_start_task E k code dir c) = co_null_call c"
  by (auto simp: receive_start_task_def null_StartClaim reachable_peer_def put_receive_def split: option.split)

lemma null_ReceiveResume: "reachable_peer c \<Longrightarrow> co_null_call (ReceiveResume E k c) = co_null_call c"
  by (auto simp: ReceiveResume_def null_StartClaim reachable_upd split: option.split)

lemma null_OnClaimResult: "reachable_peer c \<Longrightarrow> co_null_call (OnClaimResult E r sid token message c) = co_null_call c"
  by (auto simp: OnClaimResult_def Let_def null_pumps reachable_upd split: option.split)

lemma null_peer_call: "co_peer c \<noteq> None \<Longrightarrow> co_null_call (snd (peer_call E f c)) = co_null_call c"
  using null_call[of E f c] by (cases "peer_call E f c") simp

lemma null_OnShareEvent:
  assumes "reachable_peer c" "co_peer c \<noteq> None"
  shows "co_null_call (OnShareEvent E ev sid code expires detail c) = co_null_call c"
  using assms by (cases ev) (auto simp: OnShareEvent_def Let_def null_pumps null_peer_call reachable_upd split: option.splits)

lemma null_OnSignal: "co_peer c \<noteq> None \<Longrightarrow> co_null_call (OnSignal E st pid c) = co_null_call c"
proof -
  assume a: "co_peer c \<noteq> None"
  have r: "reachable_peer (Emit E ev (c\<lparr>co_peer_id := pid, co_signal_connected := b\<rparr>))" for ev b
    using a by (simp add: reachable_peer_def del: reachable_simps)
  show ?thesis using r by (simp add: OnSignal_def Let_def null_pumps del: skel_events(1)[THEN reachable_cong])
qed

lemma null_connect: "co_peer c \<noteq> None \<Longrightarrow> co_null_call (connect_sender E info c) = co_null_call c"
  "co_peer c \<noteq> None \<Longrightarrow> co_null_call (connect_receiver E info c) = co_null_call c"
  by (auto simp: connect_sender_def connect_receiver_def MakeSession_def Let_def null_peer_call split: option.split)

lemma null_OnSession: "co_peer c \<noteq> None \<Longrightarrow> co_null_call (OnSession E info c) = co_null_call c"
  by (simp add: OnSession_def Let_def null_connect DropTransfer_peer split: MiniRtcSessionStatus.split option.split)

lemma null_OnCtrl: "OnCtrl E sid data c = Some c' \<Longrightarrow> co_null_call c' = co_null_call c"
  by (auto simp: OnCtrl_def Let_def dest: null_on_session split: option.splits prod.splits)

lemma null_RecreatePeer: "co_null_call (RecreatePeer E c) = co_null_call c"
proof -
  have a: "co_null_call (fold (\<lambda>sid. total_session E sid f) ks d) = co_null_call d" for f ks and d :: "'a core"
    by (rule null_fold) simp
  have b: "co_null_call (fold (\<lambda>k. CloseShareInternal E k ''closed'' ''reconfigured'') ks d) = co_null_call d" for ks and d :: "'a core"
    by (rule null_fold) simp
  show ?thesis by (auto simp: RecreatePeer_def Let_def a b dest: null_EnsurePeer split: prod.split sum.split)
qed

lemma null_user: "co_null_call (ShareClose E k c) = co_null_call c" "co_null_call (on_transfer E tid f c) = co_null_call c"
  "co_null_call (TransferCancel E tid c) = co_null_call c" "co_null_call (update_task E cfg c) = co_null_call c"
  "co_null_call (LingerTask E sid owner c) = co_null_call c" "co_null_call (OnStats E sid path c) = co_null_call c"
  by (simp_all add: ShareClose_def on_transfer_def TransferCancel_def cancel_session_def update_task_def LingerTask_def OnStats_def Let_def
      null_RecreatePeer split: option.split)

section \<open>Reachable states\<close>

text \<open>
  Tasks that the code posts: shares whose options were checked, and callbacks of a peer.  A peer that \<^verbatim>\<open>RecreatePeer\<close> destroys
  takes its queued callbacks with it (they refer to the freed object); the last task of \<^verbatim>\<open>Shutdown\<close> only takes it away from the
  core (\<open>down\<close>), and callbacks that are already queued run after it.
\<close>

definition admissible :: "bool \<Rightarrow> 'j core_input \<Rightarrow> 'j core \<Rightarrow> bool" where
  "admissible down i c \<longleftrightarrow> (case i of PeerTask _ \<Rightarrow> co_peer c \<noteq> None \<or> down
     | UserShare k paths mode ttl \<Rightarrow> (\<exists>J cfg options :: 'j. ShareCreate J cfg paths options = Done (mode, ttl))
     | _ \<Rightarrow> True)"

lemma ShareCreate_mode: "ShareCreate J cfg paths options = Done (mode, ttl) \<Longrightarrow> mode \<in> {''once'', ''open''}"
  by (auto simp: ShareCreate_def split: if_splits option.splits prod.splits)

lemma null_task:
  assumes "reachable_peer c" "admissible False i c" "core_task E i c = Some c'"
  shows "co_null_call c' = co_null_call c"
proof (cases i)
  case (PeerTask t)
  then have "co_peer c \<noteq> None" using assms(2) by (simp add: admissible_def)
  then show ?thesis using assms(1,3) PeerTask
    by (cases t) (auto simp: null_OnSignal null_OnShareEvent null_OnClaimResult null_OnSession null_user dest: null_OnCtrl)
next
  case (UserShare k paths mode ttl)
  then show ?thesis using assms null_share_create by fastforce
next
  case (Engine sid j)
  then show ?thesis using assms(3) by (auto dest: null_on_session)
qed (use assms in \<open>auto simp: null_user null_receive_start null_ReceiveResume TransferPause_def TransferResume_def\<close>)

lemma core_handle_task: "core_handle E i c = Some c' \<longleftrightarrow> core_task E i c = Some c' \<and> \<not> co_null_call c'"
  by (auto simp: core_handle_def split: option.splits)

lemma wf_handle:
  assumes "core_wf down c" "admissible down i c" "core_handle E i c = Some c'"
  shows "core_wf down c'"
proof -
  have h: "core_task E i c = Some c'" "\<not> co_null_call c'" using assms(3) by (simp_all add: core_handle_task)
  show ?thesis
  proof (cases i)
    case (PeerTask t)
    then have "co_peer c \<noteq> None \<or> down" using assms(2) by (simp add: admissible_def)
    then show ?thesis using assms(1) h PeerTask
      by (cases t) (auto simp: wf_OnSignal wf_OnShareEvent wf_OnClaimResult wf_OnSession wf_OnStats elim: wf_OnCtrl)
  next
    case (UserShare k paths mode ttl)
    then show ?thesis using assms(1,2) h wf_share_create ShareCreate_mode by (fastforce simp: admissible_def)
  next
    case (Engine sid j)
    then show ?thesis using h by (auto elim!: wf_on_session[OF assms(1)] dest: handle_ids)
  qed (use assms(1) h in \<open>auto simp: wf_ShareClose wf_receive_start wf_ReceiveResume wf_on_transfer TransferPause_def TransferResume_def wf_TransferCancel
    wf_update wf_LingerTask wf_upd\<close>)
qed

text \<open>The states of a core, and whether the last task of \<^verbatim>\<open>Shutdown\<close> has run.  The event loop goes on until it is stopped.\<close>

inductive core_reach :: "bool \<Rightarrow> 'j core \<Rightarrow> bool" where
  start: "start_task E stored (new_core J cfg) = Some c \<Longrightarrow> core_reach False c"
| task: "core_reach down c \<Longrightarrow> admissible down i c \<Longrightarrow> core_handle E i c = Some c' \<Longrightarrow> core_reach down c'"
| stopping: "core_reach down c \<Longrightarrow> core_reach down (shutdown_cancel E c)"
| closing: "core_reach down c \<Longrightarrow> core_reach True (shutdown_close E c)"

lemma load_loop_keys:
  "load_loop J js m = Some m' \<Longrightarrow> sorted_wrt (<) (map fst m) \<Longrightarrow> \<forall>(k, r)\<in>set m. rv_transfer_id r = k \<Longrightarrow>
   sorted_wrt (<) (map fst m') \<and> (\<forall>(k, r)\<in>set m'. rv_transfer_id r = k)"
proof (induction J js m arbitrary: m' rule: load_loop.induct)
  case (2 J j js m)
  show ?case
  proof (cases "j_is_object J j")
    case True
    then obtain r where r: "load_receive J j = Some r" using "2.prems"(1) by (auto split: bind_splits)
    let ?m = "if rv_transfer_id r = [] \<or> rv_code r = [] then m else omap_put (rv_transfer_id r) r m"
    have "\<forall>x\<in>set (omap_put (rv_transfer_id r) r m). case x of (k, r) \<Rightarrow> rv_transfer_id r = k"
      by (rule ball_omap_put) (use "2.prems"(3) in simp_all)
    then show ?thesis using "2.IH"(2)[of r m'] True r "2.prems" by (simp add: sorted_omap_put split: if_splits)
  qed (use 2 in simp)
qed simp

lemma start_reach:
  assumes "start_task E stored (new_core J cfg) = Some c"
  shows "core_wf False c \<and> \<not> co_null_call c"
proof -
  obtain m where m: "load_loop (ce_json E) stored [] = Some m" using assms by (auto simp: start_task_def LoadReceives_def new_core_def)
  let ?c = "(new_core J cfg)\<lparr>co_receives := m\<rparr>"
  have w: "core_wf False ?c" "\<not> co_null_call ?c" using load_loop_keys[OF m]
    by (auto simp: core_wf_def skel_defs new_core_def comp_def case_prod_beta)
  then have "core_wf False c5 \<and> \<not> co_null_call c5" if "EnsurePeer E ?c = (r, c5)" for r c5
    using wf_EnsurePeer[OF _ that] null_EnsurePeer[OF that] by blast
  then show ?thesis using assms m w by (auto simp: start_task_def LoadReceives_def new_core_def split: prod.splits sum.splits if_splits)
qed

lemma null_shutdown_cancel: "co_null_call (shutdown_cancel E c) = co_null_call c"
  unfolding shutdown_cancel_def by (rule null_fold) (simp add: cancel_session_def)

lemma shutdown_close_wf:
  assumes "core_wf down c"
  shows "core_wf True (shutdown_close E c)" "co_null_call (shutdown_close E c) = co_null_call c"
proof -
  let ?c1 = "fold (\<lambda>sid. if_peer E (Leave sid)) (map fst (co_transfers c)) c"
  have 1: "skel ?c1 = skel c" by (rule skel_fold) (simp_all add: wf_one[OF assms])
  have e: "share_keys (shutdown_close E c) = share_keys c" "receive_keys (shutdown_close E c) = receive_keys c"
    "transfer_keys (shutdown_close E c) = []" "co_transfer_ids (shutdown_close E c) = []" "peer_key (shutdown_close E c) = None"
    using 1 by (simp_all add: shutdown_close_def Let_def skel_defs)
  show "core_wf True (shutdown_close E c)" using assms unfolding core_wf_def e by simp
  have "co_null_call ?c1 = co_null_call c" by (rule null_fold) simp
  then show "co_null_call (shutdown_close E c) = co_null_call c" by (simp add: shutdown_close_def Let_def)
qed

lemma reach_wf: "core_reach down c \<Longrightarrow> core_wf down c \<and> \<not> co_null_call c"
proof (induction rule: core_reach.induct)
  case (start E stored J cfg c)
  then show ?case by (rule start_reach)
next
  case (task down c i E c')
  then show ?case using wf_handle[of down c i E c'] by (simp add: core_handle_task)
next
  case (stopping down c E)
  then have w: "core_wf down c" "\<not> co_null_call c" by simp_all
  have "skel (shutdown_cancel E c) = skel c" unfolding shutdown_cancel_def
    by (rule skel_fold) (simp_all add: skel_cancel_session wf_one[OF w(1)])
  then show ?case using wf_calm[OF w(1)] w(2) by (simp add: null_shutdown_cancel)
next
  case (closing down c E)
  then show ?case using shutdown_close_wf by blast
qed

end
