(* ===== verification/Core_Props.thy ===== *)
theory Core_Props
  imports Core_Inv End_To_End Session_Props
begin

text \<open>
  Properties of the core (\<^verbatim>\<open>core/src/api/core.cpp\<close>): the consistency of its state, what survives a restart, and three interleavings of its tasks in
  which an answer or an identifier ends up at the wrong share, receive or transfer.
\<close>

section \<open>Consistency\<close>

text \<open>C7. At every moment of a run of the core, from the start through any sequence of user requests, callbacks of the peer,
engine events, lingering transfers and the tasks of \<^verbatim>\<open>Shutdown\<close>: every transfer identifier names a transfer that exists
and carries it; and a datagram is handed to the link of the session it was sent to if that session exists, and to nothing
otherwise.  Until the last task of \<^verbatim>\<open>Shutdown\<close> has taken the peer away there is a connected peer while signalling is up,
and no task calls a null \<^verbatim>\<open>peer_\<close>.\<close>

theorem core_state_stays_consistent:
  assumes "core_reach down c"
  shows "(\<not> down \<longrightarrow> (co_signal_connected c \<longrightarrow> (\<exists>p. co_peer c = Some p \<and> pe_open p \<and> pe_handle p)) \<and>
       (\<forall>E i c'. admissible down i c \<and> core_task E i c = Some c' \<longrightarrow> \<not> co_null_call c')) \<and>
    (\<forall>tid sid. map_of (co_transfer_ids c) tid = Some sid \<longrightarrow>
       (\<exists>t. transfer_of c sid = Some t \<and> sn_transfer_id (ss_snap (tr_session t)) = tid \<and> sn_session_id (ss_snap (tr_session t)) = sid)) \<and>
    (\<forall>p sid stream data. co_peer c = Some p \<and> stream \<noteq> kStreamCtrl \<longrightarrow>
       OnReceiveData (Some data) (Some sid) (Some stream) p =
         (case transfer_of c sid of None \<Rightarrow> Ignored | Some t \<Rightarrow> ToSink (tr_owner t)))"
proof -
  have w: "core_wf down c" "\<not> co_null_call c" using reach_wf[OF assms] by simp_all
  have "map_of (transfer_keys c) sid = map_option (\<lambda>t. (ids (tr_session t), lk_attached (tr_link t), tr_owner t)) (transfer_of c sid)" for sid
    by (simp add: transfer_keys_def map_of_map)
  then have t: "map_of (sinks_of (transfer_keys c)) sid = map_option tr_owner (transfer_of c sid)" for sid
    by (simp add: map_of_sinks option.map_comp comp_def)
  have "\<exists>t. transfer_of c sid = Some t \<and> ids (tr_session t) = (sid, tid)" if m: "map_of (co_transfer_ids c) tid = Some sid" for tid sid
  proof -
    obtain ow where "(sid, (sid, tid), True, ow) \<in> set (transfer_keys c)" using map_of_SomeD[OF m] w(1) by (auto simp: core_wf_def)
    then obtain t where "(sid, t) \<in> set (co_transfers c)" "ids (tr_session t) = (sid, tid)" by (auto simp: transfer_keys_def)
    moreover have "distinct (map fst (co_transfers c))" using wf_one[OF w(1)] by (simp add: one_per_key_def transfer_keys_def comp_def case_prod_beta)
    ultimately show ?thesis by auto
  qed
  then have i: "\<forall>tid sid. map_of (co_transfer_ids c) tid = Some sid \<longrightarrow>
      (\<exists>t. transfer_of c sid = Some t \<and> sn_transfer_id (ss_snap (tr_session t)) = tid \<and> sn_session_id (ss_snap (tr_session t)) = sid)"
    by (fastforce simp: ids_def)
  have up: "co_signal_connected c \<longrightarrow> (\<exists>p. co_peer c = Some p \<and> pe_open p \<and> pe_handle p)" if "\<not> down"
    using w(1) that by (cases "co_peer c") (simp_all add: core_wf_def peer_key_def)
  have null: "\<not> co_null_call c'" if "\<not> down" "admissible down j c" "core_task E j c = Some c'" for E j c'
    using null_task[of c j E c'] up that w(2) by (auto simp: reachable_peer_def)
  show ?thesis
  proof (intro conjI i impI)
    assume "\<not> down"
    then show "co_signal_connected c \<Longrightarrow> \<exists>p. co_peer c = Some p \<and> pe_open p \<and> pe_handle p" using up by simp
    show "\<forall>E i c'. admissible down i c \<and> core_task E i c = Some c' \<longrightarrow> \<not> co_null_call c'" using null \<open>\<not> down\<close> by blast
  next
    show "\<forall>p sid stream data. co_peer c = Some p \<and> stream \<noteq> kStreamCtrl \<longrightarrow> OnReceiveData (Some data) (Some sid) (Some stream) p =
        (case transfer_of c sid of None \<Rightarrow> Ignored | Some t \<Rightarrow> ToSink (tr_owner t))"
      using w(1) t by (auto simp: core_wf_def peer_key_def OnReceiveData_def split: option.splits)
  qed
qed

text \<open>
  Afterwards callbacks that are already queued still run, with the signalling flag as it was: a session that connects then
  goes through the null pointer, whatever the state of the core.
\<close>

lemma fold_choice: "(\<And>p b. f p b = Some p \<or> f p b = b) \<Longrightarrow> fold f xs b = Some p \<Longrightarrow> b = Some p \<or> p \<in> set xs"
proof (induction xs arbitrary: b)
  case (Cons x xs)
  from Cons.IH[OF Cons.prems(1), of "f x b"] Cons.prems(2) have "f x b = Some p \<or> p \<in> set xs" by simp
  then show ?case using Cons.prems(1)[of x b] by auto
qed simp

lemma key_known: "(k, v) \<in> set m \<Longrightarrow> map_of m k \<noteq> None"
  by (metis weak_map_of_SomeI option.distinct(1))

lemma find_known: "find P m = Some (k, v) \<Longrightarrow> map_of m k \<noteq> None"
  by (rule key_known[of k v]) (metis find_Some_iff nth_mem)

lemma later_choice: "later p b = Some p \<or> later p b = b"
  by (simp add: later_def split: option.split)

lemma share_for_session_known:
  assumes "share_for_session c sid = Some k"
  shows "share_of c k \<noteq> None"
proof (cases "FindShareBySession c sid")
  case None
  then obtain s where "fold later (co_shares c) None = Some (k, s)" using assms by (auto simp: share_for_session_def)
  then have "(k, s) \<in> set (co_shares c)" using fold_choice[of later, OF later_choice] by blast
  then show ?thesis by (rule key_known)
qed (use assms find_known in \<open>fastforce simp: share_for_session_def FindShareBySession_def\<close>)

lemma receive_for_session_known:
  assumes "receive_for_session c sid = Some k"
  shows "receive_of c k \<noteq> None"
proof (cases "FindReceiveBySession c sid")
  case None
  then obtain r where "fold (\<lambda>p best. if rv_state (snd p) = ''claiming'' \<and> rv_active (snd p) then Some p else best) (co_receives c) None = Some (k, r)"
    using assms by (auto simp: receive_for_session_def)
  from fold_choice[OF _ this] have "(k, r) \<in> set (co_receives c)" by auto
  then show ?thesis by (rule key_known)
qed (use assms find_known in \<open>fastforce simp: receive_for_session_def FindReceiveBySession_def\<close>)

lemma late_session_calls_null:
  assumes "si_status info = SessionConnecting"
  shows "core_handle E (PeerTask (CbSession info)) (shutdown_close E' c) = None"
proof -
  let ?c = "shutdown_close E' c"
  have n: "co_peer ?c = None" "co_transfers ?c = []" by (simp_all add: shutdown_close_def Let_def)
  have "co_null_call (connect_sender E info ?c)" "co_null_call (connect_receiver E info ?c)"
    using n share_for_session_known[of ?c "si_session_id info"] receive_for_session_known[of ?c "si_session_id info"]
    by (auto simp: connect_sender_def connect_receiver_def Let_def MakeSession_def peer_call_def Option.is_none_def split: option.split)
  then show ?thesis using assms n by (simp add: core_handle_def OnSession_def Let_def)
qed

section \<open>Stored receives\<close>

text \<open>C30. Saving the receives and loading them after a restart brings back exactly those that were neither completed nor
cancelled, each with its code, directory, resume token, metadata and record of received blocks, as interrupted.\<close>

theorem stored_receives_roundtrip:
  assumes "json_value_laws (ce_json E)" "keyed_receives (co_receives c)" "co_receives c0 = []"
  shows "\<exists>c1. LoadReceives E (last (co_saved (SaveReceives E c))) c0 = Some c1 \<and>
    (\<forall>k. receive_of c1 k = (case receive_of c k of None \<Rightarrow> None
       | Some r \<Rightarrow> if unfinished r then Some (interrupted r) else None))"
proof -
  let ?rs = "filter unfinished (map snd (co_receives c))"
  have a: "\<forall>r\<in>set ?rs. rv_transfer_id r \<noteq> [] \<and> rv_code r \<noteq> []" using assms(2) by (fastforce simp: keyed_receives_def)
  have "map rv_transfer_id (map snd (co_receives c)) = map fst (co_receives c)" using assms(2) by (auto simp: keyed_receives_def)
  moreover have "distinct (map fst (co_receives c))" using assms(2) by (simp add: keyed_receives_def strict_sorted_iff)
  ultimately have "distinct (map rv_transfer_id (map snd (co_receives c)))" by metis
  then have d: "distinct (map rv_transfer_id ?rs)" by (rule distinct_map_filter)
  obtain m' where "load_loop (ce_json E) (map (receive_json (ce_json E)) ?rs) [] = Some m'"
    "map_of m' = Map.empty ++ map_of (map (\<lambda>r. (rv_transfer_id r, interrupted r)) ?rs)"
    using load_loop_json[OF assms(1) a d, of "[]"] by auto
  then show ?thesis using map_of_filtered[OF assms(2), of interrupted unfinished] assms(3)
    by (auto simp: LoadReceives_def SaveReceives_def)
qed

section \<open>Answers that reach the wrong share or receive\<close>

text \<open>C32. Two shares are created one after the other, the second while the request of the first is under way, and the
random identifier of the second is the smaller one.  The answer to the request of the first share is then taken for
the second: the code the server made for the files of the first share is published as the code of the second, with the
files of the second.\<close>

theorem share_code_names_other_files:
  assumes "idle_core p c" "co_shares c = []" "\<And>n. ce_rc E n = 0" "k1 < k2"
    "BuildManifest (ce_fs E) paths2 = Done (m2, files2)" "BuildManifest (ce_fs E) paths1 = Done (m1, files1)"
    "share_create_task E k2 paths2 mode ttl c = Some c1" "share_create_task E k1 paths1 mode ttl c1 = Some c2"
  shows "let c3 = OnShareEvent E ShareCreated server_id code expires detail c2 in
    (\<exists>q. co_peer c2 = Some q \<and> pe_calls q = pe_calls p @ [RtcCreateShare mode ttl (ce_dump E (share_meta (ce_json E) m2))]) \<and>
    (\<exists>s. share_of c3 k1 = Some s \<and> sh_code s = Normalize code \<and> sh_share_id s = server_id \<and> sh_manifest s = m1 \<and> sh_files s = files1)"
proof -
  let ?s1 = "(new_Share k1 mode ttl paths1)\<lparr>sh_manifest := m1, sh_files := files1\<rparr>"
    and ?s2 = "(new_Share k2 mode ttl paths2)\<lparr>sh_manifest := m2, sh_files := files2\<rparr>"
  let ?q = "rtc [RtcCreateShare mode ttl (ce_dump E (share_meta (ce_json E) m2))] p"
  have i: "co_peer c = Some p" "pe_handle p" "co_signal_connected c" "co_share_queue c = []" "\<not> co_share_inflight c"
    using assms(1) by (simp_all add: idle_core_def)
  have 1: "co_shares c1 = [(k2, ?s2)]" "co_peer c1 = Some ?q" "co_share_queue c1 = []" "co_share_inflight c1" "co_signal_connected c1"
    using assms(7) i assms(2,3,5)
    by (auto simp: share_create_task_def Let_def put_share_def EnsurePeer_def PumpShareCreates_def CreateShare_def peer_call_up new_Share_def)
  have 2: "co_shares c2 = [(k1, ?s1), (k2, ?s2)]" "co_peer c2 = Some ?q"
    using assms(8) 1 assms(4,6)
    by (auto simp: share_create_task_def Let_def put_share_def EnsurePeer_def PumpShareCreates_def new_Share_def)
  have pick: "creating_share (c2\<lparr>co_share_inflight := False\<rparr>) = Some k1" using 2(1) by (simp add: creating_share_def new_Share_def)
  let ?c4 = "upd_share k1 (\<lambda>s. s\<lparr>sh_share_id := server_id, sh_code := Normalize code, sh_expires_at := expires, sh_state := ''ready''\<rparr>)
    (c2\<lparr>co_share_inflight := False\<rparr>)"
  let ?t = "?s1\<lparr>sh_share_id := server_id, sh_code := Normalize code, sh_expires_at := expires, sh_state := ''ready''\<rparr>"
  have "share_of (EmitShare E k1 ?c4) k1 = Some ?t" using 2(1) by (simp add: map_of_omap_upd)
  then have "share_of (PumpShareCreates E (EmitShare E k1 ?c4)) k1 = Some ?t"
    unfolding PumpShareCreates_def by (rule pump_shares_keeps) simp
  then show ?thesis using 2(2) pick by (simp add: OnShareEvent_def Let_def rtc_def)
qed

text \<open>C33. A receive is started, and while its claim is under way an older interrupted one is resumed.  The answer to the
claim of the new receive is then given to the older one, which connects to the session of the other code.\<close>

theorem claim_answer_goes_to_older_receive:
  assumes "idle_core p c" "co_receives c = [(ka, ra)]" "\<And>n. ce_rc E n = 0"
    "rv_state ra = ''interrupted''" "\<not> rv_active ra" "rv_created_at ra < ce_now E" "rv_code ra \<noteq> code" "ka \<noteq> kb"
    "c1 = receive_start_task E kb code dir c" "c2 = ReceiveResume E ka c1"
  shows "let c3 = OnClaimResult E ClaimOk session_id token message c2 in
    (\<exists>q. co_peer c2 = Some q \<and> pe_calls q = pe_calls p @ [RtcClaim (if code = [] then None else Some code) None]) \<and>
    (\<exists>r. receive_of c3 ka = Some r \<and> rv_session_id r = session_id \<and> rv_state r = ''connecting'' \<and> rv_code r = rv_code ra) \<and>
    (\<exists>r. receive_of c3 kb = Some r \<and> rv_session_id r = [])"
proof -
  let ?q = "rtc [RtcClaim (if code = [] then None else Some code) None] p"
  let ?rb = "(new_Receive (ce_json E))\<lparr>rv_transfer_id := kb, rv_code := code, rv_save_dir := dir, rv_created_at := ce_now E, rv_active := True\<rparr>"
  let ?ra = "ra\<lparr>rv_state := ''claiming'', rv_error_code := [], rv_error_message := [], rv_active := True, rv_tried_token := False\<rparr>"
  let ?m = "\<lambda>x. if ka < kb then [(ka, x), (kb, ?rb)] else [(kb, ?rb), (ka, x)]"
  have i: "co_peer c = Some p" "pe_handle p" "co_signal_connected c" "co_claim_queue c = []" "\<not> co_claim_inflight c"
    using assms(1) by (simp_all add: idle_core_def)
  have kk: "kb < ka \<longleftrightarrow> \<not> ka < kb" using assms(8) by auto
  have 1: "co_receives c1 = ?m ra" "co_peer c1 = Some ?q" "co_claim_queue c1 = []" "co_claim_inflight c1" "co_signal_connected c1"
    unfolding assms(9) using i assms(2-8) kk
    by (auto simp: receive_start_task_def StartClaim_def Let_def put_receive_def EnsurePeer_def PumpClaims_def peer_call_claim new_Receive_def omap_upd_def)
  have 2: "co_receives c2 = ?m ?ra" "co_peer c2 = Some ?q" "co_claim_queue c2 = [ka]"
    unfolding assms(10) using 1 assms(4,5,8)
    by (auto simp: ReceiveResume_def StartClaim_def Let_def EnsurePeer_def PumpClaims_def omap_upd_def)
  let ?c1 = "c2\<lparr>co_claim_inflight := False\<rparr>"
  have pick: "oldest_claiming ?c1 = Some ka" using 2(1) assms(6) by (simp add: oldest_claiming_def older_def new_Receive_def)
  let ?g = "\<lambda>r. r\<lparr>rv_session_id := session_id, rv_resume_token := (if token \<noteq> [] then token else rv_resume_token r), rv_state := ''connecting''\<rparr>"
  let ?c3 = "SaveReceives E (EmitReceive E ka (upd_receive ka ?g ?c1))"
  have r3: "receive_of ?c3 ka = Some (?g ?ra)" "receive_of ?c3 kb = Some ?rb" "receive_of ?c1 ka = Some ?ra"
    using 2(1) assms(8) by (auto simp: map_of_omap_upd)
  have "receive_of (PumpClaims E ?c3) ka = Some (?g ?ra)" "receive_of (PumpClaims E ?c3) kb = Some ?rb"
    unfolding PumpClaims_def using pump_claims_keeps[of ka _ ?c3 E] pump_claims_keeps[of kb _ ?c3 E] r3 2(3) assms(8) by auto
  moreover have "OnClaimResult E ClaimOk session_id token message c2 = PumpClaims E ?c3"
    using pick r3(3) by (simp add: OnClaimResult_def Let_def)
  ultimately show ?thesis using 2(2) by (simp add: rtc_def new_Receive_def)
qed

section \<open>A finished transfer takes the identifier of its successor\<close>

text \<open>C34. A receive that failed is resumed while its old transfer still lingers: the new session is entered under the same
transfer identifier.  When the old transfer is dropped, the identifier is erased although it belongs to the new one; a
cancel request then marks the receive as cancelled and leaves the running session alone.\<close>

theorem lingering_transfer_detaches_resumed_one:
  assumes "transfer_of c sid1 = Some t1" "sn_transfer_id (ss_snap (tr_session t1)) = tid" "lk_ctrl_queue (tr_link t1) = []"
    "FindReceiveBySession c sid2 = Some tid" "receive_of c tid = Some r" "rv_transfer_id r = tid" "transfer_of c sid2 = None"
    "si_status info = SessionConnecting" "si_session_id info = sid2" "si_role info = ''receiver''"
    "c1 = OnSession E info c" "c2 = LingerTask E sid1 (tr_owner t1) c1" "c3 = TransferCancel E tid c2"
  shows "map_of (co_transfer_ids c1) tid = Some sid2 \<and>
    (\<exists>t. transfer_of c3 sid2 = Some t \<and> sn_transfer_id (ss_snap (tr_session t)) = tid \<and> ss_state (tr_session t) = kConnecting) \<and>
    (\<exists>r'. receive_of c3 tid = Some r' \<and> rv_state r' = ''cancelled'')"
proof -
  have ne: "sid1 \<noteq> sid2" using assms(1,7) by auto
  have 1: "map_of (co_transfer_ids c1) tid = Some sid2" "transfer_of c1 sid1 = Some t1"
    "\<exists>t. transfer_of c1 sid2 = Some t \<and> sn_transfer_id (ss_snap (tr_session t)) = tid \<and> ss_state (tr_session t) = kConnecting"
    "receive_of c1 tid \<noteq> None"
    unfolding assms(11) using assms(1,4-10) ne
    by (auto simp: OnSession_def connect_receiver_def receive_for_session_def Let_def MakeSession_def map_of_omap_put new_session_def
        SetReceiverInput_def map_of_omap_upd)
  have 2: "map_of (co_transfer_ids c2) tid = None" "transfer_of c2 sid2 = transfer_of c1 sid2" "receive_of c2 tid = receive_of c1 tid"
    unfolding assms(12) using 1(2) assms(2,3) ne by (auto simp: LingerTask_def DropTransfer_def map_of_omap_del)
  then show ?thesis unfolding assms(13) using 1 by (auto simp: TransferCancel_def map_of_omap_upd)
qed

section \<open>Concrete runs\<close>

definition demo_fs :: "fspath fs_ops" where
  "demo_fs = \<lparr>fs_of_utf8 = (\<lambda>s. [s]), fs_status = (\<lambda>_. Inr Regular), fs_filename = last, fs_file_size = (\<lambda>_. Some 5),
     fs_walk = (\<lambda>_. Inr []), fs_relative = (\<lambda>_ _. None)\<rparr>"

definition demo_env :: "jval core_env" where
  "demo_env = \<lparr>ce_json = jval_ops, ce_parse = (\<lambda>_. JNull), ce_discarded = (\<lambda>j. j = JNull), ce_dump = (\<lambda>_. []), ce_sha = demo_hash,
     ce_empty = (\<lambda>_ _. True), ce_fs = demo_fs, ce_build = demo_build, ce_now = 100, ce_hex = ''00'', ce_rd = 0, ce_jn = id,
     ce_rc = (\<lambda>_. 0), ce_created = True, ce_connected = 0, ce_new_tx = idle_tx, ce_new_rx = idle_rcv\<rparr>"

definition demo_peer :: peer where
  "demo_peer = \<lparr>pe_cfg = ToPeerConfig (new_Config demo_build), pe_open = True, pe_handle = True, pe_sinks = [], pe_calls = []\<rparr>"

definition demo_core :: "jval core" where
  "demo_core = (new_core jval_ops (new_Config demo_build))\<lparr>co_peer := Some demo_peer, co_signal_connected := True\<rparr>"

definition demo_receive :: "jval Receive" where
  "demo_receive = (new_Receive jval_ops)\<lparr>rv_transfer_id := ''rx_1'', rv_code := ''ABCDEFGH'', rv_save_dir := ''in'',
     rv_state := ''interrupted'', rv_created_at := 50\<rparr>"

lemma demo_core_idle: "idle_core demo_peer demo_core"
  by (simp add: idle_core_def demo_core_def demo_peer_def new_core_def)

lemma demo_env_sel: "ce_rc demo_env n = 0" "ce_json demo_env = jval_ops" "ce_now demo_env = 100" "ce_fs demo_env = demo_fs"
  by (simp_all add: demo_env_def)

definition demo_manifest_of :: "string \<Rightarrow> Manifest" where
  "demo_manifest_of n = \<lparr>m_files = [\<lparr>mf_path = n, mf_size = 5\<rparr>], m_dirs = [], m_roots = [\<lparr>mr_name = n, mr_is_dir = False\<rparr>], m_total_bytes = 5\<rparr>"

lemma demo_BuildManifest: "IsSafeRelativePath n \<and> \<not> has_slash n \<and> n \<noteq> [] \<Longrightarrow> BuildManifest demo_fs [n] = Done (demo_manifest_of n, [[n]])"
  by (simp add: BuildManifest_def add_path_def demo_fs_def empty_manifest_def add_file_def add_root_def kMaxFileSize_def
      kBlockPayloadSize_def kMaxFilesPerTransfer_def demo_manifest_of_def Let_def)

lemma demo_names: "IsSafeRelativePath ''a'' \<and> \<not> has_slash ''a'' \<and> ''a'' \<noteq> []" "IsSafeRelativePath ''b'' \<and> \<not> has_slash ''b'' \<and> ''b'' \<noteq> []"
  by code_simp+

theorem stored_receives_roundtrip_witness:
  "\<exists>c1. LoadReceives demo_env (last (co_saved (SaveReceives demo_env (demo_core\<lparr>co_receives := [(''rx_1'', demo_receive)]\<rparr>)))) demo_core = Some c1 \<and>
     receive_of c1 ''rx_1'' = Some demo_receive"
proof -
  let ?c = "demo_core\<lparr>co_receives := [(''rx_1'', demo_receive)]\<rparr>"
  have "json_value_laws (ce_json demo_env)" "keyed_receives (co_receives ?c)" "co_receives demo_core = []"
    "interrupted demo_receive = demo_receive" "unfinished demo_receive" "receive_of ?c ''rx_1'' = Some demo_receive"
    by (simp_all add: demo_env_sel jval_value_laws keyed_receives_def demo_receive_def demo_core_def new_core_def interrupted_def
        unfinished_def new_Receive_def)
  with stored_receives_roundtrip[of demo_env ?c demo_core] show ?thesis by auto
qed

theorem share_code_names_other_files_witness:
  "\<exists>c1 c2. share_create_task demo_env ''s2'' [''b''] ''once'' 600 demo_core = Some c1 \<and>
     share_create_task demo_env ''s1'' [''a''] ''once'' 600 c1 = Some c2 \<and>
     (\<exists>s. share_of (OnShareEvent demo_env ShareCreated ''srv'' ''ABCDEFGH'' 700 [] c2) ''s1'' = Some s \<and>
        sh_code s = Normalize ''ABCDEFGH'' \<and> sh_files s = [[''a'']])"
proof -
  have b: "BuildManifest (ce_fs demo_env) [''a''] = Done (demo_manifest_of ''a'', [[''a'']])"
    "BuildManifest (ce_fs demo_env) [''b''] = Done (demo_manifest_of ''b'', [[''b'']])"
    using demo_BuildManifest demo_names by (simp_all add: demo_env_sel)
  then obtain c1 where c1: "share_create_task demo_env ''s2'' [''b''] ''once'' 600 demo_core = Some c1"
    by (simp add: share_create_task_def Let_def)
  obtain c2 where c2: "share_create_task demo_env ''s1'' [''a''] ''once'' 600 c1 = Some c2"
    using b by (simp add: share_create_task_def Let_def)
  have "co_shares demo_core = []" "''s1'' < ''s2''" by (simp_all add: demo_core_def new_core_def)
  then show ?thesis using share_code_names_other_files[OF demo_core_idle _ demo_env_sel(1) _ b(2,1) c1 c2] c1 c2 by (fastforce simp: Let_def)
qed

theorem claim_answer_goes_to_older_receive_witness:
  "\<exists>r. receive_of (OnClaimResult demo_env ClaimOk ''sess'' ''tok'' [] (ReceiveResume demo_env ''rx_1''
      (receive_start_task demo_env ''rx_2'' ''ZZZZZZZZ'' ''in'' (demo_core\<lparr>co_receives := [(''rx_1'', demo_receive)]\<rparr>)))) ''rx_1'' = Some r \<and>
     rv_session_id r = ''sess'' \<and> rv_code r = ''ABCDEFGH''"
proof -
  let ?c = "demo_core\<lparr>co_receives := [(''rx_1'', demo_receive)]\<rparr>"
  have "idle_core demo_peer ?c" using demo_core_idle by (simp add: idle_core_def)
  moreover have "co_receives ?c = [(''rx_1'', demo_receive)]" "rv_state demo_receive = ''interrupted''" "\<not> rv_active demo_receive"
    "rv_created_at demo_receive < ce_now demo_env" "rv_code demo_receive \<noteq> ''ZZZZZZZZ''" "''rx_1'' \<noteq> ''rx_2''" "rv_code demo_receive = ''ABCDEFGH''"
    by (simp_all add: demo_receive_def new_Receive_def demo_env_sel)
  ultimately show ?thesis
    using claim_answer_goes_to_older_receive[of demo_peer ?c "''rx_1''" demo_receive demo_env "''ZZZZZZZZ''" "''rx_2''" _ "''in''", OF _ _ demo_env_sel(1)]
    by (fastforce simp: Let_def)
qed

definition demo_failed :: "jval Transfer" where
  "demo_failed = \<lparr>tr_session = new_session demo_env ''old'' ''receiver'' ''rx_1'', tr_link = Attach new_link, tr_share_local_id = [],
     tr_receive_id = ''rx_1'', tr_closing = True, tr_owner = 0\<rparr>"

definition demo_resumed :: "jval core" where
  "demo_resumed = demo_core\<lparr>co_receives := [(''rx_1'', demo_receive\<lparr>rv_session_id := ''new'', rv_active := True, rv_state := ''connecting''\<rparr>)],
     co_transfers := [(''old'', demo_failed)], co_transfer_ids := [(''rx_1'', ''old'')], co_next := 1\<rparr>"

definition demo_info :: SessionInfo where
  "demo_info = \<lparr>si_status = SessionConnecting, si_session_id = ''new'', si_role = ''receiver'', si_resume_token = [], si_meta_json = [],
     si_path = PathUnknown, si_reason = []\<rparr>"

theorem lingering_transfer_detaches_resumed_one_witness:
  "(\<exists>t. transfer_of (TransferCancel demo_env ''rx_1'' (LingerTask demo_env ''old'' 0 (OnSession demo_env demo_info demo_resumed))) ''new'' = Some t \<and>
     ss_state (tr_session t) = kConnecting)"
proof -
  have "transfer_of demo_resumed ''old'' = Some demo_failed" "sn_transfer_id (ss_snap (tr_session demo_failed)) = ''rx_1''"
    "lk_ctrl_queue (tr_link demo_failed) = []" "FindReceiveBySession demo_resumed ''new'' = Some ''rx_1''"
    "receive_of demo_resumed ''rx_1'' = Some (demo_receive\<lparr>rv_session_id := ''new'', rv_active := True, rv_state := ''connecting''\<rparr>)"
    "rv_transfer_id (demo_receive\<lparr>rv_session_id := ''new'', rv_active := True, rv_state := ''connecting''\<rparr>) = ''rx_1''"
    "transfer_of demo_resumed ''new'' = None" "si_status demo_info = SessionConnecting" "si_session_id demo_info = ''new''"
    "si_role demo_info = ''receiver''" "tr_owner demo_failed = 0"
    by (simp_all add: demo_resumed_def demo_failed_def demo_info_def new_session_def Attach_def new_link_def FindReceiveBySession_def
        demo_receive_def)
  then show ?thesis
    using lingering_transfer_detaches_resumed_one[of demo_resumed "''old''" demo_failed "''rx_1''" "''new''" _ demo_info _ demo_env, OF _ _ _ _ _ _ _ _ _ _ refl refl refl]
    by fastforce
qed

definition demo_task :: "jval core_input \<Rightarrow> jval core \<Rightarrow> jval core option" where
  "demo_task i c = (if Option.is_none (co_peer c) then None else core_handle demo_env i c)"

lemma demo_task_reach: "demo_task i c = Some c' \<Longrightarrow> (\<And>k paths mode ttl. i \<noteq> UserShare k paths mode ttl) \<Longrightarrow> core_reach False c \<Longrightarrow> core_reach False c'"
  by (rule core_reach.task[where E = demo_env and i = i and c = c and down = False])
    (auto simp: demo_task_def admissible_def Option.is_none_def split: if_splits core_input.splits)

definition demo_run :: "jval core option" where
  "demo_run = do { c \<leftarrow> start_task demo_env [] (new_core jval_ops (new_Config demo_build));
     c \<leftarrow> demo_task (PeerTask (CbSignal SignalConnected ''me'')) c;
     c \<leftarrow> demo_task (UserReceive ''rx_1'' ''ABCDEFGH'' ''in'') c;
     c \<leftarrow> demo_task (PeerTask (CbClaim ClaimOk ''new'' ''token'' [])) c;
     demo_task (PeerTask (CbSession demo_info)) c }"

lemma demo_run_reach: "demo_run = Some c \<Longrightarrow> core_reach False c"
  unfolding demo_run_def by (auto dest!: core_reach.start demo_task_reach split: bind_splits)

lemma demo_run_eval: "(case demo_run of None \<Rightarrow> False | Some c \<Rightarrow> map_option tr_owner (transfer_of c ''new'') = Some 0 \<and> \<not> Option.is_none (co_peer c))"
  by code_simp

theorem core_state_stays_consistent_witness:
  "\<exists>c p. demo_run = Some c \<and> co_peer c = Some p \<and> OnReceiveData (Some [1]) (Some ''new'') (Some kStreamData) p = ToSink 0"
proof -
  obtain c p t where c: "demo_run = Some c" "co_peer c = Some p" "transfer_of c ''new'' = Some t" "tr_owner t = 0"
    using demo_run_eval by (auto simp: Option.is_none_def split: option.splits)
  then show ?thesis using core_state_stays_consistent[OF demo_run_reach[OF c(1)]] by (auto simp: kStreamData_def kStreamCtrl_def)
qed

end
