(* ===== verification/Rtp_Packet.thy ===== *)
theory Rtp_Packet
  imports Block_Codec "HOL-Library.Monad_Syntax"
begin

text \<open>
  RTP packets of the transport library: \<^verbatim>\<open>minirtc/src/rtp/rtp_packet/rtp_packet.{h,cpp}\<close>, the packetizer of the data
  streams (\<^verbatim>\<open>rtp_packetizer.cpp\<close>, \<^verbatim>\<open>rtp_packetizer_generic.cpp\<close>) and the RTCP common header
  (\<^verbatim>\<open>rtcp_common_header.{h,cpp}\<close>).

  The parsers work on raw pointers, so a read is an operation that can fail: \<open>rd b i\<close> is \<^verbatim>\<open>buffer[i]\<close>, and \<open>None\<close> is
  a read outside the buffer.  A parser returns \<open>Some (ok, p)\<close> with \<open>ok\<close> the value the C++ function returns and \<open>p\<close> the
  object after it, members that an early return leaves half written included.  That \<open>None\<close> never happens is the memory safety
  of the parser.
\<close>

section \<open>Constants\<close>

definition kRtpVersion :: u8 where "kRtpVersion = 2"
definition kMaxRtpCsrcSize :: nat where "kMaxRtpCsrcSize = 15"
definition kFixedHeaderSize :: nat where "kFixedHeaderSize = 12"
definition kOneByteExtensionProfileId :: u16 where "kOneByteExtensionProfileId = 0xBEDE"
definition MAX_NALU_LEN :: nat where "MAX_NALU_LEN = 1150"
definition PT_DATA :: u8 where "PT_DATA = 120"
definition PT_KCP :: u8 where "PT_KCP = 121"

lemmas rtp_consts = kRtpVersion_def kMaxRtpCsrcSize_def kFixedHeaderSize_def kOneByteExtensionProfileId_def

section \<open>Reads through a pointer\<close>

definition rd :: "bytes \<Rightarrow> nat \<Rightarrow> u8 option" where
  "rd b i = (if i < length b then Some (b ! i) else None)"

definition rd16 :: "bytes \<Rightarrow> nat \<Rightarrow> u16 option" where
  "rd16 b i = do { x \<leftarrow> rd b i; y \<leftarrow> rd b (i + 1); Some (Get16 [x, y]) }"

definition rd32 :: "bytes \<Rightarrow> nat \<Rightarrow> u32 option" where
  "rd32 b i = do { x \<leftarrow> rd b i; y \<leftarrow> rd b (i + 1); z \<leftarrow> rd b (i + 2); w \<leftarrow> rd b (i + 3); Some (Get32 [x, y, z, w]) }"

definition rd_range :: "bytes \<Rightarrow> nat \<Rightarrow> nat \<Rightarrow> bytes option" where
  "rd_range b i n = (if i + n \<le> length b then Some (take n (drop i b)) else None)"

section \<open>The packet\<close>

record extension =
  ext_id :: u8
  ext_len :: u8
  ext_data_offset :: nat
  ext_data :: bytes

record rtp_packet =
  rp_version :: u8
  rp_has_padding :: bool
  rp_has_extension :: bool
  rp_csrc_count :: u8
  rp_marker :: bool
  rp_payload_type :: u8
  rp_sequence_number :: u16
  rp_timestamp :: u32
  rp_ssrc :: u32
  rp_csrcs :: "u32 list"
  rp_extension_profile :: u16
  rp_extension_len :: u16
  rp_extensions :: "extension list"
  rp_abs_send_time_ext_id :: "u8 option"
  rp_payload_offset :: nat
  rp_payload_size :: nat
  rp_padding_size :: nat
  rp_buffer :: bytes
  rp_size :: nat

definition new_rtp_packet :: rtp_packet where
  "new_rtp_packet = \<lparr>rp_version = 0, rp_has_padding = False, rp_has_extension = False, rp_csrc_count = 0, rp_marker = False,
     rp_payload_type = 0, rp_sequence_number = 1, rp_timestamp = 0, rp_ssrc = 0, rp_csrcs = [], rp_extension_profile = 0,
     rp_extension_len = 0, rp_extensions = [], rp_abs_send_time_ext_id = None, rp_payload_offset = 0, rp_payload_size = 0,
     rp_padding_size = 0, rp_buffer = [], rp_size = 0\<rparr>"

subsection \<open>Parsing\<close>

text \<open>The loop over the one-byte header extensions, from \<open>offset\<close> to \<open>extension_end\<close>.\<close>

function ext_loop :: "bytes \<Rightarrow> nat \<Rightarrow> nat \<Rightarrow> extension list \<Rightarrow> (bool \<times> extension list) option" where
  "ext_loop b offset extension_end exts =
     (if offset < extension_end then do {
        x \<leftarrow> rd b offset;
        (let ident = drop_bit 4 x in
         if ident = 0 then ext_loop b (offset + 1) extension_end exts
         else if ident = 15 then Some (True, exts)
         else let len = (x AND 0x0F) + 1 in
           if extension_end < offset + 1 + unat len then Some (False, exts)
           else do {
             d \<leftarrow> rd_range b (offset + 1) (unat len);
             ext_loop b (offset + 1 + unat len) extension_end
               (exts @ [\<lparr>ext_id = ident, ext_len = len, ext_data_offset = offset + 1, ext_data = d\<rparr>])
           })
      } else Some (True, exts))"
  by pat_completeness auto
termination
  by (relation "measure (\<lambda>(b, offset, extension_end, exts). extension_end - offset)") auto

declare ext_loop.simps [simp del]

text \<open>The CSRC list.\<close>

fun csrc_loop :: "bytes \<Rightarrow> nat \<Rightarrow> nat \<Rightarrow> u32 list option" where
  "csrc_loop b offset 0 = Some []"
| "csrc_loop b offset (Suc n) = do { c \<leftarrow> rd32 b offset; cs \<leftarrow> csrc_loop b (offset + 4) n; Some (c # cs) }"

text \<open>The extension block, entered with the payload offset behind the CSRC list.\<close>

definition Parse_extensions :: "bytes \<Rightarrow> rtp_packet \<Rightarrow> (bool \<times> rtp_packet) option" where
  "Parse_extensions b p =
     (if \<not> rp_has_extension p then Some (True, p)
      else if length b < rp_payload_offset p + 4 then Some (False, p)
      else do {
        profile \<leftarrow> rd16 b (rp_payload_offset p);
        len \<leftarrow> rd16 b (rp_payload_offset p + 2);
        (let p1 = p\<lparr>rp_extension_profile := profile, rp_extension_len := len, rp_payload_offset := rp_payload_offset p + 4\<rparr>;
             total = unat len * 4;
             extension_end = rp_payload_offset p1 + total in
         if length b < extension_end then Some (False, p1)
         else if profile = kOneByteExtensionProfileId then do {
           (ok, exts) \<leftarrow> ext_loop b (rp_payload_offset p1) extension_end [];
           Some (if ok then (True, p1\<lparr>rp_extensions := exts, rp_payload_offset := extension_end\<rparr>)
                 else (False, p1\<lparr>rp_extensions := exts\<rparr>))
         }
         else Some (True, p1\<lparr>rp_payload_offset := extension_end\<rparr>))
      })"

text \<open>Padding and payload.\<close>

definition Parse_payload :: "bytes \<Rightarrow> rtp_packet \<Rightarrow> (bool \<times> rtp_packet) option" where
  "Parse_payload b p = do {
     p1 \<leftarrow> (if rp_has_padding p \<and> rp_payload_offset p < length b
            then do { x \<leftarrow> rd b (length b - 1);
                      Some (if x = 0 then p\<lparr>rp_has_padding := False, rp_padding_size := 0\<rparr>
                            else p\<lparr>rp_padding_size := unat x\<rparr>) }
            else Some (p\<lparr>rp_padding_size := 0\<rparr>));
     Some (if length b < rp_payload_offset p1 + rp_padding_size p1 then (False, p1)
           else (True, p1\<lparr>rp_payload_size := length b - rp_payload_offset p1 - rp_padding_size p1\<rparr>))
   }"

text \<open>The first two bytes decide whether the rest of the fixed header is read.\<close>

definition Parse_fixed :: "bytes \<Rightarrow> rtp_packet \<Rightarrow> (bool \<times> rtp_packet) option" where
  "Parse_fixed b p0 =
     (let p = p0\<lparr>rp_payload_offset := 0, rp_csrcs := [], rp_extensions := []\<rparr> in
      if length b < kFixedHeaderSize then Some (False, p)
      else do {
        x \<leftarrow> rd b 0;
        (let p1 = p\<lparr>rp_version := drop_bit 6 x AND 0x03\<rparr> in
         if rp_version p1 \<noteq> kRtpVersion then Some (False, p1)
         else let p2 = p1\<lparr>rp_has_padding := bit x 5, rp_has_extension := bit x 4, rp_csrc_count := x AND 0x0f\<rparr> in
           if kMaxRtpCsrcSize < unat (rp_csrc_count p2) then Some (False, p2)
           else do {
             y \<leftarrow> rd b 1;
             sq \<leftarrow> rd16 b 2;
             ts \<leftarrow> rd32 b 4;
             sc \<leftarrow> rd32 b 8;
             Some (True, p2\<lparr>rp_marker := bit y 7, rp_payload_type := y AND 0x7f, rp_sequence_number := sq, rp_timestamp := ts,
                            rp_ssrc := sc, rp_payload_offset := kFixedHeaderSize\<rparr>)
           })
      })"

definition Parse_csrcs :: "bytes \<Rightarrow> rtp_packet \<Rightarrow> (bool \<times> rtp_packet) option" where
  "Parse_csrcs b p =
     (let n = unat (rp_csrc_count p) in
      if length b < kFixedHeaderSize + n * 4 then Some (False, p)
      else do {
        cs \<leftarrow> csrc_loop b (rp_payload_offset p) n;
        (let p1 = p\<lparr>rp_csrcs := cs, rp_payload_offset := kFixedHeaderSize + n * 4\<rparr> in
         Some (rp_payload_offset p1 \<le> length b, p1))
      })"

text \<open>The stages run one after the other; a stage that returns false ends the function.\<close>

definition stage :: "(bool \<times> rtp_packet) option \<Rightarrow> (rtp_packet \<Rightarrow> (bool \<times> rtp_packet) option) \<Rightarrow> (bool \<times> rtp_packet) option" where
  "stage m f = do { (ok, p) \<leftarrow> m; (if ok then f p else Some (False, p)) }"

definition Parse :: "bytes \<Rightarrow> rtp_packet \<Rightarrow> (bool \<times> rtp_packet) option" where
  "Parse b p = stage (stage (stage (Parse_fixed b p) (Parse_csrcs b)) (Parse_extensions b)) (Parse_payload b)"

definition Build :: "bytes \<Rightarrow> rtp_packet \<Rightarrow> (bool \<times> rtp_packet) option" where
  "Build b p = stage (Parse b p) (\<lambda>q. Some (True, q\<lparr>rp_buffer := b, rp_size := length b\<rparr>))"

subsection \<open>Accessors and updates\<close>

definition Payload :: "rtp_packet \<Rightarrow> bytes" where
  "Payload p = take (rp_payload_size p) (drop (rp_payload_offset p) (rp_buffer p))"

definition UpdateSequenceNumber :: "u16 \<Rightarrow> rtp_packet \<Rightarrow> rtp_packet" where
  "UpdateSequenceNumber n p =
     (if 4 \<le> length (rp_buffer p)
      then p\<lparr>rp_buffer := (rp_buffer p)[2 := ucast (drop_bit 8 n), 3 := ucast n], rp_sequence_number := n\<rparr> else p)"

definition time_bytes :: "u32 \<Rightarrow> bytes" where
  "time_bytes t = [ucast (drop_bit 16 t), ucast (drop_bit 8 t), ucast t]"

fun update_time_loop :: "u8 \<Rightarrow> bytes \<Rightarrow> extension list \<Rightarrow> bytes \<Rightarrow> (extension list \<times> bytes) option" where
  "update_time_loop i d [] buf = None"
| "update_time_loop i d (e # es) buf =
     (if ext_id e \<noteq> i \<or> ext_len e \<noteq> 3 \<or> length buf < ext_data_offset e + 3
      then map_option (\<lambda>(es', b). (e # es', b)) (update_time_loop i d es buf)
      else Some (e\<lparr>ext_data := d\<rparr> # es, take (ext_data_offset e) buf @ d @ drop (ext_data_offset e + 3) buf))"

definition UpdateAbsoluteSendTimestamp :: "u8 \<Rightarrow> u32 \<Rightarrow> rtp_packet \<Rightarrow> bool \<times> rtp_packet" where
  "UpdateAbsoluteSendTimestamp i abs_send_time p =
     (if rp_extension_profile p \<noteq> kOneByteExtensionProfileId then (False, p)
      else case update_time_loop i (time_bytes (abs_send_time AND 0x00FFFFFF)) (rp_extensions p) (rp_buffer p) of
        None \<Rightarrow> (False, p)
      | Some (es, b) \<Rightarrow> (True, p\<lparr>rp_extensions := es, rp_buffer := b\<rparr>))"

fun GetAbsoluteSendTimestamp :: "u8 \<Rightarrow> extension list \<Rightarrow> u32 option" where
  "GetAbsoluteSendTimestamp i [] = None"
| "GetAbsoluteSendTimestamp i (e # es) =
     (if ext_id e = i \<and> length (ext_data e) = 3
      then Some (push_bit 16 (ucast (ext_data e ! 0)) OR push_bit 8 (ucast (ext_data e ! 1)) OR ucast (ext_data e ! 2))
      else GetAbsoluteSendTimestamp i es)"

section \<open>The packetizer\<close>

definition IsValidOneByteExtensionId :: "u8 \<Rightarrow> bool" where
  "IsValidOneByteExtensionId i \<longleftrightarrow> 1 \<le> i \<and> i \<le> 14"

text \<open>The members of \<^verbatim>\<open>RtpPacketizerGeneric\<close> that outlive a call; the others are assigned before every use.\<close>

record packetizer =
  pk_payload_type :: u32
  pk_sequence_number :: u16
  pk_ssrc :: u32
  pk_abs_send_time_ext_id :: "u8 option"

definition new_packetizer :: "u32 \<Rightarrow> u32 \<Rightarrow> packetizer" where
  "new_packetizer ssrc payload_type = \<lparr>pk_payload_type = payload_type, pk_sequence_number = 0, pk_ssrc = ssrc,
     pk_abs_send_time_ext_id = None\<rparr>"

definition SetAbsoluteSendTimeExtensionId :: "u8 option \<Rightarrow> packetizer \<Rightarrow> packetizer" where
  "SetAbsoluteSendTimeExtensionId i k =
     (case i of Some x \<Rightarrow> (if \<not> IsValidOneByteExtensionId x then k\<lparr>pk_abs_send_time_ext_id := None\<rparr>
                           else k\<lparr>pk_abs_send_time_ext_id := i\<rparr>)
      | None \<Rightarrow> k\<lparr>pk_abs_send_time_ext_id := i\<rparr>)"

definition AppendAbsoluteSendTimeExtension :: "packetizer \<Rightarrow> bytes" where
  "AppendAbsoluteSendTimeExtension k =
     (case pk_abs_send_time_ext_id k of None \<Rightarrow> []
      | Some i \<Rightarrow> Put16 kOneByteExtensionProfileId @ [0, 1] @ [push_bit 4 i OR 2] @ [0, 0, 0])"

definition frame_header :: "packetizer \<Rightarrow> bool \<Rightarrow> u32 \<Rightarrow> bytes" where
  "frame_header k marker ts =
     [push_bit 6 kRtpVersion OR push_bit 4 (of_bool (pk_abs_send_time_ext_id k \<noteq> None)),
      ucast (push_bit 7 (of_bool marker) OR pk_payload_type k)] @
     Put16 (pk_sequence_number k) @ Put32 ts @ Put32 (pk_ssrc k)"

text \<open>One iteration per packet; the result of \<^verbatim>\<open>RtpPacket::Build\<close> is not looked at.\<close>

fun packet_loop :: "bytes \<Rightarrow> u32 \<Rightarrow> nat \<Rightarrow> nat \<Rightarrow> nat \<Rightarrow> packetizer \<Rightarrow> (rtp_packet list \<times> packetizer) option" where
  "packet_loop payload ts last_packet_size 0 packet_num k = Some ([], k)"
| "packet_loop payload ts last_packet_size (Suc left) packet_num k =
     (let index = packet_num - Suc left;
          last = (index = packet_num - 1);
          k1 = k\<lparr>pk_sequence_number := pk_sequence_number k + 1\<rparr>;
          n = (if last \<and> 0 < last_packet_size then last_packet_size else MAX_NALU_LEN) in do {
        part \<leftarrow> rd_range payload 0 n;
        (_, p) \<leftarrow> Build (frame_header k1 last ts @ AppendAbsoluteSendTimeExtension k1 @ part) new_rtp_packet;
        (ps, k2) \<leftarrow> packet_loop payload ts last_packet_size left packet_num k1;
        Some (p # ps, k2)
      })"

definition Packetize :: "bytes \<Rightarrow> u32 \<Rightarrow> packetizer \<Rightarrow> (rtp_packet list \<times> packetizer) option" where
  "Packetize payload ts k =
     (let last_packet_size = length payload mod MAX_NALU_LEN;
          packet_num = length payload div MAX_NALU_LEN + (if last_packet_size \<noteq> 0 then 1 else 0) in
      packet_loop payload ts last_packet_size packet_num packet_num k)"

section \<open>The RTCP common header\<close>

definition kRtcpHeaderSizeBytes :: nat where "kRtcpHeaderSizeBytes = 4"

record rtcp_header =
  rh_packet_type :: u8
  rh_count_or_format :: u8
  rh_padding_size :: u8
  rh_payload_size :: nat

definition rtcp_Create :: "u8 \<Rightarrow> u8 \<Rightarrow> u8 \<Rightarrow> u8 \<Rightarrow> u16 \<Rightarrow> bytes" where
  "rtcp_Create version has_padding count_or_format payload_type length_in_words_minus_one =
     [push_bit 6 version OR push_bit 5 has_padding OR count_or_format, payload_type] @ Put16 length_in_words_minus_one"

definition rtcp_packet_size :: "rtcp_header \<Rightarrow> nat" where
  "rtcp_packet_size h = kRtcpHeaderSizeBytes + rh_payload_size h + unat (rh_padding_size h)"

definition rtcp_Parse :: "bytes \<Rightarrow> (bool \<times> rtcp_header) option" where
  "rtcp_Parse b =
     (let h0 = \<lparr>rh_packet_type = 0, rh_count_or_format = 0, rh_padding_size = 0, rh_payload_size = 0\<rparr> in
      if length b < kRtcpHeaderSizeBytes then Some (False, h0)
      else do {
        x \<leftarrow> rd b 0;
        (if drop_bit 6 x \<noteq> 2 then Some (False, h0)
         else do {
           y \<leftarrow> rd b 1;
           n \<leftarrow> rd16 b 2;
           (let h = \<lparr>rh_packet_type = y, rh_count_or_format = x AND 0x1F, rh_padding_size = 0, rh_payload_size = unat n * 4\<rparr> in
            if length b < kRtcpHeaderSizeBytes + rh_payload_size h then Some (False, h)
            else if bit x 5 then
              (if rh_payload_size h = 0 then Some (False, h)
               else do {
                 z \<leftarrow> rd b (kRtcpHeaderSizeBytes + rh_payload_size h - 1);
                 (let h1 = h\<lparr>rh_padding_size := z\<rparr> in
                  if z = 0 then Some (False, h1)
                  else if rh_payload_size h1 < unat z then Some (False, h1)
                  else Some (True, h1\<lparr>rh_payload_size := rh_payload_size h1 - unat z\<rparr>))
               })
            else Some (True, h))
         })
      })"

section \<open>Reads inside the buffer\<close>

lemma rd_inside [simp]: "i < length b \<Longrightarrow> rd b i = Some (b ! i)"
  by (simp add: rd_def)

lemma rd16_inside: "i + 1 < length b \<Longrightarrow> rd16 b i = Some (Get16 [b ! i, b ! (i + 1)])"
  by (simp add: rd16_def)

lemma rd32_inside:
  "i + 3 < length b \<Longrightarrow> rd32 b i = Some (Get32 [b ! i, b ! (i + 1), b ! (i + 2), b ! (i + 3)])"
  by (simp add: rd32_def)

lemma rd_range_inside: "i + n \<le> length b \<Longrightarrow> rd_range b i n = Some (take n (drop i b))"
  by (simp add: rd_range_def)

lemma rd16_append: "rd16 (xs @ Put16 v @ ys) (length xs) = Some v"
  by (simp add: rd16_inside Put16_def nth_append) (simp add: Get16_Put16_end [unfolded Put16_def])

lemma Get32_Put32_end [wire_simps]: "Get32 (Put32 v) = v"
  using Get32_Put32 [of v "[]"] by simp

lemma rd32_append: "rd32 (xs @ Put32 v @ ys) (length xs) = Some v"
  by (simp add: rd32_inside Put32_def nth_append) (simp add: Get32_Put32_end [unfolded Put32_def])

section \<open>Memory safety of the parser\<close>

text \<open>
  \<open>safe m Q\<close>: the computation stays inside the buffer, and \<open>Q\<close> holds of the packet when it returns true.
\<close>

definition safe :: "(bool \<times> 'p) option \<Rightarrow> ('p \<Rightarrow> bool) \<Rightarrow> bool" where
  "safe m Q \<longleftrightarrow> (\<exists>ok p. m = Some (ok, p) \<and> (ok \<longrightarrow> Q p))"

lemma safe_Some [simp]: "safe (Some (ok, p)) Q \<longleftrightarrow> (ok \<longrightarrow> Q p)"
  by (simp add: safe_def)

lemma safe_stage: "safe m P \<Longrightarrow> (\<And>p. P p \<Longrightarrow> safe (f p) Q) \<Longrightarrow> safe (stage m f) Q"
  by (auto simp: safe_def stage_def)

lemma safe_mono: "safe m P \<Longrightarrow> (\<And>p. P p \<Longrightarrow> Q p) \<Longrightarrow> safe m Q"
  by (auto simp: safe_def)

definition ext_ok :: "bytes \<Rightarrow> extension \<Rightarrow> bool" where
  "ext_ok b e \<longleftrightarrow> ext_id e \<noteq> 0 \<and> ext_id e \<noteq> 15 \<and> unat (ext_len e) = length (ext_data e) \<and>
     ext_data_offset e + length (ext_data e) \<le> length b \<and>
     ext_data e = take (length (ext_data e)) (drop (ext_data_offset e) b)"

lemma ext_loop_safe:
  "extension_end \<le> length b \<Longrightarrow> \<forall>e \<in> set exts. ext_ok b e \<Longrightarrow>
   safe (ext_loop b offset extension_end exts) (\<lambda>es. \<forall>e \<in> set es. ext_ok b e)"
proof (induction b offset extension_end exts rule: ext_loop.induct)
  case (1 b offset extension_end exts)
  show ?case
  proof (cases "offset < extension_end")
    case True
    with "1.prems"(1) have r: "rd b offset = Some (b ! offset)" by simp
    let ?x = "b ! offset"
    let ?len = "(?x AND 0x0F) + 1"
    let ?e = "\<lparr>ext_id = drop_bit 4 ?x, ext_len = ?len, ext_data_offset = offset + 1,
               ext_data = take (unat ?len) (drop (offset + 1) b)\<rparr>"
    show ?thesis
    proof (cases "drop_bit 4 ?x = 0 \<or> drop_bit 4 ?x = 15 \<or> extension_end < offset + 1 + unat ?len")
      case True
      with "1.IH"(1) [OF \<open>offset < extension_end\<close> r refl] "1.prems" r show ?thesis
        by (subst ext_loop.simps) (auto simp: Let_def)
    next
      case False
      with "1.prems"(1) have d: "rd_range b (offset + 1) (unat ?len) = Some (take (unat ?len) (drop (offset + 1) b))"
        by (intro rd_range_inside) auto
      have "ext_ok b ?e" using False "1.prems"(1) by (auto simp: ext_ok_def min_def)
      with "1.IH"(2) [OF \<open>offset < extension_end\<close> r refl _ _ refl _ d] False "1.prems"
      have "safe (ext_loop b (offset + 1 + unat ?len) extension_end (exts @ [?e])) (\<lambda>es. \<forall>e \<in> set es. ext_ok b e)"
        by auto
      then show ?thesis using False r d \<open>offset < extension_end\<close>
        by (subst ext_loop.simps) (simp add: Let_def)
    qed
  next
    case False
    with "1.prems" show ?thesis by (subst ext_loop.simps) simp
  qed
qed

lemma csrc_loop_inside: "offset + 4 * n \<le> length b \<Longrightarrow> \<exists>cs. csrc_loop b offset n = Some cs \<and> length cs = n"
proof (induction n arbitrary: offset)
  case (Suc n)
  from Suc.IH [of "offset + 4"] Suc.prems show ?case by (auto simp: rd32_inside)
qed simp

definition offset_ok :: "bytes \<Rightarrow> rtp_packet \<Rightarrow> bool" where
  "offset_ok b p \<longleftrightarrow> kFixedHeaderSize \<le> rp_payload_offset p \<and> rp_payload_offset p \<le> length b \<and>
     (\<forall>e \<in> set (rp_extensions p). ext_ok b e)"

lemma Parse_fixed_safe: "safe (Parse_fixed b p) (\<lambda>q. offset_ok b q \<and> rp_extensions q = [] \<and> rp_payload_offset q = 12)"
proof (cases "length b < 12")
  case False
  then have "b \<noteq> []" by auto
  with False show ?thesis
    by (simp add: Parse_fixed_def Let_def rtp_consts rd16_inside rd32_inside offset_ok_def)
qed (simp add: Parse_fixed_def rtp_consts)

lemma Parse_csrcs_safe:
  assumes "rp_extensions p = []" "rp_payload_offset p = 12"
  shows "safe (Parse_csrcs b p) (\<lambda>q. offset_ok b q)"
proof (cases "length b < kFixedHeaderSize + unat (rp_csrc_count p) * 4")
  case False
  then obtain cs where "csrc_loop b 12 (unat (rp_csrc_count p)) = Some cs"
    using csrc_loop_inside [of 12 "unat (rp_csrc_count p)" b] by (auto simp: kFixedHeaderSize_def)
  with False assms show ?thesis by (simp add: Parse_csrcs_def Let_def offset_ok_def kFixedHeaderSize_def)
qed (simp add: Parse_csrcs_def)

lemma Parse_extensions_safe:
  assumes p: "offset_ok b p"
  shows "safe (Parse_extensions b p) (\<lambda>q. offset_ok b q)"
proof (cases "rp_has_extension p \<and> rp_payload_offset p + 4 \<le> length b")
  case True
  let ?o = "rp_payload_offset p"
  define len where "len = Get16 [b ! (?o + 2), b ! (?o + 2 + 1)]"
  have r: "rd16 b ?o = Some (Get16 [b ! ?o, b ! (?o + 1)])" "rd16 b (?o + 2) = Some len"
    using True by (simp_all add: rd16_inside len_def)
  show ?thesis
  proof (cases "length b < ?o + 4 + unat len * 4")
    case True
    with r \<open>rp_has_extension p \<and> _\<close> show ?thesis by (simp add: Parse_extensions_def Let_def)
  next
    case False
    then have "safe (ext_loop b (?o + 4) (?o + 4 + unat len * 4) []) (\<lambda>es. \<forall>e \<in> set es. ext_ok b e)"
      by (intro ext_loop_safe) auto
    then obtain ok es where "ext_loop b (?o + 4) (?o + 4 + unat len * 4) [] = Some (ok, es)" "ok \<longrightarrow> (\<forall>e \<in> set es. ext_ok b e)"
      by (auto simp: safe_def)
    with r False \<open>rp_has_extension p \<and> _\<close> p show ?thesis
      by (auto simp: Parse_extensions_def Let_def offset_ok_def)
  qed
qed (use p in \<open>auto simp: Parse_extensions_def offset_ok_def\<close>)

definition layout_ok :: "bytes \<Rightarrow> rtp_packet \<Rightarrow> bool" where
  "layout_ok b p \<longleftrightarrow> offset_ok b p \<and> rp_payload_offset p + rp_payload_size p + rp_padding_size p = length b"

lemma Parse_payload_safe: "offset_ok b p \<Longrightarrow> safe (Parse_payload b p) (layout_ok b)"
  by (auto simp: Parse_payload_def layout_ok_def offset_ok_def kFixedHeaderSize_def)

lemma Parse_safe: "safe (Parse b p) (layout_ok b)"
  unfolding Parse_def
  by (intro safe_stage) (rule Parse_fixed_safe Parse_csrcs_safe Parse_extensions_safe Parse_payload_safe; auto)+

lemma Build_safe: "safe (Build b p) (\<lambda>q. layout_ok b q \<and> rp_buffer q = b \<and> rp_size q = length b)"
  unfolding Build_def by (rule safe_stage [OF Parse_safe]) (simp add: layout_ok_def offset_ok_def)

section \<open>What the packetizer builds\<close>

text \<open>The header fields of a frame, read back at their offsets.\<close>

lemma length_frame_header [simp]: "length (frame_header k m ts) = 12"
  by (simp add: frame_header_def)

lemma frame_first [wire_simps]:
  "(frame_header k m ts @ rest) ! 0 = (if pk_abs_send_time_ext_id k = None then 0x80 else 0x90)"
  by (simp add: frame_header_def kRtpVersion_def)

lemma frame_second [wire_simps]:
  "(frame_header k m ts @ rest) ! Suc 0 = ucast (push_bit 7 (of_bool m) OR pk_payload_type k)"
  by (simp add: frame_header_def)

lemma frame_seq [wire_simps]: "rd16 (frame_header k m ts @ rest) 2 = Some (pk_sequence_number k)"
  using rd16_append [of "take 2 (frame_header k m ts)" "pk_sequence_number k" "Put32 ts @ Put32 (pk_ssrc k) @ rest"]
  by (simp add: frame_header_def numeral_2_eq_2)

lemma frame_ts [wire_simps]: "rd32 (frame_header k m ts @ rest) 4 = Some ts"
  using rd32_append [of "take 4 (frame_header k m ts)" ts "Put32 (pk_ssrc k) @ rest"]
  by (simp add: frame_header_def Put16_def eval_nat_numeral)

lemma frame_ssrc [wire_simps]: "rd32 (frame_header k m ts @ rest) 8 = Some (pk_ssrc k)"
  using rd32_append [of "take 8 (frame_header k m ts)" "pk_ssrc k" rest]
  by (simp add: frame_header_def Put16_def Put32_def eval_nat_numeral)

lemma high_bits_clear: "w < 128 \<Longrightarrow> 7 \<le> i \<Longrightarrow> \<not> bit (w :: u32) i"
proof -
  assume "w < 128" "7 \<le> i"
  then have "drop_bit 7 w = 0" by (simp add: drop_bit_eq_div word_less_nat_alt word_arith_nat_div)
  then have "bit (drop_bit 7 w) (i - 7) = False" by simp
  with \<open>7 \<le> i\<close> show "\<not> bit w i" by (simp add: bit_drop_bit_eq)
qed

lemma marker_bit: "w < 128 \<Longrightarrow> bit (ucast (push_bit 7 (of_bool m) OR (w :: u32)) :: u8) 7 = m"
  by (simp add: bit_simps high_bits_clear)

lemma type_bits:
  assumes "w < 128"
  shows "(ucast (push_bit 7 (of_bool m) OR (w :: u32)) :: u8) AND 0x7f = ucast w"
proof (rule bit_word_eqI)
  fix i :: nat
  assume "i < LENGTH(8)"
  have e: "(0x7f :: u8) = mask 7" by (simp add: mask_eq_exp_minus_1)
  from \<open>i < LENGTH(8)\<close> show "bit ((ucast (push_bit 7 (of_bool m) OR w) :: u8) AND 0x7f) i = bit (ucast w :: u8) i"
    using high_bits_clear [OF assms, of i] unfolding e by (cases "i < 7") (auto simp: bit_simps)
qed

text \<open>The extension block the packetizer reserves: one element, three zero bytes.\<close>

lemma ext_loop_done: "extension_end \<le> offset \<Longrightarrow> ext_loop b offset extension_end exts = Some (True, exts)"
  by (subst ext_loop.simps) simp

lemma valid_ext_ids: "IsValidOneByteExtensionId i \<Longrightarrow> i \<in> {1, 2, 3, 4, 5, 6, 7, 8, 9, 10, 11, 12, 13, 14}"
proof -
  assume "IsValidOneByteExtensionId i"
  then have "unat i \<in> {1..14}" by (simp add: IsValidOneByteExtensionId_def word_le_nat_alt)
  also have "{1..14} = set [1, 2, 3, 4, 5, 6, 7, 8, 9, 10, 11, 12, 13, 14::nat]" unfolding atLeastAtMost_upt by code_simp
  finally have "of_nat (unat i) \<in> (of_nat ` set [1, 2, 3, 4, 5, 6, 7, 8, 9, 10, 11, 12, 13, 14::nat] :: u8 set)"
    by (rule imageI)
  then show ?thesis by simp
qed

lemma ext_byte:
  assumes "IsValidOneByteExtensionId i"
  shows "drop_bit 4 (push_bit 4 i OR 2 :: u8) = i" "(push_bit 4 i OR 2 :: u8) AND 0x0F = 2" "i \<noteq> 0" "i \<noteq> 15"
  using valid_ext_ids [OF assms] by (elim insertE; simp)+

definition time_ext :: "u8 \<Rightarrow> extension" where
  "time_ext i = \<lparr>ext_id = i, ext_len = 3, ext_data_offset = 17, ext_data = [0, 0, 0]\<rparr>"

lemma ext_loop_time:
  assumes "IsValidOneByteExtensionId i" "length h = 16"
  shows "ext_loop (h @ [push_bit 4 i OR 2, 0, 0, 0] @ rest) 16 20 [] = Some (True, [time_ext i])"
proof -
  have "(h @ [push_bit 4 i OR 2, 0, 0, 0] @ rest) ! 16 = push_bit 4 i OR 2" using assms(2) by (simp add: nth_append)
  moreover have "rd_range (h @ [push_bit 4 i OR 2, 0, 0, 0] @ rest) 17 3 = Some [0, 0, 0]"
    using assms(2) by (simp add: rd_range_inside)
  ultimately show ?thesis
    using assms ext_byte [OF assms(1)]
    by (subst ext_loop.simps) (simp add: Let_def ext_loop_done time_ext_def)
qed

text \<open>The packet a frame parses to.\<close>

definition frame_packet :: "packetizer \<Rightarrow> bool \<Rightarrow> u32 \<Rightarrow> bytes \<Rightarrow> rtp_packet" where
  "frame_packet k m ts part =
     (let h = frame_header k m ts @ AppendAbsoluteSendTimeExtension k; ext = pk_abs_send_time_ext_id k in
      \<lparr>rp_version = 2, rp_has_padding = False, rp_has_extension = (ext \<noteq> None), rp_csrc_count = 0, rp_marker = m,
       rp_payload_type = ucast (pk_payload_type k), rp_sequence_number = pk_sequence_number k, rp_timestamp = ts,
       rp_ssrc = pk_ssrc k, rp_csrcs = [], rp_extension_profile = (if ext = None then 0 else kOneByteExtensionProfileId),
       rp_extension_len = (if ext = None then 0 else 1),
       rp_extensions = (case ext of None \<Rightarrow> [] | Some i \<Rightarrow> [time_ext i]), rp_abs_send_time_ext_id = None,
       rp_payload_offset = length h, rp_payload_size = length part, rp_padding_size = 0, rp_buffer = h @ part,
       rp_size = length h + length part\<rparr>)"

definition ext_valid :: "packetizer \<Rightarrow> bool" where
  "ext_valid k \<longleftrightarrow> (case pk_abs_send_time_ext_id k of None \<Rightarrow> True | Some i \<Rightarrow> IsValidOneByteExtensionId i)"

lemma Parse_fixed_frame:
  assumes "pk_payload_type k < 128"
  shows "Parse_fixed (frame_header k m ts @ rest) new_rtp_packet = Some (True, new_rtp_packet\<lparr>rp_version := 2,
     rp_has_extension := pk_abs_send_time_ext_id k \<noteq> None, rp_marker := m, rp_payload_type := ucast (pk_payload_type k),
     rp_sequence_number := pk_sequence_number k, rp_timestamp := ts, rp_ssrc := pk_ssrc k, rp_payload_offset := 12\<rparr>)"
proof -
  let ?x = "if pk_abs_send_time_ext_id k = None then 0x80 else 0x90 :: u8"
  let ?b = "frame_header k m ts @ rest"
  have r: "rd ?b 0 = Some ?x" "rd ?b 1 = Some (ucast (push_bit 7 (of_bool m) OR pk_payload_type k))"
    by (simp_all add: wire_simps)
  have x: "drop_bit 6 ?x AND 3 = 2" "bit ?x 5 = False" "bit ?x 4 = (pk_abs_send_time_ext_id k \<noteq> None)" "?x AND 0x0f = 0"
    by simp_all
  show ?thesis
    unfolding Parse_fixed_def Let_def r bind.bind_lunit x marker_bit [OF assms] type_bits [OF assms] wire_simps
    by (simp add: rtp_consts new_rtp_packet_def frame_seq frame_ts frame_ssrc)
qed

lemma Parse_extensions_frame:
  assumes "pk_abs_send_time_ext_id k = Some i" "IsValidOneByteExtensionId i" "rp_has_extension p" "rp_payload_offset p = 12"
  shows "Parse_extensions (frame_header k m ts @ AppendAbsoluteSendTimeExtension k @ part) p =
     Some (True, p\<lparr>rp_extension_profile := kOneByteExtensionProfileId, rp_extension_len := 1, rp_extensions := [time_ext i],
                   rp_payload_offset := 20\<rparr>)"
proof -
  let ?h = "frame_header k m ts"
  let ?b = "?h @ AppendAbsoluteSendTimeExtension k @ part"
  have one: "Put16 1 = [0, 1]" by (simp add: Put16_def)
  have b: "?b = ?h @ Put16 kOneByteExtensionProfileId @ Put16 1 @ [push_bit 4 i OR 2, 0, 0, 0] @ part"
    using assms(1) by (simp add: AppendAbsoluteSendTimeExtension_def one)
  have r1: "rd16 ?b 12 = Some kOneByteExtensionProfileId" unfolding b using rd16_append [of ?h] by simp
  have r2: "rd16 ?b 14 = Some 1" unfolding b
    using rd16_append [of "?h @ Put16 kOneByteExtensionProfileId" 1] by simp
  have l: "ext_loop ?b 16 20 [] = Some (True, [time_ext i])" unfolding b
    using ext_loop_time [OF assms(2), of "?h @ Put16 kOneByteExtensionProfileId @ Put16 1"] by simp
  have len: "20 \<le> length ?b" unfolding b by simp
  with assms(3,4) r1 r2 l show ?thesis by (simp add: Parse_extensions_def Let_def)
qed

lemma Build_frame:
  assumes "pk_payload_type k < 128" "ext_valid k"
  shows "Build (frame_header k m ts @ AppendAbsoluteSendTimeExtension k @ part) new_rtp_packet =
     Some (True, frame_packet k m ts part)"
proof (cases "pk_abs_send_time_ext_id k")
  case None
  then have e: "AppendAbsoluteSendTimeExtension k = []" by (simp add: AppendAbsoluteSendTimeExtension_def)
  show ?thesis
    unfolding Build_def Parse_def Parse_fixed_frame [OF assms(1)]
    by (simp add: stage_def Parse_csrcs_def new_rtp_packet_def kFixedHeaderSize_def Parse_extensions_def Parse_payload_def
        frame_packet_def None e Let_def)
next
  case (Some i)
  then have i: "IsValidOneByteExtensionId i" using assms(2) by (simp add: ext_valid_def)
  have e: "length (AppendAbsoluteSendTimeExtension k) = 8" by (simp add: AppendAbsoluteSendTimeExtension_def Some)
  show ?thesis
    unfolding Build_def Parse_def Parse_fixed_frame [OF assms(1)]
    using Some e Parse_extensions_frame [OF Some i, where m = m and ts = ts and part = part]
    by (simp add: stage_def Parse_csrcs_def new_rtp_packet_def kFixedHeaderSize_def Parse_payload_def frame_packet_def Let_def)
qed

lemma Payload_frame_packet [simp]: "Payload (frame_packet k m ts part) = part"
  by (simp add: Payload_def frame_packet_def Let_def)

text \<open>A payload that fits makes one packet.\<close>

lemma Packetize_one:
  assumes "pk_payload_type k < 128" "ext_valid k" "payload \<noteq> []" "length payload \<le> MAX_NALU_LEN"
  shows "Packetize payload ts k =
     Some ([frame_packet (k\<lparr>pk_sequence_number := pk_sequence_number k + 1\<rparr>) True ts payload],
           k\<lparr>pk_sequence_number := pk_sequence_number k + 1\<rparr>)"
proof -
  let ?k = "k\<lparr>pk_sequence_number := pk_sequence_number k + 1\<rparr>"
  let ?last = "length payload mod MAX_NALU_LEN"
  have num: "length payload div MAX_NALU_LEN + (if ?last \<noteq> 0 then 1 else 0) = 1"
    and take: "(if 0 < ?last then ?last else MAX_NALU_LEN) = length payload"
    using assms(3,4) by (cases "length payload = MAX_NALU_LEN"; simp add: MAX_NALU_LEN_def)+
  have "Build (frame_header ?k True ts @ AppendAbsoluteSendTimeExtension ?k @ payload) new_rtp_packet =
    Some (True, frame_packet ?k True ts payload)"
    using assms(1,2) by (intro Build_frame) (simp_all add: ext_valid_def)
  moreover have "rd_range payload 0 (length payload) = Some payload" by (simp add: rd_range_def)
  moreover have "Packetize payload ts k = packet_loop payload ts ?last 1 1 k" unfolding Packetize_def Let_def num ..
  ultimately show ?thesis by (simp add: take Let_def)
qed

text \<open>Every packet of a longer payload starts at its first byte again: the loop never moves the pointer.\<close>

lemma packet_loop_prefix:
  assumes "pk_payload_type k < 128" "ext_valid k" "packet_loop payload ts l left num k = Some (ps, k')" "p \<in> set ps"
  shows "Payload p = take (length (Payload p)) payload"
  using assms
proof (induction left arbitrary: k ps)
  case (Suc left)
  let ?k = "k\<lparr>pk_sequence_number := pk_sequence_number k + 1\<rparr>"
  have B: "Build (frame_header ?k m ts @ AppendAbsoluteSendTimeExtension ?k @ part) new_rtp_packet =
    Some (True, frame_packet ?k m ts part)" for m part
    using Suc.prems(1,2) by (intro Build_frame) (simp_all add: ext_valid_def)
  have k: "pk_payload_type ?k < 128" "ext_valid ?k" using Suc.prems(1,2) by (simp_all add: ext_valid_def)
  from Suc.prems(3,4) Suc.IH [OF k] show ?case
    by (auto simp: Let_def B rd_range_def bind_eq_Some_conv split: if_splits)
qed simp

text \<open>The absolute send time: written in place, read back.\<close>

lemma update_time_loop_get:
  assumes "\<forall>e \<in> set es. ext_ok b e" "length d = 3" "update_time_loop i d es b = Some (es', b')"
  shows "GetAbsoluteSendTimestamp i es' =
     Some (push_bit 16 (ucast (d ! 0)) OR push_bit 8 (ucast (d ! 1)) OR ucast (d ! 2)) \<and> length b' = length b"
  using assms
proof (induction es arbitrary: es')
  case (Cons e es)
  have "length (ext_data e) = 3 \<longleftrightarrow> ext_len e = 3"
    using Cons.prems(1) by (auto simp: ext_ok_def word_unat_eq_iff)
  moreover have "ext_len e = 3 \<Longrightarrow> ext_data_offset e + 3 \<le> length b"
    using Cons.prems(1) by (auto simp: ext_ok_def)
  ultimately show ?case using Cons by (auto split: if_splits)
qed simp

lemma time_bytes_value:
  "push_bit 16 (ucast (time_bytes t ! 0)) OR push_bit 8 (ucast (time_bytes t ! 1)) OR (ucast (time_bytes t ! 2) :: u32)
   = t AND 0x00FFFFFF"
proof (rule bit_word_eqI)
  fix n :: nat
  assume "n < LENGTH(32)"
  have e: "(0x00FFFFFF :: u32) = mask 24" by (simp add: mask_eq_exp_minus_1)
  from \<open>n < LENGTH(32)\<close> consider "n < 8" | "8 \<le> n" "n < 16" | "16 \<le> n" "n < 24" | "24 \<le> n" "n < 32" by fastforce
  then show "bit (push_bit 16 (ucast (time_bytes t ! 0)) OR push_bit 8 (ucast (time_bytes t ! 1)) OR
      (ucast (time_bytes t ! 2) :: u32)) n = bit (t AND 0x00FFFFFF) n"
    unfolding e by cases (auto simp: time_bytes_def bit_simps)
qed

lemma masked_twice: "(t AND 0x00FFFFFF) AND 0x00FFFFFF = (t AND 0x00FFFFFF :: u32)"
  by (simp add: and.assoc)

lemma update_then_get:
  assumes "layout_ok (rp_buffer p) p" "UpdateAbsoluteSendTimestamp i t p = (True, q)"
  shows "GetAbsoluteSendTimestamp i (rp_extensions q) = Some (t AND 0x00FFFFFF)"
proof -
  let ?d = "time_bytes (t AND 0x00FFFFFF)"
  obtain es b where u: "update_time_loop i ?d (rp_extensions p) (rp_buffer p) = Some (es, b)" and q: "rp_extensions q = es"
    using assms(2) by (auto simp: UpdateAbsoluteSendTimestamp_def split: if_splits option.splits)
  have "\<forall>e \<in> set (rp_extensions p). ext_ok (rp_buffer p) e" using assms(1) by (simp add: layout_ok_def offset_ok_def)
  from update_time_loop_get [OF this _ u] q show ?thesis
    unfolding time_bytes_value masked_twice by (simp add: time_bytes_def)
qed

section \<open>RTCP headers\<close>

text \<open>A header that parses lies inside the bytes that are left and has a size of at least four bytes.\<close>

lemma rtcp_Parse_safe:
  "safe (rtcp_Parse b) (\<lambda>h. kRtcpHeaderSizeBytes \<le> rtcp_packet_size h \<and> rtcp_packet_size h \<le> length b \<and>
     4 dvd rtcp_packet_size h)"
proof (cases "length b < 4")
  case False
  then have ne: "b \<noteq> []" "1 < length b" "3 < length b" by auto
  define n where "n = unat (Get16 [b ! 2, b ! 3])"
  have r: "rd16 b 2 = Some (Get16 [b ! 2, b ! 3])" using rd16_inside [of 2 b] ne by simp
  have z: "rd b (n * 4 + 3) = Some (b ! (n * 4 + 3))" if "n * 4 + 4 \<le> length b"
    using that by simp
  show ?thesis
    unfolding rtcp_Parse_def Let_def r
    using ne z False by (auto simp: kRtcpHeaderSizeBytes_def rtcp_packet_size_def n_def [symmetric] add.commute)
qed (simp add: rtcp_Parse_def kRtcpHeaderSizeBytes_def Let_def)

lemma bit_0x80 [simp]: "bit (128 :: int) i \<longleftrightarrow> i = 7"
  using bit_exp_iff [of 7 i, where 'a = int] by auto

lemma bit_small:
  assumes "c < (32 :: u8)" "5 \<le> i"
  shows "\<not> bit c i"
proof -
  have "drop_bit 5 c = 0" using assms(1) by (simp add: drop_bit_eq_div word_less_nat_alt word_arith_nat_div)
  then have "bit (drop_bit 5 c) (i - 5) = False" by simp
  with assms(2) show ?thesis by (simp add: bit_drop_bit_eq)
qed

lemma rtcp_first:
  assumes "c < (32 :: u8)"
  shows "drop_bit 6 (0x80 OR c) = 2" "(0x80 OR c) AND 0x1F = c" "bit (0x80 OR c) 5 = False"
proof -
  have m: "(0x1F :: u8) = mask 5" by (simp add: mask_eq_exp_minus_1)
  have two: "bit (2 :: u8) i \<longleftrightarrow> i = 1" for i using bit_2_iff [of i, where 'a = u8] by auto
  show "drop_bit 6 (0x80 OR c) = 2"
    by (rule bit_word_eqI) (use bit_small [OF assms] in \<open>auto simp: bit_drop_bit_eq bit_or_iff two\<close>)
  show "(0x80 OR c) AND 0x1F = c"
    unfolding m by (rule bit_word_eqI) (use bit_small [OF assms] in \<open>auto simp: bit_and_iff bit_or_iff bit_mask_iff simp flip: not_le\<close>)
  show "bit (0x80 OR c) 5 = False" using bit_small [OF assms, of 5] by (simp add: bit_or_iff)
qed

lemma rtcp_Parse_Create:
  assumes "c < 32" "length body = unat n * 4"
  shows "rtcp_Parse (rtcp_Create 2 0 c t n @ body @ rest) =
     Some (True, \<lparr>rh_packet_type = t, rh_count_or_format = c, rh_padding_size = 0, rh_payload_size = unat n * 4\<rparr>)"
proof -
  let ?b = "rtcp_Create 2 0 c t n @ body @ rest"
  have b: "?b = [0x80 OR c, t] @ Put16 n @ body @ rest" by (simp add: rtcp_Create_def)
  have r: "rd ?b 0 = Some (0x80 OR c)" "rd ?b 1 = Some t" "rd16 ?b 2 = Some n"
    unfolding b using rd16_append [of "[0x80 OR c, t]" n "body @ rest"] by (simp_all add: numeral_2_eq_2)
  have len: "\<not> length ?b < 4" "\<not> length ?b < 4 + unat n * 4" using assms(2) unfolding b by simp_all
  show ?thesis
    unfolding rtcp_Parse_def Let_def r bind.bind_lunit rtcp_first [OF assms(1)] kRtcpHeaderSizeBytes_def using len by simp
qed

section \<open>Properties\<close>

text \<open>C38. \<^verbatim>\<open>RtpPacket::Build\<close> on any bytes, of a packet in any state, never reads outside the buffer it is given.  When it
returns true, the header, the payload and the padding tile the buffer exactly, and every header extension lies inside it, has
an id other than 0 and 15, and holds the bytes of its place.\<close>

theorem rtp_build_stays_in_buffer:
  "\<exists>ok q. Build b p = Some (ok, q) \<and>
     (ok \<longrightarrow> rp_buffer q = b \<and> rp_size q = length b \<and> kFixedHeaderSize \<le> rp_payload_offset q \<and>
        rp_payload_offset q + rp_payload_size q + rp_padding_size q = length b \<and>
        (\<forall>e \<in> set (rp_extensions q). ext_ok b e))"
  using Build_safe [of b p] by (auto simp: safe_def layout_ok_def offset_ok_def)

text \<open>A packet with a one-byte extension block and two bytes of padding.\<close>

definition demo_frame :: bytes where
  "demo_frame = [0xB0, 0xF8, 0, 7, 0, 0, 0, 1, 0, 0, 0, 9, 0xBE, 0xDE, 0, 1, 0x32, 1, 2, 3, 65, 66, 0, 2]"

theorem rtp_build_stays_in_buffer_witness:
  "\<exists>q. Build demo_frame new_rtp_packet = Some (True, q) \<and> Payload q = [65, 66] \<and> rp_padding_size q = 2 \<and>
     (\<forall>e \<in> set (rp_extensions q). ext_ok demo_frame e)"
proof -
  have "map_option (\<lambda>(ok, q). (ok, Payload q, rp_padding_size q)) (Build demo_frame new_rtp_packet) =
      Some (True, [65, 66], 2)"
    by code_simp
  then obtain q where q: "Build demo_frame new_rtp_packet = Some (True, q)" "Payload q = [65, 66]" "rp_padding_size q = 2"
    by auto
  with rtp_build_stays_in_buffer [of demo_frame new_rtp_packet] show ?thesis by auto
qed

text \<open>What the packetizer of a data stream puts into a packet is what a receiver reads from it: a payload of 1 to 1150 bytes
makes exactly one packet; parsing its bytes gives back the stream's payload type and SSRC, the next sequence number, the
timestamp and the payload itself, without padding, and the packet is at most 20 bytes longer than the payload.\<close>

theorem packetized_payload_reads_back:
  assumes "pk_payload_type k < 128" "ext_valid k" "payload \<noteq> []" "length payload \<le> MAX_NALU_LEN"
  shows "\<exists>p q. Packetize payload ts k = Some ([p], k\<lparr>pk_sequence_number := pk_sequence_number k + 1\<rparr>) \<and>
     Build (rp_buffer p) new_rtp_packet = Some (True, q) \<and> Payload q = payload \<and> rp_ssrc q = pk_ssrc k \<and>
     rp_payload_type q = ucast (pk_payload_type k) \<and> rp_sequence_number q = pk_sequence_number k + 1 \<and>
     rp_timestamp q = ts \<and> rp_padding_size q = 0 \<and> length (rp_buffer p) \<le> length payload + 20"
proof -
  let ?k = "k\<lparr>pk_sequence_number := pk_sequence_number k + 1\<rparr>"
  let ?p = "frame_packet ?k True ts payload"
  have "Build (rp_buffer ?p) new_rtp_packet = Some (True, ?p)"
    using Build_frame [of ?k True ts payload] assms(1,2) by (simp add: frame_packet_def Let_def ext_valid_def)
  moreover have "length (AppendAbsoluteSendTimeExtension ?k) \<le> 8"
    by (simp add: AppendAbsoluteSendTimeExtension_def split: option.split)
  ultimately show ?thesis
    unfolding Packetize_one [OF assms, of ts] by (intro exI [of _ ?p]) (simp add: frame_packet_def Payload_def Let_def)
qed

theorem packetized_payload_reads_back_witness:
  "\<exists>p q. Packetize [1, 2, 3] 77 (new_packetizer 5 120) = Some ([p], (new_packetizer 5 120)\<lparr>pk_sequence_number := 1\<rparr>) \<and>
     Build (rp_buffer p) new_rtp_packet = Some (True, q) \<and> Payload q = [1, 2, 3] \<and> rp_ssrc q = 5"
  using packetized_payload_reads_back [of "new_packetizer 5 120" "[1, 2, 3]" 77]
  by (auto simp: new_packetizer_def ext_valid_def MAX_NALU_LEN_def)

end
