(* ===== verification/Data_Transport.thy ===== *)
theory Data_Transport
  imports Rtp_Packet Take_Code "HOL-Library.List_Lexorder" "HOL-Library.Char_ord"
begin

text \<open>
  The data-only transport, \<^verbatim>\<open>minirtc/src/transport/data_transport.{h,cpp}\<close>: named RTP streams, reliable over KCP or raw,
  on one datagram path, with SRTP, pacing and congestion control.

  KCP (\<open>kcp_ops\<close>), libsrtp (\<open>srtp_ops\<close>) and the clock are parameters; a KCP call that transmits returns the
  segments it hands to the output callback.  The pacing queue, the congestion controller and the feedback modules live on
  other threads: what the transport asks of them, the datagrams it sends and the data it delivers are recorded in order in
  \<open>dt_log\<close>, and what they answer is an argument of the operation that reads it.  \<^verbatim>\<open>std::map\<close> is an ordered association list,
  a \<^verbatim>\<open>Stream*\<close> the name of the stream it points to.
\<close>

section \<open>Parameters\<close>

record 'k kcp_ops =
  ikcp_create :: "u32 \<Rightarrow> 'k option"
  ikcp_setup :: "'k \<Rightarrow> int \<Rightarrow> int \<Rightarrow> 'k"
  ikcp_waitsnd :: "'k \<Rightarrow> nat"
  ikcp_snd_wnd :: "'k \<Rightarrow> nat"
  ikcp_send :: "'k \<Rightarrow> bytes \<Rightarrow> int \<times> 'k"
  ikcp_flush :: "'k \<Rightarrow> bytes list \<times> 'k"
  ikcp_input :: "'k \<Rightarrow> bytes \<Rightarrow> int \<times> 'k"
  ikcp_update :: "'k \<Rightarrow> u32 \<Rightarrow> bytes list \<times> 'k"
  ikcp_peeksize :: "'k \<Rightarrow> int"
  ikcp_recv :: "'k \<Rightarrow> int \<Rightarrow> int \<times> bytes \<times> 'k"
  ikcp_backlog :: "'k \<Rightarrow> nat"

record 's srtp_ops =
  srtp_sender :: "bytes \<Rightarrow> bytes \<Rightarrow> 's option"
  srtp_receiver :: "bytes \<Rightarrow> bytes \<Rightarrow> 's option"
  protectRtp :: "'s \<Rightarrow> bytes \<Rightarrow> bytes option \<times> 's"
  unprotectRtp :: "'s \<Rightarrow> bytes \<Rightarrow> bytes option \<times> 's"
  protectRtcp :: "'s \<Rightarrow> bytes \<Rightarrow> bytes option \<times> 's"
  unprotectRtcp :: "'s \<Rightarrow> bytes \<Rightarrow> bytes option \<times> 's"

section \<open>State\<close>

definition kMaxDatagramPayload :: nat where "kMaxDatagramPayload = 1150"
definition kKcpMtu :: int where "kKcpMtu = int kMaxDatagramPayload"
definition kMaxPacerQueueMs :: int where "kMaxPacerQueueMs = 400"
definition kProcessIntervalTicks :: int where "kProcessIntervalTicks = 2"
definition kFeedbackPacketType :: u8 where "kFeedbackPacketType = 205"
definition kFeedbackMessageType :: u8 where "kFeedbackMessageType = 11"

record stream_config =
  cf_name :: string
  cf_reliable :: bool
  cf_kcp_window :: int

record 'k dstream =
  st_config :: stream_config
  st_local_ssrc :: u32
  st_remote_ssrc :: u32
  st_conv :: u32
  st_packetizer :: packetizer
  st_kcp :: "'k option"

datatype pacer_call =
    EnqueueRtpPackets "rtp_packet list" string
  | SetTransportReadyPacer bool
  | EnsureStarted
  | SetPacingRates int int
  | CreateProbeClusters "nat list"
  | SetCongested bool
  | SetSendBurstInterval int
  | SetQueueTimeLimit int
  | SetAllowProbeWithoutMediaPacket bool
  | SetIncludeOverhead
  | SetTransportOverhead int
  | Shutdown

datatype cc_call =
    SetRelayPathCc bool
  | SetRepeatedInitialProbing bool
  | OnNetworkAvailability bool
  | OnSentPacketCc nat int
  | OnTransportPacketsFeedback bytes
  | OnProcessInterval

datatype effect =
    Pacer pacer_call
  | Cc cc_call
  | Wire bytes
  | Deliver string bytes
  | FbAddPacket nat
  | FbRemovePacket
  | FbGenReceived rtp_packet
  | FbGenProcess

record ('k, 's) transport =
  dt_enable_srtp :: bool
  dt_send_set :: bool
  dt_streams :: "(string \<times> 'k dstream) list"
  dt_by_remote_ssrc :: "(u32 \<times> string) list"
  dt_by_local_ssrc :: "(u32 \<times> string) list"
  dt_padding_stream :: string
  dt_srtp_out :: "'s option"
  dt_srtp_in :: "'s option"
  dt_srtp_ready :: bool
  dt_congestion_window :: "nat option"
  dt_congested :: bool
  dt_transport_ready :: bool
  dt_running :: bool
  dt_relay_path :: int
  dt_rtcp_ssrc :: u32
  dt_tick :: int
  dt_target_bps :: int
  dt_pacing_bps :: int
  dt_rtt_ms :: int
  dt_sent_packets :: u64
  dt_sent_bytes :: u64
  dt_recv_packets :: u64
  dt_recv_bytes :: u64
  dt_last_sent_bytes :: u64
  dt_last_recv_bytes :: u64
  dt_last_stats_ms :: int
  dt_ssrc_seq :: "(u32 \<times> u16) list"
  dt_log :: "effect list"

definition dt_emit :: "effect list \<Rightarrow> ('k, 's) transport \<Rightarrow> ('k, 's) transport" where
  "dt_emit es t = t\<lparr>dt_log := dt_log t @ es\<rparr>"

definition put_stream :: "string \<Rightarrow> 'k dstream \<Rightarrow> ('k, 's) transport \<Rightarrow> ('k, 's) transport" where
  "put_stream name s t = t\<lparr>dt_streams := omap_put name s (dt_streams t)\<rparr>"

definition NowMs :: "int \<Rightarrow> u32" where "NowMs now = of_int now"

section \<open>Construction\<close>

fun Fnv1a_loop :: "string \<Rightarrow> u32 \<Rightarrow> u32" where
  "Fnv1a_loop [] h = h"
| "Fnv1a_loop (c # cs) h = Fnv1a_loop cs ((h XOR of_nat (of_char c)) * 16777619)"

definition Fnv1a :: "string \<Rightarrow> u32" where
  "Fnv1a s = (let h = Fnv1a_loop s 2166136261 in if h = 0 then 1 else h)"

text \<open>\<open>ssrc i\<close> is the \<open>i\<close>-th number \<^verbatim>\<open>GenerateUniqueSsrc\<close> returns; the RTCP source takes the first one.\<close>

fun add_streams :: "(nat \<Rightarrow> u32) \<Rightarrow> nat \<Rightarrow> stream_config list \<Rightarrow> ('k, 's) transport \<Rightarrow> ('k, 's) transport" where
  "add_streams ssrc i [] t = t"
| "add_streams ssrc i (cfg # cfgs) t =
     (let s = \<lparr>st_config = cfg, st_local_ssrc = ssrc i, st_remote_ssrc = 0, st_conv = Fnv1a (cf_name cfg),
               st_packetizer = new_packetizer (ssrc i) (if cf_reliable cfg then ucast PT_KCP else ucast PT_DATA), st_kcp = None\<rparr>;
          t1 = (if \<not> cf_reliable cfg \<and> dt_padding_stream t = [] then t\<lparr>dt_padding_stream := cf_name cfg\<rparr> else t);
          t2 = t1\<lparr>dt_by_local_ssrc := omap_put (ssrc i) (cf_name cfg) (dt_by_local_ssrc t1)\<rparr> in
      add_streams ssrc (i + 1) cfgs (put_stream (cf_name cfg) s t2))"

definition new_transport :: "(nat \<Rightarrow> u32) \<Rightarrow> stream_config list \<Rightarrow> bool \<Rightarrow> ('k, 's) transport" where
  "new_transport ssrc streams enable_srtp = add_streams ssrc 1 streams
     \<lparr>dt_enable_srtp = enable_srtp, dt_send_set = False, dt_streams = [], dt_by_remote_ssrc = [], dt_by_local_ssrc = [],
      dt_padding_stream = [], dt_srtp_out = None, dt_srtp_in = None, dt_srtp_ready = False, dt_congestion_window = None,
      dt_congested = False, dt_transport_ready = False, dt_running = False, dt_relay_path = - 1, dt_rtcp_ssrc = ssrc 0,
      dt_tick = 0, dt_target_bps = 0, dt_pacing_bps = 0, dt_rtt_ms = - 1, dt_sent_packets = 0, dt_sent_bytes = 0,
      dt_recv_packets = 0, dt_recv_bytes = 0, dt_last_sent_bytes = 0, dt_last_recv_bytes = 0, dt_last_stats_ms = 0,
      dt_ssrc_seq = [], dt_log = []\<rparr>"

definition dt_Init :: "int \<Rightarrow> ('k, 's) transport \<Rightarrow> ('k, 's) transport" where
  "dt_Init now t =
     (if dt_running t then t
      else dt_emit ((if 0 \<le> dt_relay_path t then [Cc (SetRelayPathCc (dt_relay_path t = 1))] else []) @
                 [Cc (SetRepeatedInitialProbing (dt_padding_stream t \<noteq> [])),
                  Pacer (SetPacingRates 2000000 0), Pacer (SetSendBurstInterval 20), Pacer (SetQueueTimeLimit kMaxPacerQueueMs),
                  Pacer (SetAllowProbeWithoutMediaPacket (dt_padding_stream t \<noteq> [])), Pacer SetIncludeOverhead,
                  Pacer (SetTransportOverhead 28)])
             (t\<lparr>dt_running := True, dt_last_stats_ms := now\<rparr>))"

definition dt_Destroy :: "('k, 's) transport \<Rightarrow> ('k, 's) transport" where
  "dt_Destroy t =
     (if \<not> dt_running t then t
      else dt_emit [Pacer Shutdown]
             (t\<lparr>dt_running := False, dt_streams := map (\<lambda>(n, s). (n, s\<lparr>st_kcp := None\<rparr>)) (dt_streams t)\<rparr>))"

definition SetSendFunc :: "('k, 's) transport \<Rightarrow> ('k, 's) transport" where
  "SetSendFunc t = t\<lparr>dt_send_set := True\<rparr>"

text \<open>\<open>ans\<close> is the send function of the owner, by its result.\<close>

definition dt_SendDatagram :: "(bytes \<Rightarrow> int) \<Rightarrow> bytes \<Rightarrow> ('k, 's) transport \<Rightarrow> int \<times> ('k, 's) transport" where
  "dt_SendDatagram ans d t = (if \<not> dt_send_set t then (- 1, t) else (ans d, dt_emit [Wire d] t))"

section \<open>Stream lines of the session description\<close>

text \<open>Decimal output of an unsigned integer.\<close>

function dec :: "nat \<Rightarrow> string" where
  "dec n = (if n < 10 then [char_of (48 + n)] else dec (n div 10) @ [char_of (48 + n mod 10)])"
  by pat_completeness auto
termination
  by (relation "measure id") auto

declare dec.simps [simp del]

definition stream_prefix :: string where "stream_prefix = ''a=x-data-stream:''"

definition crlf :: string where "crlf = [CHR 0x0D, CHR 0x0A]"

definition stream_line :: "string \<Rightarrow> 'k dstream \<Rightarrow> string" where
  "stream_line name s = stream_prefix @ name @ '' '' @ dec (unat (st_local_ssrc s)) @ '' '' @
     (if cf_reliable (st_config s) then ''1'' else ''0'') @ crlf"

definition LocalStreamSdpLines :: "('k, 's) transport \<Rightarrow> string" where
  "LocalStreamSdpLines t = concat (map (\<lambda>(name, s). stream_line name s) (dt_streams t))"

text \<open>\<^verbatim>\<open>std::getline\<close> until the end of the text: the part after the last newline counts only when it is not empty.\<close>

definition getlines :: "string \<Rightarrow> string list" where
  "getlines s = (let ps = split_on CHR 0x0A s in if last ps = [] then butlast ps else ps)"

definition strip_cr :: "string \<Rightarrow> string" where
  "strip_cr l = (if l \<noteq> [] \<and> last l = CHR 0x0D then butlast l else l)"

text \<open>Extraction with \<^verbatim>\<open>operator>>\<close>: leading white space is skipped; \<open>None\<close> is a stream that failed.  A number out of the range
of its type fails.  What an implementation makes of a minus sign before an unsigned number is the parameter \<open>neg\<close>.\<close>

definition get_word :: "string \<Rightarrow> (string \<times> string) option" where
  "get_word s = (let r = dropWhile isspace s; w = takeWhile (\<lambda>c. \<not> isspace c) r in
     if w = [] then None else Some (w, drop (length w) r))"

definition is_digit :: "char \<Rightarrow> bool" where
  "is_digit c \<longleftrightarrow> 48 \<le> ord c \<and> ord c \<le> 57"

definition digits_value :: "string \<Rightarrow> nat" where
  "digits_value ds = foldl (\<lambda>n c. n * 10 + (ord c - 48)) 0 ds"

definition get_digits :: "string \<Rightarrow> (nat \<times> string) option" where
  "get_digits s = (let ds = takeWhile is_digit s in
     if ds = [] then None else Some (digits_value ds, drop (length ds) s))"

definition get_u32 :: "(nat \<Rightarrow> u32 option) \<Rightarrow> string \<Rightarrow> (u32 \<times> string) option" where
  "get_u32 neg s =
     (case dropWhile isspace s of
        [] \<Rightarrow> None
      | c # r \<Rightarrow>
        if c = CHR ''-'' then do { (n, r') \<leftarrow> get_digits r; v \<leftarrow> neg n; Some (v, r') }
        else do { (n, r') \<leftarrow> get_digits (if c = CHR ''+'' then r else c # r);
                  (if n < 4294967296 then Some (of_nat n, r') else None) })"

definition get_int :: "string \<Rightarrow> (int \<times> string) option" where
  "get_int s =
     (case dropWhile isspace s of
        [] \<Rightarrow> None
      | c # r \<Rightarrow>
        if c = CHR ''-'' then do { (n, r') \<leftarrow> get_digits r; (if n \<le> 2147483648 then Some (- int n, r') else None) }
        else do { (n, r') \<leftarrow> get_digits (if c = CHR ''+'' then r else c # r);
                  (if n < 2147483648 then Some (int n, r') else None) })"

definition parse_fields :: "(nat \<Rightarrow> u32 option) \<Rightarrow> string \<Rightarrow> (string \<times> u32 \<times> int) option" where
  "parse_fields neg f = do { (name, r1) \<leftarrow> get_word f; (ssrc, r2) \<leftarrow> get_u32 neg r1; (reliable, _) \<leftarrow> get_int r2;
     (if ssrc = 0 then None else Some (name, ssrc, reliable)) }"

text \<open>The loop over the lines; the result is the number of matched lines, \<open>None\<close> where the function returns false.\<close>

fun remote_loop :: "(nat \<Rightarrow> u32 option) \<Rightarrow> string list \<Rightarrow> nat \<Rightarrow> ('k, 's) transport \<Rightarrow> nat option \<times> ('k, 's) transport" where
  "remote_loop neg [] matched t = (Some matched, t)"
| "remote_loop neg (l # ls) matched t =
     (let line = strip_cr l in
      if take 16 line \<noteq> stream_prefix then remote_loop neg ls matched t
      else case parse_fields neg (drop 16 line) of
        None \<Rightarrow> (None, t)
      | Some (name, ssrc, reliable) \<Rightarrow>
          (case map_of (dt_streams t) name of
             None \<Rightarrow> remote_loop neg ls matched t
           | Some s \<Rightarrow>
               if (reliable \<noteq> 0) \<noteq> cf_reliable (st_config s) then (None, t)
               else remote_loop neg ls (matched + 1)
                      ((put_stream name (s\<lparr>st_remote_ssrc := ssrc\<rparr>) t)
                         \<lparr>dt_by_remote_ssrc := omap_put ssrc name (dt_by_remote_ssrc t)\<rparr>)))"

definition ParseRemoteStreams :: "(nat \<Rightarrow> u32 option) \<Rightarrow> string \<Rightarrow> ('k, 's) transport \<Rightarrow> bool \<times> ('k, 's) transport" where
  "ParseRemoteStreams neg sdp t =
     (case remote_loop neg (getlines sdp) 0 (t\<lparr>dt_by_remote_ssrc := []\<rparr>) of
        (None, t1) \<Rightarrow> (False, t1)
      | (Some matched, t1) \<Rightarrow> (matched = length (dt_streams t1), t1))"

section \<open>Keys and readiness\<close>

definition SetSrtpKeys :: "'s srtp_ops \<Rightarrow> bytes \<Rightarrow> bytes \<Rightarrow> bytes \<Rightarrow> bytes \<Rightarrow> ('k, 's) transport \<Rightarrow> bool \<times> ('k, 's) transport" where
  "SetSrtpKeys S local_key local_salt remote_key remote_salt t =
     (if length local_key \<noteq> 16 \<or> length local_salt \<noteq> 12 \<or> length remote_key \<noteq> 16 \<or> length remote_salt \<noteq> 12 then (False, t)
      else case (srtp_sender S local_key local_salt, srtp_receiver S remote_key remote_salt) of
        (Some o', Some i) \<Rightarrow> (True, t\<lparr>dt_srtp_out := Some o', dt_srtp_in := Some i, dt_srtp_ready := True\<rparr>)
      | _ \<Rightarrow> (False, t))"

definition dt_SetTransportReady :: "bool \<Rightarrow> ('k, 's) transport \<Rightarrow> ('k, 's) transport" where
  "dt_SetTransportReady ready t =
     (let was = dt_transport_ready t; t1 = t\<lparr>dt_transport_ready := ready\<rparr> in
      if \<not> dt_running t1 then t1
      else dt_emit ([Pacer (SetTransportReadyPacer ready)] @ (if ready \<and> \<not> was then [Pacer EnsureStarted] else []) @
                 (if ready \<noteq> was then [Cc (OnNetworkAvailability ready)] else [])) t1)"

definition SetRelayPath :: "bool \<Rightarrow> ('k, 's) transport \<Rightarrow> ('k, 's) transport" where
  "SetRelayPath relay t =
     (let t1 = t\<lparr>dt_relay_path := (if relay then 1 else 0)\<rparr> in
      if \<not> dt_running t1 then t1 else dt_emit [Cc (SetRelayPathCc relay)] t1)"

section \<open>Sending\<close>

definition EnqueueRtp :: "int \<Rightarrow> string \<Rightarrow> bytes \<Rightarrow> ('k, 's) transport \<Rightarrow> ('k, 's) transport" where
  "EnqueueRtp now name payload t =
     (case map_of (dt_streams t) name of None \<Rightarrow> t
      | Some s \<Rightarrow>
          (case Packetize payload (NowMs now) (st_packetizer s) of None \<Rightarrow> t
           | Some (ps, k) \<Rightarrow>
               let t1 = put_stream name (s\<lparr>st_packetizer := k\<rparr>) t in
               if ps = [] then t1 else dt_emit [Pacer (EnqueueRtpPackets ps name)] t1))"

definition InitKcp :: "'k kcp_ops \<Rightarrow> string \<Rightarrow> ('k, 's) transport \<Rightarrow> ('k, 's) transport" where
  "InitKcp K name t =
     (case map_of (dt_streams t) name of None \<Rightarrow> t
      | Some s \<Rightarrow> if st_kcp s \<noteq> None then t
          else put_stream name (s\<lparr>st_kcp := map_option (\<lambda>k. ikcp_setup K k (cf_kcp_window (st_config s)) kKcpMtu)
                                              (ikcp_create K (st_conv s))\<rparr>) t)"

definition put_kcp :: "string \<Rightarrow> 'k \<Rightarrow> ('k, 's) transport \<Rightarrow> ('k, 's) transport" where
  "put_kcp name k t = (case map_of (dt_streams t) name of None \<Rightarrow> t | Some s \<Rightarrow> put_stream name (s\<lparr>st_kcp := Some k\<rparr>) t)"

text \<open>The output callback of a KCP instance, called once per segment.\<close>

definition KcpOutput :: "int \<Rightarrow> string \<Rightarrow> bytes \<Rightarrow> ('k, 's) transport \<Rightarrow> ('k, 's) transport" where
  "KcpOutput now name buf t = (if buf = [] then t else EnqueueRtp now name buf t)"

definition Send_reliable :: "'k kcp_ops \<Rightarrow> int \<Rightarrow> string \<Rightarrow> bytes \<Rightarrow> ('k, 's) transport \<Rightarrow> int \<times> ('k, 's) transport" where
  "Send_reliable K now name d t =
     (let t1 = InitKcp K name t in
      case Option.bind (map_of (dt_streams t1) name) st_kcp of
        None \<Rightarrow> (- 1, t1)
      | Some k \<Rightarrow>
          if ikcp_snd_wnd K k * 2 \<le> ikcp_waitsnd K k then (1, t1)
          else let (r, k1) = ikcp_send K k d in
            if r < 0 then (- 1, put_kcp name k1 t1)
            else let (segs, k2) = ikcp_flush K k1 in (0, fold (KcpOutput now name) segs (put_kcp name k2 t1)))"

text \<open>\<open>queue_ms\<close> is the pacer's expected queue time.\<close>

definition dt_Send :: "'k kcp_ops \<Rightarrow> int \<Rightarrow> int \<Rightarrow> string \<Rightarrow> bytes \<Rightarrow> ('k, 's) transport \<Rightarrow> int \<times> ('k, 's) transport" where
  "dt_Send K now queue_ms stream d t =
     (if \<not> dt_running t \<or> d = [] then (- 1, t)
      else if \<not> dt_transport_ready t then (- 1, t)
      else case map_of (dt_streams t) stream of
        None \<Rightarrow> (- 1, t)
      | Some s \<Rightarrow>
          if cf_reliable (st_config s) then Send_reliable K now stream d t
          else if kMaxDatagramPayload < length d then (- 1, t)
          else if kMaxPacerQueueMs < queue_ms then (1, t)
          else (0, EnqueueRtp now stream d t))"

subsection \<open>Padding\<close>

definition padding_frame :: "u32 \<Rightarrow> u32 \<Rightarrow> nat \<Rightarrow> bytes" where
  "padding_frame ts ssrc pad =
     [push_bit 6 2 OR push_bit 5 1, PT_DATA, 0, 0] @ Put32 ts @ Put32 ssrc @ replicate (pad - 1) 0 @ [of_nat pad]"

function padding_loop :: "u32 \<Rightarrow> u32 \<Rightarrow> nat \<Rightarrow> rtp_packet list \<Rightarrow> rtp_packet list" where
  "padding_loop ts ssrc remaining out =
     (if 0 < remaining \<and> length out < 16 then
        let pad = min remaining 255 in
        padding_loop ts ssrc (remaining - pad)
          (case Build (padding_frame ts ssrc pad) new_rtp_packet of Some (True, p) \<Rightarrow> out @ [p] | _ \<Rightarrow> out)
      else out)"
  by pat_completeness auto
termination
  by (relation "measure (\<lambda>(ts, ssrc, remaining, out). remaining)") auto

declare padding_loop.simps [simp del]

definition GeneratePadding :: "int \<Rightarrow> nat \<Rightarrow> ('k, 's) transport \<Rightarrow> rtp_packet list" where
  "GeneratePadding now n t =
     (case map_of (dt_streams t) (dt_padding_stream t) of None \<Rightarrow> []
      | Some s \<Rightarrow> padding_loop (NowMs now) (st_local_ssrc s) n [])"

subsection \<open>What leaves the pacer\<close>

text \<open>\<open>tracked\<close>: the packet has a transport sequence number.\<close>

definition OnSentPacket :: "int \<Rightarrow> nat \<Rightarrow> ('k, 's) transport \<Rightarrow> ('k, 's) transport" where
  "OnSentPacket now sz t =
     dt_emit [Cc (OnSentPacketCc sz now)]
       (t\<lparr>dt_sent_packets := dt_sent_packets t + 1, dt_sent_bytes := dt_sent_bytes t + of_nat sz\<rparr>)"

definition transmit :: "int \<Rightarrow> (bytes \<Rightarrow> int) \<Rightarrow> bool \<Rightarrow> bytes \<Rightarrow> ('k, 's) transport \<Rightarrow> ('k, 's) transport" where
  "transmit now ans tracked d t =
     (let t1 = (if tracked then dt_emit [FbAddPacket (length d)] t else t);
          (r, t2) = dt_SendDatagram ans d t1 in
      if r < 0 then (if tracked then dt_emit [FbRemovePacket] t2 else t2) else OnSentPacket now (length d) t2)"

definition OnPacedPacket :: "'s srtp_ops \<Rightarrow> int \<Rightarrow> (bytes \<Rightarrow> int) \<Rightarrow> bool \<Rightarrow> rtp_packet \<Rightarrow> ('k, 's) transport \<Rightarrow> ('k, 's) transport" where
  "OnPacedPacket S now ans tracked p t =
     (if \<not> dt_running t then t
      else let buf = take (rp_size p) (rp_buffer p) in
        if dt_enable_srtp t then
          (case dt_srtp_out t of None \<Rightarrow> t
           | Some s \<Rightarrow>
               (case protectRtp S s buf of
                  (None, s1) \<Rightarrow> t\<lparr>dt_srtp_out := Some s1\<rparr>
                | (Some d, s1) \<Rightarrow> transmit now ans tracked d (t\<lparr>dt_srtp_out := Some s1\<rparr>)))
        else transmit now ans tracked buf t)"

text \<open>\<^verbatim>\<open>PacedSender::SendPacket\<close>: the sequence number is assigned where the packet leaves the queue, from one counter per
SSRC that starts at 1.\<close>

definition next_seq :: "u32 \<Rightarrow> ('k, 's) transport \<Rightarrow> u16" where
  "next_seq ssrc t = (case map_of (dt_ssrc_seq t) ssrc of None \<Rightarrow> 1 | Some n \<Rightarrow> n)"

definition SendPacket :: "'s srtp_ops \<Rightarrow> int \<Rightarrow> (bytes \<Rightarrow> int) \<Rightarrow> bool \<Rightarrow> rtp_packet \<Rightarrow> ('k, 's) transport \<Rightarrow> ('k, 's) transport" where
  "SendPacket S now ans tracked p t =
     (let n = next_seq (rp_ssrc p) t in
      OnPacedPacket S now ans tracked (UpdateSequenceNumber n p)
        (t\<lparr>dt_ssrc_seq := omap_put (rp_ssrc p) (n + 1) (dt_ssrc_seq t)\<rparr>))"

subsection \<open>Updates of the congestion controller\<close>

record cc_update =
  up_congestion_window :: "nat option"
  up_pacer_config :: "(int \<times> int) option"
  up_probes :: "nat list"
  up_target_rate :: "(int \<times> int option) option"

definition UpdateCongestedState :: "nat \<Rightarrow> ('k, 's) transport \<Rightarrow> ('k, 's) transport" where
  "UpdateCongestedState outstanding t =
     (case dt_congestion_window t of None \<Rightarrow> t
      | Some w \<Rightarrow> let congested = (w \<le> outstanding); t1 = t\<lparr>dt_congested := congested\<rparr> in
          if dt_congested t \<noteq> congested then dt_emit [Pacer (SetCongested congested)] t1 else t1)"

definition PostUpdates :: "nat \<Rightarrow> cc_update \<Rightarrow> ('k, 's) transport \<Rightarrow> ('k, 's) transport" where
  "PostUpdates outstanding u t =
     (let t1 = (case up_congestion_window u of None \<Rightarrow> t
                | Some w \<Rightarrow> UpdateCongestedState outstanding (t\<lparr>dt_congestion_window := Some w\<rparr>));
          t2 = (case up_pacer_config u of None \<Rightarrow> t1
                | Some (rate, pad) \<Rightarrow> dt_emit [Pacer (SetPacingRates rate pad)] (t1\<lparr>dt_pacing_bps := rate\<rparr>));
          t3 = (if up_probes u \<noteq> [] then dt_emit [Pacer (CreateProbeClusters (up_probes u))] t2 else t2) in
      case up_target_rate u of None \<Rightarrow> t3
      | Some (rate, rtt) \<Rightarrow> t3\<lparr>dt_target_bps := rate, dt_rtt_ms := (case rtt of None \<Rightarrow> dt_rtt_ms t3 | Some r \<Rightarrow> r)\<rparr>)"

section \<open>Receiving\<close>

definition LooksLikeRtcp :: "bytes \<Rightarrow> bool" where
  "LooksLikeRtcp d \<longleftrightarrow> (if length d < 8 then False
     else if drop_bit 6 (d ! 0) AND 0x03 \<noteq> 2 then False else 192 \<le> d ! 1 \<and> d ! 1 \<le> 223)"

definition LooksLikeRtp :: "bytes \<Rightarrow> bool" where
  "LooksLikeRtp d \<longleftrightarrow> (if length d < kFixedHeaderSize then False
     else if drop_bit 6 (d ! 0) AND 0x03 \<noteq> 2 then False else d ! 1 AND 0x7F = PT_DATA \<or> d ! 1 AND 0x7F = PT_KCP)"

text \<open>The loop over the blocks of a compound packet: the feedback blocks, in order.\<close>

function rtcp_loop :: "bytes \<Rightarrow> bytes list \<Rightarrow> bytes list" where
  "rtcp_loop b acc =
     (if b = [] then acc
      else case rtcp_Parse b of
        Some (True, h) \<Rightarrow>
          (let block = rtcp_packet_size h in
           if block = 0 \<or> length b < block then acc
           else rtcp_loop (drop block b)
                  (if rh_packet_type h = kFeedbackPacketType \<and> rh_count_or_format h = kFeedbackMessageType
                   then acc @ [take (rh_payload_size h) (drop kRtcpHeaderSizeBytes b)] else acc))
      | _ \<Rightarrow> acc)"
  by pat_completeness auto
termination
  by (relation "measure (length \<circ> fst)") auto

declare rtcp_loop.simps [simp del]

text \<open>\<open>feedback\<close> tells whether a block parses and yields a message for the controller, and the data outstanding then.\<close>

definition on_feedback :: "(bytes \<Rightarrow> nat option) \<Rightarrow> bytes \<Rightarrow> ('k, 's) transport \<Rightarrow> ('k, 's) transport" where
  "on_feedback feedback f t =
     (case feedback f of None \<Rightarrow> t
      | Some outstanding \<Rightarrow> UpdateCongestedState outstanding (dt_emit [Cc (OnTransportPacketsFeedback f)] t))"

definition HandleRtcp :: "'s srtp_ops \<Rightarrow> (bytes \<Rightarrow> nat option) \<Rightarrow> bytes \<Rightarrow> ('k, 's) transport \<Rightarrow> ('k, 's) transport" where
  "HandleRtcp S feedback d t =
     (if dt_enable_srtp t then
        (case dt_srtp_in t of None \<Rightarrow> t
         | Some s \<Rightarrow>
             (case unprotectRtcp S s d of
                (None, s1) \<Rightarrow> t\<lparr>dt_srtp_in := Some s1\<rparr>
              | (Some b, s1) \<Rightarrow> fold (on_feedback feedback) (rtcp_loop b []) (t\<lparr>dt_srtp_in := Some s1\<rparr>)))
      else fold (on_feedback feedback) (rtcp_loop d []) t)"

text \<open>The loop that empties a KCP receive queue; its fuel is the number of segments KCP holds.\<close>

fun kcp_drain_loop :: "'k kcp_ops \<Rightarrow> nat \<Rightarrow> 'k \<Rightarrow> bytes list \<times> 'k" where
  "kcp_drain_loop K 0 k = ([], k)"
| "kcp_drain_loop K (Suc fuel) k =
     (let n = ikcp_peeksize K k in
      if n \<le> 0 then ([], k)
      else let (r, buf, k1) = ikcp_recv K k n in
        if r \<le> 0 then ([], k1)
        else let (ms, k2) = kcp_drain_loop K fuel k1 in (take (nat r) buf # ms, k2))"

definition DrainKcp :: "'k kcp_ops \<Rightarrow> string \<Rightarrow> ('k, 's) transport \<Rightarrow> ('k, 's) transport" where
  "DrainKcp K name t =
     (case Option.bind (map_of (dt_streams t) name) st_kcp of None \<Rightarrow> t
      | Some k \<Rightarrow> let (ms, k1) = kcp_drain_loop K (ikcp_backlog K k) k in dt_emit (map (Deliver name) ms) (put_kcp name k1 t))"

definition receive_reliable :: "'k kcp_ops \<Rightarrow> int \<Rightarrow> string \<Rightarrow> bytes \<Rightarrow> ('k, 's) transport \<Rightarrow> ('k, 's) transport" where
  "receive_reliable K now name payload t =
     (let t1 = InitKcp K name t in
      case Option.bind (map_of (dt_streams t1) name) st_kcp of None \<Rightarrow> t1
      | Some k \<Rightarrow>
          let (r, k1) = ikcp_input K k payload in
          if r < 0 then put_kcp name k1 t1
          else let (segs, k2) = ikcp_update K k1 (NowMs now) in
            DrainKcp K name (fold (KcpOutput now name) segs (put_kcp name k2 t1)))"

definition receive_packet :: "'k kcp_ops \<Rightarrow> int \<Rightarrow> nat \<Rightarrow> bytes \<Rightarrow> ('k, 's) transport \<Rightarrow> ('k, 's) transport" where
  "receive_packet K now sz buf t =
     (case Build buf new_rtp_packet of
        Some (True, p) \<Rightarrow>
          (let t1 = t\<lparr>dt_recv_packets := dt_recv_packets t + 1, dt_recv_bytes := dt_recv_bytes t + of_nat sz\<rparr> in
           case map_of (dt_by_remote_ssrc t1) (rp_ssrc p) of None \<Rightarrow> t1
           | Some name \<Rightarrow>
               let t2 = dt_emit [FbGenReceived p] t1 in
               if rp_payload_size p = 0 then t2
               else (case map_of (dt_streams t2) name of None \<Rightarrow> t2
                     | Some s \<Rightarrow> if cf_reliable (st_config s) then receive_reliable K now name (Payload p) t2
                                 else dt_emit [Deliver name (Payload p)] t2))
      | _ \<Rightarrow> t)"

definition HandleRtp :: "'k kcp_ops \<Rightarrow> 's srtp_ops \<Rightarrow> int \<Rightarrow> bytes \<Rightarrow> ('k, 's) transport \<Rightarrow> ('k, 's) transport" where
  "HandleRtp K S now d t =
     (if dt_enable_srtp t then
        (case dt_srtp_in t of None \<Rightarrow> t
         | Some s \<Rightarrow>
             (case unprotectRtp S s d of
                (None, s1) \<Rightarrow> t\<lparr>dt_srtp_in := Some s1\<rparr>
              | (Some b, s1) \<Rightarrow> receive_packet K now (length d) b (t\<lparr>dt_srtp_in := Some s1\<rparr>)))
      else receive_packet K now (length d) d t)"

definition OnDatagram ::
  "'k kcp_ops \<Rightarrow> 's srtp_ops \<Rightarrow> (bytes \<Rightarrow> nat option) \<Rightarrow> int \<Rightarrow> bytes \<Rightarrow> ('k, 's) transport \<Rightarrow> ('k, 's) transport" where
  "OnDatagram K S feedback now d t =
     (if \<not> dt_running t then t
      else if LooksLikeRtcp d then HandleRtcp S feedback d t
      else if LooksLikeRtp d then HandleRtp K S now d t else t)"

text \<open>The flush function of \<^verbatim>\<open>SendRtcp\<close>; \<open>chunks\<close> are the buffers the packet writers fill.\<close>

definition rtcp_flush :: "'s srtp_ops \<Rightarrow> (bytes \<Rightarrow> int) \<Rightarrow> bytes \<Rightarrow> ('k, 's) transport \<Rightarrow> ('k, 's) transport" where
  "rtcp_flush S ans d t =
     (if d = [] then t
      else if dt_enable_srtp t then
        (case dt_srtp_out t of None \<Rightarrow> t
         | Some s \<Rightarrow>
             (case protectRtcp S s d of
                (None, s1) \<Rightarrow> t\<lparr>dt_srtp_out := Some s1\<rparr>
              | (Some e, s1) \<Rightarrow> snd (dt_SendDatagram ans e (t\<lparr>dt_srtp_out := Some s1\<rparr>))))
      else snd (dt_SendDatagram ans d t))"

definition SendRtcp :: "'s srtp_ops \<Rightarrow> (bytes \<Rightarrow> int) \<Rightarrow> bytes list \<Rightarrow> ('k, 's) transport \<Rightarrow> ('k, 's) transport" where
  "SendRtcp S ans chunks t = fold (rtcp_flush S ans) chunks t"

section \<open>The periodic tick and the statistics\<close>

definition process_stream :: "'k kcp_ops \<Rightarrow> int \<Rightarrow> string \<Rightarrow> ('k, 's) transport \<Rightarrow> ('k, 's) transport" where
  "process_stream K now name t =
     (case Option.bind (map_of (dt_streams t) name) st_kcp of None \<Rightarrow> t
      | Some k \<Rightarrow>
          let (segs, k1) = ikcp_update K k (NowMs now);
              t1 = fold (KcpOutput now name) segs (put_kcp name k1 t) in
          if 0 < ikcp_peeksize K k1 then DrainKcp K name t1 else t1)"

definition dt_Process :: "'k kcp_ops \<Rightarrow> int \<Rightarrow> ('k, 's) transport \<Rightarrow> bool \<times> ('k, 's) transport" where
  "dt_Process K now t =
     (if \<not> dt_running t then (False, t)
      else let t1 = fold (process_stream K now) (map fst (dt_streams t)) t;
               t2 = dt_emit [FbGenProcess] t1;
               t3 = t2\<lparr>dt_tick := dt_tick t2 + 1\<rparr> in
        (True, if dt_tick t3 mod kProcessIntervalTicks = 0 then dt_emit [Cc OnProcessInterval] t3 else t3))"

record link_estimate =
  le_bwe_bps :: int
  le_pacing_bps :: int
  le_rtt_ms :: int
  le_srtp_active :: bool
  le_path :: MiniRtcPath

definition Estimate :: "('k, 's) transport \<Rightarrow> link_estimate" where
  "Estimate t = \<lparr>le_bwe_bps = dt_target_bps t, le_pacing_bps = dt_pacing_bps t, le_rtt_ms = dt_rtt_ms t,
     le_srtp_active = dt_srtp_ready t,
     le_path = (if dt_relay_path t < 0 then PathUnknown else if dt_relay_path t = 1 then PathTurn else PathP2P)\<rparr>"

record net_stats =
  ns_send_bitrate_bps :: u32
  ns_recv_bitrate_bps :: u32
  ns_sent_packets :: u64
  ns_recv_packets :: u64
  ns_sent_bytes :: u64
  ns_recv_bytes :: u64
  ns_link :: link_estimate

definition TakeStats :: "int \<Rightarrow> ('k, 's) transport \<Rightarrow> net_stats \<times> ('k, 's) transport" where
  "TakeStats now t =
     (let dt = max 1 (now - dt_last_stats_ms t); sb = dt_sent_bytes t; rb = dt_recv_bytes t in
      (\<lparr>ns_send_bitrate_bps = ucast ((sb - dt_last_sent_bytes t) * 8000 div of_int dt),
        ns_recv_bitrate_bps = ucast ((rb - dt_last_recv_bytes t) * 8000 div of_int dt),
        ns_sent_packets = dt_sent_packets t, ns_recv_packets = dt_recv_packets t, ns_sent_bytes = sb, ns_recv_bytes = rb,
        ns_link = Estimate t\<rparr>,
       t\<lparr>dt_last_sent_bytes := sb, dt_last_recv_bytes := rb, dt_last_stats_ms := now\<rparr>))"

end
