(* ===== verification/Data_Transport_Props.thy ===== *)
theory Data_Transport_Props
  imports Data_Transport
begin

text \<open>
  What the data transport does: the negotiation of its streams, an invariant of every state it can reach, protection of all it
  sends, and the way of one datagram from \<^verbatim>\<open>Send\<close> on one side to \<^verbatim>\<open>on_data\<close> on the other.
\<close>

section \<open>Numbers and words of a line\<close>

lemma dec_step: "10 \<le> n \<Longrightarrow> dec n = dec (n div 10) @ [char_of (48 + n mod 10)]"
  by (subst dec.simps) simp

lemma dec_digit: "n < 10 \<Longrightarrow> dec n = [char_of (48 + n)]"
  by (subst dec.simps) simp

lemma ord_digit: "n < 10 \<Longrightarrow> of_char (char_of (48 + n) :: char) = (48 + n :: nat)"
  by (simp add: of_char_of)

lemma dec_all_digits: "dec n \<noteq> [] \<and> (\<forall>c \<in> set (dec n). is_digit c)"
proof (induction n rule: dec.induct)
  case (1 n)
  show ?case
  proof (cases "n < 10")
    case True
    then show ?thesis by (simp add: dec_digit is_digit_def ord_digit)
  next
    case False
    with 1 ord_digit [of "n mod 10"] show ?thesis by (auto simp: dec_step is_digit_def)
  qed
qed

lemma digits_value_dec: "digits_value (dec n) = n"
proof (induction n rule: dec.induct)
  case (1 n)
  show ?case
  proof (cases "n < 10")
    case True
    then show ?thesis by (simp add: dec_digit digits_value_def ord_digit)
  next
    case False
    with 1 have "digits_value (dec (n div 10)) = n div 10" by simp
    with False ord_digit [of "n mod 10"] show ?thesis by (simp add: dec_step digits_value_def)
  qed
qed

lemma get_digits_dec:
  assumes "rest = [] \<or> \<not> is_digit (hd rest)"
  shows "get_digits (dec n @ rest) = Some (n, rest)"
proof -
  have "takeWhile is_digit (dec n @ rest) = dec n"
    using assms dec_all_digits [of n] by (cases rest) (auto simp: takeWhile_append)
  then show ?thesis using dec_all_digits [of n] by (simp add: get_digits_def digits_value_dec)
qed

lemma digit_not_special: "is_digit c \<Longrightarrow> \<not> isspace c \<and> c \<noteq> CHR ''-'' \<and> c \<noteq> CHR ''+''"
  by (auto simp: is_digit_def isspace_def)

lemma space_facts: "isspace CHR '' ''" "\<not> is_digit CHR '' ''"
  by (simp_all add: isspace_def is_digit_def)

lemma get_u32_dec:
  assumes "rest = [] \<or> \<not> is_digit (hd rest)"
  shows "get_u32 neg ('' '' @ dec (unat v) @ rest) = Some (v, rest)"
proof -
  obtain c r where c: "dec (unat v) = c # r" "is_digit c" using dec_all_digits [of "unat v"] by (cases "dec (unat v)") auto
  then have "dropWhile isspace ('' '' @ dec (unat v) @ rest) = c # r @ rest"
    using digit_not_special [of c] by (simp add: space_facts)
  moreover have "get_digits (c # r @ rest) = Some (unat v, rest)"
    using get_digits_dec [OF assms, of "unat v"] c by simp
  ultimately show ?thesis using digit_not_special [OF c(2)] by (simp add: get_u32_def)
qed

definition word_like :: "string \<Rightarrow> bool" where
  "word_like w \<longleftrightarrow> w \<noteq> [] \<and> (\<forall>c \<in> set w. \<not> isspace c)"

lemma get_word_append:
  assumes "word_like w"
  shows "get_word (w @ CHR '' '' # rest) = Some (w, CHR '' '' # rest)"
proof -
  have "dropWhile isspace (w @ CHR '' '' # rest) = w @ CHR '' '' # rest" using assms by (cases w) (auto simp: word_like_def)
  moreover have "takeWhile (\<lambda>c. \<not> isspace c) (w @ CHR '' '' # rest) = w"
    using assms by (auto simp: word_like_def takeWhile_append space_facts)
  ultimately show ?thesis using assms by (simp add: get_word_def word_like_def)
qed

lemma get_int_flag: "get_int ('' '' @ (if b then ''1'' else ''0'')) = Some (if b then 1 else 0, [])"
  by (simp add: get_int_def space_facts get_digits_def is_digit_def isspace_def digits_value_def)

lemma parse_fields_line:
  assumes "word_like name" "v \<noteq> 0"
  shows "parse_fields neg (name @ '' '' @ dec (unat v) @ '' '' @ (if b then ''1'' else ''0'')) =
     Some (name, v, if b then 1 else 0)"
  using assms get_int_flag [of b] get_u32_dec [of "'' '' @ (if b then ''1'' else ''0'')" neg v]
  by (simp add: parse_fields_def get_word_append space_facts)

section \<open>Lines of a text\<close>

lemma split_on_line: "s \<notin> set l \<Longrightarrow> split_on s (l @ s # r) = l # split_on s r"
  by (subst split_on.simps) (simp add: takeWhile_append dropWhile_append Let_def)

lemma split_on_lines: "\<forall>l \<in> set ls. s \<notin> set l \<Longrightarrow> split_on s (concat (map (\<lambda>l. l @ [s]) ls)) = ls @ [[]]"
  by (induction ls) (simp_all add: split_on_line)

lemma getlines_crlf:
  assumes "\<forall>l \<in> set ls. CHR 0x0A \<notin> set l"
  shows "map strip_cr (getlines (concat (map (\<lambda>l. l @ crlf) ls))) = ls"
proof -
  let ?nl = "CHR 0x0A" and ?cr = "CHR 0x0D"
  have "(\<lambda>l. l @ crlf) = (\<lambda>l. (l @ [?cr]) @ [?nl])" by (simp add: crlf_def fun_eq_iff)
  moreover have "split_on ?nl (concat (map (\<lambda>l. (l @ [?cr]) @ [?nl]) ls)) = map (\<lambda>l. l @ [?cr]) ls @ [[]]"
    using split_on_lines [of "map (\<lambda>l. l @ [?cr]) ls" ?nl] assms by (simp add: comp_def)
  ultimately show ?thesis
    by (simp add: getlines_def Let_def strip_cr_def comp_def map_idI del: append_assoc)
qed

section \<open>Ordered maps of streams\<close>

lemma omap_put_same:
  "sorted_wrt (<) (map fst m) \<Longrightarrow> map_of m k = Some v0 \<Longrightarrow> g v = g v0 \<Longrightarrow>
   map (\<lambda>(a, b). (a, g b)) (omap_put k v m) = map (\<lambda>(a, b). (a, g b)) m"
proof (induction k v m rule: omap_put.induct)
  case (2 k v a b m)
  then show ?case using map_of_SomeD [of m k v0] by (force split: if_splits)
qed simp

text \<open>The names of the streams with their reliability.\<close>

definition signature :: "('k, 's) transport \<Rightarrow> (string \<times> bool) list" where
  "signature t = map (\<lambda>(n, s). (n, cf_reliable (st_config s))) (dt_streams t)"

definition streams_ok :: "('k, 's) transport \<Rightarrow> bool" where
  "streams_ok t \<longleftrightarrow> sorted_wrt (<) (map fst (dt_streams t))"

lemma map_of_signature: "map_of (signature t) n = map_option (\<lambda>s. cf_reliable (st_config s)) (map_of (dt_streams t) n)"
  by (simp add: signature_def map_of_map)

lemma put_stream_frame [simp]:
  "dt_by_remote_ssrc (put_stream n s t) = dt_by_remote_ssrc t" "dt_log (put_stream n s t) = dt_log t"
  "map_of (dt_streams (put_stream n s t)) = (map_of (dt_streams t))(n \<mapsto> s)"
  by (simp_all add: put_stream_def map_of_omap_put)

lemma put_stream_ok: "streams_ok t \<Longrightarrow> streams_ok (put_stream n s t)"
  by (simp add: streams_ok_def put_stream_def sorted_omap_put)

lemma put_stream_signature:
  "streams_ok t \<Longrightarrow> map_of (dt_streams t) n = Some s0 \<Longrightarrow> cf_reliable (st_config s) = cf_reliable (st_config s0) \<Longrightarrow>
   signature (put_stream n s t) = signature t"
  unfolding signature_def put_stream_def streams_ok_def
  using omap_put_same [of "dt_streams t" n s0 "\<lambda>s. cf_reliable (st_config s)" s] by simp


section \<open>Negotiation\<close>

text \<open>What the receiver makes of the peer's streams: every SSRC leads to the stream of the same name.\<close>

definition line_body :: "string \<Rightarrow> 'k dstream \<Rightarrow> string" where
  "line_body name s = stream_prefix @ name @ '' '' @ dec (unat (st_local_ssrc s)) @ '' '' @
     (if cf_reliable (st_config s) then ''1'' else ''0'')"

lemma stream_line_body: "stream_line name s = line_body name s @ crlf"
  by (simp add: stream_line_def line_body_def)

lemma length_stream_prefix: "length stream_prefix = 16"
  by (simp add: stream_prefix_def)

lemma remote_loop_skip:
  "\<forall>l \<in> set ls. take 16 (strip_cr l) \<noteq> stream_prefix \<Longrightarrow> remote_loop neg (ls @ ls') m t = remote_loop neg ls' m t"
  by (induction ls) (simp_all add: Let_def)

lemma remote_loop_streams:
  assumes "map strip_cr ls = map (\<lambda>(n, s). line_body n s) xs"
    and "\<forall>(n, s) \<in> set xs. word_like n \<and> st_local_ssrc s \<noteq> 0 \<and> map_of (signature t) n = Some (cf_reliable (st_config s))"
    and "streams_ok t" "distinct (map (st_local_ssrc \<circ> snd) xs)"
  shows "\<exists>t'. remote_loop neg ls m t = (Some (m + length xs), t') \<and> streams_ok t' \<and> signature t' = signature t \<and>
     map_of (dt_by_remote_ssrc t') = map_of (dt_by_remote_ssrc t) ++ map_of (map (\<lambda>(n, s). (st_local_ssrc s, n)) xs)"
  using assms
proof (induction xs arbitrary: ls m t)
  case (Cons x xs)
  obtain n s where x: "x = (n, s)" by (cases x)
  obtain l ls' where ls: "ls = l # ls'" "strip_cr l = line_body n s" "map strip_cr ls' = map (\<lambda>(n, s). line_body n s) xs"
    using Cons.prems(1) x by (cases ls) auto
  have w: "word_like n" "st_local_ssrc s \<noteq> 0" "map_of (signature t) n = Some (cf_reliable (st_config s))"
    using Cons.prems(2) x by auto
  then obtain s0 where s0: "map_of (dt_streams t) n = Some s0" "cf_reliable (st_config s0) = cf_reliable (st_config s)"
    by (auto simp: map_of_signature)
  define t1 where "t1 = (put_stream n (s0\<lparr>st_remote_ssrc := st_local_ssrc s\<rparr>) t)
     \<lparr>dt_by_remote_ssrc := omap_put (st_local_ssrc s) n (dt_by_remote_ssrc t)\<rparr>"
  have st1: "streams_ok t1" "signature t1 = signature t"
    using put_stream_ok [OF Cons.prems(3)] put_stream_signature [OF Cons.prems(3) s0(1)]
    by (simp_all add: t1_def streams_ok_def signature_def)
  have b1: "map_of (dt_by_remote_ssrc t1) = (map_of (dt_by_remote_ssrc t))(st_local_ssrc s \<mapsto> n)"
    by (simp add: t1_def map_of_omap_put)
  have body: "take 16 (line_body n s) = stream_prefix"
    "drop 16 (line_body n s) = n @ '' '' @ dec (unat (st_local_ssrc s)) @ '' '' @ (if cf_reliable (st_config s) then ''1'' else ''0'')"
    by (simp_all add: line_body_def length_stream_prefix)
  have step: "remote_loop neg ls m t = remote_loop neg ls' (m + 1) t1"
    unfolding ls(1) remote_loop.simps Let_def ls(2) body parse_fields_line [OF w(1,2)]
    using s0 by (simp add: t1_def)
  have "\<forall>(n, s) \<in> set xs. word_like n \<and> st_local_ssrc s \<noteq> 0 \<and> map_of (signature t1) n = Some (cf_reliable (st_config s))"
    using Cons.prems(2) st1(2) by auto
  from Cons.IH [OF ls(3) this st1(1), of "m + 1"] Cons.prems(4) obtain t' where
    t': "remote_loop neg ls' (m + 1) t1 = (Some (m + 1 + length xs), t')" "streams_ok t'" "signature t' = signature t1"
      "map_of (dt_by_remote_ssrc t') = map_of (dt_by_remote_ssrc t1) ++ map_of (map (\<lambda>(n, s). (st_local_ssrc s, n)) xs)"
    by auto
  have "st_local_ssrc s \<notin> dom (map_of (map (\<lambda>(n, s). (st_local_ssrc s, n)) xs))"
    using Cons.prems(4) x by (auto simp: dom_map_of_conv_image_fst image_iff split_def)
  then have "(map_of (dt_by_remote_ssrc t))(st_local_ssrc s \<mapsto> n) ++ map_of (map (\<lambda>(n, s). (st_local_ssrc s, n)) xs) =
     map_of (dt_by_remote_ssrc t) ++ map_of (map (\<lambda>(n, s). (st_local_ssrc s, n)) (x # xs))"
    using x by (auto simp: fun_eq_iff map_add_def split: option.splits)
  then have "map_of (dt_by_remote_ssrc t') =
     map_of (dt_by_remote_ssrc t) ++ map_of (map (\<lambda>(n, s). (st_local_ssrc s, n)) (x # xs))"
    unfolding t'(4) b1 .
  moreover have "remote_loop neg ls m t = (Some (m + length (x # xs)), t')" using step t'(1) by simp
  ultimately show ?case using t'(2,3) st1(2) by metis
qed simp


lemma getlines_append_lines:
  assumes "\<forall>l \<in> set ls. CHR 0x0A \<notin> set l"
  obtains raw where "getlines (concat (map (\<lambda>l. l @ crlf) ls)) = raw" "map strip_cr raw = ls"
  using getlines_crlf [OF assms] by blast

lemma word_like_no_newline: "word_like w \<Longrightarrow> CHR 0x0A \<notin> set w"
  by (auto simp: word_like_def isspace_def)

lemma dec_no_newline: "CHR 0x0A \<notin> set (dec n)"
  using dec_all_digits [of n] by (auto simp: is_digit_def)

lemma line_body_no_newline: "word_like n \<Longrightarrow> CHR 0x0A \<notin> set (line_body n s)"
  using word_like_no_newline [of n] dec_no_newline [of "unat (st_local_ssrc s)"]
  by (auto simp: line_body_def stream_prefix_def)

text \<open>Two transports whose streams agree, as two peers running the same version have them.\<close>

definition streams_match :: "('k, 's) transport \<Rightarrow> ('l, 'r) transport \<Rightarrow> bool" where
  "streams_match a b \<longleftrightarrow> signature a = signature b \<and> streams_ok a \<and> streams_ok b \<and>
     list_all (\<lambda>(n, s). word_like n \<and> st_local_ssrc s \<noteq> 0) (dt_streams a) \<and>
     distinct (map (st_local_ssrc \<circ> snd) (dt_streams a))"

definition plain_line :: "string \<Rightarrow> bool" where
  "plain_line l \<longleftrightarrow> CHR 0x0A \<notin> set l \<and> take 16 l \<noteq> stream_prefix"

lemma streams_negotiate:
  assumes m: "streams_match a b" and pre: "list_all plain_line ls"
  shows "\<exists>b'. ParseRemoteStreams neg (concat (map (\<lambda>l. l @ crlf) ls) @ LocalStreamSdpLines a) b = (True, b') \<and>
     signature b' = signature b \<and> streams_ok b' \<and>
     map_of (dt_by_remote_ssrc b') = map_of (map (\<lambda>(n, s). (st_local_ssrc s, n)) (dt_streams a))"
proof -
  let ?xs = "dt_streams a" and ?b = "b\<lparr>dt_by_remote_ssrc := []\<rparr>"
  let ?bodies = "map (\<lambda>(n, s). line_body n s) ?xs"
  have w: "\<forall>(n, s) \<in> set ?xs. word_like n \<and> st_local_ssrc s \<noteq> 0"
    using m by (auto simp: streams_match_def list_all_iff)
  have lines: "concat (map (\<lambda>l. l @ crlf) ls) @ LocalStreamSdpLines a = concat (map (\<lambda>l. l @ crlf) (ls @ ?bodies))"
    by (simp add: LocalStreamSdpLines_def stream_line_body comp_def split_def)
  have "\<forall>l \<in> set (ls @ ?bodies). CHR 0x0A \<notin> set l"
    using pre w line_body_no_newline by (fastforce simp: list_all_iff plain_line_def)
  from getlines_append_lines [OF this] obtain raw where
    raw: "getlines (concat (map (\<lambda>l. l @ crlf) (ls @ ?bodies))) = raw" "map strip_cr raw = ls @ ?bodies" .
  then obtain r1 r2 where r: "raw = r1 @ r2" "map strip_cr r1 = ls" "map strip_cr r2 = ?bodies"
    by (auto simp: map_eq_append_conv)
  have skip: "\<forall>l \<in> set r1. take 16 (strip_cr l) \<noteq> stream_prefix"
    using pre r(2) by (auto simp: list_all_iff plain_line_def)
  have sig: "\<forall>(n, s) \<in> set ?xs. map_of (signature ?b) n = Some (cf_reliable (st_config s))"
  proof -
    have "distinct (map fst ?xs)" using m by (auto simp: streams_match_def streams_ok_def strict_sorted_iff)
    then have "\<forall>(n, s) \<in> set ?xs. map_of (signature a) n = Some (cf_reliable (st_config s))"
      by (auto simp: map_of_signature)
    moreover have "signature ?b = signature a" using m by (simp add: streams_match_def signature_def)
    ultimately show ?thesis by simp
  qed
  have ok: "streams_ok ?b" using m by (simp add: streams_match_def streams_ok_def)
  have d: "distinct (map (st_local_ssrc \<circ> snd) ?xs)" using m by (simp add: streams_match_def)
  from remote_loop_streams [OF r(3) _ ok d, of neg 0] w sig obtain b' where
    b': "remote_loop neg r2 0 ?b = (Some (length ?xs), b')" "streams_ok b'" "signature b' = signature ?b"
      "map_of (dt_by_remote_ssrc b') = map_of (dt_by_remote_ssrc ?b) ++ map_of (map (\<lambda>(n, s). (st_local_ssrc s, n)) ?xs)"
    by fastforce
  have "length (signature b') = length (signature a)" using b'(3) m by (simp add: streams_match_def signature_def)
  then have "length (dt_streams b') = length ?xs" by (simp add: signature_def)
  with b' show ?thesis
    unfolding ParseRemoteStreams_def lines raw(1) r(1) remote_loop_skip [OF skip] by (simp add: signature_def)
qed

section \<open>An invariant of the transport\<close>

definition stream_fits :: "'k dstream \<Rightarrow> bool" where
  "stream_fits s \<longleftrightarrow> pk_ssrc (st_packetizer s) = st_local_ssrc s \<and> pk_abs_send_time_ext_id (st_packetizer s) = None \<and>
     pk_payload_type (st_packetizer s) = (if cf_reliable (st_config s) then 121 else 120)"

definition transport_wf :: "('k, 's) transport \<Rightarrow> bool" where
  "transport_wf t \<longleftrightarrow> streams_ok t \<and> (\<forall>n s. map_of (dt_streams t) n = Some s \<longrightarrow> stream_fits s) \<and>
     (\<forall>x n. map_of (dt_by_remote_ssrc t) x = Some n \<longrightarrow> map_of (dt_streams t) n \<noteq> None) \<and>
     (dt_srtp_ready t \<longleftrightarrow> dt_srtp_in t \<noteq> None) \<and> (dt_srtp_ready t \<longleftrightarrow> dt_srtp_out t \<noteq> None)"

definition silent :: "effect list \<Rightarrow> bool" where
  "silent es \<longleftrightarrow> list_all (\<lambda>e. case e of Wire _ \<Rightarrow> False | _ \<Rightarrow> True) es"

lemma silent_simps [simp]:
  "silent []" "silent (e # es) \<longleftrightarrow> (case e of Wire _ \<Rightarrow> False | _ \<Rightarrow> True) \<and> silent es" "silent (as @ bs) \<longleftrightarrow> silent as \<and> silent bs"
  by (simp_all add: silent_def)

lemma silent_Deliver [simp]: "silent (map (Deliver n) ms)"
  by (induction ms) simp_all

text \<open>A relation between the states before and after that composes: what every step of a loop satisfies the loop satisfies.\<close>

locale run_relation =
  fixes R :: "'a \<Rightarrow> 'a \<Rightarrow> bool"
  assumes run_refl: "R t t"
    and run_trans: "R t u \<Longrightarrow> R u v \<Longrightarrow> R t v"
begin

lemma run_fold: "(\<And>x u. R u (f x u)) \<Longrightarrow> R t (fold f xs t)"
  by (induction xs arbitrary: t) (auto intro: run_refl run_trans)

end

text \<open>An operation that keeps the invariant and the state of the path and puts nothing on the wire.\<close>

definition keeps :: "('k, 's) transport \<Rightarrow> ('k, 's) transport \<Rightarrow> bool" where
  "keeps t u \<longleftrightarrow> (transport_wf t \<longrightarrow> transport_wf u) \<and> dt_enable_srtp u = dt_enable_srtp t \<and> dt_running u = dt_running t \<and>
     dt_transport_ready u = dt_transport_ready t \<and> dt_srtp_ready u = dt_srtp_ready t \<and>
     (\<exists>es. dt_log u = dt_log t @ es \<and> silent es)"

lemma keeps_refl [simp, intro]: "keeps t t"
  by (simp add: keeps_def)

lemma keeps_trans: "keeps t u \<Longrightarrow> keeps u v \<Longrightarrow> keeps t v"
  by (auto simp: keeps_def)

interpretation kept: run_relation keeps
  by unfold_locales (auto intro: keeps_trans)

lemma wf_emit [simp]: "transport_wf (dt_emit es t) = transport_wf t"
  by (simp add: transport_wf_def dt_emit_def streams_ok_def)

lemma keeps_emit [simp]: "silent es \<Longrightarrow> keeps t (dt_emit es t)"
  by (simp add: keeps_def) (simp add: dt_emit_def)

lemma keeps_frame:
  assumes "dt_streams u = dt_streams t" "dt_by_remote_ssrc u = dt_by_remote_ssrc t" "dt_srtp_ready u = dt_srtp_ready t"
    "(dt_srtp_in u = None) = (dt_srtp_in t = None)" "(dt_srtp_out u = None) = (dt_srtp_out t = None)"
    "dt_enable_srtp u = dt_enable_srtp t" "dt_running u = dt_running t"
    "dt_transport_ready u = dt_transport_ready t" "dt_log u = dt_log t"
  shows "keeps t u"
  using assms by (auto simp: keeps_def transport_wf_def streams_ok_def)

lemma keeps_put:
  assumes "map_of (dt_streams t) n = Some s0" "stream_fits s0 \<Longrightarrow> stream_fits s"
  shows "keeps t (put_stream n s t)"
proof -
  have "transport_wf (put_stream n s t)" if "transport_wf t"
    using that assms put_stream_ok [of t n s]
    by (auto simp: transport_wf_def) (simp_all add: put_stream_def)
  then show ?thesis by (simp add: keeps_def) (simp add: put_stream_def)
qed

lemma Packetize_keeps_fields:
  assumes "Packetize payload ts k = Some (ps, k')"
  shows "pk_ssrc k' = pk_ssrc k \<and> pk_payload_type k' = pk_payload_type k \<and>
     pk_abs_send_time_ext_id k' = pk_abs_send_time_ext_id k"
proof -
  have "packet_loop payload ts l left num k = Some (ps, k') \<Longrightarrow>
    pk_ssrc k' = pk_ssrc k \<and> pk_payload_type k' = pk_payload_type k \<and>
     pk_abs_send_time_ext_id k' = pk_abs_send_time_ext_id k" for l left num
  proof (induction left arbitrary: k ps)
    case (Suc left)
    then show ?case by (fastforce simp: Let_def bind_eq_Some_conv)
  qed simp
  with assms show ?thesis unfolding Packetize_def Let_def by blast
qed

lemma keeps_EnqueueRtp [simp]: "keeps t (EnqueueRtp now name payload t)"
proof (cases "map_of (dt_streams t) name")
  case (Some s)
  show ?thesis
  proof (cases "Packetize payload (NowMs now) (st_packetizer s)")
    case None
    with Some show ?thesis by (simp add: EnqueueRtp_def)
  next
    case (Some r)
    obtain ps k where r: "r = (ps, k)" by (cases r)
    have k: "keeps t (put_stream name (s\<lparr>st_packetizer := k\<rparr>) t)"
      using Packetize_keeps_fields [of payload "NowMs now" "st_packetizer s" ps k] Some r
      by (intro keeps_put [OF \<open>map_of (dt_streams t) name = Some s\<close>]) (simp add: stream_fits_def)
    with Some r \<open>map_of (dt_streams t) name = Some s\<close> keeps_trans [OF k keeps_emit] show ?thesis
      by (simp add: EnqueueRtp_def Let_def)
  qed
qed (simp add: EnqueueRtp_def)

lemma keeps_put_kcp [simp]: "keeps t (put_kcp name k t)"
  by (auto simp: put_kcp_def stream_fits_def intro: keeps_put split: option.split)

lemma keeps_InitKcp [simp]: "keeps t (InitKcp K name t)"
  by (auto simp: InitKcp_def stream_fits_def intro: keeps_put split: option.split)

lemma keeps_KcpOutput [simp]: "keeps t (KcpOutput now name buf t)"
  by (simp add: KcpOutput_def)

lemma keeps_outputs: "keeps t u \<Longrightarrow> keeps t (fold (KcpOutput now name) segs u)"
  by (rule keeps_trans, assumption, rule kept.run_fold) simp

lemma keeps_then_put: "keeps t u \<Longrightarrow> keeps t (put_kcp name k u)"
  by (rule keeps_trans, assumption) simp

lemmas keeps_intros = keeps_outputs keeps_then_put keeps_InitKcp

lemma keeps_Send_reliable [simp]: "keeps t (snd (Send_reliable K now name d t))"
  by (auto simp: Send_reliable_def Let_def split: option.split prod.split intro!: keeps_intros)

lemma keeps_Send [simp]: "keeps t (snd (dt_Send K now queue_ms stream d t))"
  by (auto simp: dt_Send_def split: option.split)

lemma keeps_DrainKcp [simp]: "keeps t (DrainKcp K name t)"
  by (auto simp: DrainKcp_def Let_def split: option.split prod.split
      intro: keeps_trans [OF keeps_put_kcp keeps_emit])

lemma keeps_then_Drain: "keeps t u \<Longrightarrow> keeps t (DrainKcp K name u)"
  by (rule keeps_trans, assumption) simp

lemma keeps_receive_reliable [simp]: "keeps t (receive_reliable K now name payload t)"
  by (auto simp: receive_reliable_def Let_def split: option.split prod.split intro!: keeps_intros keeps_then_Drain)

lemma keeps_process_stream [simp]: "keeps t (process_stream K now name t)"
  by (auto simp: process_stream_def Let_def split: option.split prod.split intro!: keeps_intros keeps_then_Drain)

lemma keeps_receive_packet [simp]: "keeps t (receive_packet K now sz buf t)"
proof -
  define t1 where "t1 = t\<lparr>dt_recv_packets := dt_recv_packets t + 1, dt_recv_bytes := dt_recv_bytes t + of_nat sz\<rparr>"
  have a: "keeps t t1" unfolding t1_def by (rule keeps_frame) simp_all
  have b: "keeps t (dt_emit [FbGenReceived p] t1)" for p by (rule keeps_trans [OF a]) simp
  show ?thesis
    unfolding receive_packet_def t1_def [symmetric] Let_def
    by (auto intro: a b keeps_trans [OF b keeps_emit] keeps_trans [OF b keeps_receive_reliable] split: option.split bool.split)
qed

lemma keeps_UpdateCongestedState [simp]: "keeps t (UpdateCongestedState n t)"
proof -
  have a: "keeps t (t\<lparr>dt_congested := c\<rparr>)" for c by (rule keeps_frame) simp_all
  show ?thesis by (auto simp: UpdateCongestedState_def Let_def intro: a keeps_trans [OF a keeps_emit] split: option.split)
qed

lemma keeps_on_feedback [simp]: "keeps t (on_feedback fb f t)"
  by (auto simp: on_feedback_def intro: keeps_trans [OF keeps_emit keeps_UpdateCongestedState] split: option.split)

lemma keeps_HandleRtp [simp]: "keeps t (HandleRtp K S now d t)"
proof -
  have a: "keeps t (t\<lparr>dt_srtp_in := Some s1\<rparr>)" if "dt_srtp_in t = Some s" for s s1
    using that by (intro keeps_frame) simp_all
  show ?thesis
    by (auto simp: HandleRtp_def split: option.split prod.split intro: a keeps_trans [OF a keeps_receive_packet])
qed

lemma keeps_HandleRtcp [simp]: "keeps t (HandleRtcp S fb d t)"
proof -
  have a: "keeps t (t\<lparr>dt_srtp_in := Some s1\<rparr>)" if "dt_srtp_in t = Some s" for s s1
    using that by (intro keeps_frame) simp_all
  have f: "keeps u (fold (on_feedback fb) xs u)" for xs and u :: "('k, 's) transport" by (rule kept.run_fold) simp
  show ?thesis
    by (auto simp: HandleRtcp_def split: option.split prod.split intro: a f keeps_trans [OF a f])
qed

lemma keeps_OnDatagram [simp]: "keeps t (OnDatagram K S fb now d t)"
  by (simp add: OnDatagram_def)

lemma keeps_Process [simp]: "keeps t (snd (dt_Process K now t))"
proof -
  define t1 where "t1 = fold (process_stream K now) (map fst (dt_streams t)) t"
  define t3 where "t3 = (dt_emit [FbGenProcess] t1)\<lparr>dt_tick := dt_tick (dt_emit [FbGenProcess] t1) + 1\<rparr>"
  have "keeps t t1" unfolding t1_def by (rule kept.run_fold) simp
  then have "keeps t (dt_emit [FbGenProcess] t1)" by (rule keeps_trans) simp
  then have "keeps t t3" unfolding t3_def by (rule keeps_trans) (rule keeps_frame; simp)
  then show ?thesis
    unfolding dt_Process_def t1_def [symmetric] Let_def t3_def [symmetric]
    by (auto intro: keeps_trans [OF \<open>keeps t t3\<close> keeps_emit])
qed

lemma keeps_PostUpdates [simp]: "keeps t (PostUpdates n u t)"
proof -
  define t1 where "t1 = (case up_congestion_window u of None \<Rightarrow> t
    | Some w \<Rightarrow> UpdateCongestedState n (t\<lparr>dt_congestion_window := Some w\<rparr>))"
  define t2 where "t2 = (case up_pacer_config u of None \<Rightarrow> t1
    | Some (rate, pad) \<Rightarrow> dt_emit [Pacer (SetPacingRates rate pad)] (t1\<lparr>dt_pacing_bps := rate\<rparr>))"
  define t3 where "t3 = (if up_probes u \<noteq> [] then dt_emit [Pacer (CreateProbeClusters (up_probes u))] t2 else t2)"
  have f: "keeps t (t\<lparr>dt_congestion_window := Some w\<rparr>)" for w by (rule keeps_frame) simp_all
  have g: "keeps t1 (t1\<lparr>dt_pacing_bps := r\<rparr>)" for r by (rule keeps_frame) simp_all
  have k1: "keeps t t1" by (auto simp: t1_def intro: keeps_trans [OF f keeps_UpdateCongestedState] split: option.split)
  have k2: "keeps t1 t2" by (auto simp: t2_def intro: keeps_trans [OF g keeps_emit] split: option.split)
  have k3: "keeps t2 t3" by (simp add: t3_def)
  have k: "keeps t t3" using k1 k2 k3 keeps_trans by blast
  have h: "keeps t3 (t3\<lparr>dt_target_bps := r, dt_rtt_ms := q\<rparr>)" "keeps t3 (t3\<lparr>dt_target_bps := r\<rparr>)" for r q
    by (rule keeps_frame; simp)+
  show ?thesis
    unfolding PostUpdates_def t1_def [symmetric] Let_def t2_def [symmetric] t3_def [symmetric]
    by (auto intro: k keeps_trans [OF k h(1)] keeps_trans [OF k h(2)] split: option.split)
qed

lemma keeps_SetRelayPath [simp]: "keeps t (SetRelayPath b t)"
proof -
  have a: "keeps t (t\<lparr>dt_relay_path := n\<rparr>)" for n by (rule keeps_frame) simp_all
  then show ?thesis by (auto simp: SetRelayPath_def Let_def intro!: keeps_trans [OF a keeps_emit])
qed

section \<open>The life of a transport\<close>

definition protected :: "'s srtp_ops \<Rightarrow> bytes \<Rightarrow> bool" where
  "protected S w \<longleftrightarrow> (\<exists>s p s'. protectRtp S s p = (Some w, s') \<or> protectRtcp S s p = (Some w, s'))"

definition wire_ok :: "'s srtp_ops \<Rightarrow> bool \<Rightarrow> effect list \<Rightarrow> bool" where
  "wire_ok S srtp es \<longleftrightarrow> (srtp \<longrightarrow> (\<forall>w. Wire w \<in> set es \<longrightarrow> protected S w))"

definition advances :: "'s srtp_ops \<Rightarrow> ('k, 's) transport \<Rightarrow> ('k, 's) transport \<Rightarrow> bool" where
  "advances S t u \<longleftrightarrow> (transport_wf t \<longrightarrow> transport_wf u) \<and> dt_enable_srtp u = dt_enable_srtp t \<and>
     (\<exists>es. dt_log u = dt_log t @ es \<and> wire_ok S (dt_enable_srtp t) es)"

lemma silent_wire_ok: "silent es \<Longrightarrow> wire_ok S b es"
  by (auto simp: silent_def wire_ok_def list_all_iff)

lemma wire_ok_append [simp]: "wire_ok S b (as @ bs) \<longleftrightarrow> wire_ok S b as \<and> wire_ok S b bs"
  by (auto simp: wire_ok_def)

lemma keeps_advances: "keeps t u \<Longrightarrow> advances S t u"
  by (auto simp: keeps_def advances_def silent_wire_ok)

lemma advances_trans: "advances S t u \<Longrightarrow> advances S u v \<Longrightarrow> advances S t v"
  by (auto simp: advances_def)

interpretation adv: run_relation "advances S"
  by unfold_locales (auto intro: advances_trans keeps_advances)

lemma advances_emit: "wire_ok S (dt_enable_srtp t) es \<Longrightarrow> advances S t (dt_emit es t)"
  by (simp add: advances_def) (simp add: dt_emit_def)

lemma advances_SendDatagram:
  "(dt_enable_srtp t \<Longrightarrow> protected S d) \<Longrightarrow> advances S t (snd (dt_SendDatagram ans d t))"
  by (auto simp: dt_SendDatagram_def wire_ok_def keeps_advances intro!: advances_emit)

lemma emit_srtp [simp]: "dt_enable_srtp (dt_emit es t) = dt_enable_srtp t"
  by (simp add: dt_emit_def)

lemma advances_transmit:
  assumes "dt_enable_srtp t \<Longrightarrow> protected S d"
  shows "advances S t (transmit now ans tracked d t)"
proof -
  define t1 where "t1 = (if tracked then dt_emit [FbAddPacket (length d)] t else t)"
  define t2 where "t2 = snd (dt_SendDatagram ans d t1)"
  have "advances S t t1" unfolding t1_def by (auto intro: keeps_advances)
  moreover have "dt_enable_srtp t1 = dt_enable_srtp t" unfolding t1_def by simp
  ultimately have k: "advances S t t2"
    unfolding t2_def using assms advances_SendDatagram [of t1 S d ans] advances_trans by metis
  have c: "keeps t2 (OnSentPacket now n t2)" for n
    unfolding OnSentPacket_def by (rule keeps_trans [OF keeps_frame keeps_emit]) simp_all
  have "transmit now ans tracked d t = (if fst (dt_SendDatagram ans d t1) < 0
      then (if tracked then dt_emit [FbRemovePacket] t2 else t2) else OnSentPacket now (length d) t2)"
    by (simp add: transmit_def t1_def t2_def Let_def split_def)
  then show ?thesis
    using k advances_trans [OF k keeps_advances [OF c]] advances_trans [OF k keeps_advances [OF keeps_emit]] by auto
qed

lemma advances_srtp_out: "dt_srtp_out t = Some s \<Longrightarrow> advances S t (t\<lparr>dt_srtp_out := Some s1\<rparr>)"
  by (intro keeps_advances keeps_frame) simp_all

lemma advances_OnPacedPacket: "advances S t (OnPacedPacket S now ans tracked p t)"
proof -
  let ?b = "take (rp_size p) (rp_buffer p)"
  have enc: "advances S t (transmit now ans tracked d (t\<lparr>dt_srtp_out := Some s1\<rparr>))"
    if "dt_srtp_out t = Some s" "protectRtp S s ?b = (Some d, s1)" for s d s1
    using that by (intro advances_trans [OF advances_srtp_out advances_transmit]) (auto simp: protected_def)
  have plain: "advances S t (transmit now ans tracked ?b t)" if "\<not> dt_enable_srtp t"
    using that by (intro advances_transmit) simp
  show ?thesis
    by (auto simp: OnPacedPacket_def Let_def keeps_advances intro: enc plain advances_srtp_out split: option.split prod.split)
qed

lemma advances_SendPacket: "advances S t (SendPacket S now ans tracked p t)"
  unfolding SendPacket_def Let_def
  by (rule advances_trans [OF keeps_advances advances_OnPacedPacket]) (rule keeps_frame; simp)

lemma advances_rtcp_flush: "advances S t (rtcp_flush S ans d t)"
proof -
  have enc: "advances S t (snd (dt_SendDatagram ans e (t\<lparr>dt_srtp_out := Some s1\<rparr>)))"
    if "dt_srtp_out t = Some s" "protectRtcp S s d = (Some e, s1)" for s e s1
    using that by (intro advances_trans [OF advances_srtp_out advances_SendDatagram]) (auto simp: protected_def)
  have plain: "advances S t (snd (dt_SendDatagram ans d t))" if "\<not> dt_enable_srtp t"
    using that by (intro advances_SendDatagram) simp
  show ?thesis
    by (auto simp: rtcp_flush_def Let_def keeps_advances intro: enc plain advances_srtp_out split: option.split prod.split)
qed

lemma advances_Init: "advances S t (dt_Init now t)"
proof -
  have "transport_wf (t\<lparr>dt_running := True, dt_last_stats_ms := now\<rparr>) = transport_wf t"
    by (simp add: transport_wf_def streams_ok_def)
  then show ?thesis
    by (auto simp: advances_def dt_Init_def wire_ok_def dt_emit_def [of _ "t\<lparr>dt_running := True, dt_last_stats_ms := now\<rparr>"])
       (simp_all add: transport_wf_def streams_ok_def)
qed

lemma map_fst_map_snd: "map fst (map (\<lambda>(n, s). (n, f s)) xs) = map fst xs"
  by (induction xs) auto

lemma advances_Destroy: "advances S t (dt_Destroy t)"
proof -
  let ?u = "t\<lparr>dt_running := False, dt_streams := map (\<lambda>(n, s). (n, s\<lparr>st_kcp := None\<rparr>)) (dt_streams t)\<rparr>"
  have "transport_wf ?u" if "transport_wf t"
    using that unfolding transport_wf_def streams_ok_def
    by (auto simp del: map_map simp: map_fst_map_snd map_of_map stream_fits_def)
  then have "advances S t ?u" by (simp add: advances_def wire_ok_def)
  from advances_trans [OF this advances_emit, of "[Pacer Shutdown]"] show ?thesis
    by (auto simp: dt_Destroy_def wire_ok_def keeps_advances)
qed

lemma advances_SetSrtpKeys: "advances S t (snd (SetSrtpKeys S lk ls rk rs t))"
proof -
  have "advances S t (t\<lparr>dt_srtp_out := Some o', dt_srtp_in := Some i, dt_srtp_ready := True\<rparr>)" for o' i
    by (simp add: advances_def transport_wf_def streams_ok_def wire_ok_def)
  then show ?thesis by (auto simp: SetSrtpKeys_def keeps_advances split: option.split)
qed

lemma advances_SetTransportReady: "advances S t (dt_SetTransportReady b t)"
proof -
  have "advances S t (t\<lparr>dt_transport_ready := b\<rparr>)" by (auto simp: advances_def transport_wf_def streams_ok_def wire_ok_def)
  then show ?thesis
    by (simp add: dt_SetTransportReady_def Let_def) (auto simp: wire_ok_def intro: advances_emit advances_trans [OF _ advances_emit])
qed

lemma keeps_match:
  assumes "map_of (dt_streams t) name = Some s"
  shows "keeps t ((put_stream name (s\<lparr>st_remote_ssrc := ssrc\<rparr>) t)
     \<lparr>dt_by_remote_ssrc := omap_put ssrc name (dt_by_remote_ssrc t)\<rparr>)" (is "keeps t ?u")
proof -
  have k: "keeps t (put_stream name (s\<lparr>st_remote_ssrc := ssrc\<rparr>) t)"
    by (rule keeps_put [OF assms]) (simp add: stream_fits_def)
  have "transport_wf ?u" if "transport_wf t"
  proof -
    have "transport_wf (put_stream name (s\<lparr>st_remote_ssrc := ssrc\<rparr>) t)" using k that by (simp add: keeps_def)
    then show ?thesis by (auto simp: transport_wf_def streams_ok_def map_of_omap_put)
  qed
  then show ?thesis by (simp add: keeps_def) (simp add: put_stream_def)
qed

lemma remote_loop_keeps: "keeps t (snd (remote_loop neg ls m t))"
proof (induction ls arbitrary: m t)
  case (Cons l ls)
  show ?case
    by (auto simp: Let_def Cons.IH intro: keeps_trans [OF keeps_match Cons.IH] split: option.split)
qed simp

lemma keeps_ParseRemoteStreams [simp]: "keeps t (snd (ParseRemoteStreams neg sdp t))"
proof -
  let ?t = "t\<lparr>dt_by_remote_ssrc := []\<rparr>"
  have "keeps t ?t" by (auto simp: keeps_def transport_wf_def streams_ok_def)
  from keeps_trans [OF this remote_loop_keeps [of ?t neg "getlines sdp" 0]] show ?thesis
    by (auto simp: ParseRemoteStreams_def split: prod.split option.split)
qed

lemma keeps_TakeStats [simp]: "keeps t (snd (TakeStats now t))"
  by (rule keeps_frame) (simp_all add: TakeStats_def Let_def)

text \<open>Everything that can happen to a transport, in any order.\<close>

inductive dt_step :: "'k kcp_ops \<Rightarrow> 's srtp_ops \<Rightarrow> ('k, 's) transport \<Rightarrow> ('k, 's) transport \<Rightarrow> bool" for K S where
  step_Init: "dt_step K S t (dt_Init now t)"
| step_Destroy: "dt_step K S t (dt_Destroy t)"
| step_SetSendFunc: "dt_step K S t (SetSendFunc t)"
| step_ParseRemoteStreams: "dt_step K S t (snd (ParseRemoteStreams neg sdp t))"
| step_SetSrtpKeys: "dt_step K S t (snd (SetSrtpKeys S lk ls rk rs t))"
| step_SetTransportReady: "dt_step K S t (dt_SetTransportReady b t)"
| step_SetRelayPath: "dt_step K S t (SetRelayPath b t)"
| step_Send: "dt_step K S t (snd (dt_Send K now queue_ms name d t))"
| step_SendPacket: "dt_step K S t (SendPacket S now ans tracked p t)"
| step_PostUpdates: "dt_step K S t (PostUpdates n u t)"
| step_OnDatagram: "dt_step K S t (OnDatagram K S fb now d t)"
| step_SendRtcp: "dt_step K S t (SendRtcp S ans chunks t)"
| step_Process: "dt_step K S t (snd (dt_Process K now t))"
| step_TakeStats: "dt_step K S t (snd (TakeStats now t))"

lemma step_advances: "dt_step K S t u \<Longrightarrow> advances S t u"
proof (induction rule: dt_step.induct)
  case (step_SendRtcp t ans chunks)
  show ?case unfolding SendRtcp_def by (rule adv.run_fold) (rule advances_rtcp_flush)
next
  case (step_SetSendFunc t)
  show ?case unfolding SetSendFunc_def by (intro keeps_advances keeps_frame) simp_all
next
  case (step_SetTransportReady t b)
  show ?case by (rule advances_SetTransportReady)
qed (auto intro: advances_Init advances_Destroy advances_SetSrtpKeys advances_SendPacket
       keeps_advances)

inductive dt_reach :: "'k kcp_ops \<Rightarrow> 's srtp_ops \<Rightarrow> (nat \<Rightarrow> u32) \<Rightarrow> stream_config list \<Rightarrow> bool \<Rightarrow> ('k, 's) transport \<Rightarrow> bool"
  for K S ssrc cfgs srtp where
  reach_new: "dt_reach K S ssrc cfgs srtp (new_transport ssrc cfgs srtp)"
| reach_step: "dt_reach K S ssrc cfgs srtp t \<Longrightarrow> dt_step K S t u \<Longrightarrow> dt_reach K S ssrc cfgs srtp u"

lemma add_streams_keeps:
  "transport_wf t \<Longrightarrow> dt_srtp_in t = None \<Longrightarrow> dt_log t = [] \<Longrightarrow>
   transport_wf (add_streams ssrc i cfgs t) \<and> dt_log (add_streams ssrc i cfgs t) = [] \<and>
   dt_enable_srtp (add_streams ssrc i cfgs t) = dt_enable_srtp t"
proof (induction ssrc i cfgs t rule: add_streams.induct)
  case (2 ssrc i cfg cfgs t)
  define s :: "'a dstream" where "s = \<lparr>st_config = cfg, st_local_ssrc = ssrc i, st_remote_ssrc = 0, st_conv = Fnv1a (cf_name cfg),
    st_packetizer = new_packetizer (ssrc i) (if cf_reliable cfg then ucast PT_KCP else ucast PT_DATA), st_kcp = None\<rparr>"
  define t2 where "t2 = (let t1 = (if \<not> cf_reliable cfg \<and> dt_padding_stream t = [] then t\<lparr>dt_padding_stream := cf_name cfg\<rparr> else t)
    in t1\<lparr>dt_by_local_ssrc := omap_put (ssrc i) (cf_name cfg) (dt_by_local_ssrc t1)\<rparr>)"
  have e: "add_streams ssrc i (cfg # cfgs) t = add_streams ssrc (i + 1) cfgs (put_stream (cf_name cfg) s t2)"
    by (simp add: Let_def s_def t2_def)
  have t2: "transport_wf t2" "dt_srtp_in t2 = None" "dt_log t2 = []" "dt_enable_srtp t2 = dt_enable_srtp t"
    using "2.prems" by (auto simp: t2_def Let_def transport_wf_def streams_ok_def)
  have "stream_fits s" by (simp add: s_def stream_fits_def new_packetizer_def PT_KCP_def PT_DATA_def)
  then have "transport_wf (put_stream (cf_name cfg) s t2)"
    using t2(1) put_stream_ok [of t2] by (auto simp: transport_wf_def) (simp_all add: put_stream_def)
  then show ?case
    using "2.IH" [OF s_def refl] t2 unfolding e by (simp add: t2_def Let_def put_stream_def)
qed simp

lemma new_transport_wf:
  "transport_wf (new_transport ssrc cfgs srtp)" "dt_log (new_transport ssrc cfgs srtp) = []"
  "dt_enable_srtp (new_transport ssrc cfgs srtp) = srtp"
  unfolding new_transport_def
  by (subst add_streams_keeps; simp add: transport_wf_def streams_ok_def)+

lemma reach_invariant:
  "dt_reach K S ssrc cfgs srtp t \<Longrightarrow> transport_wf t \<and> dt_enable_srtp t = srtp \<and> wire_ok S srtp (dt_log t)"
proof (induction rule: dt_reach.induct)
  case reach_new
  show ?case by (simp add: new_transport_wf wire_ok_def)
next
  case (reach_step t u)
  from step_advances [OF reach_step.hyps(2)] reach_step.IH show ?case by (auto simp: advances_def)
qed

section \<open>One datagram from end to end\<close>

text \<open>What libsrtp documents of two sessions with the same key, for one packet that they accept: the sender protects it, leaving
the RTP header in the clear, and the receiver recovers it.  Either side may refuse a packet, for a repeated sequence number or
one outside the replay window for instance.\<close>

definition srtp_passes :: "'s srtp_ops \<Rightarrow> 's \<Rightarrow> 's \<Rightarrow> bytes \<Rightarrow> bool" where
  "srtp_passes S o' i p \<longleftrightarrow>
     (case protectRtp S o' p of (None, _) \<Rightarrow> False | (Some d, _) \<Rightarrow> take 12 d = take 12 p \<and> fst (unprotectRtp S i d) = Some p)"

lemma frame_update_seq:
  "UpdateSequenceNumber n (frame_packet k m ts part) = frame_packet (k\<lparr>pk_sequence_number := n\<rparr>) m ts part"
proof -
  have "(frame_header k m ts @ rest)[2 := ucast (drop_bit 8 n), 3 := ucast n] =
      frame_header (k\<lparr>pk_sequence_number := n\<rparr>) m ts @ rest" for rest
    by (simp add: frame_header_def Put16_def eval_nat_numeral)
  moreover have "AppendAbsoluteSendTimeExtension (k\<lparr>pk_sequence_number := n\<rparr>) = AppendAbsoluteSendTimeExtension k"
    by (simp add: AppendAbsoluteSendTimeExtension_def)
  ultimately show ?thesis
    unfolding UpdateSequenceNumber_def frame_packet_def Let_def by simp
qed

text \<open>How the receiver classifies a protected frame: by its first two bytes.\<close>

lemma take2: "take 12 d = take 12 p \<Longrightarrow> 12 \<le> length p \<Longrightarrow> 12 \<le> length d \<and> d ! 0 = p ! 0 \<and> d ! Suc 0 = p ! Suc 0"
proof -
  assume e: "take 12 d = take 12 p" and l: "12 \<le> length p"
  from arg_cong [OF e, of length] l have "12 \<le> length d" by simp
  moreover have "d ! i = p ! i" if "i < 12" for i
    using arg_cong [OF e, of "\<lambda>xs. xs ! i"] that by simp
  ultimately show ?thesis by simp
qed

lemma frame_kind:
  assumes "pk_payload_type k = 120" "take 12 d = take 12 (frame_header k True ts @ rest)" "pk_abs_send_time_ext_id k = None"
  shows "\<not> LooksLikeRtcp d" "LooksLikeRtp d"
proof -
  have "12 \<le> length (frame_header k True ts @ rest)" by simp
  from take2 [OF assms(2) this] have d: "12 \<le> length d" "d ! 0 = 0x80" "d ! Suc 0 = 0xF8"
    using assms(1,3) by (simp_all add: wire_simps)
  then show "\<not> LooksLikeRtcp d" "LooksLikeRtp d"
    by (simp_all add: LooksLikeRtcp_def LooksLikeRtp_def kFixedHeaderSize_def PT_DATA_def)
qed

lemma receive_frame:
  assumes "pk_payload_type k < 128" "ext_valid k" "part \<noteq> []"
    and "map_of (dt_by_remote_ssrc b) (pk_ssrc k) = Some n" "map_of (dt_streams b) n = Some s" "\<not> cf_reliable (st_config s)"
  shows "dt_log (receive_packet K now sz (rp_buffer (frame_packet k m ts part)) b) =
     dt_log b @ [FbGenReceived (frame_packet k m ts part), Deliver n part]"
proof -
  let ?p = "frame_packet k m ts part"
  have p: "Build (rp_buffer ?p) new_rtp_packet = Some (True, ?p)"
    using Build_frame [OF assms(1,2), of m ts part] by (simp add: frame_packet_def Let_def)
  have f: "rp_ssrc ?p = pk_ssrc k" "rp_payload_size ?p = length part" by (simp_all add: frame_packet_def Let_def)
  show ?thesis
    unfolding receive_packet_def p Let_def
    using assms(3-6) f by (simp add: dt_emit_def)
qed

lemma transmit_log:
  assumes "dt_send_set t" "0 \<le> ans d"
  shows "\<exists>pre post. dt_log (transmit now ans tracked d t) = dt_log t @ pre @ [Wire d] @ post \<and> silent pre \<and> silent post"
  using assms
  by (auto simp: transmit_def dt_SendDatagram_def dt_emit_def OnSentPacket_def Let_def
      intro: exI [of _ "[FbAddPacket (length d)]"] exI [of _ "[]"])

lemma OnPacedPacket_log:
  assumes "dt_running t" "dt_send_set t" "\<And>w. 0 \<le> ans w" "rp_size p = length (rp_buffer p)"
    and "dt_enable_srtp t \<Longrightarrow> \<exists>o'. dt_srtp_out t = Some o' \<and> srtp_passes S o' i (rp_buffer p)"
  shows "\<exists>w pre post. dt_log (OnPacedPacket S now ans tracked p t) = dt_log t @ pre @ [Wire w] @ post \<and> silent pre \<and> silent post \<and>
     take 12 w = take 12 (rp_buffer p) \<and>
     (if dt_enable_srtp t then fst (unprotectRtp S i w) = Some (rp_buffer p) else w = rp_buffer p)"
proof (cases "dt_enable_srtp t")
  case False
  with assms(1,4) transmit_log [where t = t and ans = ans and now = now and tracked = tracked and d = "rp_buffer p"] assms(2,3) show ?thesis
    by (auto simp: OnPacedPacket_def Let_def)
next
  case True
  from assms(5) [OF True] obtain o' where o: "dt_srtp_out t = Some o'" "srtp_passes S o' i (rp_buffer p)" by blast
  then obtain d s1 where d: "protectRtp S o' (rp_buffer p) = (Some d, s1)" "fst (unprotectRtp S i d) = Some (rp_buffer p)"
      "take 12 d = take 12 (rp_buffer p)"
    by (auto simp: srtp_passes_def split: prod.splits option.splits)
  let ?t = "t\<lparr>dt_srtp_out := Some s1\<rparr>"
  have "OnPacedPacket S now ans tracked p t = transmit now ans tracked d ?t"
    using True assms(1,4) o(1) d(1) by (simp add: OnPacedPacket_def Let_def)
  with transmit_log [where t = ?t and ans = ans and now = now and tracked = tracked and d = d] assms(2,3) d(2,3) True show ?thesis by fastforce
qed

lemma Send_unreliable:
  assumes "transport_wf a" "map_of (dt_streams a) n = Some s" "\<not> cf_reliable (st_config s)" "dt_Send K now queue_ms n d a = (0, a1)"
  defines "k \<equiv> (st_packetizer s)\<lparr>pk_sequence_number := pk_sequence_number (st_packetizer s) + 1\<rparr>"
  shows "dt_running a \<and> d \<noteq> [] \<and> length d \<le> kMaxDatagramPayload \<and>
     a1 = dt_emit [Pacer (EnqueueRtpPackets [frame_packet k True (NowMs now) d] n)] (put_stream n (s\<lparr>st_packetizer := k\<rparr>) a)"
proof -
  have g: "dt_running a" "d \<noteq> []" "length d \<le> kMaxDatagramPayload" "a1 = EnqueueRtp now n d a"
    using assms(2-4) by (auto simp: dt_Send_def split: if_splits)
  have f: "stream_fits s" using assms(1,2) by (simp add: transport_wf_def)
  have "Packetize d (NowMs now) (st_packetizer s) = Some ([frame_packet k True (NowMs now) d], k)"
    unfolding k_def using f g(2,3) assms(3)
    by (intro Packetize_one) (simp_all add: stream_fits_def ext_valid_def kMaxDatagramPayload_def MAX_NALU_LEN_def)
  with g assms(2) show ?thesis by (simp add: EnqueueRtp_def Let_def)
qed

lemma put_emit_frame [simp]:
  "dt_running (dt_emit es t) = dt_running t" "dt_send_set (dt_emit es t) = dt_send_set t" "dt_srtp_out (dt_emit es t) = dt_srtp_out t"
  "dt_running (put_stream n s t) = dt_running t" "dt_send_set (put_stream n s t) = dt_send_set t"
  "dt_srtp_out (put_stream n s t) = dt_srtp_out t" "dt_enable_srtp (put_stream n s t) = dt_enable_srtp t"
  by (simp_all add: dt_emit_def put_stream_def)

lemma HandleRtp_accepts:
  assumes "dt_enable_srtp b \<Longrightarrow> \<exists>i. dt_srtp_in b = Some i \<and> fst (unprotectRtp S i w) = Some buf" "\<not> dt_enable_srtp b \<Longrightarrow> w = buf"
  shows "\<exists>b'. HandleRtp K S now w b = receive_packet K now (length w) buf b' \<and> dt_log b' = dt_log b \<and>
     dt_by_remote_ssrc b' = dt_by_remote_ssrc b \<and> dt_streams b' = dt_streams b"
proof (cases "dt_enable_srtp b")
  case True
  from assms(1) [OF True] obtain i where i: "dt_srtp_in b = Some i" "fst (unprotectRtp S i w) = Some buf" by blast
  then obtain s1 where "unprotectRtp S i w = (Some buf, s1)" by (cases "unprotectRtp S i w") auto
  with True i show ?thesis by (intro exI [of _ "b\<lparr>dt_srtp_in := Some s1\<rparr>"]) (simp add: HandleRtp_def)
qed (use assms(2) in \<open>auto simp: HandleRtp_def\<close>)

text \<open>C12. A datagram accepted on an unreliable stream arrives: \<^verbatim>\<open>Send\<close> on a transport in any state it can reach hands the
pacer exactly one packet for it; when the pacer releases the packet, with its sequence number, one datagram goes out, and the
peer that holds the sender's SSRC for the stream of that name delivers exactly the bytes that were sent, on that stream, once.
With SRTP this is for a packet that the two libsrtp sessions accept.\<close>

theorem datagram_reaches_same_stream:
  assumes "dt_reach K S ssrc cfgs srtp a" "map_of (dt_streams a) n = Some s" "\<not> cf_reliable (st_config s)"
    and "dt_Send K now queue_ms n d a = (0, a1)" "dt_send_set a"
    and "dt_running b" "dt_enable_srtp b = srtp" "map_of (dt_by_remote_ssrc b) (st_local_ssrc s) = Some n"
    and "map_of (dt_streams b) n = Some s'" "\<not> cf_reliable (st_config s')"
  shows "\<exists>p. dt_log a1 = dt_log a @ [Pacer (EnqueueRtpPackets [p] n)] \<and>
     ((srtp \<longrightarrow> (\<exists>o' i. dt_srtp_out a1 = Some o' \<and> dt_srtp_in b = Some i \<and>
         srtp_passes S o' i (rp_buffer (UpdateSequenceNumber (next_seq (rp_ssrc p) a1) p)))) \<longrightarrow>
      (\<exists>w pre post q. dt_log (SendPacket S now2 (\<lambda>_. 0) tracked p a1) = dt_log a1 @ pre @ [Wire w] @ post \<and> silent pre \<and> silent post \<and>
         dt_log (OnDatagram K S feedback now3 w b) = dt_log b @ [FbGenReceived q, Deliver n d]))"
proof -
  have wf: "transport_wf a" "dt_enable_srtp a = srtp" using reach_invariant [OF assms(1)] by simp_all
  define k where "k = (st_packetizer s)\<lparr>pk_sequence_number := pk_sequence_number (st_packetizer s) + 1\<rparr>"
  let ?p = "frame_packet k True (NowMs now) d"
  have a1: "dt_running a" "d \<noteq> []" "a1 = dt_emit [Pacer (EnqueueRtpPackets [?p] n)] (put_stream n (s\<lparr>st_packetizer := k\<rparr>) a)"
    using Send_unreliable [OF wf(1) assms(2,3,4)] by (simp_all add: k_def)
  have log1: "dt_log a1 = dt_log a @ [Pacer (EnqueueRtpPackets [?p] n)]" unfolding a1(3) by (simp add: dt_emit_def)
  have s: "pk_ssrc k = st_local_ssrc s" "pk_payload_type k = 120" "pk_abs_send_time_ext_id k = None"
    using wf(1) assms(2,3) by (auto simp: transport_wf_def stream_fits_def k_def)
  define sq where "sq = next_seq (rp_ssrc ?p) a1"
  define k2 where "k2 = k\<lparr>pk_sequence_number := sq\<rparr>"
  let ?q = "frame_packet k2 True (NowMs now) d"
  let ?a2 = "a1\<lparr>dt_ssrc_seq := omap_put (rp_ssrc ?p) (sq + 1) (dt_ssrc_seq a1)\<rparr>"
  have snd: "SendPacket S now2 (\<lambda>_. 0) tracked ?p a1 = OnPacedPacket S now2 (\<lambda>_. 0) tracked ?q ?a2"
    by (simp add: SendPacket_def Let_def sq_def [symmetric] frame_update_seq k2_def)
  have fs: "UpdateSequenceNumber (next_seq (rp_ssrc ?p) a1) ?p = ?q" by (simp add: sq_def [symmetric] frame_update_seq k2_def)
  have "\<exists>w pre post q. dt_log (SendPacket S now2 (\<lambda>_. 0) tracked ?p a1) = dt_log a1 @ pre @ [Wire w] @ post \<and> silent pre \<and> silent post \<and>
     dt_log (OnDatagram K S feedback now3 w b) = dt_log b @ [FbGenReceived q, Deliver n d]"
    if pass: "srtp \<longrightarrow> (\<exists>o' i. dt_srtp_out a1 = Some o' \<and> dt_srtp_in b = Some i \<and> srtp_passes S o' i (rp_buffer ?q))"
  proof -
    obtain i where i: "srtp \<Longrightarrow> dt_srtp_in b = Some i \<and> (\<exists>o'. dt_srtp_out a1 = Some o' \<and> srtp_passes S o' i (rp_buffer ?q))"
      using pass by blast
    have q: "rp_size ?q = length (rp_buffer ?q)" by (simp add: frame_packet_def Let_def)
    have "\<exists>w pre post. dt_log (OnPacedPacket S now2 (\<lambda>_. 0) tracked ?q ?a2) = dt_log ?a2 @ pre @ [Wire w] @ post \<and> silent pre \<and> silent post \<and>
       take 12 w = take 12 (rp_buffer ?q) \<and>
       (if dt_enable_srtp ?a2 then fst (unprotectRtp S i w) = Some (rp_buffer ?q) else w = rp_buffer ?q)"
      by (rule OnPacedPacket_log) (use a1 assms(5) wf(2) i q in \<open>simp_all\<close>)
    then obtain w pre post where w: "dt_log (SendPacket S now2 (\<lambda>_. 0) tracked ?p a1) = dt_log a1 @ pre @ [Wire w] @ post" "silent pre"
        "silent post" "take 12 w = take 12 (rp_buffer ?q)"
        "if srtp then fst (unprotectRtp S i w) = Some (rp_buffer ?q) else w = rp_buffer ?q"
      using a1 wf(2) snd by auto
    have k2: "pk_ssrc k2 = st_local_ssrc s" "pk_payload_type k2 = 120" "pk_abs_send_time_ext_id k2 = None"
      using s by (simp_all add: k2_def)
    have "take 12 w = take 12 (frame_header k2 True (NowMs now) @ AppendAbsoluteSendTimeExtension k2 @ d)"
      using w(4) by (simp add: frame_packet_def Let_def)
    note kind = frame_kind [OF k2(2) this k2(3)]
    obtain b' where b': "HandleRtp K S now3 w b = receive_packet K now3 (length w) (rp_buffer ?q) b'" "dt_log b' = dt_log b"
        "dt_by_remote_ssrc b' = dt_by_remote_ssrc b" "dt_streams b' = dt_streams b"
      using HandleRtp_accepts [of b S w "rp_buffer ?q" K now3] w(5) i assms(7) by (auto split: if_splits)
    have "dt_log (OnDatagram K S feedback now3 w b) = dt_log b @ [FbGenReceived ?q, Deliver n d]"
      using receive_frame [of k2 d b' n s' K now3 "length w" True "NowMs now"] b' k2 a1(2) assms(6,8,9,10) kind
      by (simp add: OnDatagram_def ext_valid_def)
    with w show ?thesis by blast
  qed
  with log1 fs show ?thesis by (intro exI [of _ ?p]) simp
qed

section \<open>Padding\<close>

lemma length_padding_frame: "0 < pad \<Longrightarrow> length (padding_frame ts ssrc pad) = 12 + pad"
  by (simp add: padding_frame_def)

lemma Build_padding_frame:
  assumes "0 < pad" "pad \<le> 255"
  shows "\<exists>p. Build (padding_frame ts ssrc pad) new_rtp_packet = Some (True, p) \<and> rp_ssrc p = ssrc \<and> rp_payload_type p = PT_DATA \<and>
     rp_payload_size p = 0 \<and> rp_padding_size p = pad \<and> rp_size p = 12 + pad"
proof -
  let ?b = "padding_frame ts ssrc pad" and ?tail = "replicate (pad - 1) 0 @ [of_nat pad]"
  have b: "?b = [0xA0, PT_DATA, 0, 0] @ Put32 ts @ Put32 ssrc @ ?tail" by (simp add: padding_frame_def)
  have len: "length ?b = 12 + pad" by (rule length_padding_frame [OF assms(1)])
  have "?b \<noteq> []" by (simp add: b)
  then have r: "rd ?b 0 = Some 0xA0" "rd ?b 1 = Some PT_DATA" "rd ?b (length ?b - 1) = Some (of_nat pad)"
    using len last_conv_nth [of ?b] by (simp_all add: b)
  have r16: "rd16 ?b 2 = Some 0" using rd16_inside [of 2 ?b] len by (simp add: b Get16_def eval_nat_numeral)
  have r32: "rd32 ?b 4 = Some ts" "rd32 ?b 8 = Some ssrc"
    unfolding b using rd32_append [of "[0xA0, PT_DATA, 0, 0]" ts] rd32_append [of "[0xA0, PT_DATA, 0, 0] @ Put32 ts" ssrc ?tail]
    by (simp_all add: eval_nat_numeral)
  have z: "(of_nat pad :: u8) \<noteq> 0" "unat (of_nat pad :: u8) = pad"
    using assms by (simp_all add: unat_of_nat_u8 word_unat_eq_iff)
  have f: "Parse_fixed ?b new_rtp_packet = Some (True, new_rtp_packet\<lparr>rp_version := 2, rp_has_padding := True,
      rp_payload_type := PT_DATA, rp_sequence_number := 0, rp_timestamp := ts, rp_ssrc := ssrc, rp_payload_offset := 12\<rparr>)"
    unfolding Parse_fixed_def Let_def r(1,2) r16 r32 bind.bind_lunit
    by (simp add: len rtp_consts new_rtp_packet_def PT_DATA_def)
  show ?thesis
    unfolding Build_def Parse_def f using r(3) len z assms
    by (simp add: stage_def Parse_csrcs_def new_rtp_packet_def kFixedHeaderSize_def Parse_extensions_def Parse_payload_def Let_def)
qed

text \<open>The packets the pacer gets to fill a probe with: at most 16, never more bytes of padding than asked for.\<close>

definition padding_packet :: "u32 \<Rightarrow> rtp_packet \<Rightarrow> bool" where
  "padding_packet ssrc p \<longleftrightarrow> rp_ssrc p = ssrc \<and> rp_payload_type p = PT_DATA \<and> rp_payload_size p = 0 \<and>
     Build (rp_buffer p) new_rtp_packet = Some (True, p)"

lemma padding_loop_bounds:
  "length out \<le> 16 \<Longrightarrow> \<forall>p \<in> set out. padding_packet ssrc p \<Longrightarrow>
   length (padding_loop ts ssrc n out) \<le> 16 \<and> (\<forall>p \<in> set (padding_loop ts ssrc n out). padding_packet ssrc p) \<and>
   sum_list (map rp_padding_size (padding_loop ts ssrc n out)) \<le> sum_list (map rp_padding_size out) + n"
proof (induction ts ssrc n out rule: padding_loop.induct)
  case (1 ts ssrc n out)
  show ?case
  proof (cases "0 < n \<and> length out < 16")
    case True
    let ?pad = "min n 255"
    obtain p where p: "Build (padding_frame ts ssrc ?pad) new_rtp_packet = Some (True, p)" "rp_ssrc p = ssrc"
        "rp_payload_type p = PT_DATA" "rp_payload_size p = 0" "rp_padding_size p = ?pad"
      using Build_padding_frame [of ?pad ts ssrc] True by auto
    then have "padding_packet ssrc p" using Build_safe [of "padding_frame ts ssrc ?pad" new_rtp_packet]
      by (auto simp: padding_packet_def safe_def)
    with 1 True p have "length (padding_loop ts ssrc (n - ?pad) (out @ [p])) \<le> 16 \<and>
      (\<forall>q \<in> set (padding_loop ts ssrc (n - ?pad) (out @ [p])). padding_packet ssrc q) \<and>
      sum_list (map rp_padding_size (padding_loop ts ssrc (n - ?pad) (out @ [p]))) \<le>
        sum_list (map rp_padding_size (out @ [p])) + (n - ?pad)"
      by (simp add: Let_def)
    moreover have "padding_loop ts ssrc n out = padding_loop ts ssrc (n - ?pad) (out @ [p])"
      using True p by (subst padding_loop.simps) (simp add: Let_def)
    ultimately show ?thesis using p(5) by simp
  next
    case False
    with 1 show ?thesis by (subst (1 2 3) padding_loop.simps) auto
  qed
qed

lemma padding_not_delivered:
  assumes "Build buf new_rtp_packet = Some (True, p)" "rp_payload_size p = 0"
  shows "\<exists>es. dt_log (receive_packet K now sz buf b) = dt_log b @ es \<and> (\<forall>n d. Deliver n d \<notin> set es)"
  using assms by (auto simp: receive_packet_def Let_def dt_emit_def split: option.split)

section \<open>Sequence numbers\<close>

lemma transmit_ssrc_seq [simp]: "dt_ssrc_seq (transmit now ans tracked d t) = dt_ssrc_seq t"
  by (simp add: transmit_def dt_SendDatagram_def OnSentPacket_def dt_emit_def Let_def)

lemma paced_ssrc_seq [simp]: "dt_ssrc_seq (OnPacedPacket S now ans tracked p t) = dt_ssrc_seq t"
  by (auto simp: OnPacedPacket_def Let_def split: option.split prod.split)

lemma next_seq_SendPacket:
  "next_seq x (SendPacket S now ans tracked p t) = (if rp_ssrc p = x then next_seq x t + 1 else next_seq x t)"
  by (simp add: next_seq_def SendPacket_def Let_def map_of_omap_put)

text \<open>One counter per SSRC: the number a packet gets is the count of the packets with its SSRC released before it.\<close>

lemma next_seq_counts:
  "next_seq x (fold (\<lambda>p. SendPacket S now ans tracked p) ps t) =
   next_seq x t + of_nat (length (filter (\<lambda>p. rp_ssrc p = x) ps))"
  by (induction ps arbitrary: t) (simp_all add: next_seq_SendPacket)

section \<open>Draining KCP\<close>

text \<open>What \<^verbatim>\<open>ikcp_recv\<close> documents: a message it returns leaves the queue, and there is a message only when segments are held.\<close>

definition kcp_drains :: "'k kcp_ops \<Rightarrow> bool" where
  "kcp_drains K \<longleftrightarrow> (\<forall>k n r buf k1. ikcp_recv K k n = (r, buf, k1) \<and> 0 < r \<longrightarrow> ikcp_backlog K k1 < ikcp_backlog K k) \<and>
     (\<forall>k. 0 < ikcp_peeksize K k \<longrightarrow> 0 < ikcp_backlog K k)"

lemma kcp_drain_loop_enough:
  assumes "kcp_drains K"
  shows "ikcp_backlog K k \<le> fuel \<Longrightarrow> kcp_drain_loop K fuel k = kcp_drain_loop K (ikcp_backlog K k) k"
proof (induction "ikcp_backlog K k" arbitrary: k fuel rule: less_induct)
  case less
  show ?case
  proof (cases "0 < ikcp_peeksize K k")
    case False
    then show ?thesis by (cases fuel; cases "ikcp_backlog K k") simp_all
  next
    case True
    with assms obtain m where m: "ikcp_backlog K k = Suc m" by (auto simp: kcp_drains_def gr0_conv_Suc)
    with less.prems obtain f where f: "fuel = Suc f" by (cases fuel) auto
    obtain r buf k1 where r: "ikcp_recv K k (ikcp_peeksize K k) = (r, buf, k1)" by (cases "ikcp_recv K k (ikcp_peeksize K k)")
    show ?thesis
    proof (cases "0 < r")
      case False
      with m f r show ?thesis by (simp add: Let_def)
    next
      case True
      with assms r have lt: "ikcp_backlog K k1 < ikcp_backlog K k" by (auto simp: kcp_drains_def)
      then have "kcp_drain_loop K f k1 = kcp_drain_loop K m k1"
        using less.hyps [OF lt, of f] less.hyps [OF lt, of m] less.prems m f by simp
      with m f r show ?thesis by (simp add: Let_def)
    qed
  qed
qed

lemma kcp_drain_loop_empties:
  assumes "kcp_drains K" "\<And>k r buf k1. 0 < ikcp_peeksize K k \<Longrightarrow> ikcp_recv K k (ikcp_peeksize K k) = (r, buf, k1) \<Longrightarrow> 0 < r"
  shows "ikcp_peeksize K (snd (kcp_drain_loop K (ikcp_backlog K k) k)) \<le> 0"
proof (induction "ikcp_backlog K k" arbitrary: k rule: less_induct)
  case less
  show ?case
  proof (cases "0 < ikcp_peeksize K k")
    case False
    then show ?thesis by (cases "ikcp_backlog K k") simp_all
  next
    case True
    with assms(1) obtain m where m: "ikcp_backlog K k = Suc m" by (auto simp: kcp_drains_def gr0_conv_Suc)
    obtain r buf k1 where r: "ikcp_recv K k (ikcp_peeksize K k) = (r, buf, k1)" by (cases "ikcp_recv K k (ikcp_peeksize K k)")
    with assms(2) [OF True r] assms(1) have lt: "0 < r" "ikcp_backlog K k1 < ikcp_backlog K k" by (auto simp: kcp_drains_def)
    then have "kcp_drain_loop K m k1 = kcp_drain_loop K (ikcp_backlog K k1) k1"
      using m by (intro kcp_drain_loop_enough [OF assms(1)]) simp
    with less.hyps [OF lt(2)] m r True lt(1) show ?thesis by (simp add: split_def Let_def)
  qed
qed

section \<open>Examples\<close>

text \<open>A KCP that refuses everything and an SRTP that masks the payload with the first key byte and appends a tag of 16 bytes.\<close>

definition no_kcp :: "unit kcp_ops" where
  "no_kcp = \<lparr>ikcp_create = (\<lambda>_. None), ikcp_setup = (\<lambda>k _ _. k), ikcp_waitsnd = (\<lambda>_. 0), ikcp_snd_wnd = (\<lambda>_. 0),
     ikcp_send = (\<lambda>k _. (- 1, k)), ikcp_flush = (\<lambda>k. ([], k)), ikcp_input = (\<lambda>k _. (- 1, k)), ikcp_update = (\<lambda>k _. ([], k)),
     ikcp_peeksize = (\<lambda>_. - 1), ikcp_recv = (\<lambda>k _. (- 1, [], k)), ikcp_backlog = (\<lambda>_. 0)\<rparr>"

definition mask_bytes :: "u8 \<Rightarrow> bytes \<Rightarrow> bytes" where
  "mask_bytes k p = take 12 p @ map (\<lambda>x. x XOR k) (drop 12 p)"

definition demo_srtp :: "u8 srtp_ops" where
  "demo_srtp = \<lparr>srtp_sender = (\<lambda>key _. Some (hd key)), srtp_receiver = (\<lambda>key _. Some (hd key)),
     protectRtp = (\<lambda>k p. (Some (mask_bytes k p @ replicate 16 0), k)),
     unprotectRtp = (\<lambda>k d. (Some (mask_bytes k (take (length d - 16) d)), k)),
     protectRtcp = (\<lambda>k p. (Some (p @ replicate 20 0), k)), unprotectRtcp = (\<lambda>k d. (Some (take (length d - 20) d), k))\<rparr>"

lemma mask_bytes_twice [simp]: "mask_bytes k (mask_bytes k p) = p"
  by (simp add: mask_bytes_def comp_def min_def xor.assoc)

lemma demo_srtp_passes: "12 \<le> length p \<Longrightarrow> srtp_passes demo_srtp k k p"
proof -
  have "length (mask_bytes k p) = length p" for p by (simp add: mask_bytes_def min_def)
  moreover have "take 12 (mask_bytes k p @ x) = take 12 p" if "12 \<le> length p" for p x using that by (simp add: mask_bytes_def)
  ultimately show "12 \<le> length p \<Longrightarrow> ?thesis" by (simp add: srtp_passes_def demo_srtp_def)
qed

definition demo_streams :: "stream_config list" where
  "demo_streams = [\<lparr>cf_name = ''ctrl'', cf_reliable = True, cf_kcp_window = 1024\<rparr>,
     \<lparr>cf_name = ''data'', cf_reliable = False, cf_kcp_window = 1024\<rparr>]"

definition demo_new :: "u32 \<Rightarrow> (unit, u8) transport" where
  "demo_new base = new_transport (\<lambda>i. base + of_nat i) demo_streams True"

definition demo_up :: "(unit, u8) transport \<Rightarrow> (unit, u8) transport" where
  "demo_up t = dt_SetTransportReady True (SetSendFunc (dt_Init 1000
     (snd (SetSrtpKeys demo_srtp (replicate 16 7) (replicate 12 0) (replicate 16 7) (replicate 12 0) t))))"

definition demo_a :: "(unit, u8) transport" where "demo_a = demo_up (demo_new 100)"

definition demo_b :: "(unit, u8) transport" where
  "demo_b = demo_up (snd (ParseRemoteStreams (\<lambda>_. None) (LocalStreamSdpLines (demo_new 100)) (demo_new 500)))"

lemma demo_a_reach: "dt_reach no_kcp demo_srtp (\<lambda>i. 100 + of_nat i) demo_streams True demo_a"
  unfolding demo_a_def demo_up_def demo_new_def
  by (rule reach_step [OF reach_step [OF reach_step [OF reach_step [OF reach_new]]]])
     (rule step_SetSrtpKeys step_Init step_SetSendFunc step_SetTransportReady)+

lemmas demo_simps = demo_up_def demo_new_def new_transport_def demo_streams_def put_stream_def SetSrtpKeys_def demo_srtp_def
  dt_SetTransportReady_def SetSendFunc_def dt_Init_def dt_emit_def Let_def new_packetizer_def

lemma demo_a_eval:
  "map_option (\<lambda>s. (cf_reliable (st_config s), st_local_ssrc s)) (map_of (dt_streams demo_a) ''data'') = Some (False, 102)"
  "fst (dt_Send no_kcp 5 0 ''data'' [1, 2, 3] demo_a) = 0" "dt_send_set demo_a" "dt_srtp_out demo_a = Some 7"
  by (simp_all add: demo_a_def demo_simps dt_Send_def kMaxDatagramPayload_def kMaxPacerQueueMs_def)

lemma demo_match: "streams_match (demo_new 100) (demo_new 500)"
  by (simp add: streams_match_def signature_def streams_ok_def demo_simps word_like_def isspace_def)

lemma demo_up_frame [simp]:
  "dt_running (demo_up t)" "dt_enable_srtp (demo_up t) = dt_enable_srtp t" "dt_by_remote_ssrc (demo_up t) = dt_by_remote_ssrc t"
  "dt_streams (demo_up t) = dt_streams t" "dt_srtp_in (demo_up t) = Some 7"
  by (simp_all add: demo_up_def SetSrtpKeys_def demo_srtp_def dt_SetTransportReady_def SetSendFunc_def dt_Init_def dt_emit_def Let_def)

lemma demo_b_eval:
  "dt_running demo_b" "dt_enable_srtp demo_b" "map_of (dt_by_remote_ssrc demo_b) 102 = Some ''data''"
  "\<exists>s. map_of (dt_streams demo_b) ''data'' = Some s \<and> \<not> cf_reliable (st_config s)" "dt_srtp_in demo_b = Some 7"
proof -
  obtain b' where b': "ParseRemoteStreams (\<lambda>_. None) (LocalStreamSdpLines (demo_new 100)) (demo_new 500) = (True, b')"
      "signature b' = signature (demo_new 500)"
      "map_of (dt_by_remote_ssrc b') = map_of (map (\<lambda>(n, s). (st_local_ssrc s, n)) (dt_streams (demo_new 100)))"
    using streams_negotiate [OF demo_match, of "[]" "\<lambda>_. None"] by auto
  have "advances demo_srtp (demo_new 500) b'"
    using keeps_ParseRemoteStreams [of "demo_new 500" "\<lambda>_. None" "LocalStreamSdpLines (demo_new 100)"] b'(1) by (simp add: keeps_advances)
  then have "dt_enable_srtp b'" by (simp add: advances_def demo_new_def new_transport_wf)
  then show "dt_enable_srtp demo_b" by (simp add: demo_b_def b'(1))
  show "dt_running demo_b" "dt_srtp_in demo_b = Some 7" by (simp_all add: demo_b_def)
  show "map_of (dt_by_remote_ssrc demo_b) 102 = Some ''data''" by (simp add: demo_b_def b'(1,3)) (simp add: demo_simps)
  have "map_of (signature b') ''data'' = Some False" unfolding b'(2) by (simp add: signature_def demo_simps)
  then show "\<exists>s. map_of (dt_streams demo_b) ''data'' = Some s \<and> \<not> cf_reliable (st_config s)"
    by (auto simp: demo_b_def b'(1) map_of_signature)
qed

theorem datagram_reaches_same_stream_witness:
  "\<exists>p w pre post q. dt_log (snd (dt_Send no_kcp 5 0 ''data'' [1, 2, 3] demo_a)) =
       dt_log demo_a @ [Pacer (EnqueueRtpPackets [p] ''data'')] \<and>
     dt_log (SendPacket demo_srtp 6 (\<lambda>_. 0) True p (snd (dt_Send no_kcp 5 0 ''data'' [1, 2, 3] demo_a))) =
       dt_log (snd (dt_Send no_kcp 5 0 ''data'' [1, 2, 3] demo_a)) @ pre @ [Wire w] @ post \<and> silent pre \<and> silent post \<and>
     dt_log (OnDatagram no_kcp demo_srtp (\<lambda>_. None) 7 w demo_b) = dt_log demo_b @ [FbGenReceived q, Deliver ''data'' [1, 2, 3]]"
proof -
  obtain s where s: "map_of (dt_streams demo_a) ''data'' = Some s" "\<not> cf_reliable (st_config s)" "st_local_ssrc s = 102"
    using demo_a_eval(1) by auto
  obtain s' where s': "map_of (dt_streams demo_b) ''data'' = Some s'" "\<not> cf_reliable (st_config s')"
    using demo_b_eval(4) by blast
  have snd: "dt_Send no_kcp 5 0 ''data'' [1, 2, 3] demo_a = (0, snd (dt_Send no_kcp 5 0 ''data'' [1, 2, 3] demo_a))"
    using demo_a_eval(2) by (cases "dt_Send no_kcp 5 0 ''data'' [1, 2, 3] demo_a") simp
  define a1 where "a1 = snd (dt_Send no_kcp 5 0 ''data'' [1, 2, 3] demo_a)"
  let ?p = "frame_packet ((st_packetizer s)\<lparr>pk_sequence_number := pk_sequence_number (st_packetizer s) + 1\<rparr>) True (NowMs 5) [1, 2, 3]"
  have "transport_wf demo_a" using reach_invariant [OF demo_a_reach] by simp
  from Send_unreliable [OF this s(1,2) snd] have a1: "dt_log a1 = dt_log demo_a @ [Pacer (EnqueueRtpPackets [?p] ''data'')]" "dt_srtp_out a1 = Some 7"
    using demo_a_eval(4) by (simp_all add: a1_def) (simp add: dt_emit_def put_stream_def)
  have "12 \<le> length (rp_buffer (UpdateSequenceNumber x ?p))" for x by (simp add: frame_update_seq) (simp add: frame_packet_def Let_def)
  then have pass: "srtp_passes demo_srtp 7 7 (rp_buffer (UpdateSequenceNumber x ?p))" for x by (rule demo_srtp_passes)
  have "dt_enable_srtp demo_b = True" "map_of (dt_by_remote_ssrc demo_b) (st_local_ssrc s) = Some ''data''"
    using demo_b_eval(2,3,5) s(3) by simp_all
  from datagram_reaches_same_stream [OF demo_a_reach s(1,2) snd demo_a_eval(3) demo_b_eval(1) this s', folded a1_def, of 6 True "\<lambda>_. None" 7]
  show ?thesis using a1 pass demo_b_eval(5) by (auto simp: a1_def [symmetric])
qed

text \<open>Two peers that registered the same streams find each other's: the description of one, any other lines followed by its
\<^verbatim>\<open>x-data-stream\<close> lines, is accepted by the other, and every SSRC the first one sends with then leads to the stream
of the same name.  The names have no white space and the SSRCs are distinct and not zero.\<close>

theorem stream_lines_negotiate:
  assumes "streams_match a b" "list_all plain_line ls"
  shows "\<exists>b'. ParseRemoteStreams neg (concat (map (\<lambda>l. l @ crlf) ls) @ LocalStreamSdpLines a) b = (True, b') \<and>
     signature b' = signature b \<and>
     (\<forall>(n, s) \<in> set (dt_streams a). map_of (dt_by_remote_ssrc b') (st_local_ssrc s) = Some n)"
proof -
  from streams_negotiate [OF assms] obtain b' where
    b': "ParseRemoteStreams neg (concat (map (\<lambda>l. l @ crlf) ls) @ LocalStreamSdpLines a) b = (True, b')" "signature b' = signature b"
      "map_of (dt_by_remote_ssrc b') = map_of (map (\<lambda>(n, s). (st_local_ssrc s, n)) (dt_streams a))"
    by auto
  have "distinct (map fst (map (\<lambda>(n, s). (st_local_ssrc s, n)) (dt_streams a)))"
    using assms(1) by (simp add: streams_match_def comp_def split_def)
  then have "\<forall>(n, s) \<in> set (dt_streams a). map_of (dt_by_remote_ssrc b') (st_local_ssrc s) = Some n"
    unfolding b'(3) by (auto intro!: map_of_is_SomeI)
  with b' show ?thesis by blast
qed

theorem stream_lines_negotiate_witness:
  "\<exists>b'. ParseRemoteStreams (\<lambda>_. None) (''v=0'' @ crlf @ LocalStreamSdpLines (demo_new 100)) (demo_new 500) = (True, b') \<and>
     map_of (dt_by_remote_ssrc b') 102 = Some ''data''"
  using stream_lines_negotiate [OF demo_match, of "[''v=0'']" "\<lambda>_. None"]
  by (simp add: plain_line_def stream_prefix_def) (fastforce simp: demo_simps)

text \<open>With SRTP enabled nothing leaves in the clear and nothing unauthenticated gets in: whatever sequence of operations a
transport has gone through, every datagram it has sent is the output of an SRTP or SRTCP protect call, and as long as no keys
are installed a packet the pacer releases is dropped and an incoming datagram changes nothing.\<close>

theorem only_protected_datagrams_leave:
  assumes "dt_reach K S ssrc cfgs True t"
  shows "(Wire w \<in> set (dt_log t) \<longrightarrow> protected S w) \<and>
     (\<not> dt_srtp_ready t \<longrightarrow> dt_log (SendPacket S now ans tracked p t) = dt_log t \<and> OnDatagram K S feedback now d t = t)"
proof -
  have r: "transport_wf t" "dt_enable_srtp t" "wire_ok S True (dt_log t)" using reach_invariant [OF assms] by simp_all
  then have "dt_srtp_out t = None \<and> dt_srtp_in t = None" if "\<not> dt_srtp_ready t"
    using that by (simp add: transport_wf_def)
  with r show ?thesis
    by (auto simp: wire_ok_def SendPacket_def OnPacedPacket_def OnDatagram_def HandleRtp_def HandleRtcp_def Let_def)
qed

theorem only_protected_datagrams_leave_witness:
  "\<not> dt_srtp_ready (demo_new 100) \<and> OnDatagram no_kcp demo_srtp (\<lambda>_. None) 5 (replicate 20 0x80) (demo_new 100) = demo_new 100 \<and>
   (\<forall>w. Wire w \<in> set (dt_log (demo_new 100)) \<longrightarrow> protected demo_srtp w)"
proof -
  have r: "dt_reach no_kcp demo_srtp (\<lambda>i. 100 + of_nat i) demo_streams True (demo_new 100)"
    unfolding demo_new_def by (rule reach_new)
  have "\<not> dt_srtp_ready (demo_new 100)" by (simp add: demo_simps)
  with only_protected_datagrams_leave [OF r] show ?thesis by blast
qed

text \<open>Padding never reaches the application: the packets the transport makes up for the pacer are at most 16, with no more
padding than was asked for, and a peer that receives one records it for the congestion feedback and delivers nothing.\<close>

lemma padding_is_never_delivered:
  "length (GeneratePadding now n t) \<le> 16 \<and> sum_list (map rp_padding_size (GeneratePadding now n t)) \<le> n \<and>
   (\<forall>p \<in> set (GeneratePadding now n t).
      \<exists>es. dt_log (receive_packet K now' sz (rp_buffer p) b) = dt_log b @ es \<and> (\<forall>m d. Deliver m d \<notin> set es))"
proof (cases "map_of (dt_streams t) (dt_padding_stream t)")
  case (Some s)
  then show ?thesis
    using padding_loop_bounds [of "[]" "st_local_ssrc s" "NowMs now" n] padding_not_delivered
    by (fastforce simp: GeneratePadding_def padding_packet_def)
qed (simp add: GeneratePadding_def)

end
