(* ===== verification/Dtls_Transport.thy ===== *)
theory Dtls_Transport
  imports Data_Transport_Props
begin

text \<open>
  The DTLS transport, \<^verbatim>\<open>minirtc/src/ice/dtls_transport.{h,cpp}\<close>: the handshake that authenticates the peer by the
  fingerprint of its certificate and yields the SRTP keys.  OpenSSL is a parameter (\<open>ssl_ops\<close>): a handshake call takes
  records from the incoming queue, hands datagrams to the send function and reports whether it is done, wants more or failed.
  \<open>dl_sent\<close> records the datagrams.  An operation that may publish the end of a handshake returns the event; its owner
  calls the done function with it.
\<close>

datatype hs_result = HsDone | HsWant | HsError
datatype dtls_done = DoneNone | DoneVerified | DoneFailed

record 'x ssl_ops =
  ssl_new :: "bool \<Rightarrow> 'x option"
  ssl_handshake :: "'x \<Rightarrow> bytes list \<Rightarrow> hs_result \<times> bytes list \<times> bytes list \<times> 'x"
  ssl_init_finished :: "'x \<Rightarrow> bool"
  ssl_peer_digest :: "'x \<Rightarrow> bytes option"
  ssl_read_all :: "'x \<Rightarrow> bytes list \<Rightarrow> bytes list \<times> 'x"
  ssl_timeout :: "'x \<Rightarrow> bytes list \<times> 'x"
  ssl_profile_gcm :: "'x \<Rightarrow> bool"
  ssl_export :: "'x \<Rightarrow> nat \<Rightarrow> bytes option"

record 'x dtls =
  dl_cert :: bool
  dl_fingerprint :: string
  dl_remote_fingerprint :: string
  dl_is_client :: bool
  dl_ssl :: "'x option"
  dl_incoming :: "bytes list"
  dl_started :: bool
  dl_handshake_done :: bool
  dl_verified :: bool
  dl_failed :: bool
  dl_sent :: "bytes list"

section \<open>Fingerprints\<close>

definition hex_digit :: "nat \<Rightarrow> char" where
  "hex_digit n = (if n < 10 then char_of (48 + n) else char_of (55 + n))"

definition hex_byte :: "u8 \<Rightarrow> string" where
  "hex_byte b = [hex_digit (unat b div 16), hex_digit (unat b mod 16)]"

text \<open>The digest in upper-case hexadecimal, a colon before every byte but the first.\<close>

fun Fingerprint :: "bytes \<Rightarrow> string" where
  "Fingerprint [] = []"
| "Fingerprint [b] = hex_byte b"
| "Fingerprint (b # c # bs) = hex_byte b @ '':'' @ Fingerprint (c # bs)"

section \<open>Operations\<close>

text \<open>The constructor generates the certificate; \<open>None\<close> when that fails.\<close>

definition new_dtls :: "bytes option \<Rightarrow> 'x dtls" where
  "new_dtls cert = \<lparr>dl_cert = (cert \<noteq> None), dl_fingerprint = (case cert of None \<Rightarrow> [] | Some md \<Rightarrow> Fingerprint md),
     dl_remote_fingerprint = [], dl_is_client = False, dl_ssl = None, dl_incoming = [], dl_started = False,
     dl_handshake_done = False, dl_verified = False, dl_failed = False, dl_sent = []\<rparr>"

definition SetRemoteFingerprint :: "string \<Rightarrow> 'x dtls \<Rightarrow> 'x dtls" where
  "SetRemoteFingerprint fp d = d\<lparr>dl_remote_fingerprint := fp\<rparr>"

definition IsDtlsRecord :: "bytes \<Rightarrow> bool" where
  "IsDtlsRecord b \<longleftrightarrow> (if length b < 13 then False
     else if b ! 0 < 20 \<or> 25 < b ! 0 then False else b ! 1 = 0xFE \<and> (b ! 2 = 0xFF \<or> b ! 2 = 0xFD))"

definition dtls_Cleanup :: "'x dtls \<Rightarrow> 'x dtls" where
  "dtls_Cleanup d = d\<lparr>dl_ssl := None, dl_incoming := []\<rparr>"

definition CompleteHandshake :: "'x ssl_ops \<Rightarrow> 'x \<Rightarrow> 'x dtls \<Rightarrow> dtls_done \<times> 'x dtls" where
  "CompleteHandshake X x d =
     (if dl_handshake_done d then (DoneNone, d)
      else let d1 = d\<lparr>dl_handshake_done := True\<rparr> in
        case ssl_peer_digest X x of
          None \<Rightarrow> (DoneFailed, d1\<lparr>dl_failed := True\<rparr>)
        | Some md \<Rightarrow>
            if dl_remote_fingerprint d1 = [] \<or> Fingerprint md \<noteq> dl_remote_fingerprint d1
            then (DoneFailed, d1\<lparr>dl_failed := True\<rparr>)
            else (DoneVerified, d1\<lparr>dl_verified := True\<rparr>))"

definition run_handshake :: "'x ssl_ops \<Rightarrow> 'x \<Rightarrow> 'x dtls \<Rightarrow> hs_result \<times> 'x \<times> 'x dtls" where
  "run_handshake X x d =
     (let (r, rest, out, x1) = ssl_handshake X x (dl_incoming d) in
      (r, x1, d\<lparr>dl_ssl := Some x1, dl_incoming := rest, dl_sent := dl_sent d @ out\<rparr>))"

definition dtls_Start :: "'x ssl_ops \<Rightarrow> bool \<Rightarrow> 'x dtls \<Rightarrow> int \<times> dtls_done \<times> 'x dtls" where
  "dtls_Start X is_client d =
     (if dl_started d then (0, DoneNone, d)
      else let d1 = d\<lparr>dl_started := True\<rparr> in
        if \<not> dl_cert d1 then (- 1, DoneNone, d1\<lparr>dl_failed := True\<rparr>)
        else let d2 = d1\<lparr>dl_is_client := is_client\<rparr> in
          case ssl_new X is_client of
            None \<Rightarrow> (- 1, DoneNone, d2\<lparr>dl_failed := True\<rparr>)
          | Some x \<Rightarrow>
              (case run_handshake X x d2 of
                 (HsDone, x1, d3) \<Rightarrow> (let (done, d4) = CompleteHandshake X x1 d3 in
                                      (if done = DoneFailed then - 1 else 0, done, d4))
               | (HsWant, x1, d3) \<Rightarrow> (0, DoneNone, d3)
               | (HsError, x1, d3) \<Rightarrow> (- 1, DoneFailed, d3\<lparr>dl_failed := True\<rparr>)))"

definition Restart :: "'x dtls \<Rightarrow> 'x dtls" where
  "Restart d = (dtls_Cleanup d)\<lparr>dl_started := False, dl_handshake_done := False, dl_verified := False, dl_failed := False\<rparr>"

definition HandleIncoming :: "'x ssl_ops \<Rightarrow> bytes \<Rightarrow> 'x dtls \<Rightarrow> bool \<times> dtls_done \<times> 'x dtls" where
  "HandleIncoming X b d =
     (if \<not> IsDtlsRecord b then (False, DoneNone, d)
      else case dl_ssl d of
        None \<Rightarrow> (True, DoneNone, if length (dl_incoming d) < 8 then d\<lparr>dl_incoming := dl_incoming d @ [b]\<rparr> else d)
      | Some x \<Rightarrow>
          let d1 = d\<lparr>dl_incoming := dl_incoming d @ [b]\<rparr> in
          if dl_handshake_done d1
          then let (out, x1) = ssl_read_all X x (dl_incoming d1) in
            (True, DoneNone, d1\<lparr>dl_ssl := Some x1, dl_incoming := [], dl_sent := dl_sent d1 @ out\<rparr>)
          else (case run_handshake X x d1 of
                  (HsDone, x1, d2) \<Rightarrow>
                    (if ssl_init_finished X x1 \<and> \<not> dl_handshake_done d2
                     then let (done, d3) = CompleteHandshake X x1 d2 in (True, done, d3) else (True, DoneNone, d2))
                | (HsWant, x1, d2) \<Rightarrow> (True, DoneNone, d2)
                | (HsError, x1, d2) \<Rightarrow> (True, DoneFailed, d2\<lparr>dl_failed := True\<rparr>)))"

definition HandleTimeout :: "'x ssl_ops \<Rightarrow> 'x dtls \<Rightarrow> 'x dtls" where
  "HandleTimeout X d =
     (case dl_ssl d of None \<Rightarrow> d
      | Some x \<Rightarrow> if dl_handshake_done d \<or> dl_failed d then d
          else let (out, x1) = ssl_timeout X x in d\<lparr>dl_ssl := Some x1, dl_sent := dl_sent d @ out\<rparr>)"

text \<open>The exported material is client key, server key, client salt, server salt.\<close>

definition split_keys :: "bool \<Rightarrow> bytes \<Rightarrow> bytes \<times> bytes \<times> bytes \<times> bytes" where
  "split_keys is_client material =
     (let client_key = take 16 material; server_key = take 16 (drop 16 material);
          client_salt = take 12 (drop 32 material); server_salt = take 12 (drop 44 material) in
      if is_client then (client_key, client_salt, server_key, server_salt)
      else (server_key, server_salt, client_key, client_salt))"

definition ExportSrtpKeys :: "'x ssl_ops \<Rightarrow> 'x dtls \<Rightarrow> (bytes \<times> bytes \<times> bytes \<times> bytes) option" where
  "ExportSrtpKeys X d =
     (if \<not> dl_verified d then None
      else case dl_ssl d of None \<Rightarrow> None
      | Some x \<Rightarrow> if \<not> ssl_profile_gcm X x then None else map_option (split_keys (dl_is_client d)) (ssl_export X x 56))"

section \<open>What the state promises\<close>

text \<open>Verified means: a handshake has completed on the session object that is still there, and it has not failed.\<close>

definition dtls_wf :: "'x dtls \<Rightarrow> bool" where
  "dtls_wf d \<longleftrightarrow> (dl_verified d \<longrightarrow> dl_handshake_done d) \<and> (dl_handshake_done d \<longrightarrow> dl_ssl d \<noteq> None) \<and>
     (dl_ssl d \<noteq> None \<longrightarrow> dl_started d)"

lemma dtls_wf_new [simp]: "dtls_wf (new_dtls c)"
  by (simp add: dtls_wf_def new_dtls_def)

lemma dtls_wf_SetRemoteFingerprint [simp]: "dtls_wf (SetRemoteFingerprint fp d) = dtls_wf d"
  by (simp add: dtls_wf_def SetRemoteFingerprint_def)

lemma dtls_wf_Restart [simp]: "dtls_wf (Restart d)"
  by (simp add: dtls_wf_def Restart_def dtls_Cleanup_def)

lemma CompleteHandshake_wf:
  "dtls_wf d \<Longrightarrow> dl_ssl d \<noteq> None \<Longrightarrow> dl_started d \<Longrightarrow> dtls_wf (snd (CompleteHandshake X x d))"
  by (auto simp: dtls_wf_def CompleteHandshake_def Let_def split: option.split)

lemma dtls_wf_Start [simp]: "dtls_wf d \<Longrightarrow> dtls_wf (snd (snd (dtls_Start X c d)))"
  using CompleteHandshake_wf [where X = X]
  by (auto simp: dtls_Start_def run_handshake_def Let_def dtls_wf_def split: option.split prod.split hs_result.split)
     (auto simp: CompleteHandshake_def Let_def split: option.splits if_splits)

lemma dtls_wf_HandleIncoming [simp]: "dtls_wf d \<Longrightarrow> dtls_wf (snd (snd (HandleIncoming X b d)))"
  by (auto simp: HandleIncoming_def run_handshake_def Let_def dtls_wf_def CompleteHandshake_def
      split: option.split prod.split hs_result.split)

lemma dtls_wf_HandleTimeout [simp]: "dtls_wf d \<Longrightarrow> dtls_wf (HandleTimeout X d)"
  by (auto simp: HandleTimeout_def dtls_wf_def Let_def split: option.split prod.split)

text \<open>Once verified, only \<^verbatim>\<open>Restart\<close> takes it back.\<close>

lemma verified_stays:
  assumes "dtls_wf d" "dl_verified d"
  shows "dl_verified (snd (snd (HandleIncoming X b d)))" "dl_verified (HandleTimeout X d)" "snd (snd (dtls_Start X c d)) = d"
    "dl_verified (SetRemoteFingerprint fp d)"
  using assms
  by (auto simp: dtls_wf_def HandleIncoming_def HandleTimeout_def dtls_Start_def SetRemoteFingerprint_def Let_def split: prod.split)

text \<open>A handshake is reported verified only when the peer's certificate has the fingerprint of its description.\<close>

lemma CompleteHandshake_verified:
  "fst (CompleteHandshake X x d) = DoneVerified \<longleftrightarrow>
   \<not> dl_handshake_done d \<and> (\<exists>md. ssl_peer_digest X x = Some md \<and> Fingerprint md = dl_remote_fingerprint d \<and> Fingerprint md \<noteq> [])"
  by (auto simp: CompleteHandshake_def Let_def split: option.split)

text \<open>DTLS records and the RTP and RTCP packets of the same path are told apart by their first byte.\<close>

lemma dtls_not_rtp: "IsDtlsRecord b \<Longrightarrow> \<not> LooksLikeRtp b \<and> \<not> LooksLikeRtcp b"
proof -
  assume "IsDtlsRecord b"
  then have "unat (b ! 0) \<le> 25" by (auto simp: IsDtlsRecord_def word_le_nat_alt word_less_nat_alt split: if_splits)
  then have "drop_bit 6 (b ! 0) = 0" by (simp add: drop_bit_eq_div word_less_nat_alt word_arith_nat_div)
  then show ?thesis by (simp add: LooksLikeRtp_def LooksLikeRtcp_def)
qed

text \<open>Client and server cut the same material into matching halves.\<close>

lemma split_keys_cross:
  "length m = 56 \<Longrightarrow> split_keys True m = (a, b, c, d) \<Longrightarrow>
   split_keys False m = (c, d, a, b) \<and> length a = 16 \<and> length b = 12 \<and> length c = 16 \<and> length d = 12"
  by (auto simp: split_keys_def Let_def)

lemma length_Fingerprint: "md \<noteq> [] \<Longrightarrow> length (Fingerprint md) = 3 * length md - 1"
  by (induction md rule: Fingerprint.induct) (simp_all add: hex_byte_def)

end
