(* ===== verification/Ws_Client.thy ===== *)
theory Ws_Client
  imports Take_Code
begin

text \<open>
  The WebSocket client of the transport library, \<^verbatim>\<open>minirtc/src/ws/ws_client.{h,cpp}\<close>: one connection that is opened again, with
  growing delays, after it failed or closed.  Endpoints (websocketpp) are numbered in the order the client creates them; what
  they answer is an argument, what the client asks of them and reports to its owner is recorded in \<open>wc_log\<close>.  The reconnect
  threads are the list \<open>wc_timers\<close>; \<open>wc_scheduling\<close> holds the calls of \<^verbatim>\<open>ScheduleReconnect\<close> between the report and the lock, where
  other threads may run.  The generation is a 64-bit counter, one per connection attempt, and a natural number here.
\<close>

datatype WsStatus = WsConnecting | WsOpen | WsFailed | WsClosed | WsReconnecting | WsTlsCertError

fun WsStatusName :: "WsStatus \<Rightarrow> string" where
  "WsStatusName WsConnecting = ''connecting''"
| "WsStatusName WsOpen = ''open''"
| "WsStatusName WsFailed = ''failed''"
| "WsStatusName WsClosed = ''closed''"
| "WsStatusName WsReconnecting = ''reconnecting''"
| "WsStatusName WsTlsCertError = ''tls_cert_error''"

datatype ws_effect =
    ReportStatus WsStatus
  | ReportText string
  | ReportBinary bytes
  | EpConnect nat string bool
  | EpSend nat bytes bool
  | EpPing nat
  | EpClose nat
  | EpStop nat

record wsc =
  wc_uri :: string
  wc_secure :: bool
  wc_endpoint :: "nat option"
  wc_next :: nat
  wc_pinging :: bool
  wc_scheduling :: "(nat \<times> nat) list"
  wc_timers :: "(nat \<times> nat) list"
  wc_shutdown :: bool
  wc_open :: bool
  wc_status :: WsStatus
  wc_attempts :: nat
  wc_pong_timeouts :: nat
  wc_generation :: nat
  wc_log :: "ws_effect list"

definition new_ws :: wsc where
  "new_ws = \<lparr>wc_uri = [], wc_secure = False, wc_endpoint = None, wc_next = 0, wc_pinging = False, wc_scheduling = [], wc_timers = [],
     wc_shutdown = False, wc_open = False, wc_status = WsClosed, wc_attempts = 0, wc_pong_timeouts = 0, wc_generation = 0, wc_log = []\<rparr>"

definition ws_say :: "ws_effect list \<Rightarrow> wsc \<Rightarrow> wsc" where
  "ws_say es c = c\<lparr>wc_log := wc_log c @ es\<rparr>"

section \<open>Operations\<close>

definition ws_SetStatus :: "WsStatus \<Rightarrow> wsc \<Rightarrow> wsc" where
  "ws_SetStatus st c = (let c1 = c\<lparr>wc_status := st\<rparr> in if wc_shutdown c1 then c1 else ws_say [ReportStatus st] c1)"

text \<open>\<open>ok\<close>: the endpoint accepts the address.  One that does not is released and its number is free again.\<close>

definition StartEndpointLocked :: "bool \<Rightarrow> wsc \<Rightarrow> wsc" where
  "StartEndpointLocked ok c =
     (let c1 = (case wc_endpoint c of None \<Rightarrow> c | Some e \<Rightarrow> ws_say [EpStop e] c);
          c2 = ws_SetStatus WsConnecting (c1\<lparr>wc_generation := wc_generation c1 + 1, wc_open := False\<rparr>);
          e = wc_next c2;
          c3 = ws_say [EpConnect e (wc_uri c2) (wc_secure c2)] (c2\<lparr>wc_endpoint := Some e, wc_next := e + 1\<rparr>) in
      if \<not> ok then ws_SetStatus WsFailed (c3\<lparr>wc_endpoint := None, wc_next := e\<rparr>) else c3\<lparr>wc_pinging := True\<rparr>)"

definition ws_Connect :: "bool \<Rightarrow> string \<Rightarrow> wsc \<Rightarrow> int \<times> wsc" where
  "ws_Connect ok uri c =
     (if wc_shutdown c then (- 1, c)
      else let c1 = c\<lparr>wc_uri := uri, wc_secure := (take 6 uri = ''wss://'')\<rparr> in
        if \<not> wc_secure c1 \<and> take 5 uri \<noteq> ''ws://'' then (- 1, c1)
        else let c2 = StartEndpointLocked ok c1 in (if wc_endpoint c2 = None then - 1 else 0, c2))"

text \<open>The reconnect threads are joined: they find the client shut down and return.\<close>

definition ws_Shutdown :: "wsc \<Rightarrow> wsc" where
  "ws_Shutdown c =
     (if wc_shutdown c then c
      else ws_say (case wc_endpoint c of None \<Rightarrow> [] | Some e \<Rightarrow> [EpClose e, EpStop e])
             (c\<lparr>wc_shutdown := True, wc_endpoint := None, wc_pinging := False, wc_timers := [], wc_status := WsClosed\<rparr>))"

definition ws_Send :: "bool \<Rightarrow> bytes \<Rightarrow> bool \<Rightarrow> wsc \<Rightarrow> bool \<times> wsc" where
  "ws_Send binary d ok c =
     (case wc_endpoint c of None \<Rightarrow> (False, c)
      | Some e \<Rightarrow> if \<not> wc_open c then (False, c) else (ok, ws_say [EpSend e d binary] c))"

definition ping_tick :: "wsc \<Rightarrow> wsc" where
  "ping_tick c =
     (if wc_shutdown c then c
      else case wc_endpoint c of None \<Rightarrow> c | Some e \<Rightarrow> if wc_open c then ws_say [EpPing e] c else c)"

definition reconnect_delay :: "nat \<Rightarrow> nat" where
  "reconnect_delay attempt = min (push_bit (min attempt 6) 1) 30"

definition ScheduleReconnect :: "wsc \<Rightarrow> wsc" where
  "ScheduleReconnect c =
     (if wc_shutdown c then c
      else let delay = reconnect_delay (wc_attempts c); gen = wc_generation c;
               c1 = ws_SetStatus WsReconnecting (c\<lparr>wc_attempts := wc_attempts c + 1\<rparr>) in
        c1\<lparr>wc_scheduling := wc_scheduling c1 @ [(delay, gen)]\<rparr>)"

text \<open>The rest of it, under the lock, and the thread it starts.\<close>

definition start_timer :: "nat \<times> nat \<Rightarrow> wsc \<Rightarrow> wsc" where
  "start_timer r c =
     (let c1 = c\<lparr>wc_scheduling := remove1 r (wc_scheduling c)\<rparr> in
      if wc_shutdown c1 \<or> wc_generation c1 \<noteq> snd r then c1 else c1\<lparr>wc_timers := wc_timers c1 @ [r]\<rparr>)"

definition reconnect_thread :: "bool \<Rightarrow> nat \<times> nat \<Rightarrow> wsc \<Rightarrow> wsc" where
  "reconnect_thread ok r c =
     (let c1 = c\<lparr>wc_timers := remove1 r (wc_timers c)\<rparr> in
      if wc_shutdown c1 \<or> wc_generation c1 \<noteq> snd r then c1 else StartEndpointLocked ok c1)"

definition ws_OnOpen :: "wsc \<Rightarrow> wsc" where
  "ws_OnOpen c = ws_SetStatus WsOpen (c\<lparr>wc_open := True, wc_attempts := 0, wc_pong_timeouts := 0\<rparr>)"

text \<open>The fail handler looks for the words of a TLS error in the message.\<close>

definition tls_message :: "string \<Rightarrow> bool" where
  "tls_message m = list_ex (\<lambda>w. find_sub w (map tolower m) \<noteq> None) [''ssl'', ''tls'', ''certificate'', ''handshake'']"

definition ws_OnFail :: "bool \<Rightarrow> wsc \<Rightarrow> wsc" where
  "ws_OnFail tls_error c =
     (let c1 = c\<lparr>wc_open := False\<rparr> in
      if tls_error \<and> wc_status c1 = WsTlsCertError then c1 else ScheduleReconnect (ws_SetStatus WsFailed c1))"

definition ws_OnClose :: "wsc \<Rightarrow> wsc" where
  "ws_OnClose c =
     (let c1 = c\<lparr>wc_open := False\<rparr> in
      ScheduleReconnect (if wc_open c then ws_SetStatus WsClosed c1 else c1))"

definition ws_OnPong :: "wsc \<Rightarrow> wsc" where
  "ws_OnPong c = c\<lparr>wc_pong_timeouts := 0\<rparr>"

definition ws_OnPongTimeout :: "wsc \<Rightarrow> wsc" where
  "ws_OnPongTimeout c =
     (let c1 = c\<lparr>wc_pong_timeouts := wc_pong_timeouts c + 1\<rparr> in
      if 2 \<le> wc_pong_timeouts c1 then (case wc_endpoint c1 of None \<Rightarrow> c1 | Some e \<Rightarrow> ws_say [EpClose e] c1) else c1)"

definition ws_OnText :: "string \<Rightarrow> wsc \<Rightarrow> wsc" where
  "ws_OnText payload c = ws_say [ReportText payload] c"

definition ws_OnBinary :: "bytes \<Rightarrow> wsc \<Rightarrow> wsc" where
  "ws_OnBinary payload c = ws_say [ReportBinary payload] c"

text \<open>\<open>trusted\<close>: the trust store of the system accepts the chain.\<close>

definition OnTlsVerify :: "bool \<Rightarrow> bool \<Rightarrow> wsc \<Rightarrow> bool \<times> wsc" where
  "OnTlsVerify preverified trusted c =
     (if \<not> preverified \<and> trusted then (True, c)
      else (preverified, if preverified then c else ws_SetStatus WsTlsCertError c))"

section \<open>Endpoints and threads\<close>

text \<open>What an endpoint does on its own: it opens or fails, and an open one closes.  \<open>Rejected\<close> is a failure that the client takes for
a certificate it must not trust.  The owner connects once; afterwards everything happens in any order.\<close>

datatype phase = Trying | Up | Down | Rejected

inductive ws_step :: "wsc \<times> (nat \<Rightarrow> phase) \<Rightarrow> wsc \<times> (nat \<Rightarrow> phase) \<Rightarrow> bool" where
  ws_connect: "wc_generation c = 0 \<Longrightarrow> ws_step (c, ph) (snd (ws_Connect ok uri c), ph)"
| ws_shutdown: "ws_step (c, ph) (ws_Shutdown c, ph)"
| ws_send: "ws_step (c, ph) (snd (ws_Send binary d ok c), ph)"
| ws_ping: "ws_step (c, ph) (ping_tick c, ph)"
| ws_timer: "r \<in> set (wc_scheduling c) \<Longrightarrow> ws_step (c, ph) (start_timer r c, ph)"
| ws_fire: "r \<in> set (wc_timers c) \<Longrightarrow> ws_step (c, ph) (reconnect_thread ok r c, ph)"
| ws_open: "e < wc_next c \<Longrightarrow> ph e = Trying \<Longrightarrow> ws_step (c, ph) (ws_OnOpen c, ph(e := Up))"
| ws_fail: "e < wc_next c \<Longrightarrow> ph e = Trying \<Longrightarrow>
    ws_step (c, ph) (ws_OnFail (tls_message m) c,
      ph(e := if tls_message m \<and> wc_status c = WsTlsCertError then Rejected else Down))"
| ws_close: "e < wc_next c \<Longrightarrow> ph e = Up \<Longrightarrow> ws_step (c, ph) (ws_OnClose c, ph(e := Down))"
| ws_pong: "ws_step (c, ph) (ws_OnPong c, ph)"
| ws_pong_timeout: "ws_step (c, ph) (ws_OnPongTimeout c, ph)"
| ws_text: "ws_step (c, ph) (ws_OnText payload c, ph)"
| ws_binary: "ws_step (c, ph) (ws_OnBinary data c, ph)"
| ws_verify: "ws_step (c, ph) (snd (OnTlsVerify preverified trusted c), ph)"

inductive ws_reach :: "wsc \<times> (nat \<Rightarrow> phase) \<Rightarrow> bool" where
  ws_start: "ws_reach (new_ws, \<lambda>_. Trying)"
| ws_next: "ws_reach s \<Longrightarrow> ws_step s s' \<Longrightarrow> ws_reach s'"

section \<open>One connection, and another after it\<close>

definition reconnects :: "wsc \<Rightarrow> (nat \<times> nat) set" where
  "reconnects c = set (wc_scheduling c) \<union> set (wc_timers c)"

definition gone :: "phase \<Rightarrow> bool" where
  "gone p \<longleftrightarrow> p = Down \<or> p = Rejected"

definition ws_inv :: "wsc \<Rightarrow> (nat \<Rightarrow> phase) \<Rightarrow> bool" where
  "ws_inv c ph \<longleftrightarrow> wc_next c \<le> wc_generation c \<and> (\<forall>e. wc_next c \<le> e \<longrightarrow> ph e = Trying) \<and>
     (\<forall>e. wc_endpoint c = Some e \<longrightarrow> e < wc_next c) \<and>
     (\<forall>(d, g) \<in> reconnects c. 1 \<le> d \<and> d \<le> 30 \<and> g \<le> wc_generation c) \<and>
     (\<not> wc_shutdown c \<longrightarrow>
        (\<forall>e. e < wc_next c \<and> wc_endpoint c \<noteq> Some e \<longrightarrow> gone (ph e)) \<and>
        (\<forall>e. wc_endpoint c = Some e \<and> ph e = Down \<longrightarrow> (\<exists>d. (d, wc_generation c) \<in> reconnects c)) \<and>
        (\<forall>d. (d, wc_generation c) \<in> reconnects c \<longrightarrow> (\<exists>e. wc_endpoint c = Some e \<and> ph e = Down)))"

lemma reconnect_delay_bounds: "1 \<le> reconnect_delay n" "reconnect_delay n \<le> 30"
  by (simp_all add: reconnect_delay_def push_bit_eq_mult Suc_leI)

text \<open>Operations that leave connection and reconnects as they are.\<close>

lemma ws_inv_frame:
  assumes "ws_inv c ph" "wc_next c' = wc_next c" "wc_generation c' = wc_generation c" "wc_endpoint c' = wc_endpoint c"
    "reconnects c' = reconnects c" "wc_shutdown c' = wc_shutdown c"
  shows "ws_inv c' ph"
  using assms by (simp add: ws_inv_def)

lemma SetStatus_frame [simp]:
  "wc_next (ws_SetStatus st c) = wc_next c" "wc_generation (ws_SetStatus st c) = wc_generation c"
  "wc_endpoint (ws_SetStatus st c) = wc_endpoint c" "wc_scheduling (ws_SetStatus st c) = wc_scheduling c"
  "wc_timers (ws_SetStatus st c) = wc_timers c" "wc_shutdown (ws_SetStatus st c) = wc_shutdown c"
  "wc_attempts (ws_SetStatus st c) = wc_attempts c" "wc_open (ws_SetStatus st c) = wc_open c"
  by (simp_all add: ws_SetStatus_def ws_say_def Let_def)

lemma say_frame [simp]:
  "wc_next (ws_say es c) = wc_next c" "wc_generation (ws_say es c) = wc_generation c"
  "wc_endpoint (ws_say es c) = wc_endpoint c" "wc_scheduling (ws_say es c) = wc_scheduling c"
  "wc_timers (ws_say es c) = wc_timers c" "wc_shutdown (ws_say es c) = wc_shutdown c" "wc_open (ws_say es c) = wc_open c"
  by (simp_all add: ws_say_def)

lemma StartEndpointLocked_frame [simp]:
  "wc_next (StartEndpointLocked ok c) = (if ok then wc_next c + 1 else wc_next c)"
  "wc_generation (StartEndpointLocked ok c) = wc_generation c + 1"
  "wc_endpoint (StartEndpointLocked ok c) = (if ok then Some (wc_next c) else None)"
  "wc_scheduling (StartEndpointLocked ok c) = wc_scheduling c" "wc_timers (StartEndpointLocked ok c) = wc_timers c"
  "wc_shutdown (StartEndpointLocked ok c) = wc_shutdown c"
  by (simp_all add: StartEndpointLocked_def Let_def split: option.split)

text \<open>A start from a state where the old endpoint, if any, is gone.\<close>

lemma ws_inv_start:
  assumes i: "ws_inv c ph" and s: "\<not> wc_shutdown c" and old: "\<And>e. wc_endpoint c = Some e \<Longrightarrow> gone (ph e)"
  shows "ws_inv (StartEndpointLocked ok c) ph"
proof -
  have rs: "reconnects (StartEndpointLocked ok c) = reconnects c" by (simp add: reconnects_def)
  have "gone (ph e)" if "e < wc_next c" for e using i s old that by (cases "wc_endpoint c = Some e") (auto simp: ws_inv_def)
  moreover have "\<not> (d, Suc (wc_generation c)) \<in> reconnects c" for d using i by (force simp: ws_inv_def)
  ultimately show ?thesis
    using i unfolding ws_inv_def rs by (auto simp: less_Suc_eq)
qed

text \<open>The end of the current endpoint leaves a reconnect behind.\<close>

lemma ScheduleReconnect_inv:
  assumes i: "ws_inv c ph" and e: "wc_endpoint c = Some e \<or> wc_shutdown c" "e < wc_next c"
  shows "ws_inv (ScheduleReconnect c) (ph(e := Down))"
proof (cases "wc_shutdown c")
  case True
  then show ?thesis using i e(2) by (auto simp: ScheduleReconnect_def ws_inv_def)
next
  case False
  have rs: "reconnects (ScheduleReconnect c) = insert (reconnect_delay (wc_attempts c), wc_generation c) (reconnects c)"
    using False by (auto simp: ScheduleReconnect_def reconnects_def Let_def)
  have f: "wc_next (ScheduleReconnect c) = wc_next c" "wc_generation (ScheduleReconnect c) = wc_generation c"
    "wc_endpoint (ScheduleReconnect c) = wc_endpoint c" "wc_shutdown (ScheduleReconnect c) = wc_shutdown c"
    using False by (simp_all add: ScheduleReconnect_def Let_def)
  have "wc_endpoint c = Some e" using e(1) False by simp
  then show ?thesis
    using i e(2) False reconnect_delay_bounds [of "wc_attempts c"] unfolding ws_inv_def rs f by (auto simp: gone_def)
qed

lemma current_only:
  assumes "ws_inv c ph" "e < wc_next c" "\<not> gone (ph e)"
  shows "wc_endpoint c = Some e \<or> wc_shutdown c"
  using assms by (auto simp: ws_inv_def)

text \<open>Reconnects of older generations may go.\<close>

lemma ws_inv_drop:
  assumes "ws_inv c ph" "wc_next c' = wc_next c" "wc_generation c' = wc_generation c" "wc_endpoint c' = wc_endpoint c"
    "wc_shutdown c' = wc_shutdown c" "reconnects c' \<subseteq> reconnects c"
    "\<And>d. \<not> wc_shutdown c \<Longrightarrow> (d, wc_generation c) \<in> reconnects c \<Longrightarrow> (d, wc_generation c) \<in> reconnects c'"
  shows "ws_inv c' ph"
  using assms unfolding ws_inv_def by (simp add: subset_iff) blast

lemma start_timer_inv:
  assumes i: "ws_inv c ph" and r: "r \<in> set (wc_scheduling c)"
  shows "ws_inv (start_timer r c) ph"
proof (rule ws_inv_drop [OF i])
  show "reconnects (start_timer r c) \<subseteq> reconnects c"
    using r set_remove1_subset [of r "wc_scheduling c"] by (auto simp: start_timer_def reconnects_def Let_def)
  show "(d, wc_generation c) \<in> reconnects (start_timer r c)" if "\<not> wc_shutdown c" "(d, wc_generation c) \<in> reconnects c" for d
    using that by (cases "(d, wc_generation c) = r") (auto simp: start_timer_def reconnects_def Let_def in_set_remove1)
qed (simp_all add: start_timer_def Let_def)

lemma reconnect_thread_inv:
  assumes i: "ws_inv c ph" and r: "r \<in> set (wc_timers c)"
  shows "ws_inv (reconnect_thread ok r c) ph"
proof -
  let ?c = "c\<lparr>wc_timers := remove1 r (wc_timers c)\<rparr>"
  have sub: "reconnects ?c \<subseteq> reconnects c" using set_remove1_subset [of r "wc_timers c"] by (auto simp: reconnects_def)
  show ?thesis
  proof (cases "wc_shutdown c \<or> wc_generation c \<noteq> snd r")
    case True
    have "ws_inv ?c ph"
    proof (rule ws_inv_drop [OF i _ _ _ _ sub])
      show "(d, wc_generation c) \<in> reconnects ?c" if "\<not> wc_shutdown c" "(d, wc_generation c) \<in> reconnects c" for d
      proof -
        have "(d, wc_generation c) \<noteq> r" using that(1) True by auto
        with that(2) show ?thesis by (simp add: reconnects_def in_set_remove1)
      qed
    qed simp_all
    then show ?thesis using True by (auto simp: reconnect_thread_def)
  next
    case False
    have rs: "reconnects (StartEndpointLocked ok x) = reconnects x" for x by (simp add: reconnects_def)
    have "r \<in> reconnects c" using r by (simp add: reconnects_def)
    then have "(fst r, wc_generation c) \<in> reconnects c" using False by (cases r) auto
    moreover from False have "\<not> wc_shutdown c" by simp
    ultimately obtain e0 where "wc_endpoint c = Some e0" "ph e0 = Down" using i unfolding ws_inv_def by blast
    then have "\<And>e. wc_endpoint c = Some e \<Longrightarrow> gone (ph e)" by (simp add: gone_def)
    from ws_inv_start [OF i _ this] False have s: "ws_inv (StartEndpointLocked ok c) ph" by simp
    have "ws_inv (StartEndpointLocked ok ?c) ph"
    proof (rule ws_inv_drop [OF s])
      show "reconnects (StartEndpointLocked ok ?c) \<subseteq> reconnects (StartEndpointLocked ok c)" using sub by (simp add: rs)
      show "(d, wc_generation (StartEndpointLocked ok c)) \<in> reconnects (StartEndpointLocked ok ?c)"
        if "(d, wc_generation (StartEndpointLocked ok c)) \<in> reconnects (StartEndpointLocked ok c)" for d
        using that i by (force simp: rs ws_inv_def)
    qed simp_all
    then show ?thesis using False by (simp add: reconnect_thread_def)
  qed
qed

lemma ws_step_inv: "ws_step s s' \<Longrightarrow> ws_inv (fst s) (snd s) \<Longrightarrow> ws_inv (fst s') (snd s')"
proof (induction rule: ws_step.induct)
  case (ws_connect c ph ok uri)
  let ?c = "c\<lparr>wc_uri := uri, wc_secure := (take 6 uri = ''wss://'')\<rparr>"
  have i: "ws_inv ?c ph" by (rule ws_inv_frame [where c = c]) (use ws_connect in \<open>simp_all add: reconnects_def\<close>)
  have "wc_endpoint ?c = None" using ws_connect by (auto simp: ws_inv_def)
  then have "ws_inv (StartEndpointLocked ok ?c) ph" if "\<not> wc_shutdown c" using ws_inv_start [OF i] that by simp
  then show ?case using ws_connect i by (auto simp: ws_Connect_def Let_def)
next
  case (ws_timer r c ph)
  then show ?case by (simp add: start_timer_inv)
next
  case (ws_fire r c ph ok)
  then show ?case by (simp add: reconnect_thread_inv)
next
  case (ws_open e c ph)
  then have i: "ws_inv c ph" and cur: "wc_endpoint c = Some e \<or> wc_shutdown c" using current_only [of c ph e] by (simp_all add: gone_def)
  have "ws_inv c (ph(e := Up))" using i cur ws_open.hyps by (auto simp: ws_inv_def)
  then show ?case unfolding ws_OnOpen_def fst_conv snd_conv by (rule ws_inv_frame) (simp_all add: reconnects_def)
next
  case (ws_fail e c ph m)
  then have i: "ws_inv c ph" and cur: "wc_endpoint c = Some e \<or> wc_shutdown c" using current_only [of c ph e] by (simp_all add: gone_def)
  have o: "ws_inv (c\<lparr>wc_open := False\<rparr>) ph" "ws_inv (ws_SetStatus WsFailed (c\<lparr>wc_open := False\<rparr>)) ph"
    by (rule ws_inv_frame [OF i]; simp add: reconnects_def)+
  have rejected: "ws_inv (c\<lparr>wc_open := False\<rparr>) (ph(e := Rejected))" using o(1) cur ws_fail.hyps by (auto simp: ws_inv_def)
  have down: "ws_inv (ScheduleReconnect (ws_SetStatus WsFailed (c\<lparr>wc_open := False\<rparr>))) (ph(e := Down))"
    by (rule ScheduleReconnect_inv [OF o(2)]) (use cur ws_fail.hyps(1) in simp_all)
  show ?case
    by (cases "tls_message m \<and> wc_status c = WsTlsCertError") (use rejected down in \<open>auto simp: ws_OnFail_def Let_def simp del: fun_upd_apply\<close>)
next
  case (ws_close e c ph)
  then have i: "ws_inv c ph" and cur: "wc_endpoint c = Some e \<or> wc_shutdown c" using current_only [of c ph e] by (simp_all add: gone_def)
  have o: "ws_inv (c\<lparr>wc_open := False\<rparr>) ph" "ws_inv (ws_SetStatus WsClosed (c\<lparr>wc_open := False\<rparr>)) ph"
    by (rule ws_inv_frame [OF i]; simp add: reconnects_def)+
  show ?case
    using ScheduleReconnect_inv [OF o(1), of e] ScheduleReconnect_inv [OF o(2), of e] cur ws_close.hyps(1)
    by (auto simp: ws_OnClose_def Let_def simp del: fun_upd_apply)
next
  case (ws_shutdown c ph)
  then show ?case by (auto simp: ws_Shutdown_def ws_inv_def reconnects_def)
qed (auto elim!: ws_inv_frame simp: ws_Send_def ping_tick_def ws_OnPong_def ws_OnPongTimeout_def ws_OnText_def ws_OnBinary_def
      OnTlsVerify_def reconnects_def Let_def split: option.split)

lemma ws_reach_inv: "ws_reach s \<Longrightarrow> ws_inv (fst s) (snd s)"
proof (induction rule: ws_reach.induct)
  case ws_start
  show ?case by (simp add: ws_inv_def new_ws_def reconnects_def)
next
  case (ws_next s s')
  then show ?case by (simp add: ws_step_inv)
qed

text \<open>After a shutdown nothing is connected and no status is reported any more.\<close>

lemma shutdown_is_final:
  assumes "ws_step (c, ph) (c', ph')" "wc_shutdown c" "wc_endpoint c = None"
  shows "wc_shutdown c' \<and> wc_endpoint c' = None \<and>
    (\<exists>es. wc_log c' = wc_log c @ es \<and> list_all (\<lambda>e. case e of ReportText _ \<Rightarrow> True | ReportBinary _ \<Rightarrow> True | _ \<Rightarrow> False) es)"
  using assms
  by (cases rule: ws_step.cases)
     (simp_all add: ws_Connect_def ws_Shutdown_def ws_Send_def ping_tick_def start_timer_def reconnect_thread_def ws_OnOpen_def ws_OnFail_def
        ws_OnClose_def ws_OnPong_def ws_OnPongTimeout_def ws_OnText_def ws_OnBinary_def OnTlsVerify_def ScheduleReconnect_def ws_SetStatus_def
        ws_say_def Let_def)

text \<open>C35. The client has one live connection and opens it again: in every reachable state every endpoint but the current one is gone,
so no late event of an old connection can disturb the new one; when the current one is down, and not for a certificate
that must not be trusted, a reconnect of its generation is under way, after 1 to 30 seconds; and a reconnect never
replaces an endpoint that is not down.  (An endpoint that rejects the address when it is started leaves the client without one.)\<close>

lemma ws_client_keeps_one_connection:
  assumes "ws_reach (c, ph)" "\<not> wc_shutdown c"
  shows "(\<forall>e. e < wc_next c \<and> wc_endpoint c \<noteq> Some e \<longrightarrow> gone (ph e)) \<and>
    (\<forall>e. wc_endpoint c = Some e \<and> ph e = Down \<longrightarrow> (\<exists>d. 1 \<le> d \<and> d \<le> 30 \<and> (d, wc_generation c) \<in> reconnects c)) \<and>
    (\<forall>r ok e. r \<in> set (wc_timers c) \<and> EpStop e \<in> set (drop (length (wc_log c)) (wc_log (reconnect_thread ok r c))) \<longrightarrow> ph e = Down)"
proof -
  have i: "ws_inv c ph" using ws_reach_inv [OF assms(1)] by simp
  have "\<exists>d. 1 \<le> d \<and> d \<le> 30 \<and> (d, wc_generation c) \<in> reconnects c" if h: "wc_endpoint c = Some e" "ph e = Down" for e
  proof -
    from h i assms(2) have "\<exists>d. (d, wc_generation c) \<in> reconnects c" unfolding ws_inv_def by blast
    then obtain d where d: "(d, wc_generation c) \<in> reconnects c" ..
    with i have "1 \<le> d \<and> d \<le> 30" by (auto simp: ws_inv_def)
    with d show ?thesis by blast
  qed
  moreover have "ph e = Down" if r: "r \<in> set (wc_timers c)" and
      s: "EpStop e \<in> set (drop (length (wc_log c)) (wc_log (reconnect_thread ok r c)))" for r ok e
  proof -
    have g: "wc_generation c = snd r" using s by (auto simp: reconnect_thread_def Let_def split: if_splits)
    have e: "wc_endpoint c = Some e"
      using s assms(2) g
      by (auto simp: reconnect_thread_def StartEndpointLocked_def ws_SetStatus_def ws_say_def Let_def split: option.splits if_splits)
    have "(fst r, wc_generation c) \<in> reconnects c" using r g by (auto simp: reconnects_def)
    then show ?thesis using i assms(2) e by (auto simp: ws_inv_def)
  qed
  ultimately show ?thesis using i assms(2) by (auto simp: ws_inv_def)
qed

text \<open>A connection that was refused.\<close>

definition demo_refused :: wsc where
  "demo_refused = ws_OnFail (tls_message ''refused'') (snd (ws_Connect True ''wss://h/ws'' new_ws))"

lemma demo_refused_reach: "ws_reach (demo_refused, (\<lambda>_. Trying)(0 := Down))"
proof -
  have 1: "ws_reach (snd (ws_Connect True ''wss://h/ws'' new_ws), \<lambda>_. Trying)"
    by (rule ws_next [OF ws_start ws_connect]) (simp add: new_ws_def)
  have n: "\<not> tls_message ''refused''" by (simp add: tls_message_def tolower_def)
  have "ws_step (snd (ws_Connect True ''wss://h/ws'' new_ws), \<lambda>_. Trying) (demo_refused, (\<lambda>_. Trying)(0 := Down))"
    using ws_fail [of 0 "snd (ws_Connect True ''wss://h/ws'' new_ws)" "\<lambda>_. Trying" "''refused''"] n
    by (simp add: demo_refused_def ws_Connect_def new_ws_def)
  with 1 show ?thesis by (rule ws_next)
qed

lemma ws_client_keeps_one_connection_witness:
  "wc_endpoint demo_refused = Some 0 \<and> (\<exists>d. 1 \<le> d \<and> d \<le> 30 \<and> (d, 1) \<in> reconnects demo_refused)"
proof -
  have f: "wc_endpoint demo_refused = Some 0" "wc_generation demo_refused = 1" "\<not> wc_shutdown demo_refused"
    by (simp_all add: demo_refused_def ws_OnFail_def ScheduleReconnect_def ws_Connect_def new_ws_def tls_message_def tolower_def Let_def)
  from ws_client_keeps_one_connection [OF demo_refused_reach f(3)] f show ?thesis by fastforce
qed

end
