(* ===== verification/Peer_Connection.thy ===== *)
theory Peer_Connection
  imports Dtls_Transport Peer Json Path_Sanitize Ws_Client
begin

text \<open>
  The client side of signalling and of the sessions, \<^verbatim>\<open>minirtc/src/pc/peer_connection.{h,cpp}\<close>, with the task queue it runs on
  (\<^verbatim>\<open>common/task_queue.h\<close>, tasks without delay run in the order they were posted).

  A session is an object with an identity: \<open>cn_heap\<close> maps pointers to sessions, \<open>cn_sessions\<close> is the table by id.
  WebSocket, ICE, the clock and the JSON library are parameters, collected in \<open>env\<close>: a step reads their answers there and
  records what it asks of them, and every callback into the application, in \<open>cn_log\<close>.  Callbacks of other threads that the
  code posts to the worker are tasks; those it handles at once (datagrams) are operations.  The link impairment the tests
  switch on through the environment is off.
\<close>

section \<open>State\<close>

definition kRelayHeaderSize :: nat where "kRelayHeaderSize = 20"
definition kDtlsTimeoutMs :: int where "kDtlsTimeoutMs = 10000"
definition kSignalProto :: int where "kSignalProto = 1"

datatype IceState = IceNew | IceGathering | IceConnecting | IceConnected | IceCompleted | IceFailed
datatype PendingKind = PCreateShare | PClaim | PCloseShare | PLeave | PSignal

record IceServer =
  is_host :: string
  is_port :: u16
  is_turn :: bool
  is_username :: string
  is_password :: string

record ('k, 's, 'x) psession =
  ps_id :: string
  ps_share_id :: string
  ps_role :: string
  ps_offerer :: bool
  ps_remote_peer_id :: string
  ps_resume_token :: string
  ps_meta_json :: string
  ps_ice_servers :: "IceServer list"
  ps_ice :: bool
  ps_dtls :: "'x dtls option"
  ps_data :: "('k, 's) transport option"
  ps_local_description_sent :: bool
  ps_remote_description_set :: bool
  ps_remote_gathering_done :: bool
  ps_pending_remote_candidates :: "string list"
  ps_relay :: bool
  ps_path_ready :: bool
  ps_transport_ready :: bool
  ps_ended :: bool
  ps_status :: MiniRtcSessionStatus
  ps_created_ms :: int
  ps_dtls_started_ms :: int
  ps_last_stats_ms :: int
  ps_relay_header :: bytes

datatype task =
    TWsStatus WsStatus
  | TWsText string
  | TDtlsDone nat bool
  | TIceState nat IceState
  | TIceCandidate nat string
  | TIceGatheringDone nat
  | TEndSession nat MiniRtcSessionStatus string bool
  | TSwitchToRelay nat
  | THousekeeping

datatype 'j cn_effect =
    WsText 'j
  | WsBinary bytes
  | WsConnect string
  | WsShutdown
  | OnSignal MiniRtcSignalStatus string
  | OnShare MiniRtcShareEvent string string int string
  | OnClaim MiniRtcClaimResult string string string
  | OnSession MiniRtcSessionStatus string string string string MiniRtcPath string
  | OnReceive bytes string string
  | OnNotify string
  | OnStats string net_stats
  | IceCreate nat "IceServer list" MiniRtcTurnMode bool
  | IceGather nat
  | IceSetRemote nat string
  | IceAddRemote nat string
  | IceRemoteDone nat
  | IceSend nat bytes
  | IceClose nat

record ('k, 's, 'x, 'j) conn =
  cn_params :: PeerConfig
  cn_notifications :: bool
  cn_net_stats :: bool
  cn_ws :: bool
  cn_worker :: bool
  cn_stopping :: bool
  cn_tasks :: "task list"
  cn_housekeeping_pending :: bool
  cn_streams :: "stream_config list"
  cn_connected :: bool
  cn_hello_sent :: bool
  cn_peer_id :: string
  cn_ice_servers :: "IceServer list"
  cn_next_request_id :: int
  cn_pending :: "(int \<times> PendingKind) list"
  cn_sessions :: "(string \<times> nat) list"
  cn_heap :: "nat \<Rightarrow> ('k, 's, 'x) psession option"
  cn_next :: nat
  cn_log :: "'j cn_effect list"

record ('k, 's, 'x, 'j) env =
  en_json :: "'j json_ops"
  en_parse :: "string \<Rightarrow> 'j option"
  en_dump :: "'j \<Rightarrow> string"
  en_number :: "'j \<Rightarrow> int option"
  en_now :: int
  en_text_ok :: bool
  en_binary_ok :: bool
  en_connect :: int
  en_ice_local :: string
  en_ice_set_remote :: int
  en_ice_send :: int
  en_pair_relay :: bool
  en_cert :: "bytes option"
  en_ssrc :: "nat \<Rightarrow> u32"
  en_neg :: "nat \<Rightarrow> u32 option"
  en_queue_ms :: int
  en_feedback :: "bytes \<Rightarrow> nat option"
  en_kcp :: "'k kcp_ops"
  en_srtp :: "'s srtp_ops"
  en_ssl :: "'x ssl_ops"

definition new_conn :: "PeerConfig \<Rightarrow> bool \<Rightarrow> bool \<Rightarrow> ('k, 's, 'x, 'j) conn" where
  "new_conn p notifications net_stats = \<lparr>cn_params = p, cn_notifications = notifications, cn_net_stats = net_stats,
     cn_ws = False, cn_worker = False, cn_stopping = False, cn_tasks = [], cn_housekeeping_pending = False, cn_streams = [],
     cn_connected = False, cn_hello_sent = False, cn_peer_id = [], cn_ice_servers = [], cn_next_request_id = 1,
     cn_pending = [], cn_sessions = [], cn_heap = (\<lambda>_. None), cn_next = 0, cn_log = []\<rparr>"

definition say :: "'j cn_effect list \<Rightarrow> ('k, 's, 'x, 'j) conn \<Rightarrow> ('k, 's, 'x, 'j) conn" where
  "say es c = c\<lparr>cn_log := cn_log c @ es\<rparr>"

definition upd :: "nat \<Rightarrow> (('k, 's, 'x) psession \<Rightarrow> ('k, 's, 'x) psession) \<Rightarrow> ('k, 's, 'x, 'j) conn \<Rightarrow> ('k, 's, 'x, 'j) conn" where
  "upd p f c = c\<lparr>cn_heap := (cn_heap c)(p := map_option f (cn_heap c p))\<rparr>"

definition PostTask :: "task \<Rightarrow> ('k, 's, 'x, 'j) conn \<Rightarrow> ('k, 's, 'x, 'j) conn" where
  "PostTask t c = (if cn_worker c \<and> \<not> cn_stopping c then c\<lparr>cn_tasks := cn_tasks c @ [t]\<rparr> else c)"

section \<open>Reading messages\<close>

definition Str :: "('k, 's, 'x, 'j) env \<Rightarrow> 'j \<Rightarrow> string \<Rightarrow> string" where
  "Str E j key = (case j_find (en_json E) j key of None \<Rightarrow> []
     | Some v \<Rightarrow> if \<not> j_is_string (en_json E) v then [] else (case j_get_string (en_json E) v of None \<Rightarrow> [] | Some s \<Rightarrow> s))"

definition Int64 :: "('k, 's, 'x, 'j) env \<Rightarrow> 'j \<Rightarrow> string \<Rightarrow> int \<Rightarrow> int" where
  "Int64 E j key d = (case j_find (en_json E) j key of None \<Rightarrow> d
     | Some v \<Rightarrow> (case en_number E v of None \<Rightarrow> d | Some n \<Rightarrow> n))"

definition fp_prefix :: string where "fp_prefix = ''a=fingerprint:sha-256 ''"

fun fp_lines :: "string list \<Rightarrow> string" where
  "fp_lines [] = []"
| "fp_lines (l # ls) =
     (let line = strip_cr l in
      if take (length fp_prefix) line = fp_prefix
      then (let fp = drop (length fp_prefix) line in if length fp \<noteq> 95 then [] else map toupper fp)
      else fp_lines ls)"

definition ExtractFingerprint :: "string \<Rightarrow> string" where
  "ExtractFingerprint sdp = fp_lines (getlines sdp)"

text \<open>\<^verbatim>\<open>std::atoi\<close>.\<close>

definition atoi :: "string \<Rightarrow> int" where
  "atoi s = (let r = dropWhile isspace s; neg = (r \<noteq> [] \<and> hd r = CHR ''-'');
                 ds = takeWhile is_digit (if r \<noteq> [] \<and> (hd r = CHR ''-'' \<or> hd r = CHR ''+'') then tl r else r);
                 n = int (digits_value ds) in if neg then - n else n)"

text \<open>The part of a url behind its scheme: the query, then host and port.\<close>

definition url_server :: "string \<Rightarrow> IceServer \<Rightarrow> IceServer option" where
  "url_server url s =
     (let q = takeWhile (\<lambda>c. c \<noteq> CHR ''?'') url in
      if q \<noteq> url \<and> find_sub ''transport=tcp'' (drop (length q) url) \<noteq> None then None
      else let tail = takeWhile (\<lambda>c. c \<noteq> CHR '':'') (rev q);
               s1 = (if CHR '':'' \<in> set q \<and> CHR '']'' \<notin> set q
                     then s\<lparr>is_host := take (length q - length tail - 1) q, is_port := of_int (atoi (rev tail))\<rparr>
                     else s\<lparr>is_host := q\<rparr>) in
        if is_host s1 = [] \<or> is_port s1 = 0 then None else Some s1)"

definition ice_url :: "('k, 's, 'x, 'j) env \<Rightarrow> 'j \<Rightarrow> 'j \<Rightarrow> IceServer option" where
  "ice_url E srv u =
     (let s = \<lparr>is_host = [], is_port = 3478, is_turn = False, is_username = [], is_password = []\<rparr> in
      if \<not> j_is_string (en_json E) u then None
      else case j_get_string (en_json E) u of None \<Rightarrow> None
      | Some url \<Rightarrow>
          if take 5 url = ''stun:'' then url_server (drop 5 url) s
          else if take 5 url = ''turn:''
          then url_server (drop 5 url) (s\<lparr>is_turn := True, is_username := Str E srv ''username'', is_password := Str E srv ''credential''\<rparr>)
          else None)"

definition ParseIceServers :: "('k, 's, 'x, 'j) env \<Rightarrow> 'j \<Rightarrow> IceServer list" where
  "ParseIceServers E j =
     (let J = en_json E in
      case j_find J j ''ice_servers'' of None \<Rightarrow> []
      | Some a \<Rightarrow> if \<not> j_is_array J a then []
          else concat (map (\<lambda>srv. case j_find J srv ''urls'' of None \<Rightarrow> []
                             | Some urls \<Rightarrow> if \<not> j_is_array J urls then [] else List.map_filter (ice_url E srv) (j_elems J urls))
                       (j_elems J a)))"

section \<open>Streams\<close>

definition AddDataStream :: "string \<Rightarrow> bool \<Rightarrow> ('k, 's, 'x, 'j) conn \<Rightarrow> int \<times> ('k, 's, 'x, 'j) conn" where
  "AddDataStream name reliable c =
     (if cn_connected c then (- 1, c)
      else if name \<in> cf_name ` set (cn_streams c) then (0, c)
      else (0, c\<lparr>cn_streams := cn_streams c @ [\<lparr>cf_name = name, cf_reliable = reliable, cf_kcp_window = 1024\<rparr>]\<rparr>))"

fun set_window :: "string \<Rightarrow> int \<Rightarrow> stream_config list \<Rightarrow> int \<times> stream_config list" where
  "set_window name wnd [] = (- 1, [])"
| "set_window name wnd (s # ss) =
     (if cf_name s = name then (if \<not> cf_reliable s \<or> wnd < 16 then (- 1, s # ss) else (0, s\<lparr>cf_kcp_window := wnd\<rparr> # ss))
      else let (r, ss') = set_window name wnd ss in (r, s # ss'))"

definition SetReliableWindow :: "string \<Rightarrow> int \<Rightarrow> ('k, 's, 'x, 'j) conn \<Rightarrow> int \<times> ('k, 's, 'x, 'j) conn" where
  "SetReliableWindow name wnd c = (let (r, ss) = set_window name wnd (cn_streams c) in (r, c\<lparr>cn_streams := ss\<rparr>))"

section \<open>Requests and callbacks\<close>

definition SendRequest ::
  "('k, 's, 'x, 'j) env \<Rightarrow> (string \<times> 'j) list \<Rightarrow> PendingKind \<Rightarrow> ('k, 's, 'x, 'j) conn \<Rightarrow> int \<times> ('k, 's, 'x, 'j) conn" where
  "SendRequest E members kind c =
     (if \<not> cn_ws c \<or> \<not> cn_connected c then (- 1, c)
      else let ident = cn_next_request_id c;
               c1 = c\<lparr>cn_next_request_id := ident + 1, cn_pending := omap_put ident kind (cn_pending c)\<rparr>;
               c2 = say [WsText (j_object (en_json E) (members @ [(''id'', j_int (en_json E) ident)]))] c1 in
        if en_text_ok E then (ident, c2)
        else (- 1, c2\<lparr>cn_pending := filter (\<lambda>(i, _). i \<noteq> ident) (cn_pending c2)\<rparr>))"

definition erase_pending :: "int \<Rightarrow> ('k, 's, 'x, 'j) conn \<Rightarrow> ('k, 's, 'x, 'j) conn" where
  "erase_pending ident c = c\<lparr>cn_pending := filter (\<lambda>(i, _). i \<noteq> ident) (cn_pending c)\<rparr>"

definition cn_CreateShare ::
  "('k, 's, 'x, 'j) env \<Rightarrow> string \<Rightarrow> int \<Rightarrow> string \<Rightarrow> ('k, 's, 'x, 'j) conn \<Rightarrow> int \<times> ('k, 's, 'x, 'j) conn" where
  "cn_CreateShare E mode ttl_sec meta_json c =
     (let J = en_json E;
          base = [(''type'', j_string J ''create_share''), (''mode'', j_string J (if mode = [] then ''once'' else mode))] @
                 (if 0 < ttl_sec then [(''ttl_sec'', j_int J ttl_sec)] else []) in
      if meta_json \<noteq> [] \<and> en_parse E meta_json = None then (- 1, c)
      else let members = base @ (case en_parse E meta_json of Some m \<Rightarrow> if meta_json \<noteq> [] then [(''meta'', m)] else [] | None \<Rightarrow> []);
               (r, c1) = SendRequest E members PCreateShare c in
        (if 0 < r then 0 else - 1, c1))"

definition cn_CloseShare :: "('k, 's, 'x, 'j) env \<Rightarrow> string \<Rightarrow> ('k, 's, 'x, 'j) conn \<Rightarrow> int \<times> ('k, 's, 'x, 'j) conn" where
  "cn_CloseShare E share_id c =
     (let J = en_json E;
          (r, c1) = SendRequest E [(''type'', j_string J ''close_share''), (''share_id'', j_string J share_id)] PCloseShare c in
      (if 0 < r then 0 else - 1, c1))"

definition cn_Claim :: "('k, 's, 'x, 'j) env \<Rightarrow> string \<Rightarrow> string \<Rightarrow> ('k, 's, 'x, 'j) conn \<Rightarrow> int \<times> ('k, 's, 'x, 'j) conn" where
  "cn_Claim E code resume_token c =
     (let J = en_json E;
          (r, c1) = SendRequest E [(''type'', j_string J ''claim''),
                      (if resume_token \<noteq> [] then (''resume_token'', j_string J resume_token) else (''code'', j_string J code))] PClaim c in
      (if 0 < r then 0 else - 1, c1))"

definition SendSignal :: "('k, 's, 'x, 'j) env \<Rightarrow> nat \<Rightarrow> (string \<times> 'j) list \<Rightarrow> ('k, 's, 'x, 'j) conn \<Rightarrow> ('k, 's, 'x, 'j) conn" where
  "SendSignal E p payload c =
     (let J = en_json E in
      case cn_heap c p of None \<Rightarrow> c
      | Some s \<Rightarrow> if \<not> cn_ws c then c
          else say [WsText (j_object J [(''type'', j_string J ''signal''), (''session_id'', j_string J (ps_id s)),
                                         (''to'', j_string J (ps_remote_peer_id s)), (''payload'', j_object J payload)])] c)"

definition session_path :: "('k, 's, 'x) psession \<Rightarrow> MiniRtcPath" where
  "session_path s = (if ps_relay s then PathWsRelay else case ps_data s of None \<Rightarrow> PathUnknown | Some t \<Rightarrow> le_path (Estimate t))"

definition NotifySession :: "nat \<Rightarrow> MiniRtcSessionStatus \<Rightarrow> string \<Rightarrow> ('k, 's, 'x, 'j) conn \<Rightarrow> ('k, 's, 'x, 'j) conn" where
  "NotifySession p status reason c =
     (case cn_heap c p of None \<Rightarrow> c
      | Some s \<Rightarrow> say [OnSession status (ps_id s) (ps_role s) (ps_resume_token s) (ps_meta_json s) (session_path s) reason] c)"

section \<open>The end of a session\<close>

definition FindSession :: "string \<Rightarrow> ('k, 's, 'x, 'j) conn \<Rightarrow> nat option" where
  "FindSession ident c = map_of (cn_sessions c) ident"

definition EndSession ::
  "('k, 's, 'x, 'j) env \<Rightarrow> nat \<Rightarrow> MiniRtcSessionStatus \<Rightarrow> string \<Rightarrow> bool \<Rightarrow> ('k, 's, 'x, 'j) conn \<Rightarrow> ('k, 's, 'x, 'j) conn" where
  "EndSession E p status reason notify_server c =
     (case cn_heap c p of None \<Rightarrow> c
      | Some s \<Rightarrow>
          if ps_ended s then c
          else let J = en_json E;
                   c1 = upd p (\<lambda>s. s\<lparr>ps_ended := True, ps_status := status\<rparr>) c;
                   c2 = (if FindSession (ps_id s) c1 = Some p
                         then c1\<lparr>cn_sessions := filter (\<lambda>(i, _). i \<noteq> ps_id s) (cn_sessions c1)\<rparr> else c1);
                   c3 = (if notify_server \<and> cn_ws c2 \<and> cn_connected c2
                         then snd (SendRequest E [(''type'', j_string J ''leave''), (''session_id'', j_string J (ps_id s))] PLeave c2)
                         else c2);
                   c4 = upd p (\<lambda>s. s\<lparr>ps_data := map_option dt_Destroy (ps_data s)\<rparr>) c3;
                   c5 = (if ps_ice s then say [IceClose p] c4 else c4) in
            NotifySession p status reason c5)"

definition EndAllSessions :: "('k, 's, 'x, 'j) env \<Rightarrow> string \<Rightarrow> ('k, 's, 'x, 'j) conn \<Rightarrow> ('k, 's, 'x, 'j) conn" where
  "EndAllSessions E reason c = fold (\<lambda>p. EndSession E p SessionClosed reason False) (map snd (cn_sessions c)) c"

definition cn_Leave :: "('k, 's, 'x, 'j) env \<Rightarrow> string \<Rightarrow> ('k, 's, 'x, 'j) conn \<Rightarrow> int \<times> ('k, 's, 'x, 'j) conn" where
  "cn_Leave E session_id c =
     (case FindSession session_id c of None \<Rightarrow> (- 1, c)
      | Some p \<Rightarrow> (0, EndSession E p SessionClosed ''local_leave'' True c))"

section \<open>The datagram path\<close>

text \<open>\<open>send_via_path\<close> is the send function of the transport and of DTLS: the result and what goes out.\<close>

definition send_via_path :: "('k, 's, 'x, 'j) env \<Rightarrow> bool \<Rightarrow> nat \<Rightarrow> ('k, 's, 'x) psession \<Rightarrow> bytes \<Rightarrow> int \<times> 'j cn_effect list" where
  "send_via_path E ws p s d =
     (if ps_ended s then (- 1, [])
      else if ps_relay s
      then (if \<not> ws \<or> 65536 < length d + kRelayHeaderSize then (- 1, [])
            else (if en_binary_ok E then 0 else - 1, [WsBinary (ps_relay_header s @ d)]))
      else if ps_ice s then (en_ice_send E, [IceSend p d]) else (- 1, []))"

text \<open>What the transport's log means outside: datagrams go to the path, data to the application.\<close>

definition out_effects :: "('k, 's, 'x, 'j) env \<Rightarrow> bool \<Rightarrow> nat \<Rightarrow> ('k, 's, 'x) psession \<Rightarrow> effect list \<Rightarrow> 'j cn_effect list" where
  "out_effects E ws p s es = concat (map (\<lambda>e. case e of
       Wire d \<Rightarrow> snd (send_via_path E ws p s d)
     | Deliver name d \<Rightarrow> [OnReceive d (ps_id s) name]
     | _ \<Rightarrow> []) es)"

definition with_data ::
  "('k, 's, 'x, 'j) env \<Rightarrow> nat \<Rightarrow> ((bytes \<Rightarrow> int) \<Rightarrow> ('k, 's) transport \<Rightarrow> 'r \<times> ('k, 's) transport) \<Rightarrow> 'r \<Rightarrow>
   ('k, 's, 'x, 'j) conn \<Rightarrow> 'r \<times> ('k, 's, 'x, 'j) conn" where
  "with_data E p f r c =
     (case cn_heap c p of None \<Rightarrow> (r, c)
      | Some s \<Rightarrow> (case ps_data s of None \<Rightarrow> (r, c)
          | Some t \<Rightarrow>
              let (r1, t1) = f (\<lambda>d. fst (send_via_path E (cn_ws c) p s d)) t in
              (r1, say (out_effects E (cn_ws c) p s (drop (length (dt_log t)) (dt_log t1)))
                     (upd p (\<lambda>s. s\<lparr>ps_data := Some t1\<rparr>) c))))"

definition put_dtls :: "('k, 's, 'x, 'j) env \<Rightarrow> nat \<Rightarrow> 'x dtls \<Rightarrow> 'x dtls \<Rightarrow> ('k, 's, 'x, 'j) conn \<Rightarrow> ('k, 's, 'x, 'j) conn" where
  "put_dtls E p d d1 c =
     (case cn_heap c p of None \<Rightarrow> c
      | Some s \<Rightarrow> say (concat (map (\<lambda>b. snd (send_via_path E (cn_ws c) p s b)) (drop (length (dl_sent d)) (dl_sent d1))))
          (upd p (\<lambda>s. s\<lparr>ps_dtls := Some d1\<rparr>) c))"

definition Publish :: "nat \<Rightarrow> dtls_done \<Rightarrow> ('k, 's, 'x, 'j) conn \<Rightarrow> ('k, 's, 'x, 'j) conn" where
  "Publish p done c = (if done = DoneNone then c else PostTask (TDtlsDone p (done = DoneVerified)) c)"

definition MaybeStartDtls :: "('k, 's, 'x, 'j) env \<Rightarrow> nat \<Rightarrow> ('k, 's, 'x, 'j) conn \<Rightarrow> ('k, 's, 'x, 'j) conn" where
  "MaybeStartDtls E p c =
     (case cn_heap c p of None \<Rightarrow> c
      | Some s \<Rightarrow> (case ps_dtls s of None \<Rightarrow> c
          | Some d \<Rightarrow>
              if dl_started d then c
              else if dl_remote_fingerprint d = [] then c
              else let c1 = upd p (\<lambda>s. s\<lparr>ps_dtls_started_ms := en_now E\<rparr>) c;
                       (r, done, d1) = dtls_Start (en_ssl E) (ps_offerer s) d;
                       c2 = Publish p done (put_dtls E p d d1 c1) in
                if r \<noteq> 0 then PostTask (TEndSession p SessionFailed ''dtls_failed'' True) c2 else c2))"

definition OnPathReady :: "('k, 's, 'x, 'j) env \<Rightarrow> nat \<Rightarrow> ('k, 's, 'x, 'j) conn \<Rightarrow> ('k, 's, 'x, 'j) conn" where
  "OnPathReady E p c =
     (case cn_heap c p of None \<Rightarrow> c
      | Some s \<Rightarrow>
          if ps_dtls s \<noteq> None then MaybeStartDtls E p c
          else NotifySession p SessionConnected []
                 (upd p (\<lambda>s. s\<lparr>ps_transport_ready := True, ps_status := SessionConnected,
                               ps_data := map_option (dt_SetTransportReady True) (ps_data s)\<rparr>) c))"

definition SwitchToRelay :: "('k, 's, 'x, 'j) env \<Rightarrow> nat \<Rightarrow> ('k, 's, 'x, 'j) conn \<Rightarrow> ('k, 's, 'x, 'j) conn" where
  "SwitchToRelay E p c =
     (case cn_heap c p of None \<Rightarrow> c
      | Some s \<Rightarrow>
          if ps_relay s \<or> ps_ended s then c
          else let c1 = upd p (\<lambda>s. s\<lparr>ps_relay := True, ps_path_ready := True, ps_transport_ready := False\<rparr>) c;
                   c2 = SendSignal E p [(''relay'', j_bool (en_json E) True)] c1;
                   c3 = upd p (\<lambda>s. s\<lparr>ps_dtls := map_option Restart (ps_dtls s),
                                     ps_data := map_option (SetRelayPath True \<circ> dt_SetTransportReady False) (ps_data s)\<rparr>) c2 in
            OnPathReady E p c3)"

section \<open>The start of a session\<close>

definition crlf_lines :: "string list \<Rightarrow> string" where
  "crlf_lines ls = concat (map (\<lambda>l. l @ crlf) ls)"

definition local_sdp :: "string \<Rightarrow> ('k, 's, 'x) psession \<Rightarrow> string" where
  "local_sdp ice s =
     crlf_lines [''v=0'', ''o=- 0 0 IN IP4 0.0.0.0'', ''s=-'', ''t=0 0'', ''m=application 9 UDP/DTLS/RTP/SAVPF 120 121'',
       ''c=IN IP4 0.0.0.0'', ''a=rtcp-mux'', ''a=x-minirtc-version:1''] @ ice @
     (case ps_dtls s of None \<Rightarrow> []
      | Some d \<Rightarrow> crlf_lines [fp_prefix @ dl_fingerprint d, ''a=setup:'' @ (if ps_offerer s then ''actpass'' else ''active'')]) @
     (case ps_data s of None \<Rightarrow> [] | Some t \<Rightarrow> LocalStreamSdpLines t)"

definition SendLocalDescription :: "('k, 's, 'x, 'j) env \<Rightarrow> nat \<Rightarrow> string \<Rightarrow> ('k, 's, 'x, 'j) conn \<Rightarrow> ('k, 's, 'x, 'j) conn" where
  "SendLocalDescription E p kind c =
     (case cn_heap c p of None \<Rightarrow> c
      | Some s \<Rightarrow>
          let J = en_json E; c1 = upd p (\<lambda>s. s\<lparr>ps_local_description_sent := True\<rparr>) c in
          SendSignal E p [(''sdp'', j_string J (local_sdp (en_ice_local E) s)), (''kind'', j_string J kind)] c1)"

definition StartSession :: "('k, 's, 'x, 'j) env \<Rightarrow> nat \<Rightarrow> ('k, 's, 'x, 'j) conn \<Rightarrow> ('k, 's, 'x, 'j) conn" where
  "StartSession E p c =
     (case cn_heap c p of None \<Rightarrow> c
      | Some s \<Rightarrow>
          let P = cn_params c;
              t = dt_Init (en_now E) (new_transport (en_ssrc E) (cn_streams c) (pc_enable_srtp P));
              c1 = upd p (\<lambda>s. s\<lparr>ps_data := Some (SetSendFunc t), ps_ice := True,
                                ps_dtls := (if pc_enable_srtp P then Some (new_dtls (en_cert E)) else ps_dtls s)\<rparr>) c;
              c2 = say [IceCreate p (ps_ice_servers s) (pc_turn_mode P) (pc_enable_upnp P \<and> pc_turn_mode P \<noteq> TurnForce)] c1 in
          if pc_force_ws_relay P
          then SwitchToRelay E p (if ps_offerer s then SendLocalDescription E p ''offer'' c2 else c2)
          else if ps_offerer s then say [IceGather p] (SendLocalDescription E p ''offer'' c2) else c2)"

definition char_byte :: "char \<Rightarrow> u8" where "char_byte ch = of_nat (of_char ch)"

definition relay_header :: "string \<Rightarrow> bytes" where
  "relay_header sid = [67, 82, 1, 0] @ map char_byte (take 16 sid) @ replicate (16 - length sid) 0"

definition new_psession :: "('k, 's, 'x, 'j) env \<Rightarrow> IceServer list \<Rightarrow> 'j \<Rightarrow> ('k, 's, 'x) psession" where
  "new_psession E fallback j =
     (let sid = Str E j ''session_id''; servers = ParseIceServers E j in
      \<lparr>ps_id = sid, ps_share_id = Str E j ''share_id'', ps_role = Str E j ''role'', ps_offerer = (Str E j ''role'' = ''receiver''),
       ps_remote_peer_id = Str E j ''remote_peer_id'', ps_resume_token = Str E j ''resume_token'',
       ps_meta_json = (case j_find (en_json E) j ''meta'' of None \<Rightarrow> [] | Some m \<Rightarrow> if j_is_null (en_json E) m then [] else en_dump E m),
       ps_ice_servers = (if servers = [] then fallback else servers), ps_ice = False, ps_dtls = None, ps_data = None,
       ps_local_description_sent = False, ps_remote_description_set = False, ps_remote_gathering_done = False,
       ps_pending_remote_candidates = [], ps_relay = False, ps_path_ready = False, ps_transport_ready = False, ps_ended = False,
       ps_status = SessionConnecting, ps_created_ms = en_now E, ps_dtls_started_ms = 0, ps_last_stats_ms = en_now E,
       ps_relay_header = relay_header sid\<rparr>)"

definition HandleSessionStart :: "('k, 's, 'x, 'j) env \<Rightarrow> 'j \<Rightarrow> ('k, 's, 'x, 'j) conn \<Rightarrow> ('k, 's, 'x, 'j) conn" where
  "HandleSessionStart E j c =
     (let sid = Str E j ''session_id''; req = Int64 E j ''id'' (- 1) in
      if sid = [] then c
      else let c1 = (if 0 < req then erase_pending req c else c);
               p = cn_next c1;
               s = new_psession E (cn_ice_servers c1) j;
               c2 = c1\<lparr>cn_heap := (cn_heap c1)(p \<mapsto> s), cn_next := p + 1\<rparr>;
               c3 = (case FindSession sid c2 of None \<Rightarrow> c2 | Some old \<Rightarrow> EndSession E old SessionClosed ''resumed'' False c2);
               c4 = c3\<lparr>cn_sessions := omap_put sid p (cn_sessions c3)\<rparr>;
               c5 = say [if ps_role s = ''receiver'' then OnClaim ClaimOk sid (ps_resume_token s) []
                         else OnShare ShareClaimed (ps_share_id s) [] 0 sid] c4 in
        StartSession E p (NotifySession p SessionConnecting [] c5))"

section \<open>Negotiation\<close>

definition ApplyRemoteDescription :: "('k, 's, 'x, 'j) env \<Rightarrow> nat \<Rightarrow> string \<Rightarrow> ('k, 's, 'x, 'j) conn \<Rightarrow> bool \<times> ('k, 's, 'x, 'j) conn" where
  "ApplyRemoteDescription E p sdp c =
     (case cn_heap c p of None \<Rightarrow> (False, c)
      | Some s \<Rightarrow>
          if ps_dtls s \<noteq> None \<and> ExtractFingerprint sdp = [] then (False, c)
          else let c1 = upd p (\<lambda>s. s\<lparr>ps_dtls := map_option (SetRemoteFingerprint (ExtractFingerprint sdp)) (ps_dtls s)\<rparr>) c;
                   (ok, c2) = with_data E p (\<lambda>_. ParseRemoteStreams (en_neg E) sdp) False c1 in
            if \<not> ok then (False, c2)
            else let c3 = say [IceSetRemote p sdp] c2 in
              if en_ice_set_remote E \<noteq> 0 then (False, c3)
              else let c4 = upd p (\<lambda>s. s\<lparr>ps_remote_description_set := True, ps_pending_remote_candidates := []\<rparr>) c3;
                       c5 = say (map (IceAddRemote p) (ps_pending_remote_candidates s) @
                                 (if ps_remote_gathering_done s then [IceRemoteDone p] else []) @
                                 (if \<not> ps_offerer s \<and> \<not> pc_force_ws_relay (cn_params c) then [IceGather p] else [])) c4 in
                (True, c5))"

definition HandleSignal :: "('k, 's, 'x, 'j) env \<Rightarrow> 'j \<Rightarrow> ('k, 's, 'x, 'j) conn \<Rightarrow> ('k, 's, 'x, 'j) conn" where
  "HandleSignal E j c =
     (let J = en_json E in
      case FindSession (Str E j ''session_id'') c of None \<Rightarrow> c
      | Some p \<Rightarrow>
      (case cn_heap c p of None \<Rightarrow> c
      | Some s \<Rightarrow>
      (case j_find J j ''payload'' of None \<Rightarrow> c
      | Some pl \<Rightarrow>
          if \<not> j_is_object J pl then c
          else if j_find J pl ''sdp'' \<noteq> None then
            (if ps_offerer s \<and> Str E pl ''kind'' = ''offer'' then c
             else let (ok, c1) = ApplyRemoteDescription E p (Str E pl ''sdp'') c in
               if \<not> ok then EndSession E p SessionFailed ''sdp_negotiation_failed'' True c1
               else if \<not> ps_offerer s then SendLocalDescription E p ''answer'' c1 else c1)
          else if j_find J pl ''candidate'' \<noteq> None then
            (if \<not> ps_remote_description_set s
             then (if length (ps_pending_remote_candidates s) < 256
                   then upd p (\<lambda>s. s\<lparr>ps_pending_remote_candidates := ps_pending_remote_candidates s @ [Str E pl ''candidate'']\<rparr>) c else c)
             else say [IceAddRemote p (Str E pl ''candidate'')] c)
          else if j_find J pl ''candidates_done'' \<noteq> None then
            (let c1 = upd p (\<lambda>s. s\<lparr>ps_remote_gathering_done := True\<rparr>) c in
             if ps_remote_description_set s then say [IceRemoteDone p] c1 else c1)
          else if j_find J pl ''relay'' \<noteq> None then
            (if pc_enable_ws_relay (cn_params c) then SwitchToRelay E p c else c)
          else c)))"

section \<open>Events of a session\<close>

definition OnIceState :: "('k, 's, 'x, 'j) env \<Rightarrow> nat \<Rightarrow> IceState \<Rightarrow> ('k, 's, 'x, 'j) conn \<Rightarrow> ('k, 's, 'x, 'j) conn" where
  "OnIceState E p st c =
     (case cn_heap c p of None \<Rightarrow> c
      | Some s \<Rightarrow>
          if st = IceConnected \<or> st = IceCompleted then
            (if ps_relay s then c
             else let first = (\<not> ps_path_ready s);
                      c1 = upd p (\<lambda>s. s\<lparr>ps_path_ready := True\<rparr>) c;
                      turn = (case ps_data s of None \<Rightarrow> False | Some t \<Rightarrow> le_path (Estimate t) = PathTurn);
                      c2 = (if first \<or> turn \<noteq> en_pair_relay E
                            then upd p (\<lambda>s. s\<lparr>ps_data := map_option (SetRelayPath (en_pair_relay E)) (ps_data s)\<rparr>) c1 else c1) in
               if first then OnPathReady E p c2 else c2)
          else if st = IceFailed then
            (if ps_relay s then c
             else if pc_enable_ws_relay (cn_params c) then SwitchToRelay E p c
             else EndSession E p SessionFailed ''ice_failed'' True c)
          else c)"

definition OnDtlsDone :: "('k, 's, 'x, 'j) env \<Rightarrow> nat \<Rightarrow> bool \<Rightarrow> ('k, 's, 'x, 'j) conn \<Rightarrow> ('k, 's, 'x, 'j) conn" where
  "OnDtlsDone E p verified c =
     (case cn_heap c p of None \<Rightarrow> c
      | Some s \<Rightarrow>
          if \<not> verified then EndSession E p SessionFailed ''dtls_verify_failed'' True c
          else (case Option.bind (ps_dtls s) (ExportSrtpKeys (en_ssl E)) of
                  None \<Rightarrow> EndSession E p SessionFailed ''srtp_key_failed'' True c
                | Some (lk, ls, rk, rs) \<Rightarrow>
                    let (ok, c1) = with_data E p (\<lambda>_. SetSrtpKeys (en_srtp E) lk ls rk rs) False c in
                    if \<not> ok then EndSession E p SessionFailed ''srtp_key_failed'' True c1
                    else NotifySession p SessionConnected []
                           (upd p (\<lambda>s. s\<lparr>ps_transport_ready := True, ps_status := SessionConnected,
                                         ps_data := map_option (dt_SetTransportReady True) (ps_data s)\<rparr>) c1)))"

definition OnPathDatagram :: "('k, 's, 'x, 'j) env \<Rightarrow> nat \<Rightarrow> bytes \<Rightarrow> ('k, 's, 'x, 'j) conn \<Rightarrow> ('k, 's, 'x, 'j) conn" where
  "OnPathDatagram E p b c =
     (case cn_heap c p of None \<Rightarrow> c
      | Some s \<Rightarrow>
          (case ps_dtls s of
             Some d \<Rightarrow>
               if IsDtlsRecord b then
                 (let c1 = (if \<not> dl_started d \<and> ps_path_ready s then MaybeStartDtls E p c else c) in
                  case Option.bind (cn_heap c1 p) ps_dtls of None \<Rightarrow> c1
                  | Some d1 \<Rightarrow> (let (_, done, d2) = HandleIncoming (en_ssl E) b d1 in Publish p done (put_dtls E p d1 d2 c1)))
               else snd (with_data E p (\<lambda>_ t. ((), OnDatagram (en_kcp E) (en_srtp E) (en_feedback E) (en_now E) b t)) () c)
           | None \<Rightarrow> snd (with_data E p (\<lambda>_ t. ((), OnDatagram (en_kcp E) (en_srtp E) (en_feedback E) (en_now E) b t)) () c)))"

definition OnWsBinary :: "('k, 's, 'x, 'j) env \<Rightarrow> bytes \<Rightarrow> ('k, 's, 'x, 'j) conn \<Rightarrow> ('k, 's, 'x, 'j) conn" where
  "OnWsBinary E b c =
     (if length b < kRelayHeaderSize \<or> b ! 0 \<noteq> 67 \<or> b ! 1 \<noteq> 82 \<or> b ! 2 \<noteq> 1 then c
      else case FindSession (map (\<lambda>x. char_of (unat x)) (take 16 (drop 4 b))) c of None \<Rightarrow> c
      | Some p \<Rightarrow>
      (case cn_heap c p of None \<Rightarrow> c
      | Some s \<Rightarrow>
          if \<not> ps_relay s then
            (if \<not> pc_enable_ws_relay (cn_params c) then c
             else OnPathDatagram E p (drop kRelayHeaderSize b) (PostTask (TSwitchToRelay p) c))
          else OnPathDatagram E p (drop kRelayHeaderSize b) c))"

definition HandleSessionEnd :: "('k, 's, 'x, 'j) env \<Rightarrow> 'j \<Rightarrow> ('k, 's, 'x, 'j) conn \<Rightarrow> ('k, 's, 'x, 'j) conn" where
  "HandleSessionEnd E j c =
     (case FindSession (Str E j ''session_id'') c of None \<Rightarrow> c
      | Some p \<Rightarrow> let reason = Str E j ''reason'' in
          EndSession E p (if reason = ''peer_offline'' then SessionDisconnected else SessionClosed) reason False c)"

section \<open>Signalling messages\<close>

definition HandleWelcome :: "('k, 's, 'x, 'j) env \<Rightarrow> 'j \<Rightarrow> ('k, 's, 'x, 'j) conn \<Rightarrow> ('k, 's, 'x, 'j) conn" where
  "HandleWelcome E j c =
     say [OnSignal SignalConnected (Str E j ''peer_id'')]
       (c\<lparr>cn_peer_id := Str E j ''peer_id'', cn_ice_servers := ParseIceServers E j, cn_connected := True\<rparr>)"

definition claim_error :: "string \<Rightarrow> MiniRtcClaimResult" where
  "claim_error code =
     (if code = ''code_not_found'' then ClaimCodeNotFound else if code = ''code_expired'' then ClaimCodeExpired
      else if code = ''share_busy'' then ClaimShareBusy else if code = ''rate_limited'' then ClaimRateLimited else ClaimError)"

definition cn_HandleError :: "('k, 's, 'x, 'j) env \<Rightarrow> 'j \<Rightarrow> ('k, 's, 'x, 'j) conn \<Rightarrow> ('k, 's, 'x, 'j) conn" where
  "cn_HandleError E j c =
     (let ident = Int64 E j ''id'' (- 1); code = Str E j ''code'' in
      case map_of (cn_pending c) ident of None \<Rightarrow> c
      | Some kind \<Rightarrow>
          let c1 = erase_pending ident c in
          if kind = PClaim then say [OnClaim (claim_error code) [] [] (Str E j ''message'')] c1
          else if kind = PCreateShare then say [OnShare ShareFailed [] [] 0 code] c1 else c1)"

definition HandleShareCreated :: "('k, 's, 'x, 'j) env \<Rightarrow> 'j \<Rightarrow> ('k, 's, 'x, 'j) conn \<Rightarrow> ('k, 's, 'x, 'j) conn" where
  "HandleShareCreated E j c =
     say [OnShare ShareCreated (Str E j ''share_id'') (Str E j ''code'') (Int64 E j ''expires_at'' 0) (Str E j ''code_display'')]
       (erase_pending (Int64 E j ''id'' (- 1)) c)"

definition HandleShareClosed :: "('k, 's, 'x, 'j) env \<Rightarrow> 'j \<Rightarrow> ('k, 's, 'x, 'j) conn \<Rightarrow> ('k, 's, 'x, 'j) conn" where
  "HandleShareClosed E j c = say [OnShare ShareClosed (Str E j ''share_id'') [] 0 (Str E j ''reason'')] c"

definition OnWsText :: "('k, 's, 'x, 'j) env \<Rightarrow> string \<Rightarrow> ('k, 's, 'x, 'j) conn \<Rightarrow> ('k, 's, 'x, 'j) conn" where
  "OnWsText E text c =
     (let J = en_json E in
      case en_parse E text of None \<Rightarrow> c
      | Some j \<Rightarrow>
          let type = Str E j ''type'' in
          if type = ''welcome'' then HandleWelcome E j c
          else if type = ''notifications'' then
            (case j_find J j ''items'' of None \<Rightarrow> c
             | Some a \<Rightarrow> if cn_notifications c \<and> j_is_array J a \<and> length (j_elems J a) \<le> 50 then say [OnNotify text] c else c)
          else if type = ''share_created'' then HandleShareCreated E j c
          else if type = ''share_closed'' then HandleShareClosed E j c
          else if type = ''session_start'' then HandleSessionStart E j c
          else if type = ''session_end'' then HandleSessionEnd E j c
          else if type = ''signal'' then HandleSignal E j c
          else if type = ''error'' then cn_HandleError E j c
          else if type = ''ok'' \<or> type = ''pong'' then erase_pending (Int64 E j ''id'' (- 1)) c
          else if type = ''ping'' then
            (if cn_ws c then say [WsText (j_object J [(''type'', j_string J ''pong''), (''id'', j_int J (Int64 E j ''id'' 0))])] c else c)
          else c)"

definition OnWsStatus :: "('k, 's, 'x, 'j) env \<Rightarrow> WsStatus \<Rightarrow> ('k, 's, 'x, 'j) conn \<Rightarrow> ('k, 's, 'x, 'j) conn" where
  "OnWsStatus E status c =
     (let J = en_json E; P = cn_params c;
          lost = (\<lambda>out. let c1 = EndAllSessions E ''signal_lost'' (c\<lparr>cn_connected := False, cn_hello_sent := False\<rparr>) in
                         say [OnSignal out (cn_peer_id c1)] c1) in
      case status of
        WsConnecting \<Rightarrow> say [OnSignal SignalConnecting (cn_peer_id c)] c
      | WsOpen \<Rightarrow>
          let hello = [(''type'', j_string J ''hello''), (''id'', j_int J (cn_next_request_id c)), (''app'', j_string J (pc_app P)),
                       (''version'', j_string J (pc_version P)), (''platform'', j_string J (pc_platform P)),
                       (''proto'', j_int J kSignalProto)] @
                      (if cn_notifications c then [(''notifications'', j_bool J True)] else []) in
          say [WsText (j_object J hello)] (c\<lparr>cn_next_request_id := cn_next_request_id c + 1, cn_hello_sent := en_text_ok E\<rparr>)
      | WsFailed \<Rightarrow> lost SignalFailed
      | WsClosed \<Rightarrow> lost SignalClosed
      | WsReconnecting \<Rightarrow> lost SignalReconnecting
      | WsTlsCertError \<Rightarrow> lost SignalTlsError)"

section \<open>Housekeeping\<close>

definition housekeep :: "('k, 's, 'x, 'j) env \<Rightarrow> nat \<Rightarrow> ('k, 's, 'x, 'j) conn \<Rightarrow> ('k, 's, 'x, 'j) conn" where
  "housekeep E p c =
     (case cn_heap c p of None \<Rightarrow> c
      | Some s \<Rightarrow>
          if ps_ended s then c
          else if \<not> ps_path_ready s \<and> \<not> ps_relay s \<and> pc_ice_timeout_ms (cn_params c) < en_now E - ps_created_ms s
          then (if pc_enable_ws_relay (cn_params c) then SwitchToRelay E p c
                else EndSession E p SessionFailed ''ice_timeout'' True c)
          else
            let handshaking = (case ps_dtls s of Some d \<Rightarrow> ps_path_ready s \<and> \<not> ps_transport_ready s | None \<Rightarrow> False);
                started = (case ps_dtls s of Some d \<Rightarrow> dl_started d | None \<Rightarrow> False);
                verified = (case ps_dtls s of Some d \<Rightarrow> dl_verified d | None \<Rightarrow> False);
                c1 = (if handshaking \<and> \<not> started then MaybeStartDtls E p c
                      else if handshaking \<and> \<not> verified
                      then (case ps_dtls s of Some d \<Rightarrow> put_dtls E p d (HandleTimeout (en_ssl E) d) c | None \<Rightarrow> c)
                      else c) in
            if handshaking \<and> started \<and> \<not> verified \<and> ps_dtls_started_ms s \<noteq> 0 \<and> kDtlsTimeoutMs < en_now E - ps_dtls_started_ms s
            then EndSession E p SessionFailed ''dtls_timeout'' True c1
            else if ps_transport_ready s \<and> cn_net_stats c \<and> 1000 \<le> en_now E - ps_last_stats_ms s
            then (case ps_data s of None \<Rightarrow> c1
                  | Some t \<Rightarrow>
                      let (st, t1) = TakeStats (en_now E) t;
                          st' = (if ps_relay s then st\<lparr>ns_link := (ns_link st)\<lparr>le_path := PathWsRelay\<rparr>\<rparr> else st) in
                      say [OnStats (ps_id s) st']
                        (upd p (\<lambda>s. s\<lparr>ps_last_stats_ms := en_now E, ps_data := Some t1\<rparr>) c1))
            else c1)"

definition Housekeeping :: "('k, 's, 'x, 'j) env \<Rightarrow> ('k, 's, 'x, 'j) conn \<Rightarrow> ('k, 's, 'x, 'j) conn" where
  "Housekeeping E c = fold (housekeep E) (map snd (cn_sessions c)) c"

definition cn_Process :: "('k, 's, 'x, 'j) conn \<Rightarrow> ('k, 's, 'x, 'j) conn" where
  "cn_Process c =
     (if cn_housekeeping_pending c then c else PostTask THousekeeping (c\<lparr>cn_housekeeping_pending := True\<rparr>))"

section \<open>The worker\<close>

text \<open>The callbacks of a session find it only while it is the one in the table.\<close>

definition lock_session :: "nat \<Rightarrow> ('k, 's, 'x, 'j) conn \<Rightarrow> bool" where
  "lock_session p c = (case cn_heap c p of None \<Rightarrow> False | Some s \<Rightarrow> FindSession (ps_id s) c = Some p)"

definition run_task :: "('k, 's, 'x, 'j) env \<Rightarrow> task \<Rightarrow> ('k, 's, 'x, 'j) conn \<Rightarrow> ('k, 's, 'x, 'j) conn" where
  "run_task E t c =
     (case t of
        TWsStatus st \<Rightarrow> OnWsStatus E st c
      | TWsText text \<Rightarrow> OnWsText E text c
      | TDtlsDone p ok \<Rightarrow> if lock_session p c then OnDtlsDone E p ok c else c
      | TIceState p st \<Rightarrow> if lock_session p c then OnIceState E p st c else c
      | TIceCandidate p line \<Rightarrow> if lock_session p c then SendSignal E p [(''candidate'', j_string (en_json E) line)] c else c
      | TIceGatheringDone p \<Rightarrow> if lock_session p c then SendSignal E p [(''candidates_done'', j_bool (en_json E) True)] c else c
      | TEndSession p st reason notify \<Rightarrow> EndSession E p st reason notify c
      | TSwitchToRelay p \<Rightarrow> SwitchToRelay E p c
      | THousekeeping \<Rightarrow> (Housekeeping E c)\<lparr>cn_housekeeping_pending := False\<rparr>)"

definition run_next :: "('k, 's, 'x, 'j) env \<Rightarrow> ('k, 's, 'x, 'j) conn \<Rightarrow> ('k, 's, 'x, 'j) conn" where
  "run_next E c = (case cn_tasks c of [] \<Rightarrow> c | t # ts \<Rightarrow> run_task E t (c\<lparr>cn_tasks := ts\<rparr>))"

section \<open>Connecting, sending and closing\<close>

definition cn_uri :: "PeerConfig \<Rightarrow> string" where
  "cn_uri P = (if pc_server_tls P then ''wss://'' else ''ws://'') @ pc_server_host P @
     (if 0 < pc_server_port P then '':'' @ dec (nat (pc_server_port P)) else []) @
     (if pc_server_path P = [] then ''/ws'' else pc_server_path P)"

definition cn_Connect :: "('k, 's, 'x, 'j) env \<Rightarrow> ('k, 's, 'x, 'j) conn \<Rightarrow> int \<times> ('k, 's, 'x, 'j) conn" where
  "cn_Connect E c =
     (if cn_ws c then (0, c)
      else (en_connect E, say [WsConnect (cn_uri (cn_params c))]
              (c\<lparr>cn_worker := True, cn_stopping := False, cn_tasks := [], cn_ws := True\<rparr>)))"

text \<open>Stopping the queue runs what is queued and takes nothing new.\<close>

definition cn_Disconnect :: "('k, 's, 'x, 'j) env \<Rightarrow> ('k, 's, 'x, 'j) conn \<Rightarrow> int \<times> ('k, 's, 'x, 'j) conn" where
  "cn_Disconnect E c =
     (let c1 = fold (run_task E) (cn_tasks c) (c\<lparr>cn_tasks := [], cn_stopping := True\<rparr>);
          c2 = EndAllSessions E ''local_close'' c1;
          c3 = (if cn_ws c2 then (say [WsShutdown] c2)\<lparr>cn_ws := False\<rparr> else c2) in
      (0, c3\<lparr>cn_worker := False, cn_stopping := False, cn_connected := False, cn_hello_sent := False\<rparr>))"

definition cn_Send ::
  "('k, 's, 'x, 'j) env \<Rightarrow> string \<Rightarrow> string \<Rightarrow> bytes \<Rightarrow> ('k, 's, 'x, 'j) conn \<Rightarrow> int \<times> ('k, 's, 'x, 'j) conn" where
  "cn_Send E session_id stream d c =
     (case FindSession session_id c of None \<Rightarrow> (- 1, c)
      | Some p \<Rightarrow> with_data E p (\<lambda>_. dt_Send (en_kcp E) (en_now E) (en_queue_ms E) stream d) (- 1) c)"

definition cn_GetLinkEstimate :: "string \<Rightarrow> ('k, 's, 'x, 'j) conn \<Rightarrow> link_estimate option" where
  "cn_GetLinkEstimate session_id c =
     (case FindSession session_id c of None \<Rightarrow> None
      | Some p \<Rightarrow> (case cn_heap c p of None \<Rightarrow> None
          | Some s \<Rightarrow> (case ps_data s of None \<Rightarrow> None
              | Some t \<Rightarrow> Some (if ps_relay s then (Estimate t)\<lparr>le_path := PathWsRelay\<rparr> else Estimate t))))"

end
