(* ===== verification/Peer_Connection_Inv.thy ===== *)
theory Peer_Connection_Inv
  imports Peer_Connection
begin

text \<open>
  What holds of a connection (\<^verbatim>\<open>minirtc/src/pc/peer_connection.cpp\<close>) after every operation: \<open>conn_inv\<close> relates the table of
  sessions to the session objects, the readiness of each transport to its DTLS handshake and keys, and bounds what the datagram
  path has carried.  One lemma per operation shows that it keeps \<open>conn_inv\<close>.
\<close>

section \<open>An invariant of the connection\<close>

text \<open>With SRTP configured a session with a transport has a DTLS transport, and its transport is ready only while the
handshake is verified and the keys are installed.\<close>

definition sess_ok :: "PeerConfig \<Rightarrow> ('k, 's, 'x) psession \<Rightarrow> bool" where
  "sess_ok P s \<longleftrightarrow> ps_relay_header s = relay_header (ps_id s) \<and>
     (case ps_dtls s of None \<Rightarrow> True | Some d \<Rightarrow> dtls_wf d) \<and>
     (case ps_data s of None \<Rightarrow> True
      | Some t \<Rightarrow> transport_wf t \<and> dt_enable_srtp t = pc_enable_srtp P \<and> (pc_enable_srtp P \<longrightarrow> ps_dtls s \<noteq> None) \<and>
          (dt_transport_ready t \<and> pc_enable_srtp P \<longrightarrow> dt_srtp_ready t \<and> (\<exists>d. ps_dtls s = Some d \<and> dl_verified d)))"

text \<open>Datagrams that may leave: SRTP packets and what the TLS library wrote.\<close>

definition dtls_out :: "'x ssl_ops \<Rightarrow> bytes \<Rightarrow> bool" where
  "dtls_out X w \<longleftrightarrow> (\<exists>x q. w \<in> set (fst (snd (snd (ssl_handshake X x q))))) \<or> (\<exists>x. w \<in> set (fst (ssl_timeout X x))) \<or>
     (\<exists>x q. w \<in> set (fst (ssl_read_all X x q)))"

definition sealed :: "'s srtp_ops \<Rightarrow> 'x ssl_ops \<Rightarrow> bytes \<Rightarrow> bool" where
  "sealed S X w \<longleftrightarrow> protected S w \<or> dtls_out X w"

definition effect_ok :: "'s srtp_ops \<Rightarrow> 'x ssl_ops \<Rightarrow> 'j cn_effect \<Rightarrow> bool" where
  "effect_ok S X e \<longleftrightarrow> (case e of IceSend p w \<Rightarrow> sealed S X w
     | WsBinary f \<Rightarrow> kRelayHeaderSize \<le> length f \<and> sealed S X (drop kRelayHeaderSize f)
     | _ \<Rightarrow> True)"

definition conn_inv :: "'s srtp_ops \<Rightarrow> 'x ssl_ops \<Rightarrow> PeerConfig \<Rightarrow> ('k, 's, 'x, 'j) conn \<Rightarrow> bool" where
  "conn_inv S X P c \<longleftrightarrow> cn_params c = P \<and> (\<forall>p s. cn_heap c p = Some s \<longrightarrow> sess_ok P s) \<and>
     (\<forall>ident p. FindSession ident c = Some p \<longrightarrow> (\<exists>s. cn_heap c p = Some s \<and> ps_id s = ident \<and> \<not> ps_ended s)) \<and>
     (\<forall>p. cn_next c \<le> p \<longrightarrow> cn_heap c p = None) \<and>
     (pc_enable_srtp P \<longrightarrow> list_all (effect_ok S X) (cn_log c))"

text \<open>Operations that only talk, post or count.\<close>

definition quiet :: "'j cn_effect list \<Rightarrow> bool" where
  "quiet es \<longleftrightarrow> list_all (\<lambda>e. case e of IceSend p w \<Rightarrow> False | WsBinary f \<Rightarrow> False | _ \<Rightarrow> True) es"

lemma quiet_simps [simp]:
  "quiet []" "quiet (e # es) \<longleftrightarrow> (case e of IceSend p w \<Rightarrow> False | WsBinary f \<Rightarrow> False | _ \<Rightarrow> True) \<and> quiet es"
  "quiet (as @ bs) \<longleftrightarrow> quiet as \<and> quiet bs"
  by (simp_all add: quiet_def)

lemma quiet_ok: "quiet es \<Longrightarrow> list_all (effect_ok S X) es"
  by (auto simp: quiet_def effect_ok_def list_all_iff split: cn_effect.splits)

definition same :: "('k, 's, 'x, 'j) conn \<Rightarrow> ('k, 's, 'x, 'j) conn \<Rightarrow> bool" where
  "same c c' \<longleftrightarrow> cn_heap c' = cn_heap c \<and> cn_sessions c' = cn_sessions c \<and> cn_params c' = cn_params c \<and> cn_next c' = cn_next c \<and>
     (\<exists>es. cn_log c' = cn_log c @ es \<and> quiet es)"

lemma same_inv: "same c c' \<Longrightarrow> conn_inv S X P c \<Longrightarrow> conn_inv S X P c'"
  by (auto simp: same_def conn_inv_def FindSession_def quiet_ok)

interpretation inv: run_relation "\<lambda>c c'. conn_inv S X P c \<longrightarrow> conn_inv S X P c'"
  by unfold_locales auto

lemma same_refl [simp]: "same c c"
  by (simp add: same_def)

lemma same_say [simp]: "quiet es \<Longrightarrow> same c (say es c)"
  by (simp add: same_def say_def)

lemma same_Post [simp]: "same c (PostTask t c)"
  by (simp add: same_def PostTask_def)

lemma same_Publish [simp]: "same c (Publish p d c)"
  by (simp add: Publish_def)

lemma same_SendRequest [simp]: "same c (snd (SendRequest E ms k c))"
  by (simp add: same_def SendRequest_def say_def Let_def)

lemma same_erase [simp]: "same c (erase_pending i c)"
  by (simp add: same_def erase_pending_def)

lemma same_SendSignal [simp]: "same c (SendSignal E p ms c)"
  by (simp add: SendSignal_def Let_def split: option.split)

lemma same_NotifySession [simp]: "same c (NotifySession p st r c)"
  by (simp add: NotifySession_def split: option.split)

lemma inv_say [simp]: "quiet es \<Longrightarrow> conn_inv S X P c \<Longrightarrow> conn_inv S X P (say es c)"
  by (rule same_inv [OF same_say])

lemmas inv_same [simp] = same_inv [OF same_Post] same_inv [OF same_Publish]
  same_inv [OF same_SendRequest] same_inv [OF same_erase] same_inv [OF same_SendSignal] same_inv [OF same_NotifySession]

lemma heap_say [simp]: "cn_heap (say es c) = cn_heap c"
  by (simp add: say_def)

lemma heap_same [simp]:
  "cn_heap (PostTask t c) = cn_heap c" "cn_heap (Publish p d c) = cn_heap c"
  "cn_heap (snd (SendRequest E ms k c)) = cn_heap c" "cn_heap (erase_pending i c) = cn_heap c"
  "cn_heap (SendSignal E p ms c) = cn_heap c" "cn_heap (NotifySession p st r c) = cn_heap c"
  using same_Post [of c t] same_Publish [of c p d] same_SendRequest [of c E ms k] same_erase [of c i]
    same_SendSignal [of c E p ms] same_NotifySession [of c p st r]
  by (simp_all add: same_def)

lemma heap_upd [simp]: "cn_heap (upd p f c) = (cn_heap c)(p := map_option f (cn_heap c p))"
  by (simp add: upd_def)

lemma inv_params: "conn_inv S X P c \<Longrightarrow> cn_params c = P"
  by (simp add: conn_inv_def)

lemma inv_sess: "conn_inv S X P c \<Longrightarrow> cn_heap c p = Some s \<Longrightarrow> sess_ok P s"
  by (simp add: conn_inv_def)

lemma inv_find:
  assumes "conn_inv S X P c" "FindSession ident c = Some p"
  obtains s where "cn_heap c p = Some s" "ps_id s = ident" "\<not> ps_ended s"
  using assms unfolding conn_inv_def by blast

text \<open>Updates of one session that keep what the invariant says of it.\<close>

lemma inv_upd:
  assumes i: "conn_inv S X P c"
    and f: "\<And>s. cn_heap c p = Some s \<Longrightarrow> sess_ok P s \<Longrightarrow> sess_ok P (f s) \<and> ps_id (f s) = ps_id s \<and> ps_ended (f s) = ps_ended s"
  shows "conn_inv S X P (upd p f c)"
proof (cases "cn_heap c p")
  case None
  then have "(cn_heap c)(p := map_option f (cn_heap c p)) = cn_heap c" by auto
  then have "upd p f c = c" by (simp add: upd_def)
  then show ?thesis using i by simp
next
  case (Some s)
  have k: "sess_ok P (f s)" "ps_id (f s) = ps_id s" "ps_ended (f s) = ps_ended s"
    using f [OF Some inv_sess [OF i Some]] by simp_all
  have frame: "FindSession n (upd p f c) = FindSession n c" "cn_params (upd p f c) = cn_params c"
    "cn_next (upd p f c) = cn_next c" "cn_log (upd p f c) = cn_log c" "cn_heap (upd p f c) = (cn_heap c)(p \<mapsto> f s)" for n
    using Some by (simp_all add: FindSession_def upd_def)
  have "\<exists>s'. ((cn_heap c)(p \<mapsto> f s)) q = Some s' \<and> ps_id s' = n \<and> \<not> ps_ended s'" if find: "FindSession n c = Some q" for n q
  proof -
    obtain s' where "cn_heap c q = Some s'" "ps_id s' = n" "\<not> ps_ended s'" using inv_find [OF i find] .
    then show ?thesis using Some k by (cases "q = p") simp_all
  qed
  moreover have "sess_ok P s'" if "((cn_heap c)(p \<mapsto> f s)) q = Some s'" for q s'
    using i that k(1) by (auto simp: conn_inv_def split: if_splits)
  moreover have "((cn_heap c)(p \<mapsto> f s)) q = None" if "cn_next c \<le> q" for q
    using i that Some by (cases "q = p") (auto simp: conn_inv_def)
  ultimately show ?thesis using i unfolding conn_inv_def frame by blast
qed

text \<open>Fields the invariant does not read.\<close>

lemma sess_ok_frame:
  assumes "ps_data s' = ps_data s" "ps_dtls s' = ps_dtls s" "ps_relay_header s' = ps_relay_header s" "ps_id s' = ps_id s"
  shows "sess_ok P s' = sess_ok P s"
  using assms by (cases "ps_data s") (simp_all add: sess_ok_def)

lemma sess_ok_simps [simp]:
  "sess_ok P (s\<lparr>ps_ended := a\<rparr>) = sess_ok P s" "sess_ok P (s\<lparr>ps_status := b\<rparr>) = sess_ok P s"
  "sess_ok P (s\<lparr>ps_relay := a\<rparr>) = sess_ok P s" "sess_ok P (s\<lparr>ps_path_ready := a\<rparr>) = sess_ok P s"
  "sess_ok P (s\<lparr>ps_transport_ready := a\<rparr>) = sess_ok P s" "sess_ok P (s\<lparr>ps_dtls_started_ms := n\<rparr>) = sess_ok P s"
  "sess_ok P (s\<lparr>ps_last_stats_ms := n\<rparr>) = sess_ok P s" "sess_ok P (s\<lparr>ps_local_description_sent := a\<rparr>) = sess_ok P s"
  "sess_ok P (s\<lparr>ps_remote_description_set := a\<rparr>) = sess_ok P s" "sess_ok P (s\<lparr>ps_remote_gathering_done := a\<rparr>) = sess_ok P s"
  "sess_ok P (s\<lparr>ps_pending_remote_candidates := l\<rparr>) = sess_ok P s"
  by (rule sess_ok_frame; simp)+

text \<open>An update of the transport that leaves its readiness as it is.\<close>

definition steady :: "('k, 's) transport \<Rightarrow> ('k, 's) transport \<Rightarrow> bool" where
  "steady t u \<longleftrightarrow> (transport_wf t \<longrightarrow> transport_wf u) \<and> dt_enable_srtp u = dt_enable_srtp t \<and>
     dt_transport_ready u = dt_transport_ready t \<and> (dt_srtp_ready t \<longrightarrow> dt_srtp_ready u)"

lemma keeps_steady: "keeps t u \<Longrightarrow> steady t u"
  by (auto simp: keeps_def steady_def)

lemma advances_steady:
  "advances S t u \<Longrightarrow> dt_transport_ready u = dt_transport_ready t \<Longrightarrow> (dt_srtp_ready t \<Longrightarrow> dt_srtp_ready u) \<Longrightarrow> steady t u"
  by (simp add: steady_def advances_def)

lemma steady_Destroy [simp]: "steady t (dt_Destroy t)"
  by (rule advances_steady [OF advances_Destroy]) (simp_all add: dt_Destroy_def dt_emit_def)

lemma steady_SetSrtpKeys [simp]: "steady t (snd (SetSrtpKeys S lk ls rk rs t))"
  by (rule advances_steady [OF advances_SetSrtpKeys]) (simp_all add: SetSrtpKeys_def split: option.split)

lemma sess_ok_data:
  "sess_ok P s \<Longrightarrow> ps_data s = Some t \<Longrightarrow> steady t u \<Longrightarrow> sess_ok P (s\<lparr>ps_data := Some u\<rparr>)"
  by (auto simp: sess_ok_def steady_def)

lemma sess_ok_map_data:
  "sess_ok P s \<Longrightarrow> (\<And>t. steady t (f t)) \<Longrightarrow> sess_ok P (s\<lparr>ps_data := map_option f (ps_data s)\<rparr>)"
  by (cases "ps_data s") (auto simp: sess_ok_data, simp add: sess_ok_def)

lemma sess_ok_dtls:
  assumes "sess_ok P s" "ps_dtls s = Some d" "dtls_wf d \<Longrightarrow> dtls_wf d1" "dtls_wf d \<Longrightarrow> dl_verified d \<Longrightarrow> dl_verified d1"
  shows "sess_ok P (s\<lparr>ps_dtls := Some d1\<rparr>)"
  using assms by (auto simp: sess_ok_def split: option.splits)

lemma EndSession_other: "q \<noteq> p \<Longrightarrow> cn_heap (EndSession E p st r n c) q = cn_heap c q"
  by (auto simp: EndSession_def Let_def split: option.split)

lemma map_of_filter_out: "map_of (filter (\<lambda>(i, _). i \<noteq> k) m) = (map_of m)(k := None)"
  by (induction m) auto

lemma EndSession_inv [simp]:
  fixes c :: "('k, 's, 'x, 'j) conn"
  assumes i: "conn_inv S X P c"
  shows "conn_inv S X P (EndSession E p st r n c)"
proof (cases "cn_heap c p")
  case (Some s)
  show ?thesis
  proof (cases "ps_ended s")
    case False
    define c1 where "c1 = upd p (\<lambda>s. s\<lparr>ps_ended := True, ps_status := st\<rparr>) c"
    define c2 where "c2 = (if FindSession (ps_id s) c1 = Some p
      then c1\<lparr>cn_sessions := filter (\<lambda>(i, _). i \<noteq> ps_id s) (cn_sessions c1)\<rparr> else c1)"
    have find: "FindSession k c2 = (if k = ps_id s \<and> FindSession k c = Some p then None else FindSession k c)" for k
      by (auto simp: c2_def c1_def FindSession_def upd_def map_of_filter_out)
    have h2: "cn_heap c2 = (cn_heap c)(p \<mapsto> s\<lparr>ps_ended := True, ps_status := st\<rparr>)" "cn_params c2 = cn_params c"
      "cn_next c2 = cn_next c" "cn_log c2 = cn_log c"
      using Some by (auto simp: c2_def c1_def upd_def)
    have ok: "sess_ok P (s\<lparr>ps_ended := True, ps_status := st\<rparr>)" using inv_sess [OF i Some] by simp
    have table: "\<exists>s'. cn_heap c2 q = Some s' \<and> ps_id s' = k \<and> \<not> ps_ended s'" if "FindSession k c2 = Some q" for k q
    proof -
      have q: "FindSession k c = Some q" "\<not> (k = ps_id s \<and> q = p)" using that by (auto simp: find split: if_splits)
      obtain s' where s': "cn_heap c q = Some s'" "ps_id s' = k" "\<not> ps_ended s'" using inv_find [OF i q(1)] .
      with q(2) Some have "q \<noteq> p" by auto
      with s' show ?thesis by (simp add: h2)
    qed
    have i2: "conn_inv S X P c2"
      using i ok table Some unfolding conn_inv_def by (auto simp: h2)
    have "conn_inv S X P (upd p (\<lambda>s. s\<lparr>ps_data := map_option dt_Destroy (ps_data s)\<rparr>) c3)"
      if "conn_inv S X P c3" for c3 :: "('k, 's, 'x, 'j) conn"
    proof (rule inv_upd [OF that])
      fix s' :: "('k, 's, 'x) psession"
      assume "sess_ok P s'"
      then show "sess_ok P (s'\<lparr>ps_data := map_option dt_Destroy (ps_data s')\<rparr>) \<and>
          ps_id (s'\<lparr>ps_data := map_option dt_Destroy (ps_data s')\<rparr>) = ps_id s' \<and>
          ps_ended (s'\<lparr>ps_data := map_option dt_Destroy (ps_data s')\<rparr>) = ps_ended s'"
        by (simp add: sess_ok_map_data)
    qed
    with i2 show ?thesis
      using False unfolding EndSession_def Let_def Some option.case c1_def [symmetric] c2_def [symmetric] by simp
  qed (use Some i in \<open>simp add: EndSession_def\<close>)
qed (use i in \<open>simp add: EndSession_def\<close>)

lemma EndAll_inv [simp]: "conn_inv S X P c \<Longrightarrow> conn_inv S X P (EndAllSessions E r c)"
  unfolding EndAllSessions_def by (rule inv.run_fold [rule_format]) simp_all

section \<open>The path\<close>

text \<open>What a session's send function puts on its path is the datagram it was given.\<close>

lemma length_relay_header [simp]: "length (relay_header sid) = kRelayHeaderSize"
  by (simp add: relay_header_def kRelayHeaderSize_def)

lemma send_ok:
  assumes "sess_ok P s" "sealed S X w"
  shows "list_all (effect_ok S X) (snd (send_via_path E ws p s w))"
  using assms by (auto simp: send_via_path_def effect_ok_def sess_ok_def)

lemma out_effects_ok:
  assumes s: "sess_ok P s" and w: "\<And>w. Wire w \<in> set es \<Longrightarrow> sealed S X w"
  shows "list_all (effect_ok S X) (out_effects E ws p s es)"
proof -
  have "list_all (effect_ok S X) (case e of Wire d \<Rightarrow> snd (send_via_path E ws p s d) | Deliver name d \<Rightarrow> [OnReceive d (ps_id s) name] | _ \<Rightarrow> [])"
    if "e \<in> set es" for e
    using that w send_ok [OF s, where S = S and X = X and E = E] by (auto simp: effect_ok_def split: effect.split)
  then show ?thesis by (auto simp: out_effects_def list_all_iff)
qed

lemma inv_say_ok:
  "conn_inv S X P c \<Longrightarrow> (pc_enable_srtp P \<Longrightarrow> list_all (effect_ok S X) es) \<Longrightarrow> conn_inv S X P (say es c)"
  by (auto simp: conn_inv_def say_def FindSession_def)

lemma with_data_inv:
  assumes i: "conn_inv S X P c"
    and f: "\<And>ans t. advances S t (snd (f ans t))" "\<And>ans t. steady t (snd (f ans t))"
  shows "conn_inv S X P (snd (with_data E p f r c))"
proof (cases "cn_heap c p")
  case (Some s)
  show ?thesis
  proof (cases "ps_data s")
    case data: (Some t)
    let ?f = "f (\<lambda>d. fst (send_via_path E (cn_ws c) p s d)) t"
    obtain r1 t1 where e: "?f = (r1, t1)" by (cases ?f)
    have s: "sess_ok P s" by (rule inv_sess [OF i Some])
    have a: "advances S t t1" and st: "steady t t1"
      using f [of t "\<lambda>d. fst (send_via_path E (cn_ws c) p s d)"] e by simp_all
    have u: "conn_inv S X P (upd p (\<lambda>s. s\<lparr>ps_data := Some t1\<rparr>) c)"
      by (rule inv_upd [OF i]) (use Some data st in \<open>auto intro: sess_ok_data\<close>)
    have "sealed S X w" if "pc_enable_srtp P" "Wire w \<in> set (drop (length (dt_log t)) (dt_log t1))" for w
      using a that s data by (auto simp: advances_def wire_ok_def sealed_def sess_ok_def)
    then show ?thesis
      using u Some data e by (auto simp: with_data_def intro!: inv_say_ok out_effects_ok [OF s])
  qed (use i Some in \<open>simp add: with_data_def\<close>)
qed (use i in \<open>simp add: with_data_def\<close>)

lemma with_data_keeps_inv [simp]:
  "conn_inv S X P c \<Longrightarrow> (\<And>ans t. keeps t (snd (f ans t))) \<Longrightarrow> conn_inv S X P (snd (with_data E p f r c))"
  by (rule with_data_inv) (simp_all add: keeps_advances keeps_steady)

text \<open>What an operation of DTLS may do: keep the invariant, stay verified, send what the TLS library wrote.\<close>

definition dtls_goes :: "'x ssl_ops \<Rightarrow> 'x dtls \<Rightarrow> 'x dtls \<Rightarrow> bool" where
  "dtls_goes X d d1 \<longleftrightarrow> (dtls_wf d \<longrightarrow> dtls_wf d1 \<and> (dl_verified d \<longrightarrow> dl_verified d1)) \<and>
     (\<exists>out. dl_sent d1 = dl_sent d @ out \<and> list_all (dtls_out X) out)"

lemma handshake_out: "ssl_handshake X x q = (r, rest, out, x1) \<Longrightarrow> list_all (dtls_out X) out"
  by (auto simp: dtls_out_def list_all_iff) (metis fst_conv snd_conv)

lemma timeout_out: "ssl_timeout X x = (out, x1) \<Longrightarrow> list_all (dtls_out X) out"
  by (auto simp: dtls_out_def list_all_iff) (metis fst_conv)

lemma read_out: "ssl_read_all X x q = (out, x1) \<Longrightarrow> list_all (dtls_out X) out"
  by (auto simp: dtls_out_def list_all_iff) (metis fst_conv)

lemma CompleteHandshake_sent [simp]: "dl_sent (snd (CompleteHandshake X x d)) = dl_sent d"
  by (simp add: CompleteHandshake_def Let_def split: option.split)

lemma goes_Start [simp]: "dtls_goes X d (snd (snd (dtls_Start X b d)))"
proof -
  have "\<exists>out. dl_sent (snd (snd (dtls_Start X b d))) = dl_sent d @ out \<and> list_all (dtls_out X) out"
    by (auto simp: dtls_Start_def run_handshake_def Let_def handshake_out split: option.split prod.split hs_result.split)
       (metis CompleteHandshake_sent dtls.select_convs(11) dtls.surjective dtls.update_convs(5,6,11) handshake_out snd_conv)
  then show ?thesis using dtls_wf_Start [of d X b] verified_stays(3) [of d X b] by (auto simp: dtls_goes_def)
qed

lemma goes_HandleIncoming [simp]: "dtls_goes X d (snd (snd (HandleIncoming X b d)))"
proof -
  have "\<exists>out. dl_sent (snd (snd (HandleIncoming X b d))) = dl_sent d @ out \<and> list_all (dtls_out X) out"
    by (auto simp: HandleIncoming_def run_handshake_def Let_def handshake_out read_out split: option.split prod.split hs_result.split)
  then show ?thesis using dtls_wf_HandleIncoming [of d X b] verified_stays(1) [of d X b] by (auto simp: dtls_goes_def)
qed

lemma goes_HandleTimeout [simp]: "dtls_goes X d (HandleTimeout X d)"
proof -
  have "\<exists>out. dl_sent (HandleTimeout X d) = dl_sent d @ out \<and> list_all (dtls_out X) out"
    by (auto simp: HandleTimeout_def Let_def timeout_out split: option.split prod.split)
  then show ?thesis using dtls_wf_HandleTimeout [of d X] verified_stays(2) [of d X] by (auto simp: dtls_goes_def)
qed

lemma put_dtls_inv:
  assumes i: "conn_inv S X P c" and d: "\<And>s. cn_heap c p = Some s \<Longrightarrow> ps_dtls s = Some d" and g: "dtls_goes X d d1"
  shows "conn_inv S X P (put_dtls E p d d1 c)"
proof (cases "cn_heap c p")
  case (Some s)
  have s: "sess_ok P s" by (rule inv_sess [OF i Some])
  have "conn_inv S X P (upd p (\<lambda>s. s\<lparr>ps_dtls := Some d1\<rparr>) c)"
    by (rule inv_upd [OF i]) (use d g in \<open>auto simp: dtls_goes_def intro: sess_ok_dtls\<close>)
  moreover have "list_all (effect_ok S X) (concat (map (\<lambda>b. snd (send_via_path E (cn_ws c) p s b)) (drop (length (dl_sent d)) (dl_sent d1))))"
  proof -
    have "list_all (effect_ok S X) (snd (send_via_path E (cn_ws c) p s w))" if "w \<in> set (drop (length (dl_sent d)) (dl_sent d1))" for w
      by (rule send_ok [OF s]) (use g that in \<open>auto simp: dtls_goes_def sealed_def list_all_iff\<close>)
    then show ?thesis by (auto simp: list_all_iff)
  qed
  ultimately show ?thesis using Some by (simp add: put_dtls_def inv_say_ok)
qed (use i in \<open>simp add: put_dtls_def\<close>)

lemma put_dtls_heap:
  "cn_heap c p = Some s \<Longrightarrow> cn_heap (put_dtls E p d d1 c) = (cn_heap c)(p \<mapsto> s\<lparr>ps_dtls := Some d1\<rparr>)"
  by (simp add: put_dtls_def)

lemma inv_upd_frame [simp]:
  assumes "conn_inv S X P c"
  shows "conn_inv S X P (upd p (\<lambda>s. s\<lparr>ps_dtls_started_ms := n\<rparr>) c)" "conn_inv S X P (upd p (\<lambda>s. s\<lparr>ps_path_ready := b\<rparr>) c)"
    "conn_inv S X P (upd p (\<lambda>s. s\<lparr>ps_local_description_sent := b\<rparr>) c)" "conn_inv S X P (upd p (\<lambda>s. s\<lparr>ps_remote_gathering_done := b\<rparr>) c)"
    "conn_inv S X P (upd p (\<lambda>s. s\<lparr>ps_pending_remote_candidates := ps_pending_remote_candidates s @ l\<rparr>) c)"
    "conn_inv S X P (upd p (\<lambda>s. s\<lparr>ps_remote_description_set := b, ps_pending_remote_candidates := l\<rparr>) c)"
    "conn_inv S X P (upd p (\<lambda>s. s\<lparr>ps_relay := b, ps_path_ready := b', ps_transport_ready := b''\<rparr>) c)"
  by (rule inv_upd [OF assms]; simp)+

lemma MaybeStartDtls_inv [simp]:
  assumes i: "conn_inv S X P c" and E: "en_ssl E = X"
  shows "conn_inv S X P (MaybeStartDtls E p c)"
proof (cases "cn_heap c p")
  case (Some s)
  show ?thesis
  proof (cases "ps_dtls s")
    case d: (Some d)
    obtain r ev d1 where st: "dtls_Start X (ps_offerer s) d = (r, ev, d1)" by (metis prod_cases3)
    have g: "dtls_goes X d d1" using goes_Start [of X d "ps_offerer s"] st by simp
    have "conn_inv S X P (put_dtls E p d d1 (upd p (\<lambda>s. s\<lparr>ps_dtls_started_ms := en_now E\<rparr>) c))"
      by (rule put_dtls_inv [OF _ _ g]) (use i Some d in auto)
    then show ?thesis using i Some d st E by (simp add: MaybeStartDtls_def Let_def)
  qed (use i Some in \<open>simp add: MaybeStartDtls_def\<close>)
qed (use i in \<open>simp add: MaybeStartDtls_def\<close>)

lemma ready_SetTransportReady [simp]:
  "dt_transport_ready (dt_SetTransportReady b t) = b" "dt_srtp_ready (dt_SetTransportReady b t) = dt_srtp_ready t"
  "dt_enable_srtp (dt_SetTransportReady b t) = dt_enable_srtp t"
  by (simp_all add: dt_SetTransportReady_def dt_emit_def Let_def)

lemma wf_SetTransportReady: "transport_wf t \<Longrightarrow> transport_wf (dt_SetTransportReady b t)"
  using advances_SetTransportReady [of _ t b] by (auto simp: advances_def)

lemma OnPathReady_inv [simp]:
  assumes i: "conn_inv S X P c" and E: "en_ssl E = X"
  shows "conn_inv S X P (OnPathReady E p c)"
proof (cases "cn_heap c p")
  case (Some s)
  show ?thesis
  proof (cases "ps_dtls s")
    case None
    have "conn_inv S X P (upd p (\<lambda>s. s\<lparr>ps_transport_ready := True, ps_status := SessionConnected,
        ps_data := map_option (dt_SetTransportReady True) (ps_data s)\<rparr>) c)"
      by (rule inv_upd [OF i])
         (use Some None in \<open>auto simp: sess_ok_def wf_SetTransportReady split: option.splits\<close>)
    then show ?thesis using Some None by (simp add: OnPathReady_def)
  qed (use i Some E in \<open>simp add: OnPathReady_def\<close>)
qed (use i in \<open>simp add: OnPathReady_def\<close>)

lemma ready_SetRelayPath [simp]:
  "dt_transport_ready (SetRelayPath b t) = dt_transport_ready t" "dt_srtp_ready (SetRelayPath b t) = dt_srtp_ready t"
  "dt_enable_srtp (SetRelayPath b t) = dt_enable_srtp t"
  using keeps_SetRelayPath [of t b] by (simp_all add: keeps_def)

lemma wf_SetRelayPath: "transport_wf t \<Longrightarrow> transport_wf (SetRelayPath b t)"
  using keeps_SetRelayPath [of t b] by (simp add: keeps_def)

lemma SwitchToRelay_inv [simp]:
  fixes c :: "('k, 's, 'x, 'j) conn"
  assumes i: "conn_inv S X P c" and E: "en_ssl E = X"
  shows "conn_inv S X P (SwitchToRelay E p c)"
proof (cases "cn_heap c p")
  case (Some s)
  have "conn_inv S X P (upd p (\<lambda>s. s\<lparr>ps_dtls := map_option Restart (ps_dtls s),
      ps_data := map_option (SetRelayPath True \<circ> dt_SetTransportReady False) (ps_data s)\<rparr>) c')"
    if c': "conn_inv S X P c'" for c' :: "('k, 's, 'x, 'j) conn"
  proof (rule inv_upd [OF c'])
    fix s' :: "('k, 's, 'x) psession"
    assume "sess_ok P s'"
    then show "sess_ok P (s'\<lparr>ps_dtls := map_option Restart (ps_dtls s'),
        ps_data := map_option (SetRelayPath True \<circ> dt_SetTransportReady False) (ps_data s')\<rparr>) \<and>
      ps_id (s'\<lparr>ps_dtls := map_option Restart (ps_dtls s'),
        ps_data := map_option (SetRelayPath True \<circ> dt_SetTransportReady False) (ps_data s')\<rparr>) = ps_id s' \<and>
      ps_ended (s'\<lparr>ps_dtls := map_option Restart (ps_dtls s'),
        ps_data := map_option (SetRelayPath True \<circ> dt_SetTransportReady False) (ps_data s')\<rparr>) = ps_ended s'"
      by (auto simp: sess_ok_def wf_SetTransportReady wf_SetRelayPath split: option.splits)
  qed
  then show ?thesis using i Some E by (simp add: SwitchToRelay_def Let_def)
qed (use i in \<open>simp add: SwitchToRelay_def\<close>)

section \<open>Every operation keeps the invariant\<close>

lemma SendLocalDescription_inv [simp]: "conn_inv S X P c \<Longrightarrow> conn_inv S X P (SendLocalDescription E p k c)"
  by (simp add: SendLocalDescription_def Let_def split: option.split)

lemma add_streams_ready: "dt_transport_ready (add_streams ssrc i cfgs t) = dt_transport_ready t"
  by (induction ssrc i cfgs t rule: add_streams.induct) (simp_all add: Let_def put_stream_def)

lemma keeps_SetSendFunc [simp]: "keeps t (SetSendFunc t)"
  unfolding SetSendFunc_def by (rule keeps_frame) simp_all

lemma new_transport_started:
  "transport_wf (SetSendFunc (dt_Init now (new_transport ssrc cfgs srtp)))"
  "dt_enable_srtp (SetSendFunc (dt_Init now (new_transport ssrc cfgs srtp))) = srtp"
  "\<not> dt_transport_ready (SetSendFunc (dt_Init now (new_transport ssrc cfgs srtp)))"
proof -
  let ?t = "new_transport ssrc cfgs srtp"
  have "advances S ?t (SetSendFunc (dt_Init now ?t))" for S
    by (rule advances_trans [OF advances_Init [where now = now]]) (simp add: keeps_advances)
  then show "transport_wf (SetSendFunc (dt_Init now ?t))" "dt_enable_srtp (SetSendFunc (dt_Init now ?t)) = srtp"
    using new_transport_wf [of ssrc cfgs srtp] by (auto simp: advances_def)
  show "\<not> dt_transport_ready (SetSendFunc (dt_Init now ?t))"
    by (simp add: SetSendFunc_def dt_Init_def new_transport_def dt_emit_def add_streams_ready)
qed

lemma StartSession_inv [simp]:
  assumes i: "conn_inv S X P c" and E: "en_ssl E = X"
  shows "conn_inv S X P (StartSession E p c)"
proof (cases "cn_heap c p")
  case (Some s)
  let ?t = "SetSendFunc (dt_Init (en_now E) (new_transport (en_ssrc E) (cn_streams c) (pc_enable_srtp (cn_params c))))"
  have "conn_inv S X P (upd p (\<lambda>s. s\<lparr>ps_data := Some ?t, ps_ice := True,
      ps_dtls := (if pc_enable_srtp (cn_params c) then Some (new_dtls (en_cert E)) else ps_dtls s)\<rparr>) c)"
    by (rule inv_upd [OF i])
       (use inv_params [OF i] new_transport_started [of "en_now E" "en_ssrc E" "cn_streams c" "pc_enable_srtp (cn_params c)"] in
         \<open>auto simp: sess_ok_def split: option.splits\<close>)
  then show ?thesis using Some E by (simp add: StartSession_def Let_def)
qed (use i in \<open>simp add: StartSession_def\<close>)

lemma inv_fresh:
  assumes i: "conn_inv S X P c" and s: "sess_ok P s"
  shows "conn_inv S X P (c\<lparr>cn_heap := (cn_heap c)(cn_next c \<mapsto> s), cn_next := cn_next c + 1\<rparr>)" (is "conn_inv S X P ?c")
proof -
  have "\<exists>s'. cn_heap ?c p = Some s' \<and> ps_id s' = n \<and> \<not> ps_ended s'" if find: "FindSession n c = Some p" for n p
  proof -
    obtain s' where "cn_heap c p = Some s'" "ps_id s' = n" "\<not> ps_ended s'" using inv_find [OF i find] .
    moreover from this i have "p \<noteq> cn_next c" by (auto simp: conn_inv_def)
    ultimately show ?thesis by simp
  qed
  then show ?thesis using i s by (auto simp: conn_inv_def FindSession_def)
qed

lemma inv_enter:
  assumes i: "conn_inv S X P c" and s: "cn_heap c p = Some s" "ps_id s = n" "\<not> ps_ended s"
  shows "conn_inv S X P (c\<lparr>cn_sessions := omap_put n p (cn_sessions c)\<rparr>)"
  using assms by (auto simp: conn_inv_def FindSession_def map_of_omap_put)

lemma HandleSessionStart_inv [simp]:
  assumes i: "conn_inv S X P c" and E: "en_ssl E = X"
  shows "conn_inv S X P (HandleSessionStart E j c)"
proof (cases "Str E j ''session_id'' = []")
  case False
  define c1 where "c1 = (if 0 < Int64 E j ''id'' (- 1) then erase_pending (Int64 E j ''id'' (- 1)) c else c)"
  define s where "s = new_psession E (cn_ice_servers c1) j"
  define c2 where "c2 = c1\<lparr>cn_heap := (cn_heap c1)(cn_next c1 \<mapsto> s), cn_next := cn_next c1 + 1\<rparr>"
  define c3 where "c3 = (case FindSession (Str E j ''session_id'') c2 of None \<Rightarrow> c2
    | Some old \<Rightarrow> EndSession E old SessionClosed ''resumed'' False c2)"
  have i1: "conn_inv S X P c1" using i by (simp add: c1_def)
  have s: "sess_ok P s" "ps_id s = Str E j ''session_id''" "\<not> ps_ended s"
    by (simp_all add: s_def new_psession_def Let_def sess_ok_def)
  have i2: "conn_inv S X P c2" unfolding c2_def by (rule inv_fresh [OF i1 s(1)])
  have i3: "conn_inv S X P c3" using i2 by (simp add: c3_def split: option.split)
  have h2: "cn_heap c2 (cn_next c1) = Some s" by (simp add: c2_def)
  have "old \<noteq> cn_next c1" if "FindSession (Str E j ''session_id'') c2 = Some old" for old
  proof -
    from that have find: "FindSession (Str E j ''session_id'') c1 = Some old" by (simp add: c2_def FindSession_def)
    obtain s' where "cn_heap c1 old = Some s'" using inv_find [OF i1 find] .
    then show ?thesis using i1 by (auto simp: conn_inv_def)
  qed
  then have h3: "cn_heap c3 (cn_next c1) = Some s"
    using h2 by (auto simp: c3_def EndSession_other split: option.split)
  from inv_enter [OF i3 h3 s(2,3)] show ?thesis
    using False E unfolding HandleSessionStart_def Let_def c1_def [symmetric] s_def [symmetric] c2_def [symmetric] c3_def [symmetric]
    by simp
qed (use i in \<open>simp add: HandleSessionStart_def\<close>)

lemma ApplyRemoteDescription_inv [simp]:
  fixes c :: "('k, 's, 'x, 'j) conn"
  assumes i: "conn_inv S X P c"
  shows "conn_inv S X P (snd (ApplyRemoteDescription E p sdp c))"
proof (cases "cn_heap c p")
  case (Some s)
  define c1 where "c1 = upd p (\<lambda>s. s\<lparr>ps_dtls := map_option (SetRemoteFingerprint (ExtractFingerprint sdp)) (ps_dtls s)\<rparr>) c"
  have i1: "conn_inv S X P c1" unfolding c1_def
    by (rule inv_upd [OF i]) (auto simp: sess_ok_def SetRemoteFingerprint_def dtls_wf_def split: option.splits)
  obtain ok c2 where w: "with_data E p (\<lambda>_. ParseRemoteStreams (en_neg E) sdp) False c1 = (ok, c2)"
    by (cases "with_data E p (\<lambda>_. ParseRemoteStreams (en_neg E) sdp) False c1")
  have "conn_inv S X P c2"
    using with_data_keeps_inv [OF i1, of "\<lambda>_. ParseRemoteStreams (en_neg E) sdp" E p False] w by simp
  then show ?thesis
    using Some i w unfolding ApplyRemoteDescription_def Let_def Some option.case c1_def [symmetric]
    by (simp add: quiet_def list_all_iff)
qed (use i in \<open>simp add: ApplyRemoteDescription_def\<close>)

lemma HandleSignal_inv [simp]:
  assumes i: "conn_inv S X P c" and E: "en_ssl E = X"
  shows "conn_inv S X P (HandleSignal E j c)"
proof -
  have "conn_inv S X P (if \<not> ok then EndSession E p SessionFailed ''sdp_negotiation_failed'' True c1
      else if \<not> b then SendLocalDescription E p ''answer'' c1 else c1)"
    if "ApplyRemoteDescription E p sdp c = (ok, c1)" for p sdp ok c1 b
    using ApplyRemoteDescription_inv [OF i, of E p sdp] that by simp
  then show ?thesis
    using i E by (auto simp: HandleSignal_def Let_def split: option.split prod.split)
qed

lemma OnIceState_inv [simp]:
  fixes c :: "('k, 's, 'x, 'j) conn"
  assumes i: "conn_inv S X P c" and E: "en_ssl E = X"
  shows "conn_inv S X P (OnIceState E p st c)"
proof -
  have "conn_inv S X P (upd p (\<lambda>s. s\<lparr>ps_data := map_option (SetRelayPath b) (ps_data s)\<rparr>) c')"
    if "conn_inv S X P c'" for b and c' :: "('k, 's, 'x, 'j) conn"
    by (rule inv_upd [OF that]) (simp add: sess_ok_map_data keeps_steady)
  then show ?thesis using i E by (simp add: OnIceState_def Let_def split: option.split)
qed

text \<open>The transport becomes ready: the handshake is verified and the keys it exported are installed.\<close>

lemma SetSrtpKeys_ready: "SetSrtpKeys S lk ls rk rs t = (True, t1) \<Longrightarrow> dt_srtp_ready t1"
  by (auto simp: SetSrtpKeys_def split: if_splits option.splits)

lemma ExportSrtpKeys_verified: "ExportSrtpKeys X d = Some ks \<Longrightarrow> dl_verified d"
  by (simp add: ExportSrtpKeys_def split: if_splits)

lemma OnDtlsDone_inv [simp]:
  assumes i: "conn_inv S X P c" and E: "en_ssl E = X" "en_srtp E = S"
  shows "conn_inv S X P (OnDtlsDone E p ok c)"
proof (cases "cn_heap c p")
  case (Some s)
  show ?thesis
  proof (cases "ok \<and> Option.bind (ps_dtls s) (ExportSrtpKeys X) \<noteq> None")
    case True
    then obtain d lk ls rk rs where d: "ps_dtls s = Some d" "ExportSrtpKeys X d = Some (lk, ls, rk, rs)"
      by (auto simp: bind_eq_Some_conv)
    let ?f = "\<lambda>_. SetSrtpKeys S lk ls rk rs"
    obtain b c1 where w: "with_data E p ?f False c = (b, c1)" by (cases "with_data E p ?f False c")
    have "conn_inv S X P (snd (with_data E p ?f False c))"
      by (rule with_data_inv [OF i]) (simp_all add: advances_SetSrtpKeys)
    then have i1: "conn_inv S X P c1" by (simp add: w)
    have "conn_inv S X P (upd p (\<lambda>s. s\<lparr>ps_transport_ready := True, ps_status := SessionConnected,
        ps_data := map_option (dt_SetTransportReady True) (ps_data s)\<rparr>) c1)" if b
    proof -
      from w that Some obtain t t1 where t: "ps_data s = Some t" "SetSrtpKeys S lk ls rk rs t = (True, t1)"
          "cn_heap c1 p = Some (s\<lparr>ps_data := Some t1\<rparr>)"
        by (auto simp: with_data_def split: option.splits prod.splits)
      have "dt_srtp_ready t1" "dl_verified d" using SetSrtpKeys_ready [OF t(2)] ExportSrtpKeys_verified [OF d(2)] by auto
      then show ?thesis
        by (intro inv_upd [OF i1]) (use t d in \<open>auto simp: sess_ok_def wf_SetTransportReady\<close>)
    qed
    then show ?thesis using Some True d w i1 E by (simp add: OnDtlsDone_def)
  next
    case False
    then show ?thesis using Some i E by (auto simp: OnDtlsDone_def split: option.split)
  qed
qed (use i in \<open>simp add: OnDtlsDone_def\<close>)

lemma OnPathDatagram_inv [simp]:
  assumes i: "conn_inv S X P c" and E: "en_ssl E = X" "en_srtp E = S"
  shows "conn_inv S X P (OnPathDatagram E p b c)"
proof (cases "cn_heap c p")
  case (Some s)
  have data: "conn_inv S X P (snd (with_data E p (\<lambda>_ t. ((), OnDatagram (en_kcp E) (en_srtp E) (en_feedback E) (en_now E) b t)) () c))"
    using i by simp
  show ?thesis
  proof (cases "ps_dtls s \<noteq> None \<and> IsDtlsRecord b")
    case True
    then obtain d where d: "ps_dtls s = Some d" by auto
    define c1 where "c1 = (if \<not> dl_started d \<and> ps_path_ready s then MaybeStartDtls E p c else c)"
    have i1: "conn_inv S X P c1" using i E by (simp add: c1_def)
    have "conn_inv S X P (put_dtls E p d1 (snd (snd (HandleIncoming X b d1))) c1)"
      if "Option.bind (cn_heap c1 p) ps_dtls = Some d1" for d1
      by (rule put_dtls_inv [OF i1]) (use that in \<open>auto simp: bind_eq_Some_conv\<close>)
    then show ?thesis
      using i1 True E unfolding OnPathDatagram_def Some option.case d Let_def c1_def [symmetric]
      by (auto split: option.split prod.split)
  next
    case False
    then show ?thesis using Some data by (auto simp: OnPathDatagram_def split: option.split)
  qed
qed (use i in \<open>simp add: OnPathDatagram_def\<close>)

lemma OnWsBinary_inv [simp]:
  "conn_inv S X P c \<Longrightarrow> en_ssl E = X \<Longrightarrow> en_srtp E = S \<Longrightarrow> conn_inv S X P (OnWsBinary E b c)"
  by (simp add: OnWsBinary_def split: option.split)

lemma inv_counts [simp]:
  assumes "conn_inv S X P c"
  shows "conn_inv S X P (c\<lparr>cn_peer_id := a, cn_ice_servers := l, cn_connected := b\<rparr>)"
    "conn_inv S X P (c\<lparr>cn_connected := b, cn_hello_sent := h\<rparr>)" "conn_inv S X P (c\<lparr>cn_next_request_id := n, cn_hello_sent := b\<rparr>)"
    "conn_inv S X P (c\<lparr>cn_tasks := ts\<rparr>)" "conn_inv S X P (c\<lparr>cn_housekeeping_pending := b\<rparr>)" "conn_inv S X P (c\<lparr>cn_streams := ss\<rparr>)"
    "conn_inv S X P (c\<lparr>cn_tasks := ts, cn_stopping := b\<rparr>)" "conn_inv S X P (c\<lparr>cn_ws := b\<rparr>)"
    "conn_inv S X P (c\<lparr>cn_worker := b, cn_stopping := b', cn_connected := b'', cn_hello_sent := h\<rparr>)"
    "conn_inv S X P (c\<lparr>cn_worker := b, cn_stopping := b', cn_tasks := ts, cn_ws := b''\<rparr>)"
  by (rule same_inv [OF _ assms]; simp add: same_def)+

lemma OnWsText_inv [simp]:
  assumes "conn_inv S X P c" "en_ssl E = X"
  shows "conn_inv S X P (OnWsText E txt c)"
  using assms
  by (simp add: OnWsText_def Let_def HandleWelcome_def HandleShareCreated_def HandleShareClosed_def HandleSessionEnd_def
      cn_HandleError_def split: option.split)

lemma OnWsStatus_inv [simp]: "conn_inv S X P c \<Longrightarrow> conn_inv S X P (OnWsStatus E st c)"
  by (simp add: OnWsStatus_def Let_def split: WsStatus.split)

lemma housekeep_inv [simp]:
  assumes i: "conn_inv S X P c" and E: "en_ssl E = X"
  shows "conn_inv S X P (housekeep E p c)"
proof (cases "cn_heap c p")
  case (Some s)
  have stats: "conn_inv S X P (upd p (\<lambda>s. s\<lparr>ps_last_stats_ms := n, ps_data := Some t1\<rparr>) c)"
    if "ps_data s = Some t" "TakeStats n t = (st, t1)" for t t1 st n
  proof (rule inv_upd [OF i])
    fix s' assume s': "cn_heap c p = Some s'" "sess_ok P s'"
    have "steady t t1" using keeps_TakeStats [of t n] that(2) by (simp add: keeps_steady)
    then show "sess_ok P (s'\<lparr>ps_last_stats_ms := n, ps_data := Some t1\<rparr>) \<and> ps_id (s'\<lparr>ps_last_stats_ms := n, ps_data := Some t1\<rparr>) = ps_id s' \<and>
        ps_ended (s'\<lparr>ps_last_stats_ms := n, ps_data := Some t1\<rparr>) = ps_ended s'"
      using s' Some that(1) by (auto intro: sess_ok_data)
  qed
  have put: "conn_inv S X P (put_dtls E p d (HandleTimeout X d) c)" if "ps_dtls s = Some d" for d
    by (rule put_dtls_inv [OF i]) (use Some that in auto)
  show ?thesis
  proof (cases "ps_transport_ready s")
    case True
    then show ?thesis using i E Some stats
      by (simp add: housekeep_def Let_def split: option.split prod.split)
  next
    case False
    then show ?thesis using i E Some put by (simp add: housekeep_def Let_def split: option.split)
  qed
qed (use i in \<open>simp add: housekeep_def\<close>)

lemma Housekeeping_inv [simp]: "conn_inv S X P c \<Longrightarrow> en_ssl E = X \<Longrightarrow> conn_inv S X P (Housekeeping E c)"
  unfolding Housekeeping_def by (rule inv.run_fold [rule_format]) simp_all

lemma run_task_inv [simp]:
  assumes "conn_inv S X P c" "en_ssl E = X" "en_srtp E = S"
  shows "conn_inv S X P (run_task E t c)"
  using assms by (simp add: run_task_def split: task.split)

lemma run_next_inv [simp]:
  assumes "conn_inv S X P c" "en_ssl E = X" "en_srtp E = S"
  shows "conn_inv S X P (run_next E c)"
  using assms by (simp add: run_next_def split: list.split)

lemma Disconnect_inv [simp]:
  assumes "conn_inv S X P c" "en_ssl E = X" "en_srtp E = S"
  shows "conn_inv S X P (snd (cn_Disconnect E c))"
proof -
  have "conn_inv S X P (fold (run_task E) (cn_tasks c) (c\<lparr>cn_tasks := [], cn_stopping := True\<rparr>))"
    by (rule inv.run_fold [rule_format]) (use assms in simp_all)
  then show ?thesis by (simp add: cn_Disconnect_def Let_def)
qed

text \<open>The threads of the transport: the pacer, RTCP feedback and the KCP clock.\<close>

lemma ready_transmit [simp]:
  "dt_transport_ready (transmit now ans tr d t) = dt_transport_ready t" "dt_srtp_ready (transmit now ans tr d t) = dt_srtp_ready t"
  by (auto simp: transmit_def dt_SendDatagram_def OnSentPacket_def dt_emit_def Let_def split: prod.split option.split)

lemma steady_SendPacket [simp]: "steady t (SendPacket S now ans tr pk t)"
  by (rule advances_steady [OF advances_SendPacket])
     (auto simp: SendPacket_def next_seq_def OnPacedPacket_def Let_def dt_emit_def split: prod.split option.split)

interpretation std: run_relation steady
  by unfold_locales (auto simp: steady_def)

lemma steady_rtcp_flush: "steady t (rtcp_flush S ans d t)"
  by (rule advances_steady [OF advances_rtcp_flush])
     (auto simp: rtcp_flush_def dt_SendDatagram_def Let_def dt_emit_def split: prod.split option.split)

lemma steady_SendRtcp [simp]: "steady t (SendRtcp S ans chunks t)"
  unfolding SendRtcp_def by (rule std.run_fold) (rule steady_rtcp_flush)

lemma advances_SendRtcp: "advances S t (SendRtcp S ans chunks t)"
  unfolding SendRtcp_def by (rule adv.run_fold) (rule advances_rtcp_flush)

end
