(* ===== verification/Peer_Connection_Props.thy ===== *)
theory Peer_Connection_Props
  imports Peer_Connection_Inv
begin

text \<open>
  Properties of a connection (\<^verbatim>\<open>minirtc/src/pc/peer_connection.cpp\<close>): the step relation \<open>cn_step\<close> (tasks of the worker, messages,
  datagrams, calls of the application and the threads of the transport, in any order), what every reachable connection
  satisfies, how two connections understand each other, and two races around the switch to the relay.
\<close>

section \<open>Everything that can happen to a connection\<close>

inductive cn_step :: "'s srtp_ops \<Rightarrow> 'x ssl_ops \<Rightarrow> ('k, 's, 'x, 'j) conn \<Rightarrow> ('k, 's, 'x, 'j) conn \<Rightarrow> bool" for S X where
  cs_post: "cn_step S X c (PostTask t c)"
| cs_run: "en_ssl E = X \<Longrightarrow> en_srtp E = S \<Longrightarrow> cn_step S X c (run_next E c)"
| cs_binary: "en_ssl E = X \<Longrightarrow> en_srtp E = S \<Longrightarrow> cn_step S X c (OnWsBinary E b c)"
| cs_path: "en_ssl E = X \<Longrightarrow> en_srtp E = S \<Longrightarrow> lock_session p c \<Longrightarrow> cn_step S X c (OnPathDatagram E p b c)"
| cs_stream: "cn_step S X c (snd (AddDataStream name reliable c))"
| cs_window: "cn_step S X c (snd (SetReliableWindow name wnd c))"
| cs_connect: "cn_step S X c (snd (cn_Connect E c))"
| cs_disconnect: "en_ssl E = X \<Longrightarrow> en_srtp E = S \<Longrightarrow> cn_step S X c (snd (cn_Disconnect E c))"
| cs_create: "cn_step S X c (snd (cn_CreateShare E mode ttl meta c))"
| cs_close: "cn_step S X c (snd (cn_CloseShare E share c))"
| cs_claim: "cn_step S X c (snd (cn_Claim E code token c))"
| cs_leave: "cn_step S X c (snd (cn_Leave E sid c))"
| cs_send: "cn_step S X c (snd (cn_Send E sid stream d c))"
| cs_process: "cn_step S X c (cn_Process c)"
| cs_paced: "cn_step S X c (snd (with_data E p (\<lambda>ans t. ((), SendPacket S now ans tracked pk t)) () c))"
| cs_rtcp: "cn_step S X c (snd (with_data E p (\<lambda>ans t. ((), SendRtcp S ans chunks t)) () c))"
| cs_tick: "cn_step S X c (snd (with_data E p (\<lambda>_. dt_Process K now) b c))"
| cs_updates: "cn_step S X c (snd (with_data E p (\<lambda>_ t. ((), PostUpdates n u t)) () c))"

inductive cn_reach :: "'s srtp_ops \<Rightarrow> 'x ssl_ops \<Rightarrow> PeerConfig \<Rightarrow> bool \<Rightarrow> bool \<Rightarrow> ('k, 's, 'x, 'j) conn \<Rightarrow> bool" for S X P n m where
  cr_new: "cn_reach S X P n m (new_conn P n m)"
| cr_step: "cn_reach S X P n m c \<Longrightarrow> cn_step S X c c' \<Longrightarrow> cn_reach S X P n m c'"

lemma inv_new [simp]: "conn_inv S X P (new_conn P n m)"
  by (simp add: conn_inv_def new_conn_def FindSession_def)

lemma step_inv: "cn_step S X c c' \<Longrightarrow> conn_inv S X P c \<Longrightarrow> conn_inv S X P c'"
proof (induction rule: cn_step.induct)
  case (cs_paced c E p now tracked pk)
  then show ?case by (intro with_data_inv) (simp_all add: advances_SendPacket)
next
  case (cs_rtcp c E p chunks)
  then show ?case by (intro with_data_inv) (simp_all add: advances_SendRtcp)
next
  case (cs_send c E sid stream d)
  then show ?case by (simp add: cn_Send_def split: option.split)
qed (simp_all add: AddDataStream_def SetReliableWindow_def cn_Connect_def cn_CreateShare_def cn_CloseShare_def cn_Claim_def
     cn_Leave_def cn_Process_def Let_def split_def split: option.split)

lemma reach_inv: "cn_reach S X P n m c \<Longrightarrow> conn_inv S X P c"
  by (induction rule: cn_reach.induct) (simp, rule step_inv)

lemma char_byte_inverse [simp]: "char_of (unat (char_byte ch)) = ch"
proof -
  have "unat (of_nat (of_char ch) :: u8) = of_char ch" by (simp only: unat_of_nat) simp
  then show ?thesis by (simp add: char_byte_def)
qed

lemma relay_frame_id:
  assumes "length sid = 16"
  shows "map (\<lambda>x. char_of (unat x)) (take 16 (drop 4 (relay_header sid @ d))) = sid"
  using assms by (simp add: relay_header_def comp_def)

lemma OnWsBinary_frame:
  assumes "length sid = 16" "FindSession sid c = Some p" "cn_heap c p = Some s" "ps_relay s \<or> pc_enable_ws_relay (cn_params c)"
  shows "OnWsBinary E (relay_header sid @ d) c = OnPathDatagram E p d (if ps_relay s then c else PostTask (TSwitchToRelay p) c)"
proof -
  have "\<not> (length (relay_header sid @ d) < kRelayHeaderSize \<or> (relay_header sid @ d) ! 0 \<noteq> 67 \<or>
      (relay_header sid @ d) ! 1 \<noteq> 82 \<or> (relay_header sid @ d) ! 2 \<noteq> 1)"
    by (simp add: relay_header_def kRelayHeaderSize_def)
  then show ?thesis
    using assms unfolding OnWsBinary_def relay_frame_id [OF assms(1)] by (auto simp: kRelayHeaderSize_def relay_header_def)
qed

section \<open>Descriptions\<close>

lemma toupper_hex: "n < 16 \<Longrightarrow> toupper (hex_digit n) = hex_digit n"
proof -
  have "\<forall>n \<in> set [0..<16]. toupper (hex_digit n) = hex_digit n" by code_simp
  then show "n < 16 \<Longrightarrow> toupper (hex_digit n) = hex_digit n" by simp
qed

lemma nibbles: "unat (b :: u8) div 16 < 16" "unat (b :: u8) mod 16 < 16"
proof -
  have "unat b < 256" using unsigned_less [of b] by simp
  then show "unat b div 16 < 16" by (simp add: less_mult_imp_div_less)
qed simp

lemma toupper_Fingerprint: "map toupper (Fingerprint md) = Fingerprint md"
  by (induction md rule: Fingerprint.induct) (simp_all add: hex_byte_def toupper_hex nibbles, simp add: toupper_def)

lemma hex_digit_no_newline: "n < 16 \<Longrightarrow> CHR 0x0A \<noteq> hex_digit n"
proof
  assume "n < 16" "CHR 0x0A = hex_digit n"
  then have "of_char (hex_digit n) = (of_char (CHR 0x0A) :: nat)" by simp
  then show False using \<open>n < 16\<close> by (simp add: hex_digit_def split: if_splits)
qed

lemma Fingerprint_no_newline: "CHR 0x0A \<notin> set (Fingerprint md)"
  by (induction md rule: Fingerprint.induct) (simp_all add: hex_byte_def hex_digit_no_newline nibbles)

lemma fp_lines_skip:
  "\<forall>l \<in> set ls. take (length fp_prefix) (strip_cr l) \<noteq> fp_prefix \<Longrightarrow> fp_lines (ls @ ls') = fp_lines ls'"
  by (induction ls) (simp_all add: Let_def)

text \<open>The lines of the ICE part: nothing that the other side would take for its own.\<close>

definition ice_line :: "string \<Rightarrow> bool" where
  "ice_line l \<longleftrightarrow> plain_line l \<and> take (length fp_prefix) l \<noteq> fp_prefix"

definition sdp_head :: "string list" where
  "sdp_head = [''v=0'', ''o=- 0 0 IN IP4 0.0.0.0'', ''s=-'', ''t=0 0'', ''m=application 9 UDP/DTLS/RTP/SAVPF 120 121'',
     ''c=IN IP4 0.0.0.0'', ''a=rtcp-mux'', ''a=x-minirtc-version:1'']"

lemma sdp_head_plain: "list_all ice_line sdp_head"
  by (simp add: sdp_head_def ice_line_def plain_line_def fp_prefix_def stream_prefix_def)

lemma local_sdp_lines:
  assumes "ps_dtls s = Some d" "ps_data s = Some t"
  shows "local_sdp (crlf_lines ls) s =
    crlf_lines (sdp_head @ ls @ [fp_prefix @ dl_fingerprint d, ''a=setup:'' @ (if ps_offerer s then ''actpass'' else ''active'')]) @
    LocalStreamSdpLines t"
  using assms by (simp add: local_sdp_def sdp_head_def crlf_lines_def)

lemma map_eq_split: "map f raw = xs @ y # ys \<Longrightarrow> \<exists>r1 l r2. raw = r1 @ l # r2 \<and> map f r1 = xs \<and> f l = y"
proof -
  assume "map f raw = xs @ y # ys"
  then obtain r1 r where r: "raw = r1 @ r" "map f r1 = xs" "map f r = y # ys" by (auto simp: map_eq_append_conv)
  then obtain l r2 where "r = l # r2" "f l = y" by (cases r) auto
  then show ?thesis using r by blast
qed

lemma ExtractFingerprint_local:
  assumes s: "ps_dtls s = Some d" "ps_data s = Some t" and fp: "dl_fingerprint d = Fingerprint md" "length md = 32"
    and ice: "list_all ice_line ls" and t: "list_all (\<lambda>(n, s). word_like n) (dt_streams t)"
  shows "ExtractFingerprint (local_sdp (crlf_lines ls) s) = Fingerprint md"
proof -
  let ?role_line = "''a=setup:'' @ (if ps_offerer s then ''actpass'' else ''active'')"
  let ?bodies = "map (\<lambda>(n, s). line_body n s) (dt_streams t)"
  let ?pre = "sdp_head @ ls" and ?post = "?role_line # ?bodies"
  have sdp: "local_sdp (crlf_lines ls) s = concat (map (\<lambda>l. l @ crlf) (?pre @ (fp_prefix @ Fingerprint md) # ?post))"
    unfolding local_sdp_lines [OF s] fp(1)
    by (simp add: crlf_lines_def LocalStreamSdpLines_def stream_line_body comp_def split_def)
  have pre: "list_all ice_line ?pre" using ice sdp_head_plain by simp
  have "\<forall>l \<in> set (?pre @ (fp_prefix @ Fingerprint md) # ?post). CHR 0x0A \<notin> set l"
    using pre t line_body_no_newline Fingerprint_no_newline [of md]
    by (fastforce simp: list_all_iff ice_line_def plain_line_def fp_prefix_def)
  from getlines_append_lines [OF this] obtain raw where
    raw: "getlines (local_sdp (crlf_lines ls) s) = raw" "map strip_cr raw = ?pre @ (fp_prefix @ Fingerprint md) # ?post"
    unfolding sdp .
  then obtain r1 l r2 where r: "raw = r1 @ l # r2" "map strip_cr r1 = ?pre" "strip_cr l = fp_prefix @ Fingerprint md"
    using map_eq_split [OF raw(2)] by blast
  have skip: "\<forall>l \<in> set r1. take (length fp_prefix) (strip_cr l) \<noteq> fp_prefix"
  proof
    fix l assume "l \<in> set r1"
    then have "strip_cr l \<in> set ?pre" using r(2) by (metis image_eqI set_map)
    then show "take (length fp_prefix) (strip_cr l) \<noteq> fp_prefix" using pre by (auto simp: list_all_iff ice_line_def)
  qed
  have "length (Fingerprint md) = 95" using length_Fingerprint [of md] fp(2) by force
  then show ?thesis
    unfolding ExtractFingerprint_def raw(1) r(1) fp_lines_skip [OF skip] by (simp add: r(3) toupper_Fingerprint)
qed

text \<open>A fingerprint names one digest.\<close>

lemma hex_digit_inj: "n < 16 \<Longrightarrow> m < 16 \<Longrightarrow> hex_digit n = hex_digit m \<longleftrightarrow> n = m"
proof
  assume "n < 16" "m < 16" "hex_digit n = hex_digit m"
  then have "of_char (hex_digit n) = (of_char (hex_digit m) :: nat)" by simp
  then show "n = m" using \<open>n < 16\<close> \<open>m < 16\<close> by (simp add: hex_digit_def split: if_splits)
qed simp

lemma hex_byte_inj: "hex_byte a = hex_byte b \<longleftrightarrow> a = b"
proof
  assume "hex_byte a = hex_byte b"
  then have "unat a div 16 = unat b div 16" "unat a mod 16 = unat b mod 16"
    by (simp_all add: hex_byte_def hex_digit_inj nibbles)
  then have "unat a = unat b" by (metis div_mult_mod_eq)
  then show "a = b" by (simp add: word_unat_eq_iff)
qed simp

lemma Fingerprint_inj: "Fingerprint a = Fingerprint b \<longleftrightarrow> a = b"
proof
  show "Fingerprint a = Fingerprint b \<Longrightarrow> a = b"
  proof (induction a arbitrary: b rule: Fingerprint.induct)
    case 1
    then show ?case by (cases b rule: Fingerprint.cases) (simp_all add: hex_byte_def)
  next
    case (2 x)
    then show ?case by (cases b rule: Fingerprint.cases) (simp_all add: hex_byte_inj, simp_all add: hex_byte_def)
  next
    case (3 x y xs)
    show ?case
    proof (cases b rule: Fingerprint.cases)
      case (3 x' y' xs')
      then have "hex_byte x = hex_byte x' \<and> Fingerprint (y # xs) = Fingerprint (y' # xs')"
        using "3.prems" by (simp add: hex_byte_def)
      then show ?thesis using "3.IH" 3 by (auto simp: hex_byte_inj)
    qed (use "3.prems" in \<open>simp_all add: hex_byte_def\<close>)
  qed
qed simp

section \<open>The switch to the relay\<close>

lemma lock_free_Post: "cn_worker c \<Longrightarrow> \<not> cn_stopping c \<Longrightarrow> cn_tasks (PostTask t c) = cn_tasks c @ [t]"
  by (simp add: PostTask_def)

lemma find_same [simp]:
  "FindSession i (say es c) = FindSession i c" "FindSession i (upd p f c) = FindSession i c"
  "FindSession i (snd (SendRequest E ms k c)) = FindSession i c" "FindSession i (SendSignal E p ms c) = FindSession i c"
  "FindSession i (c\<lparr>cn_tasks := ts\<rparr>) = FindSession i c"
  using same_SendRequest [of c E ms k] same_SendSignal [of c E p ms]
  by (simp_all add: FindSession_def say_def upd_def same_def)

lemma EndSession_report:
  assumes "cn_heap c p = Some s" "\<not> ps_ended s" "FindSession (ps_id s) c = Some p" "ps_relay s"
  shows "FindSession (ps_id s) (EndSession E p st r n c) = None"
    "last (cn_log (EndSession E p st r n c)) =
       OnSession st (ps_id s) (ps_role s) (ps_resume_token s) (ps_meta_json s) PathWsRelay r"
proof -
  define c2 where "c2 = (upd p (\<lambda>s. s\<lparr>ps_ended := True, ps_status := st\<rparr>) c)
    \<lparr>cn_sessions := filter (\<lambda>(i, _). i \<noteq> ps_id s) (cn_sessions (upd p (\<lambda>s. s\<lparr>ps_ended := True, ps_status := st\<rparr>) c))\<rparr>"
  have c2: "FindSession (ps_id s) c2 = None" "cn_heap c2 p = Some (s\<lparr>ps_ended := True, ps_status := st\<rparr>)"
    using assms(1) by (simp_all add: c2_def FindSession_def map_of_filter_out)
  have e: "FindSession (ps_id s) (upd p (\<lambda>s. s\<lparr>ps_ended := True, ps_status := st\<rparr>) c) = Some p" using assms(3) by simp
  show "FindSession (ps_id s) (EndSession E p st r n c) = None"
    "last (cn_log (EndSession E p st r n c)) =
       OnSession st (ps_id s) (ps_role s) (ps_resume_token s) (ps_meta_json s) PathWsRelay r"
    using assms(2,4) c2 unfolding EndSession_def Let_def assms(1) option.case e c2_def [symmetric]
    by (simp_all add: NotifySession_def session_path_def) (simp_all add: say_def)
qed

lemma SwitchToRelay_restarts:
  assumes c: "cn_heap c p = Some s"
    and s: "\<not> ps_relay s" "\<not> ps_ended s" "ps_dtls s = Some d" "dl_remote_fingerprint d \<noteq> []" "dl_cert d"
    and x: "ssl_new (en_ssl E) (ps_offerer s) = Some x" "ssl_handshake (en_ssl E) x [] = (HsWant, [], out, x1)"
  shows "\<exists>s1 d1. cn_heap (SwitchToRelay E p c) p = Some s1 \<and> ps_dtls s1 = Some d1 \<and> \<not> dl_verified d1 \<and>
      ps_id s1 = ps_id s \<and> ps_role s1 = ps_role s \<and> ps_resume_token s1 = ps_resume_token s \<and> ps_meta_json s1 = ps_meta_json s \<and>
      ps_relay s1 \<and> \<not> ps_ended s1"
    "FindSession i (SwitchToRelay E p c) = FindSession i c" "cn_tasks (SwitchToRelay E p c) = cn_tasks c"
proof -
  define c3 where "c3 = upd p (\<lambda>s. s\<lparr>ps_dtls := map_option Restart (ps_dtls s),
      ps_data := map_option (SetRelayPath True \<circ> dt_SetTransportReady False) (ps_data s)\<rparr>)
    (SendSignal E p [(''relay'', j_bool (en_json E) True)]
      (upd p (\<lambda>s. s\<lparr>ps_relay := True, ps_path_ready := True, ps_transport_ready := False\<rparr>) c))"
  let ?d1 = "(Restart d)\<lparr>dl_started := True, dl_is_client := ps_offerer s, dl_ssl := Some x1, dl_sent := dl_sent d @ out\<rparr>"
  have st: "dtls_Start (en_ssl E) (ps_offerer s) (Restart d) = (0, DoneNone, ?d1)"
    using s(4,5) x by (simp add: dtls_Start_def run_handshake_def Restart_def dtls_Cleanup_def)
  have r: "SwitchToRelay E p c = OnPathReady E p c3"
    using c s(1,2) unfolding SwitchToRelay_def Let_def c3_def by simp
  have h3: "\<exists>s3. cn_heap c3 p = Some s3 \<and> ps_dtls s3 = Some (Restart d) \<and> ps_id s3 = ps_id s \<and> ps_role s3 = ps_role s \<and>
      ps_offerer s3 = ps_offerer s \<and> ps_resume_token s3 = ps_resume_token s \<and> ps_meta_json s3 = ps_meta_json s \<and> ps_relay s3 \<and> \<not> ps_ended s3"
    using c s by (simp add: c3_def)
  then obtain s3 where s3: "cn_heap c3 p = Some s3" "ps_dtls s3 = Some (Restart d)" "ps_offerer s3 = ps_offerer s" "ps_id s3 = ps_id s"
      "ps_role s3 = ps_role s" "ps_resume_token s3 = ps_resume_token s" "ps_meta_json s3 = ps_meta_json s" "ps_relay s3" "\<not> ps_ended s3"
    by blast
  have f3: "FindSession i c3 = FindSession i c" "cn_tasks c3 = cn_tasks c"
    by (simp_all add: c3_def) (simp add: upd_def SendSignal_def say_def Let_def split: option.split)
  have p: "OnPathReady E p c3 = put_dtls E p (Restart d) ?d1 (upd p (\<lambda>s. s\<lparr>ps_dtls_started_ms := en_now E\<rparr>) c3)"
    using s3 st s(4) by (simp add: OnPathReady_def MaybeStartDtls_def Restart_def dtls_Cleanup_def Publish_def Let_def)
  show "\<exists>s1 d1. cn_heap (SwitchToRelay E p c) p = Some s1 \<and> ps_dtls s1 = Some d1 \<and> \<not> dl_verified d1 \<and>
      ps_id s1 = ps_id s \<and> ps_role s1 = ps_role s \<and> ps_resume_token s1 = ps_resume_token s \<and> ps_meta_json s1 = ps_meta_json s \<and>
      ps_relay s1 \<and> \<not> ps_ended s1"
    unfolding r p using s3 by (simp add: put_dtls_def) (simp add: Restart_def dtls_Cleanup_def)
  show "FindSession i (SwitchToRelay E p c) = FindSession i c" "cn_tasks (SwitchToRelay E p c) = cn_tasks c"
    unfolding r p using s3(1) f3 by (simp_all add: put_dtls_def) (simp add: say_def upd_def)
qed

text \<open>A session on the relay that has no remote description waits: housekeeping does nothing to it, however late it is.\<close>

lemma relay_without_description_waits:
  assumes "cn_heap c p = Some s" "ps_relay s" "ps_path_ready s" "\<not> ps_transport_ready s" "ps_dtls s = Some d"
    "\<not> dl_started d" "dl_remote_fingerprint d = []"
  shows "housekeep E p c = c"
  using assms by (simp add: housekeep_def MaybeStartDtls_def Let_def)

section \<open>A concrete connection\<close>

text \<open>A connection that is forced to the relay, with a TLS library that waits for the peer after its first flight.\<close>

definition demo_ssl :: "unit ssl_ops" where
  "demo_ssl = \<lparr>ssl_new = (\<lambda>_. Some ()), ssl_handshake = (\<lambda>x q. (HsWant, [], [replicate 13 22], x)), ssl_init_finished = (\<lambda>_. False),
     ssl_peer_digest = (\<lambda>_. None), ssl_read_all = (\<lambda>x _. ([], x)), ssl_timeout = (\<lambda>x. ([], x)), ssl_profile_gcm = (\<lambda>_. True),
     ssl_export = (\<lambda>_ _. None)\<rparr>"

definition demo_env :: "jval \<Rightarrow> (unit, u8, unit, jval) env" where
  "demo_env j = \<lparr>en_json = jval_ops, en_parse = (\<lambda>_. Some j), en_dump = (\<lambda>_. []), en_number = (\<lambda>_. None), en_now = 0, en_text_ok = True,
     en_binary_ok = True, en_connect = 0, en_ice_local = [], en_ice_set_remote = 0, en_ice_send = 0, en_pair_relay = False,
     en_cert = Some (replicate 32 0), en_ssrc = (\<lambda>i. of_nat i + 1), en_neg = (\<lambda>_. None), en_queue_ms = 0, en_feedback = (\<lambda>_. None),
     en_kcp = no_kcp, en_srtp = demo_srtp, en_ssl = demo_ssl\<rparr>"

definition demo_cfg :: PeerConfig where
  "demo_cfg = \<lparr>pc_server_host = ''h'', pc_server_port = 0, pc_server_tls = True, pc_server_path = [], pc_log_dir = [],
     pc_turn_mode = TurnAuto, pc_enable_srtp = True, pc_enable_upnp = False, pc_enable_ws_relay = True, pc_force_ws_relay = True,
     pc_ice_timeout_ms = 1000, pc_app = [], pc_version = [], pc_platform = [], pc_kcp_window = 1024\<rparr>"

definition demo_sid :: string where "demo_sid = ''0123456789abcdef''"

definition demo_started :: "(unit, u8, unit, jval) conn" where
  "demo_started = run_next (demo_env (JObj [(''type'', JStr ''session_start''), (''session_id'', JStr demo_sid), (''role'', JStr ''sender'')]))
     (PostTask (TWsText []) (snd (cn_Connect (demo_env JNull) (new_conn demo_cfg False False))))"

lemma demo_env_ops [simp]: "en_ssl (demo_env j) = demo_ssl" "en_srtp (demo_env j) = demo_srtp"
  by (simp_all add: demo_env_def)

lemma cr_run: "cn_reach S X P n m c \<Longrightarrow> en_ssl E = X \<Longrightarrow> en_srtp E = S \<Longrightarrow> cn_reach S X P n m (run_next E (PostTask t c))"
  by (rule cr_step [OF cr_step [OF _ cs_post] cs_run])

lemma demo_reach: "cn_reach demo_srtp demo_ssl demo_cfg False False demo_started"
  unfolding demo_started_def by (intro cr_run cr_step [OF cr_new cs_connect]) simp_all

lemmas demo_env_simps = demo_env_def jval_ops_def demo_cfg_def demo_ssl_def

lemmas demo_run_simps = run_next_def PostTask_def say_def run_task_def OnWsText_def
     Let_def Str_def HandleSessionStart_def Int64_def FindSession_def new_psession_def ParseIceServers_def NotifySession_def
     session_path_def StartSession_def upd_def SwitchToRelay_def SendSignal_def OnPathReady_def MaybeStartDtls_def Restart_def dtls_Cleanup_def new_dtls_def

definition demo_sdp :: string where "demo_sdp = crlf_lines [fp_prefix @ Fingerprint (replicate 32 0)]"

lemma demo_sdp_lines: obtains l where "getlines demo_sdp = [l]" "strip_cr l = fp_prefix @ Fingerprint (replicate 32 0)"
proof -
  have "\<forall>l \<in> set [fp_prefix @ Fingerprint (replicate 32 0)]. CHR 0x0A \<notin> set l"
    using Fingerprint_no_newline [of "replicate 32 0"] by (simp add: fp_prefix_def)
  from getlines_append_lines [OF this] obtain raw where
    "getlines demo_sdp = raw" "map strip_cr raw = [fp_prefix @ Fingerprint (replicate 32 0)]"
    unfolding demo_sdp_def crlf_lines_def .
  then show ?thesis using that by (cases raw) auto
qed

lemma demo_fingerprint [simp]: "ExtractFingerprint demo_sdp = Fingerprint (replicate 32 0)"
proof -
  obtain l where l: "getlines demo_sdp = [l]" "strip_cr l = fp_prefix @ Fingerprint (replicate 32 0)" by (rule demo_sdp_lines)
  have "length (Fingerprint (replicate 32 0)) = 95" using length_Fingerprint [of "replicate 32 0"] by simp
  then show ?thesis by (simp add: ExtractFingerprint_def l toupper_Fingerprint)
qed

lemma demo_fingerprint_ne [simp]: "Fingerprint (replicate 32 0) \<noteq> []"
  using length_Fingerprint [of "replicate 32 0"] by force

lemma demo_sdp_streams:
  "dt_streams t = [] \<Longrightarrow> ParseRemoteStreams neg demo_sdp t = (True, t\<lparr>dt_by_remote_ssrc := []\<rparr>)"
proof -
  assume t: "dt_streams t = []"
  obtain l where l: "getlines demo_sdp = [l]" "strip_cr l = fp_prefix @ Fingerprint (replicate 32 0)" by (rule demo_sdp_lines)
  have "take 16 (strip_cr l) \<noteq> stream_prefix" unfolding l by (simp add: fp_prefix_def stream_prefix_def)
  then show ?thesis using t by (simp add: ParseRemoteStreams_def l(1))
qed

definition demo_signalled :: "(unit, u8, unit, jval) conn" where
  "demo_signalled = run_next (demo_env (JObj [(''type'', JStr ''signal''), (''session_id'', JStr demo_sid),
       (''payload'', JObj [(''sdp'', JStr demo_sdp), (''kind'', JStr ''offer'')])]))
     (PostTask (TWsText []) demo_started)"

definition demo_shaking :: "(unit, u8, unit, jval) conn" where
  "demo_shaking = run_next (demo_env JNull) (PostTask THousekeeping demo_signalled)"

lemma demo_shaking_reach: "cn_reach demo_srtp demo_ssl demo_cfg False False demo_shaking"
  unfolding demo_shaking_def demo_signalled_def by (intro cr_run demo_reach) simp_all

lemma no_streams [simp]:
  "dt_streams (SetRelayPath b (dt_SetTransportReady b' (SetSendFunc (dt_Init n (new_transport f [] e))))) = []"
  by (simp add: SetRelayPath_def dt_SetTransportReady_def SetSendFunc_def dt_Init_def new_transport_def dt_emit_def Let_def)

lemma demo_started_state:
  obtains s d t where "cn_heap demo_started 0 = Some s" "ps_id s = demo_sid" "ps_dtls s = Some d" "ps_data s = Some t" "dt_streams t = []"
    "ps_relay_header s = relay_header demo_sid" "\<not> ps_offerer s" "\<not> dl_started d" "\<not> dl_verified d" "dl_cert d" "dl_incoming d = []"
    "dl_sent d = []" "ps_relay s" "ps_path_ready s" "\<not> ps_ended s" "\<not> ps_transport_ready s"
proof -
  have "\<exists>s d t. cn_heap demo_started 0 = Some s \<and> ps_id s = demo_sid \<and> ps_dtls s = Some d \<and> ps_data s = Some t \<and> dt_streams t = [] \<and>
     ps_relay_header s = relay_header demo_sid \<and> \<not> ps_offerer s \<and> \<not> dl_started d \<and> \<not> dl_verified d \<and> dl_cert d \<and> dl_incoming d = [] \<and>
     dl_sent d = [] \<and> ps_relay s \<and> ps_path_ready s \<and> \<not> ps_ended s \<and> \<not> ps_transport_ready s"
    by (simp add: demo_started_def cn_Connect_def new_conn_def demo_env_simps demo_run_simps demo_sid_def)
  then show ?thesis using that by blast
qed

lemma demo_started_rest:
  "cn_sessions demo_started = [(demo_sid, 0)]" "cn_tasks demo_started = []" "cn_worker demo_started" "\<not> cn_stopping demo_started"
  "cn_ws demo_started" "cn_params demo_started = demo_cfg"
  by (simp_all add: demo_started_def cn_Connect_def new_conn_def demo_env_simps demo_run_simps demo_sid_def)

lemma demo_shaking_log: "WsBinary (relay_header demo_sid @ replicate 13 22) \<in> set (cn_log demo_shaking)"
proof -
  obtain s d t where s: "cn_heap demo_started 0 = Some s" "ps_id s = demo_sid" "ps_dtls s = Some d" "ps_data s = Some t" "dt_streams t = []"
    "ps_relay_header s = relay_header demo_sid" "\<not> ps_offerer s" "\<not> dl_started d" "\<not> dl_verified d" "dl_cert d" "dl_incoming d = []"
    "dl_sent d = []" "ps_relay s" "ps_path_ready s" "\<not> ps_ended s" "\<not> ps_transport_ready s"
    by (rule demo_started_state)
  have "\<exists>s' d'. cn_heap demo_signalled 0 = Some s' \<and> ps_dtls s' = Some d' \<and> dl_remote_fingerprint d' \<noteq> [] \<and> \<not> dl_started d' \<and> dl_cert d' \<and>
      dl_incoming d' = [] \<and> dl_sent d' = [] \<and> ps_relay s' \<and> ps_path_ready s' \<and> \<not> ps_ended s' \<and> \<not> ps_transport_ready s' \<and>
      ps_relay_header s' = relay_header demo_sid"
    using s by (simp add: demo_signalled_def run_next_def PostTask_def demo_started_rest run_task_def OnWsText_def Str_def HandleSignal_def
       FindSession_def ApplyRemoteDescription_def with_data_def SetRemoteFingerprint_def demo_sdp_streams upd_def say_def
       SendLocalDescription_def SendSignal_def demo_env_simps Let_def)
  then obtain s' d' where s': "cn_heap demo_signalled 0 = Some s'" "ps_dtls s' = Some d'" "dl_remote_fingerprint d' \<noteq> []" "\<not> dl_started d'" "dl_cert d'"
      "dl_incoming d' = []" "dl_sent d' = []" "ps_relay s'" "ps_path_ready s'" "\<not> ps_ended s'" "\<not> ps_transport_ready s'"
      "ps_relay_header s' = relay_header demo_sid" by blast
  have r: "cn_sessions demo_signalled = [(demo_sid, 0)]" "cn_tasks demo_signalled = []" "cn_worker demo_signalled"
     "\<not> cn_stopping demo_signalled" "cn_ws demo_signalled" "cn_params demo_signalled = demo_cfg"
    using s by (simp_all add: demo_signalled_def run_next_def PostTask_def demo_started_rest run_task_def OnWsText_def Str_def HandleSignal_def
       FindSession_def ApplyRemoteDescription_def with_data_def SetRemoteFingerprint_def demo_sdp_streams upd_def say_def
       SendLocalDescription_def SendSignal_def demo_env_simps Let_def)
  show ?thesis
    using s' by (simp add: demo_shaking_def run_next_def PostTask_def r run_task_def Housekeeping_def housekeep_def MaybeStartDtls_def
      dtls_Start_def run_handshake_def put_dtls_def Publish_def send_via_path_def upd_def say_def demo_env_simps kRelayHeaderSize_def Let_def)
qed

section \<open>Properties\<close>

text \<open>C11. With SRTP configured, in every state a connection can reach, application data for a session whose DTLS handshake is not
verified is refused and nothing of it leaves: also after a fall back to the relay has restarted the handshake.\<close>

lemma send_refused_until_verified:
  assumes c: "cn_reach S X P n m c" "pc_enable_srtp P" and s: "FindSession sid c = Some p" "cn_heap c p = Some s" "ps_dtls s = Some d"
    and d: "\<not> dl_verified d"
  shows "fst (cn_Send E sid stream data c) = - 1 \<and> cn_log (snd (cn_Send E sid stream data c)) = cn_log c"
proof (cases "ps_data s")
  case (Some t)
  have "\<not> dt_transport_ready t" using inv_sess [OF reach_inv [OF c(1)] s(2)] c(2) s(3) d Some by (auto simp: sess_ok_def)
  then have "dt_Send K now q stream data t = (- 1, t)" for K now q by (simp add: dt_Send_def)
  then show ?thesis using s Some by (simp add: cn_Send_def with_data_def say_def upd_def out_effects_def)
qed (use s in \<open>simp add: cn_Send_def with_data_def\<close>)

lemma send_refused_until_verified_witness:
  "FindSession demo_sid demo_started = Some 0 \<and> fst (cn_Send (demo_env JNull) demo_sid ''data'' [1] demo_started) = - 1 \<and>
   cn_log (snd (cn_Send (demo_env JNull) demo_sid ''data'' [1] demo_started)) = cn_log demo_started"
proof -
  obtain s d where s: "cn_heap demo_started 0 = Some s" "ps_dtls s = Some d" "\<not> dl_verified d" by (rule demo_started_state)
  have f: "FindSession demo_sid demo_started = Some 0" by (simp add: FindSession_def demo_started_rest)
  have "pc_enable_srtp demo_cfg" by (simp add: demo_cfg_def)
  from send_refused_until_verified [OF demo_reach this f s, of "demo_env JNull" "''data''" "[1]"] f show ?thesis by simp
qed

text \<open>C10. With SRTP configured, every datagram a connection has ever handed to ICE or framed for the relay is an SRTP packet or was
written by the TLS library: whatever messages, datagrams, timers and calls came, in whatever order.\<close>

lemma only_sealed_datagrams_leave:
  assumes "cn_reach S X P n m c" "pc_enable_srtp P"
  shows "(IceSend p w \<in> set (cn_log c) \<longrightarrow> sealed S X w) \<and>
    (WsBinary f \<in> set (cn_log c) \<longrightarrow> kRelayHeaderSize \<le> length f \<and> sealed S X (drop kRelayHeaderSize f))"
  using reach_inv [OF assms(1)] assms(2) by (auto simp: conn_inv_def list_all_iff effect_ok_def split: cn_effect.splits)

lemma only_sealed_datagrams_leave_witness:
  "WsBinary (relay_header demo_sid @ replicate 13 22) \<in> set (cn_log demo_shaking) \<and> sealed demo_srtp demo_ssl (replicate 13 22)"
proof -
  have "pc_enable_srtp demo_cfg" by (simp add: demo_cfg_def)
  from only_sealed_datagrams_leave [OF demo_shaking_reach this, where f = "relay_header demo_sid @ replicate 13 22"]
    demo_shaking_log show ?thesis by simp
qed

text \<open>C14. What one side sends through the relay arrives: the frame carries the session id, the other side finds its session under
it, strips the header and handles exactly the datagram that was sent, following to the relay when it is not there yet.\<close>

lemma relay_frames_reach_the_session:
  assumes a: "cn_reach S X P n m ca" "cn_heap ca pa = Some sa" "ps_relay sa" "\<not> ps_ended sa" "cn_ws ca"
      "length (ps_id sa) = 16" "length d \<le> 65516"
    and b: "FindSession (ps_id sa) cb = Some pb" "cn_heap cb pb = Some sb" "ps_relay sb \<or> pc_enable_ws_relay (cn_params cb)"
  shows "\<exists>f. snd (send_via_path E (cn_ws ca) pa sa d) = [WsBinary f] \<and>
     OnWsBinary E' f cb = OnPathDatagram E' pb d (if ps_relay sb then cb else PostTask (TSwitchToRelay pb) cb)"
proof -
  have "ps_relay_header sa = relay_header (ps_id sa)" using inv_sess [OF reach_inv [OF a(1)] a(2)] by (simp add: sess_ok_def)
  then have "snd (send_via_path E (cn_ws ca) pa sa d) = [WsBinary (relay_header (ps_id sa) @ d)]"
    using a(3-5,7) by (simp add: send_via_path_def kRelayHeaderSize_def)
  with OnWsBinary_frame [OF a(6) b, of E' d] show ?thesis by blast
qed

lemma relay_frames_reach_the_session_witness:
  "\<exists>s f. cn_heap demo_started 0 = Some s \<and> snd (send_via_path (demo_env JNull) True 0 s [1, 2, 3]) = [WsBinary f] \<and>
     OnWsBinary (demo_env JNull) f demo_started = OnPathDatagram (demo_env JNull) 0 [1, 2, 3] demo_started"
proof -
  obtain s where s: "cn_heap demo_started 0 = Some s" "ps_id s = demo_sid" "ps_relay s" "\<not> ps_ended s" by (rule demo_started_state)
  have f: "FindSession (ps_id s) demo_started = Some 0" using s(2) by (simp add: FindSession_def demo_started_rest)
  have l: "length (ps_id s) = 16" using s(2) by (simp add: demo_sid_def)
  from relay_frames_reach_the_session [OF demo_reach s(1,3,4) demo_started_rest(5) l _ f s(1), of "[1, 2, 3]" "demo_env JNull" "demo_env JNull"]
  show ?thesis using s(1,3) demo_started_rest(5) by auto
qed

definition demo_side :: "u32 \<Rightarrow> (unit, u8, unit) psession" where
  "demo_side base = (new_psession (demo_env JNull) [] JNull)
     \<lparr>ps_id := demo_sid, ps_dtls := Some (new_dtls (Some (replicate 32 0))), ps_data := Some (demo_new base)\<rparr>"

definition demo_with :: "(unit, u8, unit) psession \<Rightarrow> task list \<Rightarrow> (unit, u8, unit, jval) conn" where
  "demo_with s ts = (new_conn demo_cfg False False)
     \<lparr>cn_worker := True, cn_ws := True, cn_tasks := ts, cn_sessions := [(demo_sid, 0)], cn_heap := [0 \<mapsto> s]\<rparr>"

text \<open>C13. The description that one side writes is accepted by the other: it finds the fingerprint among the lines, every stream
finds its counterpart, and from then on a handshake is verified exactly when the certificate has the digest that was announced.\<close>

lemma local_description_is_accepted:
  assumes a: "ps_dtls sa = Some da" "dl_fingerprint da = Fingerprint md" "length md = 32" "ps_data sa = Some ta"
    and b: "cn_heap cb p = Some sb" "ps_dtls sb = Some db" "\<not> dl_handshake_done db" "ps_data sb = Some tb"
    and m: "streams_match ta tb" "list_all ice_line ls" "en_ice_set_remote E = 0"
  shows "\<exists>c' s' d' t'. ApplyRemoteDescription E p (local_sdp (crlf_lines ls) sa) cb = (True, c') \<and> cn_heap c' p = Some s' \<and>
     ps_remote_description_set s' \<and> ps_dtls s' = Some d' \<and> ps_data s' = Some t' \<and>
     map_of (dt_by_remote_ssrc t') = map_of (map (\<lambda>(n, s). (st_local_ssrc s, n)) (dt_streams ta)) \<and>
     (\<forall>X x. fst (CompleteHandshake X x d') = DoneVerified \<longleftrightarrow> ssl_peer_digest X x = Some md)"
proof -
  let ?sdp = "local_sdp (crlf_lines ls) sa"
  have w: "list_all (\<lambda>(n, s). word_like n) (dt_streams ta)" using m(1) by (auto simp: streams_match_def list_all_iff)
  have fp: "ExtractFingerprint ?sdp = Fingerprint md" by (rule ExtractFingerprint_local [OF a(1,4,2,3) m(2) w])
  have ne: "Fingerprint md \<noteq> []" using length_Fingerprint [of md] a(3) by force
  let ?role_line = "''a=setup:'' @ (if ps_offerer sa then ''actpass'' else ''active'')"
  have "list_all plain_line (sdp_head @ ls @ [fp_prefix @ Fingerprint md, ?role_line])"
    using m(2) sdp_head_plain Fingerprint_no_newline [of md]
    by (auto simp: list_all_iff ice_line_def) (auto simp: plain_line_def fp_prefix_def stream_prefix_def)
  from streams_negotiate [OF m(1) this, of "en_neg E"] obtain t' where
    t': "ParseRemoteStreams (en_neg E) ?sdp tb = (True, t')"
      "map_of (dt_by_remote_ssrc t') = map_of (map (\<lambda>(n, s). (st_local_ssrc s, n)) (dt_streams ta))"
    unfolding local_sdp_lines [OF a(1,4)] a(2) crlf_lines_def [of "sdp_head @ ls @ xs" for xs] by blast
  let ?d = "SetRemoteFingerprint (Fingerprint md) db"
  have "fst (CompleteHandshake X x ?d) = DoneVerified \<longleftrightarrow> ssl_peer_digest X x = Some md" for X x
    using b(3) ne by (auto simp: CompleteHandshake_verified SetRemoteFingerprint_def Fingerprint_inj)
  then show ?thesis
    using b m(3) fp ne t' by (simp add: ApplyRemoteDescription_def with_data_def Let_def say_def upd_def)
qed

lemma local_description_is_accepted_witness:
  "\<exists>c'. ApplyRemoteDescription (demo_env JNull) 0 (local_sdp (crlf_lines [''a=ice-ufrag:u'']) (demo_side 100))
     (demo_with (demo_side 500) []) = (True, c')"
proof -
  let ?d = "new_dtls (Some (replicate 32 0)) :: unit dtls"
  have a: "ps_dtls (demo_side 100) = Some ?d" "dl_fingerprint ?d = Fingerprint (replicate 32 0)" "length (replicate 32 (0 :: u8)) = 32"
    "ps_data (demo_side 100) = Some (demo_new 100)" by (simp_all add: demo_side_def new_dtls_def)
  have b: "cn_heap (demo_with (demo_side 500) []) 0 = Some (demo_side 500)" "ps_dtls (demo_side 500) = Some ?d" "\<not> dl_handshake_done ?d"
    "ps_data (demo_side 500) = Some (demo_new 500)" by (simp_all add: demo_side_def demo_with_def new_dtls_def)
  have "list_all ice_line [''a=ice-ufrag:u'']" "en_ice_set_remote (demo_env JNull) = 0"
    by (simp_all add: ice_line_def plain_line_def stream_prefix_def fp_prefix_def demo_env_def)
  from local_description_is_accepted [OF a b demo_match this] show ?thesis by blast
qed

text \<open>C40. A DTLS record that comes in a relay frame before this side has switched is queued, and the switch it has posted drops it: the
restart of DTLS empties the queue, so the record does not wait for the handshake.\<close>

lemma queued_record_is_dropped:
  assumes c: "cn_heap c p = Some s" "FindSession (ps_id s) c = Some p" "length (ps_id s) = 16" "pc_enable_ws_relay (cn_params c)"
      "cn_worker c" "\<not> cn_stopping c" "cn_tasks c = []"
    and s: "\<not> ps_relay s" "\<not> ps_ended s" "\<not> ps_path_ready s" "ps_dtls s = Some d"
    and d: "dl_ssl d = None" "dl_incoming d = []" "dl_remote_fingerprint d = []" "IsDtlsRecord b"
  shows "let c1 = OnWsBinary E (relay_header (ps_id s) @ b) c; c2 = run_next E c1 in
    map_option dl_incoming (Option.bind (cn_heap c1 p) ps_dtls) = Some [b] \<and>
    map_option dl_incoming (Option.bind (cn_heap c2 p) ps_dtls) = Some []"
proof -
  define c0 where "c0 = PostTask (TSwitchToRelay p) c"
  have c0: "cn_heap c0 = cn_heap c" "cn_tasks c0 = [TSwitchToRelay p]" using c(5-7) by (simp_all add: c0_def lock_free_Post)
  let ?d1 = "d\<lparr>dl_incoming := [b]\<rparr>"
  have hi: "HandleIncoming (en_ssl E) b d = (True, DoneNone, ?d1)" using d by (simp add: HandleIncoming_def)
  have "OnWsBinary E (relay_header (ps_id s) @ b) c = OnPathDatagram E p b c0"
    using OnWsBinary_frame [OF c(3,2,1), of E b] c(4) s(1) by (simp add: c0_def)
  also have "\<dots> = put_dtls E p d ?d1 c0"
    using c(1) c0 s(3,4) d(4) hi by (simp add: OnPathDatagram_def Publish_def)
  finally have c1: "OnWsBinary E (relay_header (ps_id s) @ b) c = put_dtls E p d ?d1 c0" .
  let ?s1 = "s\<lparr>ps_dtls := Some ?d1\<rparr>"
  have h1: "cn_heap (put_dtls E p d ?d1 c0) = (cn_heap c)(p \<mapsto> ?s1)" using c(1) c0 by (simp add: put_dtls_heap)
  have t1: "cn_tasks (put_dtls E p d ?d1 c0) = [TSwitchToRelay p]"
    using c(1) c0 by (simp add: put_dtls_def say_def upd_def)
  have "cn_heap (run_next E (put_dtls E p d ?d1 c0)) p =
      cn_heap (SwitchToRelay E p ((put_dtls E p d ?d1 c0)\<lparr>cn_tasks := []\<rparr>)) p"
    by (simp add: run_next_def t1 run_task_def)
  also have "map_option dl_incoming (Option.bind \<dots> ps_dtls) = Some []"
    using h1 s d by (simp add: SwitchToRelay_def Let_def OnPathReady_def MaybeStartDtls_def Restart_def dtls_Cleanup_def)
  finally show ?thesis unfolding Let_def c1 by (simp add: h1)
qed

lemma queued_record_is_dropped_witness:
  "let c1 = OnWsBinary (demo_env JNull) (relay_header demo_sid @ [22, 0xFE, 0xFD] @ replicate 10 0) (demo_with (demo_side 500) []);
       c2 = run_next (demo_env JNull) c1 in
   map_option dl_incoming (Option.bind (cn_heap c1 0) ps_dtls) = Some [[22, 0xFE, 0xFD] @ replicate 10 0] \<and>
   map_option dl_incoming (Option.bind (cn_heap c2 0) ps_dtls) = Some []"
proof -
  have i: "ps_id (demo_side 500) = demo_sid" by (simp add: demo_side_def)
  show ?thesis
    by (rule queued_record_is_dropped [where s = "demo_side 500" and p = 0 and d = "new_dtls (Some (replicate 32 0))", unfolded i])
       (simp_all add: demo_with_def demo_side_def new_conn_def new_psession_def new_dtls_def demo_sid_def demo_cfg_def FindSession_def
          IsDtlsRecord_def Let_def)
qed

definition demo_dtls :: "unit dtls" where
  "demo_dtls = (new_dtls (Some (replicate 32 0)))
     \<lparr>dl_remote_fingerprint := ''AA'', dl_ssl := Some (), dl_started := True, dl_handshake_done := True, dl_verified := True\<rparr>"

definition demo_verified :: "(unit, u8, unit) psession" where
  "demo_verified = (demo_side 500)\<lparr>ps_dtls := Some demo_dtls\<rparr>"

text \<open>C39. A handshake that completes while a switch to the relay is waiting in the queue ends the session: the switch restarts DTLS,
and the completion that is run after it finds no keys to export and reports a failure.\<close>

lemma stale_completion_ends_the_session:
  assumes c: "cn_heap c p = Some s" "FindSession (ps_id s) c = Some p" "cn_tasks c = [TSwitchToRelay p, TDtlsDone p True]"
    and s: "\<not> ps_relay s" "\<not> ps_ended s" "ps_dtls s = Some d" "dl_remote_fingerprint d \<noteq> []" "dl_cert d" "dl_verified d"
    and x: "ssl_new (en_ssl E) (ps_offerer s) = Some x" "ssl_handshake (en_ssl E) x [] = (HsWant, [], out, x1)"
  shows "FindSession (ps_id s) (run_next E (run_next E c)) = None \<and>
    last (cn_log (run_next E (run_next E c))) =
      OnSession SessionFailed (ps_id s) (ps_role s) (ps_resume_token s) (ps_meta_json s) PathWsRelay ''srtp_key_failed''"
proof -
  let ?c = "c\<lparr>cn_tasks := [TDtlsDone p True]\<rparr>"
  have h: "cn_heap ?c p = Some s" using c(1) by simp
  note sw = SwitchToRelay_restarts [OF h s(1-5) x]
  obtain s1 d1 where s1: "cn_heap (SwitchToRelay E p ?c) p = Some s1" "ps_dtls s1 = Some d1" "\<not> dl_verified d1" "ps_id s1 = ps_id s"
      "ps_role s1 = ps_role s" "ps_resume_token s1 = ps_resume_token s" "ps_meta_json s1 = ps_meta_json s" "ps_relay s1" "\<not> ps_ended s1"
    using sw(1) by blast
  have 1: "run_next E c = SwitchToRelay E p ?c" by (simp add: run_next_def c(3) run_task_def)
  let ?c1 = "(SwitchToRelay E p ?c)\<lparr>cn_tasks := []\<rparr>"
  have f: "FindSession (ps_id s) ?c1 = Some p" using sw(2) [of "ps_id s"] c(2) by simp
  have 2: "run_next E (run_next E c) = EndSession E p SessionFailed ''srtp_key_failed'' True ?c1"
    unfolding 1 using s1 f by (simp add: run_next_def sw(3) run_task_def lock_session_def OnDtlsDone_def ExportSrtpKeys_def)
  show ?thesis unfolding 2
    using EndSession_report [of ?c1 p s1 E SessionFailed "''srtp_key_failed''" True] s1 f by simp
qed

lemma stale_completion_ends_the_session_witness:
  "FindSession demo_sid (run_next (demo_env JNull) (run_next (demo_env JNull) (demo_with demo_verified [TSwitchToRelay 0, TDtlsDone 0 True]))) = None \<and>
   last (cn_log (run_next (demo_env JNull) (run_next (demo_env JNull) (demo_with demo_verified [TSwitchToRelay 0, TDtlsDone 0 True])))) =
     OnSession SessionFailed demo_sid [] [] [] PathWsRelay ''srtp_key_failed''"
proof -
  have f: "ps_id demo_verified = demo_sid" "ps_role demo_verified = []" "ps_resume_token demo_verified = []" "ps_meta_json demo_verified = []"
    by (simp_all add: demo_verified_def demo_side_def new_psession_def Str_def demo_env_def jval_ops_def Let_def)
  show ?thesis
    by (rule stale_completion_ends_the_session [where s = demo_verified and p = 0 and d = demo_dtls and x = "()" and out = "[replicate 13 22]", unfolded f])
       (simp_all add: demo_with_def demo_verified_def demo_dtls_def demo_side_def new_conn_def new_psession_def new_dtls_def demo_sid_def FindSession_def
          demo_ssl_def Let_def)
qed

end
