(* ===== verification/Packet_Queue.thy ===== *)
theory Packet_Queue
  imports Rtp_Packet "HOL-Library.Multiset"
begin

text \<open>
  The queue of the pacer, \<^verbatim>\<open>minirtc/src/qos/prioritized_packet_queue.{h,cc}\<close>: five priority levels, at each level a round of streams, in
  each stream a queue of packets.  Arrays over the levels are functions; a stream is named by its SSRC, also where the code holds a
  pointer to it, and the iterators into the list of enqueue times are numbers handed out by \<open>pq_next\<close>.  Times are
  microseconds, unbounded here; an infinite time to live is \<open>None\<close>.  What the code leaves undefined (the front of an empty deque,
  an unset packet type) is \<open>None\<close>; the invariant \<open>pq_inv\<close> shows that a queue never gets there.
\<close>

section \<open>Packets\<close>

datatype RtpPacketMediaType = kAudio | kVideo | kRetransmission | kForwardErrorCorrection | kPadding

datatype OriginalType = OriginalAudio | OriginalVideo

record rtp_packet_to_send = rtp_packet +
  ts_packet_type :: "RtpPacketMediaType option"
  ts_original_packet_type :: "OriginalType option"
  ts_is_key_frame :: bool
  ts_time_in_send_queue :: "int option"

definition set_packet_type :: "RtpPacketMediaType \<Rightarrow> rtp_packet_to_send \<Rightarrow> rtp_packet_to_send" where
  "set_packet_type ty p =
     p\<lparr>ts_original_packet_type :=
         (if ts_packet_type p = Some kAudio then Some OriginalAudio
          else if ts_packet_type p = Some kVideo then Some OriginalVideo else ts_original_packet_type p),
       ts_packet_type := Some ty\<rparr>"

definition kNumPriorityLevels :: nat where "kNumPriorityLevels = 5"

fun GetPriorityForType :: "RtpPacketMediaType \<Rightarrow> OriginalType option \<Rightarrow> nat" where
  "GetPriorityForType kAudio _ = 0"
| "GetPriorityForType kRetransmission original = (if original = Some OriginalVideo then 2 else 1)"
| "GetPriorityForType kVideo _ = 3"
| "GetPriorityForType kForwardErrorCorrection _ = 3"
| "GetPriorityForType kPadding _ = 4"

record PacketQueueTTL =
  ttl_audio_retransmission :: "int option"
  ttl_video_retransmission :: "int option"
  ttl_video :: "int option"

definition ToTtlPerPrio :: "PacketQueueTTL \<Rightarrow> nat \<Rightarrow> int option" where
  "ToTtlPerPrio ttl =
     (\<lambda>_. None)
       (GetPriorityForType kRetransmission (Some OriginalAudio) := ttl_audio_retransmission ttl,
        GetPriorityForType kRetransmission (Some OriginalVideo) := ttl_video_retransmission ttl,
        GetPriorityForType kVideo None := ttl_video ttl)"

section \<open>Streams\<close>

record queued_packet =
  qp_packet :: rtp_packet_to_send
  qp_enqueue_time :: int
  qp_iterator :: nat

definition PacketSize :: "queued_packet \<Rightarrow> int" where
  "PacketSize x = int (rp_payload_size (qp_packet x) + rp_padding_size (qp_packet x))"

record stream_queue =
  sq_packets :: "nat \<Rightarrow> queued_packet list"
  sq_last_enqueue_time :: int
  sq_num_keyframe_packets :: int

definition new_stream_queue :: "int \<Rightarrow> stream_queue" where
  "new_stream_queue creation_time = \<lparr>sq_packets = (\<lambda>_. []), sq_last_enqueue_time = creation_time, sq_num_keyframe_packets = 0\<rparr>"

definition key_frames :: "queued_packet \<Rightarrow> int" where
  "key_frames x = (if ts_is_key_frame (qp_packet x) then 1 else 0)"

definition EnqueuePacket :: "queued_packet \<Rightarrow> nat \<Rightarrow> stream_queue \<Rightarrow> bool \<times> stream_queue" where
  "EnqueuePacket x level st =
     (let st1 = st\<lparr>sq_num_keyframe_packets := sq_num_keyframe_packets st + key_frames x\<rparr> in
      (sq_packets st1 level = [], st1\<lparr>sq_packets := (sq_packets st1)(level := sq_packets st1 level @ [x])\<rparr>))"

fun dequeue_front :: "queued_packet list \<Rightarrow> nat \<Rightarrow> stream_queue \<Rightarrow> (queued_packet \<times> stream_queue) option" where
  "dequeue_front [] level st = None"
| "dequeue_front (x # xs) level st =
     Some (x, st\<lparr>sq_packets := (sq_packets st)(level := xs), sq_num_keyframe_packets := sq_num_keyframe_packets st - key_frames x\<rparr>)"

definition DequeuePacket :: "nat \<Rightarrow> stream_queue \<Rightarrow> (queued_packet \<times> stream_queue) option" where
  "DequeuePacket level st = dequeue_front (sq_packets st level) level st"

definition sq_IsEmpty :: "stream_queue \<Rightarrow> bool" where
  "sq_IsEmpty st \<longleftrightarrow> list_all (\<lambda>i. sq_packets st i = []) [0..<kNumPriorityLevels]"

definition DequeueAll :: "stream_queue \<Rightarrow> (nat \<Rightarrow> queued_packet list) \<times> stream_queue" where
  "DequeueAll st = (sq_packets st, st\<lparr>sq_packets := (\<lambda>_. []), sq_num_keyframe_packets := 0\<rparr>)"

section \<open>The queue\<close>

record packet_queue =
  pq_prioritize_audio_retransmission :: bool
  pq_time_to_live_per_prio :: "nat \<Rightarrow> int option"
  pq_queue_time_sum :: int
  pq_pause_time_sum :: int
  pq_size_packets :: int
  pq_size_packets_per_media_type :: "RtpPacketMediaType \<Rightarrow> int"
  pq_size_payload :: int
  pq_last_update_time :: int
  pq_paused :: bool
  pq_last_culling_time :: int
  pq_streams :: "u32 \<rightharpoonup> stream_queue"
  pq_streams_by_prio :: "nat \<Rightarrow> u32 list"
  pq_top_active_prio_level :: "nat option"
  pq_enqueue_times :: "(nat \<times> int) list"
  pq_next :: nat

definition new_packet_queue :: "int \<Rightarrow> bool \<Rightarrow> PacketQueueTTL \<Rightarrow> packet_queue" where
  "new_packet_queue creation_time prioritize ttl =
     \<lparr>pq_prioritize_audio_retransmission = prioritize, pq_time_to_live_per_prio = ToTtlPerPrio ttl, pq_queue_time_sum = 0,
      pq_pause_time_sum = 0, pq_size_packets = 0, pq_size_packets_per_media_type = (\<lambda>_. 0), pq_size_payload = 0,
      pq_last_update_time = creation_time, pq_paused = False, pq_last_culling_time = creation_time, pq_streams = (\<lambda>_. None),
      pq_streams_by_prio = (\<lambda>_. []), pq_top_active_prio_level = None, pq_enqueue_times = [], pq_next = 0\<rparr>"

definition fifo :: "packet_queue \<Rightarrow> u32 \<Rightarrow> nat \<Rightarrow> queued_packet list" where
  "fifo q s level = (case pq_streams q s of None \<Rightarrow> [] | Some st \<Rightarrow> sq_packets st level)"

definition UpdateAverageQueueTime :: "int \<Rightarrow> packet_queue \<Rightarrow> packet_queue" where
  "UpdateAverageQueueTime now q =
     (if now = pq_last_update_time q then q
      else let delta = now - pq_last_update_time q;
               q1 = (if pq_paused q then q\<lparr>pq_pause_time_sum := pq_pause_time_sum q + delta\<rparr>
                     else q\<lparr>pq_queue_time_sum := pq_queue_time_sum q + delta * pq_size_packets q\<rparr>) in
        q1\<lparr>pq_last_update_time := now\<rparr>)"

definition SetPauseState :: "bool \<Rightarrow> int \<Rightarrow> packet_queue \<Rightarrow> packet_queue" where
  "SetPauseState paused now q = (UpdateAverageQueueTime now q)\<lparr>pq_paused := paused\<rparr>"

text \<open>The time a packet has spent in the queue while it was not paused.\<close>

definition time_in_non_paused_state :: "packet_queue \<Rightarrow> queued_packet \<Rightarrow> int" where
  "time_in_non_paused_state q x = pq_last_update_time q - qp_enqueue_time x - pq_pause_time_sum q"

text \<open>A queued packet has a type (\<open>Push\<close> reads it), so the other branch is not taken.\<close>

definition DequeuePacketInternal :: "queued_packet \<Rightarrow> packet_queue \<Rightarrow> rtp_packet_to_send \<times> packet_queue" where
  "DequeuePacketInternal x q =
     (let q1 = q\<lparr>pq_size_packets := pq_size_packets q - 1\<rparr>;
          q2 = (case ts_packet_type (qp_packet x) of None \<Rightarrow> q1
                | Some ty \<Rightarrow> q1\<lparr>pq_size_packets_per_media_type :=
                    (pq_size_packets_per_media_type q1)(ty := pq_size_packets_per_media_type q1 ty - 1)\<rparr>);
          t = time_in_non_paused_state q2 x in
      ((qp_packet x)\<lparr>ts_time_in_send_queue := Some t\<rparr>,
       q2\<lparr>pq_size_payload := pq_size_payload q2 - PacketSize x, pq_queue_time_sum := pq_queue_time_sum q2 - t,
          pq_enqueue_times := filter (\<lambda>(i, _). i \<noteq> qp_iterator x) (pq_enqueue_times q2)\<rparr>))"

text \<open>Taking the packet at the front of a stream, with its bookkeeping.\<close>

definition take_packet :: "u32 \<Rightarrow> nat \<Rightarrow> packet_queue \<Rightarrow> (rtp_packet_to_send \<times> packet_queue) option" where
  "take_packet s level q =
     (case pq_streams q s of None \<Rightarrow> None
      | Some st \<Rightarrow> (case DequeuePacket level st of None \<Rightarrow> None
          | Some (x, st1) \<Rightarrow> Some (DequeuePacketInternal x (q\<lparr>pq_streams := (pq_streams q)(s \<mapsto> st1)\<rparr>))))"

text \<open>The loop over the packets of one stream runs at most once per packet in it.\<close>

fun purge_packets :: "int \<Rightarrow> int \<Rightarrow> nat \<Rightarrow> u32 \<Rightarrow> queued_packet list \<Rightarrow> packet_queue \<Rightarrow> packet_queue" where
  "purge_packets now ttl level s [] q = q"
| "purge_packets now ttl level s (x # xs) q =
     (if ttl < now - qp_enqueue_time x
      then (case take_packet s level q of None \<Rightarrow> q | Some (_, q1) \<Rightarrow> purge_packets now ttl level s xs q1)
      else q)"

fun purge_streams :: "int \<Rightarrow> int \<Rightarrow> nat \<Rightarrow> u32 list \<Rightarrow> packet_queue \<Rightarrow> u32 list \<times> packet_queue" where
  "purge_streams now ttl level [] q = ([], q)"
| "purge_streams now ttl level (s # ss) q =
     (let q1 = purge_packets now ttl level s (fifo q s level) q;
          (kept, q2) = purge_streams now ttl level ss q1 in
      (if fifo q1 s level = [] then kept else s # kept, q2))"

definition PurgeOldPacketsAtPriorityLevel :: "nat \<Rightarrow> int \<Rightarrow> packet_queue \<Rightarrow> packet_queue" where
  "PurgeOldPacketsAtPriorityLevel level now q =
     (case pq_time_to_live_per_prio q level of None \<Rightarrow> q
      | Some ttl \<Rightarrow> (let (kept, q1) = purge_streams now ttl level (pq_streams_by_prio q level) q in
          q1\<lparr>pq_streams_by_prio := (pq_streams_by_prio q1)(level := kept)\<rparr>))"

fun top_loop :: "nat list \<Rightarrow> packet_queue \<Rightarrow> packet_queue" where
  "top_loop [] q = q"
| "top_loop (i # is) q =
     (let q1 = PurgeOldPacketsAtPriorityLevel i (pq_last_update_time q) q in
      if pq_streams_by_prio q1 i \<noteq> [] then q1\<lparr>pq_top_active_prio_level := Some i\<rparr> else top_loop is q1)"

definition MaybeUpdateTopPrioLevel :: "packet_queue \<Rightarrow> packet_queue" where
  "MaybeUpdateTopPrioLevel q =
     (if (case pq_top_active_prio_level q of None \<Rightarrow> False | Some level \<Rightarrow> pq_streams_by_prio q level \<noteq> []) then q
      else let q1 = top_loop [0..<kNumPriorityLevels] q in
        if pq_size_packets q1 = 0 then q1\<lparr>pq_top_active_prio_level := None\<rparr> else q1)"

definition kCullTimeout :: int where "kCullTimeout = 500000"

definition cull_streams :: "int \<Rightarrow> packet_queue \<Rightarrow> packet_queue" where
  "cull_streams enqueue_time q =
     (if enqueue_time - pq_last_culling_time q \<le> kCullTimeout then q
      else q\<lparr>pq_streams := (\<lambda>s. case pq_streams q s of None \<Rightarrow> None
               | Some st \<Rightarrow> if sq_IsEmpty st \<and> sq_last_enqueue_time st + kCullTimeout < enqueue_time then None else Some st),
             pq_last_culling_time := enqueue_time\<rparr>)"

definition prio_level :: "packet_queue \<Rightarrow> RtpPacketMediaType \<Rightarrow> rtp_packet_to_send \<Rightarrow> nat" where
  "prio_level q ty p = GetPriorityForType ty (if pq_prioritize_audio_retransmission q then ts_original_packet_type p else None)"

text \<open>The statements of \<^verbatim>\<open>Push\<close> that put the packet into its stream.\<close>

definition push_packet :: "int \<Rightarrow> nat \<Rightarrow> RtpPacketMediaType \<Rightarrow> rtp_packet_to_send \<Rightarrow> nat \<Rightarrow> packet_queue \<Rightarrow> packet_queue" where
  "push_packet enqueue_time iter ty p level q =
     (let q1 = UpdateAverageQueueTime enqueue_time q;
          x = \<lparr>qp_packet = p, qp_enqueue_time = enqueue_time - pq_pause_time_sum q1, qp_iterator = iter\<rparr>;
          q2 = q1\<lparr>pq_size_packets := pq_size_packets q1 + 1,
                  pq_size_packets_per_media_type := (pq_size_packets_per_media_type q1)(ty := pq_size_packets_per_media_type q1 ty + 1),
                  pq_size_payload := pq_size_payload q1 + PacketSize x\<rparr> in
      case pq_streams q2 (rp_ssrc p) of None \<Rightarrow> q2
      | Some st \<Rightarrow>
          (let (first, st1) = EnqueuePacket x level st;
               q3 = q2\<lparr>pq_streams := (pq_streams q2)(rp_ssrc p \<mapsto> st1)\<rparr>;
               q4 = (if first then q3\<lparr>pq_streams_by_prio :=
                       (pq_streams_by_prio q3)(level := pq_streams_by_prio q3 level @ [rp_ssrc p])\<rparr> else q3) in
           if (case pq_top_active_prio_level q4 of None \<Rightarrow> True | Some active \<Rightarrow> level < active)
           then q4\<lparr>pq_top_active_prio_level := Some level\<rparr> else q4))"

text \<open>A packet without a type makes the queue throw.\<close>

definition Push :: "int \<Rightarrow> rtp_packet_to_send \<Rightarrow> packet_queue \<Rightarrow> packet_queue option" where
  "Push enqueue_time p q =
     (case ts_packet_type p of None \<Rightarrow> None
      | Some ty \<Rightarrow>
          (let s = rp_ssrc p;
               q1 = (if pq_streams q s = None then q\<lparr>pq_streams := (pq_streams q)(s \<mapsto> new_stream_queue enqueue_time)\<rparr> else q);
               iter = pq_next q1;
               q2 = q1\<lparr>pq_enqueue_times := pq_enqueue_times q1 @ [(iter, enqueue_time)], pq_next := iter + 1\<rparr>;
               level = prio_level q2 ty p;
               q3 = PurgeOldPacketsAtPriorityLevel level enqueue_time q2 in
           Some (cull_streams enqueue_time (push_packet enqueue_time iter ty p level q3))))"

definition Pop :: "packet_queue \<Rightarrow> (rtp_packet_to_send option \<times> packet_queue) option" where
  "Pop q =
     (if pq_size_packets q = 0 then Some (None, q)
      else do {
        level \<leftarrow> pq_top_active_prio_level q;
        (s, ss) \<leftarrow> (case pq_streams_by_prio q level of [] \<Rightarrow> None | s # ss \<Rightarrow> Some (s, ss));
        (p, q1) \<leftarrow> take_packet s level q;
        let q2 = q1\<lparr>pq_streams_by_prio := (pq_streams_by_prio q1)(level := ss)\<rparr>;
        Some (Some p,
              if fifo q2 s level \<noteq> [] then q2\<lparr>pq_streams_by_prio := (pq_streams_by_prio q2)(level := ss @ [s])\<rparr>
              else MaybeUpdateTopPrioLevel q2)
      })"

fun remove_levels :: "u32 \<Rightarrow> (nat \<Rightarrow> queued_packet list) \<Rightarrow> nat list \<Rightarrow> packet_queue \<Rightarrow> packet_queue" where
  "remove_levels s packets_by_prio [] q = q"
| "remove_levels s packets_by_prio (i # is) q =
     (if packets_by_prio i = [] then remove_levels s packets_by_prio is q
      else let q1 = foldl (\<lambda>q x. snd (DequeuePacketInternal x q)) q (packets_by_prio i);
               ss = pq_streams_by_prio q1 i;
               rest = (if length ss = 1 then tl ss else filter (\<lambda>s'. s' \<noteq> s) ss) in
        remove_levels s packets_by_prio is (q1\<lparr>pq_streams_by_prio := (pq_streams_by_prio q1)(i := rest)\<rparr>))"

definition RemovePacketsForSsrc :: "u32 \<Rightarrow> packet_queue \<Rightarrow> packet_queue" where
  "RemovePacketsForSsrc s q =
     MaybeUpdateTopPrioLevel
       (case pq_streams q s of None \<Rightarrow> q
        | Some st \<Rightarrow> (let (packets_by_prio, st1) = DequeueAll st in
            remove_levels s packets_by_prio [0..<kNumPriorityLevels] (q\<lparr>pq_streams := (pq_streams q)(s \<mapsto> st1)\<rparr>)))"

definition HasKeyframePackets :: "u32 \<Rightarrow> packet_queue \<Rightarrow> bool" where
  "HasKeyframePackets s q = (case pq_streams q s of None \<Rightarrow> False | Some st \<Rightarrow> 0 < sq_num_keyframe_packets st)"

definition AverageQueueTime :: "packet_queue \<Rightarrow> int" where
  "AverageQueueTime q =
     (if pq_size_packets q = 0 then 0
      else sgn (pq_queue_time_sum q) * (\<bar>pq_queue_time_sum q\<bar> div pq_size_packets q))"

datatype Timestamp = MinusInfinity | Micros int | PlusInfinity

definition OldestEnqueueTime :: "packet_queue \<Rightarrow> Timestamp" where
  "OldestEnqueueTime q = (case pq_enqueue_times q of [] \<Rightarrow> MinusInfinity | (_, t) # _ \<Rightarrow> Micros t)"

definition leading_time :: "Timestamp \<Rightarrow> nat \<Rightarrow> packet_queue \<Rightarrow> Timestamp" where
  "leading_time none level q =
     (case pq_streams_by_prio q level of [] \<Rightarrow> none
      | s # _ \<Rightarrow> (case fifo q s level of [] \<Rightarrow> none | x # _ \<Rightarrow> Micros (qp_enqueue_time x)))"

definition LeadingPacketEnqueueTime :: "RtpPacketMediaType \<Rightarrow> packet_queue \<Rightarrow> Timestamp" where
  "LeadingPacketEnqueueTime ty q = leading_time MinusInfinity (GetPriorityForType ty None) q"

fun min_time :: "Timestamp \<Rightarrow> Timestamp \<Rightarrow> Timestamp" where
  "min_time MinusInfinity _ = MinusInfinity"
| "min_time _ MinusInfinity = MinusInfinity"
| "min_time PlusInfinity t = t"
| "min_time t PlusInfinity = t"
| "min_time (Micros a) (Micros b) = Micros (min a b)"

definition LeadingPacketEnqueueTimeForRetransmission :: "packet_queue \<Rightarrow> Timestamp" where
  "LeadingPacketEnqueueTimeForRetransmission q =
     (if \<not> pq_prioritize_audio_retransmission q then leading_time PlusInfinity (GetPriorityForType kRetransmission None) q
      else min_time (leading_time PlusInfinity (GetPriorityForType kRetransmission (Some OriginalAudio)) q)
                    (leading_time PlusInfinity (GetPriorityForType kRetransmission (Some OriginalVideo)) q))"

end
