(* ===== verification/Packet_Queue_Props.thy ===== *)
theory Packet_Queue_Props
  imports Packet_Queue
begin

text \<open>
  The queue of the pacer is consistent and does what it promises: its counters, its average and its round of streams always agree
  with the packets it holds (\<open>pq_inv\<close>), and its operations are those of an abstract queue, five levels of streams that take turns
  (\<open>spec_push\<close>, \<open>spec_pop\<close>, \<open>spec_remove\<close>).
\<close>

section \<open>What a queue holds\<close>

definition sq_held :: "stream_queue \<Rightarrow> queued_packet multiset" where
  "sq_held st = (\<Sum>i<kNumPriorityLevels. mset (sq_packets st i))"

definition held :: "packet_queue \<Rightarrow> queued_packet multiset" where
  "held q = (\<Sum>s\<in>dom (pq_streams q). sq_held (the (pq_streams q s)))"

text \<open>The counters agree with the packets \<open>M\<close>; the iterators \<open>E\<close> belong to packets that are being added.\<close>

definition counted :: "packet_queue \<Rightarrow> queued_packet multiset \<Rightarrow> nat multiset \<Rightarrow> bool" where
  "counted q M E \<longleftrightarrow> pq_size_packets q = int (size M) \<and>
     (\<forall>ty. pq_size_packets_per_media_type q ty = int (size {#x \<in># M. ts_packet_type (qp_packet x) = Some ty#})) \<and>
     pq_size_payload q = (\<Sum>x\<in>#M. PacketSize x) \<and>
     pq_queue_time_sum q = (\<Sum>x\<in>#M. time_in_non_paused_state q x) \<and>
     image_mset qp_iterator M + E = mset (map fst (pq_enqueue_times q)) \<and>
     distinct (map fst (pq_enqueue_times q)) \<and> (\<forall>i\<in>set (map fst (pq_enqueue_times q)). i < pq_next q)"

definition placed :: "bool \<Rightarrow> u32 \<Rightarrow> nat \<Rightarrow> queued_packet \<Rightarrow> bool" where
  "placed b s i x \<longleftrightarrow> i < kNumPriorityLevels \<and> rp_ssrc (qp_packet x) = s \<and>
     (\<exists>ty. ts_packet_type (qp_packet x) = Some ty \<and>
        i = GetPriorityForType ty (if b then ts_original_packet_type (qp_packet x) else None))"

definition stream_ok :: "bool \<Rightarrow> u32 \<Rightarrow> stream_queue \<Rightarrow> bool" where
  "stream_ok b s st \<longleftrightarrow> (\<forall>i. \<forall>x\<in>set (sq_packets st i). placed b s i x) \<and>
     sq_num_keyframe_packets st = (\<Sum>x\<in>#sq_held st. key_frames x)"

definition queues_ok :: "packet_queue \<Rightarrow> bool" where
  "queues_ok q \<longleftrightarrow> finite (dom (pq_streams q)) \<and>
     (\<forall>s st. pq_streams q s = Some st \<longrightarrow> stream_ok (pq_prioritize_audio_retransmission q) s st)"

definition round_ok :: "packet_queue \<Rightarrow> nat \<Rightarrow> bool" where
  "round_ok q i \<longleftrightarrow> distinct (pq_streams_by_prio q i) \<and> set (pq_streams_by_prio q i) = {s. fifo q s i \<noteq> []}"

definition top_ok :: "packet_queue \<Rightarrow> bool" where
  "top_ok q \<longleftrightarrow> (case pq_top_active_prio_level q of None \<Rightarrow> \<forall>i. pq_streams_by_prio q i = []
     | Some t \<Rightarrow> pq_streams_by_prio q t \<noteq> [] \<and> (\<forall>j<t. pq_streams_by_prio q j = []))"

definition queue_ok :: "packet_queue \<Rightarrow> nat multiset \<Rightarrow> bool" where
  "queue_ok q E \<longleftrightarrow> queues_ok q \<and> counted q (held q) E \<and> (\<forall>i. round_ok q i)"

definition pq_inv :: "packet_queue \<Rightarrow> bool" where
  "pq_inv q \<longleftrightarrow> queue_ok q {#} \<and> top_ok q"

text \<open>What the removal of packets leaves alone.\<close>

definition same_setting :: "packet_queue \<Rightarrow> packet_queue \<Rightarrow> bool" where
  "same_setting q q' \<longleftrightarrow> pq_prioritize_audio_retransmission q' = pq_prioritize_audio_retransmission q \<and>
     pq_time_to_live_per_prio q' = pq_time_to_live_per_prio q \<and> pq_last_update_time q' = pq_last_update_time q \<and>
     pq_pause_time_sum q' = pq_pause_time_sum q \<and> pq_paused q' = pq_paused q \<and> dom (pq_streams q') = dom (pq_streams q) \<and>
     pq_next q' = pq_next q \<and> pq_last_culling_time q' = pq_last_culling_time q"

lemma top_ok_cong:
  assumes "pq_streams_by_prio q' = pq_streams_by_prio q" "pq_top_active_prio_level q' = pq_top_active_prio_level q"
  shows "top_ok q' = top_ok q"
  by (simp only: top_ok_def assms)

lemma same_setting_refl [simp]: "same_setting q q"
  by (simp add: same_setting_def)

lemma same_setting_trans: "same_setting q q' \<Longrightarrow> same_setting q' q'' \<Longrightarrow> same_setting q q''"
  by (simp add: same_setting_def)

text \<open>The rounds and the top level are not part of what is counted.\<close>

lemma rounds_frame [simp]:
  "fifo (q\<lparr>pq_streams_by_prio := f\<rparr>) = fifo q" "held (q\<lparr>pq_streams_by_prio := f\<rparr>) = held q"
  "queues_ok (q\<lparr>pq_streams_by_prio := f\<rparr>) = queues_ok q" "counted (q\<lparr>pq_streams_by_prio := f\<rparr>) = counted q"
  "same_setting q' (q\<lparr>pq_streams_by_prio := f\<rparr>) = same_setting q' q"
  by (simp_all add: fifo_def held_def queues_ok_def counted_def same_setting_def time_in_non_paused_state_def fun_eq_iff)

lemma top_frame [simp]:
  "fifo (q\<lparr>pq_top_active_prio_level := t\<rparr>) = fifo q" "queue_ok (q\<lparr>pq_top_active_prio_level := t\<rparr>) = queue_ok q"
  "same_setting q' (q\<lparr>pq_top_active_prio_level := t\<rparr>) = same_setting q' q"
  by (simp_all add: queue_ok_def fifo_def held_def queues_ok_def counted_def same_setting_def round_ok_def time_in_non_paused_state_def fun_eq_iff)

lemma priority_in_range [simp]: "GetPriorityForType ty o' < kNumPriorityLevels"
  by (cases ty) (simp_all add: kNumPriorityLevels_def)

section \<open>Multisets over a map\<close>

lemma sum_dom_upd:
  fixes f :: "'b \<Rightarrow> 'c multiset"
  assumes "finite (dom m)"
  shows "(\<Sum>s\<in>dom (m(k \<mapsto> v)). f (the ((m(k \<mapsto> v)) s))) + (case m k of None \<Rightarrow> {#} | Some w \<Rightarrow> f w) =
    (\<Sum>s\<in>dom m. f (the (m s))) + f v"
proof -
  have "(\<Sum>s\<in>dom (m(k \<mapsto> v)). f (the ((m(k \<mapsto> v)) s))) = f v + (\<Sum>s\<in>dom m - {k}. f (the ((m(k \<mapsto> v)) s)))"
    using sum.insert_remove [of "dom m" "\<lambda>s. f (the ((m(k \<mapsto> v)) s))" k] assms by simp
  also have "(\<Sum>s\<in>dom m - {k}. f (the ((m(k \<mapsto> v)) s))) = (\<Sum>s\<in>dom m - {k}. f (the (m s)))"
    by (rule sum.cong) auto
  finally have e: "(\<Sum>s\<in>dom (m(k \<mapsto> v)). f (the ((m(k \<mapsto> v)) s))) = f v + (\<Sum>s\<in>dom m - {k}. f (the (m s)))" .
  show ?thesis
  proof (cases "m k")
    case None
    then have "dom m - {k} = dom m" by auto
    with None e show ?thesis by simp
  next
    case (Some w)
    then have "(\<Sum>s\<in>dom m. f (the (m s))) = f w + (\<Sum>s\<in>dom m - {k}. f (the (m s)))"
      using sum.remove [of "dom m" k "\<lambda>s. f (the (m s))"] assms by auto
    with Some e show ?thesis by simp
  qed
qed

lemma sq_held_upd:
  assumes "i < kNumPriorityLevels" "sq_packets st' = (sq_packets st)(i := ys)"
  shows "sq_held st' + mset (sq_packets st i) = sq_held st + mset ys"
proof -
  have "(\<Sum>j\<in>{..<kNumPriorityLevels} - {i}. mset (sq_packets st' j)) = (\<Sum>j\<in>{..<kNumPriorityLevels} - {i}. mset (sq_packets st j))"
    by (rule sum.cong) (auto simp: assms(2))
  then show ?thesis
    using sum.remove [of "{..<kNumPriorityLevels}" i "\<lambda>j. mset (sq_packets st' j)"]
      sum.remove [of "{..<kNumPriorityLevels}" i "\<lambda>j. mset (sq_packets st j)"] assms
    by (simp add: sq_held_def)
qed

lemma held_upd:
  assumes "finite (dom (pq_streams q))" "pq_streams q s = Some st"
  shows "held (q\<lparr>pq_streams := (pq_streams q)(s \<mapsto> st')\<rparr>) + sq_held st = held q + sq_held st'"
  using sum_dom_upd [OF assms(1), of sq_held s st'] assms(2) by (simp add: held_def)

lemma held_cong: "pq_streams q' = pq_streams q \<Longrightarrow> held q' = held q"
  by (simp add: held_def)

lemma in_sq_held: "x \<in># sq_held st \<longleftrightarrow> (\<exists>i<kNumPriorityLevels. x \<in> set (sq_packets st i))"
  by (auto simp: sq_held_def set_mset_sum)

lemma in_fifo: "x \<in> set (fifo q s i) \<longleftrightarrow> (\<exists>st. pq_streams q s = Some st \<and> x \<in> set (sq_packets st i))"
  by (cases "pq_streams q s") (simp_all add: fifo_def)

lemma in_held:
  assumes "queues_ok q"
  shows "x \<in># held q \<longleftrightarrow> (\<exists>s i. x \<in> set (fifo q s i))"
proof
  assume "x \<in># held q"
  moreover have "finite (dom (pq_streams q))" using assms by (simp add: queues_ok_def)
  ultimately obtain s where s: "s \<in> dom (pq_streams q)" "x \<in># sq_held (the (pq_streams q s))" by (auto simp: held_def set_mset_sum)
  then obtain st i where "pq_streams q s = Some st" "x \<in> set (sq_packets st i)" by (auto simp: in_sq_held)
  then have "x \<in> set (fifo q s i)" by (simp add: fifo_def)
  then show "\<exists>s i. x \<in> set (fifo q s i)" by blast
next
  assume "\<exists>s i. x \<in> set (fifo q s i)"
  then obtain s i st where st: "pq_streams q s = Some st" "x \<in> set (sq_packets st i)" unfolding in_fifo by blast
  then have "i < kNumPriorityLevels" using assms by (auto simp: queues_ok_def stream_ok_def placed_def)
  then have "x \<in># sq_held st" using st by (auto simp: in_sq_held)
  then show "x \<in># held q" using st assms by (force simp: held_def queues_ok_def set_mset_sum)
qed

lemma size_zero_iff:
  assumes "queue_ok q E"
  shows "pq_size_packets q = 0 \<longleftrightarrow> (\<forall>i. pq_streams_by_prio q i = [])"
proof -
  have "pq_size_packets q = 0 \<longleftrightarrow> (\<forall>x. x \<notin># held q)" using assms by (auto simp: queue_ok_def counted_def multiset_eq_iff not_in_iff)
  also have "\<dots> \<longleftrightarrow> (\<forall>s i. fifo q s i = [])"
  proof -
    have ok: "queues_ok q" using assms by (simp add: queue_ok_def)
    show ?thesis unfolding in_held [OF ok] by (metis ex_in_conv set_empty)
  qed
  also have "\<dots> \<longleftrightarrow> (\<forall>i. pq_streams_by_prio q i = [])"
  proof -
    have "\<And>i. set (pq_streams_by_prio q i) = {s. fifo q s i \<noteq> []}" using assms by (simp add: queue_ok_def round_ok_def)
    then show ?thesis by (metis (mono_tags) empty_Collect_eq set_empty)
  qed
  finally show ?thesis .
qed

section \<open>Taking packets out\<close>

lemma DequeuePacketInternal_frame:
  "pq_streams (snd (DequeuePacketInternal x q)) = pq_streams q"
  "pq_streams_by_prio (snd (DequeuePacketInternal x q)) = pq_streams_by_prio q"
  "pq_top_active_prio_level (snd (DequeuePacketInternal x q)) = pq_top_active_prio_level q"
  "same_setting q (snd (DequeuePacketInternal x q))"
  by (simp_all add: DequeuePacketInternal_def same_setting_def Let_def split: option.split)

lemma DequeuePacketInternal_counted:
  assumes c: "counted q (add_mset x M) E" and t: "ts_packet_type (qp_packet x) = Some ty"
  shows "counted (snd (DequeuePacketInternal x q)) M E"
proof -
  let ?ts = "pq_enqueue_times q" and ?q = "snd (DequeuePacketInternal x q)"
  have m: "mset (map fst ?ts) = add_mset (qp_iterator x) (image_mset qp_iterator M + E)" and d: "distinct (map fst ?ts)"
    using c by (simp_all add: counted_def)
  have "qp_iterator x \<notin># image_mset qp_iterator M + E"
  proof -
    have "count (mset (map fst ?ts)) (qp_iterator x) \<le> 1" using d by (simp add: distinct_count_atmost_1)
    then show ?thesis unfolding m by (simp add: not_in_iff del: union_iff set_image_mset)
  qed
  then have f: "filter_mset (\<lambda>i. i \<noteq> qp_iterator x) (mset (map fst ?ts)) = image_mset qp_iterator M + E"
    unfolding m by (auto simp: multiset_eq_iff not_in_iff simp del: union_iff set_image_mset)
  have ts: "map fst (filter (\<lambda>(i, _). i \<noteq> qp_iterator x) ?ts) = filter (\<lambda>i. i \<noteq> qp_iterator x) (map fst ?ts)"
    by (simp add: filter_map comp_def case_prod_unfold)
  have tm: "time_in_non_paused_state ?q y = time_in_non_paused_state q y" for y
    using DequeuePacketInternal_frame(4) by (simp add: time_in_non_paused_state_def same_setting_def)
  have e: "pq_enqueue_times ?q = filter (\<lambda>(i, _). i \<noteq> qp_iterator x) ?ts" "pq_next ?q = pq_next q"
    by (simp_all add: DequeuePacketInternal_def Let_def t)
  have s: "pq_queue_time_sum ?q = pq_queue_time_sum q - time_in_non_paused_state q x"
    by (simp add: DequeuePacketInternal_def Let_def t time_in_non_paused_state_def)
  have n: "pq_size_packets ?q = pq_size_packets q - 1" "pq_size_payload ?q = pq_size_payload q - PacketSize x"
    "pq_size_packets_per_media_type ?q = (pq_size_packets_per_media_type q)(ty := pq_size_packets_per_media_type q ty - 1)"
    by (simp_all add: DequeuePacketInternal_def Let_def t)
  show ?thesis
    using c f d unfolding counted_def e ts mset_filter tm s n by (auto simp: t)
qed


lemma take_packet_ok:
  assumes w: "queues_ok q" and c: "counted q (held q) E" and f: "fifo q s i = x # xs"
  shows "\<exists>q'. take_packet s i q = Some ((qp_packet x)\<lparr>ts_time_in_send_queue := Some (time_in_non_paused_state q x)\<rparr>, q') \<and>
    queues_ok q' \<and> counted q' (held q') E \<and> fifo q' = (fifo q)(s := (fifo q s)(i := xs)) \<and>
    pq_streams_by_prio q' = pq_streams_by_prio q \<and> pq_top_active_prio_level q' = pq_top_active_prio_level q \<and> same_setting q q'"
proof -
  obtain st where st: "pq_streams q s = Some st" "sq_packets st i = x # xs" using f by (auto simp: fifo_def split: option.splits)
  let ?st = "st\<lparr>sq_packets := (sq_packets st)(i := xs), sq_num_keyframe_packets := sq_num_keyframe_packets st - key_frames x\<rparr>"
  let ?q = "q\<lparr>pq_streams := (pq_streams q)(s \<mapsto> ?st)\<rparr>"
  have so: "stream_ok (pq_prioritize_audio_retransmission q) s st" and fin: "finite (dom (pq_streams q))"
    using w st(1) by (auto simp: queues_ok_def)
  then have "placed (pq_prioritize_audio_retransmission q) s i x" using st(2) by (auto simp: stream_ok_def)
  then obtain ty where i: "i < kNumPriorityLevels" and ty: "ts_packet_type (qp_packet x) = Some ty" by (auto simp: placed_def)
  have h: "sq_held st = add_mset x (sq_held ?st)" using sq_held_upd [OF i, of ?st st xs] st(2) by simp
  have hq: "held q = add_mset x (held ?q)" using held_upd [OF fin st(1), of ?st] unfolding h by simp
  have "counted ?q (add_mset x (held ?q)) E" using c unfolding hq by (simp add: counted_def time_in_non_paused_state_def)
  from DequeuePacketInternal_counted [OF this ty] have "counted (snd (DequeuePacketInternal x ?q)) (held (snd (DequeuePacketInternal x ?q))) E"
    unfolding held_cong [OF DequeuePacketInternal_frame(1)] .
  moreover have "stream_ok (pq_prioritize_audio_retransmission q) s ?st"
    using so st(2) h by (auto simp: stream_ok_def)
  then have "queues_ok (snd (DequeuePacketInternal x ?q))"
    using w DequeuePacketInternal_frame(1) [of x ?q] DequeuePacketInternal_frame(4) [of ?q x] by (auto simp: queues_ok_def same_setting_def)
  moreover have "same_setting q ?q" using st(1) by (auto simp: same_setting_def)
  then have "same_setting q (snd (DequeuePacketInternal x ?q))" using DequeuePacketInternal_frame(4) same_setting_trans by blast
  moreover have "fifo (snd (DequeuePacketInternal x ?q)) = (fifo q)(s := (fifo q s)(i := xs))"
    using st by (auto simp: fifo_def fun_eq_iff DequeuePacketInternal_frame)
  moreover have "take_packet s i q = Some (DequeuePacketInternal x ?q)"
    using st by (simp add: take_packet_def DequeuePacket_def)
  moreover have "fst (DequeuePacketInternal x ?q) = (qp_packet x)\<lparr>ts_time_in_send_queue := Some (time_in_non_paused_state q x)\<rparr>"
    using ty by (simp add: DequeuePacketInternal_def time_in_non_paused_state_def Let_def)
  ultimately show ?thesis
    by (intro exI [of _ "snd (DequeuePacketInternal x ?q)"]) (simp add: DequeuePacketInternal_frame prod_eq_iff)
qed

abbreviation old :: "int \<Rightarrow> int \<Rightarrow> queued_packet \<Rightarrow> bool" where
  "old now ttl x \<equiv> ttl < now - qp_enqueue_time x"

lemma purge_packets_ok:
  assumes "queues_ok q" "counted q (held q) E" "fifo q s i = xs"
  shows "let q' = purge_packets now ttl i s xs q in
    queues_ok q' \<and> counted q' (held q') E \<and> fifo q' = (fifo q)(s := (fifo q s)(i := dropWhile (old now ttl) xs)) \<and>
    pq_streams_by_prio q' = pq_streams_by_prio q \<and> pq_top_active_prio_level q' = pq_top_active_prio_level q \<and> same_setting q q'"
  using assms
proof (induction xs arbitrary: q)
  case Nil
  then show ?case by (simp add: fun_upd_idem)
next
  case (Cons x xs)
  show ?case
  proof (cases "old now ttl x")
    case True
    obtain p q1 where t: "take_packet s i q = Some (p, q1)" and q1: "queues_ok q1" "counted q1 (held q1) E"
      "fifo q1 = (fifo q)(s := (fifo q s)(i := xs))" "pq_streams_by_prio q1 = pq_streams_by_prio q"
      "pq_top_active_prio_level q1 = pq_top_active_prio_level q" "same_setting q q1"
      using take_packet_ok [OF Cons.prems] by blast
    show ?thesis using Cons.IH [OF q1(1,2)] q1(3-6) True t by (auto simp: Let_def fun_eq_iff intro: same_setting_trans)
  next
    case False
    with Cons.prems show ?thesis by (simp add: fun_upd_idem)
  qed
qed

lemma purge_queues_ok:
  assumes "queues_ok q" "counted q (held q) E" "distinct ss"
  shows "case purge_streams now ttl i ss q of (kept, q') \<Rightarrow>
    kept = filter (\<lambda>s. dropWhile (old now ttl) (fifo q s i) \<noteq> []) ss \<and>
    queues_ok q' \<and> counted q' (held q') E \<and>
    fifo q' = (\<lambda>s j. if s \<in> set ss \<and> j = i then dropWhile (old now ttl) (fifo q s i) else fifo q s j) \<and>
    pq_streams_by_prio q' = pq_streams_by_prio q \<and> pq_top_active_prio_level q' = pq_top_active_prio_level q \<and> same_setting q q'"
  using assms
proof (induction ss arbitrary: q)
  case Nil
  then show ?case by simp
next
  case (Cons s ss)
  define q1 where "q1 = purge_packets now ttl i s (fifo q s i) q"
  have q1: "queues_ok q1" "counted q1 (held q1) E" "fifo q1 = (fifo q)(s := (fifo q s)(i := dropWhile (old now ttl) (fifo q s i)))"
    "pq_streams_by_prio q1 = pq_streams_by_prio q" "pq_top_active_prio_level q1 = pq_top_active_prio_level q" "same_setting q q1"
    using purge_packets_ok [OF Cons.prems(1,2) refl] unfolding q1_def by (simp_all add: Let_def)
  obtain kept q' where k: "purge_streams now ttl i ss q1 = (kept, q')" by (metis surj_pair)
  have "distinct ss" and s: "s \<notin> set ss" using Cons.prems(3) by simp_all
  from Cons.IH [OF q1(1,2) this(1)] k
  have q': "kept = filter (\<lambda>s. dropWhile (old now ttl) (fifo q1 s i) \<noteq> []) ss" "queues_ok q'" "counted q' (held q') E"
    "fifo q' = (\<lambda>s j. if s \<in> set ss \<and> j = i then dropWhile (old now ttl) (fifo q1 s i) else fifo q1 s j)"
    "pq_streams_by_prio q' = pq_streams_by_prio q1" "pq_top_active_prio_level q' = pq_top_active_prio_level q1" "same_setting q1 q'"
    by simp_all
  have "purge_streams now ttl i (s # ss) q = (if fifo q1 s i = [] then kept else s # kept, q')"
    using k by (simp add: q1_def)
  moreover have "kept = filter (\<lambda>s. dropWhile (old now ttl) (fifo q s i) \<noteq> []) ss"
    unfolding q'(1) q1(3) using s by (intro filter_cong) auto
  moreover have "fifo q' = (\<lambda>s' j. if s' \<in> set (s # ss) \<and> j = i then dropWhile (old now ttl) (fifo q s' i) else fifo q s' j)"
    unfolding q'(4) q1(3) using s by (auto simp: fun_eq_iff)
  ultimately show ?case using q' q1 same_setting_trans [OF q1(6) q'(7)] by simp
qed


section \<open>The abstract queue\<close>

text \<open>At each level the streams with packets, in the order of their turns, each with its packets.\<close>

type_synonym levels = "nat \<Rightarrow> (u32 \<times> queued_packet list) list"

definition view :: "packet_queue \<Rightarrow> levels" where
  "view q i = map (\<lambda>s. (s, fifo q s i)) (pq_streams_by_prio q i)"

text \<open>Packets that are too old leave from the front of their stream.\<close>

definition spec_purge :: "int option \<Rightarrow> int \<Rightarrow> (u32 \<times> queued_packet list) list \<Rightarrow> (u32 \<times> queued_packet list) list" where
  "spec_purge ttl now lv =
     (case ttl of None \<Rightarrow> lv
      | Some t \<Rightarrow> filter (\<lambda>(s, xs). xs \<noteq> []) (map (\<lambda>(s, xs). (s, dropWhile (old now t) xs)) lv))"

text \<open>When a level runs empty, the levels are purged until one has packets.\<close>

fun spec_settle :: "(nat \<Rightarrow> int option) \<Rightarrow> int \<Rightarrow> nat list \<Rightarrow> levels \<Rightarrow> levels" where
  "spec_settle ttl now [] A = A"
| "spec_settle ttl now (i # is) A =
     (let A1 = A(i := spec_purge (ttl i) now (A i)) in if A1 i \<noteq> [] then A1 else spec_settle ttl now is A1)"

definition spec_append :: "u32 \<Rightarrow> queued_packet \<Rightarrow> (u32 \<times> queued_packet list) list \<Rightarrow> (u32 \<times> queued_packet list) list" where
  "spec_append s x lv =
     (if s \<in> set (map fst lv) then map (\<lambda>(s', xs). (s', if s' = s then xs @ [x] else xs)) lv else lv @ [(s, [x])])"

definition spec_push :: "(nat \<Rightarrow> int option) \<Rightarrow> int \<Rightarrow> nat \<Rightarrow> u32 \<Rightarrow> queued_packet \<Rightarrow> levels \<Rightarrow> levels" where
  "spec_push ttl now i s x A = A(i := spec_append s x (spec_purge (ttl i) now (A i)))"

definition spec_next :: "levels \<Rightarrow> nat option" where
  "spec_next A = find (\<lambda>i. A i \<noteq> []) [0..<kNumPriorityLevels]"

text \<open>The stream whose turn it is gives its oldest packet and goes to the end of the round.\<close>

definition spec_pop :: "(nat \<Rightarrow> int option) \<Rightarrow> int \<Rightarrow> levels \<Rightarrow> queued_packet option \<times> levels" where
  "spec_pop ttl now A =
     (case spec_next A of None \<Rightarrow> (None, A)
      | Some i \<Rightarrow> (case A i of
          (s, x # xs) # rest \<Rightarrow>
            (let A1 = A(i := rest @ (if xs = [] then [] else [(s, xs)])) in
             (Some x, if A1 i = [] then spec_settle ttl now [0..<kNumPriorityLevels] A1 else A1))
        | _ \<Rightarrow> (None, A)))"

definition spec_remove :: "(nat \<Rightarrow> int option) \<Rightarrow> int \<Rightarrow> u32 \<Rightarrow> levels \<Rightarrow> levels" where
  "spec_remove ttl now s A =
     (let A1 = (\<lambda>i. filter (\<lambda>(s', _). s' \<noteq> s) (A i)) in
      case spec_next A of None \<Rightarrow> A1
      | Some i \<Rightarrow> if A1 i = [] then spec_settle ttl now [0..<kNumPriorityLevels] A1 else A1)"

section \<open>Purging\<close>

lemma view_empty [simp]: "view q i = [] \<longleftrightarrow> pq_streams_by_prio q i = []"
  by (simp add: view_def)

lemma round_purged:
  assumes "round_ok q i" "pq_streams_by_prio q' i = filter (\<lambda>s. f (fifo q s i) \<noteq> []) (pq_streams_by_prio q i)"
    "\<And>s. fifo q' s i = f (fifo q s i)" "f [] = []"
  shows "round_ok q' i" "view q' i = filter (\<lambda>(s, xs). xs \<noteq> []) (map (\<lambda>(s, xs). (s, f xs)) (view q i))"
proof -
  show "round_ok q' i" using assms by (auto simp: round_ok_def)
  show "view q' i = filter (\<lambda>(s, xs). xs \<noteq> []) (map (\<lambda>(s, xs). (s, f xs)) (view q i))"
    using assms(2,3) by (simp add: view_def filter_map comp_def)
qed

lemma round_frame:
  assumes "pq_streams_by_prio q' i = pq_streams_by_prio q i" "\<And>s. fifo q' s i = fifo q s i"
  shows "round_ok q' i = round_ok q i" "view q' i = view q i"
  using assms by (simp_all add: round_ok_def view_def)

lemma fifo_outside_round:
  assumes "round_ok q i" "s \<notin> set (pq_streams_by_prio q i)"
  shows "fifo q s i = []"
  using assms by (simp add: round_ok_def)

lemma Purge_ok:
  fixes i :: nat and now :: int
  assumes ok: "queue_ok q E"
  defines "q' \<equiv> PurgeOldPacketsAtPriorityLevel i now q"
  shows "queue_ok q' E" "view q' = (view q)(i := spec_purge (pq_time_to_live_per_prio q i) now (view q i))"
    "pq_top_active_prio_level q' = pq_top_active_prio_level q" "same_setting q q'"
proof -
  have "queue_ok q' E \<and> view q' = (view q)(i := spec_purge (pq_time_to_live_per_prio q i) now (view q i)) \<and>
    pq_top_active_prio_level q' = pq_top_active_prio_level q \<and> same_setting q q'"
  proof (cases "pq_time_to_live_per_prio q i")
    case None
    then show ?thesis using ok by (simp add: q'_def PurgeOldPacketsAtPriorityLevel_def spec_purge_def)
  next
    case (Some ttl)
    let ?ss = "pq_streams_by_prio q i"
    obtain kept q1 where k: "purge_streams now ttl i ?ss q = (kept, q1)" by (metis surj_pair)
    have d: "distinct ?ss" and r: "round_ok q i" using ok by (auto simp: queue_ok_def round_ok_def)
    have w: "queues_ok q" "counted q (held q) E" using ok by (simp_all add: queue_ok_def)
    note p = purge_queues_ok [OF w d, where now = now and ttl = ttl and i = i, unfolded k prod.case]
    have q': "q' = q1\<lparr>pq_streams_by_prio := (pq_streams_by_prio q1)(i := kept)\<rparr>"
      by (simp add: q'_def PurgeOldPacketsAtPriorityLevel_def Some k)
    have f: "fifo q' = fifo q1" by (simp add: q')
    have fi: "fifo q' s i = dropWhile (old now ttl) (fifo q s i)" for s
      using p fifo_outside_round [OF r, of s] unfolding f by auto
    have fj: "fifo q' s j = fifo q s j" if "j \<noteq> i" for s j using p that unfolding f by simp
    have bi: "pq_streams_by_prio q' i = filter (\<lambda>s. dropWhile (old now ttl) (fifo q s i) \<noteq> []) ?ss" using p by (simp add: q')
    have bj: "pq_streams_by_prio q' j = pq_streams_by_prio q j" if "j \<noteq> i" for j using p that by (simp add: q')
    have i: "round_ok q' i" "view q' i = spec_purge (Some ttl) now (view q i)"
      using round_purged [OF r bi fi] by (simp_all add: spec_purge_def)
    have j: "round_ok q' j" "view q' j = view q j" if "j \<noteq> i" for j
      using round_frame [of q' j q] bj [OF that] fj [OF that] ok by (simp_all add: queue_ok_def)
    have "\<forall>j. round_ok q' j" using i j by metis
    moreover have "queues_ok q'" "counted q' (held q') E" "pq_top_active_prio_level q' = pq_top_active_prio_level q" "same_setting q q'"
      using p by (simp_all add: q')
    moreover have "view q' = (view q)(i := spec_purge (Some ttl) now (view q i))" using i j by (auto simp: fun_eq_iff)
    ultimately show ?thesis by (simp add: queue_ok_def Some)
  qed
  then show "queue_ok q' E" "view q' = (view q)(i := spec_purge (pq_time_to_live_per_prio q i) now (view q i))"
    "pq_top_active_prio_level q' = pq_top_active_prio_level q" "same_setting q q'" by simp_all
qed

lemma top_loop_ok:
  assumes "queue_ok q E" "sorted_wrt (<) is"
  shows "queue_ok (top_loop is q) E \<and> same_setting q (top_loop is q) \<and>
    view (top_loop is q) = spec_settle (pq_time_to_live_per_prio q) (pq_last_update_time q) is (view q) \<and>
    (case find (\<lambda>i. view (top_loop is q) i \<noteq> []) is of None \<Rightarrow> pq_top_active_prio_level (top_loop is q) = pq_top_active_prio_level q
     | Some k \<Rightarrow> pq_top_active_prio_level (top_loop is q) = Some k) \<and>
    (\<forall>j. j \<notin> set is \<longrightarrow> view (top_loop is q) j = view q j)"
  using assms
proof (induction "is" arbitrary: q)
  case Nil
  then show ?case by simp
next
  case (Cons i "is")
  let ?q1 = "PurgeOldPacketsAtPriorityLevel i (pq_last_update_time q) q"
  note p = Purge_ok [OF Cons.prems(1), where i = i and now = "pq_last_update_time q"]
  have i: "i \<notin> set is" using Cons.prems(2) by auto
  show ?case
  proof (cases "pq_streams_by_prio ?q1 i = []")
    case True
    define q2 where "q2 = top_loop is ?q1"
    have t: "top_loop (i # is) q = q2" using True by (simp add: q2_def Let_def)
    have v: "view ?q1 i = []" using True by simp
    have s: "pq_time_to_live_per_prio ?q1 = pq_time_to_live_per_prio q" "pq_last_update_time ?q1 = pq_last_update_time q"
      using p(4) by (simp_all add: same_setting_def)
    have "sorted_wrt (<) is" using Cons.prems(2) by simp
    from Cons.IH [OF p(1) this, folded q2_def, unfolded s p(3)]
    have ih: "queue_ok q2 E" "same_setting ?q1 q2"
        "view q2 = spec_settle (pq_time_to_live_per_prio q) (pq_last_update_time q) is (view ?q1)"
        "case find (\<lambda>i. view q2 i \<noteq> []) is of None \<Rightarrow> pq_top_active_prio_level q2 = pq_top_active_prio_level q
         | Some k \<Rightarrow> pq_top_active_prio_level q2 = Some k"
      and out: "\<And>j. j \<notin> set is \<Longrightarrow> view q2 j = view ?q1 j" by blast+
    have vi: "view q2 i = []" using out [OF i] v by simp
    have "view q2 = spec_settle (pq_time_to_live_per_prio q) (pq_last_update_time q) (i # is) (view q)"
      using v unfolding ih(3) p(2) by (simp add: Let_def del: fun_upd_apply)
    moreover have "view q2 j = view q j" if "j \<notin> set (i # is)" for j using that out [of j] unfolding p(2) by simp
    moreover have "find (\<lambda>i. view q2 i \<noteq> []) (i # is) = find (\<lambda>i. view q2 i \<noteq> []) is" using vi by simp
    ultimately show ?thesis unfolding t using ih(1,4) same_setting_trans [OF p(4) ih(2)] by metis
  next
    case False
    let ?q2 = "?q1\<lparr>pq_top_active_prio_level := Some i\<rparr>"
    have v: "view ?q2 = view ?q1" by (simp add: view_def fun_eq_iff)
    have "queue_ok ?q2 E" "same_setting q ?q2" using p(1,4) by simp_all
    moreover have "view ?q1 i \<noteq> []" using False by simp
    ultimately show ?thesis using False p(2) by (simp add: Let_def v)
  qed
qed


section \<open>Pop\<close>

lemma find_upt: "find P [0..<n] = Some k \<longleftrightarrow> k < n \<and> P k \<and> (\<forall>j<k. \<not> P j)"
  by (auto simp: find_Some_iff)

lemma high_levels_empty:
  assumes "queue_ok q E" "kNumPriorityLevels \<le> i"
  shows "pq_streams_by_prio q i = []"
proof -
  have "x \<notin> set (fifo q s i)" for x s
    using assms unfolding in_fifo queue_ok_def queues_ok_def stream_ok_def placed_def by (meson not_le)
  then have "fifo q s i = []" for s by (metis last_in_set)
  then show ?thesis using assms by (auto simp: queue_ok_def round_ok_def simp flip: set_empty)
qed

lemma spec_next_top:
  assumes "queue_ok q E" "top_ok q"
  shows "spec_next (view q) = pq_top_active_prio_level q"
proof (cases "pq_top_active_prio_level q")
  case None
  then show ?thesis using assms by (simp add: spec_next_def top_ok_def find_None_iff)
next
  case (Some t)
  then have "pq_streams_by_prio q t \<noteq> []" "\<forall>j<t. pq_streams_by_prio q j = []" using assms by (simp_all add: top_ok_def)
  moreover have "t < kNumPriorityLevels" using high_levels_empty [OF assms(1), of t] calculation by (meson not_le)
  ultimately show ?thesis by (simp add: spec_next_def find_upt Some)
qed

lemma MaybeUpdate_ok:
  assumes ok: "queue_ok q E"
    and low: "\<And>t. pq_top_active_prio_level q = Some t \<Longrightarrow> view q t \<noteq> [] \<Longrightarrow> \<forall>j<t. view q j = []"
  shows "queue_ok (MaybeUpdateTopPrioLevel q) E \<and> top_ok (MaybeUpdateTopPrioLevel q) \<and> same_setting q (MaybeUpdateTopPrioLevel q) \<and>
    view (MaybeUpdateTopPrioLevel q) = (if \<exists>t. pq_top_active_prio_level q = Some t \<and> view q t \<noteq> [] then view q
      else spec_settle (pq_time_to_live_per_prio q) (pq_last_update_time q) [0..<kNumPriorityLevels] (view q))"
proof (cases "\<exists>t. pq_top_active_prio_level q = Some t \<and> view q t \<noteq> []")
  case True
  then have "MaybeUpdateTopPrioLevel q = q" by (auto simp: MaybeUpdateTopPrioLevel_def)
  with True ok low show ?thesis by (auto simp: top_ok_def)
next
  case False
  define q1 where "q1 = top_loop [0..<kNumPriorityLevels] q"
  from top_loop_ok [OF ok sorted_wrt_upt, of 0 kNumPriorityLevels, folded q1_def]
  have q1: "queue_ok q1 E" and l: "same_setting q q1"
      "view q1 = spec_settle (pq_time_to_live_per_prio q) (pq_last_update_time q) [0..<kNumPriorityLevels] (view q)"
      "case find (\<lambda>i. view q1 i \<noteq> []) [0..<kNumPriorityLevels] of None \<Rightarrow> pq_top_active_prio_level q1 = pq_top_active_prio_level q
       | Some k \<Rightarrow> pq_top_active_prio_level q1 = Some k" by blast+
  have m: "MaybeUpdateTopPrioLevel q = (if pq_size_packets q1 = 0 then q1\<lparr>pq_top_active_prio_level := None\<rparr> else q1)"
    using False by (auto simp: MaybeUpdateTopPrioLevel_def q1_def Let_def split: option.split)
  have v: "view (MaybeUpdateTopPrioLevel q) = view q1" by (simp add: m view_def fun_eq_iff)
  have "top_ok (MaybeUpdateTopPrioLevel q)"
  proof (cases "pq_size_packets q1 = 0")
    case True
    then show ?thesis using size_zero_iff [OF q1] by (simp add: m top_ok_def)
  next
    case nz: False
    then obtain i where "pq_streams_by_prio q1 i \<noteq> []" using size_zero_iff [OF q1] by auto
    moreover from this have "i < kNumPriorityLevels" using high_levels_empty [OF q1, of i] by (meson not_le)
    ultimately obtain k where k: "find (\<lambda>i. view q1 i \<noteq> []) [0..<kNumPriorityLevels] = Some k"
      by (cases "find (\<lambda>i. view q1 i \<noteq> []) [0..<kNumPriorityLevels]") (auto simp: find_None_iff)
    with l(3) have "pq_top_active_prio_level q1 = Some k" by simp
    then show ?thesis using k nz unfolding find_upt by (simp add: m top_ok_def)
  qed
  moreover have "queue_ok (MaybeUpdateTopPrioLevel q) E" "same_setting q (MaybeUpdateTopPrioLevel q)"
    using q1 l(1) by (simp_all add: m)
  ultimately show ?thesis using l(2) False by (auto simp: v)
qed

lemma Pop_ok:
  assumes inv: "pq_inv q"
  shows "\<exists>r q'. Pop q = Some (r, q') \<and> pq_inv q' \<and> same_setting q q' \<and>
    (case spec_pop (pq_time_to_live_per_prio q) (pq_last_update_time q) (view q) of (x, A) \<Rightarrow> view q' = A \<and>
       r = map_option (\<lambda>x. (qp_packet x)\<lparr>ts_time_in_send_queue := Some (time_in_non_paused_state q x)\<rparr>) x)"
proof -
  have ok: "queue_ok q {#}" and top: "top_ok q" using inv by (simp_all add: pq_inv_def)
  note nt = spec_next_top [OF ok top]
  show ?thesis
  proof (cases "pq_top_active_prio_level q")
    case None
    then have "pq_size_packets q = 0" using top size_zero_iff [OF ok] by (simp add: top_ok_def)
    then show ?thesis using inv None nt by (simp add: Pop_def spec_pop_def)
  next
    case (Some t)
    then obtain s ss where b: "pq_streams_by_prio q t = s # ss" and low: "\<forall>j<t. pq_streams_by_prio q j = []"
      using top by (auto simp: top_ok_def neq_Nil_conv)
    have nz: "pq_size_packets q \<noteq> 0" using b size_zero_iff [OF ok] by (metis list.distinct(1))
    have r: "round_ok q i" for i using ok by (simp add: queue_ok_def)
    then have "fifo q s t \<noteq> []" using b by (force simp: round_ok_def)
    then obtain x xs where f: "fifo q s t = x # xs" by (auto simp: neq_Nil_conv)
    have w: "queues_ok q" "counted q (held q) {#}" using ok by (simp_all add: queue_ok_def)
    obtain q1 where tk: "take_packet s t q = Some ((qp_packet x)\<lparr>ts_time_in_send_queue := Some (time_in_non_paused_state q x)\<rparr>, q1)"
      and q1: "queues_ok q1" "counted q1 (held q1) {#}" "fifo q1 = (fifo q)(s := (fifo q s)(t := xs))"
        "pq_streams_by_prio q1 = pq_streams_by_prio q" "pq_top_active_prio_level q1 = pq_top_active_prio_level q" "same_setting q q1"
      using take_packet_ok [OF w f] by blast
    define q3 where "q3 = q1\<lparr>pq_streams_by_prio := (pq_streams_by_prio q1)(t := ss @ (if xs = [] then [] else [s]))\<rparr>"
    define A where "A = (view q)(t := map (\<lambda>s. (s, fifo q s t)) ss @ (if xs = [] then [] else [(s, xs)]))"
    have d: "distinct ss" "s \<notin> set ss" "set (s # ss) = {s. fifo q s t \<noteq> []}" using r [of t] b by (simp_all add: round_ok_def)
    have rt: "round_ok q3 t" "view q3 t = A t"
      using d by (auto simp: round_ok_def view_def q3_def q1(3) A_def)
    have rj: "round_ok q3 j \<and> view q3 j = A j" if "j \<noteq> t" for j
      using round_frame [of q3 j q] that r [of j] by (auto simp: q3_def q1(3,4) A_def)
    have ok3: "queue_ok q3 {#}" using rt(1) rj q1(1,2) unfolding queue_ok_def by (metis q3_def rounds_frame(2-4))
    have v3: "view q3 = A" using rt rj by (metis ext)
    have s3: "same_setting q q3" "pq_top_active_prio_level q3 = Some t" using q1 Some by (simp_all add: q3_def)
    have low3: "\<forall>j<t. view q3 j = []" using low by (simp add: q3_def q1(4))
    have sp: "spec_pop ttl now (view q) = (Some x, if A t = [] then spec_settle ttl now [0..<kNumPriorityLevels] A else A)" for ttl now
      using nt by (simp add: spec_pop_def Some view_def b f A_def Let_def cong: if_cong)
    have fs: "fifo q1 s t = xs" by (simp add: q1(3))
    show ?thesis
    proof (cases "xs = []")
      case True
      have "Pop q = Some (Some ((qp_packet x)\<lparr>ts_time_in_send_queue := Some (time_in_non_paused_state q x)\<rparr>), MaybeUpdateTopPrioLevel q3)"
        using nz Some b tk fs True by (simp add: Pop_def q3_def Let_def)
      then show ?thesis
        using MaybeUpdate_ok [OF ok3] low3 s3 by (simp add: sp pq_inv_def v3 same_setting_def)
    next
      case False
      have "Pop q = Some (Some ((qp_packet x)\<lparr>ts_time_in_send_queue := Some (time_in_non_paused_state q x)\<rparr>), q3)"
        using nz Some b tk fs False by (simp add: Pop_def q3_def Let_def)
      moreover have "A t \<noteq> []" using False by (simp add: A_def)
      moreover have "top_ok q3" using s3(2) low3 v3 calculation(2) by (simp add: top_ok_def flip: view_empty)
      ultimately show ?thesis using ok3 s3 by (simp add: sp pq_inv_def v3)
    qed
  qed
qed


section \<open>Push\<close>

lemma Update_counted: "counted q M E \<Longrightarrow> counted (UpdateAverageQueueTime now q) M E"
proof -
  assume c: "counted q M E"
  have shift: "(\<Sum>x\<in>#M. f x + d) = (\<Sum>x\<in>#M. f x) + d * int (size M)" for f :: "queued_packet \<Rightarrow> int" and d
    by (induction M) (simp_all add: algebra_simps)
  have tm: "time_in_non_paused_state (UpdateAverageQueueTime now q) x =
      time_in_non_paused_state q x + (if pq_paused q then 0 else now - pq_last_update_time q)" for x
    by (simp add: time_in_non_paused_state_def UpdateAverageQueueTime_def Let_def)
  show ?thesis using c unfolding counted_def tm by (simp add: UpdateAverageQueueTime_def Let_def shift)
qed

lemma Update_frame [simp]:
  "pq_streams (UpdateAverageQueueTime now q) = pq_streams q" "pq_streams_by_prio (UpdateAverageQueueTime now q) = pq_streams_by_prio q"
  "pq_top_active_prio_level (UpdateAverageQueueTime now q) = pq_top_active_prio_level q"
  "pq_prioritize_audio_retransmission (UpdateAverageQueueTime now q) = pq_prioritize_audio_retransmission q"
  "pq_time_to_live_per_prio (UpdateAverageQueueTime now q) = pq_time_to_live_per_prio q"
  "pq_last_update_time (UpdateAverageQueueTime now q) = now" "pq_next (UpdateAverageQueueTime now q) = pq_next q"
  "pq_enqueue_times (UpdateAverageQueueTime now q) = pq_enqueue_times q" "pq_paused (UpdateAverageQueueTime now q) = pq_paused q"
  by (simp_all add: UpdateAverageQueueTime_def Let_def)

text \<open>A change that leaves streams and rounds alone keeps the abstract queue.\<close>

lemma same_streams:
  assumes "pq_streams q' = pq_streams q" "pq_streams_by_prio q' = pq_streams_by_prio q"
    "pq_prioritize_audio_retransmission q' = pq_prioritize_audio_retransmission q"
  shows "fifo q' = fifo q" "held q' = held q" "queues_ok q' = queues_ok q" "round_ok q' = round_ok q" "view q' = view q"
proof -
  show f: "fifo q' = fifo q" using assms(1) by (intro ext) (simp add: fifo_def)
  show "held q' = held q" "queues_ok q' = queues_ok q" using assms by (simp_all add: held_def queues_ok_def)
  show "round_ok q' = round_ok q" "view q' = view q" using assms(2) by (intro ext; simp add: round_ok_def view_def f)+
qed

lemma Update_ok:
  assumes "queue_ok q E"
  shows "queue_ok (UpdateAverageQueueTime now q) E" "view (UpdateAverageQueueTime now q) = view q"
proof -
  note s = same_streams [of "UpdateAverageQueueTime now q" q, simplified]
  show "view (UpdateAverageQueueTime now q) = view q" by (rule s(5))
  show "queue_ok (UpdateAverageQueueTime now q) E" using assms Update_counted unfolding queue_ok_def s by blast
qed

lemma push_packet_ok:
  assumes ok: "queue_ok q {#iter#}" and st: "pq_streams q (rp_ssrc p) = Some st"
    and ty: "ts_packet_type p = Some ty" and level: "level = prio_level q ty p"
    and low: "\<And>j. j \<noteq> level \<Longrightarrow> pq_top_active_prio_level q = None \<Longrightarrow> view q j = []"
      "\<And>t j. pq_top_active_prio_level q = Some t \<Longrightarrow> j < t \<Longrightarrow> j \<noteq> level \<Longrightarrow> view q j = []"
      "\<And>t. pq_top_active_prio_level q = Some t \<Longrightarrow> t \<noteq> level \<Longrightarrow> view q t \<noteq> []"
  shows "\<exists>x. qp_packet x = p \<and> pq_inv (push_packet now iter ty p level q) \<and>
    time_in_non_paused_state (push_packet now iter ty p level q) x = 0 \<and>
    view (push_packet now iter ty p level q) = (view q)(level := spec_append (rp_ssrc p) x (view q level)) \<and>
    pq_time_to_live_per_prio (push_packet now iter ty p level q) = pq_time_to_live_per_prio q \<and>
    pq_last_update_time (push_packet now iter ty p level q) = now"
proof -
  let ?s = "rp_ssrc p"
  define q1 where "q1 = UpdateAverageQueueTime now q"
  define x where "x = \<lparr>qp_packet = p, qp_enqueue_time = now - pq_pause_time_sum q1, qp_iterator = iter\<rparr>"
  define st1 where "st1 = st\<lparr>sq_num_keyframe_packets := sq_num_keyframe_packets st + key_frames x,
    sq_packets := (sq_packets st)(level := sq_packets st level @ [x])\<rparr>"
  define ss where "ss = pq_streams_by_prio q level @ (if sq_packets st level = [] then [?s] else [])"
  define q4 where "q4 = q1\<lparr>pq_size_packets := pq_size_packets q1 + 1,
    pq_size_packets_per_media_type := (pq_size_packets_per_media_type q1)(ty := pq_size_packets_per_media_type q1 ty + 1),
    pq_size_payload := pq_size_payload q1 + PacketSize x, pq_streams := (pq_streams q)(?s \<mapsto> st1),
    pq_streams_by_prio := (pq_streams_by_prio q)(level := ss)\<rparr>"
  define q5 where "q5 = (if (case pq_top_active_prio_level q of None \<Rightarrow> True | Some t \<Rightarrow> level < t)
    then q4\<lparr>pq_top_active_prio_level := Some level\<rparr> else q4)"
  have q5: "push_packet now iter ty p level q = q5"
    using st by (auto simp: push_packet_def Let_def EnqueuePacket_def q5_def q4_def ss_def st1_def x_def q1_def split: option.split)
  have l5: "level < kNumPriorityLevels" using level by (simp add: prio_level_def)
  have w: "queues_ok q" "counted q1 (held q) {#iter#}" and r: "\<And>i. round_ok q i"
    using ok Update_counted by (auto simp: queue_ok_def q1_def)
  have so: "stream_ok (pq_prioritize_audio_retransmission q) ?s st" and fin: "finite (dom (pq_streams q))"
    using w(1) st by (auto simp: queues_ok_def)
  have h: "sq_held st1 = add_mset x (sq_held st)" using sq_held_upd [OF l5, of st1 st "sq_packets st level @ [x]"] by (simp add: st1_def)
  have hq: "held q4 = add_mset x (held q)"
    using held_upd [OF fin st, of st1] unfolding h by (simp add: held_def q4_def)
  have "placed (pq_prioritize_audio_retransmission q) ?s level x" using ty l5 level by (simp add: placed_def x_def prio_level_def)
  then have "stream_ok (pq_prioritize_audio_retransmission q) ?s st1" using so h by (auto simp: stream_ok_def st1_def)
  then have so4: "queues_ok q4" using w(1) by (auto simp: queues_ok_def q4_def q1_def)
  have tm: "time_in_non_paused_state q4 y = time_in_non_paused_state q1 y" for y by (simp add: time_in_non_paused_state_def q4_def)
  have t0: "time_in_non_paused_state q1 x = 0" by (simp add: time_in_non_paused_state_def x_def q1_def)
  have xs: "ts_packet_type (qp_packet x) = Some ty" "qp_iterator x = iter" using ty by (simp_all add: x_def)
  have c4: "counted q4 (held q4) {#}" using w(2) unfolding counted_def hq tm by (auto simp: q4_def xs t0)
  have f4: "fifo q4 s i = (if s = ?s \<and> i = level then fifo q s i @ [x] else fifo q s i)" for s i
    using st by (auto simp: fifo_def q4_def st1_def)
  have fs: "fifo q ?s level = sq_packets st level" using st by (simp add: fifo_def)
  have rl: "round_ok q4 level" using r [of level] f4 fs by (auto simp: round_ok_def q4_def ss_def)
  have vl: "view q4 level = spec_append ?s x (view q level)"
    using r [of level] f4 fs by (auto simp: view_def spec_append_def q4_def ss_def round_ok_def comp_def)
  have rj: "round_ok q4 j \<and> view q4 j = view q j" if "j \<noteq> level" for j
    using round_frame [of q4 j q] f4 that r [of j] by (simp add: q4_def)
  have "round_ok q4 i" for i using rl rj by (cases "i = level") auto
  then have "queue_ok q4 {#}" using so4 c4 unfolding queue_ok_def by blast
  then have ok5: "queue_ok q5 {#}" by (simp add: q5_def)
  have v5: "view q5 = (view q)(level := spec_append ?s x (view q level))"
  proof -
    have "view q5 = view q4" by (simp add: q5_def view_def fun_eq_iff)
    also have "\<dots> = (view q)(level := spec_append ?s x (view q level))" using vl rj by (auto simp: fun_eq_iff)
    finally show ?thesis .
  qed
  have ne: "spec_append ?s x lv \<noteq> []" for lv by (auto simp: spec_append_def)
  have "top_ok q5"
    using low unfolding top_ok_def view_empty [symmetric] v5
    by (auto simp: q5_def q4_def q1_def ne simp del: view_empty split: option.split if_splits)
  moreover have "time_in_non_paused_state q5 x = 0" using t0 by (simp add: time_in_non_paused_state_def q5_def q4_def)
  moreover have "pq_time_to_live_per_prio q5 = pq_time_to_live_per_prio q" "pq_last_update_time q5 = now"
    by (simp_all add: q5_def q4_def q1_def)
  ultimately show ?thesis unfolding q5 using ok5 v5 by (intro exI [of _ x]) (simp add: pq_inv_def x_def)
qed

lemma cull_ok:
  assumes inv: "pq_inv q"
  shows "pq_inv (cull_streams now q) \<and> view (cull_streams now q) = view q \<and>
    pq_time_to_live_per_prio (cull_streams now q) = pq_time_to_live_per_prio q \<and>
    pq_last_update_time (cull_streams now q) = pq_last_update_time q \<and> pq_pause_time_sum (cull_streams now q) = pq_pause_time_sum q"
proof (cases "now - pq_last_culling_time q \<le> kCullTimeout")
  case True
  then show ?thesis using inv by (simp add: cull_streams_def)
next
  case False
  let ?q = "cull_streams now q"
  have w: "queues_ok q" using inv by (simp add: pq_inv_def queue_ok_def)
  have e: "sq_packets st i = []" if "pq_streams q s = Some st" "sq_IsEmpty st" for s st i
  proof (cases "i < kNumPriorityLevels")
    case False
    then have "x \<notin> set (sq_packets st i)" for x using w that(1) unfolding queues_ok_def stream_ok_def placed_def by (meson not_le)
    then show ?thesis by (metis last_in_set)
  qed (use that(2) in \<open>auto simp: sq_IsEmpty_def list_all_iff\<close>)
  have s: "pq_streams ?q s' = (case pq_streams q s' of None \<Rightarrow> None
      | Some st \<Rightarrow> if sq_IsEmpty st \<and> sq_last_enqueue_time st + kCullTimeout < now then None else Some st)" for s'
    using False by (simp add: cull_streams_def)
  have f: "fifo ?q = fifo q" by (auto simp: fun_eq_iff fifo_def s e split: option.split)
  have d: "dom (pq_streams ?q) \<subseteq> dom (pq_streams q)" by (auto simp: s dom_def split: option.splits if_splits)
  have "sq_held (the (pq_streams q s')) = {#}" if "s' \<in> dom (pq_streams q) - dom (pq_streams ?q)" for s'
    using that e by (auto simp: s sq_held_def dom_def split: option.splits if_splits)
  then have "held q = (\<Sum>s'\<in>dom (pq_streams ?q). sq_held (the (pq_streams q s')))"
    unfolding held_def using w d by (intro sum.mono_neutral_right) (auto simp: queues_ok_def)
  also have "\<dots> = held ?q" unfolding held_def by (rule sum.cong) (auto simp: s dom_def split: option.splits if_splits)
  finally have h: "held ?q = held q" by simp
  have "queues_ok ?q" using w finite_subset [OF d] False
    by (auto simp: queues_ok_def s cull_streams_def split: option.splits if_splits)
  moreover have q: "pq_streams_by_prio ?q = pq_streams_by_prio q" "pq_top_active_prio_level ?q = pq_top_active_prio_level q"
    "pq_time_to_live_per_prio ?q = pq_time_to_live_per_prio q" "pq_last_update_time ?q = pq_last_update_time q"
    "pq_pause_time_sum ?q = pq_pause_time_sum q" by (simp_all add: cull_streams_def)
  have c: "counted ?q = counted q" by (simp add: counted_def fun_eq_iff time_in_non_paused_state_def cull_streams_def)
  have r: "round_ok ?q = round_ok q" "view ?q = view q" "top_ok ?q = top_ok q"
    by (intro ext; simp add: round_ok_def view_def f q)+ (rule top_ok_cong [OF q(1,2)])
  ultimately have "pq_inv ?q" using inv unfolding pq_inv_def queue_ok_def h c r by blast
  then show ?thesis using q r(2) by blast
qed


lemma new_stream_ok:
  assumes ok: "queue_ok q E" and n: "pq_streams q s = None"
  shows "queue_ok (q\<lparr>pq_streams := (pq_streams q)(s \<mapsto> new_stream_queue t)\<rparr>) E"
    "view (q\<lparr>pq_streams := (pq_streams q)(s \<mapsto> new_stream_queue t)\<rparr>) = view q"
proof -
  let ?q = "q\<lparr>pq_streams := (pq_streams q)(s \<mapsto> new_stream_queue t)\<rparr>"
  have e: "sq_held (new_stream_queue t) = {#}" by (simp add: sq_held_def new_stream_queue_def)
  have w: "queues_ok q" using ok by (simp add: queue_ok_def)
  have f: "fifo ?q = fifo q" using n by (intro ext) (simp add: fifo_def new_stream_queue_def)
  have h: "held ?q = held q"
    using sum_dom_upd [of "pq_streams q" sq_held s "new_stream_queue t"] w n e by (simp add: held_def queues_ok_def)
  have "stream_ok b s (new_stream_queue t)" for b using e by (simp add: stream_ok_def) (simp add: new_stream_queue_def)
  then have so: "queues_ok ?q" using w by (auto simp: queues_ok_def)
  have c: "counted ?q = counted q" by (simp add: counted_def fun_eq_iff time_in_non_paused_state_def)
  have r: "round_ok ?q = round_ok q" by (intro ext) (simp add: round_ok_def f)
  show "queue_ok ?q E" using ok so unfolding queue_ok_def h c r by blast
  show "view ?q = view q" by (intro ext) (simp add: view_def f)
qed

lemma new_iterator_ok:
  fixes t :: int
  assumes ok: "queue_ok q {#}"
  defines "q' \<equiv> q\<lparr>pq_enqueue_times := pq_enqueue_times q @ [(pq_next q, t)], pq_next := pq_next q + 1\<rparr>"
  shows "queue_ok q' {#pq_next q#}" "view q' = view q"
proof -
  have f: "pq_streams q' = pq_streams q" "pq_streams_by_prio q' = pq_streams_by_prio q"
    "pq_prioritize_audio_retransmission q' = pq_prioritize_audio_retransmission q" by (simp_all add: q'_def)
  note s = same_streams [OF f]
  have "counted q (held q) {#}" using ok by (simp add: queue_ok_def)
  moreover have "time_in_non_paused_state q' = time_in_non_paused_state q" by (simp add: q'_def time_in_non_paused_state_def fun_eq_iff)
  ultimately have "counted q' (held q) {#pq_next q#}" by (auto simp: counted_def q'_def less_Suc_eq)
  then show "queue_ok q' {#pq_next q#}" using ok unfolding queue_ok_def s by blast
  show "view q' = view q" by (rule s(5))
qed

lemma Push_ok:
  assumes inv: "pq_inv q" and ty: "ts_packet_type p = Some ty"
  shows "\<exists>q' x. Push now p q = Some q' \<and> pq_inv q' \<and> qp_packet x = p \<and> time_in_non_paused_state q' x = 0 \<and>
    view q' = spec_push (pq_time_to_live_per_prio q) now (prio_level q ty p) (rp_ssrc p) x (view q) \<and>
    pq_time_to_live_per_prio q' = pq_time_to_live_per_prio q \<and> pq_last_update_time q' = now"
proof -
  let ?s = "rp_ssrc p" and ?l = "prio_level q ty p"
  have ok: "queue_ok q {#}" and top: "top_ok q" using inv by (simp_all add: pq_inv_def)
  define q1 where "q1 = (if pq_streams q ?s = None then q\<lparr>pq_streams := (pq_streams q)(?s \<mapsto> new_stream_queue now)\<rparr> else q)"
  have q1: "queue_ok q1 {#}" "view q1 = view q" using ok new_stream_ok [OF ok] by (simp_all add: q1_def)
  define q2 where "q2 = q1\<lparr>pq_enqueue_times := pq_enqueue_times q1 @ [(pq_next q1, now)], pq_next := pq_next q1 + 1\<rparr>"
  have q2: "queue_ok q2 {#pq_next q1#}" "view q2 = view q" using new_iterator_ok [OF q1(1)] q1(2) by (simp_all add: q2_def)
  have f2: "prio_level q2 ty p = ?l" "pq_time_to_live_per_prio q2 = pq_time_to_live_per_prio q"
    "pq_top_active_prio_level q2 = pq_top_active_prio_level q" "?s \<in> dom (pq_streams q2)"
    by (auto simp: prio_level_def q2_def q1_def)
  define q3 where "q3 = PurgeOldPacketsAtPriorityLevel ?l now q2"
  note p3 = Purge_ok [OF q2(1), where i = ?l and now = now, folded q3_def, unfolded q2(2) f2]
  have "?s \<in> dom (pq_streams q3)" and l3: "?l = prio_level q3 ty p" and t3: "pq_time_to_live_per_prio q3 = pq_time_to_live_per_prio q"
    using p3(4) f2 by (simp_all add: same_setting_def prio_level_def)
  then obtain st where st: "pq_streams q3 ?s = Some st" by auto
  have v3: "view q3 j = view q j" if "j \<noteq> ?l" for j using that unfolding p3(2) by simp
  have "\<exists>x. qp_packet x = p \<and> pq_inv (push_packet now (pq_next q1) ty p ?l q3) \<and>
    time_in_non_paused_state (push_packet now (pq_next q1) ty p ?l q3) x = 0 \<and>
    view (push_packet now (pq_next q1) ty p ?l q3) = (view q3)(?l := spec_append ?s x (view q3 ?l)) \<and>
    pq_time_to_live_per_prio (push_packet now (pq_next q1) ty p ?l q3) = pq_time_to_live_per_prio q3 \<and>
    pq_last_update_time (push_packet now (pq_next q1) ty p ?l q3) = now"
    by (rule push_packet_ok [OF p3(1) st ty l3]) (use top v3 p3(3) in \<open>auto simp: top_ok_def simp flip: view_empty\<close>)
  then obtain x where x: "qp_packet x = p" and i: "pq_inv (push_packet now (pq_next q1) ty p ?l q3)"
    and t0: "time_in_non_paused_state (push_packet now (pq_next q1) ty p ?l q3) x = 0"
    and v: "view (push_packet now (pq_next q1) ty p ?l q3) = (view q3)(?l := spec_append ?s x (view q3 ?l))"
    and s: "pq_time_to_live_per_prio (push_packet now (pq_next q1) ty p ?l q3) = pq_time_to_live_per_prio q3"
      "pq_last_update_time (push_packet now (pq_next q1) ty p ?l q3) = now" by blast
  have "Push now p q = Some (cull_streams now (push_packet now (pq_next q1) ty p ?l q3))"
    using f2(1) by (simp add: Push_def ty Let_def q1_def q2_def q3_def)
  moreover have "(view q3)(?l := spec_append ?s x (view q3 ?l)) = spec_push (pq_time_to_live_per_prio q) now ?l ?s x (view q)"
    unfolding p3(2) by (simp add: spec_push_def)
  ultimately show ?thesis using cull_ok [OF i, of now] x t0 v s t3
    by (intro exI [of _ "cull_streams now (push_packet now (pq_next q1) ty p ?l q3)"] exI [of _ x]) (simp add: time_in_non_paused_state_def)
qed


section \<open>Removing a stream\<close>

lemma dequeue_all_ok:
  assumes "counted q (mset xs + M) E" "\<forall>x\<in>set xs. ts_packet_type (qp_packet x) \<noteq> None"
  defines "q' \<equiv> foldl (\<lambda>q x. snd (DequeuePacketInternal x q)) q xs"
  shows "counted q' M E \<and> pq_streams q' = pq_streams q \<and> pq_streams_by_prio q' = pq_streams_by_prio q \<and>
    pq_top_active_prio_level q' = pq_top_active_prio_level q \<and> same_setting q q'"
  using assms(1,2) unfolding q'_def
proof (induction xs arbitrary: q)
  case Nil
  then show ?case by simp
next
  case (Cons x xs)
  obtain ty where "ts_packet_type (qp_packet x) = Some ty" using Cons.prems(2) by auto
  then have "counted (snd (DequeuePacketInternal x q)) (mset xs + M) E" using DequeuePacketInternal_counted Cons.prems(1) by simp
  from Cons.IH [OF this] Cons.prems(2) show ?case
    using DequeuePacketInternal_frame(1-3) [of x q] DequeuePacketInternal_frame(4) [of q x] by (auto intro: same_setting_trans)
qed

lemma remove_levels_ok:
  assumes "counted q (M + (\<Sum>i\<leftarrow>is. mset (P i))) E" "\<forall>i. \<forall>x\<in>set (P i). ts_packet_type (qp_packet x) \<noteq> None"
    "\<forall>i\<in>set is. P i \<noteq> [] \<longleftrightarrow> s \<in> set (pq_streams_by_prio q i)" "distinct is"
  shows "counted (remove_levels s P is q) M E \<and> pq_streams (remove_levels s P is q) = pq_streams q \<and>
    pq_streams_by_prio (remove_levels s P is q) =
      (\<lambda>i. if i \<in> set is then filter (\<lambda>s'. s' \<noteq> s) (pq_streams_by_prio q i) else pq_streams_by_prio q i) \<and>
    pq_top_active_prio_level (remove_levels s P is q) = pq_top_active_prio_level q \<and> same_setting q (remove_levels s P is q)"
  using assms
proof (induction "is" arbitrary: q)
  case Nil
  then show ?case by simp
next
  case (Cons i "is")
  show ?case
  proof (cases "P i = []")
    case True
    then have "s \<notin> set (pq_streams_by_prio q i)" using Cons.prems(3) by simp
    then have "filter (\<lambda>s'. s' \<noteq> s) (pq_streams_by_prio q i) = pq_streams_by_prio q i" by (simp add: filter_id_conv) blast
    then show ?thesis using Cons.IH [of q] Cons.prems True by (auto simp: fun_eq_iff)
  next
    case False
    define q1 where "q1 = foldl (\<lambda>q x. snd (DequeuePacketInternal x q)) q (P i)"
    have "counted q (mset (P i) + (M + (\<Sum>i\<leftarrow>is. mset (P i)))) E" using Cons.prems(1) by (simp add: ac_simps)
    from dequeue_all_ok [OF this, folded q1_def] Cons.prems(2)
    have q1: "counted q1 (M + (\<Sum>i\<leftarrow>is. mset (P i))) E" "pq_streams q1 = pq_streams q" "pq_streams_by_prio q1 = pq_streams_by_prio q"
      "pq_top_active_prio_level q1 = pq_top_active_prio_level q" "same_setting q q1" by simp_all
    let ?ss = "pq_streams_by_prio q i"
    let ?q2 = "q1\<lparr>pq_streams_by_prio := (pq_streams_by_prio q)(i := filter (\<lambda>s'. s' \<noteq> s) ?ss)\<rparr>"
    have "s \<in> set ?ss" using False Cons.prems(3) by simp
    then have "(if length ?ss = 1 then tl ?ss else filter (\<lambda>s'. s' \<noteq> s) ?ss) = filter (\<lambda>s'. s' \<noteq> s) ?ss"
      by (auto simp: length_Suc_conv)
    then have r: "remove_levels s P (i # is) q = remove_levels s P is ?q2"
      using False by (cases "length ?ss = 1") (simp_all add: q1_def [symmetric] q1(3) Let_def)
    define q2 where "q2 = ?q2"
    have b2: "pq_streams_by_prio q2 = (pq_streams_by_prio q)(i := filter (\<lambda>s'. s' \<noteq> s) ?ss)" by (simp add: q2_def)
    have "counted q2 (M + (\<Sum>i\<leftarrow>is. mset (P i))) E" using q1(1) by (simp add: q2_def)
    moreover have "\<forall>j\<in>set is. P j \<noteq> [] \<longleftrightarrow> s \<in> set (pq_streams_by_prio q2 j)" "distinct is" and i: "i \<notin> set is"
      using Cons.prems(3,4) by (auto simp: b2)
    ultimately have ih: "counted (remove_levels s P is q2) M E" "pq_streams (remove_levels s P is q2) = pq_streams q2"
      "pq_streams_by_prio (remove_levels s P is q2) =
        (\<lambda>i. if i \<in> set is then filter (\<lambda>s'. s' \<noteq> s) (pq_streams_by_prio q2 i) else pq_streams_by_prio q2 i)"
      "pq_top_active_prio_level (remove_levels s P is q2) = pq_top_active_prio_level q2" "same_setting q2 (remove_levels s P is q2)"
      using Cons.IH [of q2] Cons.prems(2) by simp_all
    have "same_setting q q2" "pq_streams q2 = pq_streams q" "pq_top_active_prio_level q2 = pq_top_active_prio_level q"
      using q1 by (simp_all add: q2_def)
    moreover have "pq_streams_by_prio (remove_levels s P is q2) =
        (\<lambda>j. if j \<in> set (i # is) then filter (\<lambda>s'. s' \<noteq> s) (pq_streams_by_prio q j) else pq_streams_by_prio q j)"
      using i unfolding ih(3) b2 by (auto simp: fun_eq_iff)
    ultimately show ?thesis using ih same_setting_trans unfolding r q2_def [symmetric] by metis
  qed
qed

lemma spec_settle_empty:
  assumes "\<And>i. A i = []"
  shows "spec_settle ttl now is A = A"
proof (induction "is")
  case (Cons i "is")
  have "spec_purge (ttl i) now (A i) = A i" using assms by (simp add: spec_purge_def split: option.split)
  then show ?case using Cons assms by (simp add: Let_def fun_upd_idem)
qed simp

text \<open>The rounds after the stream has left them.\<close>

definition without_stream :: "u32 \<Rightarrow> packet_queue \<Rightarrow> packet_queue" where
  "without_stream s q = (case pq_streams q s of None \<Rightarrow> q
     | Some st \<Rightarrow> (let (packets_by_prio, st1) = DequeueAll st in
         remove_levels s packets_by_prio [0..<kNumPriorityLevels] (q\<lparr>pq_streams := (pq_streams q)(s \<mapsto> st1)\<rparr>)))"

lemma without_stream_ok:
  assumes ok: "queue_ok q {#}"
  shows "queue_ok (without_stream s q) {#} \<and> view (without_stream s q) = (\<lambda>i. filter (\<lambda>(s', _). s' \<noteq> s) (view q i)) \<and>
    pq_top_active_prio_level (without_stream s q) = pq_top_active_prio_level q \<and> same_setting q (without_stream s q)"
proof (cases "pq_streams q s")
  case None
  then have "fifo q s i = []" for i by (simp add: fifo_def)
  then have "s \<notin> set (pq_streams_by_prio q i)" for i using ok by (simp add: queue_ok_def round_ok_def)
  then have "filter (\<lambda>(s', _). s' \<noteq> s) (view q i) = view q i" for i by (auto simp: view_def filter_id_conv)
  then show ?thesis using ok None by (simp add: without_stream_def fun_eq_iff)
next
  case (Some st)
  define st1 where "st1 = st\<lparr>sq_packets := (\<lambda>_. []), sq_num_keyframe_packets := 0\<rparr>"
  define q0 where "q0 = q\<lparr>pq_streams := (pq_streams q)(s \<mapsto> st1)\<rparr>"
  define q1 where "q1 = remove_levels s (sq_packets st) [0..<kNumPriorityLevels] q0"
  have q1: "without_stream s q = q1" by (simp add: without_stream_def Some DequeueAll_def q1_def q0_def st1_def)
  have w: "queues_ok q" and c: "counted q (held q) {#}" and r: "\<And>i. round_ok q i" using ok by (auto simp: queue_ok_def)
  have so: "stream_ok (pq_prioritize_audio_retransmission q) s st" and fin: "finite (dom (pq_streams q))"
    using w Some by (auto simp: queues_ok_def)
  have e: "sq_held st1 = {#}" by (simp add: sq_held_def st1_def)
  have "sq_held st = (\<Sum>i\<leftarrow>[0..<kNumPriorityLevels]. mset (sq_packets st i))"
    by (simp add: sq_held_def sum_list_distinct_conv_sum_set atLeast0LessThan)
  then have h: "held q = held q0 + (\<Sum>i\<leftarrow>[0..<kNumPriorityLevels]. mset (sq_packets st i))"
    using held_upd [OF fin Some, of st1] e by (simp add: q0_def)
  have c0: "counted q0 (held q0 + (\<Sum>i\<leftarrow>[0..<kNumPriorityLevels]. mset (sq_packets st i))) {#}"
    using c unfolding h by (simp add: counted_def q0_def time_in_non_paused_state_def)
  have ty: "\<forall>i. \<forall>x\<in>set (sq_packets st i). ts_packet_type (qp_packet x) \<noteq> None" using so by (auto simp: stream_ok_def placed_def)
  have fs: "fifo q s = sq_packets st" using Some by (intro ext) (simp add: fifo_def)
  have m: "sq_packets st i \<noteq> [] \<longleftrightarrow> s \<in> set (pq_streams_by_prio q i)" for i using r [of i] by (simp add: round_ok_def fs)
  then have m0: "\<forall>i\<in>set [0..<kNumPriorityLevels]. sq_packets st i \<noteq> [] \<longleftrightarrow> s \<in> set (pq_streams_by_prio q0 i)" by (simp add: q0_def)
  have b0: "pq_streams_by_prio q0 = pq_streams_by_prio q" "pq_top_active_prio_level q0 = pq_top_active_prio_level q"
    by (simp_all add: q0_def)
  from remove_levels_ok [OF c0 ty m0 distinct_upt, folded q1_def, unfolded b0]
  have l: "counted q1 (held q0) {#}" "pq_streams q1 = pq_streams q0" "pq_top_active_prio_level q1 = pq_top_active_prio_level q"
      "same_setting q0 q1"
    and b: "pq_streams_by_prio q1 = (\<lambda>i. if i < kNumPriorityLevels then filter (\<lambda>s'. s' \<noteq> s) (pq_streams_by_prio q i) else pq_streams_by_prio q i)"
    by simp_all
  have b1: "pq_streams_by_prio q1 i = filter (\<lambda>s'. s' \<noteq> s) (pq_streams_by_prio q i)" for i
    using high_levels_empty [OF ok, of i] by (simp add: b)
  have f1: "fifo q1 s' i = (if s' = s then [] else fifo q s' i)" for s' i
    by (simp add: fifo_def l(2) q0_def st1_def)
  have "round_ok q1 i" for i using r [of i] by (auto simp: round_ok_def b1 f1)
  moreover have h1: "held q1 = held q0" by (rule held_cong [OF l(2)])
  moreover have "stream_ok b s st1" for b using e by (simp add: stream_ok_def) (simp add: st1_def)
  then have "queues_ok q1" using w l(2,4) by (auto simp: queues_ok_def same_setting_def q0_def)
  ultimately have "queue_ok q1 {#}" using l(1) by (simp add: queue_ok_def)
  moreover have "same_setting q q1" using l(4) Some by (auto simp: same_setting_def q0_def)
  moreover have "view q1 i = filter (\<lambda>(s', _). s' \<noteq> s) (view q i)" for i
    by (simp add: view_def b1 f1 filter_map comp_def)
  ultimately show ?thesis unfolding q1 using l(3) by (simp add: fun_eq_iff)
qed

lemma Remove_ok:
  assumes inv: "pq_inv q"
  shows "pq_inv (RemovePacketsForSsrc s q) \<and> same_setting q (RemovePacketsForSsrc s q) \<and>
    view (RemovePacketsForSsrc s q) = spec_remove (pq_time_to_live_per_prio q) (pq_last_update_time q) s (view q)"
proof -
  define q1 where "q1 = without_stream s q"
  have ok: "queue_ok q {#}" and top: "top_ok q" using inv by (simp_all add: pq_inv_def)
  from without_stream_ok [OF ok, of s, folded q1_def]
  have ok1: "queue_ok q1 {#}" and v: "view q1 = (\<lambda>i. filter (\<lambda>(s', _). s' \<noteq> s) (view q i))"
    and t: "pq_top_active_prio_level q1 = pq_top_active_prio_level q" and ss: "same_setting q q1" by simp_all
  have s1: "pq_time_to_live_per_prio q1 = pq_time_to_live_per_prio q" "pq_last_update_time q1 = pq_last_update_time q"
    using ss by (simp_all add: same_setting_def)
  have low: "\<forall>j<t. view q1 j = []" if "pq_top_active_prio_level q1 = Some t" for t
    using top that unfolding v t top_ok_def by (simp add: view_def)
  have r: "RemovePacketsForSsrc s q = MaybeUpdateTopPrioLevel q1"
    by (simp add: RemovePacketsForSsrc_def q1_def without_stream_def)
  note m = MaybeUpdate_ok [OF ok1 low, unfolded s1]
  have "view (MaybeUpdateTopPrioLevel q1) = spec_remove (pq_time_to_live_per_prio q) (pq_last_update_time q) s (view q)"
  proof (cases "pq_top_active_prio_level q")
    case None
    then have "view q i = []" for i using top by (simp add: top_ok_def)
    then show ?thesis using m None spec_next_top [OF ok top] spec_settle_empty [of "view q1"]
      by (simp add: spec_remove_def t v Let_def del: view_empty)
  next
    case (Some k)
    then show ?thesis using m spec_next_top [OF ok top] by (simp add: spec_remove_def t v Let_def del: view_empty)
  qed
  then show ?thesis using m same_setting_trans [OF ss] unfolding r pq_inv_def by blast
qed


section \<open>All queues\<close>

text \<open>What the pacer does with its queue, at any times, in any order.\<close>

inductive pq_step :: "packet_queue \<Rightarrow> packet_queue \<Rightarrow> bool" where
  pq_push: "Push now p q = Some q' \<Longrightarrow> pq_step q q'"
| pq_pop: "Pop q = Some (r, q') \<Longrightarrow> pq_step q q'"
| pq_update: "pq_step q (UpdateAverageQueueTime now q)"
| pq_pause: "pq_step q (SetPauseState paused now q)"
| pq_remove: "pq_step q (RemovePacketsForSsrc s q)"

inductive pq_reach :: "packet_queue \<Rightarrow> bool" where
  pq_start: "pq_reach (new_packet_queue now prioritize ttl)"
| pq_next_step: "pq_reach q \<Longrightarrow> pq_step q q' \<Longrightarrow> pq_reach q'"

lemma new_queue_inv: "pq_inv (new_packet_queue now prioritize ttl)"
  by (simp add: pq_inv_def queue_ok_def queues_ok_def counted_def round_ok_def top_ok_def held_def fifo_def new_packet_queue_def)

lemma Update_inv:
  assumes "pq_inv q"
  shows "pq_inv (UpdateAverageQueueTime now q)"
  using assms Update_ok(1) [of q "{#}" now] top_ok_cong [of "UpdateAverageQueueTime now q" q] by (simp add: pq_inv_def)

lemma Pause_inv:
  assumes "pq_inv q"
  shows "pq_inv (SetPauseState paused now q)"
proof -
  let ?q = "UpdateAverageQueueTime now q"
  let ?q' = "?q\<lparr>pq_paused := paused\<rparr>"
  have s: "held ?q' = held ?q" "queues_ok ?q' = queues_ok ?q" "round_ok ?q' = round_ok ?q" using same_streams [of ?q' ?q] by simp_all
  have c: "counted ?q' = counted ?q" by (simp add: counted_def fun_eq_iff time_in_non_paused_state_def)
  have "top_ok ?q' = top_ok ?q" by (rule top_ok_cong) simp_all
  then show ?thesis using Update_inv [OF assms, of now] unfolding SetPauseState_def pq_inv_def queue_ok_def s c by blast
qed

lemma pq_step_inv: "pq_step q q' \<Longrightarrow> pq_inv q \<Longrightarrow> pq_inv q'"
proof (induction rule: pq_step.induct)
  case (pq_push now p q q')
  then obtain ty where "ts_packet_type p = Some ty" by (auto simp: Push_def split: option.splits)
  then show ?case using Push_ok [of q p ty now] pq_push by auto
next
  case (pq_pop q r q')
  then show ?case using Pop_ok [of q] by auto
next
  case (pq_update q now)
  then show ?case by (rule Update_inv)
next
  case (pq_pause q paused now)
  then show ?case by (rule Pause_inv)
next
  case (pq_remove q s)
  then show ?case using Remove_ok by blast
qed

lemma pq_reach_inv: "pq_reach q \<Longrightarrow> pq_inv q"
  by (induction rule: pq_reach.induct) (use new_queue_inv pq_step_inv in blast)+

lemma key_frames_sum: "(\<Sum>x\<in>#M. key_frames x) = int (size {#x \<in># M. ts_is_key_frame (qp_packet x)#})"
  by (induction M) (simp_all add: key_frames_def)

lemma HasKeyframePackets_held:
  assumes w: "queues_ok q"
  shows "HasKeyframePackets s q \<longleftrightarrow> (\<exists>x. x \<in># held q \<and> rp_ssrc (qp_packet x) = s \<and> ts_is_key_frame (qp_packet x))"
proof -
  have own: "s' = rp_ssrc (qp_packet x) \<and> i < kNumPriorityLevels" if x: "x \<in> set (fifo q s' i)" for x s' i
  proof -
    from x obtain st where "pq_streams q s' = Some st" "x \<in> set (sq_packets st i)" unfolding in_fifo by blast
    then have "placed (pq_prioritize_audio_retransmission q) s' i x" using w by (simp add: queues_ok_def stream_ok_def)
    then show ?thesis by (simp add: placed_def)
  qed
  have "HasKeyframePackets s q \<longleftrightarrow> (\<exists>x i. x \<in> set (fifo q s i) \<and> ts_is_key_frame (qp_packet x))"
  proof (cases "pq_streams q s")
    case None
    then show ?thesis by (simp add: HasKeyframePackets_def in_fifo)
  next
    case (Some st)
    then have "sq_num_keyframe_packets st = (\<Sum>x\<in>#sq_held st. key_frames x)" using w by (simp add: queues_ok_def stream_ok_def)
    then have "HasKeyframePackets s q \<longleftrightarrow> 0 < size {#x \<in># sq_held st. ts_is_key_frame (qp_packet x)#}"
      using Some by (simp add: HasKeyframePackets_def key_frames_sum del: size_eq_0_iff_empty)
    also have "\<dots> \<longleftrightarrow> (\<exists>x. x \<in># sq_held st \<and> ts_is_key_frame (qp_packet x))" 
      unfolding nonempty_has_size [symmetric] by (metis (mono_tags, lifting) filter_mset_eq_mempty_iff)
    also have "\<dots> \<longleftrightarrow> (\<exists>x i. x \<in> set (fifo q s i) \<and> ts_is_key_frame (qp_packet x))"
      using own Some unfolding in_sq_held by (fastforce simp: in_fifo)
    finally show ?thesis .
  qed
  then show ?thesis using own unfolding in_held [OF w] by metis
qed

text \<open>C37. The pacer's queue never loses track of what it holds.  Whatever sequence of operations led to its state, at whatever times: a
packet can be taken without touching an empty or freed stream; the number of packets, in total and per media type, and the
number of payload bytes are those of the packets held; the sum behind the average queue time is exactly the time these packets
have waited outside of pauses; every packet has its own entry in the list of enqueue times and there is no other; and
\<open>HasKeyframePackets\<close> answers exactly whether the stream holds a packet marked as part of a key frame.  The packet may be a
retransmission: the comment in the header says retransmissions are not counted, but the code looks at the mark only
(\<open>retransmitted_key_frame_counts\<close> below is such a queue).\<close>

theorem packet_queue_counts_what_it_holds:
  assumes "pq_reach q"
  shows "Pop q \<noteq> None \<and> (\<forall>i. \<forall>s\<in>set (pq_streams_by_prio q i). pq_streams q s \<noteq> None) \<and>
    pq_size_packets q = int (size (held q)) \<and>
    (\<forall>ty. pq_size_packets_per_media_type q ty = int (size {#x \<in># held q. ts_packet_type (qp_packet x) = Some ty#})) \<and>
    pq_size_payload q = (\<Sum>x\<in>#held q. PacketSize x) \<and>
    pq_queue_time_sum q = (\<Sum>x\<in>#held q. time_in_non_paused_state q x) \<and>
    mset (map fst (pq_enqueue_times q)) = image_mset qp_iterator (held q) \<and> distinct (map fst (pq_enqueue_times q)) \<and>
    (\<forall>s. HasKeyframePackets s q \<longleftrightarrow> (\<exists>x. x \<in># held q \<and> rp_ssrc (qp_packet x) = s \<and> ts_is_key_frame (qp_packet x)))"
proof -
  have inv: "pq_inv q" by (rule pq_reach_inv [OF assms])
  then have w: "queues_ok q" and c: "counted q (held q) {#}" and r: "\<And>i. round_ok q i" by (auto simp: pq_inv_def queue_ok_def)
  have "Pop q \<noteq> None" using Pop_ok [OF inv] by auto
  moreover have "pq_streams q s \<noteq> None" if "s \<in> set (pq_streams_by_prio q i)" for s i
    using that r [of i] by (auto simp: round_ok_def fifo_def split: option.splits)
  ultimately show ?thesis using c HasKeyframePackets_held [OF w] unfolding counted_def by auto
qed

text \<open>A queue with one video packet.\<close>

definition no_ttl :: PacketQueueTTL where
  "no_ttl = \<lparr>ttl_audio_retransmission = None, ttl_video_retransmission = None, ttl_video = None\<rparr>"

definition demo_packet :: rtp_packet_to_send where
  "demo_packet = rtp_packet.extend (new_rtp_packet\<lparr>rp_ssrc := 7, rp_payload_size := 100\<rparr>)
     \<lparr>ts_packet_type = Some kVideo, ts_original_packet_type = None, ts_is_key_frame = False, ts_time_in_send_queue = None\<rparr>"

lemma demo_packet_fields [simp]:
  "rp_ssrc demo_packet = 7" "rp_payload_size demo_packet = 100" "rp_padding_size demo_packet = 0"
  "ts_packet_type demo_packet = Some kVideo" "ts_original_packet_type demo_packet = None"
  by (simp_all add: demo_packet_def rtp_packet.defs new_rtp_packet_def)

definition demo_queue :: packet_queue where
  "demo_queue = the (Push 10 demo_packet (new_packet_queue 0 False no_ttl))"

lemma demo_queue_push: "Push 10 demo_packet (new_packet_queue 0 False no_ttl) = Some demo_queue"
  by (simp add: demo_queue_def Push_def Let_def)

theorem packet_queue_counts_what_it_holds_witness:
  "Pop demo_queue \<noteq> None \<and> size (held demo_queue) = 1 \<and> (\<Sum>x\<in>#held demo_queue. PacketSize x) = 100"
proof -
  have "pq_reach demo_queue" by (rule pq_next_step [OF pq_start pq_push [OF demo_queue_push]])
  note c = packet_queue_counts_what_it_holds [OF this]
  have "pq_size_packets demo_queue = 1" "pq_size_payload demo_queue = 100"
    by (simp_all add: demo_queue_def Push_def Let_def push_packet_def cull_streams_def new_packet_queue_def no_ttl_def prio_level_def
        PurgeOldPacketsAtPriorityLevel_def ToTtlPerPrio_def UpdateAverageQueueTime_def EnqueuePacket_def PacketSize_def kCullTimeout_def
        new_stream_queue_def)
  with c show ?thesis by simp
qed

text \<open>A queue that holds nothing but the retransmission of a packet of a key frame: it reports a key frame.\<close>

definition demo_rtx :: rtp_packet_to_send where
  "demo_rtx = demo_packet\<lparr>ts_packet_type := Some kRetransmission, ts_original_packet_type := Some OriginalVideo, ts_is_key_frame := True\<rparr>"

lemma demo_rtx_fields [simp]:
  "rp_ssrc demo_rtx = 7" "ts_packet_type demo_rtx = Some kRetransmission" "ts_is_key_frame demo_rtx" "ts_original_packet_type demo_rtx = Some OriginalVideo"
  by (simp_all add: demo_rtx_def demo_packet_def rtp_packet.defs)

lemma retransmitted_key_frame_counts:
  obtains q x where "Push 10 demo_rtx (new_packet_queue 0 False no_ttl) = Some q" "pq_reach q" "HasKeyframePackets 7 q"
    "held q = {#x#}" "ts_packet_type (qp_packet x) = Some kRetransmission"
proof -
  let ?q0 = "new_packet_queue 0 False no_ttl"
  obtain q where q: "Push 10 demo_rtx ?q0 = Some q" by (simp add: Push_def Let_def)
  have r: "pq_reach q" by (rule pq_next_step [OF pq_start pq_push [OF q]])
  have inv: "pq_inv q" by (rule pq_reach_inv [OF r])
  then have w: "queues_ok q" and c: "counted q (held q) {#}" by (auto simp: pq_inv_def queue_ok_def)
  have k: "HasKeyframePackets 7 q" and n: "pq_size_packets q = 1"
    using q by (auto simp: HasKeyframePackets_def Push_def Let_def push_packet_def cull_streams_def new_packet_queue_def no_ttl_def prio_level_def
        PurgeOldPacketsAtPriorityLevel_def ToTtlPerPrio_def UpdateAverageQueueTime_def EnqueuePacket_def PacketSize_def kCullTimeout_def
        new_stream_queue_def key_frames_def)
  have t: "pq_size_packets_per_media_type q kRetransmission = 1"
    using q by (auto simp: Push_def Let_def push_packet_def cull_streams_def new_packet_queue_def no_ttl_def prio_level_def
        PurgeOldPacketsAtPriorityLevel_def ToTtlPerPrio_def UpdateAverageQueueTime_def EnqueuePacket_def PacketSize_def kCullTimeout_def
        new_stream_queue_def)
  from n c have "size (held q) = 1" by (simp add: counted_def)
  then obtain x where x: "held q = {#x#}" using size_1_singleton_mset by blast
  with t c have "ts_packet_type (qp_packet x) = Some kRetransmission" by (auto simp: counted_def split: if_splits)
  with q r k x show ?thesis using that by blast
qed

text \<open>C36. The pacer's queue is a queue of five levels of streams that take turns.  In every reachable state, seen as the streams of each
level in the order of their turns with their packets: \<open>Push\<close> drops the packets at the front of the new packet's level that are
too old and puts the packet last in its stream, a new stream last in the round; \<open>Pop\<close> returns the oldest packet of the
first stream of the most important level that has one, marked with the time it waited, and that stream goes to the end of
the round; and removing an SSRC removes exactly that stream.  Old packets of other levels leave only when a level has
run empty.\<close>

theorem packet_queue_takes_turns:
  assumes "pq_reach q" "ts_packet_type p = Some ty"
  shows "(\<exists>q' x. Push now p q = Some q' \<and> qp_packet x = p \<and> time_in_non_paused_state q' x = 0 \<and>
      view q' = spec_push (pq_time_to_live_per_prio q) now (prio_level q ty p) (rp_ssrc p) x (view q)) \<and>
    (\<exists>r q'. Pop q = Some (r, q') \<and>
      (case spec_pop (pq_time_to_live_per_prio q) (pq_last_update_time q) (view q) of (x, A) \<Rightarrow> view q' = A \<and>
         r = map_option (\<lambda>x. (qp_packet x)\<lparr>ts_time_in_send_queue := Some (time_in_non_paused_state q x)\<rparr>) x)) \<and>
    view (RemovePacketsForSsrc s q) = spec_remove (pq_time_to_live_per_prio q) (pq_last_update_time q) s (view q)"
proof -
  have inv: "pq_inv q" by (rule pq_reach_inv [OF assms(1)])
  from Push_ok [OF inv assms(2), of now] obtain q1 x where push: "Push now p q = Some q1" "qp_packet x = p"
    "time_in_non_paused_state q1 x = 0"
    "view q1 = spec_push (pq_time_to_live_per_prio q) now (prio_level q ty p) (rp_ssrc p) x (view q)" by (elim exE conjE)
  from Pop_ok [OF inv] obtain r q2 where "Pop q = Some (r, q2)"
    "case spec_pop (pq_time_to_live_per_prio q) (pq_last_update_time q) (view q) of (x, A) \<Rightarrow> view q2 = A \<and>
       r = map_option (\<lambda>x. (qp_packet x)\<lparr>ts_time_in_send_queue := Some (time_in_non_paused_state q x)\<rparr>) x" by (elim exE conjE)
  with push Remove_ok [OF inv, of s] show ?thesis by (intro conjI exI [of _ q1] exI [of _ x] exI [of _ r] exI [of _ q2]) simp_all
qed

theorem packet_queue_takes_turns_witness:
  "\<exists>x. qp_packet x = demo_packet \<and> view demo_queue 3 = [(7, [x])]"
proof -
  let ?q = "new_packet_queue 0 False no_ttl"
  have "ts_packet_type demo_packet = Some kVideo" by simp
  from packet_queue_takes_turns [OF pq_start this, where now = 10, of 0 False no_ttl]
  obtain x where x: "qp_packet x = demo_packet"
    "view demo_queue = spec_push (pq_time_to_live_per_prio ?q) 10 (prio_level ?q kVideo demo_packet) (rp_ssrc demo_packet) x (view ?q)"
    unfolding demo_queue_push by blast
  have v: "view ?q = (\<lambda>_. [])" by (intro ext) (simp add: new_packet_queue_def)
  have l: "prio_level ?q kVideo demo_packet = 3" "pq_time_to_live_per_prio ?q 3 = None"
    by (simp_all add: prio_level_def new_packet_queue_def ToTtlPerPrio_def no_ttl_def)
  show ?thesis using x(1) unfolding x(2) v l(1) by (intro exI [of _ x]) (simp add: spec_push_def spec_append_def spec_purge_def l(2))
qed

end
