(* ===== verification/Spec2Isabelle.thy ===== *)
theory Spec2Isabelle
  imports Bitmap Block_Codec Ctrl_Codec Take_Code End_To_End Session_Link Session_Props Config Core_Props Peer_Connection_Props Packet_Queue_Props
begin

text \<open>
  CrossTransfer: verification of the transfer core and of its transport
  =====================================================================

  CrossTransfer moves files between two peers.  A share on the sending side has a take code; a receiver claims it, the
  two sides connect through the transport library \<^verbatim>\<open>minirtc\<close> and one transfer session runs between them: the sender offers a
  manifest, the receiver accepts it with what it already holds, the sender sends the files in blocks over unreliable
  datagrams, the receiver acknowledges selectively (SACK), verifies every file by its SHA-256 and renames it into place.
  This development models the C++ core under \<^verbatim>\<open>src/core/src\<close> and, of the transport library under \<^verbatim>\<open>src/minirtc/src\<close>, the path
  a datagram takes: signalling and sessions, the DTLS handshake, and the data transport with its RTP packets.

  Theories and the code they model
  --------------------------------

  \<^item> \<open>CT_Prelude\<close>: words, bytes, ordered maps (\<^verbatim>\<open>std::map\<close>), the lemma collections shared by all components.
  \<^item> \<open>Protocol\<close>: the constants of \<^verbatim>\<open>transfer/protocol.h\<close>.
  \<^item> \<open>Bitmap\<close>: \<^verbatim>\<open>transfer/bitmap.{h,cpp}\<close>, a bitmap of 64-bit words with 32-bit cursors.  The scans are partial functions, since
    at the largest sizes they do not return.  Shown: Set refines insertion into a set, AckBase, Holes and HaveRuns are
    exact up to the limit on the number of runs and away from these sizes, saved runs restore the bitmap.
  \<^item> \<open>Block_Codec\<close>, \<open>Ctrl_Codec\<close>: \<^verbatim>\<open>transfer/block_codec.cpp\<close> and \<^verbatim>\<open>transfer/ctrl_codec.cpp\<close>, byte for byte, with round trips,
    exactness of the decoder and the bound of the reassembly buffer.
  \<^item> \<open>Path_Sanitize\<close>, \<open>Manifest\<close>, \<open>Json\<close>: \<^verbatim>\<open>transfer/path_sanitize.cpp\<close>, \<^verbatim>\<open>transfer/manifest.cpp\<close>.  The JSON library is the record
    \<open>json_ops\<close>, a parameter; \<open>json_laws\<close> and \<open>json_value_laws\<close> are the documented facts the round trips use, and \<open>jval_ops\<close> is an
    instance.  Shown: accepted manifests are safe and stay below the save directory, ValidUtf8 is exact, and the manifests that
    survive a round trip are those with \<open>manifest_ok\<close>.
  \<^item> \<open>Take_Code\<close>: \<^verbatim>\<open>share/take_code.cpp\<close>, parsing and printing of codes and links.
  \<^item> \<open>File_Io\<close>: \<^verbatim>\<open>transfer/file_io.cpp\<close> and \<^verbatim>\<open>transfer/sha256.cpp\<close> (POSIX branches) over a store of files with an oracle for failing,
    short and interrupted system calls.  An atomic write goes through a stream that may keep data in its buffer until \<^verbatim>\<open>fflush\<close> or
    \<^verbatim>\<open>fclose\<close> (\<open>stream_put\<close>, \<open>stream_write\<close>, \<open>stream_close\<close>).  SHA-256 itself is the parameter \<open>sha\<close>.
  \<^item> \<open>Receiver\<close>, \<open>Receiver_Inv\<close>, \<open>Receiver_Props\<close>: \<^verbatim>\<open>transfer/receiver.cpp\<close>.  \<open>rcv\<close> is the object with its queues, disk and callbacks;
    \<open>rcv_step\<close> interleaves the transport callbacks, the owner and passes of the writer thread.  The locale \<open>rx_env\<close> states what
    payloads and hashes are assumed to satisfy and what follows for the files; it is interpreted twice on the model,
    for arbitrary peers (integrity) and for honest ones (delivery).  Statements about part files assume that no part or
    final path coincides with another (\<open>paths_ok\<close>, and \<open>no_clash\<close> for the inputs of \<^verbatim>\<open>Start\<close>, which does not check it).
  \<^item> \<open>Sender\<close>, \<open>Sender_Steps\<close>: \<^verbatim>\<open>transfer/sender.cpp\<close>.  The sender thread takes from an environment, at every point where it reads shared state,
    the actions of the other threads, the clock and the answers of the link; a statement about every environment covers
    every interleaving.  Loops carry the length of the environment as fuel and use at least one entry per pass; a run
    that uses it up ends in \<open>Starved\<close>, an index outside a vector in \<open>Crash\<close>.
  \<^item> \<open>End_To_End\<close>: sender and receiver composed: what arrives is what was sent.
  \<^item> \<open>Event_Loop\<close>, \<open>Session_Link\<close>: \<^verbatim>\<open>runtime/event_loop.cpp\<close> and \<^verbatim>\<open>runtime/session_link.cpp\<close>: order of tasks and of ctrl messages.
  \<^item> \<open>Transfer_Session\<close>, \<open>Session_Runs\<close>, \<open>Session_Props\<close>: \<^verbatim>\<open>share/transfer_session.cpp\<close>, the handlers of the ctrl protocol and the state
    machine around the engines; \<open>ss_run\<close> interleaves events, messages, user requests and the engine threads.  The sender thread moves
    in it as \<open>tx_Run\<close> does between two of its readings of shared state (\<open>sender_thread\<close>); that it finishes only with every file
    confirmed is proved of \<open>tx_Run\<close> (\<open>tx_Run_finished\<close>), not assumed.
  \<^item> \<open>Config\<close>: \<^verbatim>\<open>api/config.cpp\<close> and \<^verbatim>\<open>storage/storage.cpp\<close>, preferences and the two files that keep state.  Shown: a release build
    protects the settings of the publisher.
  \<^item> \<open>Peer\<close>: \<^verbatim>\<open>runtime/peer.cpp\<close>, the adapter of the transport library; the calls it makes are recorded, the answers are parameters.
  \<^item> \<open>Core\<close>, \<open>Core_Loop\<close>: \<^verbatim>\<open>api/core.cpp\<close>, the shares, receives and transfers as tasks of the event loop, \<open>core_task\<close> for one task.
    A call of a null \<^verbatim>\<open>peer_\<close> sets \<open>co_null_call\<close>, and \<open>core_handle\<close> does not return from a task that made one.  Sessions are those of \<open>Transfer_Session\<close>, their callbacks act on the core.
  \<^item> \<open>Core_Steps\<close>, \<open>Core_Inv\<close>, \<open>Core_Props\<close>: what each task keeps; the invariant \<open>core_wf\<close> of all states reachable by tasks the code
    posts, the tasks of \<^verbatim>\<open>Shutdown\<close> included (\<open>core_reach\<close>, with a flag for the peer having been taken away), proved through the part of the state that carries cross references (\<open>skel\<close>); what a restart brings
    back; and interleavings in which an answer or an identifier reaches the wrong object.

  \<^item> \<open>Rtp_Packet\<close>: \<^verbatim>\<open>minirtc/src/rtp\<close> (packets, the packetizer of the data streams) and the RTCP common header.  A read outside the
    buffer is \<open>None\<close>; shown: there is none, whatever the bytes, and what the packetizer writes is read back.
  \<^item> \<open>Data_Transport\<close>, \<open>Data_Transport_Props\<close>: \<^verbatim>\<open>minirtc/src/transport/data_transport.cpp\<close>.  \<open>transport\<close> is the object, \<open>dt_log\<close> records the datagrams
    it sends, the data it delivers and its calls of pacer and congestion controller; KCP and SRTP are the records \<open>kcp_ops\<close> and
    \<open>srtp_ops\<close>, parameters.  Loops over KCP's receive queue carry the number of segments it holds as fuel; \<open>kcp_drain_loop_enough\<close>
    shows that more changes nothing.  The locale \<open>run_relation\<close> states that a relation between states composes over loops; it is
    interpreted for the three relations the invariants use.  Shown: an accepted datagram reaches the same stream of the
    peer when the SRTP sessions accept its packet (\<open>srtp_passes\<close>), and with SRTP only protected datagrams leave (\<open>dt_reach\<close>).
  \<^item> \<open>Packet_Queue\<close>, \<open>Packet_Queue_Props\<close>: \<^verbatim>\<open>minirtc/src/qos/prioritized_packet_queue.cc\<close>, the queue of the pacer between the transport and the
    network.  Shown: its counters always agree with its packets (\<open>pq_inv\<close>; retransmissions of key frames are counted as key frames), and its operations refine those of an abstract queue of
    five levels in which the streams take turns (\<open>view\<close>, \<open>spec_push\<close>, \<open>spec_pop\<close>, \<open>spec_remove\<close>).
  \<^item> \<open>Dtls_Transport\<close>: \<^verbatim>\<open>minirtc/src/ice/dtls_transport.cpp\<close>, the handshake state and the check of the fingerprint; OpenSSL is \<open>ssl_ops\<close>.
  \<^item> \<open>Ws_Client\<close>: \<^verbatim>\<open>minirtc/src/ws/ws_client.cpp\<close>, the WebSocket connection, its reconnects and their threads (\<open>ws_step\<close>).  Shown: in every
    reachable state at most one endpoint is alive, and one that went down has a reconnect under way.
  \<^item> \<open>Peer_Connection\<close>, \<open>Peer_Connection_Inv\<close>, \<open>Peer_Connection_Props\<close>: \<^verbatim>\<open>minirtc/src/pc/peer_connection.cpp\<close>, signalling, sessions and the switch to the relay.
    Sessions are objects in a heap; what WebSocket, ICE, the clock and JSON answer is the argument \<open>env\<close> of every step.
    \<open>cn_step\<close> interleaves the worker's tasks, incoming frames and datagrams, calls of the application and the transport's
    threads; \<open>conn_inv\<close> holds in every reachable connection.  Shown: nothing unprotected leaves, data is refused until the
    handshake is verified, descriptions and relay frames of one side are understood by the other, and two races of the
    switch to the relay.

  Conventions
  -----------

  A loop that may not end, and a library call that throws, is a function into \<open>option\<close> with \<open>None\<close> for not returning normally.
  Errors reported by the code are values.  Clock readings, random numbers and answers of the transport are arguments, so
  statements hold for all of them.  Doubles are rationals.

  Not modelled
  ------------

  \<^item> Of \<^verbatim>\<open>minirtc\<close>: congestion control, probing and the pacing budget (\<^verbatim>\<open>qos\<close>, taken over from WebRTC, except the queue), the ICE agent, the
    endpoint (websocketpp) of the WebSocket client and its trust store.
    The transport records its calls of them and has their answers as parameters.  KCP, libsrtp, OpenSSL and libjuice are
    libraries outside the repository.  The core model (\<open>Peer\<close>) and the model of \<^verbatim>\<open>minirtc\<close> meet at the C interface, which only
    converts arguments; they are not composed.
  \<^item> Locks and thread identity of \<^verbatim>\<open>Peer\<close>, \<^verbatim>\<open>EventLoop\<close> and \<^verbatim>\<open>minirtc\<close>: operations are atomic, tasks run one at a time.
    Of \<^verbatim>\<open>PacedSender\<close> only the numbering of packets is modelled; its shutdown flag is not, since a stopped transport ignores the packet.
  \<^item> The core hands the receives it saves to the storage as JSON values; the storage and its file functions (\<open>Config\<close>, \<open>File_Io\<close>)
    are modelled, but the two are not composed.
  \<^item> The Windows branches of the file functions, the OpenSSL digest, logging, the C interface (it only converts arguments),
    and the user interfaces.
\<close>

end
